(* ===== verification/Ark_Prelude.thy ===== *)
theory Ark_Prelude
  imports Main "HOL-Library.Word" "HOL-Library.List_Lexorder" "HOL-Library.Multiset"
begin

text \<open>
  Shared vocabulary of the development: the machine types of the Rust sources, results with
  errors and panics as values, the reader monad of the protocol decoders, and generic lemmas
  on lists that the component theories use.

  \<^item> Rust's \<open>u8\<close>, \<open>u16\<close>, \<open>u32\<close> and \<open>u64\<close> are words of that width.
  \<^item> A function that returns \<open>Result<T, E>\<close> and may also panic is of type
    \<open>('e, 't) outcome\<close>: \<open>Inl (Err e)\<close> is the error value, \<open>Inl (Panic m)\<close> the panic
    with the message of the failing \<open>expect\<close>, \<open>unwrap\<close> or \<open>assert\<close>.
  \<^item> An \<open>io::Read\<close> is the list of the bytes that are still to be read.
\<close>

named_theorems decode_simps \<open>rewrite rules that run a decoder on an encoded prefix\<close>
named_theorems tree_simps \<open>closed forms of the radix-4 tree\<close>
named_theorems value_simps \<open>sums of output values\<close>

type_synonym byte = "8 word"
type_synonym bytes = "byte list"
type_synonym u16 = "16 word"
type_synonym u32 = "32 word"
type_synonym u64 = "64 word"

section \<open>Results with panics\<close>

datatype 'e failure = Err 'e | Panic string

type_synonym ('e, 'a) outcome = "'e failure + 'a"

abbreviation Ok :: "'a \<Rightarrow> ('e, 'a) outcome" where
  "Ok x \<equiv> Inr x"

abbreviation err :: "'e \<Rightarrow> ('e, 'a) outcome" where
  "err e \<equiv> Inl (Err e)"

abbreviation panic :: "string \<Rightarrow> ('e, 'a) outcome" where
  "panic m \<equiv> Inl (Panic m)"

text \<open>The \<open>?\<close> operator: stop at the first error or panic.\<close>

definition and_then :: "'f + 'a \<Rightarrow> ('a \<Rightarrow> 'f + 'b) \<Rightarrow> 'f + 'b" where
  "and_then m f = (case m of Inl e \<Rightarrow> Inl e | Inr x \<Rightarrow> f x)"

lemma and_then_simps [simp]:
  "and_then (Inr x) f = f x"
  "and_then (Inl e) f = Inl e"
  by (simp_all add: and_then_def)

lemma and_then_eq_Inr: "and_then m f = Inr y \<longleftrightarrow> (\<exists>x. m = Inr x \<and> f x = Inr y)"
  by (cases m) auto

lemma and_then_cong [fundef_cong]:
  "m = m' \<Longrightarrow> (\<And>x. m' = Inr x \<Longrightarrow> f x = g x) \<Longrightarrow> and_then m f = and_then m' g"
  by (cases m) (auto simp: and_then_def)

text \<open>\<open>Option::ok_or\<close> and \<open>Option::expect\<close>.\<close>

definition ok_or :: "'a option \<Rightarrow> 'e \<Rightarrow> ('e, 'a) outcome" where
  "ok_or x e = (case x of None \<Rightarrow> err e | Some v \<Rightarrow> Ok v)"

definition expect :: "'a option \<Rightarrow> string \<Rightarrow> ('e, 'a) outcome" where
  "expect x m = (case x of None \<Rightarrow> panic m | Some v \<Rightarrow> Ok v)"

lemma ok_or_simps [simp]:
  "ok_or (Some v) e = Ok v" "ok_or None e = err e"
  "expect (Some v) m = Ok v" "expect None m = panic m"
  by (simp_all add: ok_or_def expect_def)

text \<open>\<open>map_err\<close> on the error value; a panic passes through.\<close>

fun map_err :: "('e \<Rightarrow> 'f) \<Rightarrow> ('e, 'a) outcome \<Rightarrow> ('f, 'a) outcome" where
  "map_err g (Inr x) = Inr x"
| "map_err g (Inl (Err e)) = Inl (Err (g e))"
| "map_err g (Inl (Panic m)) = Inl (Panic m)"

lemma map_err_eq_Inr [simp]: "map_err g m = Inr x \<longleftrightarrow> m = Inr x"
  by (induction g m rule: map_err.induct) auto

text \<open>\<open>slice::get\<close>.\<close>

definition nth_opt :: "'a list \<Rightarrow> nat \<Rightarrow> 'a option" where
  "nth_opt xs i = (if i < length xs then Some (xs ! i) else None)"

lemma nth_opt_simps [simp]:
  "nth_opt [] i = None"
  "nth_opt (x # xs) 0 = Some x"
  "nth_opt (x # xs) (Suc i) = nth_opt xs i"
  by (simp_all add: nth_opt_def)

lemma nth_opt_eq_Some: "nth_opt xs i = Some x \<longleftrightarrow> i < length xs \<and> xs ! i = x"
  by (auto simp: nth_opt_def)

lemma nth_opt_eq_None [simp]: "nth_opt xs i = None \<longleftrightarrow> length xs \<le> i"
  by (auto simp: nth_opt_def)

lemma nth_opt_append_length [simp]: "nth_opt (xs @ y # ys) (length xs) = Some y"
  by (simp add: nth_opt_def)

text \<open>The first error of a list of fallible steps, as \<open>collect::<Result<Vec<_>, _>>()\<close>.\<close>

fun collect_results :: "('f + 'a) list \<Rightarrow> 'f + 'a list" where
  "collect_results [] = Inr []"
| "collect_results (m # ms) = and_then m (\<lambda>x. and_then (collect_results ms) (\<lambda>xs. Inr (x # xs)))"

lemma collect_results_map_Inr [simp]: "collect_results (map (\<lambda>x. Inr (f x)) xs) = Inr (map f xs)"
  by (induction xs) auto

lemma collect_results_eq_Inr:
  "collect_results ms = Inr xs \<longleftrightarrow> ms = map Inr xs"
  by (induction ms arbitrary: xs) (auto simp: and_then_eq_Inr)

text \<open>\<open>Peekable::peek\<close>: the next element, if there is one.\<close>

fun peek :: "'a list \<Rightarrow> 'a option" where
  "peek [] = None"
| "peek (x # _) = Some x"

lemma peek_drop: "peek (drop i xs) = nth_opt xs i"
proof (induction i arbitrary: xs)
  case 0
  show ?case by (cases xs) simp_all
next
  case (Suc i)
  then show ?case by (cases xs) simp_all
qed

lemma Cons_eq_drop:
  assumes "x # rest = drop i xs"
  shows "nth_opt xs i = Some x" "rest = drop (Suc i) xs" "peek rest = nth_opt xs (Suc i)"
proof -
  show "nth_opt xs i = Some x"
    using peek_drop [of i xs] by (simp add: assms [symmetric])
  have "drop (Suc i) xs = tl (drop i xs)" by (simp add: drop_Suc tl_drop)
  then show "rest = drop (Suc i) xs" by (simp add: assms [symmetric])
  then show "peek rest = nth_opt xs (Suc i)" by (simp add: peek_drop)
qed

section \<open>Decoders\<close>

text \<open>
  \<open>ProtocolDecodingError\<close> of \<open>encode.rs\<close>: an I/O error (end of input, or invalid data) or
  an invalid encoding with its message.
\<close>

datatype decode_error = Io_UnexpectedEof | Io_InvalidData string | Invalid string

type_synonym 'a decoder = "bytes \<Rightarrow> decode_error + 'a \<times> bytes"

definition dreturn :: "'a \<Rightarrow> 'a decoder" where
  "dreturn x = (\<lambda>b. Inr (x, b))"

definition dfail :: "decode_error \<Rightarrow> 'a decoder" where
  "dfail e = (\<lambda>b. Inl e)"

definition dbind :: "'a decoder \<Rightarrow> ('a \<Rightarrow> 'b decoder) \<Rightarrow> 'b decoder" where
  "dbind m f = (\<lambda>b. case m b of Inl e \<Rightarrow> Inl e | Inr (x, r) \<Rightarrow> f x r)"

text \<open>\<open>for _ in 0..n { v.push(T::decode(r)?) }\<close>\<close>

primrec dec_times :: "nat \<Rightarrow> 'a decoder \<Rightarrow> 'a list decoder" where
  "dec_times 0 d = dreturn []"
| "dec_times (Suc n) d = dbind d (\<lambda>x. dbind (dec_times n d) (\<lambda>xs. dreturn (x # xs)))"

lemma dreturn_apply [decode_simps]: "dreturn x b = Inr (x, b)"
  by (simp add: dreturn_def)

lemma dfail_apply [decode_simps]: "dfail e b = Inl e"
  by (simp add: dfail_def)

lemma dbind_Inr [decode_simps]: "m b = Inr (x, r) \<Longrightarrow> dbind m f b = f x r"
  by (simp add: dbind_def)

lemma dbind_Inl [decode_simps]: "m b = Inl e \<Longrightarrow> dbind m f b = Inl e"
  by (simp add: dbind_def)

lemma dbind_eq_Inr:
  "dbind m f b = Inr (y, s) \<longleftrightarrow> (\<exists>x r. m b = Inr (x, r) \<and> f x r = Inr (y, s))"
  by (auto simp: dbind_def split: sum.splits)

lemma dec_times_length: "dec_times n d b = Inr (xs, r) \<Longrightarrow> length xs = n"
  by (induction n arbitrary: b xs r) (auto simp: dbind_eq_Inr dreturn_apply)

section \<open>Codecs\<close>

text \<open>
  The contract of \<open>ProtocolEncoding\<close>: what \<open>encode\<close> wrote, \<open>decode\<close> reads back and leaves
  the rest of the input alone. An encoder is an option because some encoders panic
  (\<open>expect("... length overflow")\<close>); \<open>wf\<close> are the values of the Rust type.
\<close>

fun enc_all :: "('a \<Rightarrow> bytes option) \<Rightarrow> 'a list \<Rightarrow> bytes option" where
  "enc_all e [] = Some []"
| "enc_all e (x # xs) =
     (case e x of None \<Rightarrow> None | Some b \<Rightarrow>
       (case enc_all e xs of None \<Rightarrow> None | Some c \<Rightarrow> Some (b @ c)))"

lemma enc_all_total [simp]: "enc_all (\<lambda>x. Some (f x)) xs = Some (concat (map f xs))"
  by (induction xs) auto

locale codec =
  fixes enc :: "'a \<Rightarrow> bytes option"
    and dec :: "'a decoder"
    and wf :: "'a \<Rightarrow> bool"
  assumes roundtrip: "wf x \<Longrightarrow> enc x = Some b \<Longrightarrow> dec (b @ r) = Inr (x, r)"
begin

lemma roundtrip_exact: "wf x \<Longrightarrow> enc x = Some b \<Longrightarrow> dec b = Inr (x, [])"
  using roundtrip [of x b "[]"] by simp

lemma prefix_free:
  assumes "wf x" "wf y" "enc x = Some b" "enc y = Some c" "b @ r = c @ s"
  shows "x = y" "r = s"
  using roundtrip [OF assms(1,3), of r] roundtrip [OF assms(2,4), of s] assms(5) by auto

lemma enc_inj: "wf x \<Longrightarrow> wf y \<Longrightarrow> enc x = Some b \<Longrightarrow> enc y = Some b \<Longrightarrow> x = y"
  using prefix_free(1) [of x y b b "[]" "[]"] by simp

lemma roundtrip_list:
  "list_all wf xs \<Longrightarrow> enc_all enc xs = Some b \<Longrightarrow>
   dec_times (length xs) dec (b @ r) = Inr (xs, r)"
proof (induction xs arbitrary: b)
  case Nil
  then show ?case by (simp add: decode_simps)
next
  case (Cons x xs)
  from Cons.prems(2) obtain b1 b2 where b: "enc x = Some b1" "enc_all enc xs = Some b2" "b = b1 @ b2"
    by (auto split: option.splits)
  have "dec (b1 @ (b2 @ r)) = Inr (x, b2 @ r)"
    using Cons.prems(1) b(1) by (simp add: roundtrip del: append_assoc)
  moreover have "dec_times (length xs) dec (b2 @ r) = Inr (xs, r)"
    using Cons b(2) by simp
  ultimately show ?case by (simp add: b(3) decode_simps)
qed

end

text \<open>
  A canonical codec reads nothing but what its encoder writes: no value has two encodings.
\<close>

locale canonical_codec = codec +
  assumes canonical: "dec b = Inr (x, r) \<Longrightarrow> wf x \<and> (\<exists>e. enc x = Some e \<and> b = e @ r)"
begin

lemma canonical_list:
  "dec_times n dec b = Inr (xs, r) \<Longrightarrow>
   list_all wf xs \<and> (\<exists>e. enc_all enc xs = Some e \<and> b = e @ r)"
proof (induction n arbitrary: b xs r)
  case 0
  then show ?case by (simp add: decode_simps)
next
  case (Suc n)
  then obtain x b' ys where d: "dec b = Inr (x, b')" "dec_times n dec b' = Inr (ys, r)" "xs = x # ys"
    by (auto simp: dbind_eq_Inr dreturn_apply)
  from Suc.IH [OF d(2)] canonical [OF d(1)] d(3) show ?case by auto
qed

lemma canonical_reencode:
  "dec b = Inr (x, r) \<Longrightarrow> enc x = Some e \<Longrightarrow> b = e @ r"
  using canonical by fastforce

end

section \<open>Lists\<close>

text \<open>\<open>iter().enumerate().filter(|(i, _)| i != idx)\<close>: all elements but the one at an index.\<close>

fun drop_nth :: "nat \<Rightarrow> 'a list \<Rightarrow> 'a list" where
  "drop_nth i [] = []"
| "drop_nth 0 (x # xs) = xs"
| "drop_nth (Suc i) (x # xs) = x # drop_nth i xs"

lemma drop_nth_take_drop: "drop_nth i xs = take i xs @ drop (Suc i) xs"
  by (induction i xs rule: drop_nth.induct) auto

lemma take_drop_nth: "i < length xs \<Longrightarrow> take i (drop_nth i xs) @ [xs ! i] @ drop i (drop_nth i xs) = xs"
  by (simp add: drop_nth_take_drop min_def id_take_nth_drop [symmetric])

lemma length_drop_nth: "i < length xs \<Longrightarrow> length (drop_nth i xs) = length xs - 1"
  by (auto simp: drop_nth_take_drop min_def)

lemma drop_nth_append: "i < length xs \<Longrightarrow> drop_nth i (xs @ ys) = drop_nth i xs @ ys"
  by (simp add: drop_nth_take_drop)

lemma map_drop_nth: "map f (drop_nth i xs) = drop_nth i (map f xs)"
  by (simp add: drop_nth_take_drop take_map drop_map)

lemma sum_list_drop_nth [value_simps]:
  fixes xs :: "nat list"
  shows "i < length xs \<Longrightarrow> xs ! i + sum_list (drop_nth i xs) = sum_list xs"
  by (induction i xs rule: drop_nth.induct) auto

lemma sum_list_nth_le: "i < length xs \<Longrightarrow> xs ! i \<le> sum_list xs" for xs :: "nat list"
  using sum_list_drop_nth [of i xs] by linarith

lemma sum_list_concat_map [value_simps]:
  "sum_list (concat xss) = sum_list (map sum_list xss)" for xss :: "nat list list"
  by (induction xss) simp_all

lemma set_drop_nth_subset: "set (drop_nth i xs) \<subseteq> set xs"
  by (induction i xs rule: drop_nth.induct) auto

end
