(* ===== verification/Ark_Encode.thy ===== *)
theory Ark_Encode
  imports Ark_Prelude
begin

text \<open>
  The wire primitives of \<open>lib/src/encode.rs\<close>: the little-endian integers of \<open>WriteExt\<close>
  and \<open>ReadExt\<close>, the compact size ("VarInt") and the byte-string instances of
  \<open>ProtocolEncoding\<close> (public keys, Schnorr signatures, SHA-256 hashes and their optional
  forms). Each is an instance of the codec interface; the canonical ones reject every other
  encoding of a value.

  Whether 33 bytes are a point of the curve, and whether 64 bytes are a signature, is decided
  by secp256k1, which is not part of the repository: the decoders take these two tests as
  the arguments \<open>pk_ok\<close> (\<open>PublicKey::from_slice\<close>) and \<open>sig_ok\<close>
  (\<open>schnorr::Signature::from_slice\<close>).
\<close>

section \<open>Little-endian integers\<close>

text \<open>\<open>to_le_bytes\<close> and \<open>from_le_bytes\<close> on the value of the integer.\<close>

primrec le_bytes :: "nat \<Rightarrow> nat \<Rightarrow> bytes" where
  "le_bytes 0 n = []"
| "le_bytes (Suc k) n = word_of_nat (n mod 256) # le_bytes k (n div 256)"

fun le_val :: "bytes \<Rightarrow> nat" where
  "le_val [] = 0"
| "le_val (b # bs) = unat b + 256 * le_val bs"

definition emit_u8 :: "byte \<Rightarrow> bytes" where
  "emit_u8 v = le_bytes 1 (unat v)"

definition emit_u16 :: "u16 \<Rightarrow> bytes" where
  "emit_u16 v = le_bytes 2 (unat v)"

definition emit_u32 :: "u32 \<Rightarrow> bytes" where
  "emit_u32 v = le_bytes 4 (unat v)"

definition emit_u64 :: "u64 \<Rightarrow> bytes" where
  "emit_u64 v = le_bytes 8 (unat v)"

definition emit_slice :: "bytes \<Rightarrow> bytes" where
  "emit_slice s = s"

text \<open>\<open>read_exact\<close>: fill a buffer of \<open>n\<close> bytes or fail with \<open>UnexpectedEof\<close>.\<close>

definition read_exact :: "nat \<Rightarrow> bytes decoder" where
  "read_exact n = (\<lambda>b. if length b < n then Inl Io_UnexpectedEof else Inr (take n b, drop n b))"

definition read_u8 :: "byte decoder" where
  "read_u8 = dbind (read_exact 1) (\<lambda>buf. dreturn (word_of_nat (le_val buf)))"

definition read_u16 :: "u16 decoder" where
  "read_u16 = dbind (read_exact 2) (\<lambda>buf. dreturn (word_of_nat (le_val buf)))"

definition read_u32 :: "u32 decoder" where
  "read_u32 = dbind (read_exact 4) (\<lambda>buf. dreturn (word_of_nat (le_val buf)))"

definition read_u64 :: "u64 decoder" where
  "read_u64 = dbind (read_exact 8) (\<lambda>buf. dreturn (word_of_nat (le_val buf)))"

text \<open>\<open>read_byte_array::<N>\<close> and \<open>read_slice\<close> into a buffer of \<open>N\<close> bytes.\<close>

definition read_byte_array :: "nat \<Rightarrow> bytes decoder" where
  "read_byte_array n = read_exact n"

section \<open>Compact sizes\<close>

text \<open>
  \<open>emit_compact_size\<close> returns the number of bytes it wrote next to writing them.
\<close>

definition emit_compact_size :: "u64 \<Rightarrow> bytes \<times> nat" where
  "emit_compact_size v =
     (if v \<le> 0xFC then (emit_u8 (ucast v), 1)
      else if v \<le> 0xFFFF then (emit_u8 0xFD @ emit_u16 (ucast v), 3)
      else if v \<le> 0xFFFFFFFF then (emit_u8 0xFE @ emit_u32 (ucast v), 5)
      else (emit_u8 0xFF @ emit_u64 v, 9))"

definition read_compact_size :: "u64 decoder" where
  "read_compact_size = dbind read_u8 (\<lambda>n.
     if n = 0xFF then
       dbind read_u64 (\<lambda>x. if x < 0x100000000 then dfail (Io_InvalidData ''non-minimal varint'')
                             else dreturn x)
     else if n = 0xFE then
       dbind read_u32 (\<lambda>x. if x < 0x10000 then dfail (Io_InvalidData ''non-minimal varint'')
                             else dreturn (ucast x))
     else if n = 0xFD then
       dbind read_u16 (\<lambda>x. if x < 0xFD then dfail (Io_InvalidData ''non-minimal varint'')
                             else dreturn (ucast x))
     else dreturn (ucast n))"

section \<open>Keys, signatures and hashes\<close>

text \<open>
  A public key is its 33-byte compressed serialization, a Schnorr signature its 64 bytes, a
  SHA-256 hash its 32 bytes.
\<close>

type_synonym PublicKey = bytes
type_synonym Signature = bytes
type_synonym Hash = bytes

definition PUBLIC_KEY_SIZE :: nat where
  "PUBLIC_KEY_SIZE = 33"

definition SCHNORR_SIGNATURE_SIZE :: nat where
  "SCHNORR_SIGNATURE_SIZE = 64"

definition enc_pubkey :: "PublicKey \<Rightarrow> bytes" where
  "enc_pubkey pk = emit_slice pk"

definition dec_pubkey :: "(bytes \<Rightarrow> bool) \<Rightarrow> PublicKey decoder" where
  "dec_pubkey pk_ok = dbind (read_exact PUBLIC_KEY_SIZE) (\<lambda>buf.
     if pk_ok buf then dreturn buf else dfail (Invalid ''invalid public key''))"

definition enc_opt_hash :: "Hash option \<Rightarrow> bytes" where
  "enc_opt_hash h = (case h of Some h \<Rightarrow> emit_u8 1 @ emit_slice h | None \<Rightarrow> emit_u8 0)"

definition dec_opt_hash :: "Hash option decoder" where
  "dec_opt_hash = dbind read_u8 (\<lambda>first.
     if first = 0 then dreturn None
     else if first = 1 then dbind (read_exact 32) (\<lambda>buf. dreturn (Some buf))
     else dfail (Invalid ''invalid optional hash prefix byte''))"

definition enc_opt_pubkey :: "PublicKey option \<Rightarrow> bytes" where
  "enc_opt_pubkey pk = (case pk of Some pk \<Rightarrow> emit_slice pk | None \<Rightarrow> emit_u8 0)"

definition dec_opt_pubkey :: "(bytes \<Rightarrow> bool) \<Rightarrow> PublicKey option decoder" where
  "dec_opt_pubkey pk_ok = dbind read_u8 (\<lambda>first.
     if first = 0 then dreturn None
     else dbind (read_exact (PUBLIC_KEY_SIZE - 1)) (\<lambda>rest.
       if pk_ok (first # rest) then dreturn (Some (first # rest))
       else dfail (Invalid ''invalid public key'')))"

definition enc_sig :: "Signature \<Rightarrow> bytes" where
  "enc_sig s = emit_slice s"

definition dec_sig :: "(bytes \<Rightarrow> bool) \<Rightarrow> Signature decoder" where
  "dec_sig sig_ok = dbind (read_exact SCHNORR_SIGNATURE_SIZE) (\<lambda>buf.
     if sig_ok buf then dreturn buf else dfail (Invalid ''invalid schnorr signature''))"

definition enc_opt_sig :: "Signature option \<Rightarrow> bytes" where
  "enc_opt_sig s = (case s of Some s \<Rightarrow> emit_slice s
                              | None \<Rightarrow> emit_slice (replicate SCHNORR_SIGNATURE_SIZE 0))"

definition dec_opt_sig :: "(bytes \<Rightarrow> bool) \<Rightarrow> Signature option decoder" where
  "dec_opt_sig sig_ok = dbind (read_exact SCHNORR_SIGNATURE_SIZE) (\<lambda>buf.
     if buf = replicate SCHNORR_SIGNATURE_SIZE 0 then dreturn None
     else if sig_ok buf then dreturn (Some buf)
     else dfail (Invalid ''invalid schnorr signature''))"

definition enc_hash :: "Hash \<Rightarrow> bytes" where
  "enc_hash h = emit_slice h"

definition dec_hash :: "Hash decoder" where
  "dec_hash = read_exact 32"

text \<open>
  MuSig public nonces (66 bytes) and partial signatures (32 bytes), with \<open>from_byte_array\<close> of
  secp256k1-musig as an argument. Both decoders use the message of the nonces.
\<close>

definition PUBLIC_NONCE_SIZE :: nat where
  "PUBLIC_NONCE_SIZE = 66"

definition PARTIAL_SIGNATURE_SIZE :: nat where
  "PARTIAL_SIGNATURE_SIZE = 32"

definition enc_nonce :: "bytes \<Rightarrow> bytes" where
  "enc_nonce n = emit_slice n"

definition dec_nonce :: "(bytes \<Rightarrow> bool) \<Rightarrow> bytes decoder" where
  "dec_nonce nonce_ok = dbind (read_byte_array PUBLIC_NONCE_SIZE) (\<lambda>buf.
     if nonce_ok buf then dreturn buf else dfail (Invalid ''invalid musig public nonce''))"

definition enc_part_sig :: "bytes \<Rightarrow> bytes" where
  "enc_part_sig s = emit_slice s"

definition dec_part_sig :: "(bytes \<Rightarrow> bool) \<Rightarrow> bytes decoder" where
  "dec_part_sig part_sig_ok = dbind (read_byte_array PARTIAL_SIGNATURE_SIZE) (\<lambda>buf.
     if part_sig_ok buf then dreturn buf else dfail (Invalid ''invalid musig public nonce''))"

text \<open>The values of the Rust types, as byte strings.\<close>

definition wf_nonce :: "(bytes \<Rightarrow> bool) \<Rightarrow> bytes \<Rightarrow> bool" where
  "wf_nonce nonce_ok n \<longleftrightarrow> length n = PUBLIC_NONCE_SIZE \<and> nonce_ok n"

definition wf_part_sig :: "(bytes \<Rightarrow> bool) \<Rightarrow> bytes \<Rightarrow> bool" where
  "wf_part_sig part_sig_ok s \<longleftrightarrow> length s = PARTIAL_SIGNATURE_SIZE \<and> part_sig_ok s"

definition wf_pubkey :: "(bytes \<Rightarrow> bool) \<Rightarrow> PublicKey \<Rightarrow> bool" where
  "wf_pubkey pk_ok pk \<longleftrightarrow> length pk = PUBLIC_KEY_SIZE \<and> pk_ok pk"

definition wf_opt_pubkey :: "(bytes \<Rightarrow> bool) \<Rightarrow> PublicKey option \<Rightarrow> bool" where
  "wf_opt_pubkey pk_ok pk \<longleftrightarrow>
     (case pk of None \<Rightarrow> True | Some pk \<Rightarrow> wf_pubkey pk_ok pk \<and> hd pk \<noteq> 0)"

definition wf_sig :: "(bytes \<Rightarrow> bool) \<Rightarrow> Signature \<Rightarrow> bool" where
  "wf_sig sig_ok s \<longleftrightarrow> length s = SCHNORR_SIGNATURE_SIZE \<and> sig_ok s"

definition wf_opt_sig :: "(bytes \<Rightarrow> bool) \<Rightarrow> Signature option \<Rightarrow> bool" where
  "wf_opt_sig sig_ok s \<longleftrightarrow>
     (case s of None \<Rightarrow> True
      | Some s \<Rightarrow> wf_sig sig_ok s \<and> s \<noteq> replicate SCHNORR_SIGNATURE_SIZE 0)"

definition wf_hash :: "Hash \<Rightarrow> bool" where
  "wf_hash h \<longleftrightarrow> length h = 32"

definition wf_opt_hash :: "Hash option \<Rightarrow> bool" where
  "wf_opt_hash h \<longleftrightarrow> (case h of None \<Rightarrow> True | Some h \<Rightarrow> wf_hash h)"

section \<open>Lemmas\<close>

lemma length_le_bytes [simp]: "length (le_bytes k n) = k"
  by (induction k arbitrary: n) auto

lemma le_val_bound: "le_val bs < 256 ^ length bs"
proof (induction bs)
  case (Cons b bs)
  have "unat b < 256" using unsigned_less [of b] by simp
  moreover have "le_val bs + 1 \<le> 256 ^ length bs" using Cons.IH by simp
  ultimately have "unat b + 256 * le_val bs < 256 * (le_val bs + 1)" by simp
  also have "\<dots> \<le> 256 * 256 ^ length bs" using \<open>le_val bs + 1 \<le> _\<close> by (rule mult_le_mono2)
  finally show ?case by simp
qed simp

lemma le_val_le_bytes: "n < 256 ^ k \<Longrightarrow> le_val (le_bytes k n) = n"
proof (induction k arbitrary: n)
  case (Suc k)
  then have "n div 256 < 256 ^ k" by (simp add: less_mult_imp_div_less mult.commute)
  with Suc.IH have "le_val (le_bytes k (n div 256)) = n div 256" by simp
  moreover have "unat (word_of_nat (n mod 256) :: byte) = n mod 256"
    by (simp add: unat_of_nat)
  ultimately show ?case by simp
qed simp

lemma le_bytes_le_val: "le_bytes (length bs) (le_val bs) = bs"
proof (induction bs)
  case (Cons b bs)
  have b: "unat b < 256" using unsigned_less [of b] by simp
  then have "(unat b + 256 * le_val bs) div 256 = le_val bs"
    and "(unat b + 256 * le_val bs) mod 256 = unat b" by simp_all
  with Cons.IH show ?case by simp
qed simp

lemma read_exact_append [decode_simps]: "length b = n \<Longrightarrow> read_exact n (b @ r) = Inr (b, r)"
  by (simp add: read_exact_def)

lemma read_exact_eq_Inr: "read_exact n b = Inr (x, r) \<longleftrightarrow> length x = n \<and> b = x @ r"
  by (auto simp: read_exact_def)

text \<open>
  One proof for the four integer widths: a word of \<open>8 * k\<close> bits written in \<open>k\<close> bytes.
\<close>

lemma le_word_roundtrip:
  fixes v :: "'w::len word"
  assumes "(2::nat) ^ LENGTH('w) = 256 ^ k"
  shows "dbind (read_exact k) (\<lambda>buf. dreturn (word_of_nat (le_val buf))) (le_bytes k (unat v) @ r)
       = Inr (v, r)"
proof -
  have "unat v < 256 ^ k"
    using unsigned_less [of v] by (simp only: assms [symmetric])
  then have "le_val (le_bytes k (unat v)) = unat v" by (rule le_val_le_bytes)
  then show ?thesis by (simp add: decode_simps)
qed

lemma le_word_canonical:
  fixes v :: "'w::len word"
  assumes k: "(2::nat) ^ LENGTH('w) = 256 ^ k"
    and d: "dbind (read_exact k) (\<lambda>buf. dreturn (word_of_nat (le_val buf))) b = Inr (v, r)"
  shows "b = le_bytes k (unat v) @ r"
proof -
  from d obtain buf where buf: "length buf = k" "b = buf @ r" "v = word_of_nat (le_val buf)"
    by (auto simp: dbind_eq_Inr read_exact_eq_Inr dreturn_apply)
  have "le_val buf < 2 ^ LENGTH('w)"
    using le_val_bound [of buf] buf(1) by (simp only: k)
  then have "unat v = le_val buf" by (simp add: buf(3) unat_of_nat)
  with buf(1,2) show ?thesis using le_bytes_le_val [of buf] by simp
qed

lemmas int_defs = emit_u8_def emit_u16_def emit_u32_def emit_u64_def
  read_u8_def read_u16_def read_u32_def read_u64_def

interpretation c_u8: canonical_codec "\<lambda>v. Some (emit_u8 v)" read_u8 "\<lambda>_. True"
  by unfold_locales
    (auto simp: int_defs le_word_roundtrip simp del: One_nat_def
      dest!: le_word_canonical [rotated])

interpretation c_u16: canonical_codec "\<lambda>v. Some (emit_u16 v)" read_u16 "\<lambda>_. True"
  by unfold_locales (auto simp: int_defs le_word_roundtrip dest!: le_word_canonical [rotated])

interpretation c_u32: canonical_codec "\<lambda>v. Some (emit_u32 v)" read_u32 "\<lambda>_. True"
  by unfold_locales (auto simp: int_defs le_word_roundtrip dest!: le_word_canonical [rotated])

interpretation c_u64: canonical_codec "\<lambda>v. Some (emit_u64 v)" read_u64 "\<lambda>_. True"
  by unfold_locales (auto simp: int_defs le_word_roundtrip dest!: le_word_canonical [rotated])


lemmas int_roundtrip [decode_simps] =
  c_u8.roundtrip [OF TrueI refl] c_u16.roundtrip [OF TrueI refl]
  c_u32.roundtrip [OF TrueI refl] c_u64.roundtrip [OF TrueI refl]

lemmas int_roundtrip_exact [decode_simps] =
  c_u8.roundtrip_exact [OF TrueI refl] c_u16.roundtrip_exact [OF TrueI refl]
  c_u32.roundtrip_exact [OF TrueI refl] c_u64.roundtrip_exact [OF TrueI refl]

lemma int_canonical:
  "read_u8 b = Inr (w8, r) \<Longrightarrow> b = emit_u8 w8 @ r"
  "read_u16 b = Inr (w16, r) \<Longrightarrow> b = emit_u16 w16 @ r"
  "read_u32 b = Inr (w32, r) \<Longrightarrow> b = emit_u32 w32 @ r"
  "read_u64 b = Inr (w64, r) \<Longrightarrow> b = emit_u64 w64 @ r"
  using c_u8.canonical_reencode c_u16.canonical_reencode c_u32.canonical_reencode
    c_u64.canonical_reencode by blast+

lemma length_emit [simp]:
  "length (emit_u8 w8) = 1" "length (emit_u16 w16) = 2"
  "length (emit_u32 w32) = 4" "length (emit_u64 w64) = 8"
  by (simp_all add: int_defs)

lemma emit_u8_single: "emit_u8 v = [v]"
proof -
  have "unat v < 256" using unsigned_less [of v] by simp
  then show ?thesis by (simp add: emit_u8_def)
qed

lemma read_u8_Cons [decode_simps]: "read_u8 (v # r) = Inr (v, r)"
  using int_roundtrip(1) [of v r] by (simp add: emit_u8_single)

lemma read_u8_Nil [decode_simps]: "read_u8 [] = Inl Io_UnexpectedEof"
  by (simp add: read_u8_def read_exact_def dbind_def)

text \<open>Narrowing a word that fits keeps its value.\<close>

lemma unat_ucast_fits:
  fixes v :: "'a::len word"
  assumes "unat v < 2 ^ LENGTH('b::len)"
  shows "unat (ucast v :: 'b word) = unat v"
proof -
  have "(ucast v :: 'b word) = word_of_nat (unat v)"
    by (metis of_nat_unat)
  then have "unat (ucast v :: 'b word) = unat v mod 2 ^ LENGTH('b)"
    by (simp only: unat_of_nat)
  then show ?thesis using assms by simp
qed

lemma ucast_narrow_widen:
  fixes v :: u64
  shows "v \<le> 0xFC \<Longrightarrow> ucast (ucast v :: byte) = v"
    and "v \<le> 0xFFFF \<Longrightarrow> ucast (ucast v :: u16) = v"
    and "v \<le> 0xFFFFFFFF \<Longrightarrow> ucast (ucast v :: u32) = v"
  by (simp_all add: word_unat_eq_iff word_le_nat_alt unat_ucast_fits)

lemma compact_size_roundtrip: "read_compact_size (fst (emit_compact_size v) @ r) = Inr (v, r)"
proof -
  consider (u8) "v \<le> 0xFC" | (u16) "\<not> v \<le> 0xFC" "v \<le> 0xFFFF"
    | (u32) "\<not> v \<le> 0xFFFF" "v \<le> 0xFFFFFFFF" | (u64) "\<not> v \<le> 0xFFFFFFFF" by blast
  then show ?thesis
  proof cases
    case u8
    then have "unat (ucast v :: byte) \<le> 0xFC"
      by (simp add: word_le_nat_alt unat_ucast_fits)
    then have "(ucast v :: byte) \<noteq> 0xFF" "(ucast v :: byte) \<noteq> 0xFE" "(ucast v :: byte) \<noteq> 0xFD"
      by (auto simp: word_unat_eq_iff)
    with u8 show ?thesis
      by (simp add: emit_compact_size_def read_compact_size_def decode_simps ucast_narrow_widen)
  next
    case u16
    then have "\<not> (ucast v :: u16) < 0xFD"
      by (simp add: word_le_nat_alt word_less_nat_alt unat_ucast_fits)
    with u16 show ?thesis
      by (simp add: emit_compact_size_def read_compact_size_def decode_simps ucast_narrow_widen)
  next
    case u32
    then have "\<not> (ucast v :: u32) < 0x10000"
      by (simp add: word_le_nat_alt word_less_nat_alt unat_ucast_fits)
    moreover have "\<not> v \<le> 0xFC" using u32 by (simp add: word_le_nat_alt)
    ultimately show ?thesis using u32
      by (simp add: emit_compact_size_def read_compact_size_def decode_simps ucast_narrow_widen)
  next
    case u64
    then have "\<not> v < 0x100000000" "\<not> v \<le> 0xFC" "\<not> v \<le> 0xFFFF"
      by (simp_all add: word_le_nat_alt word_less_nat_alt)
    with u64 show ?thesis
      by (simp add: emit_compact_size_def read_compact_size_def decode_simps)
  qed
qed

lemma compact_size_canonical:
  assumes "read_compact_size b = Inr (v, r)"
  shows "b = fst (emit_compact_size v) @ r"
proof -
  from assms obtain n b' where n: "read_u8 b = Inr (n, b')"
    by (auto simp: read_compact_size_def dbind_eq_Inr)
  then have b: "b = emit_u8 n @ b'" by (rule int_canonical)
  consider (u64) "n = 0xFF" | (u32) "n = 0xFE" | (u16) "n = 0xFD"
    | (u8) "n \<noteq> 0xFF" "n \<noteq> 0xFE" "n \<noteq> 0xFD" by blast
  then show ?thesis
  proof cases
    case u64
    with assms n have "read_u64 b' = Inr (v, r)" "\<not> v < 0x100000000"
      by (auto simp: read_compact_size_def dbind_eq_Inr dreturn_apply dfail_apply split: if_splits)
    then show ?thesis using b u64
      by (auto simp: emit_compact_size_def word_le_nat_alt word_less_nat_alt dest: int_canonical)
  next
    case u32
    with assms n obtain x where x: "read_u32 b' = Inr (x, r)" "\<not> x < 0x10000" "v = ucast x"
      by (auto simp: read_compact_size_def dbind_eq_Inr dreturn_apply dfail_apply split: if_splits)
    have "unat x < 2 ^ 32" using unsigned_less [of x] by simp
    then have "unat v = unat x" "ucast v = x"
      by (simp_all add: x(3) unat_ucast_fits word_unat_eq_iff)
    then show ?thesis using b u32 x \<open>unat x < 2 ^ 32\<close>
      by (auto simp: emit_compact_size_def word_le_nat_alt word_less_nat_alt dest: int_canonical)
  next
    case u16
    with assms n obtain x where x: "read_u16 b' = Inr (x, r)" "\<not> x < 0xFD" "v = ucast x"
      by (auto simp: read_compact_size_def dbind_eq_Inr dreturn_apply dfail_apply split: if_splits)
    have "unat x < 2 ^ 16" using unsigned_less [of x] by simp
    then have "unat v = unat x" "ucast v = x"
      by (simp_all add: x(3) unat_ucast_fits word_unat_eq_iff)
    then show ?thesis using b u16 x \<open>unat x < 2 ^ 16\<close>
      by (auto simp: emit_compact_size_def word_le_nat_alt word_less_nat_alt dest: int_canonical)
  next
    case u8
    with assms n have x: "r = b'" "v = ucast n"
      by (auto simp: read_compact_size_def dbind_eq_Inr dreturn_apply dfail_apply split: if_splits)
    have "unat n < 2 ^ 8" using unsigned_less [of n] by simp
    moreover from u8 have "unat n \<noteq> 0xFF" "unat n \<noteq> 0xFE" "unat n \<noteq> 0xFD"
      by (simp_all add: word_unat_eq_iff)
    ultimately have "unat n \<le> 0xFC" by simp
    moreover have "unat v = unat n" "ucast v = n"
      using \<open>unat n < 2 ^ 8\<close> by (simp_all add: x(2) unat_ucast_fits word_unat_eq_iff)
    ultimately show ?thesis using b x(1)
      by (simp add: emit_compact_size_def word_le_nat_alt)
  qed
qed

interpretation c_size: canonical_codec
  "\<lambda>v. Some (fst (emit_compact_size v))" read_compact_size "\<lambda>_. True"
  by unfold_locales (auto simp: compact_size_roundtrip dest: compact_size_canonical)


subsection \<open>Byte strings\<close>

lemma byte_string_defs:
  "enc_pubkey = (\<lambda>pk. pk)" "enc_sig = (\<lambda>s. s)" "enc_hash = (\<lambda>h. h)" "emit_slice = (\<lambda>s. s)"
  by (simp_all add: fun_eq_iff enc_pubkey_def enc_sig_def enc_hash_def emit_slice_def)

interpretation c_pubkey: canonical_codec
  "\<lambda>pk. Some (enc_pubkey pk)" "dec_pubkey pk_ok" "wf_pubkey pk_ok" for pk_ok
  by unfold_locales
    (auto simp: byte_string_defs dec_pubkey_def wf_pubkey_def dbind_eq_Inr read_exact_eq_Inr
      dreturn_apply dfail_apply decode_simps split: if_splits)

interpretation c_sig: canonical_codec
  "\<lambda>s. Some (enc_sig s)" "dec_sig sig_ok" "wf_sig sig_ok" for sig_ok
  by unfold_locales
    (auto simp: byte_string_defs dec_sig_def wf_sig_def dbind_eq_Inr read_exact_eq_Inr
      dreturn_apply dfail_apply decode_simps split: if_splits)

interpretation c_nonce: canonical_codec
  "\<lambda>n. Some (enc_nonce n)" "dec_nonce nonce_ok" "wf_nonce nonce_ok" for nonce_ok
  by unfold_locales
    (auto simp: enc_nonce_def emit_slice_def dec_nonce_def wf_nonce_def read_byte_array_def dbind_eq_Inr
      read_exact_eq_Inr dreturn_apply dfail_apply decode_simps split: if_splits)

interpretation c_part_sig: canonical_codec
  "\<lambda>s. Some (enc_part_sig s)" "dec_part_sig part_sig_ok" "wf_part_sig part_sig_ok" for part_sig_ok
  by unfold_locales
    (auto simp: enc_part_sig_def emit_slice_def dec_part_sig_def wf_part_sig_def read_byte_array_def dbind_eq_Inr
      read_exact_eq_Inr dreturn_apply dfail_apply decode_simps split: if_splits)

interpretation c_hash: canonical_codec "\<lambda>h. Some (enc_hash h)" dec_hash wf_hash
  by unfold_locales
    (auto simp: byte_string_defs dec_hash_def wf_hash_def read_exact_eq_Inr)

interpretation c_opt_hash: canonical_codec
  "\<lambda>h. Some (enc_opt_hash h)" dec_opt_hash wf_opt_hash
proof
  show "wf_opt_hash h \<Longrightarrow> Some (enc_opt_hash h) = Some b \<Longrightarrow> dec_opt_hash (b @ r) = Inr (h, r)"
    for h b r
    by (auto simp: enc_opt_hash_def dec_opt_hash_def wf_opt_hash_def wf_hash_def
        byte_string_defs decode_simps split: option.splits)
next
  fix b h r
  assume "dec_opt_hash b = Inr (h, r)"
  then show "wf_opt_hash h \<and> (\<exists>e. Some (enc_opt_hash h) = Some e \<and> b = e @ r)"
    by (auto simp: enc_opt_hash_def dec_opt_hash_def wf_opt_hash_def wf_hash_def dbind_eq_Inr
        byte_string_defs dreturn_apply dfail_apply read_exact_eq_Inr split: if_splits
        dest!: int_canonical)
qed

interpretation c_opt_pubkey: canonical_codec
  "\<lambda>pk. Some (enc_opt_pubkey pk)" "dec_opt_pubkey pk_ok" "wf_opt_pubkey pk_ok" for pk_ok
proof
  fix pk b r
  assume wf: "wf_opt_pubkey pk_ok pk" and e: "Some (enc_opt_pubkey pk) = Some b"
  show "dec_opt_pubkey pk_ok (b @ r) = Inr (pk, r)"
  proof (cases pk)
    case None
    with e show ?thesis by (auto simp: enc_opt_pubkey_def dec_opt_pubkey_def decode_simps)
  next
    case (Some k)
    with wf obtain f k' where k: "k = f # k'" "f \<noteq> 0" "pk_ok k" "length k' = PUBLIC_KEY_SIZE - 1"
      by (cases k) (auto simp: wf_opt_pubkey_def wf_pubkey_def PUBLIC_KEY_SIZE_def)
    with e Some show ?thesis
      by (auto simp: enc_opt_pubkey_def dec_opt_pubkey_def byte_string_defs decode_simps)
  qed
next
  fix b pk r
  assume "dec_opt_pubkey pk_ok b = Inr (pk, r)"
  then show "wf_opt_pubkey pk_ok pk \<and> (\<exists>e. Some (enc_opt_pubkey pk) = Some e \<and> b = e @ r)"
    by (auto simp: enc_opt_pubkey_def dec_opt_pubkey_def wf_opt_pubkey_def wf_pubkey_def
        PUBLIC_KEY_SIZE_def dbind_eq_Inr byte_string_defs dreturn_apply dfail_apply
        read_exact_eq_Inr emit_u8_single split: if_splits dest!: int_canonical)
qed

interpretation c_opt_sig: canonical_codec
  "\<lambda>s. Some (enc_opt_sig s)" "dec_opt_sig sig_ok" "wf_opt_sig sig_ok" for sig_ok
  by unfold_locales
    (auto simp: enc_opt_sig_def dec_opt_sig_def wf_opt_sig_def wf_sig_def byte_string_defs
      dbind_eq_Inr read_exact_eq_Inr dreturn_apply dfail_apply decode_simps
      split: if_splits option.splits)


section \<open>Properties\<close>

text \<open>The compact size encoding is a bijection between the 64-bit integers and the inputs
  that \<open>read_compact_size\<close> accepts: it reads \<open>v\<close> and leaves \<open>r\<close> exactly when the input is
  what \<open>emit_compact_size\<close> writes for \<open>v\<close>, followed by \<open>r\<close>. Every non-minimal encoding is
  therefore refused. The count that \<open>emit_compact_size\<close> returns is the number of bytes
  written.\<close>

theorem compact_size_minimal:
  "(read_compact_size b = Inr (v, r) \<longleftrightarrow> b = fst (emit_compact_size v) @ r)
   \<and> length (fst (emit_compact_size v)) = snd (emit_compact_size v)"
proof
  show "read_compact_size b = Inr (v, r) \<longleftrightarrow> b = fst (emit_compact_size v) @ r"
    using compact_size_roundtrip compact_size_canonical by blast
  show "length (fst (emit_compact_size v)) = snd (emit_compact_size v)"
    by (simp add: emit_compact_size_def)
qed

end
