(* ===== verification/Ark_Bitcoin.thy ===== *)
theory Ark_Bitcoin
  imports Ark_Encode
begin

text \<open>
  The Bitcoin vocabulary of the protocol library: transactions as \<open>bitcoin\<close> represents
  them, the tapscripts of \<open>lib/src/lib.rs\<close> (module \<open>scripts\<close>), the extension traits of
  \<open>bitcoin-ext\<close> (fee anchors, standardness, output values) and the MuSig2 wrappers of
  \<open>lib/src/musig.rs\<close>.

  Hashing, elliptic-curve operations, taproot tweaking and Bitcoin's own consensus encoding
  are done by the crates \<open>bitcoin\<close>, \<open>secp256k1\<close> and \<open>secp256k1-musig\<close>, which are not part
  of the repository. They are the fields of the record \<open>externals\<close>, the first argument of
  every definition that uses one of them. What the code relies on is stated as the named
  predicates at the end of this theory.
\<close>

section \<open>Transactions\<close>

text \<open>
  An \<open>Amount\<close> is its number of satoshis. Block heights are \<open>u32\<close>, block deltas \<open>u16\<close>.
\<close>

type_synonym Amount = nat
type_synonym BlockHeight = u32
type_synonym BlockDelta = u16
type_synonym Txid = bytes
type_synonym XOnlyPublicKey = bytes
type_synonym ScriptBuf = bytes

record OutPoint =
  op_txid :: Txid
  op_vout :: u32

record TxOut =
  txo_value :: Amount
  txo_script :: ScriptBuf

record TxIn =
  previous_output :: OutPoint
  script_sig :: ScriptBuf
  txin_sequence :: u32
  txin_witness :: "bytes list"

record Transaction =
  tx_version :: nat
  tx_lock_time :: u32
  tx_input :: "TxIn list"
  tx_output :: "TxOut list"

text \<open>\<open>OutPoint::null()\<close>, \<open>Sequence::ZERO\<close> and \<open>Sequence::MAX\<close>.\<close>

definition null_outpoint :: OutPoint where
  "null_outpoint = \<lparr>op_txid = replicate 32 0, op_vout = 0xFFFFFFFF\<rparr>"

definition Sequence_ZERO :: u32 where
  "Sequence_ZERO = 0"

definition Sequence_MAX :: u32 where
  "Sequence_MAX = 0xFFFFFFFF"

text \<open>The only input of every transaction that the library builds.\<close>

abbreviation plain_input :: "OutPoint \<Rightarrow> u32 \<Rightarrow> bytes list \<Rightarrow> TxIn" where
  "plain_input p s w \<equiv> \<lparr>previous_output = p, script_sig = [], txin_sequence = s, txin_witness = w\<rparr>"

section \<open>Tapscripts\<close>

datatype opcode = OP_CSV | OP_CLTV | OP_DROP | OP_CHECKSIG | OP_HASH160 | OP_EQUALVERIFY

datatype script_elem =
    PushInt int
  | PushSlice bytes
  | PushXOnlyKey XOnlyPublicKey
  | PushOpcode opcode

type_synonym script = "script_elem list"

text \<open>
  \<open>TaprootBuilder::new().add_leaf(d, s)...finalize(internal_key)\<close>: the internal key and the
  leaves with their depths, in the order they were added.
\<close>

record TaprootSpendInfo =
  internal_key :: XOnlyPublicKey
  tap_leaves :: "(nat \<times> script) list"

section \<open>The code outside the repository\<close>

text \<open>A MuSig key aggregation: the keys in the order they are aggregated, and the tweak.\<close>

record KeyAggCache =
  ka_keys :: "PublicKey list"
  ka_tweak :: "bytes option"

type_synonym Keypair = bytes
type_synonym SecretNonce = bytes
type_synonym PublicNonce = bytes
type_synonym AggregatedNonce = bytes
type_synonym PartialSignature = bytes

record externals =
  \<comment> \<open>crate \<open>secp256k1\<close>\<close>
  ext_pk_ok :: "bytes \<Rightarrow> bool"
  ext_sig_ok :: "bytes \<Rightarrow> bool"
  ext_x_only :: "PublicKey \<Rightarrow> XOnlyPublicKey"
  ext_verify_schnorr :: "Signature \<Rightarrow> bytes \<Rightarrow> XOnlyPublicKey \<Rightarrow> bool"
  ext_public_key :: "Keypair \<Rightarrow> PublicKey"
  ext_sign_schnorr :: "nat \<Rightarrow> Keypair \<Rightarrow> bytes \<Rightarrow> Signature"
  ext_add_xonly_tweak :: "Keypair \<Rightarrow> bytes \<Rightarrow> Keypair option"
  \<comment> \<open>crate \<open>bitcoin\<close>: hashes, transaction ids, signature hashes\<close>
  ext_sha256 :: "bytes \<Rightarrow> Hash"
  ext_ripemd160 :: "bytes \<Rightarrow> bytes"
  ext_txid :: "Transaction \<Rightarrow> Txid"
  ext_key_sighash :: "Transaction \<Rightarrow> TxOut \<Rightarrow> bytes"
  ext_key_sighash_at :: "Transaction \<Rightarrow> nat \<Rightarrow> TxOut list \<Rightarrow> bytes"
  ext_script_sighash :: "Transaction \<Rightarrow> TxOut \<Rightarrow> script \<Rightarrow> bytes"
  \<comment> \<open>crate \<open>bitcoin\<close>: taproot and scripts\<close>
  ext_output_key :: "TaprootSpendInfo \<Rightarrow> XOnlyPublicKey"
  ext_tap_tweak :: "TaprootSpendInfo \<Rightarrow> bytes"
  ext_keyspend_tweak :: "XOnlyPublicKey \<Rightarrow> bytes"
  ext_control_block :: "TaprootSpendInfo \<Rightarrow> script \<Rightarrow> bytes"
  ext_p2tr_tweaked :: "XOnlyPublicKey \<Rightarrow> ScriptBuf"
  ext_p2tr :: "XOnlyPublicKey \<Rightarrow> ScriptBuf"
  ext_p2a :: ScriptBuf
  ext_script_bytes :: "script \<Rightarrow> bytes"
  ext_is_p2pkh :: "ScriptBuf \<Rightarrow> bool"
  ext_is_p2sh :: "ScriptBuf \<Rightarrow> bool"
  ext_is_p2wpkh :: "ScriptBuf \<Rightarrow> bool"
  ext_is_p2wsh :: "ScriptBuf \<Rightarrow> bool"
  ext_is_p2tr :: "ScriptBuf \<Rightarrow> bool"
  ext_is_op_return :: "ScriptBuf \<Rightarrow> bool"
  \<comment> \<open>crate \<open>bitcoin\<close>: consensus encoding\<close>
  ext_enc_outpoint :: "OutPoint \<Rightarrow> bytes"
  ext_dec_outpoint :: "OutPoint decoder"
  ext_enc_txout :: "TxOut \<Rightarrow> bytes"
  ext_dec_txout :: "TxOut decoder"
  \<comment> \<open>crate \<open>secp256k1-musig\<close>\<close>
  ext_nonce_ok :: "bytes \<Rightarrow> bool"
  ext_part_sig_ok :: "bytes \<Rightarrow> bool"
  ext_agg_pk :: "PublicKey list \<Rightarrow> XOnlyPublicKey"
  ext_nonce_pair :: "nat \<Rightarrow> KeyAggCache option \<Rightarrow> Keypair \<Rightarrow> bytes option \<Rightarrow> SecretNonce \<times> PublicNonce"
  ext_nonce_gen :: "nat \<Rightarrow> KeyAggCache \<Rightarrow> PublicKey \<Rightarrow> bytes \<Rightarrow> SecretNonce \<times> PublicNonce"
  ext_nonce_agg :: "PublicNonce list \<Rightarrow> AggregatedNonce"
  ext_partial_sign :: "KeyAggCache \<Rightarrow> AggregatedNonce \<Rightarrow> bytes \<Rightarrow> SecretNonce \<Rightarrow> Keypair \<Rightarrow> PartialSignature"
  ext_partial_verify :: "KeyAggCache \<Rightarrow> AggregatedNonce \<Rightarrow> bytes \<Rightarrow> PartialSignature \<Rightarrow> PublicNonce \<Rightarrow> PublicKey \<Rightarrow> bool"
  ext_partial_sig_agg :: "KeyAggCache \<Rightarrow> AggregatedNonce \<Rightarrow> bytes \<Rightarrow> PartialSignature list \<Rightarrow> Signature"

section \<open>MuSig wrappers (\<open>musig.rs\<close>)\<close>

text \<open>\<open>keys.sort_by_key(|k| k.serialize())\<close> orders the keys by their bytes.\<close>

definition key_agg :: "PublicKey list \<Rightarrow> KeyAggCache" where
  "key_agg keys = \<lparr>ka_keys = sort keys, ka_tweak = None\<rparr>"

definition tweaked_key_agg :: "PublicKey list \<Rightarrow> bytes \<Rightarrow> KeyAggCache" where
  "tweaked_key_agg keys tweak = \<lparr>ka_keys = sort keys, ka_tweak = Some tweak\<rparr>"

definition combine_keys :: "externals \<Rightarrow> PublicKey list \<Rightarrow> XOnlyPublicKey" where
  "combine_keys X keys = ext_agg_pk X (ka_keys (key_agg keys))"

definition nonce_pair_with_msg ::
  "externals \<Rightarrow> nat \<Rightarrow> Keypair \<Rightarrow> bytes \<Rightarrow> SecretNonce \<times> PublicNonce" where
  "nonce_pair_with_msg X rnd key msg = ext_nonce_pair X rnd None key (Some msg)"

definition nonce_agg :: "externals \<Rightarrow> PublicNonce list \<Rightarrow> AggregatedNonce" where
  "nonce_agg X ns = ext_nonce_agg X ns"

definition session_agg :: "PublicKey list \<Rightarrow> bytes option \<Rightarrow> KeyAggCache" where
  "session_agg keys tweak =
     (case tweak of Some t \<Rightarrow> tweaked_key_agg keys t | None \<Rightarrow> key_agg keys)"

definition musig_combine_partial_signatures ::
  "externals \<Rightarrow> PublicKey list \<Rightarrow> AggregatedNonce \<Rightarrow> bytes \<Rightarrow> bytes option \<Rightarrow>
   PartialSignature list \<Rightarrow> Signature" where
  "musig_combine_partial_signatures X keys agg_nonce sighash tweak sigs =
     ext_partial_sig_agg X (session_agg keys tweak) agg_nonce sighash sigs"

definition partial_sign ::
  "externals \<Rightarrow> PublicKey list \<Rightarrow> AggregatedNonce \<Rightarrow> Keypair \<Rightarrow> SecretNonce \<Rightarrow> bytes \<Rightarrow>
   bytes option \<Rightarrow> PartialSignature list option \<Rightarrow> PartialSignature \<times> Signature option" where
  "partial_sign X keys agg_nonce key sec_nonce sighash tweak other_sigs =
     (let agg = session_agg keys tweak;
          my_sig = ext_partial_sign X agg agg_nonce sighash sec_nonce key
      in (my_sig,
          map_option (\<lambda>others. ext_partial_sig_agg X agg agg_nonce sighash (others @ [my_sig]))
            other_sigs))"

definition deterministic_partial_sign ::
  "externals \<Rightarrow> nat \<Rightarrow> Keypair \<Rightarrow> PublicKey list \<Rightarrow> PublicNonce list \<Rightarrow> bytes \<Rightarrow> bytes option \<Rightarrow>
   PublicNonce \<times> PartialSignature" where
  "deterministic_partial_sign X rnd my_key their_pubkeys their_nonces msg tweak =
     (let agg = session_agg (their_pubkeys @ [ext_public_key X my_key]) tweak;
          (sec_nonce, pub_nonce) = ext_nonce_pair X rnd (Some agg) my_key (Some msg);
          agg_nonce = ext_nonce_agg X (their_nonces @ [pub_nonce])
      in (pub_nonce, ext_partial_sign X agg agg_nonce msg sec_nonce my_key))"

section \<open>Tapscripts (\<open>lib.rs\<close>, module \<open>scripts\<close>)\<close>

text \<open>
  \<open>LockTime::from_height(h).unwrap()\<close> panics from height 500 000 000 on; \<open>locktime_ok\<close> is the
  guard, which the callers that read untrusted heights branch on.
\<close>

definition locktime_ok :: "BlockHeight \<Rightarrow> bool" where
  "locktime_ok h \<longleftrightarrow> unat h < 500000000"

definition delayed_sign :: "BlockDelta \<Rightarrow> XOnlyPublicKey \<Rightarrow> script" where
  "delayed_sign delay_blocks pubkey =
     [PushInt (uint delay_blocks), PushOpcode OP_CSV, PushOpcode OP_DROP,
      PushXOnlyKey pubkey, PushOpcode OP_CHECKSIG]"

definition timelock_sign :: "BlockHeight \<Rightarrow> XOnlyPublicKey \<Rightarrow> script" where
  "timelock_sign timelock_height pubkey =
     [PushInt (uint timelock_height), PushOpcode OP_CLTV, PushOpcode OP_DROP,
      PushXOnlyKey pubkey, PushOpcode OP_CHECKSIG]"

definition delay_timelock_sign :: "BlockDelta \<Rightarrow> BlockHeight \<Rightarrow> XOnlyPublicKey \<Rightarrow> script" where
  "delay_timelock_sign delay_blocks timelock_height pubkey =
     [PushInt (uint timelock_height), PushOpcode OP_CLTV, PushOpcode OP_DROP,
      PushInt (uint delay_blocks), PushOpcode OP_CSV, PushOpcode OP_DROP,
      PushXOnlyKey pubkey, PushOpcode OP_CHECKSIG]"

definition hash_and_sign :: "externals \<Rightarrow> Hash \<Rightarrow> XOnlyPublicKey \<Rightarrow> script" where
  "hash_and_sign X hash pubkey =
     [PushOpcode OP_HASH160, PushSlice (ext_ripemd160 X hash), PushOpcode OP_EQUALVERIFY,
      PushXOnlyKey pubkey, PushOpcode OP_CHECKSIG]"

definition hash_delay_sign :: "externals \<Rightarrow> Hash \<Rightarrow> BlockDelta \<Rightarrow> XOnlyPublicKey \<Rightarrow> script" where
  "hash_delay_sign X hash delay_blocks pubkey =
     [PushInt (uint delay_blocks), PushOpcode OP_CSV, PushOpcode OP_DROP,
      PushOpcode OP_HASH160, PushSlice (ext_ripemd160 X hash), PushOpcode OP_EQUALVERIFY,
      PushXOnlyKey pubkey, PushOpcode OP_CHECKSIG]"

text \<open>
  \<open>fill_taproot_sigs\<close>: panics when the numbers of inputs and signatures differ or an input
  already has a witness.
\<close>

fun fill_sigs :: "TxIn list \<Rightarrow> Signature list \<Rightarrow> ('e, TxIn list) outcome" where
  "fill_sigs (i # ins) (s # sigs) =
     (if txin_witness i \<noteq> [] then panic ''assertion failed: input.witness.is_empty()''
      else and_then (fill_sigs ins sigs) (\<lambda>rest. Ok (i\<lparr>txin_witness := [s]\<rparr> # rest)))"
| "fill_sigs _ _ = Ok []"

definition fill_taproot_sigs :: "Transaction \<Rightarrow> Signature list \<Rightarrow> ('e, Transaction) outcome" where
  "fill_taproot_sigs tx sigs =
     (if length (tx_input tx) \<noteq> length sigs then panic ''assertion left == right failed''
      else and_then (fill_sigs (tx_input tx) sigs) (\<lambda>ins. Ok (tx\<lparr>tx_input := ins\<rparr>)))"

definition verify_partial_sig ::
  "externals \<Rightarrow> bytes \<Rightarrow> bytes \<Rightarrow> PublicKey \<times> PublicNonce \<Rightarrow> PublicKey \<times> PublicNonce \<Rightarrow>
   PartialSignature \<Rightarrow> bool" where
  "verify_partial_sig X sighash tweak signer other partial_signature =
     (let agg_nonce = nonce_agg X [snd signer, snd other];
          agg = tweaked_key_agg [fst signer, fst other] tweak
      in ext_partial_verify X agg agg_nonce sighash partial_signature (snd signer) (fst signer))"

section \<open>Extension traits (\<open>bitcoin-ext\<close>)\<close>

definition P2TR_DUST :: Amount where "P2TR_DUST = 110 * 3"
definition P2WPKH_DUST :: Amount where "P2WPKH_DUST = 90 * 3"
definition P2PKH_DUST :: Amount where "P2PKH_DUST = 182 * 3"
definition P2SH_DUST :: Amount where "P2SH_DUST = 180 * 3"
definition P2WSH_DUST :: Amount where "P2WSH_DUST = 110 * 3"

definition fee_anchor_with_amount :: "externals \<Rightarrow> Amount \<Rightarrow> TxOut" where
  "fee_anchor_with_amount X amount = \<lparr>txo_value = amount, txo_script = ext_p2a X\<rparr>"

definition fee_anchor :: "externals \<Rightarrow> TxOut" where
  "fee_anchor X = fee_anchor_with_amount X 0"

definition is_p2a_fee_anchor :: "externals \<Rightarrow> TxOut \<Rightarrow> bool" where
  "is_p2a_fee_anchor X o' \<longleftrightarrow> txo_script o' = ext_p2a X"

definition is_standard :: "externals \<Rightarrow> TxOut \<Rightarrow> bool" where
  "is_standard X out =
     (let spk = txo_script out in
      if ext_is_p2pkh X spk then txo_value out \<ge> P2PKH_DUST
      else if ext_is_p2sh X spk then txo_value out \<ge> P2SH_DUST
      else if ext_is_p2wpkh X spk then txo_value out \<ge> P2WPKH_DUST
      else if ext_is_p2wsh X spk then txo_value out \<ge> P2WSH_DUST
      else if ext_is_p2tr X spk then txo_value out \<ge> P2TR_DUST
      else if ext_is_op_return X spk then length spk \<le> 83
      else False)"

definition output_value :: "Transaction \<Rightarrow> Amount" where
  "output_value tx = sum_list (map txo_value (tx_output tx))"

text \<open>\<open>TransactionExt::fee_anchor\<close>: the first fee anchor of a transaction.\<close>

fun find_anchor :: "externals \<Rightarrow> nat \<Rightarrow> TxOut list \<Rightarrow> (nat \<times> TxOut) option" where
  "find_anchor X i [] = None"
| "find_anchor X i (o' # os) = (if is_p2a_fee_anchor X o' then Some (i, o') else find_anchor X (Suc i) os)"

definition tx_fee_anchor :: "externals \<Rightarrow> Transaction \<Rightarrow> (OutPoint \<times> TxOut) option" where
  "tx_fee_anchor X tx =
     map_option (\<lambda>(i, o'). (\<lparr>op_txid = ext_txid X tx, op_vout = word_of_nat i\<rparr>, o'))
       (find_anchor X 0 (tx_output tx))"

definition taproot_script_pubkey :: "externals \<Rightarrow> TaprootSpendInfo \<Rightarrow> ScriptBuf" where
  "taproot_script_pubkey X t = ext_p2tr_tweaked X (ext_output_key X t)"

text \<open>\<open>KeypairExt::for_keyspend\<close>: the key pair of a taproot output without scripts.\<close>

definition for_keyspend :: "externals \<Rightarrow> Keypair \<Rightarrow> ('e, Keypair) outcome" where
  "for_keyspend X key =
     (let tweak = ext_keyspend_tweak X (ext_x_only X (ext_public_key X key))
      in expect (ext_add_xonly_tweak X key tweak) ''hashed values'')"

text \<open>
  \<open>iter().map(|o| o.value).sum()\<close>: \<open>u64\<close> addition, which panics on overflow where overflow
  checks are on. \<open>None\<close> is the overflow.
\<close>

definition u64_limit :: nat where
  "u64_limit = 18446744073709551616"

definition sum_amounts :: "Amount list \<Rightarrow> Amount option" where
  "sum_amounts as = (if sum_list as < u64_limit then Some (sum_list as) else None)"

section \<open>What the code relies on\<close>

text \<open>
  BIP 141 and BIP 341: neither the transaction id nor the taproot signature hashes commit to the
  witnesses.
\<close>

definition strip_witness :: "Transaction \<Rightarrow> Transaction" where
  "strip_witness tx = tx\<lparr>tx_input := map (\<lambda>i. i\<lparr>txin_witness := []\<rparr>) (tx_input tx)\<rparr>"

definition segwit_laws :: "externals \<Rightarrow> bool" where
  "segwit_laws X \<longleftrightarrow>
     (\<forall>tx. ext_txid X (strip_witness tx) = ext_txid X tx) \<and>
     (\<forall>tx prev. ext_key_sighash X (strip_witness tx) prev = ext_key_sighash X tx prev) \<and>
     (\<forall>tx prev leaf. ext_script_sighash X (strip_witness tx) prev leaf = ext_script_sighash X tx prev leaf)"

text \<open>
  A pay-to-taproot script is recognised as such and as nothing else, and is not the
  pay-to-anchor script.
\<close>

definition p2tr_laws :: "externals \<Rightarrow> bool" where
  "p2tr_laws X \<longleftrightarrow>
     (\<forall>k. ext_is_p2tr X (ext_p2tr_tweaked X k) \<and> \<not> ext_is_p2pkh X (ext_p2tr_tweaked X k) \<and>
          \<not> ext_is_p2sh X (ext_p2tr_tweaked X k) \<and> \<not> ext_is_p2wpkh X (ext_p2tr_tweaked X k) \<and>
          \<not> ext_is_p2wsh X (ext_p2tr_tweaked X k) \<and> ext_p2tr_tweaked X k \<noteq> ext_p2a X)"

text \<open>The values that Bitcoin's consensus encoding covers, and its round trip on them.\<close>

definition wf_outpoint :: "OutPoint \<Rightarrow> bool" where
  "wf_outpoint p \<longleftrightarrow> length (op_txid p) = 32"

definition wf_txout :: "TxOut \<Rightarrow> bool" where
  "wf_txout t \<longleftrightarrow> txo_value t < u64_limit \<and> length (txo_script t) < u64_limit"

definition consensus_laws :: "externals \<Rightarrow> bool" where
  "consensus_laws X \<longleftrightarrow>
     (\<forall>p r. wf_outpoint p \<longrightarrow> ext_dec_outpoint X (ext_enc_outpoint X p @ r) = Inr (p, r)) \<and>
     (\<forall>t r. wf_txout t \<longrightarrow> ext_dec_txout X (ext_enc_txout X t @ r) = Inr (t, r))"

text \<open>
  BIP 327: the aggregate nonce does not depend on the order of the nonces; a partial signature that
  is made with a generated nonce verifies for the signer's key and public nonce; and when the
  partial signatures of all keys verify for the aggregate nonce of their nonces, their aggregate is
  a valid signature for the aggregate key, tweaked to the output key of a taproot that has the
  aggregate key as its internal key.
\<close>

definition musig_laws :: "externals \<Rightarrow> bool" where
  "musig_laws X \<longleftrightarrow>
     (\<forall>ns ms. mset ns = mset ms \<longrightarrow> ext_nonce_agg X ns = ext_nonce_agg X ms) \<and>
     (\<forall>rnd c key m sec pub. ext_nonce_pair X rnd c key m = (sec, pub) \<longrightarrow>
        (\<forall>agg agg_nonce msg. ext_public_key X key \<in> set (ka_keys agg) \<longrightarrow>
           ext_partial_verify X agg agg_nonce msg (ext_partial_sign X agg agg_nonce msg sec key) pub
             (ext_public_key X key))) \<and>
     (\<forall>rnd c key m sec pub. ext_nonce_gen X rnd c (ext_public_key X key) m = (sec, pub) \<longrightarrow>
        (\<forall>agg agg_nonce msg. ext_public_key X key \<in> set (ka_keys agg) \<longrightarrow>
           ext_partial_verify X agg agg_nonce msg (ext_partial_sign X agg agg_nonce msg sec key) pub
             (ext_public_key X key))) \<and>
     (\<forall>t keys ns sigs msg.
        internal_key t = combine_keys X keys \<and> length ns = length keys \<and> length sigs = length keys \<and>
        (\<forall>i < length keys. ext_partial_verify X (tweaked_key_agg keys (ext_tap_tweak X t)) (ext_nonce_agg X ns)
           msg (sigs ! i) (ns ! i) (keys ! i)) \<longrightarrow>
        ext_verify_schnorr X
          (ext_partial_sig_agg X (tweaked_key_agg keys (ext_tap_tweak X t)) (ext_nonce_agg X ns) msg sigs)
          msg (ext_output_key X t))"

text \<open>The same for an aggregate key that is used as it is, as in the forfeit claim's script path.\<close>

definition musig_untweaked_laws :: "externals \<Rightarrow> bool" where
  "musig_untweaked_laws X \<longleftrightarrow>
     (\<forall>keys ns sigs msg.
        length ns = length keys \<and> length sigs = length keys \<and>
        (\<forall>i < length keys. ext_partial_verify X (key_agg keys) (ext_nonce_agg X ns)
           msg (sigs ! i) (ns ! i) (keys ! i)) \<longrightarrow>
        ext_verify_schnorr X (ext_partial_sig_agg X (key_agg keys) (ext_nonce_agg X ns) msg sigs)
          msg (combine_keys X keys))"

text \<open>
  BIP 340 and BIP 341: a signature verifies for the key that made it, and the key pair tweaked for a
  key-spend-only taproot exists and belongs to the key of that output.
\<close>

definition keyspend_laws :: "externals \<Rightarrow> bool" where
  "keyspend_laws X \<longleftrightarrow>
     (\<forall>rnd key msg. ext_verify_schnorr X (ext_sign_schnorr X rnd key msg) msg (ext_x_only X (ext_public_key X key))) \<and>
     (\<forall>key. \<exists>tweaked.
        ext_add_xonly_tweak X key (ext_keyspend_tweak X (ext_x_only X (ext_public_key X key))) = Some tweaked \<and>
        ext_p2tr X (ext_x_only X (ext_public_key X key)) = ext_p2tr_tweaked X (ext_x_only X (ext_public_key X tweaked)))"

section \<open>A concrete instance\<close>

text \<open>
  Simple functions in place of the external code, to show that the laws can hold together and to
  evaluate the model: keys and signatures are accepted by their length, every signature of the
  right length verifies, and outputs are encoded as the Bitcoin network does.
\<close>

definition demo_dec_outpoint :: "OutPoint decoder" where
  "demo_dec_outpoint = dbind (read_exact 32) (\<lambda>t. dbind read_u32 (\<lambda>v. dreturn \<lparr>op_txid = t, op_vout = v\<rparr>))"

definition demo_enc_txout :: "TxOut \<Rightarrow> bytes" where
  "demo_enc_txout t = emit_u64 (word_of_nat (txo_value t))
     @ emit_u64 (word_of_nat (length (txo_script t) mod u64_limit)) @ txo_script t"

definition demo_ext :: externals where
  "demo_ext = \<lparr>
     ext_pk_ok = (\<lambda>b. length b = 33), ext_sig_ok = (\<lambda>b. length b = 64),
     ext_x_only = (\<lambda>pk. drop 1 pk), ext_verify_schnorr = (\<lambda>s m k. length s = 64),
     ext_public_key = (\<lambda>kp. 2 # take 32 kp),
     ext_sign_schnorr = (\<lambda>rnd kp m. replicate 64 (word_of_nat rnd)), ext_add_xonly_tweak = (\<lambda>kp t. Some kp),
     ext_sha256 = (\<lambda>b. take 32 (b @ replicate 32 0)), ext_ripemd160 = (\<lambda>b. take 20 (b @ replicate 20 0)),
     ext_txid = (\<lambda>tx. replicate 32 (word_of_nat (length (tx_output tx)))),
     ext_key_sighash = (\<lambda>tx p. replicate 32 (word_of_nat (txo_value p))),
     ext_key_sighash_at = (\<lambda>tx i ps. replicate 32 (word_of_nat i)),
     ext_script_sighash = (\<lambda>tx p s. replicate 32 (word_of_nat (length s))),
     ext_output_key = (\<lambda>t. internal_key t), ext_tap_tweak = (\<lambda>t. replicate 32 (word_of_nat (length (tap_leaves t)))),
     ext_keyspend_tweak = (\<lambda>k. k), ext_control_block = (\<lambda>t s. internal_key t),
     ext_p2tr_tweaked = (\<lambda>k. 0x51 # 0x20 # k), ext_p2tr = (\<lambda>k. 0x51 # 0x20 # k),
     ext_p2a = [0x51, 0x02, 0x4e, 0x73],
     ext_script_bytes = (\<lambda>s. [word_of_nat (length s)]),
     ext_is_p2pkh = (\<lambda>s. take 1 s = [0x76]), ext_is_p2sh = (\<lambda>s. take 1 s = [0xa9]),
     ext_is_p2wpkh = (\<lambda>s. take 2 s = [0, 20]), ext_is_p2wsh = (\<lambda>s. take 2 s = [0, 32]),
     ext_is_p2tr = (\<lambda>s. take 2 s = [0x51, 0x20]), ext_is_op_return = (\<lambda>s. take 1 s = [0x6a]),
     ext_enc_outpoint = (\<lambda>p. op_txid p @ emit_u32 (op_vout p)), ext_dec_outpoint = demo_dec_outpoint,
     ext_enc_txout = demo_enc_txout,
     ext_dec_txout = dbind read_u64 (\<lambda>v. dbind read_u64 (\<lambda>n. dbind (read_exact (unat n)) (\<lambda>s.
       dreturn \<lparr>txo_value = unat v, txo_script = s\<rparr>))),
     ext_nonce_ok = (\<lambda>b. length b = 66), ext_part_sig_ok = (\<lambda>b. length b = 32),
     ext_agg_pk = (\<lambda>ks. replicate 32 (word_of_nat (length ks))),
     ext_nonce_pair = (\<lambda>rnd c k m. ([word_of_nat rnd], [word_of_nat rnd, 1])),
     ext_nonce_gen = (\<lambda>rnd c pk m. ([word_of_nat rnd], [word_of_nat rnd, 2])),
     ext_nonce_agg = (\<lambda>ns. [word_of_nat (length ns)]),
     ext_partial_sign = (\<lambda>c n m sn k. [1]),
     ext_partial_verify = (\<lambda>c n m ps pn pk. ps = [1]),
     ext_partial_sig_agg = (\<lambda>c n m ps. replicate 64 (word_of_nat (length ps)))\<rparr>"

section \<open>Lemmas\<close>

lemma segwit_lawsD:
  assumes "segwit_laws X" "strip_witness tx = strip_witness tx'"
  shows "ext_txid X tx = ext_txid X tx'" "ext_key_sighash X tx prev = ext_key_sighash X tx' prev"
    "ext_script_sighash X tx prev leaf = ext_script_sighash X tx' prev leaf"
  using assms unfolding segwit_laws_def by metis+

lemma p2tr_not_anchor:
  "p2tr_laws X \<Longrightarrow> txo_script t = taproot_script_pubkey X tr \<Longrightarrow> \<not> is_p2a_fee_anchor X t"
  by (auto simp: p2tr_laws_def is_p2a_fee_anchor_def taproot_script_pubkey_def)

lemma p2tr_standard:
  "p2tr_laws X \<Longrightarrow> txo_script t = taproot_script_pubkey X tr \<Longrightarrow>
   is_standard X t \<longleftrightarrow> P2TR_DUST \<le> txo_value t"
  by (auto simp: p2tr_laws_def is_standard_def taproot_script_pubkey_def Let_def)

lemma fee_anchor_simps [simp]:
  "txo_value (fee_anchor X) = 0" "is_p2a_fee_anchor X (fee_anchor X)"
  "txo_script (fee_anchor X) = ext_p2a X"
  by (simp_all add: fee_anchor_def fee_anchor_with_amount_def is_p2a_fee_anchor_def)

lemma sum_amounts_eq_Some:
  "sum_amounts as = Some s \<longleftrightarrow> s = sum_list as \<and> sum_list as < u64_limit"
  by (auto simp: sum_amounts_def)

lemma combine_keys_perm: "mset ks = mset ls \<Longrightarrow> combine_keys X ks = combine_keys X ls"
  proof -
  assume "mset ks = mset ls"
  then have "sort ks = sort ls" by (metis mset_sort properties_for_sort sorted_sort)
  then show ?thesis by (simp add: combine_keys_def key_agg_def)
qed


lemma unat_of_nat_u64: "n < u64_limit \<Longrightarrow> unat (word_of_nat n :: u64) = n"
  by (simp add: unat_of_nat u64_limit_def)

lemma musig_lawsD:
  assumes "musig_laws X"
  shows "mset ns = mset ms \<Longrightarrow> nonce_agg X ns = nonce_agg X ms"
    and "ext_nonce_pair X rnd c key m = (sec, pub) \<Longrightarrow> ext_public_key X key \<in> set (ka_keys agg) \<Longrightarrow>
      ext_partial_verify X agg agg_nonce msg (ext_partial_sign X agg agg_nonce msg sec key) pub (ext_public_key X key)"
    and "ext_nonce_gen X rnd c' (ext_public_key X key) m' = (sec, pub) \<Longrightarrow>
      ext_public_key X key \<in> set (ka_keys agg) \<Longrightarrow>
      ext_partial_verify X agg agg_nonce msg (ext_partial_sign X agg agg_nonce msg sec key) pub (ext_public_key X key)"
proof -
  note laws = assms [unfolded musig_laws_def]
  show "mset ns = mset ms \<Longrightarrow> nonce_agg X ns = nonce_agg X ms"
    unfolding nonce_agg_def using conjunct1 [OF laws] by blast
  show "ext_nonce_pair X rnd c key m = (sec, pub) \<Longrightarrow> ext_public_key X key \<in> set (ka_keys agg) \<Longrightarrow>
      ext_partial_verify X agg agg_nonce msg (ext_partial_sign X agg agg_nonce msg sec key) pub (ext_public_key X key)"
    using conjunct1 [OF conjunct2 [OF laws]] by blast
  show "ext_nonce_gen X rnd c' (ext_public_key X key) m' = (sec, pub) \<Longrightarrow>
      ext_public_key X key \<in> set (ka_keys agg) \<Longrightarrow>
      ext_partial_verify X agg agg_nonce msg (ext_partial_sign X agg agg_nonce msg sec key) pub (ext_public_key X key)"
    using conjunct1 [OF conjunct2 [OF conjunct2 [OF laws]]] by blast
qed

lemma musig_aggregate:
  assumes "musig_laws X" "internal_key t = combine_keys X keys"
    and "length ns = length keys" "length sigs = length keys"
    and "\<And>i. i < length keys \<Longrightarrow>
      ext_partial_verify X (tweaked_key_agg keys (ext_tap_tweak X t)) (nonce_agg X ns) msg (sigs ! i) (ns ! i) (keys ! i)"
  shows "ext_verify_schnorr X
      (ext_partial_sig_agg X (tweaked_key_agg keys (ext_tap_tweak X t)) (nonce_agg X ns) msg sigs)
      msg (ext_output_key X t)"
  using assms unfolding musig_laws_def nonce_agg_def by blast

text \<open>The two-party case, as boards, arkoors and forfeits use it.\<close>

lemma musig_two_party:
  assumes "musig_laws X" "internal_key t = combine_keys X [k1, k2]"
    and "ext_partial_verify X (tweaked_key_agg [k1, k2] (ext_tap_tweak X t)) (nonce_agg X [n1, n2]) msg s1 n1 k1"
    and "ext_partial_verify X (tweaked_key_agg [k1, k2] (ext_tap_tweak X t)) (nonce_agg X [n1, n2]) msg s2 n2 k2"
  shows "ext_verify_schnorr X
      (ext_partial_sig_agg X (tweaked_key_agg [k1, k2] (ext_tap_tweak X t)) (nonce_agg X [n1, n2]) msg [s1, s2])
      msg (ext_output_key X t)"
proof (rule musig_aggregate [OF assms(1,2)])
  fix i
  assume "i < length [k1, k2]"
  then have "i = 0 \<or> i = 1" by auto
  then show "ext_partial_verify X (tweaked_key_agg [k1, k2] (ext_tap_tweak X t)) (nonce_agg X [n1, n2]) msg
      ([s1, s2] ! i) ([n1, n2] ! i) ([k1, k2] ! i)"
    using assms(3,4) by auto
qed simp_all

text \<open>The same with the aggregate key itself.\<close>

lemma musig_two_party_untweaked:
  assumes "musig_untweaked_laws X"
    and "ext_partial_verify X (key_agg [k1, k2]) (nonce_agg X [n1, n2]) msg s1 n1 k1"
    and "ext_partial_verify X (key_agg [k1, k2]) (nonce_agg X [n1, n2]) msg s2 n2 k2"
  shows "ext_verify_schnorr X (ext_partial_sig_agg X (key_agg [k1, k2]) (nonce_agg X [n1, n2]) msg [s1, s2])
      msg (combine_keys X [k1, k2])"
proof -
  have "ext_partial_verify X (key_agg [k1, k2]) (nonce_agg X [n1, n2]) msg ([s1, s2] ! i) ([n1, n2] ! i) ([k1, k2] ! i)"
    if "i < length [k1, k2]" for i
  proof -
    from that have "i = 0 \<or> i = 1" by auto
    then show ?thesis using assms(2,3) by auto
  qed
  then show ?thesis
    using assms(1) [unfolded musig_untweaked_laws_def, rule_format, of "[n1, n2]" "[k1, k2]" "[s1, s2]" msg]
    by (simp add: nonce_agg_def)
qed

lemma tweaked_key_agg_perm: "mset ks = mset ls \<Longrightarrow> tweaked_key_agg ks t = tweaked_key_agg ls t"
proof -
  assume "mset ks = mset ls"
  then have "sort ks = sort ls" by (metis mset_sort properties_for_sort sorted_sort)
  then show ?thesis by (simp add: tweaked_key_agg_def)
qed

text \<open>A nonce pair that was generated for a key, by either of the two generators.\<close>

definition nonce_for :: "externals \<Rightarrow> Keypair \<Rightarrow> SecretNonce \<Rightarrow> PublicNonce \<Rightarrow> bool" where
  "nonce_for X key sec pub \<longleftrightarrow>
     (\<exists>rnd c m. ext_nonce_pair X rnd c key m = (sec, pub)) \<or>
     (\<exists>rnd c m. ext_nonce_gen X rnd c (ext_public_key X key) m = (sec, pub))"

lemma nonce_for_verifies:
  assumes "musig_laws X" "nonce_for X key sec pub" "ext_public_key X key \<in> set (ka_keys agg)"
  shows "ext_partial_verify X agg agg_nonce msg (ext_partial_sign X agg agg_nonce msg sec key) pub (ext_public_key X key)"
  using assms(2) musig_lawsD(2,3) [OF assms(1) _ assms(3)] unfolding nonce_for_def by blast

text \<open>
  The two sides of a two-party session: what the server signs verifies at the user, and what the
  user then completes is a signature for the taproot's output key.
\<close>

lemma two_party_cosign:
  assumes laws: "musig_laws X" and key: "ext_public_key X server_key = server"
    and sign: "deterministic_partial_sign X rnd server_key [user] [user_nonce] msg (Some tweak) = (nonce, psig)"
  shows "verify_partial_sig X msg tweak (server, nonce) (user, user_nonce) psig"
proof -
  let ?agg = "tweaked_key_agg [server, user] tweak"
  have agg: "tweaked_key_agg [user, server] tweak = ?agg"
    by (rule tweaked_key_agg_perm) simp
  from sign obtain sec where gen: "ext_nonce_pair X rnd (Some ?agg) server_key (Some msg) = (sec, nonce)"
    and psig: "psig = ext_partial_sign X ?agg (ext_nonce_agg X [user_nonce, nonce]) msg sec server_key"
    by (auto simp: deterministic_partial_sign_def session_agg_def key agg Let_def split: prod.splits)
  have "ext_nonce_agg X [user_nonce, nonce] = nonce_agg X [nonce, user_nonce]"
    using musig_lawsD(1) [OF laws, of "[user_nonce, nonce]" "[nonce, user_nonce]"] by (simp add: nonce_agg_def)
  moreover have "ext_partial_verify X ?agg (nonce_agg X [nonce, user_nonce]) msg
      (ext_partial_sign X ?agg (nonce_agg X [nonce, user_nonce]) msg sec server_key) nonce (ext_public_key X server_key)"
    by (rule musig_lawsD(2) [OF laws gen]) (simp add: key tweaked_key_agg_def)
  ultimately show ?thesis by (simp add: verify_partial_sig_def psig key Let_def)
qed

lemma two_party_finish:
  assumes laws: "musig_laws X" and t: "internal_key t = combine_keys X [user, server]"
    and resp: "verify_partial_sig X msg (ext_tap_tweak X t) (server, nonce) (user, user_nonce) psig"
    and user: "nonce_for X user_key sec user_nonce" "ext_public_key X user_key = user"
  shows "\<exists>sig. snd (partial_sign X [user, server] (nonce_agg X [user_nonce, nonce]) user_key sec msg
      (Some (ext_tap_tweak X t)) (Some [psig])) = Some sig \<and> ext_verify_schnorr X sig msg (ext_output_key X t)"
proof -
  let ?agg = "tweaked_key_agg [server, user] (ext_tap_tweak X t)"
  let ?nonce = "nonce_agg X [nonce, user_nonce]"
  let ?mine = "ext_partial_sign X ?agg ?nonce msg sec user_key"
  have agg: "tweaked_key_agg [user, server] (ext_tap_tweak X t) = ?agg"
    by (rule tweaked_key_agg_perm) simp
  have nonce: "nonce_agg X [user_nonce, nonce] = ?nonce"
    by (rule musig_lawsD(1) [OF laws]) simp
  have theirs: "ext_partial_verify X ?agg ?nonce msg psig nonce server"
    using resp by (simp add: verify_partial_sig_def Let_def)
  have "ext_partial_verify X ?agg ?nonce msg ?mine user_nonce user"
    using nonce_for_verifies [OF laws user(1), of ?agg ?nonce msg] by (simp add: user(2) tweaked_key_agg_def)
  moreover have "internal_key t = combine_keys X [server, user]"
    using combine_keys_perm [of "[user, server]" "[server, user]" X] t by simp
  ultimately have "ext_verify_schnorr X (ext_partial_sig_agg X ?agg ?nonce msg [psig, ?mine]) msg (ext_output_key X t)"
    using musig_two_party [OF laws _ theirs] by simp
  then show ?thesis by (simp add: partial_sign_def session_agg_def agg nonce Let_def)
qed

lemma keyspend_lawsD:
  assumes "keyspend_laws X"
  shows "ext_verify_schnorr X (ext_sign_schnorr X rnd key msg) msg (ext_x_only X (ext_public_key X key))"
    and "\<exists>tweaked. for_keyspend X key = Ok tweaked \<and>
      ext_p2tr X (ext_x_only X (ext_public_key X key)) = ext_p2tr_tweaked X (ext_x_only X (ext_public_key X tweaked))"
proof -
  show "ext_verify_schnorr X (ext_sign_schnorr X rnd key msg) msg (ext_x_only X (ext_public_key X key))"
    using assms by (simp add: keyspend_laws_def)
  from assms obtain tweaked where
    "ext_add_xonly_tweak X key (ext_keyspend_tweak X (ext_x_only X (ext_public_key X key))) = Some tweaked"
    "ext_p2tr X (ext_x_only X (ext_public_key X key)) = ext_p2tr_tweaked X (ext_x_only X (ext_public_key X tweaked))"
    unfolding keyspend_laws_def by blast
  then show "\<exists>tweaked. for_keyspend X key = Ok tweaked \<and>
      ext_p2tr X (ext_x_only X (ext_public_key X key)) = ext_p2tr_tweaked X (ext_x_only X (ext_public_key X tweaked))"
    by (simp add: for_keyspend_def)
qed

lemma demo_ext_laws:
  "segwit_laws demo_ext" "p2tr_laws demo_ext" "consensus_laws demo_ext" "musig_laws demo_ext"
  "musig_untweaked_laws demo_ext" "keyspend_laws demo_ext"
proof -
  have "ext_nonce_agg demo_ext ns = ext_nonce_agg demo_ext ms" if "mset ns = mset ms" for ns ms
    using mset_eq_length [OF that] by (simp add: demo_ext_def)
  moreover have "ext_partial_verify demo_ext c n m (ext_partial_sign demo_ext c n m sec key) pub pk"
    "ext_verify_schnorr demo_ext (ext_partial_sig_agg demo_ext c n m sigs) m pk" for c n m sec key pub pk sigs
    by (simp_all add: demo_ext_def)
  ultimately show "musig_laws demo_ext" unfolding musig_laws_def by blast
  show "musig_untweaked_laws demo_ext" "keyspend_laws demo_ext"
    by (simp_all add: musig_untweaked_laws_def keyspend_laws_def demo_ext_def)
  show "segwit_laws demo_ext"
    by (simp add: segwit_laws_def demo_ext_def strip_witness_def)
  show "p2tr_laws demo_ext"
    by (simp add: p2tr_laws_def demo_ext_def)
  have "ext_dec_outpoint demo_ext (ext_enc_outpoint demo_ext p @ r) = Inr (p, r)"
    if "wf_outpoint p" for p r
    using that by (simp add: demo_ext_def demo_dec_outpoint_def wf_outpoint_def decode_simps)
  moreover have "ext_dec_txout demo_ext (ext_enc_txout demo_ext t @ r) = Inr (t, r)"
    if "wf_txout t" for t r
    using that
    by (simp add: demo_ext_def demo_enc_txout_def wf_txout_def decode_simps unat_of_nat_u64)
  ultimately show "consensus_laws demo_ext" by (simp add: consensus_laws_def)
qed

end
