(* ===== verification/Ark_Policy.thy ===== *)
theory Ark_Policy
  imports Ark_Bitcoin
begin

text \<open>
  VTXO output policies and their spending clauses: \<open>lib/src/vtxo/policy/mod.rs\<close>,
  \<open>policy/clause.rs\<close>, the taproot constructors of \<open>vtxo/mod.rs\<close>, \<open>tree/signed.rs\<close> and
  \<open>lightning.rs\<close>, and the wire format of \<open>VtxoPolicy\<close>.
\<close>

section \<open>Data\<close>

type_synonym PaymentHash = Hash

datatype VtxoPolicyKind = KPubkey | KCheckpoint | KServerHtlcSend | KServerHtlcRecv

text \<open>
  The constructors carry the fields of \<open>PubkeyVtxoPolicy\<close>, \<open>CheckpointVtxoPolicy\<close>,
  \<open>ServerHtlcSendVtxoPolicy\<close> (user key, payment hash, HTLC expiry) and
  \<open>ServerHtlcRecvVtxoPolicy\<close> (user key, payment hash, HTLC expiry delta, HTLC expiry).
\<close>

datatype VtxoPolicy =
    Pubkey PublicKey
  | Checkpoint PublicKey
  | ServerHtlcSend PublicKey PaymentHash BlockHeight
  | ServerHtlcRecv PublicKey PaymentHash BlockDelta BlockHeight

text \<open>
  The clauses carry the fields of their structs: the key that signs, then the payment hash,
  the absolute height and the relative delta, where the clause has them.
\<close>

datatype VtxoClause =
    DelayedSign PublicKey BlockDelta
  | TimelockSign PublicKey BlockHeight
  | DelayedTimelockSign PublicKey BlockHeight BlockDelta
  | HashDelaySign PublicKey PaymentHash BlockDelta

section \<open>Policy kinds as strings\<close>

fun kind_to_string :: "VtxoPolicyKind \<Rightarrow> string" where
  "kind_to_string KPubkey = ''pubkey''"
| "kind_to_string KCheckpoint = ''checkpoint''"
| "kind_to_string KServerHtlcSend = ''server-htlc-send''"
| "kind_to_string KServerHtlcRecv = ''server-htlc-receive''"

definition kind_from_str :: "string \<Rightarrow> string + VtxoPolicyKind" where
  "kind_from_str s =
     (if s = ''pubkey'' then Inr KPubkey
      else if s = ''checkpoint'' then Inr KCheckpoint
      else if s = ''server-htlc-send'' then Inr KServerHtlcSend
      else if s = ''server-htlc-receive'' then Inr KServerHtlcRecv
      else Inl (''unknown VtxoPolicyType: '' @ s))"

section \<open>Clauses (\<open>clause.rs\<close>)\<close>

fun clause_pubkey :: "VtxoClause \<Rightarrow> PublicKey" where
  "clause_pubkey (DelayedSign pk d) = pk"
| "clause_pubkey (TimelockSign pk h) = pk"
| "clause_pubkey (DelayedTimelockSign pk h d) = pk"
| "clause_pubkey (HashDelaySign pk ph d) = pk"

text \<open>
  \<open>tapscript\<close> asserts that a relative delta is not zero; the absolute lock must be a valid
  height.
\<close>

fun clause_tapscript :: "externals \<Rightarrow> VtxoClause \<Rightarrow> ('e, script) outcome" where
  "clause_tapscript X (DelayedSign pk d) =
     (if d = 0 then panic ''block delta must be non-zero''
      else Ok (delayed_sign d (ext_x_only X pk)))"
| "clause_tapscript X (TimelockSign pk h) =
     (if \<not> locktime_ok h then panic ''LockTime::from_height''
      else Ok (timelock_sign h (ext_x_only X pk)))"
| "clause_tapscript X (DelayedTimelockSign pk h d) =
     (if d = 0 then panic ''block delta must be non-zero''
      else if \<not> locktime_ok h then panic ''LockTime::from_height''
      else Ok (delay_timelock_sign d h (ext_x_only X pk)))"
| "clause_tapscript X (HashDelaySign pk ph d) =
     (if d = 0 then panic ''block delta must be non-zero''
      else Ok (hash_delay_sign X ph d (ext_x_only X pk)))"

text \<open>\<open>sequence\<close>: the input sequence, where the clause has a relative lock.\<close>

fun clause_sequence :: "VtxoClause \<Rightarrow> ('e, u32 option) outcome" where
  "clause_sequence (DelayedSign pk d) = Ok (Some (ucast d))"
| "clause_sequence (TimelockSign pk h) = Ok None"
| "clause_sequence (DelayedTimelockSign pk h d) = Ok (Some (ucast d))"
| "clause_sequence (HashDelaySign pk ph d) =
     (if d = 0 then panic ''block delta must be non-zero'' else Ok (Some (ucast d)))"

text \<open>\<open>TapScriptClause::witness\<close>; only the hash clause takes a preimage.\<close>

definition clause_witness ::
  "externals \<Rightarrow> VtxoClause \<Rightarrow> Signature \<Rightarrow> bytes \<Rightarrow> bytes \<Rightarrow> ('e, bytes list) outcome" where
  "clause_witness X c signature preimage control_block =
     and_then (clause_tapscript X c) (\<lambda>s.
       (case c of
          HashDelaySign _ _ _ \<Rightarrow> Ok [signature, preimage, ext_script_bytes X s, control_block]
        | _ \<Rightarrow> Ok [signature, ext_script_bytes X s, control_block]))"

section \<open>Policies (\<open>policy/mod.rs\<close>)\<close>

text \<open>The clauses of the four policy structs. \<open>u16\<close> arithmetic wraps in release builds.\<close>

definition user_pubkey_claim_clause :: "PublicKey \<Rightarrow> BlockDelta \<Rightarrow> VtxoClause" where
  "user_pubkey_claim_clause user_pubkey exit_delta = DelayedSign user_pubkey exit_delta"

definition server_sweeping_clause :: "BlockHeight \<Rightarrow> PublicKey \<Rightarrow> VtxoClause" where
  "server_sweeping_clause expiry_height server_pubkey = TimelockSign server_pubkey expiry_height"

definition server_reveals_preimage_clause ::
  "PaymentHash \<Rightarrow> PublicKey \<Rightarrow> BlockDelta \<Rightarrow> VtxoClause" where
  "server_reveals_preimage_clause payment_hash server_pubkey exit_delta =
     HashDelaySign server_pubkey payment_hash exit_delta"

definition user_claim_after_expiry_clause ::
  "PublicKey \<Rightarrow> BlockHeight \<Rightarrow> BlockDelta \<Rightarrow> VtxoClause" where
  "user_claim_after_expiry_clause user_pubkey htlc_expiry exit_delta =
     DelayedTimelockSign user_pubkey htlc_expiry (2 * exit_delta)"

definition user_reveals_preimage_clause ::
  "PublicKey \<Rightarrow> PaymentHash \<Rightarrow> BlockDelta \<Rightarrow> BlockDelta \<Rightarrow> VtxoClause" where
  "user_reveals_preimage_clause user_pubkey payment_hash htlc_expiry_delta exit_delta =
     HashDelaySign user_pubkey payment_hash (htlc_expiry_delta + exit_delta)"

definition server_claim_after_expiry_clause ::
  "BlockHeight \<Rightarrow> PublicKey \<Rightarrow> BlockDelta \<Rightarrow> VtxoClause" where
  "server_claim_after_expiry_clause htlc_expiry server_pubkey exit_delta =
     DelayedTimelockSign server_pubkey htlc_expiry exit_delta"

fun policy_clauses :: "VtxoPolicy \<Rightarrow> BlockDelta \<Rightarrow> BlockHeight \<Rightarrow> PublicKey \<Rightarrow> VtxoClause list" where
  "policy_clauses (Pubkey u) exit_delta expiry_height server_pubkey =
     [user_pubkey_claim_clause u exit_delta]"
| "policy_clauses (Checkpoint u) exit_delta expiry_height server_pubkey =
     [server_sweeping_clause expiry_height server_pubkey]"
| "policy_clauses (ServerHtlcSend u ph htlc_expiry) exit_delta expiry_height server_pubkey =
     [server_reveals_preimage_clause ph server_pubkey exit_delta,
      user_claim_after_expiry_clause u htlc_expiry exit_delta]"
| "policy_clauses (ServerHtlcRecv u ph htlc_expiry_delta htlc_expiry) exit_delta expiry_height
       server_pubkey =
     [user_reveals_preimage_clause u ph htlc_expiry_delta exit_delta,
      server_claim_after_expiry_clause htlc_expiry server_pubkey exit_delta]"

fun policy_type :: "VtxoPolicy \<Rightarrow> VtxoPolicyKind" where
  "policy_type (Pubkey _) = KPubkey"
| "policy_type (Checkpoint _) = KCheckpoint"
| "policy_type (ServerHtlcSend _ _ _) = KServerHtlcSend"
| "policy_type (ServerHtlcRecv _ _ _ _) = KServerHtlcRecv"

fun is_arkoor_compatible :: "VtxoPolicy \<Rightarrow> bool" where
  "is_arkoor_compatible (Pubkey _) = True"
| "is_arkoor_compatible (Checkpoint _) = True"
| "is_arkoor_compatible (ServerHtlcSend _ _ _) = False"
| "is_arkoor_compatible (ServerHtlcRecv _ _ _ _) = False"

fun policy_arkoor_pubkey :: "VtxoPolicy \<Rightarrow> PublicKey option" where
  "policy_arkoor_pubkey (Pubkey u) = Some u"
| "policy_arkoor_pubkey (Checkpoint u) = Some u"
| "policy_arkoor_pubkey (ServerHtlcSend u _ _) = Some u"
| "policy_arkoor_pubkey (ServerHtlcRecv u _ _ _) = Some u"

fun policy_user_pubkey :: "VtxoPolicy \<Rightarrow> PublicKey" where
  "policy_user_pubkey (Pubkey u) = u"
| "policy_user_pubkey (Checkpoint u) = u"
| "policy_user_pubkey (ServerHtlcSend u _ _) = u"
| "policy_user_pubkey (ServerHtlcRecv u _ _ _) = u"

subsection \<open>Taproots\<close>

definition exit_clause :: "externals \<Rightarrow> PublicKey \<Rightarrow> BlockDelta \<Rightarrow> script" where
  "exit_clause X user_pubkey exit_delta = delayed_sign exit_delta (ext_x_only X user_pubkey)"

definition exit_taproot ::
  "externals \<Rightarrow> PublicKey \<Rightarrow> PublicKey \<Rightarrow> BlockDelta \<Rightarrow> TaprootSpendInfo" where
  "exit_taproot X user_pubkey server_pubkey exit_delta =
     \<lparr>internal_key = combine_keys X [user_pubkey, server_pubkey],
      tap_leaves = [(0, exit_clause X user_pubkey exit_delta)]\<rparr>"

definition expiry_clause :: "externals \<Rightarrow> PublicKey \<Rightarrow> BlockHeight \<Rightarrow> script" where
  "expiry_clause X server_pubkey expiry_height =
     timelock_sign expiry_height (ext_x_only X server_pubkey)"

definition checkpoint_taproot ::
  "externals \<Rightarrow> PublicKey \<Rightarrow> PublicKey \<Rightarrow> BlockHeight \<Rightarrow> TaprootSpendInfo" where
  "checkpoint_taproot X user_pubkey server_pubkey expiry_height =
     \<lparr>internal_key = combine_keys X [user_pubkey, server_pubkey],
      tap_leaves = [(0, expiry_clause X server_pubkey expiry_height)]\<rparr>"

definition server_htlc_send_taproot ::
  "externals \<Rightarrow> PaymentHash \<Rightarrow> PublicKey \<Rightarrow> PublicKey \<Rightarrow> BlockDelta \<Rightarrow> BlockHeight \<Rightarrow> TaprootSpendInfo" where
  "server_htlc_send_taproot X payment_hash server_pubkey user_pubkey exit_delta htlc_expiry =
     (let server_branch = hash_delay_sign X payment_hash exit_delta (ext_x_only X server_pubkey);
          user_branch = delay_timelock_sign (2 * exit_delta) htlc_expiry (ext_x_only X user_pubkey)
      in \<lparr>internal_key = combine_keys X [user_pubkey, server_pubkey],
          tap_leaves = [(1, server_branch), (1, user_branch)]\<rparr>)"

definition server_htlc_receive_taproot ::
  "externals \<Rightarrow> PaymentHash \<Rightarrow> PublicKey \<Rightarrow> PublicKey \<Rightarrow> BlockDelta \<Rightarrow> BlockDelta \<Rightarrow> BlockHeight \<Rightarrow>
   TaprootSpendInfo" where
  "server_htlc_receive_taproot X payment_hash server_pubkey user_pubkey exit_delta
       htlc_expiry_delta htlc_expiry =
     (let server_branch = delay_timelock_sign exit_delta htlc_expiry (ext_x_only X server_pubkey);
          user_branch = hash_delay_sign X payment_hash (exit_delta + htlc_expiry_delta)
                          (ext_x_only X user_pubkey)
      in \<lparr>internal_key = combine_keys X [user_pubkey, server_pubkey],
          tap_leaves = [(1, server_branch), (1, user_branch)]\<rparr>)"

fun policy_taproot ::
  "externals \<Rightarrow> VtxoPolicy \<Rightarrow> PublicKey \<Rightarrow> BlockDelta \<Rightarrow> BlockHeight \<Rightarrow> TaprootSpendInfo" where
  "policy_taproot X (Pubkey u) server_pubkey exit_delta expiry_height =
     exit_taproot X u server_pubkey exit_delta"
| "policy_taproot X (Checkpoint u) server_pubkey exit_delta expiry_height =
     checkpoint_taproot X u server_pubkey expiry_height"
| "policy_taproot X (ServerHtlcSend u ph htlc_expiry) server_pubkey exit_delta expiry_height =
     server_htlc_send_taproot X ph server_pubkey u exit_delta htlc_expiry"
| "policy_taproot X (ServerHtlcRecv u ph htlc_expiry_delta htlc_expiry) server_pubkey exit_delta
       expiry_height =
     server_htlc_receive_taproot X ph server_pubkey u exit_delta htlc_expiry_delta htlc_expiry"

text \<open>The absolute heights that \<open>policy_taproot\<close> turns into lock times.\<close>

fun policy_locktime_ok :: "VtxoPolicy \<Rightarrow> BlockHeight \<Rightarrow> bool" where
  "policy_locktime_ok (Pubkey _) expiry_height = True"
| "policy_locktime_ok (Checkpoint _) expiry_height = locktime_ok expiry_height"
| "policy_locktime_ok (ServerHtlcSend _ _ htlc_expiry) expiry_height = locktime_ok htlc_expiry"
| "policy_locktime_ok (ServerHtlcRecv _ _ _ htlc_expiry) expiry_height = locktime_ok htlc_expiry"

fun user_exit_clause :: "externals \<Rightarrow> VtxoPolicy \<Rightarrow> BlockDelta \<Rightarrow> ('e, script) outcome" where
  "user_exit_clause X (Pubkey u) exit_delta = Ok (exit_clause X u exit_delta)"
| "user_exit_clause X (Checkpoint u) exit_delta =
     panic ''not yet implemented: This clause cannot be exited by the user''"
| "user_exit_clause X (ServerHtlcSend u ph htlc_expiry) exit_delta =
     (if \<not> locktime_ok htlc_expiry then panic ''LockTime::from_height''
      else Ok (delay_timelock_sign (2 * exit_delta) htlc_expiry (ext_x_only X u)))"
| "user_exit_clause X (ServerHtlcRecv u ph htlc_expiry_delta htlc_expiry) exit_delta =
     Ok (hash_delay_sign X ph (exit_delta + htlc_expiry_delta) (ext_x_only X u))"

definition policy_script_pubkey ::
  "externals \<Rightarrow> VtxoPolicy \<Rightarrow> PublicKey \<Rightarrow> BlockDelta \<Rightarrow> BlockHeight \<Rightarrow> ScriptBuf" where
  "policy_script_pubkey X p server_pubkey exit_delta expiry_height =
     taproot_script_pubkey X (policy_taproot X p server_pubkey exit_delta expiry_height)"

definition policy_txout ::
  "externals \<Rightarrow> VtxoPolicy \<Rightarrow> Amount \<Rightarrow> PublicKey \<Rightarrow> BlockDelta \<Rightarrow> BlockHeight \<Rightarrow> TxOut" where
  "policy_txout X p amount server_pubkey exit_delta expiry_height =
     \<lparr>txo_value = amount, txo_script = policy_script_pubkey X p server_pubkey exit_delta expiry_height\<rparr>"

text \<open>The relative deltas of a policy's clauses are all non-zero.\<close>

fun policy_deltas_ok :: "VtxoPolicy \<Rightarrow> BlockDelta \<Rightarrow> bool" where
  "policy_deltas_ok (Pubkey _) exit_delta \<longleftrightarrow> exit_delta \<noteq> 0"
| "policy_deltas_ok (Checkpoint _) exit_delta \<longleftrightarrow> True"
| "policy_deltas_ok (ServerHtlcSend _ _ _) exit_delta \<longleftrightarrow> exit_delta \<noteq> 0 \<and> 2 * exit_delta \<noteq> 0"
| "policy_deltas_ok (ServerHtlcRecv _ _ htlc_expiry_delta _) exit_delta \<longleftrightarrow>
     exit_delta \<noteq> 0 \<and> htlc_expiry_delta + exit_delta \<noteq> 0"

section \<open>Encoding\<close>

definition VTXO_POLICY_PUBKEY :: byte where "VTXO_POLICY_PUBKEY = 0x00"
definition VTXO_POLICY_SERVER_HTLC_SEND :: byte where "VTXO_POLICY_SERVER_HTLC_SEND = 0x01"
definition VTXO_POLICY_SERVER_HTLC_RECV :: byte where "VTXO_POLICY_SERVER_HTLC_RECV = 0x02"
definition VTXO_CHECKPOINT_CHECKPOINT :: byte where "VTXO_CHECKPOINT_CHECKPOINT = 0x03"

fun enc_policy :: "VtxoPolicy \<Rightarrow> bytes" where
  "enc_policy (Pubkey u) = emit_u8 VTXO_POLICY_PUBKEY @ enc_pubkey u"
| "enc_policy (Checkpoint u) = emit_u8 VTXO_CHECKPOINT_CHECKPOINT @ enc_pubkey u"
| "enc_policy (ServerHtlcSend u ph htlc_expiry) =
     emit_u8 VTXO_POLICY_SERVER_HTLC_SEND @ enc_pubkey u @ enc_hash ph @ emit_u32 htlc_expiry"
| "enc_policy (ServerHtlcRecv u ph htlc_expiry_delta htlc_expiry) =
     emit_u8 VTXO_POLICY_SERVER_HTLC_RECV @ enc_pubkey u @ enc_hash ph @ emit_u32 htlc_expiry
       @ emit_u16 htlc_expiry_delta"

definition dec_policy :: "(bytes \<Rightarrow> bool) \<Rightarrow> VtxoPolicy decoder" where
  "dec_policy pk_ok = dbind read_u8 (\<lambda>t.
     if t = VTXO_POLICY_PUBKEY then
       dbind (dec_pubkey pk_ok) (\<lambda>u. dreturn (Pubkey u))
     else if t = VTXO_CHECKPOINT_CHECKPOINT then
       dbind (dec_pubkey pk_ok) (\<lambda>u. dreturn (Checkpoint u))
     else if t = VTXO_POLICY_SERVER_HTLC_SEND then
       dbind (dec_pubkey pk_ok) (\<lambda>u. dbind dec_hash (\<lambda>ph. dbind read_u32 (\<lambda>htlc_expiry.
         dreturn (ServerHtlcSend u ph htlc_expiry))))
     else if t = VTXO_POLICY_SERVER_HTLC_RECV then
       dbind (dec_pubkey pk_ok) (\<lambda>u. dbind dec_hash (\<lambda>ph. dbind read_u32 (\<lambda>htlc_expiry.
         dbind read_u16 (\<lambda>htlc_expiry_delta.
           dreturn (ServerHtlcRecv u ph htlc_expiry_delta htlc_expiry)))))
     else dfail (Invalid ''invalid VtxoType type byte''))"

fun wf_policy :: "(bytes \<Rightarrow> bool) \<Rightarrow> VtxoPolicy \<Rightarrow> bool" where
  "wf_policy pk_ok (Pubkey u) = wf_pubkey pk_ok u"
| "wf_policy pk_ok (Checkpoint u) = wf_pubkey pk_ok u"
| "wf_policy pk_ok (ServerHtlcSend u ph _) = (wf_pubkey pk_ok u \<and> wf_hash ph)"
| "wf_policy pk_ok (ServerHtlcRecv u ph _ _) = (wf_pubkey pk_ok u \<and> wf_hash ph)"

section \<open>Lemmas\<close>

lemmas policy_tags = VTXO_POLICY_PUBKEY_def VTXO_POLICY_SERVER_HTLC_SEND_def
  VTXO_POLICY_SERVER_HTLC_RECV_def VTXO_CHECKPOINT_CHECKPOINT_def

lemmas key_roundtrip [decode_simps] =
  c_pubkey.roundtrip [OF _ refl] c_sig.roundtrip [OF _ refl] c_hash.roundtrip [OF _ refl]
  c_opt_pubkey.roundtrip [OF _ refl] c_opt_sig.roundtrip [OF _ refl]
  c_pubkey.roundtrip_exact [OF _ refl] c_sig.roundtrip_exact [OF _ refl]
  c_hash.roundtrip_exact [OF _ refl]

lemmas decode_inversion = dbind_eq_Inr dreturn_apply dfail_apply

lemmas key_canonical = c_pubkey.canonical c_sig.canonical c_hash.canonical
  c_opt_pubkey.canonical c_opt_sig.canonical

lemma policy_roundtrip [decode_simps]:
  "wf_policy pk_ok p \<Longrightarrow> dec_policy pk_ok (enc_policy p @ r) = Inr (p, r)"
  by (cases p) (simp_all add: dec_policy_def policy_tags decode_simps)

lemma policy_canonical:
  assumes "dec_policy pk_ok b = Inr (p, r)"
  shows "wf_policy pk_ok p \<and> b = enc_policy p @ r"
proof -
  from assms obtain t b' where t: "read_u8 b = Inr (t, b')"
    by (auto simp: dec_policy_def decode_inversion)
  then have b: "b = emit_u8 t @ b'" by (rule int_canonical)
  show ?thesis
    using assms t unfolding b dec_policy_def
    by (auto simp: decode_inversion split: if_splits dest!: int_canonical key_canonical)
qed

interpretation c_policy: canonical_codec
  "\<lambda>p. Some (enc_policy p)" "dec_policy pk_ok" "wf_policy pk_ok" for pk_ok
  by unfold_locales (auto simp: policy_roundtrip dest: policy_canonical)

lemma policy_taproot_internal_key:
  "internal_key (policy_taproot X p server_pubkey exit_delta expiry_height) =
   combine_keys X [policy_user_pubkey p, server_pubkey]"
  by (cases p) (simp_all add: exit_taproot_def checkpoint_taproot_def
      server_htlc_send_taproot_def server_htlc_receive_taproot_def)

lemma policy_txout_simps [simp]:
  "txo_value (policy_txout X p a s d h) = a"
  "txo_script (policy_txout X p a s d h) = taproot_script_pubkey X (policy_taproot X p s d h)"
  by (simp_all add: policy_txout_def policy_script_pubkey_def)

lemmas taproot_defs = exit_taproot_def checkpoint_taproot_def server_htlc_send_taproot_def
  server_htlc_receive_taproot_def exit_clause_def expiry_clause_def

lemmas clause_defs = user_pubkey_claim_clause_def server_sweeping_clause_def
  server_reveals_preimage_clause_def user_claim_after_expiry_clause_def
  user_reveals_preimage_clause_def server_claim_after_expiry_clause_def

section \<open>Properties\<close>

text \<open>C38: The wire format of a VTXO policy: decoding accepts exactly the encodings of the
  well-formed policies, and reads back the policy that was written, leaving the rest of the
  input.\<close>

theorem policy_codec:
  "dec_policy pk_ok b = Inr (p, r) \<longleftrightarrow> wf_policy pk_ok p \<and> b = enc_policy p @ r"
  using policy_roundtrip policy_canonical by blast

text \<open>C39: The clauses of a policy and its taproot agree. Building the tapscripts of
  \<open>VtxoPolicy::clauses\<close> yields exactly the leaf scripts of \<open>VtxoPolicy::taproot\<close>, so that a
  control block exists for each of them, when every relative delta of the policy is non-zero
  (after \<open>u16\<close> wrap-around) and every lock height is a block height; otherwise it panics.\<close>

theorem policy_clauses_are_the_taproot_leaves:
  "((\<exists>ss. collect_results (map (clause_tapscript X) (policy_clauses p d h s)) = Ok ss \<and>
           mset ss = mset (map snd (tap_leaves (policy_taproot X p s d h))))
      \<longleftrightarrow> policy_deltas_ok p d \<and> policy_locktime_ok p h)
   \<and> ((\<exists>m. collect_results (map (clause_tapscript X) (policy_clauses p d h s)) = panic m)
      \<longleftrightarrow> \<not> (policy_deltas_ok p d \<and> policy_locktime_ok p h))"
  by (cases p) (auto simp: clause_defs taproot_defs Let_def add.commute)

text \<open>Every policy can be spent cooperatively: the internal key of its taproot aggregates
  the user's and the server's key, whatever their order.\<close>

theorem policy_keyspend_is_user_and_server:
  "internal_key (policy_taproot X p s exit_delta expiry_height) =
     combine_keys X [policy_user_pubkey p, s]
   \<and> combine_keys X [policy_user_pubkey p, s] = combine_keys X [s, policy_user_pubkey p]"
  by (simp add: policy_taproot_internal_key combine_keys_perm add_mset_commute)


text \<open>\<open>arkoor_pubkey\<close> never returns \<open>None\<close>: it is the user's key for every policy, also for
  the HTLC policies that \<open>is_arkoor_compatible\<close> declares incompatible.\<close>

theorem arkoor_pubkey_always_present:
  "policy_arkoor_pubkey p = Some (policy_user_pubkey p)
   \<and> (\<exists>q. \<not> is_arkoor_compatible q \<and> policy_arkoor_pubkey q \<noteq> None)"
proof
  show "policy_arkoor_pubkey p = Some (policy_user_pubkey p)" by (cases p) simp_all
  show "\<exists>q. \<not> is_arkoor_compatible q \<and> policy_arkoor_pubkey q \<noteq> None"
    by (rule exI [of _ "ServerHtlcSend [] [] 0"]) simp
qed

end
