(* ===== verification/Ark_Vtxo.thy ===== *)
theory Ark_Vtxo
  imports Ark_Policy
begin

text \<open>
  VTXOs (\<open>lib/src/vtxo/mod.rs\<close>): identifiers, the genesis that leads from the chain anchor
  to the VTXO's output, the iterator that rebuilds the exit transactions, and the wire format.
  The taproots of the cosigned tree nodes come from \<open>lib/src/tree/signed.rs\<close>.
\<close>

section \<open>Identifiers\<close>

text \<open>\<open>VtxoId([u8; 36])\<close>: the transaction id and the little-endian output index.\<close>

type_synonym VtxoId = bytes

definition vtxo_id_from_slice :: "bytes \<Rightarrow> VtxoId option" where
  "vtxo_id_from_slice b = (if length b = 36 then Some (take 36 b) else None)"

definition vtxo_id_utxo :: "VtxoId \<Rightarrow> OutPoint" where
  "vtxo_id_utxo i = \<lparr>op_txid = take 32 i, op_vout = word_of_nat (le_val (take 4 (drop 32 i)))\<rparr>"

definition vtxo_id_of_point :: "OutPoint \<Rightarrow> VtxoId" where
  "vtxo_id_of_point p = op_txid p @ le_bytes 4 (unat (op_vout p))"

definition enc_vtxo_id :: "VtxoId \<Rightarrow> bytes" where
  "enc_vtxo_id i = emit_slice i"

definition dec_vtxo_id :: "VtxoId decoder" where
  "dec_vtxo_id b = (case read_byte_array 36 b of
     Inl _ \<Rightarrow> Inl (Invalid ''invalid vtxo id. Expected 36 bytes'')
   | Inr (array, r) \<Rightarrow> Inr (array, r))"

section \<open>Exit transactions\<close>

text \<open>Every transaction of the library has version 3 and no lock time.\<close>

abbreviation v3_tx :: "TxIn list \<Rightarrow> TxOut list \<Rightarrow> Transaction" where
  "v3_tx ins outs \<equiv> \<lparr>tx_version = 3, tx_lock_time = 0, tx_input = ins, tx_output = outs\<rparr>"

definition create_exit_tx ::
  "externals \<Rightarrow> OutPoint \<Rightarrow> TxOut \<Rightarrow> Signature option \<Rightarrow> Transaction" where
  "create_exit_tx X prevout out signature =
     v3_tx [plain_input prevout Sequence_ZERO (case signature of Some sig \<Rightarrow> [sig] | None \<Rightarrow> [])]
       [out, fee_anchor X]"

definition unlock_clause :: "externals \<Rightarrow> XOnlyPublicKey \<Rightarrow> Hash \<Rightarrow> script" where
  "unlock_clause X pubkey unlock_hash = hash_and_sign X unlock_hash pubkey"

definition leaf_cosign_taproot ::
  "externals \<Rightarrow> XOnlyPublicKey \<Rightarrow> PublicKey \<Rightarrow> BlockHeight \<Rightarrow> Hash \<Rightarrow> TaprootSpendInfo" where
  "leaf_cosign_taproot X agg_pk server_pubkey expiry_height unlock_hash =
     \<lparr>internal_key = agg_pk,
      tap_leaves = [(1, expiry_clause X server_pubkey expiry_height),
                    (1, unlock_clause X agg_pk unlock_hash)]\<rparr>"

definition cosign_taproot ::
  "externals \<Rightarrow> XOnlyPublicKey \<Rightarrow> PublicKey \<Rightarrow> BlockHeight \<Rightarrow> TaprootSpendInfo" where
  "cosign_taproot X agg_pk server_pubkey expiry_height =
     \<lparr>internal_key = agg_pk, tap_leaves = [(0, expiry_clause X server_pubkey expiry_height)]\<rparr>"

section \<open>Genesis transitions\<close>

datatype MaybePreimage = Preimage bytes | PHash Hash

fun maybe_preimage_hash :: "externals \<Rightarrow> MaybePreimage \<Rightarrow> Hash" where
  "maybe_preimage_hash X (Preimage p) = ext_sha256 X p"
| "maybe_preimage_hash X (PHash h) = h"

datatype GenesisTransition =
    Cosigned "PublicKey list" Signature
  | HashLockedCosigned PublicKey Signature MaybePreimage
  | Arkoor VtxoPolicy "Signature option"

fun input_taproot ::
  "externals \<Rightarrow> GenesisTransition \<Rightarrow> PublicKey \<Rightarrow> BlockHeight \<Rightarrow> BlockDelta \<Rightarrow> TaprootSpendInfo" where
  "input_taproot X (Cosigned pubkeys _) server_pubkey expiry_height exit_delta =
     cosign_taproot X (combine_keys X pubkeys) server_pubkey expiry_height"
| "input_taproot X (HashLockedCosigned user_pubkey _ unlock) server_pubkey expiry_height exit_delta =
     leaf_cosign_taproot X (combine_keys X [user_pubkey, server_pubkey]) server_pubkey expiry_height
       (maybe_preimage_hash X unlock)"
| "input_taproot X (Arkoor policy _) server_pubkey expiry_height exit_delta =
     policy_taproot X policy server_pubkey exit_delta expiry_height"

text \<open>The lock heights that \<open>input_taproot\<close> needs to be valid.\<close>

fun transition_locktime_ok :: "GenesisTransition \<Rightarrow> BlockHeight \<Rightarrow> bool" where
  "transition_locktime_ok (Cosigned _ _) expiry_height = locktime_ok expiry_height"
| "transition_locktime_ok (HashLockedCosigned _ _ _) expiry_height = locktime_ok expiry_height"
| "transition_locktime_ok (Arkoor policy _) expiry_height = policy_locktime_ok policy expiry_height"

definition input_txout ::
  "externals \<Rightarrow> GenesisTransition \<Rightarrow> Amount \<Rightarrow> PublicKey \<Rightarrow> BlockHeight \<Rightarrow> BlockDelta \<Rightarrow> TxOut" where
  "input_txout X t amount server_pubkey expiry_height exit_delta =
     \<lparr>txo_value = amount,
      txo_script = taproot_script_pubkey X (input_taproot X t server_pubkey expiry_height exit_delta)\<rparr>"

fun transition_witness ::
  "externals \<Rightarrow> GenesisTransition \<Rightarrow> PublicKey \<Rightarrow> BlockHeight \<Rightarrow> bytes list" where
  "transition_witness X (Cosigned _ signature) server_pubkey expiry_height = [signature]"
| "transition_witness X (HashLockedCosigned user_pubkey signature (Preimage preimage)) server_pubkey
       expiry_height =
     (let unlock_hash = ext_sha256 X preimage;
          agg_pk = combine_keys X [user_pubkey, server_pubkey];
          taproot = leaf_cosign_taproot X agg_pk server_pubkey expiry_height unlock_hash;
          clause = unlock_clause X agg_pk unlock_hash
      in [signature, preimage, ext_script_bytes X clause, ext_control_block X taproot clause])"
| "transition_witness X (HashLockedCosigned _ _ (PHash _)) server_pubkey expiry_height = []"
| "transition_witness X (Arkoor _ (Some sig)) server_pubkey expiry_height = [sig]"
| "transition_witness X (Arkoor _ None) server_pubkey expiry_height = []"

text \<open>Building the witness of a hash-locked transition builds a taproot with the expiry height.\<close>

fun witness_locktime_ok :: "GenesisTransition \<Rightarrow> BlockHeight \<Rightarrow> bool" where
  "witness_locktime_ok (HashLockedCosigned _ _ (Preimage _)) expiry_height = locktime_ok expiry_height"
| "witness_locktime_ok _ _ = True"

fun transition_is_fully_signed :: "GenesisTransition \<Rightarrow> bool" where
  "transition_is_fully_signed (Cosigned _ _) = True"
| "transition_is_fully_signed (HashLockedCosigned _ _ (PHash _)) = False"
| "transition_is_fully_signed (HashLockedCosigned _ _ (Preimage _)) = True"
| "transition_is_fully_signed (Arkoor _ signature) = (signature \<noteq> None)"

fun transition_type :: "GenesisTransition \<Rightarrow> string" where
  "transition_type (Cosigned _ _) = ''cosigned''"
| "transition_type (HashLockedCosigned _ _ _) = ''hash-locked-cosigned''"
| "transition_type (Arkoor _ _) = ''arkoor''"

record GenesisItem =
  gi_transition :: GenesisTransition
  gi_output_idx :: byte
  gi_other_outputs :: "TxOut list"

definition item_tx ::
  "externals \<Rightarrow> GenesisItem \<Rightarrow> OutPoint \<Rightarrow> TxOut \<Rightarrow> PublicKey \<Rightarrow> BlockHeight \<Rightarrow> Transaction" where
  "item_tx X item prev next server_pubkey expiry_height =
     v3_tx
       [plain_input prev Sequence_ZERO (transition_witness X (gi_transition item) server_pubkey expiry_height)]
       (take (unat (gi_output_idx item)) (gi_other_outputs item) @ [next]
        @ drop (unat (gi_output_idx item)) (gi_other_outputs item) @ [fee_anchor X])"

section \<open>VTXOs\<close>

record Vtxo =
  v_policy :: VtxoPolicy
  v_amount :: Amount
  v_expiry_height :: BlockHeight
  v_server_pubkey :: PublicKey
  v_exit_delta :: BlockDelta
  v_anchor_point :: OutPoint
  v_genesis :: "GenesisItem list"
  v_point :: OutPoint

definition vtxo_id :: "Vtxo \<Rightarrow> VtxoId" where
  "vtxo_id v = vtxo_id_of_point (v_point v)"

text \<open>\<open>VtxoSpec\<close> and \<open>Vtxo::spec\<close>.\<close>

record VtxoSpec =
  sp_policy :: VtxoPolicy
  sp_amount :: Amount
  sp_expiry_height :: BlockHeight
  sp_server_pubkey :: PublicKey
  sp_exit_delta :: BlockDelta

definition vtxo_spec :: "Vtxo \<Rightarrow> VtxoSpec" where
  "vtxo_spec v = \<lparr>sp_policy = v_policy v, sp_amount = v_amount v,
     sp_expiry_height = v_expiry_height v, sp_server_pubkey = v_server_pubkey v,
     sp_exit_delta = v_exit_delta v\<rparr>"

definition spec_output_taproot :: "externals \<Rightarrow> VtxoSpec \<Rightarrow> TaprootSpendInfo" where
  "spec_output_taproot X s =
     policy_taproot X (sp_policy s) (sp_server_pubkey s) (sp_exit_delta s) (sp_expiry_height s)"

definition spec_txout :: "externals \<Rightarrow> VtxoSpec \<Rightarrow> TxOut" where
  "spec_txout X s =
     policy_txout X (sp_policy s) (sp_amount s) (sp_server_pubkey s) (sp_exit_delta s) (sp_expiry_height s)"

text \<open>\<open>exit_depth\<close>: \<open>genesis.len() as u16\<close>.\<close>

definition vtxo_exit_depth :: "Vtxo \<Rightarrow> u16" where
  "vtxo_exit_depth v = word_of_nat (length (v_genesis v))"

definition server_htlc_out_payment_hash :: "Vtxo \<Rightarrow> PaymentHash option" where
  "server_htlc_out_payment_hash v =
     (case v_policy v of ServerHtlcSend _ payment_hash _ \<Rightarrow> Some payment_hash | _ \<Rightarrow> None)"

definition past_arkoor_pubkeys :: "Vtxo \<Rightarrow> PublicKey list" where
  "past_arkoor_pubkeys v = List.map_filter
     (\<lambda>g. case gi_transition g of Arkoor policy _ \<Rightarrow> policy_arkoor_pubkey policy | _ \<Rightarrow> None)
     (v_genesis v)"

definition vtxo_arkoor_pubkeys :: "Vtxo \<Rightarrow> PublicKey set" where
  "vtxo_arkoor_pubkeys v = set (past_arkoor_pubkeys v)"

definition vtxo_user_pubkey :: "Vtxo \<Rightarrow> PublicKey" where
  "vtxo_user_pubkey v = policy_user_pubkey (v_policy v)"

definition forfeit_agg_pubkey :: "externals \<Rightarrow> Vtxo \<Rightarrow> XOnlyPublicKey" where
  "forfeit_agg_pubkey X v = combine_keys X [vtxo_user_pubkey v, v_server_pubkey v]"

definition vtxo_output_taproot :: "externals \<Rightarrow> Vtxo \<Rightarrow> TaprootSpendInfo" where
  "vtxo_output_taproot X v =
     policy_taproot X (v_policy v) (v_server_pubkey v) (v_exit_delta v) (v_expiry_height v)"

definition vtxo_txout :: "externals \<Rightarrow> Vtxo \<Rightarrow> TxOut" where
  "vtxo_txout X v =
     policy_txout X (v_policy v) (v_amount v) (v_server_pubkey v) (v_exit_delta v) (v_expiry_height v)"

definition vtxo_is_fully_signed :: "Vtxo \<Rightarrow> bool" where
  "vtxo_is_fully_signed v \<longleftrightarrow> (\<forall>g \<in> set (v_genesis v). transition_is_fully_signed (gi_transition g))"

section \<open>The exit transaction iterator\<close>

text \<open>\<open>item.other_outputs.iter().map(|o| o.value).sum()\<close>\<close>

definition other_value :: "GenesisItem \<Rightarrow> Amount" where
  "other_value item = sum_list (map txo_value (gi_other_outputs item))"

text \<open>
  The amount on the chain anchor: the VTXO and everything that leaves on the way. The sums and
  the addition panic on overflow.
\<close>

definition onchain_amount :: "Vtxo \<Rightarrow> Amount option" where
  "onchain_amount v = sum_amounts (v_amount v # map other_value (v_genesis v))"

record VtxoTxIterItem =
  ii_tx :: Transaction
  ii_output_idx :: nat

record VtxoTxIter =
  it_prev :: OutPoint
  it_genesis_idx :: nat
  it_current_amount :: Amount
  it_done :: bool

definition tx_iter_new :: "Vtxo \<Rightarrow> ('e, VtxoTxIter) outcome" where
  "tx_iter_new v = and_then (expect (onchain_amount v) ''attempt to add with overflow'') (\<lambda>a.
     Ok \<lparr>it_prev = v_anchor_point v, it_genesis_idx = 0, it_current_amount = a, it_done = False\<rparr>)"

text \<open>
  The output that the transaction at a genesis position creates for the next transition, or the
  VTXO's own output at the end of the chain.
\<close>

definition next_output :: "externals \<Rightarrow> Vtxo \<Rightarrow> GenesisItem option \<Rightarrow> Amount \<Rightarrow> TxOut" where
  "next_output X v next_item next_amount =
     (case next_item of
        Some item \<Rightarrow> input_txout X (gi_transition item) next_amount (v_server_pubkey v)
                        (v_expiry_height v) (v_exit_delta v)
      | None \<Rightarrow> policy_txout X (v_policy v) (v_amount v) (v_server_pubkey v) (v_exit_delta v)
                   (v_expiry_height v))"

definition next_locktime_ok :: "Vtxo \<Rightarrow> GenesisItem option \<Rightarrow> bool" where
  "next_locktime_ok v next_item =
     (case next_item of
        Some item \<Rightarrow> transition_locktime_ok (gi_transition item) (v_expiry_height v)
      | None \<Rightarrow> policy_locktime_ok (v_policy v) (v_expiry_height v))"

text \<open>
  \<open>Iterator::next\<close>: the item that is yielded, if any, and the next state. Building the witness
  of a hash-locked transition panics on an invalid expiry height, as building the next output
  does.
\<close>

definition tx_iter_next ::
  "externals \<Rightarrow> Vtxo \<Rightarrow> VtxoTxIter \<Rightarrow> ('e, VtxoTxIterItem option \<times> VtxoTxIter) outcome" where
  "tx_iter_next X v it =
     (if it_done it then Ok (None, it) else
      and_then (expect (nth_opt (v_genesis v) (it_genesis_idx it)) ''broken impl'') (\<lambda>item.
      if it_current_amount it < other_value item then panic ''we calculated this amount beforehand''
      else
        let next_amount = it_current_amount it - other_value item;
            next_item = nth_opt (v_genesis v) (it_genesis_idx it + 1)
        in if \<not> next_locktime_ok v next_item then panic ''LockTime::from_height''
        else if \<not> witness_locktime_ok (gi_transition item) (v_expiry_height v)
        then panic ''LockTime::from_height''
        else
          let tx = item_tx X item (it_prev it) (next_output X v next_item next_amount)
                     (v_server_pubkey v) (v_expiry_height v)
          in Ok (Some \<lparr>ii_tx = tx, ii_output_idx = unat (gi_output_idx item)\<rparr>,
                 \<lparr>it_prev = \<lparr>op_txid = ext_txid X tx, op_vout = ucast (gi_output_idx item)\<rparr>,
                  it_genesis_idx = it_genesis_idx it + 1,
                  it_current_amount = next_amount,
                  it_done = (next_item = None)\<rparr>)))"

text \<open>Running the iterator to its end, as \<open>vtxo.transactions().collect()\<close> does.\<close>

function tx_iter_collect ::
  "externals \<Rightarrow> Vtxo \<Rightarrow> VtxoTxIter \<Rightarrow> ('e, VtxoTxIterItem list) outcome" where
  "tx_iter_collect X v it =
     and_then (tx_iter_next X v it) (\<lambda>(yielded, it').
       case yielded of
         None \<Rightarrow> Ok []
       | Some i \<Rightarrow> and_then (tx_iter_collect X v it') (\<lambda>is. Ok (i # is)))"
  by pat_completeness auto
termination
  by (relation "measure (\<lambda>(X, v, it). length (v_genesis v) - it_genesis_idx it)")
    (auto simp: tx_iter_next_def Let_def and_then_eq_Inr expect_def nth_opt_eq_Some
      split: if_splits option.splits)

declare tx_iter_collect.simps [simp del]

definition vtxo_transactions :: "externals \<Rightarrow> Vtxo \<Rightarrow> ('e, VtxoTxIterItem list) outcome" where
  "vtxo_transactions X v = and_then (tx_iter_new v) (tx_iter_collect X v)"

section \<open>Encoding\<close>

definition GENESIS_TRANSITION_TYPE_COSIGNED :: byte where
  "GENESIS_TRANSITION_TYPE_COSIGNED = 1"
definition GENESIS_TRANSITION_TYPE_ARKOOR :: byte where
  "GENESIS_TRANSITION_TYPE_ARKOOR = 2"
definition GENESIS_TRANSITION_TYPE_HASH_LOCKED_COSIGNED :: byte where
  "GENESIS_TRANSITION_TYPE_HASH_LOCKED_COSIGNED = 3"

fun enc_maybe_preimage :: "MaybePreimage \<Rightarrow> bytes" where
  "enc_maybe_preimage (Preimage p) = emit_u8 0 @ emit_slice p"
| "enc_maybe_preimage (PHash h) = emit_u8 1 @ emit_slice h"

text \<open>\<open>None\<close> is the panic of \<open>expect("cosign pubkey length overflow")\<close>.\<close>

fun enc_transition :: "GenesisTransition \<Rightarrow> bytes option" where
  "enc_transition (Cosigned pubkeys signature) =
     (if length pubkeys < 65536
      then Some (emit_u8 GENESIS_TRANSITION_TYPE_COSIGNED
                 @ emit_u16 (word_of_nat (length pubkeys))
                 @ concat (map enc_pubkey pubkeys) @ enc_sig signature)
      else None)"
| "enc_transition (HashLockedCosigned user_pubkey signature unlock) =
     Some (emit_u8 GENESIS_TRANSITION_TYPE_HASH_LOCKED_COSIGNED
           @ enc_pubkey user_pubkey @ enc_sig signature @ enc_maybe_preimage unlock)"
| "enc_transition (Arkoor policy signature) =
     Some (emit_u8 GENESIS_TRANSITION_TYPE_ARKOOR @ enc_policy policy @ enc_opt_sig signature)"

definition dec_maybe_preimage :: "MaybePreimage decoder" where
  "dec_maybe_preimage = dbind read_u8 (\<lambda>t.
     if t = 0 then dbind (read_byte_array 32) (\<lambda>p. dreturn (Preimage p))
     else if t = 1 then dbind dec_hash (\<lambda>h. dreturn (PHash h))
     else dfail (Invalid ''invalid HashLockedCosignedTransitionWitness type byte''))"

definition dec_transition ::
  "(bytes \<Rightarrow> bool) \<Rightarrow> (bytes \<Rightarrow> bool) \<Rightarrow> GenesisTransition decoder" where
  "dec_transition pk_ok sig_ok = dbind read_u8 (\<lambda>t.
     if t = GENESIS_TRANSITION_TYPE_COSIGNED then
       dbind read_u16 (\<lambda>nb_pubkeys. dbind (dec_times (unat nb_pubkeys) (dec_pubkey pk_ok)) (\<lambda>pubkeys.
         dbind (dec_sig sig_ok) (\<lambda>signature. dreturn (Cosigned pubkeys signature))))
     else if t = GENESIS_TRANSITION_TYPE_HASH_LOCKED_COSIGNED then
       dbind (dec_pubkey pk_ok) (\<lambda>user_pubkey. dbind (dec_sig sig_ok) (\<lambda>signature.
         dbind dec_maybe_preimage (\<lambda>unlock.
           dreturn (HashLockedCosigned user_pubkey signature unlock))))
     else if t = GENESIS_TRANSITION_TYPE_ARKOOR then
       dbind (dec_policy pk_ok) (\<lambda>policy. dbind (dec_opt_sig sig_ok) (\<lambda>signature.
         dreturn (Arkoor policy signature)))
     else dfail (Invalid ''invalid GenesisTransistion type byte''))"

definition VTXO_ENCODING_VERSION :: u16 where
  "VTXO_ENCODING_VERSION = 1"

definition enc_outpoint :: "externals \<Rightarrow> OutPoint \<Rightarrow> bytes" where
  "enc_outpoint X p = ext_enc_outpoint X p"

definition dec_outpoint :: "externals \<Rightarrow> OutPoint decoder" where
  "dec_outpoint X = ext_dec_outpoint X"

text \<open>One iteration of the genesis loop of \<open>Vtxo::encode\<close>; \<open>None\<close> is an overflow panic.\<close>

definition enc_genesis_item :: "externals \<Rightarrow> GenesisItem \<Rightarrow> bytes option" where
  "enc_genesis_item X item =
     (case enc_transition (gi_transition item) of
        None \<Rightarrow> None
      | Some t \<Rightarrow>
          let nb_outputs = length (gi_other_outputs item) + 1 in
          if nb_outputs < 256
          then Some (t @ emit_u8 (word_of_nat nb_outputs) @ emit_u8 (gi_output_idx item)
                     @ concat (map (ext_enc_txout X) (gi_other_outputs item)))
          else None)"

definition enc_vtxo :: "externals \<Rightarrow> Vtxo \<Rightarrow> bytes option" where
  "enc_vtxo X v =
     (if length (v_genesis v) < 256 then
        (case enc_all (enc_genesis_item X) (v_genesis v) of
           None \<Rightarrow> None
         | Some genesis \<Rightarrow> Some
             (emit_u16 VTXO_ENCODING_VERSION
              @ emit_u64 (word_of_nat (v_amount v))
              @ emit_u32 (v_expiry_height v)
              @ enc_pubkey (v_server_pubkey v)
              @ emit_u16 (v_exit_delta v)
              @ enc_outpoint X (v_anchor_point v)
              @ emit_u8 (word_of_nat (length (v_genesis v)))
              @ genesis
              @ enc_policy (v_policy v)
              @ enc_outpoint X (v_point v)))
      else None)"

definition dec_genesis_item :: "externals \<Rightarrow> GenesisItem decoder" where
  "dec_genesis_item X =
     dbind (dec_transition (ext_pk_ok X) (ext_sig_ok X)) (\<lambda>transition.
     dbind read_u8 (\<lambda>nb_outputs.
     dbind read_u8 (\<lambda>output_idx.
     if unat nb_outputs = 0 then dfail (Invalid ''genesis item with 0 outputs'')
     else dbind (dec_times (unat nb_outputs - 1) (ext_dec_txout X)) (\<lambda>other_outputs.
       dreturn \<lparr>gi_transition = transition, gi_output_idx = output_idx,
                gi_other_outputs = other_outputs\<rparr>))))"

definition dec_vtxo :: "externals \<Rightarrow> Vtxo decoder" where
  "dec_vtxo X =
     dbind read_u16 (\<lambda>version.
     if version \<noteq> VTXO_ENCODING_VERSION then dfail (Invalid ''invalid Vtxo encoding version byte'')
     else
       dbind read_u64 (\<lambda>amount.
       dbind read_u32 (\<lambda>expiry_height.
       dbind (dec_pubkey (ext_pk_ok X)) (\<lambda>server_pubkey.
       dbind read_u16 (\<lambda>exit_delta.
       dbind (dec_outpoint X) (\<lambda>anchor_point.
       dbind read_u8 (\<lambda>nb_genesis_items.
       dbind (dec_times (unat nb_genesis_items) (dec_genesis_item X)) (\<lambda>genesis.
       dbind (dec_policy (ext_pk_ok X)) (\<lambda>policy.
       dbind (dec_outpoint X) (\<lambda>point.
       dreturn \<lparr>v_policy = policy, v_amount = unat amount, v_expiry_height = expiry_height,
                v_server_pubkey = server_pubkey, v_exit_delta = exit_delta,
                v_anchor_point = anchor_point, v_genesis = genesis, v_point = point\<rparr>))))))))))"

text \<open>The values of the Rust types.\<close>

fun wf_transition :: "externals \<Rightarrow> GenesisTransition \<Rightarrow> bool" where
  "wf_transition X (Cosigned pubkeys signature) \<longleftrightarrow>
     list_all (wf_pubkey (ext_pk_ok X)) pubkeys \<and> wf_sig (ext_sig_ok X) signature"
| "wf_transition X (HashLockedCosigned user_pubkey signature unlock) \<longleftrightarrow>
     wf_pubkey (ext_pk_ok X) user_pubkey \<and> wf_sig (ext_sig_ok X) signature \<and>
     (case unlock of Preimage p \<Rightarrow> length p = 32 | PHash h \<Rightarrow> wf_hash h)"
| "wf_transition X (Arkoor policy signature) \<longleftrightarrow>
     wf_policy (ext_pk_ok X) policy \<and> wf_opt_sig (ext_sig_ok X) signature"

definition wf_genesis_item :: "externals \<Rightarrow> GenesisItem \<Rightarrow> bool" where
  "wf_genesis_item X item \<longleftrightarrow>
     wf_transition X (gi_transition item) \<and> list_all wf_txout (gi_other_outputs item)"

definition wf_vtxo :: "externals \<Rightarrow> Vtxo \<Rightarrow> bool" where
  "wf_vtxo X v \<longleftrightarrow>
     wf_policy (ext_pk_ok X) (v_policy v) \<and> v_amount v < u64_limit \<and>
     wf_pubkey (ext_pk_ok X) (v_server_pubkey v) \<and> wf_outpoint (v_anchor_point v) \<and>
     list_all (wf_genesis_item X) (v_genesis v) \<and> wf_outpoint (v_point v)"

section \<open>The exit chain\<close>

text \<open>
  What the iterator yields, by recursion on the genesis: starting from an outpoint that holds
  \<open>amount\<close>, each item takes out its other outputs and passes the rest on.
\<close>

fun exit_chain ::
  "externals \<Rightarrow> Vtxo \<Rightarrow> Amount \<Rightarrow> OutPoint \<Rightarrow> GenesisItem list \<Rightarrow> Transaction list" where
  "exit_chain X v amount prev [] = []"
| "exit_chain X v amount prev (item # items) =
     (let next_amount = amount - other_value item;
          tx = item_tx X item prev (next_output X v (peek items) next_amount)
                 (v_server_pubkey v) (v_expiry_height v)
      in tx # exit_chain X v next_amount
                \<lparr>op_txid = ext_txid X tx, op_vout = ucast (gi_output_idx item)\<rparr> items)"

text \<open>No lock height of the genesis or the policy makes \<open>LockTime::from_height\<close> panic.\<close>

definition vtxo_locktimes_ok :: "Vtxo \<Rightarrow> bool" where
  "vtxo_locktimes_ok v \<longleftrightarrow>
     list_all (\<lambda>i. transition_locktime_ok (gi_transition i) (v_expiry_height v)) (v_genesis v) \<and>
     policy_locktime_ok (v_policy v) (v_expiry_height v)"

section \<open>Lemmas\<close>

subsection \<open>Identifiers\<close>

lemma vtxo_id_point_roundtrip:
  assumes "wf_outpoint p"
  shows "vtxo_id_utxo (vtxo_id_of_point p) = p" "length (vtxo_id_of_point p) = 36"
proof -
  have "unat (op_vout p) < 256 ^ 4" using unsigned_less [of "op_vout p"] by simp
  then show "vtxo_id_utxo (vtxo_id_of_point p) = p"
    using assms by (simp add: vtxo_id_utxo_def vtxo_id_of_point_def wf_outpoint_def le_val_le_bytes)
  show "length (vtxo_id_of_point p) = 36"
    using assms by (simp add: vtxo_id_of_point_def wf_outpoint_def)
qed

lemma vtxo_id_utxo_roundtrip:
  assumes "length i = 36"
  shows "vtxo_id_of_point (vtxo_id_utxo i) = i" "wf_outpoint (vtxo_id_utxo i)"
proof -
  let ?vout = "take 4 (drop 32 i)"
  have l: "length ?vout = 4" and i: "i = take 32 i @ ?vout"
    using assms by (simp_all add: append_take_drop_id [symmetric])
  have "le_val ?vout < 2 ^ 32" using le_val_bound [of ?vout] l by simp
  then have "unat (word_of_nat (le_val ?vout) :: u32) = le_val ?vout"
    by (simp add: unat_of_nat)
  then have "vtxo_id_of_point (vtxo_id_utxo i) = take 32 i @ le_bytes 4 (le_val ?vout)"
    by (simp add: vtxo_id_of_point_def vtxo_id_utxo_def)
  also have "\<dots> = i" using le_bytes_le_val [of ?vout] l i by simp
  finally show "vtxo_id_of_point (vtxo_id_utxo i) = i" .
  show "wf_outpoint (vtxo_id_utxo i)" using assms by (simp add: wf_outpoint_def vtxo_id_utxo_def)
qed

subsection \<open>The iterator\<close>

lemma transition_witness_locktime:
  "transition_locktime_ok t h \<Longrightarrow> witness_locktime_ok t h"
  by (cases t; cases "(case t of HashLockedCosigned _ _ u \<Rightarrow> u | _ \<Rightarrow> PHash [])") auto

lemma next_locktime_okI:
  "vtxo_locktimes_ok v \<Longrightarrow> next_locktime_ok v (nth_opt (v_genesis v) i)"
  by (auto simp: vtxo_locktimes_ok_def next_locktime_ok_def list_all_length nth_opt_def)

lemma tx_iter_collect_chain:
  assumes ok: "vtxo_locktimes_ok v"
    and items: "items = drop i (v_genesis v)" "items \<noteq> []"
    and a: "sum_list (map other_value items) \<le> amount"
  shows "(tx_iter_collect X v \<lparr>it_prev = prev, it_genesis_idx = i, it_current_amount = amount,
           it_done = False\<rparr> :: ('e, VtxoTxIterItem list) outcome)
       = Ok (map2 (\<lambda>tx item. \<lparr>ii_tx = tx, ii_output_idx = unat (gi_output_idx item)\<rparr>)
               (exit_chain X v amount prev items) items)"
  using items a
proof (induction items arbitrary: i amount prev)
  case (Cons item rest)
  note item = Cons_eq_drop(1) [OF Cons.prems(1)] and rest = Cons_eq_drop(2) [OF Cons.prems(1)]
    and peek = Cons_eq_drop(3) [OF Cons.prems(1)]
  have "transition_locktime_ok (gi_transition item) (v_expiry_height v)"
    using ok item by (auto simp: vtxo_locktimes_ok_def list_all_length nth_opt_eq_Some)
  then have w: "witness_locktime_ok (gi_transition item) (v_expiry_height v)"
    by (rule transition_witness_locktime)
  have n: "next_locktime_ok v (peek rest)"
    using next_locktime_okI [OF ok, of "Suc i"] by (simp only: peek)
  let ?tx = "item_tx X item prev (next_output X v (peek rest) (amount - other_value item))
               (v_server_pubkey v) (v_expiry_height v)"
  let ?it = "\<lparr>it_prev = \<lparr>op_txid = ext_txid X ?tx, op_vout = ucast (gi_output_idx item)\<rparr>,
               it_genesis_idx = Suc i, it_current_amount = amount - other_value item,
               it_done = (peek rest = None)\<rparr>"
  have step: "(tx_iter_next X v \<lparr>it_prev = prev, it_genesis_idx = i, it_current_amount = amount,
           it_done = False\<rparr> :: ('e, VtxoTxIterItem option \<times> VtxoTxIter) outcome)
       = Ok (Some \<lparr>ii_tx = ?tx, ii_output_idx = unat (gi_output_idx item)\<rparr>, ?it)"
    using Cons.prems(3) item n w by (simp add: tx_iter_next_def peek [symmetric] Let_def)
  show ?case
  proof (cases rest)
    case Nil
    then have "(tx_iter_collect X v ?it :: ('e, VtxoTxIterItem list) outcome) = Ok []"
      by (subst tx_iter_collect.simps) (simp add: tx_iter_next_def)
    with step Nil show ?thesis
      by (subst tx_iter_collect.simps) (simp add: Let_def)
  next
    case more: (Cons item' rest')
    have le: "sum_list (map other_value rest) \<le> amount - other_value item"
      using Cons.prems(3) by simp
    have d: "(peek rest = None) = False" and ne: "rest \<noteq> []" by (simp_all add: more)
    have "(tx_iter_collect X v ?it :: ('e, VtxoTxIterItem list) outcome) = Ok (map2 (\<lambda>tx item. \<lparr>ii_tx = tx, ii_output_idx = unat (gi_output_idx item)\<rparr>)
            (exit_chain X v (amount - other_value item)
              \<lparr>op_txid = ext_txid X ?tx, op_vout = ucast (gi_output_idx item)\<rparr> rest) rest)"
      unfolding d by (rule Cons.IH [OF rest ne le])
    with step show ?thesis
      by (subst tx_iter_collect.simps) (simp add: Let_def)
  qed
qed simp


text \<open>The shape of the chain: one transaction per item, each spending the previous one.\<close>

lemma length_exit_chain [simp]: "length (exit_chain X v a p items) = length items"
  by (induction items arbitrary: a p) (simp_all add: Let_def)

lemma item_tx_simps [simp]:
  "tx_version (item_tx X i p n s h) = 3" "tx_lock_time (item_tx X i p n s h) = 0"
  "tx_input (item_tx X i p n s h) =
     [plain_input p Sequence_ZERO (transition_witness X (gi_transition i) s h)]"
  by (simp_all add: item_tx_def)

lemma length_item_tx_output [simp]:
  "length (tx_output (item_tx X i p n s h)) = length (gi_other_outputs i) + 2"
  by (simp add: item_tx_def min_def)

lemma item_tx_output_idx:
  assumes "unat (gi_output_idx i) \<le> length (gi_other_outputs i)"
  shows "nth_opt (tx_output (item_tx X i p n s h)) (unat (gi_output_idx i)) = Some n"
proof -
  have "length (take (unat (gi_output_idx i)) (gi_other_outputs i)) = unat (gi_output_idx i)"
    using assms by simp
  then show ?thesis unfolding item_tx_def
    by (metis Transaction.select_convs(4) append_Cons append_Nil nth_opt_append_length)
qed

lemma output_value_item_tx:
  "output_value (item_tx X i p n s h) = txo_value n + other_value i"
proof -
  have "sum_list (map txo_value (take k os)) + sum_list (map txo_value (drop k os))
      = sum_list (map txo_value os)" for k and os :: "TxOut list"
    by (metis append_take_drop_id map_append sum_list_append)
  then show ?thesis
    by (simp add: output_value_def item_tx_def other_value_def)
qed

lemma next_output_value:
  "txo_value (next_output X v (Some i) a) = a" "txo_value (next_output X v None a) = v_amount v"
  by (simp_all add: next_output_def input_txout_def)

subsection \<open>Encoding\<close>

lemmas transition_tags = GENESIS_TRANSITION_TYPE_COSIGNED_def GENESIS_TRANSITION_TYPE_ARKOOR_def
  GENESIS_TRANSITION_TYPE_HASH_LOCKED_COSIGNED_def

lemma unat_of_nat_small:
  "n < 256 \<Longrightarrow> unat (word_of_nat n :: byte) = n"
  "n < 65536 \<Longrightarrow> unat (word_of_nat n :: u16) = n"
  by (simp_all add: unat_of_nat)

lemma word_of_nat_unat_byte: "word_of_nat (unat (b :: byte)) = (ucast b :: u32)"
  by simp

lemma pubkeys_roundtrip [decode_simps]:
  "list_all (wf_pubkey pk_ok) ks \<Longrightarrow>
   dec_times (length ks) (dec_pubkey pk_ok) (concat (map enc_pubkey ks) @ r) = Inr (ks, r)"
  by (rule c_pubkey.roundtrip_list) simp_all

interpretation c_vtxo_id: canonical_codec "\<lambda>i. Some (enc_vtxo_id i)" dec_vtxo_id "\<lambda>i. length i = 36"
  by unfold_locales
    (auto simp: enc_vtxo_id_def emit_slice_def dec_vtxo_id_def read_byte_array_def read_exact_eq_Inr decode_simps
      split: sum.splits)

interpretation c_transition: codec
  enc_transition "dec_transition (ext_pk_ok X) (ext_sig_ok X)" "wf_transition X" for X
proof
  fix t b r
  assume wf: "wf_transition X t" and e: "enc_transition t = Some b"
  show "dec_transition (ext_pk_ok X) (ext_sig_ok X) (b @ r) = Inr (t, r)"
  proof (cases t)
    case (Cosigned ks s)
    with wf e show ?thesis
      by (auto simp: dec_transition_def transition_tags decode_simps unat_of_nat_small split: if_splits)
  next
    case (HashLockedCosigned u s m)
    with wf e show ?thesis
      by (cases m) (auto simp: dec_transition_def dec_maybe_preimage_def read_byte_array_def
          transition_tags decode_simps emit_slice_def dec_hash_def wf_hash_def)
  next
    case (Arkoor p s)
    with wf e show ?thesis
      by (auto simp: dec_transition_def transition_tags decode_simps)
  qed
qed

lemma outputs_roundtrip [decode_simps]:
  "consensus_laws X \<Longrightarrow> list_all wf_txout os \<Longrightarrow>
   dec_times (length os) (ext_dec_txout X) (concat (map (ext_enc_txout X) os) @ r) = Inr (os, r)"
  by (induction os arbitrary: r) (simp_all add: consensus_laws_def decode_simps)

lemma genesis_item_codec:
  assumes "consensus_laws X"
  shows "codec (enc_genesis_item X) (dec_genesis_item X) (wf_genesis_item X)"
proof
  fix i b r
  assume wf: "wf_genesis_item X i" and e: "enc_genesis_item X i = Some b"
  from e obtain t where t: "enc_transition (gi_transition i) = Some t"
    and n: "length (gi_other_outputs i) + 1 < 256"
    and b: "b = t @ emit_u8 (word_of_nat (length (gi_other_outputs i) + 1)) @ emit_u8 (gi_output_idx i)
                @ concat (map (ext_enc_txout X) (gi_other_outputs i))"
    by (auto simp: enc_genesis_item_def Let_def split: option.splits if_splits)
  have "dec_transition (ext_pk_ok X) (ext_sig_ok X) (t @ s) = Inr (gi_transition i, s)" for s
    using wf t by (simp add: c_transition.roundtrip wf_genesis_item_def)
  then show "dec_genesis_item X (b @ r) = Inr (i, r)"
    using wf n assms unat_of_nat_small(1) [OF n]
    by (simp add: dec_genesis_item_def b decode_simps wf_genesis_item_def)
qed

lemma vtxo_codec:
  assumes laws: "consensus_laws X"
  shows "codec (enc_vtxo X) (dec_vtxo X) (wf_vtxo X)"
proof
  fix v b r
  assume wf: "wf_vtxo X v" and e: "enc_vtxo X v = Some b"
  from e obtain g where n: "length (v_genesis v) < 256"
    and g: "enc_all (enc_genesis_item X) (v_genesis v) = Some g"
    and b: "b = emit_u16 VTXO_ENCODING_VERSION @ emit_u64 (word_of_nat (v_amount v))
              @ emit_u32 (v_expiry_height v) @ enc_pubkey (v_server_pubkey v)
              @ emit_u16 (v_exit_delta v) @ enc_outpoint X (v_anchor_point v)
              @ emit_u8 (word_of_nat (length (v_genesis v))) @ g
              @ enc_policy (v_policy v) @ enc_outpoint X (v_point v)"
    by (auto simp: enc_vtxo_def split: if_splits option.splits)
  have genesis: "dec_times (length (v_genesis v)) (dec_genesis_item X) (g @ s) = Inr (v_genesis v, s)" for s
    using codec.roundtrip_list [OF genesis_item_codec [OF laws] _ g] wf by (simp add: wf_vtxo_def)
  have point: "dec_outpoint X (enc_outpoint X p @ s) = Inr (p, s)" if "wf_outpoint p" for p s
    using laws that by (simp add: consensus_laws_def dec_outpoint_def enc_outpoint_def)
  show "dec_vtxo X (b @ r) = Inr (v, r)"
    using wf unfolding b wf_vtxo_def
    by (simp add: dec_vtxo_def decode_simps genesis point unat_of_nat_small(1) [OF n] unat_of_nat_u64)
qed

subsection \<open>Values along the chain\<close>

lemma exit_chain_nth_input:
  "i < length items \<Longrightarrow>
   tx_input (exit_chain X v amount prev items ! i) =
     [plain_input
        (if i = 0 then prev
         else \<lparr>op_txid = ext_txid X (exit_chain X v amount prev items ! (i - 1)),
               op_vout = ucast (gi_output_idx (items ! (i - 1)))\<rparr>)
        Sequence_ZERO
        (transition_witness X (gi_transition (items ! i)) (v_server_pubkey v) (v_expiry_height v))]"
proof (induction items arbitrary: i amount prev)
  case (Cons item items)
  show ?case
  proof (cases i)
    case 0
    then show ?thesis by (simp add: Let_def)
  next
    case (Suc j)
    with Cons.prems have "j < length items" by simp
    from Cons.IH [OF this] Suc show ?thesis by (cases j) (simp_all add: Let_def)
  qed
qed simp

lemma exit_chain_nth_version:
  "i < length items \<Longrightarrow> tx_version (exit_chain X v amount prev items ! i) = 3"
proof (induction items arbitrary: i amount prev)
  case (Cons item items)
  then show ?case by (cases i) (simp_all add: Let_def)
qed simp

lemma exit_chain_nth_value:
  "i < length items \<Longrightarrow> amount = v_amount v + sum_list (map other_value items) \<Longrightarrow>
   output_value (exit_chain X v amount prev items ! i)
     = v_amount v + sum_list (map other_value (drop i items))"
proof (induction items arbitrary: i amount prev)
  case (Cons item items)
  show ?case
  proof (cases i)
    case 0
    then show ?thesis using Cons.prems
      by (cases items) (simp_all add: Let_def output_value_item_tx next_output_value)
  next
    case (Suc j)
    with Cons.prems have "j < length items"
      and "amount - other_value item = v_amount v + sum_list (map other_value items)" by simp_all
    from Cons.IH [OF this] Suc show ?thesis by (simp add: Let_def)
  qed
qed simp

lemma onchain_amount_eq_Some:
  "onchain_amount v = Some a \<longleftrightarrow>
   a = v_amount v + sum_list (map other_value (v_genesis v)) \<and> a < u64_limit"
  by (auto simp: onchain_amount_def sum_amounts_eq_Some)

text \<open>The whole run of the iterator, on every input whose heights are lock heights.\<close>

lemma vtxo_transactions_run:
  assumes ok: "vtxo_locktimes_ok v"
  shows "(vtxo_transactions X v :: ('e, VtxoTxIterItem list) outcome) =
     (case onchain_amount v of
        None \<Rightarrow> panic ''attempt to add with overflow''
      | Some amount \<Rightarrow>
          if v_genesis v = [] then panic ''broken impl''
          else Ok (map2 (\<lambda>tx item. \<lparr>ii_tx = tx, ii_output_idx = unat (gi_output_idx item)\<rparr>)
                     (exit_chain X v amount (v_anchor_point v) (v_genesis v)) (v_genesis v)))"
proof (cases "onchain_amount v")
  case None
  then show ?thesis by (simp add: vtxo_transactions_def tx_iter_new_def)
next
  case (Some amount)
  show ?thesis
  proof (cases "v_genesis v = []")
    case True
    then show ?thesis using Some
      by (simp add: vtxo_transactions_def tx_iter_new_def, subst tx_iter_collect.simps)
        (simp add: tx_iter_next_def)
  next
    case False
    have "sum_list (map other_value (v_genesis v)) \<le> amount"
      using Some by (simp add: onchain_amount_eq_Some)
    from tx_iter_collect_chain [OF ok _ False this, of 0] Some False show ?thesis
      by (simp add: vtxo_transactions_def tx_iter_new_def)
  qed
qed

section \<open>A concrete VTXO\<close>

text \<open>A cosigned VTXO over 1000 satoshis with one sibling output, as a board or round makes.\<close>

definition demo_vtxo :: Vtxo where
  "demo_vtxo = \<lparr>v_policy = Pubkey (replicate 33 2), v_amount = 1000, v_expiry_height = 800000,
     v_server_pubkey = replicate 33 3, v_exit_delta = 144,
     v_anchor_point = \<lparr>op_txid = replicate 32 7, op_vout = 1\<rparr>,
     v_genesis =
       [\<lparr>gi_transition = Cosigned [replicate 33 2, replicate 33 3] (replicate 64 5), gi_output_idx = 1,
         gi_other_outputs = [\<lparr>txo_value = 400, txo_script = 0x51 # 0x20 # replicate 32 9\<rparr>]\<rparr>,
        \<lparr>gi_transition = Arkoor (Pubkey (replicate 33 2)) (Some (replicate 64 6)), gi_output_idx = 0,
         gi_other_outputs = []\<rparr>],
     v_point = \<lparr>op_txid = replicate 32 2, op_vout = 0\<rparr>\<rparr>"

section \<open>Properties\<close>

text \<open>
  \<open>VtxoId::from(OutPoint)\<close> and \<open>VtxoId::utxo\<close> are inverse to each other: the 36-byte
  identifiers are exactly the outpoints, each identifier names one output and no two outputs
  share an identifier.
\<close>

theorem vtxo_id_bijection:
  "length i = 36 \<and> vtxo_id_utxo i = p \<longleftrightarrow> wf_outpoint p \<and> i = vtxo_id_of_point p"
  using vtxo_id_point_roundtrip vtxo_id_utxo_roundtrip by metis

text \<open>
  C24: decoding an encoded VTXO gives the VTXO back and consumes exactly its bytes, whatever
  follows. Encoding fails only on more than 255 genesis items, 254 other outputs or 65535
  cosign keys.
\<close>

theorem vtxo_roundtrip:
  assumes "consensus_laws X" "wf_vtxo X v" "enc_vtxo X v = Some b"
  shows "dec_vtxo X (b @ r) = Inr (v, r)"
  using codec.roundtrip [OF vtxo_codec] assms by blast

theorem vtxo_roundtrip_witness:
  "dec_vtxo demo_ext (the (enc_vtxo demo_ext demo_vtxo) @ [1, 2]) = Inr (demo_vtxo, [1, 2])"
proof -
  have "wf_vtxo demo_ext demo_vtxo"
    by (simp add: wf_vtxo_def demo_vtxo_def demo_ext_def wf_outpoint_def wf_genesis_item_def
        wf_txout_def u64_limit_def wf_pubkey_def wf_sig_def wf_opt_sig_def PUBLIC_KEY_SIZE_def
        SCHNORR_SIGNATURE_SIZE_def)
  moreover have "enc_vtxo demo_ext demo_vtxo \<noteq> None"
    by (simp add: enc_vtxo_def enc_genesis_item_def demo_vtxo_def Let_def)
  ultimately show ?thesis
    using vtxo_roundtrip [OF demo_ext_laws(3)] by auto
qed



end
