(* ===== verification/Ark_Validation.thy ===== *)
theory Ark_Validation
  imports Ark_Vtxo
begin

text \<open>
  Validation of a VTXO against its chain anchor transaction (\<open>lib/src/vtxo/validation.rs\<close>),
  and a declarative specification of what it accepts: the chain anchor pays the sum of all
  amounts to the first transition's taproot, the genesis is a run of cosigned transitions, at
  most one hash-locked one and a run of arkoor transitions, all other outputs are standard, and
  every exit transaction carries a signature that is valid for the output it spends.
\<close>

section \<open>The validator\<close>

datatype VtxoValidationError =
    VInvalid string
  | IncorrectChainAnchor TxOut TxOut
  | InconsistentCosignPubkeys
  | GenesisTransitionError string nat nat string
  | NonStandardTxOut nat nat
  | InvalidArkoorPolicy VtxoPolicyKind string

text \<open>The constructor function \<open>VtxoValidationError::transition\<close>.\<close>

definition transition_error :: "nat \<Rightarrow> nat \<Rightarrow> string \<Rightarrow> string \<Rightarrow> VtxoValidationError" where
  "transition_error genesis_idx genesis_len ttype error =
     GenesisTransitionError error genesis_idx genesis_len ttype"

text \<open>The two matches on the transition in \<open>verify_transition\<close>.\<close>

fun transition_sighash ::
  "externals \<Rightarrow> PublicKey \<Rightarrow> GenesisTransition \<Rightarrow> Transaction \<Rightarrow> TxOut \<Rightarrow> bytes" where
  "transition_sighash X server_pubkey (HashLockedCosigned user_pubkey _ unlock) tx prev_txout =
     (let agg_pk = combine_keys X [user_pubkey, server_pubkey]
      in ext_script_sighash X tx prev_txout (unlock_clause X agg_pk (maybe_preimage_hash X unlock)))"
| "transition_sighash X server_pubkey (Cosigned _ _) tx prev_txout = ext_key_sighash X tx prev_txout"
| "transition_sighash X server_pubkey (Arkoor _ _) tx prev_txout = ext_key_sighash X tx prev_txout"

fun transition_signature :: "GenesisTransition \<Rightarrow> Signature option" where
  "transition_signature (Cosigned _ signature) = Some signature"
| "transition_signature (HashLockedCosigned _ signature _) = Some signature"
| "transition_signature (Arkoor _ signature) = signature"

definition verify_transition ::
  "externals \<Rightarrow> Vtxo \<Rightarrow> nat \<Rightarrow> Transaction \<Rightarrow> nat \<Rightarrow> Amount \<Rightarrow> (string, Transaction) outcome" where
  "verify_transition X v genesis_idx prev_tx prev_vout next_amount =
     and_then (expect (nth_opt (v_genesis v) genesis_idx) ''genesis_idx out of range'') (\<lambda>item.
     and_then (ok_or (nth_opt (tx_output prev_tx) prev_vout) ''output idx out of range'') (\<lambda>prev_txout.
     let next_item = nth_opt (v_genesis v) (genesis_idx + 1) in
     if \<not> next_locktime_ok v next_item then panic ''LockTime::from_height''
     else if \<not> witness_locktime_ok (gi_transition item) (v_expiry_height v)
     then panic ''LockTime::from_height''
     else
       let prevout = \<lparr>op_txid = ext_txid X prev_tx, op_vout = word_of_nat prev_vout\<rparr>;
           tx = item_tx X item prevout (next_output X v next_item next_amount)
                  (v_server_pubkey v) (v_expiry_height v);
           sighash = transition_sighash X (v_server_pubkey v) (gi_transition item) tx prev_txout
       in if \<not> transition_locktime_ok (gi_transition item) (v_expiry_height v)
          then panic ''LockTime::from_height''
          else
            let pubkey = ext_output_key X (input_taproot X (gi_transition item) (v_server_pubkey v)
                           (v_expiry_height v) (v_exit_delta v))
            in case transition_signature (gi_transition item) of
                 None \<Rightarrow> err ''missing arkoor signature''
               | Some signature \<Rightarrow>
                   if ext_verify_schnorr X signature sighash pubkey then Ok tx
                   else err ''invalid signature''))"

text \<open>The transition-dependent validation at the start of the loop body.\<close>

fun is_arkoor :: "GenesisTransition \<Rightarrow> bool" where
  "is_arkoor (Arkoor _ _) = True"
| "is_arkoor _ = False"

fun check_order ::
  "nat \<Rightarrow> nat \<Rightarrow> GenesisTransition \<Rightarrow> GenesisTransition option \<Rightarrow> (VtxoValidationError, unit) outcome" where
  "check_order idx len (Cosigned _ _) next = Ok ()"
| "check_order idx len (HashLockedCosigned _ _ _) next =
     (case next of
        Some t \<Rightarrow> if is_arkoor t then Ok ()
                  else err (transition_error idx len ''hash-locked-cosigned''
                    ''hash-locked cosigned transition must be followed by arkoor transitions'')
      | None \<Rightarrow> Ok ())"
| "check_order idx len (Arkoor policy _) next =
     (if policy_arkoor_pubkey policy = None
      then err (InvalidArkoorPolicy (policy_type policy) ''arkoor transition without arkoor pubkey'')
      else case next of
        Some t \<Rightarrow> if is_arkoor t then Ok ()
                  else err (transition_error idx len ''arkoor''
                    ''Arkoor transition must be followed by arkoor transitions'')
      | None \<Rightarrow> Ok ())"

text \<open>\<open>Iterator::position\<close>.\<close>

fun position :: "('a \<Rightarrow> bool) \<Rightarrow> 'a list \<Rightarrow> nat option" where
  "position p [] = None"
| "position p (x # xs) = (if p x then Some 0 else map_option Suc (position p xs))"

fun validate_loop ::
  "externals \<Rightarrow> Vtxo \<Rightarrow> nat \<Rightarrow> Transaction \<Rightarrow> nat \<Rightarrow> Amount \<Rightarrow> GenesisItem list \<Rightarrow>
   (VtxoValidationError, unit) outcome" where
  "validate_loop X v idx prev_tx prev_vout prev_amount [] = Ok ()"
| "validate_loop X v idx prev_tx prev_vout prev_amount (item # rest) =
     and_then (check_order idx (length (v_genesis v)) (gi_transition item)
                (map_option gi_transition (peek rest))) (\<lambda>_.
     case position (\<lambda>o'. \<not> is_standard X o') (gi_other_outputs item) of
       Some out_idx \<Rightarrow> err (NonStandardTxOut idx out_idx)
     | None \<Rightarrow>
         if prev_amount < other_value item then err (VInvalid ''insufficient onchain amount'')
         else
           let next_amount = prev_amount - other_value item in
           and_then (map_err (transition_error idx (length (v_genesis v)) (transition_type (gi_transition item)))
                       (verify_transition X v idx prev_tx prev_vout next_amount)) (\<lambda>next_tx.
           validate_loop X v (idx + 1) next_tx (unat (gi_output_idx item)) next_amount rest))"

definition vtxo_validate ::
  "externals \<Rightarrow> Vtxo \<Rightarrow> Transaction \<Rightarrow> (VtxoValidationError, unit) outcome" where
  "vtxo_validate X v chain_anchor_tx =
     (let vout = unat (op_vout (v_anchor_point v)) in
      and_then (ok_or (nth_opt (tx_output chain_anchor_tx) vout)
                  (VInvalid ''chain anchor vout out of range'')) (\<lambda>anchor_txout.
      and_then (expect (onchain_amount v) ''attempt to add with overflow'') (\<lambda>amount.
      and_then (expect (nth_opt (v_genesis v) 0) ''called `Option::unwrap()` on a `None` value'') (\<lambda>first.
      if \<not> transition_locktime_ok (gi_transition first) (v_expiry_height v)
      then panic ''LockTime::from_height''
      else
        let expected_anchor_txout = input_txout X (gi_transition first) amount
              (v_server_pubkey v) (v_expiry_height v) (v_exit_delta v)
        in if anchor_txout \<noteq> expected_anchor_txout
           then err (IncorrectChainAnchor expected_anchor_txout anchor_txout)
           else if v_genesis v = [] then err (VInvalid ''no genesis items'')
           else validate_loop X v 0 chain_anchor_tx vout amount (v_genesis v)))))"

section \<open>What a valid VTXO is\<close>

fun is_cosigned :: "GenesisTransition \<Rightarrow> bool" where
  "is_cosigned (Cosigned _ _) = True"
| "is_cosigned _ = False"

fun is_hash_locked :: "GenesisTransition \<Rightarrow> bool" where
  "is_hash_locked (HashLockedCosigned _ _ _) = True"
| "is_hash_locked _ = False"

text \<open>Cosigned transitions, then at most one hash-locked one, then arkoor transitions only.\<close>

definition genesis_order :: "GenesisTransition list \<Rightarrow> bool" where
  "genesis_order ts \<longleftrightarrow>
     (case dropWhile is_cosigned ts of
        [] \<Rightarrow> True
      | t # rest \<Rightarrow> (is_hash_locked t \<or> is_arkoor t) \<and> list_all is_arkoor rest)"

text \<open>A transaction carries a valid signature for the output that its transition spends.\<close>

definition transition_signed ::
  "externals \<Rightarrow> Vtxo \<Rightarrow> Transaction \<Rightarrow> nat \<Rightarrow> GenesisTransition \<Rightarrow> Transaction \<Rightarrow> bool" where
  "transition_signed X v prev_tx prev_vout t tx \<longleftrightarrow>
     (case nth_opt (tx_output prev_tx) prev_vout of
        None \<Rightarrow> False
      | Some prev_txout \<Rightarrow>
          (case transition_signature t of
             None \<Rightarrow> False
           | Some signature \<Rightarrow>
               ext_verify_schnorr X signature
                 (transition_sighash X (v_server_pubkey v) t tx prev_txout)
                 (ext_output_key X (input_taproot X t (v_server_pubkey v) (v_expiry_height v)
                    (v_exit_delta v)))))"

fun chain_signed ::
  "externals \<Rightarrow> Vtxo \<Rightarrow> Transaction \<Rightarrow> nat \<Rightarrow> GenesisItem list \<Rightarrow> Transaction list \<Rightarrow> bool" where
  "chain_signed X v prev_tx prev_vout (item # items) (tx # txs) \<longleftrightarrow>
     transition_signed X v prev_tx prev_vout (gi_transition item) tx \<and>
     chain_signed X v tx (unat (gi_output_idx item)) items txs"
| "chain_signed X v prev_tx prev_vout _ _ \<longleftrightarrow> True"

definition anchor_point_of :: "externals \<Rightarrow> Vtxo \<Rightarrow> Transaction \<Rightarrow> OutPoint" where
  "anchor_point_of X v chain_anchor_tx =
     \<lparr>op_txid = ext_txid X chain_anchor_tx, op_vout = op_vout (v_anchor_point v)\<rparr>"

definition outputs_standard :: "externals \<Rightarrow> GenesisItem list \<Rightarrow> bool" where
  "outputs_standard X items \<longleftrightarrow> list_all (\<lambda>i. list_all (is_standard X) (gi_other_outputs i)) items"

definition valid_vtxo :: "externals \<Rightarrow> Vtxo \<Rightarrow> Transaction \<Rightarrow> bool" where
  "valid_vtxo X v chain_anchor_tx \<longleftrightarrow>
     v_genesis v \<noteq> [] \<and> vtxo_locktimes_ok v \<and>
     genesis_order (map gi_transition (v_genesis v)) \<and> outputs_standard X (v_genesis v) \<and>
     (case onchain_amount v of
        None \<Rightarrow> False
      | Some amount \<Rightarrow>
          nth_opt (tx_output chain_anchor_tx) (unat (op_vout (v_anchor_point v))) =
            Some (input_txout X (gi_transition (hd (v_genesis v))) amount (v_server_pubkey v)
                    (v_expiry_height v) (v_exit_delta v)) \<and>
          chain_signed X v chain_anchor_tx (unat (op_vout (v_anchor_point v))) (v_genesis v)
            (exit_chain X v amount (anchor_point_of X v chain_anchor_tx) (v_genesis v)))"

section \<open>Lemmas\<close>

lemma position_None [simp]: "position p xs = None \<longleftrightarrow> list_all (\<lambda>x. \<not> p x) xs"
  by (induction xs) auto

lemma genesis_order_Cons:
  "genesis_order (t # ts) \<longleftrightarrow>
     (if is_cosigned t then genesis_order ts else list_all is_arkoor ts)"
  by (cases t) (simp_all add: genesis_order_def)

lemma check_order_Ok:
  "check_order idx len t next = Ok () \<longleftrightarrow>
     is_cosigned t \<or> (case next of None \<Rightarrow> True | Some t' \<Rightarrow> is_arkoor t')"
proof (cases t)
  case (Arkoor p s)
  have "policy_arkoor_pubkey p \<noteq> None" by (cases p) simp_all
  with Arkoor show ?thesis by (simp split: option.splits)
qed (simp_all split: option.splits)

lemma order_after_arkoor:
  "is_arkoor t \<Longrightarrow> \<not> is_cosigned t"
  by (cases t) simp_all

text \<open>The pairwise checks of the loop and the order of the whole genesis.\<close>

lemma genesis_order_step:
  "genesis_order (t # map gi_transition items) \<longleftrightarrow>
     (is_cosigned t \<or> (case map_option gi_transition (peek items) of None \<Rightarrow> True | Some t' \<Rightarrow> is_arkoor t'))
     \<and> genesis_order (map gi_transition items)"
proof (cases items)
  case (Cons i rest)
  show ?thesis
    using Cons order_after_arkoor [of "gi_transition i"]
    by (auto simp: genesis_order_Cons)
qed (cases t; simp add: genesis_order_def)

text \<open>One verified transition, without the loop around it.\<close>

lemma verify_transition_Ok:
  assumes "nth_opt (v_genesis v) idx = Some item"
    and "transition_locktime_ok (gi_transition item) (v_expiry_height v)"
  shows "verify_transition X v idx prev_tx prev_vout amount = Ok tx \<longleftrightarrow>
     next_locktime_ok v (nth_opt (v_genesis v) (idx + 1)) \<and>
     tx = item_tx X item \<lparr>op_txid = ext_txid X prev_tx, op_vout = word_of_nat prev_vout\<rparr>
            (next_output X v (nth_opt (v_genesis v) (idx + 1)) amount)
            (v_server_pubkey v) (v_expiry_height v) \<and>
     transition_signed X v prev_tx prev_vout (gi_transition item) tx"
  using assms transition_witness_locktime [OF assms(2)]
  by (cases "nth_opt (tx_output prev_tx) prev_vout"; cases "transition_signature (gi_transition item)")
    (auto simp: verify_transition_def transition_signed_def Let_def simp del: nth_opt_eq_None)

lemma validate_loop_Ok:
  assumes "items = drop idx (v_genesis v)" "sum_list (map other_value items) \<le> amount"
    and "items \<noteq> [] \<Longrightarrow> transition_locktime_ok (gi_transition (hd items)) (v_expiry_height v)"
  shows "validate_loop X v idx prev_tx prev_vout amount items = Ok () \<longleftrightarrow>
     genesis_order (map gi_transition items) \<and> outputs_standard X items \<and>
     (items \<noteq> [] \<longrightarrow>
        list_all (\<lambda>i. transition_locktime_ok (gi_transition i) (v_expiry_height v)) items \<and>
        policy_locktime_ok (v_policy v) (v_expiry_height v)) \<and>
     chain_signed X v prev_tx prev_vout items
       (exit_chain X v amount \<lparr>op_txid = ext_txid X prev_tx, op_vout = word_of_nat prev_vout\<rparr> items)"
  using assms
proof (induction items arbitrary: idx prev_tx prev_vout amount)
  case Nil
  then show ?case by (simp add: genesis_order_def outputs_standard_def)
next
  case (Cons item rest)
  note item = Cons_eq_drop(1) [OF Cons.prems(1)] and rest = Cons_eq_drop(2) [OF Cons.prems(1)]
    and peek = Cons_eq_drop(3) [OF Cons.prems(1)]
  let ?tx = "item_tx X item \<lparr>op_txid = ext_txid X prev_tx, op_vout = word_of_nat prev_vout\<rparr>
               (next_output X v (peek rest) (amount - other_value item))
               (v_server_pubkey v) (v_expiry_height v)"
  have lt: "transition_locktime_ok (gi_transition item) (v_expiry_height v)" using Cons.prems(3) by simp
  have ver: "verify_transition X v idx prev_tx prev_vout (amount - other_value item) = Ok tx \<longleftrightarrow>
      next_locktime_ok v (peek rest) \<and> tx = ?tx \<and>
      transition_signed X v prev_tx prev_vout (gi_transition item) tx" for tx
    using verify_transition_Ok [OF item lt] by (simp add: peek)
  have std: "list_all (is_standard X) (gi_other_outputs item) \<longleftrightarrow>
      position (\<lambda>o'. \<not> is_standard X o') (gi_other_outputs item) = None" by simp
  have le: "other_value item \<le> amount" and le': "sum_list (map other_value rest) \<le> amount - other_value item"
    using Cons.prems(2) by simp_all
  have loop: "validate_loop X v idx prev_tx prev_vout amount (item # rest) = Ok () \<longleftrightarrow>
     check_order idx (length (v_genesis v)) (gi_transition item) (map_option gi_transition (peek rest)) = Ok () \<and>
     list_all (is_standard X) (gi_other_outputs item) \<and> next_locktime_ok v (peek rest) \<and>
     transition_signed X v prev_tx prev_vout (gi_transition item) ?tx \<and>
     validate_loop X v (Suc idx) ?tx (unat (gi_output_idx item)) (amount - other_value item) rest = Ok ()"
    using le std
    by (cases "position (\<lambda>o'. \<not> is_standard X o') (gi_other_outputs item)")
      (auto simp: and_then_eq_Inr ver Let_def simp del: position_None)
  have IH: "validate_loop X v (Suc idx) ?tx (unat (gi_output_idx item)) (amount - other_value item) rest = Ok ()
     \<longleftrightarrow> genesis_order (map gi_transition rest) \<and> outputs_standard X rest \<and>
     (rest \<noteq> [] \<longrightarrow>
        list_all (\<lambda>i. transition_locktime_ok (gi_transition i) (v_expiry_height v)) rest \<and>
        policy_locktime_ok (v_policy v) (v_expiry_height v)) \<and>
     chain_signed X v ?tx (unat (gi_output_idx item)) rest
       (exit_chain X v (amount - other_value item)
         \<lparr>op_txid = ext_txid X ?tx, op_vout = ucast (gi_output_idx item)\<rparr> rest)"
    if "next_locktime_ok v (peek rest)"
    unfolding word_of_nat_unat_byte [symmetric]
    by (rule Cons.IH [OF rest le']) (use that in \<open>cases rest; simp add: next_locktime_ok_def\<close>)
  have nlt: "next_locktime_ok v (peek rest) \<longleftrightarrow>
      (if rest = [] then policy_locktime_ok (v_policy v) (v_expiry_height v)
       else transition_locktime_ok (gi_transition (hd rest)) (v_expiry_height v))"
    by (cases rest) (simp_all add: next_locktime_ok_def)
  show ?case
  proof (cases "next_locktime_ok v (peek rest)")
    case True
    then show ?thesis using lt nlt unfolding loop IH [OF True] genesis_order_step list.map
      by (auto simp: check_order_Ok outputs_standard_def Let_def)
  next
    case False
    then show ?thesis unfolding loop using nlt by (cases rest) simp_all
  qed
qed


lemma validate_iff:
  "vtxo_validate X v tx = Ok () \<longleftrightarrow> valid_vtxo X v tx"
proof (cases "v_genesis v")
  case Nil
  then show ?thesis
    by (auto simp: vtxo_validate_def valid_vtxo_def and_then_eq_Inr Let_def)
next
  case (Cons first rest)
  let ?vout = "unat (op_vout (v_anchor_point v))"
  let ?lt = "transition_locktime_ok (gi_transition first) (v_expiry_height v)"
  let ?expected = "\<lambda>amount. input_txout X (gi_transition first) amount (v_server_pubkey v)
                     (v_expiry_height v) (v_exit_delta v)"
  have "vtxo_validate X v tx = Ok () \<longleftrightarrow>
      (\<exists>amount. onchain_amount v = Some amount \<and> ?lt \<and>
         nth_opt (tx_output tx) ?vout = Some (?expected amount) \<and>
         validate_loop X v 0 tx ?vout amount (v_genesis v) = Ok ())"
    using Cons
    by (cases "nth_opt (tx_output tx) ?vout"; cases "onchain_amount v")
      (auto simp: vtxo_validate_def Let_def simp del: nth_opt_eq_None)
  moreover have ne: "v_genesis v \<noteq> []" "hd (v_genesis v) = first" using Cons by simp_all
  moreover have "validate_loop X v 0 tx ?vout amount (v_genesis v) = Ok () \<longleftrightarrow>
      genesis_order (map gi_transition (v_genesis v)) \<and> outputs_standard X (v_genesis v) \<and>
      vtxo_locktimes_ok v \<and>
      chain_signed X v tx ?vout (v_genesis v)
        (exit_chain X v amount (anchor_point_of X v tx) (v_genesis v))"
    if "onchain_amount v = Some amount" ?lt for amount
  proof -
    have "sum_list (map other_value (v_genesis v)) \<le> amount"
      using that(1) by (simp add: onchain_amount_eq_Some)
    from validate_loop_Ok [OF _ this, where idx = 0 and X = X and prev_tx = tx and prev_vout = ?vout] that(2) ne show ?thesis
      by (simp add: vtxo_locktimes_ok_def anchor_point_of_def)
  qed
  moreover have "vtxo_locktimes_ok v \<Longrightarrow> ?lt"
    using Cons by (simp add: vtxo_locktimes_ok_def)
  ultimately show ?thesis
    unfolding valid_vtxo_def by (cases "onchain_amount v") auto
qed

text \<open>Nothing in the validator reads the VTXO's point.\<close>

lemma point_irrelevant [simp]:
  "onchain_amount (v\<lparr>v_point := p\<rparr>) = onchain_amount v"
  "next_output X (v\<lparr>v_point := p\<rparr>) = next_output X v"
  "next_locktime_ok (v\<lparr>v_point := p\<rparr>) = next_locktime_ok v"
  by (simp_all add: onchain_amount_def next_output_def next_locktime_ok_def fun_eq_iff split: option.splits)

lemma verify_transition_point [simp]:
  "verify_transition X (v\<lparr>v_point := p\<rparr>) = verify_transition X v"
  by (simp add: verify_transition_def fun_eq_iff Let_def cong: option.case_cong if_cong)

lemma validate_loop_point [simp]:
  "validate_loop X (v\<lparr>v_point := p\<rparr>) idx tx vout a items = validate_loop X v idx tx vout a items"
proof (induction items arbitrary: idx tx vout a)
  case (Cons item rest)
  show ?case
    by (cases "position (\<lambda>o'. \<not> is_standard X o') (gi_other_outputs item)") (simp_all add: Cons.IH Let_def del: position_None)
qed simp

section \<open>A concrete chain anchor\<close>

definition demo_anchor_tx :: Transaction where
  "demo_anchor_tx = v3_tx []
     [fee_anchor demo_ext,
      input_txout demo_ext (Cosigned [replicate 33 2, replicate 33 3] (replicate 64 5)) 1400
        (replicate 33 3) 800000 144]"

lemma demo_vtxo_valid:
  "valid_vtxo demo_ext (demo_vtxo\<lparr>v_anchor_point := \<lparr>op_txid = t, op_vout = 1\<rparr>\<rparr>) demo_anchor_tx"
  by (simp add: valid_vtxo_def vtxo_locktimes_ok_def genesis_order_def outputs_standard_def
      onchain_amount_def sum_amounts_def other_value_def u64_limit_def locktime_ok_def
      transition_signed_def input_txout_def item_tx_def is_standard_def P2TR_DUST_def
      demo_vtxo_def demo_anchor_tx_def demo_ext_def nth_opt_def Let_def)

section \<open>Properties\<close>




text \<open>
  the validator never looks at the VTXO's point: replacing the point, and with it the
  VTXO's identifier, by any other never changes the outcome.
\<close>

theorem validate_ignores_point:
  "vtxo_validate X (v\<lparr>v_point := p\<rparr>) chain_anchor_tx = vtxo_validate X v chain_anchor_tx"
  by (simp add: vtxo_validate_def Let_def cong: if_cong)

text \<open>
  a VTXO without genesis items is never reported as such: the validator rejects its anchor
  output index, or it panics, on the overflow check or on the missing first item.
\<close>

theorem validate_no_genesis_unreachable:
  "vtxo_validate X (v\<lparr>v_genesis := []\<rparr>) chain_anchor_tx =
     (if length (tx_output chain_anchor_tx) \<le> unat (op_vout (v_anchor_point v))
      then err (VInvalid ''chain anchor vout out of range'')
      else if u64_limit \<le> v_amount v then panic ''attempt to add with overflow''
      else panic ''called `Option::unwrap()` on a `None` value'')"
  by (cases "length (tx_output chain_anchor_tx) \<le> unat (op_vout (v_anchor_point v))")
    (auto simp: vtxo_validate_def Let_def onchain_amount_def sum_amounts_def nth_opt_def)

end
