(* ===== verification/Ark_Tree.thy ===== *)
theory Ark_Tree
  imports Ark_Prelude
begin

text \<open>
  The radix-4 tree of \<open>lib/src/tree/mod.rs\<close>: the nodes are stored leaves first, then the inner
  nodes in the order they are created, up to the root. The theory models the construction with
  its two nested loops and proves a closed form for every node, from which parents, children,
  branches and the leaves under a node follow. The \<open>u32\<close> indices are naturals: a tree has
  fewer nodes than \<open>2^32\<close>.
\<close>

section \<open>The code\<close>

definition RADIX :: nat where
  "RADIX = 4"

record Node =
  nd_idx :: nat
  nd_parent :: "nat option"
  nd_children :: "nat option list"
  nd_leaves :: "nat \<times> nat"
  nd_nb_tree_leaves :: nat
  nd_level :: nat

definition new_leaf :: "nat \<Rightarrow> nat \<Rightarrow> Node" where
  "new_leaf idx nb_tree_leaves =
     \<lparr>nd_idx = idx, nd_parent = None, nd_children = replicate RADIX None,
      nd_leaves = (idx, (idx + 1) mod nb_tree_leaves), nd_nb_tree_leaves = nb_tree_leaves,
      nd_level = 0\<rparr>"

definition node_children :: "Node \<Rightarrow> nat list" where
  "node_children nd = List.map_filter id (nd_children nd)"

text \<open>
  \<open>Node::leaves\<close>: \<open>nb\<close> consecutive numbers from \<open>first\<close> modulo \<open>nb\<close>, up to but without
  \<open>last\<close>, or all of them when \<open>first\<close> and \<open>last\<close> are the same.
\<close>

definition node_leaves :: "Node \<Rightarrow> nat list" where
  "node_leaves nd =
     (case nd_leaves nd of (lo, hi) \<Rightarrow>
        let nb = nd_nb_tree_leaves nd
        in takeWhile (\<lambda>e. lo = hi \<or> e \<noteq> hi) (map (\<lambda>e. e mod nb) [lo..<lo + nb]))"

definition is_leaf :: "Node \<Rightarrow> bool" where
  "is_leaf nd \<longleftrightarrow> list_all (\<lambda>c. c = None) (nd_children nd)"

definition is_root :: "Node \<Rightarrow> bool" where
  "is_root nd \<longleftrightarrow> nd_parent nd = None"

record Tree =
  tr_nodes :: "Node list"
  tr_nb_leaves :: nat

text \<open>\<open>Tree::nb_nodes_for_leaves\<close>: each new node replaces up to four by one.\<close>

function nb_nodes_loop :: "nat \<Rightarrow> nat \<Rightarrow> nat" where
  "nb_nodes_loop ret left =
     (if left > 1 then nb_nodes_loop (ret + 1) (left - min left RADIX + 1) else ret)"
  by pat_completeness auto
termination by (relation "measure snd") (auto simp: RADIX_def)

declare nb_nodes_loop.simps [simp del]

definition nb_nodes_for_leaves :: "nat \<Rightarrow> nat" where
  "nb_nodes_for_leaves nb_leaves = nb_nodes_loop nb_leaves nb_leaves"

text \<open>The inner loop of \<open>Tree::new\<close>: adopt up to four nodes from the cursor on.\<close>

function add_children ::
  "Node list \<Rightarrow> nat \<Rightarrow> nat option list \<Rightarrow> nat \<Rightarrow> nat \<Rightarrow> Node list \<times> nat \<times> nat option list \<times> nat" where
  "add_children nodes cursor children nb_children max_child_level =
     (if cursor < length nodes \<and> nb_children < RADIX then
        let child = nodes ! cursor in
        add_children (nodes[cursor := child\<lparr>nd_parent := Some (length nodes)\<rparr>]) (cursor + 1)
          (children[nb_children := Some cursor]) (nb_children + 1)
          (if nd_level child > max_child_level then nd_level child else max_child_level)
      else (nodes, cursor, children, max_child_level))"
  by pat_completeness auto
termination by (relation "measure (\<lambda>(_, _, _, nb, _). RADIX - nb)") auto

declare add_children.simps [simp del]

definition new_parent :: "nat \<Rightarrow> Node list \<Rightarrow> nat option list \<Rightarrow> nat \<Rightarrow> Node" where
  "new_parent nb_leaves nodes children max_child_level =
     (let cs = List.map_filter id children
      in \<lparr>nd_idx = length nodes, nd_parent = None, nd_children = children,
          nd_leaves = (fst (nd_leaves (nodes ! hd cs)), snd (nd_leaves (nodes ! last cs))),
          nd_nb_tree_leaves = nb_leaves, nd_level = max_child_level + 1\<rparr>)"

text \<open>What the inner loop does in one go, for its termination and its closed form.\<close>

lemma add_children_run:
  assumes "cursor \<le> length nodes" "nb \<le> RADIX" "length children = RADIX"
  defines "m \<equiv> min (RADIX - nb) (length nodes - cursor)"
  shows "add_children nodes cursor children nb lvl =
     (take cursor nodes
        @ map (\<lambda>c. c\<lparr>nd_parent := Some (length nodes)\<rparr>) (take m (drop cursor nodes))
        @ drop (cursor + m) nodes,
      cursor + m,
      take nb children @ map Some [cursor..<cursor + m] @ drop (nb + m) children,
      fold max (map nd_level (take m (drop cursor nodes))) lvl)"
  using assms(1-3) unfolding m_def
proof (induction nodes cursor children nb lvl rule: add_children.induct)
  case (1 nodes cursor children nb lvl)
  show ?case
  proof (cases "cursor < length nodes \<and> nb < RADIX")
    case True
    let ?nodes = "nodes[cursor := (nodes ! cursor)\<lparr>nd_parent := Some (length nodes)\<rparr>]"
    let ?children = "children[nb := Some cursor]"
    let ?lvl = "max (nd_level (nodes ! cursor)) lvl"
    let ?m = "min (RADIX - Suc nb) (length nodes - Suc cursor)"
    have m: "min (RADIX - nb) (length nodes - cursor) = Suc ?m" using True by auto
    have d: "drop cursor nodes = nodes ! cursor # drop (Suc cursor) nodes"
      using True by (simp add: Cons_nth_drop_Suc)
    have n: "take (Suc cursor) ?nodes = take cursor nodes @ [(nodes ! cursor)\<lparr>nd_parent := Some (length nodes)\<rparr>]"
      using True by (simp add: take_Suc_conv_app_nth)
    have c: "take (Suc nb) ?children = take nb children @ [Some cursor]"
      using True 1(4) by (simp add: take_Suc_conv_app_nth)
    have l: "(if nd_level (nodes ! cursor) > lvl then nd_level (nodes ! cursor) else lvl) = ?lvl"
      by simp
    have u: "[cursor..<cursor + Suc ?m] = cursor # [Suc cursor..<Suc cursor + ?m]"
      by (simp add: upt_rec)
    have "add_children nodes cursor children nb lvl =
        add_children ?nodes (Suc cursor) ?children (Suc nb) ?lvl"
      using True by (subst add_children.simps) (simp add: Let_def l)
    also have "\<dots> = (take (Suc cursor) ?nodes
        @ map (\<lambda>c. c\<lparr>nd_parent := Some (length nodes)\<rparr>) (take ?m (drop (Suc cursor) nodes))
        @ drop (Suc cursor + ?m) nodes,
        Suc cursor + ?m,
        take (Suc nb) ?children @ map Some [Suc cursor..<Suc cursor + ?m] @ drop (Suc nb + ?m) children,
        fold max (map nd_level (take ?m (drop (Suc cursor) nodes))) ?lvl)"
      using 1(1) [OF True refl] True 1(4) by (simp add: l)
    finally show ?thesis unfolding m u n c d by (simp add: max.commute)
  next
    case False
    then have "min (RADIX - nb) (length nodes - cursor) = 0" using 1 by auto
    then show ?thesis using False by (subst add_children.simps) auto
  qed
qed

function build_nodes :: "nat \<Rightarrow> Node list \<Rightarrow> nat \<Rightarrow> Node list" where
  "build_nodes nb_leaves nodes cursor =
     (if cursor < length nodes - 1 then
        case add_children nodes cursor (replicate RADIX None) 0 0 of
          (nodes', cursor', children, max_child_level) \<Rightarrow>
            build_nodes nb_leaves (nodes' @ [new_parent nb_leaves nodes' children max_child_level]) cursor'
      else nodes)"
  by pat_completeness auto
termination
proof (relation "measure (\<lambda>(_, nodes, cursor). length nodes - cursor)", goal_cases)
  case (2 nb nodes cursor)
  with add_children_run [of cursor nodes 0 "replicate RADIX None" 0] show ?case
    by (auto simp: RADIX_def)
qed simp

declare build_nodes.simps [simp del]

text \<open>The nodes of \<open>Tree::new\<close>: first all the leaves, then the inner nodes.\<close>

definition tree_nodes :: "nat \<Rightarrow> Node list" where
  "tree_nodes nb_leaves = build_nodes nb_leaves (map (\<lambda>i. new_leaf i nb_leaves) [0..<nb_leaves]) 0"

definition Tree_new :: "nat \<Rightarrow> ('e, Tree) outcome" where
  "Tree_new nb_leaves =
     (if nb_leaves = 0 then panic ''trees can't be empty''
      else Ok \<lparr>tr_nodes = tree_nodes nb_leaves, tr_nb_leaves = nb_leaves\<rparr>)"

definition nb_nodes :: "Tree \<Rightarrow> nat" where
  "nb_nodes t = length (tr_nodes t)"

definition tree_root :: "Tree \<Rightarrow> ('e, Node) outcome" where
  "tree_root t = (if tr_nodes t = [] then panic ''no empty trees'' else Ok (last (tr_nodes t)))"

text \<open>
  \<open>BranchIter\<close>: follow the parents. A branch of a tree has at most as many nodes as the tree,
  which is the fuel.
\<close>

fun branch_iter :: "Node list \<Rightarrow> nat \<Rightarrow> nat option \<Rightarrow> Node list" where
  "branch_iter nodes (Suc fuel) (Some cursor) =
     nodes ! cursor # branch_iter nodes fuel (nd_parent (nodes ! cursor))"
| "branch_iter nodes _ _ = []"

definition iter_branch :: "Tree \<Rightarrow> nat \<Rightarrow> ('e, Node list) outcome" where
  "iter_branch t leaf_idx =
     (if leaf_idx < length (tr_nodes t)
      then Ok (branch_iter (tr_nodes t) (length (tr_nodes t)) (Some leaf_idx))
      else panic ''assertion failed: leaf_idx < self.nodes.len()'')"

definition parent_idx_of :: "Tree \<Rightarrow> nat \<Rightarrow> nat option" where
  "parent_idx_of t idx = Option.bind (nth_opt (tr_nodes t) idx) nd_parent"

fun position_of :: "'a \<Rightarrow> 'a list \<Rightarrow> nat option" where
  "position_of x [] = None"
| "position_of x (y # ys) = (if y = x then Some 0 else map_option Suc (position_of x ys))"

definition parent_idx_of_with_sibling_idx :: "Tree \<Rightarrow> nat \<Rightarrow> ('e, (nat \<times> nat) option) outcome" where
  "parent_idx_of_with_sibling_idx t idx =
     (case parent_idx_of t idx of
        None \<Rightarrow> Ok None
      | Some parent_idx \<Rightarrow>
          and_then (expect (position_of (Some idx) (nd_children (tr_nodes t ! parent_idx))) ''broken tree'')
            (\<lambda>child_idx. Ok (Some (nd_idx (tr_nodes t ! parent_idx), child_idx))))"


section \<open>The closed form\<close>

text \<open>
  In a tree over \<open>n\<close> leaves, inner node \<open>n + j\<close> adopts the nodes from \<open>4 * j\<close> on, at most four
  and only nodes that exist already, and the tree ends with node \<open>tree_size n - 1\<close>.
\<close>

definition tree_size :: "nat \<Rightarrow> nat" where
  "tree_size n = n + (n + 1) div 3"

definition child_range :: "nat \<Rightarrow> nat \<Rightarrow> nat list" where
  "child_range n i = (if i < n then [] else [4 * (i - n)..<min (4 * (i - n) + 4) i])"

lemma child_range_less [simp]: "c \<in> set (child_range n i) \<Longrightarrow> c < i"
  by (auto simp: child_range_def split: if_splits)

fun leaf_list :: "nat \<Rightarrow> nat \<Rightarrow> nat list" where
  "leaf_list n i = (if i < n then [i] else concat (map (leaf_list n) (child_range n i)))"

fun leaf_count :: "nat \<Rightarrow> nat \<Rightarrow> nat" where
  "leaf_count n i = (if i < n then 1 else sum_list (map (leaf_count n) (child_range n i)))"

fun level_of :: "nat \<Rightarrow> nat \<Rightarrow> nat" where
  "level_of n i = (if i < n then 0 else fold max (map (level_of n) (child_range n i)) 0 + 1)"

declare leaf_list.simps [simp del] leaf_count.simps [simp del] level_of.simps [simp del]

text \<open>The number of leaves under all nodes before node \<open>i\<close>.\<close>

definition leaf_pos :: "nat \<Rightarrow> nat \<Rightarrow> nat" where
  "leaf_pos n i = sum_list (map (leaf_count n) [0..<i])"

text \<open>Node \<open>i\<close> of the tree over \<open>n\<close> leaves when the nodes before \<open>cursor\<close> have their parents.\<close>

definition tree_node :: "nat \<Rightarrow> nat \<Rightarrow> nat \<Rightarrow> Node" where
  "tree_node n cursor i =
     \<lparr>nd_idx = i,
      nd_parent = (if i < cursor then Some (n + i div 4) else None),
      nd_children = map Some (child_range n i) @ replicate (4 - length (child_range n i)) None,
      nd_leaves = (leaf_pos n i mod n, leaf_pos n (Suc i) mod n),
      nd_nb_tree_leaves = n,
      nd_level = level_of n i\<rparr>"

subsection \<open>Counting leaves\<close>

lemma leaf_pos_Suc: "leaf_pos n (Suc i) = leaf_pos n i + leaf_count n i"
  by (simp add: leaf_pos_def)

lemma leaf_pos_leaf: "i \<le> n \<Longrightarrow> leaf_pos n i = i"
proof (induction i)
  case (Suc i)
  then show ?case by (simp add: leaf_pos_Suc leaf_count.simps)
qed (simp add: leaf_pos_def)

lemma leaf_pos_mono: "i \<le> j \<Longrightarrow> leaf_pos n i \<le> leaf_pos n j"
  by (induction j) (auto simp: leaf_pos_Suc le_Suc_eq)

lemma leaf_pos_range: "i \<le> j \<Longrightarrow> sum_list (map (leaf_count n) [i..<j]) = leaf_pos n j - leaf_pos n i"
proof (induction j)
  case (Suc j)
  show ?case
  proof (cases "i = Suc j")
    case False
    with Suc.prems have "leaf_pos n i \<le> leaf_pos n j" by (intro leaf_pos_mono) simp
    with False Suc show ?thesis by (simp add: leaf_pos_Suc)
  qed simp
qed (simp add: leaf_pos_def)

text \<open>The leaves before inner node \<open>n + j\<close>: all, and those before its first child.\<close>

lemma leaf_pos_node:
  "3 * j + 1 < n \<Longrightarrow> leaf_pos n (n + j) = n + leaf_pos n (4 * j)"
proof (induction j)
  case 0
  then show ?case by (simp add: leaf_pos_leaf)
next
  case (Suc j)
  then have "leaf_pos n (n + j) = n + leaf_pos n (4 * j)" and m: "min (4 * j + 4) (n + j) = 4 * j + 4"
    by simp_all
  moreover have "leaf_count n (n + j) = leaf_pos n (4 * j + 4) - leaf_pos n (4 * j)"
    by (subst leaf_count.simps) (simp add: child_range_def m leaf_pos_range del: upt_Suc)
  moreover have "leaf_pos n (4 * j) \<le> leaf_pos n (4 * j + 4)" by (rule leaf_pos_mono) simp
  ultimately show ?case by (simp add: leaf_pos_Suc add.commute)
qed

lemma tree_size_iff: "n + j < tree_size n \<longleftrightarrow> 3 * j + 1 < n"
  unfolding tree_size_def by (simp, presburger)

lemma inner_node:
  assumes "n \<le> i" "i < tree_size n"
  obtains j where "i = n + j" "3 * j + 1 < n"
  using assms tree_size_iff [of n "i - n"] by (metis le_add_diff_inverse)

text \<open>An inner node has two to four children, and at most as many leaves as the tree.\<close>

lemma child_range_inner:
  "3 * j + 1 < n \<Longrightarrow> child_range n (n + j) = [4 * j..<min (4 * j + 4) (n + j)] \<and>
     4 * j < min (4 * j + 4) (n + j)"
  by (simp only: child_range_def not_add_less1 if_False diff_add_inverse) simp

lemma leaf_count_inner:
  assumes "3 * j + 1 < n"
  shows "leaf_count n (n + j) = leaf_pos n (min (4 * j + 4) (n + j)) - leaf_pos n (4 * j)"
    and "leaf_pos n (Suc (n + j)) = n + leaf_pos n (min (4 * j + 4) (n + j))"
proof -
  have r: "4 * j \<le> min (4 * j + 4) (n + j)" using assms by simp
  show c: "leaf_count n (n + j) = leaf_pos n (min (4 * j + 4) (n + j)) - leaf_pos n (4 * j)"
    using child_range_inner [OF assms] leaf_pos_range [OF r, of n]
    by (subst leaf_count.simps) simp
  show "leaf_pos n (Suc (n + j)) = n + leaf_pos n (min (4 * j + 4) (n + j))"
    using leaf_pos_mono [OF r, of n] by (simp add: leaf_pos_Suc c leaf_pos_node [OF assms])
qed

lemma leaf_count_bounds:
  "i < tree_size n \<Longrightarrow> 1 \<le> leaf_count n i \<and> leaf_count n i \<le> n"
proof (induction i rule: less_induct)
  case (less i)
  show ?case
  proof (cases "i < n")
    case True
    then show ?thesis by (simp add: leaf_count.simps)
  next
    case False
    then obtain j where i: "i = n + j" and j: "3 * j + 1 < n"
      using less.prems inner_node by (metis linorder_not_less)
    let ?m = "min (4 * j + 4) (n + j)"
    have "leaf_pos n ?m \<le> leaf_pos n (n + j)" by (rule leaf_pos_mono) simp
    then have "leaf_count n i \<le> n"
      using leaf_count_inner(1) [OF j] leaf_pos_node [OF j] i by simp
    moreover have "leaf_pos n (Suc (4 * j)) \<le> leaf_pos n ?m" using j by (intro leaf_pos_mono) simp
    moreover have "1 \<le> leaf_count n (4 * j)" using less j i by simp
    ultimately show ?thesis
      using leaf_count_inner(1) [OF j] i by (simp add: leaf_pos_Suc)
  qed
qed

subsection \<open>The construction builds the closed form\<close>

lemma map_filter_id_Some [simp]:
  "List.map_filter id (map Some xs @ replicate k None) = xs"
  by (induction xs) (simp_all add: map_filter_simps List.map_filter_def)

lemma update_segment:
  assumes "a + k \<le> L"
  shows "take a (map f [0..<L]) @ map h (take k (drop a (map f [0..<L]))) @ drop (a + k) (map f [0..<L])
       = map (\<lambda>i. if a \<le> i \<and> i < a + k then h (f i) else f i) [0..<L]"
proof -
  have "[0..<L] = [0..<a] @ [a..<a + k] @ [a + k..<L]"
    using assms upt_add_eq_append [of 0 a "L - a"] upt_add_eq_append [of a "a + k" "L - (a + k)"] by simp
  moreover have "take a [0..<L] = [0..<a]" "take k (drop a [0..<L]) = [a..<a + k]"
    "drop (a + k) [0..<L] = [a + k..<L]"
    using assms by (simp_all add: take_upt)
  ultimately show ?thesis by (simp add: take_map drop_map)
qed

lemma tree_node_step:
  assumes j: "3 * j + 1 < n"
  defines "nodes \<equiv> map (tree_node n (4 * j)) [0..<n + j]"
  shows "(case add_children nodes (4 * j) (replicate RADIX None) 0 0 of
            (nodes', cursor', children, level) \<Rightarrow>
              (nodes' @ [new_parent n nodes' children level], cursor'))
       = (map (tree_node n (min (4 * j + 4) (n + j))) [0..<n + j + 1], min (4 * j + 4) (n + j))"
proof -
  let ?m = "min (4 * j + 4) (n + j)"
  let ?nodes' = "map (tree_node n ?m) [0..<n + j]"
  note range = child_range_inner [OF j]
  have len: "length nodes = n + j" by (simp add: nodes_def)
  have m: "4 * j + min RADIX (n + j - 4 * j) = ?m" using j by (simp add: RADIX_def)
  have adopt: "take (4 * j) nodes
      @ map (\<lambda>c. c\<lparr>nd_parent := Some (n + j)\<rparr>) (take (min RADIX (n + j - 4 * j)) (drop (4 * j) nodes))
      @ drop ?m nodes = ?nodes'" (is "?l = _")
  proof -
    have k: "4 * j + min RADIX (n + j - 4 * j) \<le> n + j" using m by simp
    have parent: "i div 4 = j" if "4 * j \<le> i" "i < ?m" for i
    proof -
      have "i < j * 4 + 4" "j * 4 \<le> i" using that by simp_all
      then show ?thesis by (simp add: div_nat_eqI)
    qed
    show ?thesis
      unfolding nodes_def m [symmetric] update_segment [OF k] unfolding m
      by (rule map_cong) (auto simp: tree_node_def parent)
  qed
  have "?m - 4 * j = min RADIX (n + j - 4 * j)" unfolding m [symmetric] by simp
  then have children: "map Some [4 * j..<?m] @ drop (min RADIX (n + j - 4 * j)) (replicate RADIX None) =
      nd_children (tree_node n ?m (n + j))"
    using range by (simp add: tree_node_def RADIX_def)
  have seg: "take (min RADIX (n + j - 4 * j)) (drop (4 * j) nodes) = map (tree_node n (4 * j)) [4 * j..<?m]"
  proof -
    have "take (min RADIX (n + j - 4 * j)) [4 * j..<n + j] = [4 * j..<4 * j + min RADIX (n + j - 4 * j)]"
      using m by (intro take_upt) simp
    then show ?thesis unfolding nodes_def m by (simp only: drop_map take_map drop_upt add_0)
  qed
  have unfold: "level_of n (n + j) = fold max (map (level_of n) [4 * j..<?m]) 0 + 1"
    using range by (subst level_of.simps) simp
  have "map nd_level (map (tree_node n (4 * j)) [4 * j..<?m]) = map (level_of n) [4 * j..<?m]"
    by (simp add: tree_node_def)
  then have level: "fold max (map nd_level (take (min RADIX (n + j - 4 * j)) (drop (4 * j) nodes))) 0
      = level_of n (n + j) - 1"
    by (simp only: seg unfold diff_add_inverse2)
  have run: "add_children nodes (4 * j) (replicate RADIX None) 0 0 =
      (?nodes', ?m, nd_children (tree_node n ?m (n + j)), level_of n (n + j) - 1)"
  proof -
    have k: "min (RADIX - 0) (n + j - 4 * j) = min RADIX (n + j - 4 * j)" by simp
    have "4 * j \<le> length nodes" using j len by simp
    from add_children_run [OF this, of 0 "replicate RADIX None" 0] show ?thesis
      by (simp only: len k m adopt children level take_0 append_Nil add_0 le0 length_replicate simp_thms)
  qed
  have ends: "hd [4 * j..<?m] = 4 * j" "last [4 * j..<?m] = ?m - 1" "4 * j < n + j" "?m - 1 < n + j"
    "Suc (?m - 1) = ?m"
    using range j by simp_all
  have cs: "List.map_filter id (nd_children (tree_node n ?m (n + j))) = [4 * j..<?m]"
    using range by (simp add: tree_node_def)
  have "leaf_pos n (4 * j) mod n = leaf_pos n (n + j) mod n"
    "leaf_pos n ?m mod n = leaf_pos n (Suc (n + j)) mod n"
    using leaf_pos_node [OF j] leaf_count_inner(2) [OF j] by simp_all
  then have "new_parent n ?nodes' (nd_children (tree_node n ?m (n + j))) (level_of n (n + j) - 1)
      = tree_node n ?m (n + j)"
    using ends unfold
    by (simp add: new_parent_def cs Let_def del: upt_Suc) (simp add: tree_node_def)
  then show ?thesis by (simp add: run)
qed


lemma level_of_leaf: "i < n \<Longrightarrow> level_of n i = 0"
  by (subst level_of.simps) simp

lemma child_range_leaf: "i < n \<Longrightarrow> child_range n i = []"
  by (simp only: child_range_def if_True)

lemma new_leaf_closed: "i < n \<Longrightarrow> new_leaf i n = tree_node n 0 i"
  using leaf_pos_leaf [of i n] leaf_pos_leaf [of "Suc i" n] level_of_leaf [of i n]
  by (simp add: new_leaf_def tree_node_def child_range_leaf RADIX_def)

lemma build_nodes_closed:
  assumes "0 < n" "j \<le> (n + 1) div 3"
  shows "build_nodes n (map (tree_node n (min (4 * j) (n + j - 1))) [0..<n + j]) (min (4 * j) (n + j - 1))
       = map (tree_node n (tree_size n - 1)) [0..<tree_size n]"
  using assms(2)
proof (induction "(n + 1) div 3 - j" arbitrary: j)
  case 0
  then have "tree_size n = n + j" "n + j - 1 \<le> 4 * j" by (auto simp: tree_size_def)
  then show ?case by (subst build_nodes.simps) simp
next
  case (Suc d)
  then have j: "3 * j + 1 < n" by linarith
  then have c: "min (4 * j) (n + j - 1) = 4 * j" "4 * j < n + j - 1" by simp_all
  let ?nodes = "map (tree_node n (4 * j)) [0..<n + j]"
  have "build_nodes n ?nodes (4 * j) =
     (case (case add_children ?nodes (4 * j) (replicate RADIX None) 0 0 of
            (nodes', cursor', children, level) \<Rightarrow>
              (nodes' @ [new_parent n nodes' children level], cursor')) of
        (nodes, cursor) \<Rightarrow> build_nodes n nodes cursor)"
    using c(2) by (subst build_nodes.simps) (simp split: prod.split)
  also have "\<dots> = build_nodes n (map (tree_node n (min (4 * Suc j) (n + Suc j - 1))) [0..<n + Suc j])
                    (min (4 * Suc j) (n + Suc j - 1))"
    unfolding tree_node_step [OF j] by (simp add: add.commute del: upt_Suc)
  also have "\<dots> = map (tree_node n (tree_size n - 1)) [0..<tree_size n]"
    using Suc by (intro Suc.hyps(1)) simp_all
  finally show ?case by (simp only: c(1))
qed

lemma tree_nodes_closed:
  assumes "0 < n"
  shows "tree_nodes n = map (tree_node n (tree_size n - 1)) [0..<tree_size n]"
proof -
  have "map (\<lambda>i. new_leaf i n) [0..<n] = map (tree_node n 0) [0..<n]"
    by (simp add: new_leaf_closed)
  then show ?thesis
    using build_nodes_closed [OF assms, of 0]
    by (simp only: tree_nodes_def mult_0_right min_0L add_0_right le0)
qed

section \<open>The interface of a tree\<close>

text \<open>
  What the users of the tree rely on: every node but the last has a parent with a larger index,
  parents and children agree, and the leaves under a node are those of its children, in order.
\<close>

locale node_tree =
  fixes size :: nat
    and nb_leaves :: nat
    and parent :: "nat \<Rightarrow> nat option"
    and children :: "nat \<Rightarrow> nat list"
    and leaves :: "nat \<Rightarrow> nat list"
  assumes nonempty: "0 < nb_leaves" "nb_leaves \<le> size"
    and root: "i < size \<Longrightarrow> parent i = None \<longleftrightarrow> i = size - 1"
    and up: "i < size \<Longrightarrow> parent i = Some p \<Longrightarrow> i < p \<and> p < size \<and> i \<in> set (children p)"
    and down: "p < size \<Longrightarrow> c \<in> set (children p) \<Longrightarrow> c < p \<and> parent c = Some p"
    and leaf: "i < nb_leaves \<Longrightarrow> leaves i = [i] \<and> children i = []"
    and inner: "nb_leaves \<le> i \<Longrightarrow> i < size \<Longrightarrow> leaves i = concat (map leaves (children i))"
    and no_repeat: "i < size \<Longrightarrow> distinct (leaves i)"
begin

text \<open>The sum of a quantity over the leaves of an inner node is the sum over its children.\<close>

lemma sum_children:
  fixes f :: "nat \<Rightarrow> nat"
  assumes "nb_leaves \<le> i" "i < size"
  shows "sum_list (map f (leaves i)) = sum_list (map (\<lambda>c. sum_list (map f (leaves c))) (children i))"
  by (simp add: inner [OF assms] map_concat sum_list_concat_map comp_def)

lemma leaves_bound: "i < size \<Longrightarrow> l \<in> set (leaves i) \<Longrightarrow> l < nb_leaves"
proof (induction i rule: less_induct)
  case (less i)
  show ?case
  proof (cases "i < nb_leaves")
    case True
    then show ?thesis using less.prems leaf by simp
  next
    case False
    then obtain c where "c \<in> set (children i)" "l \<in> set (leaves c)" using less.prems inner by auto
    then show ?thesis using less down by (metis less_trans)
  qed
qed

lemma reach_less:
  "(\<lambda>a b. parent a = Some b)\<^sup>*\<^sup>* l c \<Longrightarrow> l < size \<Longrightarrow> c < size"
  by (induction rule: rtranclp_induct) (use up in \<open>blast+\<close>)

text \<open>A leaf is under a node exactly when the node is on the leaf's branch.\<close>

lemma leaves_branch:
  "i < size \<Longrightarrow> l < nb_leaves \<Longrightarrow>
   l \<in> set (leaves i) \<longleftrightarrow> (\<lambda>a b. parent a = Some b)\<^sup>*\<^sup>* l i"
proof (induction i rule: less_induct)
  case (less i)
  show ?case
  proof (cases "i < nb_leaves")
    case True
    have "l = i" if "(\<lambda>a b. parent a = Some b)\<^sup>*\<^sup>* l i"
    proof (rule ccontr)
      assume "l \<noteq> i"
      with that obtain c where "parent c = Some i" "(\<lambda>a b. parent a = Some b)\<^sup>*\<^sup>* l c"
        by (cases rule: rtranclp.cases) auto
      moreover have "c < size" using reach_less [OF calculation(2)] less.prems(2) nonempty(2) by simp
      ultimately have "c \<in> set (children i)" using up by blast
      then show False using leaf [OF True] by simp
    qed
    then show ?thesis using leaf [OF True] by auto
  next
    case False
    have "l \<in> set (leaves i) \<longleftrightarrow> (\<exists>c \<in> set (children i). (\<lambda>a b. parent a = Some b)\<^sup>*\<^sup>* l c)"
      using False less down inner by (auto 0 3 dest: less_trans)
    also have "\<dots> \<longleftrightarrow> (\<lambda>a b. parent a = Some b)\<^sup>*\<^sup>* l i"
    proof
      assume "\<exists>c \<in> set (children i). (\<lambda>a b. parent a = Some b)\<^sup>*\<^sup>* l c"
      then obtain c where c: "c \<in> set (children i)" "(\<lambda>a b. parent a = Some b)\<^sup>*\<^sup>* l c" by blast
      from c(2) show "(\<lambda>a b. parent a = Some b)\<^sup>*\<^sup>* l i"
        by (rule rtranclp.rtrancl_into_rtrancl) (use down [OF less.prems(1) c(1)] in simp)
    next
      assume r: "(\<lambda>a b. parent a = Some b)\<^sup>*\<^sup>* l i"
      then obtain c where c: "parent c = Some i" "(\<lambda>a b. parent a = Some b)\<^sup>*\<^sup>* l c"
        by (cases rule: rtranclp.cases) (use False less.prems in auto)
      moreover have "c < size" using reach_less [OF c(2)] less.prems(2) nonempty(2) by simp
      ultimately show "\<exists>c \<in> set (children i). (\<lambda>a b. parent a = Some b)\<^sup>*\<^sup>* l c" using up by blast
    qed
    finally show ?thesis .
  qed
qed

lemma reaches_root: "i < size \<Longrightarrow> (\<lambda>a b. parent a = Some b)\<^sup>*\<^sup>* i (size - 1)"
proof (induction "size - i" arbitrary: i rule: less_induct)
  case less
  show ?case
  proof (cases "parent i")
    case None
    then show ?thesis using root less.prems by simp
  next
    case (Some p)
    with up less.prems have "i < p" "p < size" by blast+
    with less Some show ?thesis by (meson converse_rtranclp_into_rtranclp diff_less_mono2)
  qed
qed

lemma root_leaves: "set (leaves (size - 1)) = {0..<nb_leaves}"
proof -
  have r: "size - 1 < size" using nonempty by simp
  have "l \<in> set (leaves (size - 1))" if "l < nb_leaves" for l
    using leaves_branch [OF r that] reaches_root [of l] that nonempty(2) by simp
  with leaves_bound [OF r] show ?thesis by (auto simp del: One_nat_def)
qed

end


section \<open>The nodes of a tree\<close>

subsection \<open>Leaves as a rotated interval\<close>

lemma mod_shift_neq:
  fixes n p k c :: nat
  assumes "k < c" "c < n + k"
  shows "(p + k) mod n \<noteq> (p + c) mod n"
proof
  assume "(p + k) mod n = (p + c) mod n"
  then have "n dvd (p + c) - (p + k)" using assms(1) mod_eq_dvd_iff_nat [of "p + k" "p + c" n] by simp
  then have "n dvd c - k" by simp
  moreover have "0 < c - k" "c - k < n" using assms by auto
  ultimately show False using nat_dvd_not_less by blast
qed

lemma rotated_interval:
  fixes p c n :: nat
  assumes "1 \<le> c" "c \<le> n"
  shows "takeWhile (\<lambda>e. p mod n = (p + c) mod n \<or> e \<noteq> (p + c) mod n)
           (map (\<lambda>e. e mod n) [p mod n..<p mod n + n])
       = map (\<lambda>k. (p + k) mod n) [0..<c]" (is "takeWhile ?P _ = _")
proof -
  have "[p mod n..<p mod n + n] = map (\<lambda>k. k + p mod n) [0..<n]"
    by (simp add: map_add_upt add.commute)
  then have all: "map (\<lambda>e. e mod n) [p mod n..<p mod n + n] = map (\<lambda>k. (p + k) mod n) [0..<n]"
    by (simp add: mod_add_right_eq add.commute)
  show ?thesis
  proof (cases "c = n")
    case True
    then show ?thesis unfolding all by simp
  next
    case False
    then have c: "c < n" using assms by simp
    then have "[0..<n] = [0..<c] @ c # [Suc c..<n]"
      using upt_add_eq_append [of 0 c "n - c"] by (simp add: upt_conv_Cons)
    moreover have "?P ((p + k) mod n)" if "k < c" for k
      using mod_shift_neq [of k c n p] that c by simp
    moreover have "p mod n \<noteq> (p + c) mod n"
      using mod_shift_neq [of 0 c n p] assms c by simp
    ultimately show ?thesis unfolding all by (auto simp: takeWhile_append)
  qed
qed

lemma concat_interval:
  "a \<le> b \<Longrightarrow>
   concat (map (\<lambda>i. map (\<lambda>k. (leaf_pos n i + k) mod n) [0..<leaf_count n i]) [a..<b])
   = map (\<lambda>k. (leaf_pos n a + k) mod n) [0..<leaf_pos n b - leaf_pos n a]"
proof (induction b)
  case (Suc b)
  show ?case
  proof (cases "a = Suc b")
    case False
    then have ab: "a \<le> b" using Suc.prems by simp
    then have le: "leaf_pos n a \<le> leaf_pos n b" by (rule leaf_pos_mono)
    let ?d = "leaf_pos n b - leaf_pos n a"
    have "map (\<lambda>k. (leaf_pos n b + k) mod n) [0..<leaf_count n b]
        = map (\<lambda>k. (leaf_pos n a + k) mod n) (map (\<lambda>k. k + ?d) [0..<leaf_count n b])"
      using le by (simp add: add.commute add.left_commute)
    also have "map (\<lambda>k. k + ?d) [0..<leaf_count n b] = [?d..<?d + leaf_count n b]"
      by (simp add: map_add_upt add.commute)
    finally have "concat (map (\<lambda>i. map (\<lambda>k. (leaf_pos n i + k) mod n) [0..<leaf_count n i]) [a..<Suc b])
        = map (\<lambda>k. (leaf_pos n a + k) mod n) ([0..<?d] @ [?d..<?d + leaf_count n b])"
      using ab Suc.IH [OF ab] by simp
    also have "[0..<?d] @ [?d..<?d + leaf_count n b] = [0..<leaf_pos n (Suc b) - leaf_pos n a]"
      using le upt_add_eq_append [of 0 ?d "leaf_count n b"] by (simp add: leaf_pos_Suc)
    finally show ?thesis .
  qed (simp)
qed (simp add: leaf_pos_def)

lemma leaf_list_interval:
  "i < tree_size n \<Longrightarrow> leaf_list n i = map (\<lambda>k. (leaf_pos n i + k) mod n) [0..<leaf_count n i]"
proof (induction i rule: less_induct)
  case (less i)
  show ?case
  proof (cases "i < n")
    case True
    then show ?thesis by (simp add: leaf_list.simps leaf_count.simps leaf_pos_leaf)
  next
    case False
    then obtain j where i: "i = n + j" and j: "3 * j + 1 < n"
      using less.prems inner_node by (metis linorder_not_less)
    let ?m = "min (4 * j + 4) (n + j)"
    note range = child_range_inner [OF j]
    have "leaf_list n i = concat (map (leaf_list n) [4 * j..<?m])"
      using range unfolding i by (subst leaf_list.simps) simp
    also have "map (leaf_list n) [4 * j..<?m] =
        map (\<lambda>i. map (\<lambda>k. (leaf_pos n i + k) mod n) [0..<leaf_count n i]) [4 * j..<?m]"
      using less i by (intro map_cong refl less.IH) auto
    also have "concat \<dots> = map (\<lambda>k. (leaf_pos n (4 * j) + k) mod n) [0..<leaf_count n i]"
      using concat_interval [of "4 * j" ?m n] range leaf_count_inner(1) [OF j] i by simp
    also have "\<dots> = map (\<lambda>k. (leaf_pos n i + k) mod n) [0..<leaf_count n i]"
      by (simp add: i leaf_pos_node [OF j] add.assoc)
    finally show ?thesis .
  qed
qed

lemma distinct_leaf_list: "i < tree_size n \<Longrightarrow> distinct (leaf_list n i)"
proof -
  assume i: "i < tree_size n"
  have "inj_on (\<lambda>k. (leaf_pos n i + k) mod n) {0..<leaf_count n i}"
  proof (rule linorder_inj_onI)
    fix x y
    assume "x < y" "x \<in> {0..<leaf_count n i}" "y \<in> {0..<leaf_count n i}"
    moreover have "leaf_count n i \<le> n" using leaf_count_bounds [OF i] by simp
    ultimately show "(leaf_pos n i + x) mod n \<noteq> (leaf_pos n i + y) mod n"
      by (intro mod_shift_neq) auto
  qed auto
  then show ?thesis by (simp add: leaf_list_interval [OF i] distinct_map)
qed

subsection \<open>Accessors\<close>

lemma length_tree_nodes: "0 < n \<Longrightarrow> length (tree_nodes n) = tree_size n"
  by (simp add: tree_nodes_closed)

lemma tree_nodes_nth:
  "0 < n \<Longrightarrow> i < tree_size n \<Longrightarrow> tree_nodes n ! i = tree_node n (tree_size n - 1) i"
  by (simp add: tree_nodes_closed)

lemma node_children_closed [tree_simps]: "node_children (tree_node n c i) = child_range n i"
  by (simp add: node_children_def tree_node_def)

lemma node_leaves_closed [tree_simps]:
  "i < tree_size n \<Longrightarrow> node_leaves (tree_node n c i) = leaf_list n i"
  using rotated_interval [of "leaf_count n i" n "leaf_pos n i"] leaf_count_bounds [of i n]
  by (simp add: node_leaves_def tree_node_def leaf_list_interval leaf_pos_Suc)

lemma parent_of_nonroot:
  assumes "i < tree_size n - 1"
  shows "i < n + i div 4" "n + i div 4 < tree_size n" "i \<in> set (child_range n (n + i div 4))"
proof -
  have b: "3 * (i div 4) + 1 < n" using assms unfolding tree_size_def by linarith
  then show "n + i div 4 < tree_size n" by (simp add: tree_size_iff)
  show l: "i < n + i div 4" using assms unfolding tree_size_def by linarith
  show "i \<in> set (child_range n (n + i div 4))"
    using child_range_inner [OF b] l by auto
qed

lemma child_range_parent:
  assumes "p < tree_size n" "c \<in> set (child_range n p)"
  shows "c < tree_size n - 1 \<and> n + c div 4 = p"
proof -
  have "\<not> p < n" using assms(2) child_range_leaf [of p n] by auto
  then obtain j where p: "p = n + j" and j: "3 * j + 1 < n"
    using assms(1) inner_node by (metis linorder_not_less)
  then have c: "4 * j \<le> c" "c < 4 * j + 4" "c < n + j" using assms(2) child_range_inner [OF j] by auto
  then have "c div 4 = j" by (intro div_nat_eqI) simp_all
  then show ?thesis using c p assms(1) by simp
qed

interpretation ark_tree: node_tree
  "tree_size (Suc m)" "Suc m" "\<lambda>i. nd_parent (tree_nodes (Suc m) ! i)"
  "\<lambda>i. node_children (tree_nodes (Suc m) ! i)" "\<lambda>i. node_leaves (tree_nodes (Suc m) ! i)" for m
proof
  let ?n = "Suc m"
  have nth: "i < tree_size ?n \<Longrightarrow> tree_nodes ?n ! i = tree_node ?n (tree_size ?n - 1) i" for i
    by (rule tree_nodes_nth) simp
  have parent: "nd_parent (tree_nodes ?n ! i) = (if i < tree_size ?n - 1 then Some (?n + i div 4) else None)"
    if "i < tree_size ?n" for i
    using nth [OF that] by (simp add: tree_node_def)
  have ge: "?n \<le> tree_size ?n" by (simp add: tree_size_def)
  show "0 < ?n" "?n \<le> tree_size ?n" using ge by simp_all
  fix i p c
  show "(nd_parent (tree_nodes ?n ! i) = None) = (i = tree_size ?n - 1)" if "i < tree_size ?n"
    using parent [OF that] that by (simp split: if_splits)
  show "i < p \<and> p < tree_size ?n \<and> i \<in> set (node_children (tree_nodes ?n ! p))"
    if "i < tree_size ?n" "nd_parent (tree_nodes ?n ! i) = Some p"
  proof -
    have "i < tree_size ?n - 1" "p = ?n + i div 4" using parent that by (auto split: if_splits)
    then show ?thesis using parent_of_nonroot [of i ?n] nth [of p] by (simp add: node_children_closed)
  qed
  show "c < p \<and> nd_parent (tree_nodes ?n ! c) = Some p"
    if "p < tree_size ?n" "c \<in> set (node_children (tree_nodes ?n ! p))"
  proof -
    have "c \<in> set (child_range ?n p)" using that nth [of p] by (simp add: node_children_closed)
    from child_range_parent [OF that(1) this] child_range_less [OF this] show ?thesis
      using parent [of c] by auto
  qed
  show "node_leaves (tree_nodes ?n ! i) = [i] \<and> node_children (tree_nodes ?n ! i) = []" if "i < ?n"
    using that ge nth [of i] by (simp add: tree_simps leaf_list.simps child_range_leaf)
  show "node_leaves (tree_nodes ?n ! i)
      = concat (map (\<lambda>i. node_leaves (tree_nodes ?n ! i)) (node_children (tree_nodes ?n ! i)))"
    if "?n \<le> i" "i < tree_size ?n"
  proof -
    have "map (\<lambda>i. node_leaves (tree_nodes ?n ! i)) (child_range ?n i) = map (leaf_list ?n) (child_range ?n i)"
      using that nth by (intro map_cong refl) (auto simp: tree_simps dest: child_range_less)
    moreover have "leaf_list ?n i = concat (map (leaf_list ?n) (child_range ?n i))"
      using that by (subst leaf_list.simps) simp
    ultimately show ?thesis using that nth [of i] by (simp only: tree_simps)
  qed
  show "distinct (node_leaves (tree_nodes ?n ! i))" if "i < tree_size ?n"
    using that nth [of i] by (simp add: tree_simps distinct_leaf_list)
qed


section \<open>Branches\<close>

text \<open>The branch from a node follows the parents and ends at the root, within the fuel.\<close>

lemma branch_iter_run:
  assumes "0 < n"
  shows "i < tree_size n \<Longrightarrow> tree_size n - i \<le> fuel \<Longrightarrow>
     \<exists>is. branch_iter (tree_nodes n) fuel (Some i) = map (\<lambda>k. tree_nodes n ! k) is \<and>
          is \<noteq> [] \<and> hd is = i \<and> last is = tree_size n - 1 \<and> sorted_wrt (<) is \<and>
          (\<forall>k \<in> set is. k < tree_size n) \<and>
          set is = {k. (\<lambda>a b. nd_parent (tree_nodes n ! a) = Some b)\<^sup>*\<^sup>* i k} \<and>
          (\<forall>k. Suc k < length is \<longrightarrow> nd_parent (tree_nodes n ! (is ! k)) = Some (is ! Suc k))"
proof (induction fuel arbitrary: i)
  case (Suc fuel)
  obtain m where n: "n = Suc m" using assms by (cases n) auto
  let ?R = "\<lambda>a b. nd_parent (tree_nodes n ! a) = Some b"
  show ?case
  proof (cases "nd_parent (tree_nodes n ! i)")
    case None
    then have "i = tree_size n - 1" using ark_tree.root [of i m] Suc.prems n by simp
    moreover have "{k. ?R\<^sup>*\<^sup>* i k} = {i}" using None by (auto elim: converse_rtranclpE)
    ultimately show ?thesis using None Suc.prems by (intro exI [of _ "[i]"]) simp
  next
    case (Some p)
    then have p: "i < p" "p < tree_size n" using ark_tree.up [of i m p] Suc.prems n by simp_all
    with Suc.prems have "tree_size n - p \<le> fuel" by simp
    from Suc.IH [OF p(2) this] obtain ks where
      ks: "branch_iter (tree_nodes n) fuel (Some p) = map (\<lambda>k. tree_nodes n ! k) ks"
      "ks \<noteq> []" "hd ks = p" "last ks = tree_size n - 1" "sorted_wrt (<) ks"
      "\<forall>k \<in> set ks. k < tree_size n" "set ks = {k. ?R\<^sup>*\<^sup>* p k}"
      "\<forall>k. Suc k < length ks \<longrightarrow> ?R (ks ! k) (ks ! Suc k)" by blast
    have "{k. ?R\<^sup>*\<^sup>* i k} = insert i {k. ?R\<^sup>*\<^sup>* p k}"
      using Some by (auto elim: converse_rtranclpE intro: converse_rtranclp_into_rtranclp)
    moreover have "\<forall>k \<in> set ks. i < k"
    proof -
      obtain x xs where x: "ks = x # xs" using ks(2) by (cases ks) auto
      then show ?thesis using ks(3,5) p(1) by auto
    qed
    moreover have "?R ((i # ks) ! k) ((i # ks) ! Suc k)" if "Suc k < length (i # ks)" for k
      using that ks(2,3,8) Some by (cases k) (auto simp: hd_conv_nth)
    ultimately show ?thesis
      using ks Some Suc.prems by (intro exI [of _ "i # ks"]) simp
  qed
qed simp

lemma nb_nodes_loop_closed:
  "nb_nodes_loop ret left = (if left = 0 then ret else ret + (left + 1) div 3)"
proof (induction ret left rule: nb_nodes_loop.induct)
  case (1 ret left)
  show ?case
  proof (cases "left > 1")
    case True
    then have "left - min left RADIX + 1 \<noteq> 0" by simp
    moreover have "ret + 1 + (left - min left RADIX + 1 + 1) div 3 = ret + (left + 1) div 3"
    proof (cases "left \<le> 4")
      case True
      then have "left = 2 \<or> left = 3 \<or> left = 4" using \<open>left > 1\<close> by linarith
      then show ?thesis by (auto simp: RADIX_def)
    next
      case False
      then have "left - min left RADIX + 1 + 1 = left - 2" "left + 1 = left - 2 + 3"
        by (simp_all add: RADIX_def)
      then show ?thesis by (simp only: div_add_self2)
    qed
    ultimately show ?thesis using 1 True by (subst nb_nodes_loop.simps) simp
  next
    case False
    then show ?thesis by (subst nb_nodes_loop.simps) auto
  qed
qed


lemma position_of_upt:
  "a \<le> i \<Longrightarrow> i < b \<Longrightarrow> position_of (Some i) (map Some [a..<b] @ xs) = Some (i - a)"
proof (induction "b - a" arbitrary: a)
  case (Suc d)
  then have u: "[a..<b] = a # [Suc a..<b]" by (simp add: upt_conv_Cons)
  show ?case
  proof (cases "i = a")
    case False
    with Suc have "position_of (Some i) (map Some [Suc a..<b] @ xs) = Some (i - Suc a)" by simp
    then show ?thesis using False Suc.prems by (simp add: u)
  qed (simp add: u)
qed simp

lemma sibling_position:
  assumes "i < tree_size n - 1"
  shows "position_of (Some i) (nd_children (tree_node n c (n + i div 4))) = Some (i mod 4)"
proof -
  have j: "3 * (i div 4) + 1 < n" using assms unfolding tree_size_def by linarith
  have "i \<in> set (child_range n (n + i div 4))" by (rule parent_of_nonroot [OF assms])
  then show ?thesis
    using child_range_inner [OF j]
    by (simp add: tree_node_def position_of_upt minus_mult_div_eq_mod)
qed

text \<open>The position of a node among its siblings.\<close>

lemma child_range_nth:
  assumes "i < tree_size n - 1"
  shows "i mod 4 < length (child_range n (n + i div 4))" "child_range n (n + i div 4) ! (i mod 4) = i"
proof -
  have j: "3 * (i div 4) + 1 < n" using assms unfolding tree_size_def by linarith
  note range = child_range_inner [OF j]
  have m: "4 * (i div 4) + i mod 4 = i" by simp
  have "i \<in> set (child_range n (n + i div 4))" by (rule parent_of_nonroot [OF assms])
  then have "i < min (4 * (i div 4) + 4) (n + i div 4)" using range by simp
  then have l: "4 * (i div 4) + i mod 4 < min (4 * (i div 4) + 4) (n + i div 4)" by (simp only: m)
  show "i mod 4 < length (child_range n (n + i div 4))"
    using l range by (simp only: length_upt) linarith
  show "child_range n (n + i div 4) ! (i mod 4) = i"
    using l range by (simp only: nth_upt m)
qed

lemma distinct_child_range: "distinct (child_range n i)"
  unfolding child_range_def by (simp only: distinct_upt distinct.simps simp_thms split: if_split)

lemma position_of_distinct: "distinct xs \<Longrightarrow> k < length xs \<Longrightarrow> position_of (xs ! k) xs = Some k"
proof (induction xs arbitrary: k)
  case (Cons x xs)
  then show ?case by (cases k) (auto dest: nth_mem)
qed simp

lemma position_of_child:
  "c < tree_size n - 1 \<Longrightarrow> position_of c (child_range n (n + c div 4)) = Some (c mod 4)"
  using position_of_distinct [OF distinct_child_range] child_range_nth by metis

text \<open>A tree that was built, with its nodes.\<close>

lemma Tree_new_Ok: "0 < n \<Longrightarrow> Tree_new n = Ok \<lparr>tr_nodes = tree_nodes n, tr_nb_leaves = n\<rparr>"
  by (simp add: Tree_new_def)

lemma parent_idx_closed:
  "0 < n \<Longrightarrow> i < tree_size n \<Longrightarrow>
   nd_parent (tree_nodes n ! i) = (if i < tree_size n - 1 then Some (n + i div 4) else None)"
  by (simp add: tree_nodes_nth tree_node_def)

section \<open>Properties\<close>

text \<open>
  building a tree panics without leaves; otherwise the tree has exactly the number of nodes
  that \<open>nb_nodes_for_leaves\<close> computes with its loop, one inner node per three leaves.
\<close>

theorem tree_node_count:
  "(case (Tree_new n :: ('e, Tree) outcome) of
      Inl e \<Rightarrow> n = 0 \<and> e = Panic ''trees can't be empty''
    | Inr t \<Rightarrow> 0 < n \<and> nb_nodes t = nb_nodes_for_leaves n \<and> nb_nodes t = n + (n + 1) div 3)"
  by (cases n)
    (simp_all add: Tree_new_def nb_nodes_def length_tree_nodes nb_nodes_for_leaves_def
      nb_nodes_loop_closed tree_size_def)

text \<open>
  parents, children and sibling positions agree: node \<open>i\<close> of a tree over \<open>n\<close> leaves is the
  child number \<open>i mod 4\<close> of node \<open>n + i div 4\<close>, and only the last node, the root, has no
  parent. The lookup never panics with "broken tree".
\<close>

theorem tree_parent_and_sibling:
  assumes "Tree_new n = Inr t" "i < nb_nodes t"
  shows "(parent_idx_of_with_sibling_idx t i :: ('e, (nat \<times> nat) option) outcome) =
     Ok (if i = nb_nodes t - 1 then None else Some (n + i div 4, i mod 4))"
proof -
  have n: "0 < n" and t: "t = \<lparr>tr_nodes = tree_nodes n, tr_nb_leaves = n\<rparr>"
    using assms(1) by (auto simp: Tree_new_def split: if_splits)
  then have i: "i < tree_size n" and size: "nb_nodes t = tree_size n"
    using assms(2) by (simp_all add: nb_nodes_def length_tree_nodes)
  have nodes: "tr_nodes t = tree_nodes n" by (simp add: t)
  have idx: "nd_idx (tree_node n c k) = k" for c k by (simp add: tree_node_def)
  have p: "parent_idx_of t i = (if i < tree_size n - 1 then Some (n + i div 4) else None)"
    using i n by (simp add: parent_idx_of_def t nth_opt_def length_tree_nodes parent_idx_closed)
  show ?thesis
  proof (cases "i < tree_size n - 1")
    case True
    then show ?thesis
      using p sibling_position [OF True] parent_of_nonroot(2) [OF True] n idx
      by (simp add: parent_idx_of_with_sibling_idx_def size nodes tree_nodes_nth)
  next
    case False
    then show ?thesis using p i by (simp add: parent_idx_of_with_sibling_idx_def size)
  qed
qed

theorem tree_parent_and_sibling_witness:
  "case (Tree_new 5 :: (unit, Tree) outcome) of
     Inl _ \<Rightarrow> False
   | Inr t \<Rightarrow> (parent_idx_of_with_sibling_idx t 3 :: (unit, (nat \<times> nat) option) outcome) = Ok (Some (5, 3)) \<and>
              (parent_idx_of_with_sibling_idx t 6 :: (unit, (nat \<times> nat) option) outcome) = Ok None"
proof -
  obtain t :: Tree where t: "(Tree_new 5 :: (unit, Tree) outcome) = Inr t" "nb_nodes t = 7"
    using tree_node_count [of 5, where 'e = unit] by (auto split: sum.splits)
  then show ?thesis
    using tree_parent_and_sibling [OF t(1), of 3, where 'e = unit]
      tree_parent_and_sibling [OF t(1), of 6, where 'e = unit] by simp
qed

text \<open>
  The leaves under an inner node are the leaves under its children, in order and without
  repetition, and all leaves of the tree are under the root, although the stored range of leaf
  indices wraps around modulo the number of leaves.
\<close>

theorem tree_leaves_partition:
  assumes "Tree_new n = Inr t" "i < nb_nodes t"
  shows "node_leaves (tr_nodes t ! i) =
      (if i < n then [i]
       else concat (map (\<lambda>c. node_leaves (tr_nodes t ! c)) (node_children (tr_nodes t ! i)))) \<and>
    distinct (node_leaves (tr_nodes t ! i)) \<and>
    set (node_leaves (last (tr_nodes t))) = {0..<n}"
proof -
  obtain m where n: "n = Suc m" and t: "t = \<lparr>tr_nodes = tree_nodes n, tr_nb_leaves = n\<rparr>"
    using assms(1) by (cases n) (auto simp: Tree_new_def)
  then have i: "i < tree_size n" and nodes: "tr_nodes t = tree_nodes n"
    using assms(2) by (simp_all add: nb_nodes_def length_tree_nodes)
  have "last (tr_nodes t) = tree_nodes n ! (tree_size n - 1)"
    using i n nodes length_tree_nodes [of n] last_conv_nth [of "tree_nodes n"] by fastforce
  then show ?thesis
    using ark_tree.leaf [of i m] ark_tree.inner [of m i] ark_tree.no_repeat [of i m]
      ark_tree.root_leaves [of m] i n nodes by (simp del: One_nat_def)
qed

theorem tree_leaves_partition_witness:
  "case (Tree_new 5 :: (unit, Tree) outcome) of
     Inl _ \<Rightarrow> False
   | Inr t \<Rightarrow> distinct (node_leaves (tr_nodes t ! 6)) \<and> set (node_leaves (last (tr_nodes t))) = {0..<5}"
proof -
  obtain t :: Tree where t: "(Tree_new 5 :: (unit, Tree) outcome) = Inr t" "nb_nodes t = 7"
    using tree_node_count [of 5, where 'e = unit] by (auto split: sum.splits)
  then have "6 < nb_nodes t" by simp
  from tree_leaves_partition [OF t(1) this]
  have "distinct (node_leaves (tr_nodes t ! 6)) \<and> set (node_leaves (last (tr_nodes t))) = {0..<5}" by blast
  then show ?thesis by (simp only: t sum.case)
qed

text \<open>
  C30: the branch of a leaf starts at the leaf, goes from each node to its parent with increasing
  indices, ends at the root, and consists of exactly the nodes that have the leaf under them.
\<close>

theorem tree_branch_of_leaf:
  assumes "Tree_new n = Inr t" "l < n"
  shows "\<exists>is. (iter_branch t l :: ('e, Node list) outcome) = Ok (map (\<lambda>k. tr_nodes t ! k) is) \<and>
     is \<noteq> [] \<and> hd is = l \<and> last is = nb_nodes t - 1 \<and> sorted_wrt (<) is \<and>
     set is = {k. k < nb_nodes t \<and> l \<in> set (node_leaves (tr_nodes t ! k))} \<and>
     (\<forall>k. Suc k < length is \<longrightarrow> nd_parent (tr_nodes t ! (is ! k)) = Some (is ! Suc k))"
proof -
  obtain m where n: "n = Suc m" and t: "t = \<lparr>tr_nodes = tree_nodes n, tr_nb_leaves = n\<rparr>"
    using assms(1) by (cases n) (auto simp: Tree_new_def)
  have size: "nb_nodes t = tree_size n" "length (tree_nodes n) = tree_size n"
    using n by (simp_all add: t nb_nodes_def length_tree_nodes)
  have nodes: "tr_nodes t = tree_nodes n" by (simp add: t)
  have l: "l < tree_size n" using assms(2) by (simp add: tree_size_def)
  obtain ks where ks: "branch_iter (tree_nodes n) (tree_size n) (Some l) = map (\<lambda>k. tree_nodes n ! k) ks"
    "ks \<noteq> []" "hd ks = l" "last ks = tree_size n - 1" "sorted_wrt (<) ks" "\<forall>k \<in> set ks. k < tree_size n"
    "set ks = {k. (\<lambda>a b. nd_parent (tree_nodes n ! a) = Some b)\<^sup>*\<^sup>* l k}"
    "\<forall>k. Suc k < length ks \<longrightarrow> nd_parent (tree_nodes n ! (ks ! k)) = Some (ks ! Suc k)"
    using branch_iter_run [of n l "tree_size n"] l n by auto
  have "k \<in> set ks \<longleftrightarrow> k < tree_size n \<and> l \<in> set (node_leaves (tree_nodes n ! k))" for k
    unfolding ks(7) mem_Collect_eq
    using ks(6,7) ark_tree.leaves_branch [of k m l] assms(2) by (auto simp only: n)
  then have "set ks = {k. k < nb_nodes t \<and> l \<in> set (node_leaves (tr_nodes t ! k))}"
    unfolding size(1) nodes by blast
  moreover have "(iter_branch t l :: ('e, Node list) outcome) = Ok (map (\<lambda>k. tr_nodes t ! k) ks)"
    using ks(1) l by (simp add: iter_branch_def size t)
  moreover have "\<forall>k. Suc k < length ks \<longrightarrow> nd_parent (tr_nodes t ! (ks ! k)) = Some (ks ! Suc k)"
    using ks(8) by (simp add: t)
  ultimately show ?thesis
    using ks(2-5) unfolding size(1) by blast
qed

theorem tree_branch_of_leaf_witness:
  "case (Tree_new 5 :: (unit, Tree) outcome) of
     Inl _ \<Rightarrow> False
   | Inr t \<Rightarrow> (\<exists>is. (iter_branch t 4 :: (unit, Node list) outcome) = Ok (map (\<lambda>k. tr_nodes t ! k) is) \<and>
              hd is = 4 \<and> last is = 6)"
proof -
  obtain t :: Tree where t: "(Tree_new 5 :: (unit, Tree) outcome) = Inr t" "nb_nodes t = 7"
    using tree_node_count [of 5, where 'e = unit] by (auto split: sum.splits)
  then show ?thesis using tree_branch_of_leaf [OF t(1), of 4, where 'e = unit] by auto
qed

end
