(* ===== verification/Ark_Signed_Tree.thy ===== *)
theory Ark_Signed_Tree
  imports Ark_Validation Ark_Tree
begin

text \<open>
  VTXO trees (\<open>lib/src/tree/signed.rs\<close>): from the requests of a round to the unsigned
  transactions of the tree, the MuSig cosigning of all nodes, the signed tree and the VTXOs at
  its leaves. Lists of nodes, transactions, keys and signatures are ordered from the leaves to
  the root, as in the code.
\<close>

section \<open>The tree specification\<close>

record VtxoRequest =
  vr_amount :: Amount
  vr_policy :: VtxoPolicy

record SignedVtxoRequest =
  sr_vtxo :: VtxoRequest
  sr_cosign_pubkey :: "PublicKey option"

record VtxoTreeSpec =
  ts_vtxos :: "SignedVtxoRequest list"
  ts_expiry_height :: BlockHeight
  ts_server_pubkey :: PublicKey
  ts_exit_delta :: BlockDelta
  ts_global_cosign_pubkeys :: "PublicKey list"

definition VtxoTreeSpec_new ::
  "SignedVtxoRequest list \<Rightarrow> PublicKey \<Rightarrow> BlockHeight \<Rightarrow> BlockDelta \<Rightarrow> PublicKey list \<Rightarrow>
   ('e, VtxoTreeSpec) outcome" where
  "VtxoTreeSpec_new vtxos server_pubkey expiry_height exit_delta global_cosign_pubkeys =
     (if vtxos = [] then panic ''assertion left != right failed''
      else Ok \<lparr>ts_vtxos = vtxos, ts_expiry_height = expiry_height, ts_server_pubkey = server_pubkey,
               ts_exit_delta = exit_delta, ts_global_cosign_pubkeys = global_cosign_pubkeys\<rparr>)"

definition ts_nb_leaves :: "VtxoTreeSpec \<Rightarrow> nat" where
  "ts_nb_leaves spec = length (ts_vtxos spec)"

definition ts_nb_nodes :: "VtxoTreeSpec \<Rightarrow> nat" where
  "ts_nb_nodes spec = nb_nodes_for_leaves (ts_nb_leaves spec)"

definition leaf_idx_of :: "VtxoTreeSpec \<Rightarrow> SignedVtxoRequest \<Rightarrow> nat option" where
  "leaf_idx_of spec vtxo_request = position (\<lambda>e. e = vtxo_request) (ts_vtxos spec)"

definition leaf_amount :: "VtxoTreeSpec \<Rightarrow> nat \<Rightarrow> Amount" where
  "leaf_amount spec i = vr_amount (sr_vtxo (ts_vtxos spec ! i))"

definition total_required_value :: "VtxoTreeSpec \<Rightarrow> Amount" where
  "total_required_value spec = sum_list (map (\<lambda>d. vr_amount (sr_vtxo d)) (ts_vtxos spec))"

definition ts_cosign_taproot :: "externals \<Rightarrow> VtxoTreeSpec \<Rightarrow> XOnlyPublicKey \<Rightarrow> TaprootSpendInfo" where
  "ts_cosign_taproot X spec agg_pk =
     cosign_taproot X agg_pk (ts_server_pubkey spec) (ts_expiry_height spec)"

definition funding_tx_cosign_pubkey :: "externals \<Rightarrow> VtxoTreeSpec \<Rightarrow> XOnlyPublicKey" where
  "funding_tx_cosign_pubkey X spec =
     combine_keys X (List.map_filter sr_cosign_pubkey (ts_vtxos spec) @ ts_global_cosign_pubkeys spec)"

definition funding_tx_script_pubkey :: "externals \<Rightarrow> VtxoTreeSpec \<Rightarrow> ScriptBuf" where
  "funding_tx_script_pubkey X spec =
     taproot_script_pubkey X (ts_cosign_taproot X spec (funding_tx_cosign_pubkey X spec))"

definition funding_tx_txout :: "externals \<Rightarrow> VtxoTreeSpec \<Rightarrow> TxOut" where
  "funding_tx_txout X spec =
     \<lparr>txo_value = total_required_value spec, txo_script = funding_tx_script_pubkey X spec\<rparr>"

definition node_tx :: "externals \<Rightarrow> VtxoTreeSpec \<Rightarrow> (Transaction \<times> XOnlyPublicKey) list \<Rightarrow> Transaction" where
  "node_tx X spec children =
     v3_tx [plain_input null_outpoint Sequence_ZERO []]
       (map (\<lambda>(tx, agg_pk). \<lparr>txo_value = output_value tx,
               txo_script = taproot_script_pubkey X (ts_cosign_taproot X spec agg_pk)\<rparr>) children
        @ [fee_anchor X])"

definition leaf_tx :: "externals \<Rightarrow> VtxoTreeSpec \<Rightarrow> VtxoRequest \<Rightarrow> Transaction" where
  "leaf_tx X spec vtxo =
     create_exit_tx X null_outpoint
       \<lparr>txo_value = vr_amount vtxo,
        txo_script = policy_script_pubkey X (vr_policy vtxo) (ts_server_pubkey spec)
                       (ts_exit_delta spec) (ts_expiry_height spec)\<rparr> None"

text \<open>The keys that cosign a node: those of the leaves under it and the global ones.\<close>

definition node_cosign_pubkeys :: "VtxoTreeSpec \<Rightarrow> Node \<Rightarrow> PublicKey list" where
  "node_cosign_pubkeys spec node =
     List.map_filter (\<lambda>i. sr_cosign_pubkey (ts_vtxos spec ! i)) (node_leaves node)
     @ ts_global_cosign_pubkeys spec"

definition cosign_agg_pks :: "externals \<Rightarrow> VtxoTreeSpec \<Rightarrow> ('e, XOnlyPublicKey list) outcome" where
  "cosign_agg_pks X spec =
     and_then (Tree_new (ts_nb_leaves spec)) (\<lambda>tree.
       Ok (map (\<lambda>node. combine_keys X (node_cosign_pubkeys spec node)) (tr_nodes tree)))"

section \<open>Unsigned transactions\<close>

text \<open>The first loop of \<open>unsigned_transactions\<close>: leaf and node transactions without inputs.\<close>

fun build_txs ::
  "externals \<Rightarrow> VtxoTreeSpec \<Rightarrow> XOnlyPublicKey list \<Rightarrow> Node list \<Rightarrow> Transaction list \<Rightarrow>
   ('e, Transaction list) outcome" where
  "build_txs X spec pks [] txs = Ok txs"
| "build_txs X spec pks (node # nodes) txs =
     (if is_leaf node then
        let req = sr_vtxo (ts_vtxos spec ! nd_idx node) in
        if \<not> policy_locktime_ok (vr_policy req) (ts_expiry_height spec)
        then panic ''LockTime::from_height''
        else build_txs X spec pks nodes (txs @ [leaf_tx X spec req])
      else if \<not> locktime_ok (ts_expiry_height spec) then panic ''LockTime::from_height''
      else build_txs X spec pks nodes
             (txs @ [node_tx X spec (map (\<lambda>c. (txs ! c, pks ! c)) (node_children node))]))"

definition set_prevout :: "Transaction \<Rightarrow> OutPoint \<Rightarrow> Transaction" where
  "set_prevout tx point =
     tx\<lparr>tx_input := (tx_input tx)[0 := (tx_input tx ! 0)\<lparr>previous_output := point\<rparr>]\<rparr>"

text \<open>The second loop: the outpoints, from the root to the leaves.\<close>

fun link_children :: "Txid \<Rightarrow> nat \<Rightarrow> nat list \<Rightarrow> Transaction list \<Rightarrow> Transaction list" where
  "link_children txid i [] txs = txs"
| "link_children txid i (child # children) txs =
     link_children txid (i + 1) children
       (txs[child := set_prevout (txs ! child) \<lparr>op_txid = txid, op_vout = word_of_nat i\<rparr>])"

fun set_prevouts :: "externals \<Rightarrow> Node list \<Rightarrow> Transaction list \<Rightarrow> Transaction list" where
  "set_prevouts X [] txs = txs"
| "set_prevouts X (node # nodes) txs =
     set_prevouts X nodes
       (link_children (ext_txid X (txs ! nd_idx node)) 0 (node_children node) txs)"

definition unsigned_transactions ::
  "externals \<Rightarrow> VtxoTreeSpec \<Rightarrow> OutPoint \<Rightarrow> ('e, Transaction list) outcome" where
  "unsigned_transactions X spec utxo =
     and_then (Tree_new (ts_nb_leaves spec)) (\<lambda>tree.
     and_then (cosign_agg_pks X spec) (\<lambda>pks.
     and_then (build_txs X spec pks (tr_nodes tree) []) (\<lambda>txs.
       Ok (set_prevouts X (rev (tr_nodes tree))
             (txs[length txs - 1 := set_prevout (last txs) utxo])))))"

fun push_sigs :: "Transaction list \<Rightarrow> Signature list \<Rightarrow> Transaction list" where
  "push_sigs (tx # txs) (sig # sigs) =
     tx\<lparr>tx_input := (tx_input tx)[0 := (tx_input tx ! 0)\<lparr>txin_witness := txin_witness (tx_input tx ! 0) @ [sig]\<rparr>]\<rparr>
     # push_sigs txs sigs"
| "push_sigs txs _ = txs"

definition signed_transactions ::
  "externals \<Rightarrow> VtxoTreeSpec \<Rightarrow> OutPoint \<Rightarrow> Signature list \<Rightarrow> ('e, Transaction list) outcome" where
  "signed_transactions X spec utxo signatures =
     and_then (unsigned_transactions X spec utxo) (\<lambda>txs. Ok (push_sigs txs signatures))"

text \<open>\<open>calculate_cosign_agg_nonces\<close>: the nonces of a leaf are indexed by level.\<close>

fun leaf_nonces_at ::
  "(PublicKey \<rightharpoonup> PublicNonce list) \<Rightarrow> nat \<Rightarrow> PublicKey list \<Rightarrow> (string, PublicNonce list) outcome" where
  "leaf_nonces_at leaf_cosign_nonces level [] = Ok []"
| "leaf_nonces_at leaf_cosign_nonces level (pk # pks) =
     and_then (ok_or (leaf_cosign_nonces pk) ''missing nonces for leaf pk'') (\<lambda>ns.
     and_then (ok_or (nth_opt ns level) ''not enough nonces for leaf_pk'') (\<lambda>n.
     and_then (leaf_nonces_at leaf_cosign_nonces level pks) (\<lambda>rest. Ok (n # rest))))"

definition calculate_cosign_agg_nonces ::
  "externals \<Rightarrow> VtxoTreeSpec \<Rightarrow> (PublicKey \<rightharpoonup> PublicNonce list) \<Rightarrow> PublicNonce list list \<Rightarrow>
   (string, AggregatedNonce list) outcome" where
  "calculate_cosign_agg_nonces X spec leaf_cosign_nonces global_signer_cosign_nonces =
     (if length global_signer_cosign_nonces \<noteq> length (ts_global_cosign_pubkeys spec)
      then err ''missing global signer nonces''
      else and_then (Tree_new (ts_nb_leaves spec)) (\<lambda>tree.
        collect_results (map (\<lambda>(idx, node).
          and_then (leaf_nonces_at leaf_cosign_nonces (nd_level node)
                      (List.map_filter (\<lambda>i. sr_cosign_pubkey (ts_vtxos spec ! i)) (node_leaves node))) (\<lambda>leaf.
          and_then (collect_results (map (\<lambda>glob. ok_or (nth_opt glob idx) ''not enough global cosign nonces'')
                      global_signer_cosign_nonces)) (\<lambda>glob.
          Ok (nonce_agg X (leaf @ glob)))))
          (enumerate 0 (tr_nodes tree)))))"

section \<open>The unsigned tree and its cosigning\<close>

record UnsignedVtxoTree =
  ut_spec :: VtxoTreeSpec
  ut_utxo :: OutPoint
  ut_cosign_agg_pks :: "XOnlyPublicKey list"
  ut_txs :: "Transaction list"
  ut_sighashes :: "bytes list"
  ut_tree :: Tree

text \<open>One element of the sighash iterator of \<open>UnsignedVtxoTree::new\<close>.\<close>

definition node_sighash ::
  "externals \<Rightarrow> Tree \<Rightarrow> Transaction list \<Rightarrow> TxOut \<Rightarrow> Node \<Rightarrow> ('e, bytes) outcome" where
  "node_sighash X tree txs root_txout node =
     and_then (parent_idx_of_with_sibling_idx tree (nd_idx node)) (\<lambda>found.
     and_then
       (case found of
          Some (parent, sibling_idx) \<Rightarrow>
            if is_root node then panic ''assertion failed: !node.is_root()''
            else expect (nth_opt (tx_output (txs ! parent)) sibling_idx) ''index out of bounds''
        | None \<Rightarrow>
            if is_root node then Ok root_txout else panic ''assertion failed: node.is_root()'')
       (\<lambda>prev. Ok (ext_key_sighash X (txs ! nd_idx node) prev)))"

definition UnsignedVtxoTree_new ::
  "externals \<Rightarrow> VtxoTreeSpec \<Rightarrow> OutPoint \<Rightarrow> ('e, UnsignedVtxoTree) outcome" where
  "UnsignedVtxoTree_new X spec utxo =
     and_then (Tree_new (ts_nb_leaves spec)) (\<lambda>tree.
     and_then (cosign_agg_pks X spec) (\<lambda>pks.
     and_then (unsigned_transactions X spec utxo) (\<lambda>txs.
     if \<not> locktime_ok (ts_expiry_height spec) then panic ''LockTime::from_height''
     else
       let root_txout = funding_tx_txout X spec in
       and_then (collect_results (map (node_sighash X tree txs root_txout) (tr_nodes tree))) (\<lambda>sighashes.
       Ok \<lparr>ut_spec = spec, ut_utxo = utxo, ut_cosign_agg_pks = pks, ut_txs = txs,
           ut_sighashes = sighashes, ut_tree = tree\<rparr>))))"

definition ut_nb_nodes :: "UnsignedVtxoTree \<Rightarrow> nat" where
  "ut_nb_nodes u = nb_nodes (ut_tree u)"

text \<open>The partial signature of a key over one node.\<close>

definition cosign_node ::
  "externals \<Rightarrow> UnsignedVtxoTree \<Rightarrow> AggregatedNonce list \<Rightarrow> Keypair \<Rightarrow> Node \<Rightarrow> SecretNonce \<Rightarrow> PartialSignature" where
  "cosign_node X u cosign_agg_nonces key node sec_nonce =
     (let agg_pk = ut_cosign_agg_pks u ! nd_idx node
      in fst (partial_sign X (node_cosign_pubkeys (ut_spec u) node) (cosign_agg_nonces ! nd_idx node)
                key sec_nonce (ut_sighashes u ! nd_idx node)
                (Some (ext_tap_tweak X (ts_cosign_taproot X (ut_spec u) agg_pk))) None))"

text \<open>
  The loop that skips nonces until the node's level: \<open>pos\<close> is the number of the next nonce in
  the list.
\<close>

fun next_nonce :: "nat \<Rightarrow> nat \<Rightarrow> 'n list \<Rightarrow> ('n \<times> nat \<times> 'n list) option" where
  "next_nonce level pos [] = None"
| "next_nonce level pos (n # ns) =
     (if pos = level then Some (n, pos + 1, ns) else next_nonce level (pos + 1) ns)"

fun cosign_branch_loop ::
  "externals \<Rightarrow> UnsignedVtxoTree \<Rightarrow> AggregatedNonce list \<Rightarrow> Keypair \<Rightarrow> nat \<Rightarrow> SecretNonce list \<Rightarrow>
   Node list \<Rightarrow> ('e, PartialSignature list) outcome" where
  "cosign_branch_loop X u agg_nonces key pos ns [] = Ok []"
| "cosign_branch_loop X u agg_nonces key pos ns (node # nodes) =
     and_then (expect (next_nonce (nd_level node) pos ns) ''level overflow'') (\<lambda>(n, pos', ns').
     if length agg_nonces \<le> nd_idx node then panic ''index out of bounds''
     else and_then (cosign_branch_loop X u agg_nonces key pos' ns' nodes) (\<lambda>sigs.
       Ok (cosign_node X u agg_nonces key node n # sigs)))"

datatype IncorrectSigningKeyError = IncorrectSigningKey "PublicKey option" PublicKey

definition cosign_branch ::
  "externals \<Rightarrow> UnsignedVtxoTree \<Rightarrow> AggregatedNonce list \<Rightarrow> nat \<Rightarrow> Keypair \<Rightarrow> SecretNonce list \<Rightarrow>
   (IncorrectSigningKeyError, PartialSignature list) outcome" where
  "cosign_branch X u cosign_agg_nonces leaf_idx cosign_key cosign_sec_nonces =
     and_then (expect (nth_opt (ts_vtxos (ut_spec u)) leaf_idx) ''leaf idx out of bounds'') (\<lambda>req.
     if Some (ext_public_key X cosign_key) \<noteq> sr_cosign_pubkey req
     then err (IncorrectSigningKey (sr_cosign_pubkey req) (ext_public_key X cosign_key))
     else and_then (iter_branch (ut_tree u) leaf_idx)
            (cosign_branch_loop X u cosign_agg_nonces cosign_key 0 cosign_sec_nonces))"

definition cosign_tree ::
  "externals \<Rightarrow> UnsignedVtxoTree \<Rightarrow> AggregatedNonce list \<Rightarrow> Keypair \<Rightarrow> SecretNonce list \<Rightarrow>
   ('e, PartialSignature list) outcome" where
  "cosign_tree X u cosign_agg_nonces keypair cosign_sec_nonces =
     (if length cosign_agg_nonces \<noteq> ut_nb_nodes u \<or> length cosign_sec_nonces \<noteq> ut_nb_nodes u
      then panic ''assertion left == right failed''
      else Ok (map (\<lambda>(node, n). cosign_node X u cosign_agg_nonces keypair node n)
                 (zip (tr_nodes (ut_tree u)) cosign_sec_nonces)))"

datatype CosignSignatureError =
    MissingSignature PublicKey
  | InvalidSignature PublicKey
  | NotEnoughNonces
  | CosignInvalid string

definition verify_node_cosign_partial_sig ::
  "externals \<Rightarrow> UnsignedVtxoTree \<Rightarrow> Node \<Rightarrow> PublicKey \<Rightarrow> AggregatedNonce list \<Rightarrow> PartialSignature \<Rightarrow>
   PublicNonce \<Rightarrow> (CosignSignatureError, unit) outcome" where
  "verify_node_cosign_partial_sig X u node pk agg_nonces part_sig pub_nonce =
     (let taptweak = ext_tap_tweak X (ts_cosign_taproot X (ut_spec u) (ut_cosign_agg_pks u ! nd_idx node));
          key_agg = tweaked_key_agg (node_cosign_pubkeys (ut_spec u) node) taptweak
      in and_then (ok_or (nth_opt agg_nonces (nd_idx node)) NotEnoughNonces) (\<lambda>agg_nonce.
         if ext_partial_verify X key_agg agg_nonce (ut_sighashes u ! nd_idx node) part_sig pub_nonce pk
         then Ok () else err (InvalidSignature pk)))"

fun verify_branch_loop ::
  "externals \<Rightarrow> UnsignedVtxoTree \<Rightarrow> AggregatedNonce list \<Rightarrow> PublicKey \<Rightarrow> nat \<Rightarrow> PublicNonce list \<Rightarrow>
   PartialSignature list \<Rightarrow> Node list \<Rightarrow> (string, unit) outcome" where
  "verify_branch_loop X u agg_nonces pk pos ns sigs [] = Ok ()"
| "verify_branch_loop X u agg_nonces pk pos ns sigs (node # nodes) =
     and_then (ok_or (next_nonce (nd_level node) pos ns) ''not enough pub nonces'') (\<lambda>(n, pos', ns').
     case sigs of
       [] \<Rightarrow> err ''not enough sigs''
     | sig # sigs' \<Rightarrow>
         and_then (map_err (\<lambda>_. ''part sig verification failed'')
                     (verify_node_cosign_partial_sig X u node pk agg_nonces sig n)) (\<lambda>_.
         verify_branch_loop X u agg_nonces pk pos' ns' sigs' nodes))"

definition verify_branch_cosign_partial_sigs ::
  "externals \<Rightarrow> UnsignedVtxoTree \<Rightarrow> AggregatedNonce list \<Rightarrow> SignedVtxoRequest \<Rightarrow> PublicNonce list \<Rightarrow>
   PartialSignature list \<Rightarrow> (string, unit) outcome" where
  "verify_branch_cosign_partial_sigs X u cosign_agg_nonces request cosign_pub_nonces cosign_part_sigs =
     (if length cosign_agg_nonces \<noteq> ut_nb_nodes u then panic ''assertion left == right failed''
      else
        and_then (ok_or (sr_cosign_pubkey request) ''no cosign pubkey for request'') (\<lambda>cosign_pubkey.
        and_then (ok_or (leaf_idx_of (ut_spec u) request) ''request not in tree'') (\<lambda>leaf_idx.
        and_then (iter_branch (ut_tree u) leaf_idx) (\<lambda>branch.
        if length branch < length cosign_part_sigs then err ''too few partial signatures''
        else if length branch > length cosign_part_sigs then err ''too many partial signatures''
        else verify_branch_loop X u cosign_agg_nonces cosign_pubkey 0 cosign_pub_nonces cosign_part_sigs
               branch))))"

fun verify_global_loop ::
  "externals \<Rightarrow> UnsignedVtxoTree \<Rightarrow> PublicKey \<Rightarrow> AggregatedNonce list \<Rightarrow> PublicNonce list \<Rightarrow>
   PartialSignature list \<Rightarrow> Node list \<Rightarrow> (CosignSignatureError, unit) outcome" where
  "verify_global_loop X u pk agg_nonces pub_nonces part_sigs [] = Ok ()"
| "verify_global_loop X u pk agg_nonces pub_nonces part_sigs (node # nodes) =
     and_then (ok_or (nth_opt part_sigs (nd_idx node)) (MissingSignature pk)) (\<lambda>sig.
     and_then (ok_or (nth_opt pub_nonces (nd_idx node)) NotEnoughNonces) (\<lambda>n.
     and_then (verify_node_cosign_partial_sig X u node pk agg_nonces sig n) (\<lambda>_.
       verify_global_loop X u pk agg_nonces pub_nonces part_sigs nodes)))"

definition verify_global_cosign_partial_sigs ::
  "externals \<Rightarrow> UnsignedVtxoTree \<Rightarrow> PublicKey \<Rightarrow> AggregatedNonce list \<Rightarrow> PublicNonce list \<Rightarrow>
   PartialSignature list \<Rightarrow> (CosignSignatureError, unit) outcome" where
  "verify_global_cosign_partial_sigs X u pk agg_nonces pub_nonces part_sigs =
     verify_global_loop X u pk agg_nonces pub_nonces part_sigs (tr_nodes (ut_tree u))"

text \<open>
  \<open>combine_partial_signatures\<close>: every leaf's signatures are a queue that is consumed from leaf
  to root while the nodes are visited in order.
\<close>

fun pop_leaf_sigs ::
  "VtxoTreeSpec \<Rightarrow> nat list \<Rightarrow> (PublicKey \<rightharpoonup> PartialSignature list) \<Rightarrow>
   (CosignSignatureError, (PublicKey \<times> PartialSignature) list \<times> (PublicKey \<rightharpoonup> PartialSignature list)) outcome" where
  "pop_leaf_sigs spec [] queues = Ok ([], queues)"
| "pop_leaf_sigs spec (leaf # leaves) queues =
     (case sr_cosign_pubkey (ts_vtxos spec ! leaf) of
        None \<Rightarrow> pop_leaf_sigs spec leaves queues
      | Some cosign_pk \<Rightarrow>
          (case queues cosign_pk of
             None \<Rightarrow> err (MissingSignature cosign_pk)
           | Some [] \<Rightarrow> err (MissingSignature cosign_pk)
           | Some (part_sig # queue) \<Rightarrow>
               and_then (pop_leaf_sigs spec leaves (queues(cosign_pk \<mapsto> queue))) (\<lambda>(rest, queues').
               Ok ((cosign_pk, part_sig) # rest, queues'))))"

fun combine_loop ::
  "externals \<Rightarrow> UnsignedVtxoTree \<Rightarrow> AggregatedNonce list \<Rightarrow> PartialSignature list list \<Rightarrow> nat \<Rightarrow>
   Node list \<Rightarrow> (PublicKey \<rightharpoonup> PartialSignature list) \<Rightarrow> (CosignSignatureError, Signature list) outcome" where
  "combine_loop X u agg_nonces globals idx [] queues = Ok []"
| "combine_loop X u agg_nonces globals idx (node # nodes) queues =
     and_then (pop_leaf_sigs (ut_spec u) (node_leaves node) queues) (\<lambda>(leaf_sigs, queues').
     and_then (collect_results (map (\<lambda>sigs. expect (nth_opt sigs idx) ''checked before'') globals)) (\<lambda>global_sigs.
     and_then (ok_or (nth_opt agg_nonces (nd_idx node)) NotEnoughNonces) (\<lambda>agg_nonce.
     let cosign_pks = map fst leaf_sigs @ ts_global_cosign_pubkeys (ut_spec u);
         part_sigs = map snd leaf_sigs @ global_sigs;
         agg_pk = ut_cosign_agg_pks u ! nd_idx node;
         sig = musig_combine_partial_signatures X cosign_pks agg_nonce (ut_sighashes u ! nd_idx node)
                 (Some (ext_tap_tweak X (ts_cosign_taproot X (ut_spec u) agg_pk))) part_sigs
     in and_then (combine_loop X u agg_nonces globals (idx + 1) nodes queues') (\<lambda>sigs. Ok (sig # sigs)))))"

definition combine_partial_signatures ::
  "externals \<Rightarrow> UnsignedVtxoTree \<Rightarrow> AggregatedNonce list \<Rightarrow> (PublicKey \<rightharpoonup> PartialSignature list) \<Rightarrow>
   PartialSignature list list \<Rightarrow> (CosignSignatureError, Signature list) outcome" where
  "combine_partial_signatures X u cosign_agg_nonces leaf_part_sigs global_signer_part_sigs =
     (if length global_signer_part_sigs \<noteq> length (ts_global_cosign_pubkeys (ut_spec u))
      then err (CosignInvalid ''invalid nb of global cosigner partial signatures'')
      else case position (\<lambda>(pk, sigs). length sigs \<noteq> ut_nb_nodes u)
                  (zip (ts_global_cosign_pubkeys (ut_spec u)) global_signer_part_sigs) of
        Some i \<Rightarrow> err (MissingSignature (ts_global_cosign_pubkeys (ut_spec u) ! i))
      | None \<Rightarrow> combine_loop X u cosign_agg_nonces global_signer_part_sigs 0 (tr_nodes (ut_tree u))
                  leaf_part_sigs)"

fun verify_cosign_loop ::
  "externals \<Rightarrow> UnsignedVtxoTree \<Rightarrow> Signature list \<Rightarrow> Node list \<Rightarrow> (XOnlyPublicKey, unit) outcome" where
  "verify_cosign_loop X u signatures [] = Ok ()"
| "verify_cosign_loop X u signatures (node # nodes) =
     (let sighash = ut_sighashes u ! nd_idx node;
          pk = ext_output_key X (ts_cosign_taproot X (ut_spec u) (ut_cosign_agg_pks u ! nd_idx node))
      in and_then (ok_or (nth_opt signatures (nd_idx node)) pk) (\<lambda>sig.
         if ext_verify_schnorr X sig sighash pk then verify_cosign_loop X u signatures nodes
         else err pk))"

definition verify_cosign_sigs ::
  "externals \<Rightarrow> UnsignedVtxoTree \<Rightarrow> Signature list \<Rightarrow> (XOnlyPublicKey, unit) outcome" where
  "verify_cosign_sigs X u signatures = verify_cosign_loop X u signatures (tr_nodes (ut_tree u))"

section \<open>Signed trees\<close>

record SignedVtxoTreeSpec =
  st_spec :: VtxoTreeSpec
  st_utxo :: OutPoint
  st_cosign_sigs :: "Signature list"

definition into_signed_tree :: "UnsignedVtxoTree \<Rightarrow> Signature list \<Rightarrow> SignedVtxoTreeSpec" where
  "into_signed_tree u signatures =
     \<lparr>st_spec = ut_spec u, st_utxo = ut_utxo u, st_cosign_sigs = signatures\<rparr>"

definition all_signed_txs :: "externals \<Rightarrow> SignedVtxoTreeSpec \<Rightarrow> ('e, Transaction list) outcome" where
  "all_signed_txs X st = signed_transactions X (st_spec st) (st_utxo st) (st_cosign_sigs st)"

definition signed_exit_branch ::
  "externals \<Rightarrow> SignedVtxoTreeSpec \<Rightarrow> nat \<Rightarrow> ('e, Transaction list option) outcome" where
  "signed_exit_branch X st leaf_idx =
     and_then (all_signed_txs X st) (\<lambda>txs.
     if ts_nb_leaves (st_spec st) \<le> leaf_idx then Ok None
     else and_then (Tree_new (ts_nb_leaves (st_spec st))) (\<lambda>tree.
       and_then (iter_branch tree leaf_idx) (\<lambda>branch.
       Ok (Some (rev (map (\<lambda>n. txs ! nd_idx n) branch))))))"

record CachedSignedVtxoTree =
  ct_spec :: SignedVtxoTreeSpec
  ct_txs :: "Transaction list"

definition into_cached_tree ::
  "externals \<Rightarrow> SignedVtxoTreeSpec \<Rightarrow> ('e, CachedSignedVtxoTree) outcome" where
  "into_cached_tree X st = and_then (all_signed_txs X st) (\<lambda>txs. Ok \<lparr>ct_spec = st, ct_txs = txs\<rparr>)"

definition cached_exit_branch ::
  "CachedSignedVtxoTree \<Rightarrow> nat \<Rightarrow> ('e, Transaction list option) outcome" where
  "cached_exit_branch ct leaf_idx =
     (if ts_nb_leaves (st_spec (ct_spec ct)) \<le> leaf_idx then Ok None
      else and_then (Tree_new (ts_nb_leaves (st_spec (ct_spec ct)))) (\<lambda>tree.
        and_then (iter_branch tree leaf_idx) (\<lambda>branch.
        Ok (Some (rev (map (\<lambda>n. ct_txs ct ! nd_idx n) branch))))))"

text \<open>The outputs of a transaction without fee anchors and the one at an index.\<close>

definition other_outputs_of :: "externals \<Rightarrow> Transaction \<Rightarrow> nat \<Rightarrow> TxOut list" where
  "other_outputs_of X tx output_idx =
     map snd (filter (\<lambda>(i, o'). \<not> is_p2a_fee_anchor X o' \<and> i \<noteq> output_idx) (enumerate 0 (tx_output tx)))"

fun branch_genesis ::
  "externals \<Rightarrow> CachedSignedVtxoTree \<Rightarrow> nat option \<Rightarrow> Node list \<Rightarrow> ('e, GenesisItem list) outcome" where
  "branch_genesis X ct last_node [] = Ok []"
| "branch_genesis X ct last_node (node # nodes) =
     and_then (expect (nth_opt (st_cosign_sigs (ct_spec ct)) (nd_idx node)) ''enough sigs for all nodes'') (\<lambda>signature.
     let transition = Cosigned (node_cosign_pubkeys (st_spec (ct_spec ct)) node) signature in
     and_then
       (case last_node of
          Some lst \<Rightarrow>
            and_then (expect (position_of lst (node_children node)) ''last node should be our child'') (\<lambda>i.
            Ok (word_of_nat i))
        | None \<Rightarrow> Ok 0) (\<lambda>output_idx :: byte.
     and_then (expect (nth_opt (ct_txs ct) (nd_idx node)) ''we have all txs'') (\<lambda>tx.
     and_then (branch_genesis X ct (Some (nd_idx node)) nodes) (\<lambda>items.
     Ok (\<lparr>gi_transition = transition, gi_output_idx = output_idx,
          gi_other_outputs = other_outputs_of X tx (unat output_idx)\<rparr> # items)))))"

definition build_vtxo ::
  "externals \<Rightarrow> CachedSignedVtxoTree \<Rightarrow> nat \<Rightarrow> ('e, Vtxo option) outcome" where
  "build_vtxo X ct leaf_idx =
     (let spec = st_spec (ct_spec ct) in
      case nth_opt (ts_vtxos spec) leaf_idx of
        None \<Rightarrow> Ok None
      | Some req \<Rightarrow>
          and_then (Tree_new (ts_nb_leaves spec)) (\<lambda>tree.
          and_then (iter_branch tree leaf_idx) (\<lambda>branch.
          and_then (branch_genesis X ct None branch) (\<lambda>genesis.
          and_then (expect (nth_opt (ct_txs ct) leaf_idx) ''leaf idx exists'') (\<lambda>tx.
          Ok (Some \<lparr>v_policy = vr_policy (sr_vtxo req), v_amount = vr_amount (sr_vtxo req),
                    v_expiry_height = ts_expiry_height spec, v_server_pubkey = ts_server_pubkey spec,
                    v_exit_delta = ts_exit_delta spec, v_anchor_point = st_utxo (ct_spec ct),
                    v_genesis = rev genesis,
                    v_point = \<lparr>op_txid = ext_txid X tx, op_vout = 0\<rparr>\<rparr>))))))"

definition all_vtxos :: "externals \<Rightarrow> CachedSignedVtxoTree \<Rightarrow> ('e, Vtxo list) outcome" where
  "all_vtxos X ct =
     collect_results (map (\<lambda>idx. and_then (build_vtxo X ct idx) (\<lambda>v. expect v ''called `Option::unwrap()` on a `None` value''))
       [0..<ts_nb_leaves (st_spec (ct_spec ct))])"

section \<open>The transactions of a tree\<close>

text \<open>The heights that the taproots of the tree unwrap are valid lock heights.\<close>

definition ts_locktimes_ok :: "VtxoTreeSpec \<Rightarrow> bool" where
  "ts_locktimes_ok spec \<longleftrightarrow>
     locktime_ok (ts_expiry_height spec) \<and>
     list_all (\<lambda>r. policy_locktime_ok (vr_policy (sr_vtxo r)) (ts_expiry_height spec)) (ts_vtxos spec)"

text \<open>
  Node \<open>i\<close> of the tree by closed form: its aggregate key, the value of the leaves under it, the
  output that funds it and its transaction, first without and then with its outpoint.
\<close>

definition node_pk :: "externals \<Rightarrow> VtxoTreeSpec \<Rightarrow> nat \<Rightarrow> XOnlyPublicKey" where
  "node_pk X spec i = combine_keys X (node_cosign_pubkeys spec (tree_nodes (ts_nb_leaves spec) ! i))"

definition leaf_sum :: "VtxoTreeSpec \<Rightarrow> nat \<Rightarrow> Amount" where
  "leaf_sum spec i = sum_list (map (leaf_amount spec) (leaf_list (ts_nb_leaves spec) i))"

definition node_txout :: "externals \<Rightarrow> VtxoTreeSpec \<Rightarrow> nat \<Rightarrow> TxOut" where
  "node_txout X spec i =
     \<lparr>txo_value = leaf_sum spec i,
      txo_script = taproot_script_pubkey X (ts_cosign_taproot X spec (node_pk X spec i))\<rparr>"

definition leaf_txout :: "externals \<Rightarrow> VtxoTreeSpec \<Rightarrow> nat \<Rightarrow> TxOut" where
  "leaf_txout X spec i =
     policy_txout X (vr_policy (sr_vtxo (ts_vtxos spec ! i))) (leaf_amount spec i)
       (ts_server_pubkey spec) (ts_exit_delta spec) (ts_expiry_height spec)"

definition tree_outputs :: "externals \<Rightarrow> VtxoTreeSpec \<Rightarrow> nat \<Rightarrow> TxOut list" where
  "tree_outputs X spec i =
     (if i < ts_nb_leaves spec then [leaf_txout X spec i]
      else map (node_txout X spec) (child_range (ts_nb_leaves spec) i)) @ [fee_anchor X]"

definition base_tx :: "externals \<Rightarrow> VtxoTreeSpec \<Rightarrow> nat \<Rightarrow> OutPoint \<Rightarrow> Transaction" where
  "base_tx X spec i prev = v3_tx [plain_input prev Sequence_ZERO []] (tree_outputs X spec i)"

function tree_tx :: "externals \<Rightarrow> VtxoTreeSpec \<Rightarrow> OutPoint \<Rightarrow> nat \<Rightarrow> Transaction" where
  "tree_tx X spec utxo i =
     base_tx X spec i
       (if i < tree_size (ts_nb_leaves spec) - 1
        then \<lparr>op_txid = ext_txid X (tree_tx X spec utxo (ts_nb_leaves spec + i div 4)),
              op_vout = word_of_nat (i mod 4)\<rparr>
        else utxo)"
  by pat_completeness auto
termination
proof (relation "measure (\<lambda>(X, spec, utxo, i). tree_size (ts_nb_leaves spec) - i)", goal_cases)
  case (2 X spec utxo i)
  from parent_of_nonroot(1,2) [OF 2] show ?case by (simp only: in_measure case_prod_conv)
qed simp

declare tree_tx.simps [simp del]

lemma output_value_base_tx: "output_value (base_tx X spec i prev) = leaf_sum spec i"
proof (cases "i < ts_nb_leaves spec")
  case True
  then show ?thesis
    by (simp add: output_value_def base_tx_def tree_outputs_def leaf_txout_def leaf_sum_def leaf_list.simps
        policy_txout_def)
next
  case False
  let ?n = "ts_nb_leaves spec"
  have "leaf_list ?n i = concat (map (leaf_list ?n) (child_range ?n i))"
    using False by (subst leaf_list.simps) simp
  then have "leaf_sum spec i = sum_list (map (leaf_sum spec) (child_range ?n i))"
    by (simp add: leaf_sum_def [abs_def] map_concat sum_list_concat_map comp_def)
  then show ?thesis using False
    by (simp add: output_value_def base_tx_def tree_outputs_def node_txout_def comp_def)
qed

lemma base_tx_simps [simp]:
  "tx_output (base_tx X spec i prev) = tree_outputs X spec i"
  "tx_input (base_tx X spec i prev) = [plain_input prev Sequence_ZERO []]"
  "set_prevout (base_tx X spec i prev) point = base_tx X spec i point"
  by (simp_all add: base_tx_def set_prevout_def)

lemma tree_tx_output [simp]: "tx_output (tree_tx X spec utxo i) = tree_outputs X spec i"
  by (subst tree_tx.simps) simp

lemma tree_node_is_leaf:
  assumes "0 < n" "i < tree_size n"
  shows "is_leaf (tree_nodes n ! i) \<longleftrightarrow> i < n"
proof (cases "i < n")
  case True
  then show ?thesis using assms by (simp add: tree_nodes_nth is_leaf_def tree_node_def child_range_leaf list_all_iff)
next
  case False
  then obtain j where i: "i = n + j" and j: "3 * j + 1 < n"
    using assms(2) inner_node by (metis linorder_not_less)
  then have "child_range n i \<noteq> []" using child_range_inner [OF j] by simp
  then have "\<not> list_all (\<lambda>c. c = None) (map Some (child_range n i) @ xs)" for xs
    by (cases "child_range n i") simp_all
  then show ?thesis using False assms by (simp add: tree_nodes_nth is_leaf_def tree_node_def)
qed

lemma tree_node_idx: "0 < n \<Longrightarrow> i < tree_size n \<Longrightarrow> nd_idx (tree_nodes n ! i) = i"
  by (simp add: tree_nodes_nth tree_node_def)

lemma tree_node_children: "0 < n \<Longrightarrow> i < tree_size n \<Longrightarrow> node_children (tree_nodes n ! i) = child_range n i"
  by (simp add: tree_nodes_nth node_children_closed)

lemma tree_node_leaves: "0 < n \<Longrightarrow> i < tree_size n \<Longrightarrow> node_leaves (tree_nodes n ! i) = leaf_list n i"
  by (simp add: tree_nodes_nth node_leaves_closed)

lemma cosign_agg_pks_Ok:
  "0 < ts_nb_leaves spec \<Longrightarrow>
   cosign_agg_pks X spec = Ok (map (node_pk X spec) [0..<tree_size (ts_nb_leaves spec)])"
  by (simp add: cosign_agg_pks_def Tree_new_Ok node_pk_def list_eq_iff_nth_eq length_tree_nodes)

lemma build_txs_run:
  assumes n: "0 < ts_nb_leaves spec" and ok: "ts_locktimes_ok spec"
  defines "N \<equiv> tree_size (ts_nb_leaves spec)"
  shows "k \<le> N \<Longrightarrow>
    (build_txs X spec (map (node_pk X spec) [0..<N]) (drop k (tree_nodes (ts_nb_leaves spec)))
       (map (\<lambda>i. base_tx X spec i null_outpoint) [0..<k]) :: ('e, Transaction list) outcome)
    = Ok (map (\<lambda>i. base_tx X spec i null_outpoint) [0..<N])"
proof (induction "N - k" arbitrary: k)
  case 0
  then show ?case using n by (simp add: N_def length_tree_nodes)
next
  case (Suc d)
  let ?n = "ts_nb_leaves spec"
  let ?node = "tree_nodes ?n ! k"
  from Suc have k: "k < N" by simp
  then have d: "drop k (tree_nodes ?n) = ?node # drop (Suc k) (tree_nodes ?n)"
    using n by (simp add: N_def length_tree_nodes Cons_nth_drop_Suc)
  have next_k: "(build_txs X spec (map (node_pk X spec) [0..<N]) (drop (Suc k) (tree_nodes ?n))
       (map (\<lambda>i. base_tx X spec i null_outpoint) [0..<k] @ [base_tx X spec k null_outpoint])
         :: ('e, Transaction list) outcome)
     = Ok (map (\<lambda>i. base_tx X spec i null_outpoint) [0..<N])"
    using Suc.hyps(1) [of "Suc k"] Suc.hyps(2) k by simp
  show ?case
  proof (cases "k < ?n")
    case True
    then have "leaf_tx X spec (sr_vtxo (ts_vtxos spec ! k)) = base_tx X spec k null_outpoint"
      by (simp add: leaf_tx_def create_exit_tx_def base_tx_def tree_outputs_def leaf_txout_def
          leaf_amount_def policy_txout_def)
    moreover have "policy_locktime_ok (vr_policy (sr_vtxo (ts_vtxos spec ! k))) (ts_expiry_height spec)"
      using ok True by (simp add: ts_locktimes_ok_def list_all_length ts_nb_leaves_def)
    ultimately show ?thesis
      using next_k True n k unfolding d
      by (simp add: tree_node_is_leaf tree_node_idx N_def Let_def)
  next
    case False
    have "map (\<lambda>i. base_tx X spec i null_outpoint) [0..<k] ! c = base_tx X spec c null_outpoint"
      "map (node_pk X spec) [0..<N] ! c = node_pk X spec c" if "c \<in> set (child_range ?n k)" for c
      using child_range_less [OF that] k by simp_all
    then have "map (\<lambda>c. (map (\<lambda>i. base_tx X spec i null_outpoint) [0..<k] ! c,
          map (node_pk X spec) [0..<N] ! c)) (child_range ?n k)
        = map (\<lambda>c. (base_tx X spec c null_outpoint, node_pk X spec c)) (child_range ?n k)"
      by (intro map_cong refl) simp
    then have "node_tx X spec (map (\<lambda>c. (map (\<lambda>i. base_tx X spec i null_outpoint) [0..<k] ! c,
          map (node_pk X spec) [0..<N] ! c)) (child_range ?n k)) = base_tx X spec k null_outpoint"
      using False
      by (simp only: node_tx_def map_map comp_def case_prod_conv output_value_base_tx node_txout_def [symmetric]
          base_tx_def [of X spec k] tree_outputs_def if_False append.simps)
    moreover have "locktime_ok (ts_expiry_height spec)" using ok by (simp add: ts_locktimes_ok_def)
    ultimately show ?thesis
      using next_k False n k unfolding d
      by (simp add: tree_node_is_leaf tree_node_children N_def)
  qed
qed

lemma link_children_run:
  "a \<le> b \<Longrightarrow> b \<le> length txs \<Longrightarrow>
   link_children txid i [a..<b] txs =
     map (\<lambda>j. if a \<le> j \<and> j < b
               then set_prevout (txs ! j) \<lparr>op_txid = txid, op_vout = word_of_nat (i + (j - a))\<rparr>
               else txs ! j) [0..<length txs]"
proof (induction "b - a" arbitrary: a i txs)
  case 0
  then have "(a \<le> j \<and> j < b) = False" "[a..<b] = []" for j by auto
  then show ?case by (simp only: if_False link_children.simps map_nth)
next
  case (Suc d)
  then have u: "[a..<b] = a # [Suc a..<b]" by (simp add: upt_conv_Cons)
  let ?txs = "txs[a := set_prevout (txs ! a) \<lparr>op_txid = txid, op_vout = word_of_nat i\<rparr>]"
  have "link_children txid i [a..<b] txs = link_children txid (i + 1) [Suc a..<b] ?txs"
    by (simp add: u)
  also have "\<dots> = map (\<lambda>j. if Suc a \<le> j \<and> j < b
       then set_prevout (?txs ! j) \<lparr>op_txid = txid, op_vout = word_of_nat (i + 1 + (j - Suc a))\<rparr>
       else ?txs ! j) [0..<length ?txs]"
    using Suc by (intro Suc.hyps(1)) simp_all
  also have "\<dots> = map (\<lambda>j. if a \<le> j \<and> j < b
               then set_prevout (txs ! j) \<lparr>op_txid = txid, op_vout = word_of_nat (i + (j - a))\<rparr>
               else txs ! j) [0..<length txs]"
    using Suc.hyps(2) Suc.prems
    by (intro nth_equalityI) (auto simp: nth_list_update le_less Suc_le_eq Suc_diff_Suc algebra_simps)
  finally show ?case .
qed

text \<open>The transactions when the nodes from \<open>k\<close> on have set the outpoints of their children.\<close>

definition linked_txs :: "externals \<Rightarrow> VtxoTreeSpec \<Rightarrow> OutPoint \<Rightarrow> nat \<Rightarrow> Transaction list" where
  "linked_txs X spec utxo k =
     map (\<lambda>i. if k \<le> (if i < tree_size (ts_nb_leaves spec) - 1 then ts_nb_leaves spec + i div 4
                       else tree_size (ts_nb_leaves spec))
               then tree_tx X spec utxo i else base_tx X spec i null_outpoint)
       [0..<tree_size (ts_nb_leaves spec)]"

lemma tree_tx_relink:
  "i < tree_size (ts_nb_leaves spec) - 1 \<Longrightarrow>
   base_tx X spec i \<lparr>op_txid = ext_txid X (tree_tx X spec utxo (ts_nb_leaves spec + i div 4)),
              op_vout = word_of_nat (i mod 4)\<rparr> = tree_tx X spec utxo i"
  by (subst (2) tree_tx.simps) simp

lemma tree_tx_root:
  "tree_tx X spec utxo (tree_size (ts_nb_leaves spec) - Suc 0) =
   base_tx X spec (tree_size (ts_nb_leaves spec) - Suc 0) utxo"
  by (subst tree_tx.simps) simp

lemma linked_txs_step:
  assumes n: "0 < ts_nb_leaves spec" and k: "k < tree_size (ts_nb_leaves spec)"
  shows "link_children (ext_txid X (linked_txs X spec utxo (Suc k) ! k)) 0
           (child_range (ts_nb_leaves spec) k) (linked_txs X spec utxo (Suc k))
       = linked_txs X spec utxo k"
proof (cases "k < ts_nb_leaves spec")
  case True
  then show ?thesis using k by (simp add: child_range_leaf linked_txs_def cong: if_cong)
next
  case False
  let ?n = "ts_nb_leaves spec" and ?N = "tree_size (ts_nb_leaves spec)"
  obtain q where q: "k = ?n + q" "3 * q + 1 < ?n"
    using False k inner_node by (metis linorder_not_less)
  let ?m = "min (4 * q + 4) (?n + q)"
  note range = child_range_inner [OF q(2)]
  have final: "linked_txs X spec utxo (Suc k) ! k = tree_tx X spec utxo k"
    using k parent_of_nonroot(1) [of k ?n] by (simp add: linked_txs_def Suc_le_eq)
  have child: "i < ?N - 1 \<and> i div 4 = q \<and> i - 4 * q = i mod 4" if "4 * q \<le> i" "i < ?m" for i
  proof -
    have "i div 4 = q" using that by (intro div_nat_eqI) simp_all
    then show ?thesis using that k q(1) by (auto simp: minus_div_mult_eq_mod [symmetric])
  qed
  have other: "4 * q \<le> i \<and> i < ?m" if "i < ?N - 1" "i div 4 = q" for i
    using parent_of_nonroot(3) [OF that(1)] that(2) range q(1) by auto
  have run: "link_children (ext_txid X (tree_tx X spec utxo k)) 0 [4 * q..<?m] (linked_txs X spec utxo (Suc k))
      = map (\<lambda>j. if 4 * q \<le> j \<and> j < ?m
               then set_prevout (linked_txs X spec utxo (Suc k) ! j)
                  \<lparr>op_txid = ext_txid X (tree_tx X spec utxo k), op_vout = word_of_nat (0 + (j - 4 * q))\<rparr>
               else linked_txs X spec utxo (Suc k) ! j) [0..<length (linked_txs X spec utxo (Suc k))]"
    using range k q(1) by (intro link_children_run) (simp_all add: linked_txs_def)
  also have "\<dots> = linked_txs X spec utxo k"
  proof (rule nth_equalityI)
    fix i
    assume "i < length (map (\<lambda>j. if 4 * q \<le> j \<and> j < ?m
               then set_prevout (linked_txs X spec utxo (Suc k) ! j)
                  \<lparr>op_txid = ext_txid X (tree_tx X spec utxo k), op_vout = word_of_nat (0 + (j - 4 * q))\<rparr>
               else linked_txs X spec utxo (Suc k) ! j) [0..<length (linked_txs X spec utxo (Suc k))])"
    then have i: "i < ?N" by (simp add: linked_txs_def)
    show "map (\<lambda>j. if 4 * q \<le> j \<and> j < ?m
               then set_prevout (linked_txs X spec utxo (Suc k) ! j)
                  \<lparr>op_txid = ext_txid X (tree_tx X spec utxo k), op_vout = word_of_nat (0 + (j - 4 * q))\<rparr>
               else linked_txs X spec utxo (Suc k) ! j) [0..<length (linked_txs X spec utxo (Suc k))] ! i
        = linked_txs X spec utxo k ! i"
    proof (cases "4 * q \<le> i \<and> i < ?m")
      case True
      then have c: "i < ?N - 1" "i div 4 = q" "i - 4 * q = i mod 4" using child by blast+
      then show ?thesis using True i tree_tx_relink [OF c(1), of X utxo] q(1)
        by (simp add: linked_txs_def)
    next
      case False
      then have "i < ?N - 1 \<Longrightarrow> i div 4 \<noteq> q" using other by blast
      then show ?thesis using False i k q(1) by (auto simp: linked_txs_def)
    qed
  qed (simp add: linked_txs_def)
  finally show ?thesis using range final q(1) by simp
qed

lemma set_prevouts_run:
  assumes n: "0 < ts_nb_leaves spec"
  shows "k \<le> tree_size (ts_nb_leaves spec) \<Longrightarrow>
     set_prevouts X (rev (take k (tree_nodes (ts_nb_leaves spec)))) (linked_txs X spec utxo k)
     = linked_txs X spec utxo 0"
proof (induction k)
  case (Suc k)
  then have "take (Suc k) (tree_nodes (ts_nb_leaves spec))
      = take k (tree_nodes (ts_nb_leaves spec)) @ [tree_nodes (ts_nb_leaves spec) ! k]"
    using n by (simp add: take_Suc_conv_app_nth length_tree_nodes)
  with Suc n show ?case
    by (simp add: tree_node_idx tree_node_children linked_txs_step)
qed simp

lemma unsigned_transactions_run:
  assumes n: "0 < ts_nb_leaves spec" and ok: "ts_locktimes_ok spec"
  shows "(unsigned_transactions X spec utxo :: ('e, Transaction list) outcome) =
     Ok (map (tree_tx X spec utxo) [0..<tree_size (ts_nb_leaves spec)])"
proof -
  let ?n = "ts_nb_leaves spec" and ?N = "tree_size (ts_nb_leaves spec)"
  let ?base = "map (\<lambda>i. base_tx X spec i null_outpoint) [0..<?N]"
  have N: "0 < ?N" "?n \<le> ?N" using n by (simp_all add: tree_size_def)
  have built: "(build_txs X spec (map (node_pk X spec) [0..<?N]) (tree_nodes ?n) []
      :: ('e, Transaction list) outcome) = Ok ?base"
    using build_txs_run [OF n ok, of 0 X, where 'e = 'e] by simp
  have "?base[?N - 1 := set_prevout (last ?base) utxo] = linked_txs X spec utxo ?N"
  proof (rule nth_equalityI)
    fix i
    assume "i < length (?base[?N - 1 := set_prevout (last ?base) utxo])"
    then have i: "i < ?N" by simp
    show "?base[?N - 1 := set_prevout (last ?base) utxo] ! i = linked_txs X spec utxo ?N ! i"
      using i N parent_of_nonroot(2) [of i ?n]
      by (cases "i = ?N - 1")
        (auto simp: linked_txs_def last_map nth_list_update tree_tx_root)
  qed (simp add: linked_txs_def)
  then show ?thesis
    using built n set_prevouts_run [OF n, of ?N X utxo]
    by (simp add: unsigned_transactions_def Tree_new_Ok cosign_agg_pks_Ok length_tree_nodes)
      (simp add: linked_txs_def)
qed

section \<open>The output that each node spends\<close>

lemma root_bounds: "0 < n \<Longrightarrow> tree_size n - 1 < tree_size n"
  by (simp add: tree_size_def)

lemma mset_root_leaves: "0 < n \<Longrightarrow> mset (leaf_list n (tree_size n - 1)) = mset [0..<n]"
proof -
  assume n: "0 < n"
  then obtain m where m: "n = Suc m" by (cases n) auto
  have "set (leaf_list n (tree_size n - 1)) = {0..<n}"
    using ark_tree.root_leaves [of m] tree_node_leaves [OF n root_bounds [OF n]] by (simp add: m)
  then show ?thesis
    using distinct_leaf_list [OF root_bounds [OF n]] set_eq_iff_mset_eq_distinct [of _ "[0..<n]"] by simp
qed

lemma map_filter_mset:
  "mset xs = mset ys \<Longrightarrow> mset (List.map_filter f xs) = mset (List.map_filter f ys)"
proof -
  have "mset (List.map_filter f zs) = image_mset (\<lambda>x. the (f x)) (filter_mset (\<lambda>x. f x \<noteq> None) (mset zs))" for zs
    by (simp add: List.map_filter_def comp_def)
  then show "mset xs = mset ys \<Longrightarrow> ?thesis" by simp
qed

text \<open>The funding output is the output that the root node spends.\<close>

lemma funding_is_root:
  assumes n: "0 < ts_nb_leaves spec"
  shows "funding_tx_txout X spec = node_txout X spec (tree_size (ts_nb_leaves spec) - 1)"
proof -
  let ?n = "ts_nb_leaves spec"
  let ?leaves = "leaf_list ?n (tree_size ?n - 1)"
  note perm = mset_root_leaves [OF n]
  have vtxos: "map (\<lambda>i. ts_vtxos spec ! i) [0..<?n] = ts_vtxos spec"
    by (simp add: ts_nb_leaves_def map_nth)
  have "sum_list (map (leaf_amount spec) ?leaves) = sum_list (map (leaf_amount spec) [0..<?n])"
    using perm by (metis mset_map sum_mset_sum_list)
  also have "map (leaf_amount spec) [0..<?n] = map (\<lambda>d. vr_amount (sr_vtxo d)) (map (\<lambda>i. ts_vtxos spec ! i) [0..<?n])"
    by (simp add: leaf_amount_def [abs_def])
  finally have total: "leaf_sum spec (tree_size ?n - 1) = total_required_value spec"
    by (simp only: leaf_sum_def total_required_value_def vtxos)
  have "List.map_filter (\<lambda>i. sr_cosign_pubkey (ts_vtxos spec ! i)) [0..<?n]
      = List.map_filter sr_cosign_pubkey (map (\<lambda>i. ts_vtxos spec ! i) [0..<?n])"
    by (simp add: List.map_filter_def filter_map comp_def)
  then have "mset (List.map_filter (\<lambda>i. sr_cosign_pubkey (ts_vtxos spec ! i)) ?leaves)
      = mset (List.map_filter sr_cosign_pubkey (ts_vtxos spec))"
    using map_filter_mset [OF perm] by (metis vtxos)
  then have "node_pk X spec (tree_size ?n - 1) = funding_tx_cosign_pubkey X spec"
    unfolding node_pk_def funding_tx_cosign_pubkey_def node_cosign_pubkeys_def
      tree_node_leaves [OF n root_bounds [OF n]]
    by (intro combine_keys_perm) simp
  then show ?thesis
    by (simp only: funding_tx_txout_def funding_tx_script_pubkey_def node_txout_def total)
qed

text \<open>An inner node pays to each of its children.\<close>

lemma tree_outputs_child:
  assumes "i < tree_size (ts_nb_leaves spec) - 1"
  shows "nth_opt (tree_outputs X spec (ts_nb_leaves spec + i div 4)) (i mod 4) = Some (node_txout X spec i)"
proof -
  let ?n = "ts_nb_leaves spec" and ?q = "i div 4"
  have "\<not> ?n + ?q < ?n" by simp
  then have outs: "tree_outputs X spec (?n + ?q) =
      map (node_txout X spec) (child_range ?n (?n + ?q)) @ [fee_anchor X]"
    unfolding tree_outputs_def by (rule if_not_P [THEN arg_cong])
  show ?thesis
    unfolding outs nth_opt_def using child_range_nth [OF assms] by (simp add: nth_append)
qed

definition tree_sighash :: "externals \<Rightarrow> VtxoTreeSpec \<Rightarrow> OutPoint \<Rightarrow> nat \<Rightarrow> bytes" where
  "tree_sighash X spec utxo i = ext_key_sighash X (tree_tx X spec utxo i) (node_txout X spec i)"

lemma parent_lookup:
  assumes n: "0 < n" and i: "i < tree_size n"
  shows "parent_idx_of_with_sibling_idx \<lparr>tr_nodes = tree_nodes n, tr_nb_leaves = n\<rparr> i =
     Ok (if i < tree_size n - 1 then Some (n + i div 4, i mod 4) else None)"
proof -
  have p: "parent_idx_of \<lparr>tr_nodes = tree_nodes n, tr_nb_leaves = n\<rparr> i
      = (if i < tree_size n - 1 then Some (n + i div 4) else None)"
    using i n by (simp add: parent_idx_of_def nth_opt_def length_tree_nodes parent_idx_closed)
  show ?thesis
  proof (cases "i < tree_size n - 1")
    case True
    then show ?thesis
      using p sibling_position [OF True] parent_of_nonroot(2) [OF True] n
      by (simp add: parent_idx_of_with_sibling_idx_def tree_nodes_nth) (simp add: tree_node_def)
  next
    case False
    then show ?thesis using p by (simp add: parent_idx_of_with_sibling_idx_def)
  qed
qed

lemma node_sighash_run:
  assumes n: "0 < ts_nb_leaves spec" and i: "i < tree_size (ts_nb_leaves spec)"
  shows "node_sighash X \<lparr>tr_nodes = tree_nodes (ts_nb_leaves spec), tr_nb_leaves = ts_nb_leaves spec\<rparr>
      (map (tree_tx X spec utxo) [0..<tree_size (ts_nb_leaves spec)]) (funding_tx_txout X spec)
      (tree_nodes (ts_nb_leaves spec) ! i)
    = Ok (tree_sighash X spec utxo i)"
proof (cases "i < tree_size (ts_nb_leaves spec) - 1")
  case True
  then show ?thesis
    using n i parent_of_nonroot(2) [OF True] tree_outputs_child [OF True, of X]
    by (simp add: node_sighash_def tree_node_idx parent_lookup is_root_def parent_idx_closed tree_sighash_def)
next
  case False
  then have "i = tree_size (ts_nb_leaves spec) - 1" using i by simp
  then show ?thesis
    using False n i funding_is_root [OF n, of X]
    by (simp add: node_sighash_def tree_node_idx parent_lookup is_root_def parent_idx_closed tree_sighash_def)
qed

lemma UnsignedVtxoTree_new_run:
  assumes n: "0 < ts_nb_leaves spec" and ok: "ts_locktimes_ok spec"
  shows "(UnsignedVtxoTree_new X spec utxo :: ('e, UnsignedVtxoTree) outcome) =
     Ok \<lparr>ut_spec = spec, ut_utxo = utxo,
         ut_cosign_agg_pks = map (node_pk X spec) [0..<tree_size (ts_nb_leaves spec)],
         ut_txs = map (tree_tx X spec utxo) [0..<tree_size (ts_nb_leaves spec)],
         ut_sighashes = map (tree_sighash X spec utxo) [0..<tree_size (ts_nb_leaves spec)],
         ut_tree = \<lparr>tr_nodes = tree_nodes (ts_nb_leaves spec), tr_nb_leaves = ts_nb_leaves spec\<rparr>\<rparr>"
proof -
  let ?n = "ts_nb_leaves spec" and ?N = "tree_size (ts_nb_leaves spec)"
  let ?tree = "\<lparr>tr_nodes = tree_nodes ?n, tr_nb_leaves = ?n\<rparr>"
  have nodes: "tree_nodes ?n = map (\<lambda>i. tree_nodes ?n ! i) [0..<?N]"
    using n by (simp add: list_eq_iff_nth_eq length_tree_nodes)
  have "map (node_sighash X ?tree (map (tree_tx X spec utxo) [0..<?N]) (funding_tx_txout X spec)) (tree_nodes ?n)
      = map (\<lambda>i. Ok (tree_sighash X spec utxo i) :: ('e, bytes) outcome) [0..<?N]"
    by (subst nodes) (simp add: node_sighash_run [OF n] del: map_nth)
  then have "(collect_results (map (node_sighash X ?tree (map (tree_tx X spec utxo) [0..<?N])
      (funding_tx_txout X spec)) (tree_nodes ?n)) :: ('e, bytes list) outcome)
      = Ok (map (tree_sighash X spec utxo) [0..<?N])"
    by (simp only: collect_results_map_Inr)
  moreover have "locktime_ok (ts_expiry_height spec)" using ok by (simp add: ts_locktimes_ok_def)
  ultimately show ?thesis
    using n by (simp add: UnsignedVtxoTree_new_def Tree_new_Ok cosign_agg_pks_Ok unsigned_transactions_run [OF n ok] Let_def)
qed

lemma verify_cosign_loop_Ok:
  "verify_cosign_loop X u signatures nodes = Ok () \<longleftrightarrow>
   list_all (\<lambda>node. nd_idx node < length signatures \<and>
     ext_verify_schnorr X (signatures ! nd_idx node) (ut_sighashes u ! nd_idx node)
       (ext_output_key X (ts_cosign_taproot X (ut_spec u) (ut_cosign_agg_pks u ! nd_idx node)))) nodes"
  by (induction nodes) (auto simp: Let_def nth_opt_def)

lemma verify_cosign_sigs_Ok:
  assumes n: "0 < ts_nb_leaves spec" and ok: "ts_locktimes_ok spec"
    and u: "(UnsignedVtxoTree_new X spec utxo :: ('e, UnsignedVtxoTree) outcome) = Ok u"
  shows "verify_cosign_sigs X u signatures = Ok () \<longleftrightarrow>
     (\<forall>i < tree_size (ts_nb_leaves spec). i < length signatures \<and>
        ext_verify_schnorr X (signatures ! i) (tree_sighash X spec utxo i)
          (ext_output_key X (ts_cosign_taproot X spec (node_pk X spec i))))"
  using UnsignedVtxoTree_new_run [OF n ok, of X utxo, where 'e = 'e] u n
  by (auto simp: verify_cosign_sigs_def verify_cosign_loop_Ok list_all_length length_tree_nodes tree_node_idx)

section \<open>The VTXOs of a signed tree\<close>

text \<open>Node \<open>i\<close>'s transaction with its signature.\<close>

definition signed_tx :: "externals \<Rightarrow> VtxoTreeSpec \<Rightarrow> OutPoint \<Rightarrow> Signature list \<Rightarrow> nat \<Rightarrow> Transaction" where
  "signed_tx X spec utxo sigs i =
     (let tx = tree_tx X spec utxo i
      in tx\<lparr>tx_input := [(tx_input tx ! 0)\<lparr>txin_witness := [sigs ! i]\<rparr>]\<rparr>)"

lemma tree_tx_input:
  obtains prev where "tx_input (tree_tx X spec utxo i) = [plain_input prev Sequence_ZERO []]"
  by (subst (asm) tree_tx.simps) simp

lemma signed_tx_strip: "strip_witness (signed_tx X spec utxo sigs i) = strip_witness (tree_tx X spec utxo i)"
  by (rule tree_tx_input [of X spec utxo i]) (simp add: strip_witness_def signed_tx_def Let_def)

lemma signed_tx_segwit:
  assumes "segwit_laws X"
  shows "ext_txid X (signed_tx X spec utxo sigs i) = ext_txid X (tree_tx X spec utxo i)"
    and "ext_key_sighash X (signed_tx X spec utxo sigs i) prev = ext_key_sighash X (tree_tx X spec utxo i) prev"
  using segwit_lawsD [OF assms signed_tx_strip] by blast+

lemma signed_tx_output [simp]: "tx_output (signed_tx X spec utxo sigs i) = tree_outputs X spec i"
  by (simp add: signed_tx_def Let_def)

lemma push_sigs_run:
  "length txs \<le> length sigs \<Longrightarrow>
   push_sigs txs sigs = map2 (\<lambda>tx sig. tx\<lparr>tx_input := (tx_input tx)[0 := (tx_input tx ! 0)
     \<lparr>txin_witness := txin_witness (tx_input tx ! 0) @ [sig]\<rparr>]\<rparr>) txs sigs"
  by (induction txs sigs rule: push_sigs.induct) auto

lemma signed_transactions_run:
  assumes n: "0 < ts_nb_leaves spec" and ok: "ts_locktimes_ok spec"
    and len: "tree_size (ts_nb_leaves spec) \<le> length sigs"
  shows "(signed_transactions X spec utxo sigs :: ('e, Transaction list) outcome) =
     Ok (map (signed_tx X spec utxo sigs) [0..<tree_size (ts_nb_leaves spec)])"
proof -
  let ?N = "tree_size (ts_nb_leaves spec)"
  let ?push = "\<lambda>tx sig. tx\<lparr>tx_input := (tx_input tx)[0 := (tx_input tx ! 0)
     \<lparr>txin_witness := txin_witness (tx_input tx ! 0) @ [sig]\<rparr>]\<rparr>"
  have one: "?push (tree_tx X spec utxo i) (sigs ! i) = signed_tx X spec utxo sigs i" for i
    by (rule tree_tx_input [of X spec utxo i]) (simp add: signed_tx_def Let_def)
  have "push_sigs (map (tree_tx X spec utxo) [0..<?N]) sigs = map (signed_tx X spec utxo sigs) [0..<?N]"
    using len by (subst push_sigs_run) (auto simp: list_eq_iff_nth_eq one)
  then show ?thesis by (simp add: signed_transactions_def unsigned_transactions_run [OF n ok])
qed

text \<open>The genesis item for a node on the way to its child (or to the leaf's own output).\<close>

definition tree_item ::
  "externals \<Rightarrow> VtxoTreeSpec \<Rightarrow> Signature list \<Rightarrow> nat option \<Rightarrow> nat \<Rightarrow> GenesisItem" where
  "tree_item X spec sigs below i =
     (let idx = (case below of None \<Rightarrow> 0 | Some c \<Rightarrow> c mod 4)
      in \<lparr>gi_transition = Cosigned (node_cosign_pubkeys spec (tree_nodes (ts_nb_leaves spec) ! i)) (sigs ! i),
          gi_output_idx = word_of_nat idx,
          gi_other_outputs = drop_nth idx (butlast (tree_outputs X spec i))\<rparr>)"

text \<open>From the root down, with the node below the last one.\<close>

fun path_items ::
  "externals \<Rightarrow> VtxoTreeSpec \<Rightarrow> Signature list \<Rightarrow> nat option \<Rightarrow> nat list \<Rightarrow> GenesisItem list" where
  "path_items X spec sigs below [] = []"
| "path_items X spec sigs below (i # is) =
     tree_item X spec sigs (case is of [] \<Rightarrow> below | c # _ \<Rightarrow> Some c) i # path_items X spec sigs below is"

lemma path_items_snoc:
  "path_items X spec sigs below (is @ [i]) =
   path_items X spec sigs (Some i) is @ [tree_item X spec sigs below i]"
  by (induction "is") (auto split: list.splits)

text \<open>A path goes from each node to one of its children.\<close>

fun tree_path :: "nat \<Rightarrow> nat list \<Rightarrow> bool" where
  "tree_path n (i # c # is) \<longleftrightarrow> i < tree_size n \<and> c < tree_size n - 1 \<and> n + c div 4 = i \<and> tree_path n (c # is)"
| "tree_path n [i] \<longleftrightarrow> i < tree_size n"
| "tree_path n [] \<longleftrightarrow> True"

lemma tree_outputs_not_anchor:
  assumes "p2tr_laws X" "o' \<in> set (butlast (tree_outputs X spec i))"
  shows "\<not> is_p2a_fee_anchor X o'" "\<exists>t. txo_script o' = taproot_script_pubkey X t"
proof -
  show ex: "\<exists>t. txo_script o' = taproot_script_pubkey X t"
    using assms(2)
    by (auto simp: tree_outputs_def leaf_txout_def node_txout_def policy_txout_def policy_script_pubkey_def
        split: if_splits)
  then show "\<not> is_p2a_fee_anchor X o'" using p2tr_not_anchor [OF assms(1)] by blast
qed

lemma filter_enumerate_drop_nth:
  "list_all (\<lambda>o'. \<not> P o') xs \<Longrightarrow>
   map snd (filter (\<lambda>(i, o'). \<not> P o' \<and> i \<noteq> k + idx) (enumerate k xs)) = drop_nth idx xs"
proof (induction idx xs arbitrary: k rule: drop_nth.induct)
  case (2 x xs)
  have "map snd (filter (\<lambda>(i, o'). \<not> P o' \<and> i \<noteq> k) (enumerate (Suc k) xs)) = xs"
  proof -
    have "list_all (\<lambda>o'. \<not> P o') xs" using 2 by simp
    then have "filter (\<lambda>(i, o'). \<not> P o' \<and> i \<noteq> k) (enumerate (Suc k) xs) = enumerate (Suc k) xs"
      by (auto simp: filter_id_conv in_set_enumerate_eq list_all_length)
    then show ?thesis by simp
  qed
  then show ?case by simp
next
  case (3 idx x xs)
  from "3.IH" [of "Suc k"] "3.prems" show ?case by (simp add: add.commute add.left_commute)
qed simp

lemma other_outputs_of_signed:
  assumes "p2tr_laws X"
  shows "other_outputs_of X (signed_tx X spec utxo sigs i) idx = drop_nth idx (butlast (tree_outputs X spec i))"
proof -
  let ?outs = "butlast (tree_outputs X spec i)"
  have outs: "tree_outputs X spec i = ?outs @ [fee_anchor X]" by (simp add: tree_outputs_def)
  have "list_all (\<lambda>o'. \<not> is_p2a_fee_anchor X o') ?outs"
    using tree_outputs_not_anchor(1) [OF assms] by (simp add: list_all_iff)
  from filter_enumerate_drop_nth [OF this, of 0 idx] show ?thesis
    unfolding other_outputs_of_def signed_tx_output
    by (subst outs) (simp add: enumerate_append_eq)
qed

subsection \<open>The genesis along a branch\<close>

text \<open>The branch as the iterator yields it, from a node up to the root.\<close>

fun up_path :: "nat \<Rightarrow> nat option \<Rightarrow> nat list \<Rightarrow> bool" where
  "up_path n below [] \<longleftrightarrow> True"
| "up_path n below (i # is) \<longleftrightarrow>
     i < tree_size n \<and> (\<forall>c. below = Some c \<longrightarrow> c < tree_size n - 1 \<and> n + c div 4 = i) \<and> up_path n (Some i) is"

fun up_items ::
  "externals \<Rightarrow> VtxoTreeSpec \<Rightarrow> Signature list \<Rightarrow> nat option \<Rightarrow> nat list \<Rightarrow> GenesisItem list" where
  "up_items X spec sigs below [] = []"
| "up_items X spec sigs below (i # is) = tree_item X spec sigs below i # up_items X spec sigs (Some i) is"

lemma rev_up_items: "rev (up_items X spec sigs below ks) = path_items X spec sigs below (rev ks)"
  by (induction ks arbitrary: below) (simp_all add: path_items_snoc)

lemma up_path_rev:
  "up_path n (Some c) ks \<Longrightarrow> tree_path n (c # p) \<Longrightarrow> tree_path n (rev ks @ c # p)"
proof (induction ks arbitrary: c p)
  case (Cons i ks)
  from Cons.IH [of i "c # p"] Cons.prems show ?case by simp
qed simp

definition cached_tree :: "externals \<Rightarrow> VtxoTreeSpec \<Rightarrow> OutPoint \<Rightarrow> Signature list \<Rightarrow> CachedSignedVtxoTree" where
  "cached_tree X spec utxo sigs =
     \<lparr>ct_spec = \<lparr>st_spec = spec, st_utxo = utxo, st_cosign_sigs = sigs\<rparr>,
      ct_txs = map (signed_tx X spec utxo sigs) [0..<tree_size (ts_nb_leaves spec)]\<rparr>"

lemma unat_mod4 [simp]:
  "unat (word_of_nat (c mod 4) :: byte) = c mod 4"
  "ucast (word_of_nat (c mod 4) :: byte) = (word_of_nat (c mod 4) :: u32)"
proof -
  show u: "unat (word_of_nat (c mod 4) :: byte) = c mod 4"
    using mod_less_divisor [of 4 c] by (intro unat_of_nat_small(1)) simp
  show "ucast (word_of_nat (c mod 4) :: byte) = (word_of_nat (c mod 4) :: u32)"
    using word_of_nat_unat_byte [of "word_of_nat (c mod 4)"] by (simp only: u)
qed

lemma branch_genesis_run:
  assumes n: "0 < ts_nb_leaves spec" and laws: "p2tr_laws X"
    and len: "tree_size (ts_nb_leaves spec) \<le> length sigs"
  shows "up_path (ts_nb_leaves spec) below ks \<Longrightarrow>
    (branch_genesis X (cached_tree X spec utxo sigs) below (map (\<lambda>k. tree_nodes (ts_nb_leaves spec) ! k) ks)
       :: ('e, GenesisItem list) outcome)
    = Ok (up_items X spec sigs below ks)"
proof (induction ks arbitrary: below)
  case (Cons i ks)
  then have i: "i < tree_size (ts_nb_leaves spec)" "i < length sigs" using len by simp_all
  have "(branch_genesis X (cached_tree X spec utxo sigs) (Some i) (map (\<lambda>k. tree_nodes (ts_nb_leaves spec) ! k) ks)
       :: ('e, GenesisItem list) outcome) = Ok (up_items X spec sigs (Some i) ks)"
    using Cons by simp
  moreover have "position_of c (node_children (tree_nodes (ts_nb_leaves spec) ! i)) = Some (c mod 4)"
    if "below = Some c" for c
    using Cons.prems that position_of_child [of c "ts_nb_leaves spec"] n by (auto simp: tree_node_children)
  ultimately show ?case
    using i n
    by (cases below)
      (simp_all add: cached_tree_def tree_node_idx nth_opt_def Let_def tree_item_def
        other_outputs_of_signed [OF laws])
qed simp

subsection \<open>The exit transactions of a leaf\<close>

lemma tree_outputs_init: "tree_outputs X spec i = butlast (tree_outputs X spec i) @ [fee_anchor X]"
  by (simp add: tree_outputs_def)

lemma tree_outputs_value: "sum_list (map txo_value (butlast (tree_outputs X spec i))) = leaf_sum spec i"
proof -
  have "output_value (base_tx X spec i null_outpoint)
      = sum_list (map txo_value (butlast (tree_outputs X spec i) @ [fee_anchor X]))"
    by (simp only: output_value_def base_tx_simps tree_outputs_init [symmetric])
  then show ?thesis by (simp add: output_value_base_tx)
qed

text \<open>The output of a node's transaction that a path follows, and what leaves it there.\<close>

lemma tree_item_child:
  assumes "c < tree_size (ts_nb_leaves spec) - 1" "i = ts_nb_leaves spec + c div 4"
  shows "c mod 4 < length (butlast (tree_outputs X spec i))"
    and "butlast (tree_outputs X spec i) ! (c mod 4) = node_txout X spec c"
    and "leaf_sum spec c + other_value (tree_item X spec sigs (Some c) i) = leaf_sum spec i"
proof -
  have "nth_opt (tree_outputs X spec i) (c mod 4) = Some (node_txout X spec c)"
    using tree_outputs_child [OF assms(1)] by (simp add: assms(2))
  moreover show l: "c mod 4 < length (butlast (tree_outputs X spec i))"
    using child_range_nth(1) [OF assms(1)] by (simp add: assms(2) tree_outputs_def)
  ultimately show nth: "butlast (tree_outputs X spec i) ! (c mod 4) = node_txout X spec c"
    by (simp add: nth_opt_eq_Some nth_butlast)
  have "txo_value (node_txout X spec c) + sum_list (drop_nth (c mod 4) (map txo_value (butlast (tree_outputs X spec i))))
      = leaf_sum spec i"
    using sum_list_drop_nth [of "c mod 4" "map txo_value (butlast (tree_outputs X spec i))"] l nth
    by (simp add: tree_outputs_value)
  then show "leaf_sum spec c + other_value (tree_item X spec sigs (Some c) i) = leaf_sum spec i"
    by (simp add: other_value_def tree_item_def Let_def map_drop_nth node_txout_def)
qed

lemma tree_item_leaf:
  assumes "l < ts_nb_leaves spec"
  shows "butlast (tree_outputs X spec l) = [leaf_txout X spec l]"
    and "other_value (tree_item X spec sigs None l) = 0"
    and "leaf_sum spec l = leaf_amount spec l"
  using assms
  by (simp_all add: tree_outputs_def tree_item_def other_value_def leaf_sum_def leaf_list.simps)

lemma tree_item_tx:
  assumes "tree_tx X spec utxo i = base_tx X spec i prev"
    and idx: "idx = (case below of None \<Rightarrow> 0 | Some c \<Rightarrow> c mod 4)"
    and "idx < length (butlast (tree_outputs X spec i))"
  shows "item_tx X (tree_item X spec sigs below i) prev (butlast (tree_outputs X spec i) ! idx) s h
       = signed_tx X spec utxo sigs i"
proof -
  have u: "unat (word_of_nat idx :: byte) = idx" using idx by (cases below) simp_all
  have "take idx (drop_nth idx (butlast (tree_outputs X spec i))) @ [butlast (tree_outputs X spec i) ! idx]
      @ drop idx (drop_nth idx (butlast (tree_outputs X spec i))) @ [fee_anchor X] = tree_outputs X spec i"
    using take_drop_nth [OF assms(3)] tree_outputs_init [of X spec i] by (metis append_assoc)
  then show ?thesis
    using assms(1) unfolding tree_item_def idx [symmetric] Let_def item_tx_def
    by (simp add: u signed_tx_def base_tx_def)
qed

text \<open>The VTXO of leaf \<open>l\<close> and a path that ends there.\<close>

definition vtxo_of_leaf :: "VtxoTreeSpec \<Rightarrow> nat \<Rightarrow> Vtxo \<Rightarrow> bool" where
  "vtxo_of_leaf spec l v \<longleftrightarrow>
     v_policy v = vr_policy (sr_vtxo (ts_vtxos spec ! l)) \<and> v_amount v = leaf_amount spec l \<and>
     v_expiry_height v = ts_expiry_height spec \<and> v_server_pubkey v = ts_server_pubkey spec \<and>
     v_exit_delta v = ts_exit_delta spec"

lemma next_output_child:
  assumes "vtxo_of_leaf spec l v"
  shows "next_output X v (Some (tree_item X spec sigs below c)) (leaf_sum spec c) = node_txout X spec c"
  using assms
  by (simp add: next_output_def input_txout_def tree_item_def node_txout_def vtxo_of_leaf_def node_pk_def
      ts_cosign_taproot_def Let_def)

lemma exit_chain_path:
  assumes laws: "segwit_laws X" and v: "vtxo_of_leaf spec l v" and l: "l < ts_nb_leaves spec"
  shows "tree_path (ts_nb_leaves spec) p \<Longrightarrow> p \<noteq> [] \<Longrightarrow> last p = l \<Longrightarrow>
    tree_tx X spec utxo (hd p) = base_tx X spec (hd p) prev \<Longrightarrow>
    exit_chain X v (leaf_sum spec (hd p)) prev (path_items X spec sigs None p)
    = map (signed_tx X spec utxo sigs) p"
proof (induction "ts_nb_leaves spec" p arbitrary: prev rule: tree_path.induct)
  case (1 i c "is")
  let ?n = "ts_nb_leaves spec"
  from 1 have c: "c < tree_size ?n - 1" "i = ?n + c div 4" by simp_all
  note child = tree_item_child [OF c]
  let ?item = "tree_item X spec sigs (Some c) i"
  have rest: "leaf_sum spec i - other_value ?item = leaf_sum spec c" using child(3) [of X sigs] by simp
  have tx: "item_tx X ?item prev (node_txout X spec c) (v_server_pubkey v) (v_expiry_height v)
      = signed_tx X spec utxo sigs i"
    using tree_item_tx [of X spec utxo i prev "c mod 4" "Some c"] "1.prems"(4) child(1,2) [of X] by simp
  have prev: "tree_tx X spec utxo c = base_tx X spec c
      \<lparr>op_txid = ext_txid X (signed_tx X spec utxo sigs i), op_vout = ucast (gi_output_idx ?item)\<rparr>"
    using tree_tx_relink [OF c(1), of X utxo] c(2)
    by (simp add: signed_tx_segwit(1) [OF laws] tree_item_def Let_def)
  define items where "items = path_items X spec sigs None (c # is)"
  have p: "path_items X spec sigs None (i # c # is) = ?item # items" by (simp add: items_def)
  obtain below where pk: "peek items = Some (tree_item X spec sigs below c)" by (simp add: items_def)
  have "exit_chain X v (leaf_sum spec (hd (c # is)))
      \<lparr>op_txid = ext_txid X (signed_tx X spec utxo sigs i), op_vout = ucast (gi_output_idx ?item)\<rparr>
      items = map (signed_tx X spec utxo sigs) (c # is)"
    unfolding items_def by (rule "1.hyps"(1)) (use "1.prems" prev in simp_all)
  then show ?case
    unfolding p using rest tx by (simp add: Let_def pk next_output_child [OF v])
next
  case (2 i)
  then have i: "i = l" by simp
  have "next_output X v None a = leaf_txout X spec l" for a
    using v by (simp add: next_output_def leaf_txout_def vtxo_of_leaf_def)
  then show ?case
    using tree_item_leaf [OF l] tree_item_tx [of X spec utxo l prev 0 None sigs] 2 i
    by (simp add: Let_def)
qed simp

lemma chain_signed_path:
  assumes laws: "segwit_laws X" and v: "vtxo_of_leaf spec l v"
    and verified: "\<And>i. i < tree_size (ts_nb_leaves spec) \<Longrightarrow>
        ext_verify_schnorr X (sigs ! i) (tree_sighash X spec utxo i)
          (ext_output_key X (ts_cosign_taproot X spec (node_pk X spec i)))"
  shows "tree_path (ts_nb_leaves spec) p \<Longrightarrow> p \<noteq> [] \<Longrightarrow>
    nth_opt (tx_output prev_tx) prev_vout = Some (node_txout X spec (hd p)) \<Longrightarrow>
    chain_signed X v prev_tx prev_vout (path_items X spec sigs None p) (map (signed_tx X spec utxo sigs) p)"
proof (induction "ts_nb_leaves spec" p arbitrary: prev_tx prev_vout rule: tree_path.induct)
  case (1 i c "is")
  let ?n = "ts_nb_leaves spec"
  from 1 have c: "c < tree_size ?n - 1" "i = ?n + c div 4" "i < tree_size ?n" by simp_all
  have "chain_signed X v (signed_tx X spec utxo sigs i) (c mod 4) (path_items X spec sigs None (c # is))
      (map (signed_tx X spec utxo sigs) (c # is))"
    using 1 tree_outputs_child [OF c(1), of X] c(2) by (intro "1.hyps"(1)) simp_all
  moreover have "transition_signed X v prev_tx prev_vout
      (gi_transition (tree_item X spec sigs (Some c) i)) (signed_tx X spec utxo sigs i)"
    using verified [OF c(3)] "1.prems"(3) v
    by (simp add: transition_signed_def tree_item_def Let_def vtxo_of_leaf_def tree_sighash_def
        signed_tx_segwit(2) [OF laws] node_pk_def ts_cosign_taproot_def)
  ultimately show ?case by (simp add: tree_item_def Let_def)
next
  case (2 i)
  then show ?case
    using verified [of i] v
    by (simp add: transition_signed_def tree_item_def Let_def vtxo_of_leaf_def tree_sighash_def
        signed_tx_segwit(2) [OF laws] node_pk_def ts_cosign_taproot_def)
qed simp

lemma path_value:
  "tree_path (ts_nb_leaves spec) p \<Longrightarrow> p \<noteq> [] \<Longrightarrow> last p < ts_nb_leaves spec \<Longrightarrow>
   leaf_amount spec (last p) + sum_list (map other_value (path_items X spec sigs None p)) = leaf_sum spec (hd p)"
proof (induction "ts_nb_leaves spec" p rule: tree_path.induct)
  case (1 i c "is")
  then show ?case using tree_item_child(3) [where c = c and spec = spec and i = i and X = X and sigs = sigs] by simp
next
  case (2 i)
  then show ?case using tree_item_leaf(2) [of i spec X sigs] tree_item_leaf(3) [of i spec] by simp
qed simp

text \<open>Everything that leaves a path is a taproot output of at least the smallest leaf.\<close>

lemma leaf_sum_dust:
  assumes "\<And>i. i < ts_nb_leaves spec \<Longrightarrow> d \<le> leaf_amount spec i" "c < tree_size (ts_nb_leaves spec)"
  shows "d \<le> leaf_sum spec c"
proof -
  let ?n = "ts_nb_leaves spec"
  have ne: "leaf_list ?n c \<noteq> []"
    using leaf_count_bounds [OF assms(2)] leaf_list_interval [OF assms(2)] by simp
  then obtain x xs where x: "leaf_list ?n c = x # xs" by (cases "leaf_list ?n c") auto
  have "x \<in> set (leaf_list ?n c)" by (simp add: x)
  then have "x < ?n" using leaf_list_interval [OF assms(2)] leaf_count_bounds [OF assms(2)] by auto
  then show ?thesis using assms(1) [of x] by (simp add: leaf_sum_def x)
qed

lemma path_standard:
  assumes laws: "p2tr_laws X"
    and dust: "\<And>i. i < ts_nb_leaves spec \<Longrightarrow> P2TR_DUST \<le> leaf_amount spec i"
  shows "tree_path (ts_nb_leaves spec) p \<Longrightarrow> outputs_standard X (path_items X spec sigs None p)"
proof -
  have out: "is_standard X o'" if "o' \<in> set (butlast (tree_outputs X spec i))" "i < tree_size (ts_nb_leaves spec)" for o' i
  proof -
    have "P2TR_DUST \<le> txo_value o'"
      using that dust leaf_sum_dust [OF dust]
      by (auto simp: tree_outputs_def leaf_txout_def policy_txout_def node_txout_def
          dest: child_range_less split: if_splits)
    then show ?thesis
      using tree_outputs_not_anchor(2) [OF laws that(1)] p2tr_standard [OF laws] by blast
  qed
  have "list_all (is_standard X) (gi_other_outputs (tree_item X spec sigs below i))"
    if "i < tree_size (ts_nb_leaves spec)" for below i
    using out that set_drop_nth_subset
    by (fastforce simp: tree_item_def Let_def list_all_iff)
  then show "tree_path (ts_nb_leaves spec) p \<Longrightarrow> ?thesis"
    by (induction "ts_nb_leaves spec" p rule: tree_path.induct) (simp_all add: outputs_standard_def)
qed

lemma path_cosigned:
  "list_all is_cosigned (map gi_transition (path_items X spec sigs below p))"
  by (induction p) (simp_all add: tree_item_def Let_def)

lemma genesis_order_cosigned: "list_all is_cosigned ts \<Longrightarrow> genesis_order ts"
proof -
  assume "list_all is_cosigned ts"
  then have "dropWhile is_cosigned ts = []" by (simp add: list_all_iff)
  then show ?thesis by (simp only: genesis_order_def list.case)
qed

subsection \<open>Building a VTXO\<close>

text \<open>The branch of a leaf as a path, and what \<open>build_vtxo\<close> makes of it.\<close>

lemma leaf_branch:
  assumes n: "0 < n" and l: "l < n"
  obtains ks where
    "(iter_branch \<lparr>tr_nodes = tree_nodes n, tr_nb_leaves = n\<rparr> l :: ('e, Node list) outcome)
       = Ok (map (\<lambda>k. tree_nodes n ! k) ks)"
    "up_path n None ks" "tree_path n (rev ks)" "ks \<noteq> []" "hd ks = l" "last ks = tree_size n - 1"
proof -
  have lN: "l < tree_size n" using l by (simp add: tree_size_def)
  obtain ks where ks: "branch_iter (tree_nodes n) (tree_size n) (Some l) = map (\<lambda>k. tree_nodes n ! k) ks"
    "ks \<noteq> []" "hd ks = l" "last ks = tree_size n - 1" "\<forall>k \<in> set ks. k < tree_size n"
    "\<forall>k. Suc k < length ks \<longrightarrow> nd_parent (tree_nodes n ! (ks ! k)) = Some (ks ! Suc k)"
    using branch_iter_run [OF n lN, of "tree_size n"] by auto
  have up: "up_path n below is"
    if "\<forall>k \<in> set is. k < tree_size n"
      "\<forall>k. Suc k < length is \<longrightarrow> nd_parent (tree_nodes n ! (is ! k)) = Some (is ! Suc k)"
      "\<forall>c. below = Some c \<longrightarrow> is \<noteq> [] \<longrightarrow> c < tree_size n \<and> nd_parent (tree_nodes n ! c) = Some (hd is)"
    for below "is"
    using that
  proof (induction "is" arbitrary: below)
    case (Cons i "is")
    have "up_path n (Some i) is"
    proof (rule Cons.IH)
      show "\<forall>c. Some i = Some c \<longrightarrow> is \<noteq> [] \<longrightarrow> c < tree_size n \<and> nd_parent (tree_nodes n ! c) = Some (hd is)"
        using Cons.prems(1) Cons.prems(2) [rule_format, of 0] by (auto simp: hd_conv_nth)
    qed (use Cons.prems(1) Cons.prems(2) [rule_format, of "Suc _"] in auto)
    moreover have "c < tree_size n - 1 \<and> n + c div 4 = i" if "below = Some c" for c
      using Cons.prems(3) that parent_idx_closed [OF n, of c] by (auto split: if_splits)
    ultimately show ?case using Cons.prems(1) by simp
  qed simp
  have u: "up_path n None ks" using up [OF ks(5,6)] by simp
  moreover have "tree_path n (rev ks)"
  proof -
    obtain rest where r: "ks = l # rest" using ks(2,3) by (cases ks) auto
    then show ?thesis using u up_path_rev [of n l rest "[]"] by simp
  qed
  moreover have "(iter_branch \<lparr>tr_nodes = tree_nodes n, tr_nb_leaves = n\<rparr> l :: ('e, Node list) outcome)
       = Ok (map (\<lambda>k. tree_nodes n ! k) ks)"
    using ks(1) lN n by (simp add: iter_branch_def length_tree_nodes)
  ultimately show ?thesis using ks(2-4) that by blast
qed

lemma build_vtxo_run:
  assumes n: "0 < ts_nb_leaves spec" and laws: "p2tr_laws X"
    and len: "tree_size (ts_nb_leaves spec) \<le> length sigs" and l: "l < ts_nb_leaves spec"
  obtains v p where
    "(build_vtxo X (cached_tree X spec utxo sigs) l :: ('e, Vtxo option) outcome) = Ok (Some v)"
    "vtxo_of_leaf spec l v" "v_anchor_point v = utxo" "v_genesis v = path_items X spec sigs None p"
    "v_point v = \<lparr>op_txid = ext_txid X (signed_tx X spec utxo sigs l), op_vout = 0\<rparr>"
    "tree_path (ts_nb_leaves spec) p" "p \<noteq> []" "last p = l" "hd p = tree_size (ts_nb_leaves spec) - 1"
    "(cached_exit_branch (cached_tree X spec utxo sigs) l :: ('e, Transaction list option) outcome)
       = Ok (Some (map (signed_tx X spec utxo sigs) p))"
proof -
  let ?n = "ts_nb_leaves spec"
  obtain ks where ks:
    "(iter_branch \<lparr>tr_nodes = tree_nodes ?n, tr_nb_leaves = ?n\<rparr> l :: ('e, Node list) outcome)
       = Ok (map (\<lambda>k. tree_nodes ?n ! k) ks)"
    "up_path ?n None ks" "tree_path ?n (rev ks)" "ks \<noteq> []" "hd ks = l" "last ks = tree_size ?n - 1"
    using leaf_branch [OF n l, where 'e = 'e] by blast
  let ?v = "\<lparr>v_policy = vr_policy (sr_vtxo (ts_vtxos spec ! l)), v_amount = leaf_amount spec l,
     v_expiry_height = ts_expiry_height spec, v_server_pubkey = ts_server_pubkey spec,
     v_exit_delta = ts_exit_delta spec, v_anchor_point = utxo,
     v_genesis = path_items X spec sigs None (rev ks),
     v_point = \<lparr>op_txid = ext_txid X (signed_tx X spec utxo sigs l), op_vout = 0\<rparr>\<rparr>"
  have lN: "l < tree_size ?n" using l by (simp add: tree_size_def)
  have req: "nth_opt (ts_vtxos spec) l = Some (ts_vtxos spec ! l)"
    using l by (simp add: nth_opt_def ts_nb_leaves_def)
  have ct: "st_spec (ct_spec (cached_tree X spec utxo sigs)) = spec"
    "st_utxo (ct_spec (cached_tree X spec utxo sigs)) = utxo"
    "nth_opt (ct_txs (cached_tree X spec utxo sigs)) l = Some (signed_tx X spec utxo sigs l)"
    using lN by (simp_all add: cached_tree_def nth_opt_def)
  have "(build_vtxo X (cached_tree X spec utxo sigs) l :: ('e, Vtxo option) outcome) = Ok (Some ?v)"
    using n l ks(1) branch_genesis_run [OF n laws len ks(2), where 'e = 'e and utxo = utxo]
    by (simp add: build_vtxo_def ct req Tree_new_Ok rev_up_items [symmetric] leaf_amount_def)
  moreover have "\<forall>k \<in> set ks. k < tree_size ?n"
  proof -
    have "\<forall>k \<in> set q. k < tree_size ?n" if "tree_path ?n q" for q
      using that by (induction ?n q rule: tree_path.induct) auto
    then show ?thesis using ks(3) by (metis set_rev)
  qed
  then have "map (\<lambda>k. ct_txs (cached_tree X spec utxo sigs) ! nd_idx (tree_nodes ?n ! k)) ks
      = map (signed_tx X spec utxo sigs) ks"
    using n by (intro map_cong refl) (simp add: tree_node_idx cached_tree_def)
  then have "(cached_exit_branch (cached_tree X spec utxo sigs) l :: ('e, Transaction list option) outcome)
       = Ok (Some (map (signed_tx X spec utxo sigs) (rev ks)))"
    using n l ks(1) by (simp add: cached_exit_branch_def ct Tree_new_Ok comp_def rev_map)
  ultimately show ?thesis
    using ks(3-6) that [of ?v "rev ks"] by (simp add: vtxo_of_leaf_def last_rev hd_rev)
qed

lemma into_cached_tree_run:
  assumes n: "0 < ts_nb_leaves spec" and ok: "ts_locktimes_ok spec"
    and len: "tree_size (ts_nb_leaves spec) \<le> length sigs"
  shows "into_cached_tree X \<lparr>st_spec = spec, st_utxo = utxo, st_cosign_sigs = sigs\<rparr>
       = Ok (cached_tree X spec utxo sigs)"
  by (simp add: into_cached_tree_def all_signed_txs_def signed_transactions_run [OF n ok len] cached_tree_def)

lemma tree_vtxo_valid:
  assumes laws: "segwit_laws X" "p2tr_laws X"
    and n: "0 < ts_nb_leaves spec" and ok: "ts_locktimes_ok spec"
    and sum: "total_required_value spec < u64_limit"
    and dust: "\<And>i. i < ts_nb_leaves spec \<Longrightarrow> P2TR_DUST \<le> leaf_amount spec i"
    and verified: "\<And>i. i < tree_size (ts_nb_leaves spec) \<Longrightarrow>
        ext_verify_schnorr X (sigs ! i) (tree_sighash X spec utxo i)
          (ext_output_key X (ts_cosign_taproot X spec (node_pk X spec i)))"
    and anchor: "ext_txid X anchor_tx = op_txid utxo"
      "nth_opt (tx_output anchor_tx) (unat (op_vout utxo)) = Some (funding_tx_txout X spec)"
    and v: "vtxo_of_leaf spec l v" "l < ts_nb_leaves spec" "v_anchor_point v = utxo"
      "v_genesis v = path_items X spec sigs None p"
    and p: "tree_path (ts_nb_leaves spec) p" "p \<noteq> []" "last p = l" "hd p = tree_size (ts_nb_leaves spec) - 1"
  shows "valid_vtxo X v anchor_tx"
    and "onchain_amount v = Some (total_required_value spec)"
    and "exit_chain X v (total_required_value spec) utxo (v_genesis v) = map (signed_tx X spec utxo sigs) p"
proof -
  let ?n = "ts_nb_leaves spec"
  have root: "funding_tx_txout X spec = node_txout X spec (hd p)"
    using funding_is_root [OF n] p(4) by simp
  have total: "leaf_sum spec (hd p) = total_required_value spec"
    using arg_cong [OF root, of txo_value] by (simp add: funding_tx_txout_def node_txout_def)
  have "v_amount v + sum_list (map other_value (v_genesis v)) = leaf_sum spec (hd p)"
    using path_value [OF p(1,2)] p(3) v by (simp add: vtxo_of_leaf_def)
  then show amount: "onchain_amount v = Some (total_required_value spec)"
    using total sum by (simp add: onchain_amount_eq_Some)
  have "tree_tx X spec utxo (hd p) = base_tx X spec (hd p) utxo"
    using tree_tx_root [of X spec utxo] p(4) by simp
  then show chain: "exit_chain X v (total_required_value spec) utxo (v_genesis v) = map (signed_tx X spec utxo sigs) p"
    using exit_chain_path [OF laws(1) v(1,2) p(1-3)] total v(4) by simp
  have ne: "v_genesis v \<noteq> []" "gi_transition (hd (v_genesis v)) =
      Cosigned (node_cosign_pubkeys spec (tree_nodes ?n ! hd p)) (sigs ! hd p)"
    using p(2) v(4) by (cases p; simp add: tree_item_def Let_def)+
  have "list_all (\<lambda>i. transition_locktime_ok (gi_transition i) (v_expiry_height v)) (path_items X spec sigs None p)"
    using ok v(1) by (induction p) (simp_all add: tree_item_def Let_def ts_locktimes_ok_def vtxo_of_leaf_def)
  moreover have "policy_locktime_ok (v_policy v) (v_expiry_height v)"
    using ok v(1,2) by (simp add: ts_locktimes_ok_def vtxo_of_leaf_def list_all_length ts_nb_leaves_def)
  ultimately have lt: "vtxo_locktimes_ok v" using v(4) by (simp add: vtxo_locktimes_ok_def)
  have expected: "input_txout X (gi_transition (hd (v_genesis v))) (total_required_value spec)
      (v_server_pubkey v) (v_expiry_height v) (v_exit_delta v) = funding_tx_txout X spec"
    using v(1) by (simp add: ne(2) input_txout_def root node_txout_def total node_pk_def ts_cosign_taproot_def
        vtxo_of_leaf_def)
  have point: "anchor_point_of X v anchor_tx = utxo"
    using anchor(1) v(3) by (simp add: anchor_point_of_def)
  have "chain_signed X v anchor_tx (unat (op_vout utxo)) (v_genesis v) (map (signed_tx X spec utxo sigs) p)"
    unfolding v(4) using chain_signed_path [OF laws(1) v(1) verified p(1,2)] anchor(2) root by simp
  then show "valid_vtxo X v anchor_tx"
    using ne lt expected chain amount anchor(2) v(3) path_standard [OF laws(2) dust p(1)]
      genesis_order_cosigned [OF path_cosigned] point
    by (simp add: valid_vtxo_def v(4))
qed

subsection \<open>What a constructed tree guarantees\<close>

lemma build_txs_locktimes:
  "build_txs X spec pks nodes txs = Ok r \<Longrightarrow> node \<in> set nodes \<Longrightarrow> is_leaf node \<Longrightarrow>
   policy_locktime_ok (vr_policy (sr_vtxo (ts_vtxos spec ! nd_idx node))) (ts_expiry_height spec)"
  by (induction X spec pks nodes txs rule: build_txs.induct) (auto simp: Let_def split: if_splits)

lemma UnsignedVtxoTree_new_Ok:
  assumes "(UnsignedVtxoTree_new X spec utxo :: ('e, UnsignedVtxoTree) outcome) = Ok u"
  shows "0 < ts_nb_leaves spec" "ts_locktimes_ok spec"
proof -
  show n: "0 < ts_nb_leaves spec"
    using assms by (cases "ts_nb_leaves spec") (simp_all add: UnsignedVtxoTree_new_def Tree_new_def)
  let ?n = "ts_nb_leaves spec"
  from assms n obtain pks txs :: "_ list" where
    built: "(build_txs X spec pks (tree_nodes ?n) [] :: ('e, Transaction list) outcome) = Ok txs"
    and lt: "locktime_ok (ts_expiry_height spec)"
    by (auto simp: UnsignedVtxoTree_new_def unsigned_transactions_def Tree_new_Ok and_then_eq_Inr split: if_splits)
  have "policy_locktime_ok (vr_policy (sr_vtxo (ts_vtxos spec ! i))) (ts_expiry_height spec)" if "i < ?n" for i
  proof -
    have i: "i < tree_size ?n" using that by (simp add: tree_size_def)
    then have "tree_nodes ?n ! i \<in> set (tree_nodes ?n)" using n by (simp add: length_tree_nodes)
    from build_txs_locktimes [OF built this] show ?thesis
      using that n i by (simp add: tree_node_is_leaf tree_node_idx)
  qed
  then show "ts_locktimes_ok spec"
    using lt by (simp add: ts_locktimes_ok_def list_all_length ts_nb_leaves_def)
qed

lemma fold_max_ge: "x \<in> set xs \<Longrightarrow> x \<le> fold max xs (a :: nat)" "a \<le> fold max xs a"
proof (induction xs arbitrary: a)
  case (Cons y xs)
  { case 1 then show ?case using Cons.IH(1) [of "max y a"] Cons.IH(2) [of "max y a"] by auto }
  { case 2 then show ?case using Cons.IH(2) [of "max y a"] by simp }
qed simp_all

lemma fold_max_le: "\<forall>x \<in> set xs. x \<le> b \<Longrightarrow> a \<le> b \<Longrightarrow> fold max xs a \<le> (b :: nat)"
  by (induction xs arbitrary: a) auto

lemma level_of_le: "0 < n \<Longrightarrow> level_of n i \<le> i"
proof (induction i rule: less_induct)
  case (less i)
  show ?case
  proof (cases "i < n")
    case False
    have "level_of n c \<le> i - 1" if "c \<in> set (child_range n i)" for c
      using less.IH [OF child_range_less [OF that] less.prems] child_range_less [OF that] by linarith
    then have "\<forall>x \<in> set (map (level_of n) (child_range n i)). x \<le> i - 1" by auto
    then have "fold max (map (level_of n) (child_range n i)) 0 \<le> i - 1" by (rule fold_max_le) simp
    then show ?thesis using False less.prems by (subst level_of.simps) simp
  qed (simp add: level_of_leaf)
qed

lemma level_of_parent:
  assumes "c < tree_size n - 1"
  shows "level_of n c < level_of n (n + c div 4)"
proof -
  have "c \<in> set (child_range n (n + c div 4))" by (rule parent_of_nonroot [OF assms])
  then have "level_of n c \<le> fold max (map (level_of n) (child_range n (n + c div 4))) 0"
    by (intro fold_max_ge(1)) simp
  then show ?thesis by (subst (2) level_of.simps) simp
qed

lemma next_nonce_drop:
  "pos \<le> level \<Longrightarrow> level < length all \<Longrightarrow>
   next_nonce level pos (drop pos all) = Some (all ! level, Suc level, drop (Suc level) all)"
proof (induction "level - pos" arbitrary: pos)
  case 0
  then have "pos = level" by simp
  then show ?case using 0 by (simp add: Cons_nth_drop_Suc [symmetric])
next
  case (Suc d)
  then have "drop pos all = all ! pos # drop (Suc pos) all" by (simp add: Cons_nth_drop_Suc)
  then show ?case using Suc by simp
qed

lemma cosign_branch_loop_run:
  assumes n: "0 < n" and nonces: "tree_size n \<le> length agg_nonces"
  shows "up_path n below ks \<Longrightarrow> (\<forall>k \<in> set ks. level_of n k < length all) \<Longrightarrow>
    (ks \<noteq> [] \<longrightarrow> pos \<le> level_of n (hd ks)) \<Longrightarrow>
    (cosign_branch_loop X u agg_nonces key pos (drop pos all) (map (\<lambda>k. tree_nodes n ! k) ks)
       :: ('e, PartialSignature list) outcome) =
    Ok (map (\<lambda>k. cosign_node X u agg_nonces key (tree_nodes n ! k) (all ! level_of n k)) ks)"
proof (induction ks arbitrary: below pos)
  case (Cons i ks)
  have i: "i < tree_size n" using Cons.prems(1) by simp
  have level: "nd_level (tree_nodes n ! i) = level_of n i" "nd_idx (tree_nodes n ! i) = i"
    using n i by (simp_all add: tree_nodes_nth tree_node_def)
  have nonce: "next_nonce (level_of n i) pos (drop pos all)
      = Some (all ! level_of n i, Suc (level_of n i), drop (Suc (level_of n i)) all)"
    using Cons.prems by (intro next_nonce_drop) simp_all
  have "ks \<noteq> [] \<longrightarrow> Suc (level_of n i) \<le> level_of n (hd ks)"
    using Cons.prems(1) level_of_parent [of i n] by (cases ks) auto
  with Cons.prems have "(cosign_branch_loop X u agg_nonces key (Suc (level_of n i)) (drop (Suc (level_of n i)) all)
      (map (\<lambda>k. tree_nodes n ! k) ks) :: ('e, PartialSignature list) outcome) =
      Ok (map (\<lambda>k. cosign_node X u agg_nonces key (tree_nodes n ! k) (all ! level_of n k)) ks)"
    by (intro Cons.IH [of "Some i"]) simp_all
  then show ?case using nonce level i nonces by simp
qed simp

section \<open>A concrete tree\<close>

text \<open>Five leaves of 1000 satoshis each: the smallest tree with two levels of inner nodes.\<close>

definition demo_spec :: VtxoTreeSpec where
  "demo_spec = \<lparr>ts_vtxos = replicate 5 \<lparr>sr_vtxo = \<lparr>vr_amount = 1000, vr_policy = Pubkey (replicate 33 2)\<rparr>,
       sr_cosign_pubkey = Some (2 # replicate 32 4)\<rparr>,
     ts_expiry_height = 800000, ts_server_pubkey = replicate 33 3, ts_exit_delta = 144,
     ts_global_cosign_pubkeys = [replicate 33 3]\<rparr>"

definition demo_utxo :: OutPoint where
  "demo_utxo = \<lparr>op_txid = replicate 32 1, op_vout = 0\<rparr>"

definition demo_sigs :: "Signature list" where
  "demo_sigs = replicate 7 (replicate 64 5)"

lemma demo_spec_facts:
  "ts_nb_leaves demo_spec = 5" "ts_locktimes_ok demo_spec" "total_required_value demo_spec = 5000"
  "i < 5 \<Longrightarrow> leaf_amount demo_spec i = 1000" "tree_size 5 = 7"
  by (simp_all add: demo_spec_def ts_nb_leaves_def ts_locktimes_ok_def locktime_ok_def total_required_value_def
      leaf_amount_def tree_size_def sum_list_replicate map_replicate list_all_iff)

lemma demo_tree:
  obtains u where "(UnsignedVtxoTree_new demo_ext demo_spec demo_utxo :: ('e, UnsignedVtxoTree) outcome) = Ok u"
    "ut_spec u = demo_spec" "ut_utxo u = demo_utxo" "length (ut_txs u) = 7"
    "verify_cosign_sigs demo_ext u demo_sigs = Ok ()"
proof -
  obtain u where u: "(UnsignedVtxoTree_new demo_ext demo_spec demo_utxo :: ('e, UnsignedVtxoTree) outcome) = Ok u"
    "ut_spec u = demo_spec" "ut_utxo u = demo_utxo" "length (ut_txs u) = 7"
    using UnsignedVtxoTree_new_run [of demo_spec demo_ext demo_utxo, where 'e = 'e]
    by (simp add: demo_spec_facts)
  moreover have "verify_cosign_sigs demo_ext u demo_sigs = Ok ()"
    using verify_cosign_sigs_Ok [OF _ _ u(1), of demo_sigs]
    by (simp add: demo_spec_facts demo_sigs_def) (simp add: demo_ext_def)
  ultimately show ?thesis using that by blast
qed

section \<open>Properties\<close>



text \<open>
  C1: every VTXO that is built from a tree whose cosign signatures were verified is valid. Given a
  chain anchor transaction with the tree's funding output at the funding outpoint, amounts above
  the dust limit and below overflow, \<open>build_vtxo\<close> returns for each leaf a VTXO with the amount and
  policy of the request that passes \<open>validate\<close>; its exit transactions are exactly the signed
  transactions on the exit branch of the leaf, and its point is the first output of the last one.
\<close>

theorem tree_vtxos_are_valid:
  assumes "segwit_laws X" "p2tr_laws X"
    and tree: "(UnsignedVtxoTree_new X spec utxo :: ('e, UnsignedVtxoTree) outcome) = Ok u"
    and sigs: "verify_cosign_sigs X u sigs = Ok ()"
    and cached: "(into_cached_tree X (into_signed_tree u sigs) :: ('e, CachedSignedVtxoTree) outcome) = Ok ct"
    and leaf: "l < ts_nb_leaves spec"
    and "total_required_value spec < u64_limit"
    and "\<forall>i < ts_nb_leaves spec. P2TR_DUST \<le> leaf_amount spec i"
    and anchor: "ext_txid X anchor_tx = op_txid utxo"
      "nth_opt (tx_output anchor_tx) (unat (op_vout utxo)) = Some (funding_tx_txout X spec)"
  shows "\<exists>v items.
     (build_vtxo X ct l :: ('e, Vtxo option) outcome) = Ok (Some v) \<and>
     vtxo_validate X v anchor_tx = Ok () \<and>
     v_amount v = leaf_amount spec l \<and> v_policy v = vr_policy (sr_vtxo (ts_vtxos spec ! l)) \<and>
     (vtxo_transactions X v :: ('e, VtxoTxIterItem list) outcome) = Ok items \<and>
     (cached_exit_branch ct l :: ('e, Transaction list option) outcome) = Ok (Some (map ii_tx items)) \<and>
     v_point v = \<lparr>op_txid = ext_txid X (ii_tx (last items)), op_vout = 0\<rparr>"
proof -
  note ok = UnsignedVtxoTree_new_Ok [OF tree]
  have u: "ut_spec u = spec" "ut_utxo u = utxo"
    using UnsignedVtxoTree_new_run [OF ok, of X utxo, where 'e = 'e] tree by auto
  have verified: "i < tree_size (ts_nb_leaves spec) \<Longrightarrow> i < length sigs \<and>
        ext_verify_schnorr X (sigs ! i) (tree_sighash X spec utxo i)
          (ext_output_key X (ts_cosign_taproot X spec (node_pk X spec i)))" for i
    using verify_cosign_sigs_Ok [OF ok tree] sigs by blast
  have len: "tree_size (ts_nb_leaves spec) \<le> length sigs"
    using verified by (meson linorder_not_less order_less_irrefl)
  have ct: "ct = cached_tree X spec utxo sigs"
    using cached into_cached_tree_run [OF ok len, of X utxo, where 'a = 'e] by (simp add: into_signed_tree_def u)
  obtain v p where v: "(build_vtxo X ct l :: ('e, Vtxo option) outcome) = Ok (Some v)"
    "vtxo_of_leaf spec l v" "v_anchor_point v = utxo" "v_genesis v = path_items X spec sigs None p"
    "v_point v = \<lparr>op_txid = ext_txid X (signed_tx X spec utxo sigs l), op_vout = 0\<rparr>"
    and p: "tree_path (ts_nb_leaves spec) p" "p \<noteq> []" "last p = l" "hd p = tree_size (ts_nb_leaves spec) - 1"
    and branch: "(cached_exit_branch ct l :: ('e, Transaction list option) outcome)
       = Ok (Some (map (signed_tx X spec utxo sigs) p))"
    unfolding ct using build_vtxo_run [OF ok(1) assms(2) len leaf, where 'e = 'e and utxo = utxo] by blast
  note valid = tree_vtxo_valid [OF assms(1,2) ok assms(7) _ _ anchor v(2) leaf v(3,4) p]
  have vv: "valid_vtxo X v anchor_tx" and am: "onchain_amount v = Some (total_required_value spec)"
    and ch: "exit_chain X v (total_required_value spec) utxo (v_genesis v) = map (signed_tx X spec utxo sigs) p"
    using valid verified assms(8) v(4) by blast+
  define items where "items = map2 (\<lambda>tx item. \<lparr>ii_tx = tx, ii_output_idx = unat (gi_output_idx item)\<rparr>)
     (map (signed_tx X spec utxo sigs) p) (v_genesis v)"
  have lt: "vtxo_locktimes_ok v" "v_genesis v \<noteq> []" using vv by (simp_all add: valid_vtxo_def)
  have run: "(vtxo_transactions X v :: ('e, VtxoTxIterItem list) outcome) = Ok items"
    using vtxo_transactions_run [OF lt(1), where 'e = 'e and X = X] am ch lt(2) v(3) by (simp add: items_def)
  have "length (v_genesis v) = length p" using ch length_exit_chain by (metis length_map)
  then have txs: "map ii_tx items = map (signed_tx X spec utxo sigs) p"
    by (simp add: items_def list_eq_iff_nth_eq)
  moreover have "items \<noteq> []" using txs p(2) by (metis map_is_Nil_conv)
  ultimately have "ii_tx (last items) = signed_tx X spec utxo sigs l"
    using p(2,3) by (metis last_map)
  then show ?thesis
    using v(1,2,5) vv run branch txs by (simp add: validate_iff vtxo_of_leaf_def)
qed

theorem tree_vtxos_are_valid_witness:
  "\<exists>ct v. (build_vtxo demo_ext ct 4 :: (unit, Vtxo option) outcome) = Ok (Some v) \<and> v_amount v = 1000 \<and>
     vtxo_validate demo_ext v (v3_tx [] [funding_tx_txout demo_ext demo_spec]) = Ok ()"
proof -
  obtain u where u: "(UnsignedVtxoTree_new demo_ext demo_spec demo_utxo :: (unit, UnsignedVtxoTree) outcome) = Ok u"
    "ut_spec u = demo_spec" "ut_utxo u = demo_utxo" "verify_cosign_sigs demo_ext u demo_sigs = Ok ()"
    using demo_tree [where 'e = unit] by metis
  have ct: "(into_cached_tree demo_ext (into_signed_tree u demo_sigs) :: (unit, CachedSignedVtxoTree) outcome)
      = Ok (cached_tree demo_ext demo_spec demo_utxo demo_sigs)"
    using into_cached_tree_run [of demo_spec demo_sigs demo_ext demo_utxo]
    by (simp add: into_signed_tree_def u demo_spec_facts demo_sigs_def)
  have facts: "4 < ts_nb_leaves demo_spec" "total_required_value demo_spec < u64_limit"
    "\<forall>i < ts_nb_leaves demo_spec. P2TR_DUST \<le> leaf_amount demo_spec i"
    "ext_txid demo_ext (v3_tx [] [funding_tx_txout demo_ext demo_spec]) = op_txid demo_utxo"
    "nth_opt (tx_output (v3_tx [] [funding_tx_txout demo_ext demo_spec])) (unat (op_vout demo_utxo))
       = Some (funding_tx_txout demo_ext demo_spec)"
    by (simp_all add: demo_spec_facts u64_limit_def P2TR_DUST_def demo_utxo_def)
      (simp add: demo_ext_def)
  from tree_vtxos_are_valid [OF demo_ext_laws(1,2) u(1,4) ct facts] show ?thesis
    by (auto simp: demo_spec_facts)
qed

text \<open>
  cosigning a branch uses, for each node from the leaf to the root, the secret nonce at the
  node's level, and skips the others, as the aggregation of the public nonces does: with a nonce
  for every level and the right key it returns one partial signature per node of the branch.
\<close>

theorem cosign_branch_nonces:
  assumes tree: "(UnsignedVtxoTree_new X spec utxo :: ('e, UnsignedVtxoTree) outcome) = Ok u"
    and leaf: "l < ts_nb_leaves spec"
    and key: "sr_cosign_pubkey (ts_vtxos spec ! l) = Some (ext_public_key X key)"
    and "length agg_nonces = ut_nb_nodes u"
    and levels: "\<forall>node \<in> set (tr_nodes (ut_tree u)). nd_level node < length sec_nonces"
  shows "\<exists>branch.
     (iter_branch (ut_tree u) l :: ('e, Node list) outcome) = Ok branch \<and>
     cosign_branch X u agg_nonces l key sec_nonces =
       Ok (map (\<lambda>node. cosign_node X u agg_nonces key node (sec_nonces ! nd_level node)) branch)"
proof -
  let ?n = "ts_nb_leaves spec"
  note ok = UnsignedVtxoTree_new_Ok [OF tree]
  have u: "ut_spec u = spec" "ut_tree u = \<lparr>tr_nodes = tree_nodes ?n, tr_nb_leaves = ?n\<rparr>"
    using UnsignedVtxoTree_new_run [OF ok, of X utxo, where 'e = 'e] tree by auto
  obtain ks where ks:
    "(iter_branch \<lparr>tr_nodes = tree_nodes ?n, tr_nb_leaves = ?n\<rparr> l :: (IncorrectSigningKeyError, Node list) outcome)
       = Ok (map (\<lambda>k. tree_nodes ?n ! k) ks)"
    "up_path ?n None ks" "tree_path ?n (rev ks)" "ks \<noteq> []"
    using leaf_branch [OF ok(1) leaf, where 'e = IncorrectSigningKeyError] by metis
  have branch: "(iter_branch \<lparr>tr_nodes = tree_nodes ?n, tr_nb_leaves = ?n\<rparr> l :: ('e, Node list) outcome)
       = Ok (map (\<lambda>k. tree_nodes ?n ! k) ks)"
    using ks(1) by (simp add: iter_branch_def split: if_splits)
  have bound: "\<forall>k \<in> set ks. k < tree_size ?n"
  proof -
    have "\<forall>k \<in> set q. k < tree_size ?n" if "tree_path ?n q" for q
      using that by (induction ?n q rule: tree_path.induct) auto
    then show ?thesis using ks(3) by (metis set_rev)
  qed
  have level: "nd_level (tree_nodes ?n ! k) = level_of ?n k" if "k < tree_size ?n" for k
    using ok(1) that by (simp add: tree_nodes_nth tree_node_def)
  have "\<forall>k \<in> set ks. level_of ?n k < length sec_nonces"
    using bound levels level ok(1) by (metis Tree.select_convs(1) length_tree_nodes nth_mem u(2))
  moreover have "tree_size ?n \<le> length agg_nonces"
    using assms(4) ok(1) by (simp add: ut_nb_nodes_def nb_nodes_def u length_tree_nodes)
  ultimately have "(cosign_branch_loop X u agg_nonces key 0 sec_nonces (map (\<lambda>k. tree_nodes ?n ! k) ks)
       :: (IncorrectSigningKeyError, PartialSignature list) outcome)
      = Ok (map (\<lambda>k. cosign_node X u agg_nonces key (tree_nodes ?n ! k) (sec_nonces ! level_of ?n k)) ks)"
    using cosign_branch_loop_run [OF ok(1) _ ks(2), of agg_nonces sec_nonces 0] by simp
  also have "map (\<lambda>k. cosign_node X u agg_nonces key (tree_nodes ?n ! k) (sec_nonces ! level_of ?n k)) ks
      = map (\<lambda>node. cosign_node X u agg_nonces key node (sec_nonces ! nd_level node)) (map (\<lambda>k. tree_nodes ?n ! k) ks)"
    using bound level by simp
  finally show ?thesis
    using branch ks(1) leaf key
    by (simp add: cosign_branch_def u nth_opt_def ts_nb_leaves_def)
qed

text \<open>Level 2 is the highest level of the five-leaf tree.\<close>

theorem cosign_branch_nonces_witness:
  "\<exists>u branch. (UnsignedVtxoTree_new demo_ext demo_spec demo_utxo :: (unit, UnsignedVtxoTree) outcome) = Ok u \<and>
     cosign_branch demo_ext u (replicate 7 []) 0 (replicate 32 4) (replicate 7 [9]) =
       Ok (map (\<lambda>node. cosign_node demo_ext u (replicate 7 []) (replicate 32 4) node
                         (replicate 7 [9] ! nd_level node)) branch)"
proof -
  obtain u where u: "(UnsignedVtxoTree_new demo_ext demo_spec demo_utxo :: (unit, UnsignedVtxoTree) outcome) = Ok u"
    using demo_tree [where 'e = unit] by metis
  have tree: "ut_tree u = \<lparr>tr_nodes = tree_nodes 5, tr_nb_leaves = 5\<rparr>"
    using UnsignedVtxoTree_new_run [of demo_spec demo_ext demo_utxo, where 'e = unit] u
    by (auto simp: demo_spec_facts)
  have "nd_level node < 7" if "node \<in> set (tree_nodes 5)" for node
  proof -
    obtain i where "i < 7" "node = tree_nodes 5 ! i"
      using \<open>node \<in> set (tree_nodes 5)\<close> by (auto simp: in_set_conv_nth length_tree_nodes demo_spec_facts)
    then show ?thesis
      using level_of_le [of 5 i] by (simp add: tree_nodes_nth demo_spec_facts) (simp add: tree_node_def)
  qed
  then have levels: "\<forall>node \<in> set (tr_nodes (ut_tree u)). nd_level node < length (replicate 7 [9 :: byte])"
    by (simp add: tree)
  have facts: "0 < ts_nb_leaves demo_spec" "length (replicate 7 [] :: bytes list) = ut_nb_nodes u"
    "sr_cosign_pubkey (ts_vtxos demo_spec ! 0) = Some (ext_public_key demo_ext (replicate 32 4))"
    by (simp_all add: demo_spec_facts ut_nb_nodes_def nb_nodes_def tree length_tree_nodes)
      (simp add: demo_spec_def demo_ext_def)
  from cosign_branch_nonces [OF u facts(1,3,2) levels] u show ?thesis by blast
qed

end
