(* ===== verification/Ark_Board.thy ===== *)
theory Ark_Board
  imports Ark_Validation Ark_Signed_Tree
begin

text \<open>
  Boarding (\<open>lib/src/board.rs\<close>): user and server cosign the exit transaction of a new VTXO before
  the user funds it on chain. The type states of \<open>BoardBuilder\<close> are a field of the record, and a
  method that Rust's types allow in some states only is specified for those. The
  \<open>expect("state invariant")\<close> calls are panics of the model, which the invariant rules out.
\<close>

section \<open>The builder\<close>

datatype BuilderState = Preparing | CanGenerateNonces | ServerCanCosign | CanFinish

record BoardBuilder =
  bb_user_pubkey :: PublicKey
  bb_expiry_height :: BlockHeight
  bb_server_pubkey :: PublicKey
  bb_exit_delta :: BlockDelta
  bb_amount :: "Amount option"
  bb_utxo :: "OutPoint option"
  bb_user_pub_nonce :: "PublicNonce option"
  bb_user_sec_nonce :: "SecretNonce option"
  bb_state :: BuilderState

record BoardCosignResponse =
  bc_pub_nonce :: PublicNonce
  bc_partial_signature :: PartialSignature

definition BOARD_FUNDING_TX_VTXO_VOUT :: u32 where
  "BOARD_FUNDING_TX_VTXO_VOUT = 0"

definition exit_tx_sighash :: "externals \<Rightarrow> TxOut \<Rightarrow> OutPoint \<Rightarrow> TxOut \<Rightarrow> bytes \<times> Transaction" where
  "exit_tx_sighash X prev_utxo utxo out =
     (let exit_tx = create_exit_tx X utxo out None in (ext_key_sighash X exit_tx prev_utxo, exit_tx))"

definition board_funding_taproot :: "externals \<Rightarrow> BoardBuilder \<Rightarrow> TaprootSpendInfo" where
  "board_funding_taproot X b =
     cosign_taproot X (combine_keys X [bb_user_pubkey b, bb_server_pubkey b]) (bb_server_pubkey b)
       (bb_expiry_height b)"

definition funding_script_pubkey :: "externals \<Rightarrow> BoardBuilder \<Rightarrow> ('e, ScriptBuf) outcome" where
  "funding_script_pubkey X b =
     (if locktime_ok (bb_expiry_height b) then Ok (taproot_script_pubkey X (board_funding_taproot X b))
      else panic ''LockTime::from_height'')"

definition BoardBuilder_new ::
  "PublicKey \<Rightarrow> BlockHeight \<Rightarrow> PublicKey \<Rightarrow> BlockDelta \<Rightarrow> BoardBuilder" where
  "BoardBuilder_new user_pubkey expiry_height server_pubkey exit_delta =
     \<lparr>bb_user_pubkey = user_pubkey, bb_expiry_height = expiry_height, bb_server_pubkey = server_pubkey,
      bb_exit_delta = exit_delta, bb_amount = None, bb_utxo = None, bb_user_pub_nonce = None,
      bb_user_sec_nonce = None, bb_state = Preparing\<rparr>"

definition set_funding_details :: "BoardBuilder \<Rightarrow> Amount \<Rightarrow> OutPoint \<Rightarrow> BoardBuilder" where
  "set_funding_details b amount utxo =
     b\<lparr>bb_amount := Some amount, bb_utxo := Some utxo, bb_state := CanGenerateNonces\<rparr>"

text \<open>\<open>exit_tx_sighash_data\<close>, which \<open>generate_user_nonces\<close> also computes.\<close>

definition exit_tx_sighash_data ::
  "externals \<Rightarrow> BoardBuilder \<Rightarrow> ('e, bytes \<times> TaprootSpendInfo \<times> Txid) outcome" where
  "exit_tx_sighash_data X b =
     (if \<not> locktime_ok (bb_expiry_height b) then panic ''LockTime::from_height''
      else
        let funding_taproot = board_funding_taproot X b in
        and_then (expect (bb_amount b) ''state invariant'') (\<lambda>amount.
        and_then (expect (bb_utxo b) ''state invariant'') (\<lambda>utxo.
        let funding_txout = \<lparr>txo_value = amount, txo_script = taproot_script_pubkey X funding_taproot\<rparr>;
            exit_txout = \<lparr>txo_value = amount,
              txo_script = taproot_script_pubkey X
                (exit_taproot X (bb_user_pubkey b) (bb_server_pubkey b) (bb_exit_delta b))\<rparr>;
            (sighash, tx) = exit_tx_sighash X funding_txout utxo exit_txout
        in Ok (sighash, funding_taproot, ext_txid X tx))))"

definition generate_user_nonces :: "externals \<Rightarrow> nat \<Rightarrow> BoardBuilder \<Rightarrow> ('e, BoardBuilder) outcome" where
  "generate_user_nonces X rnd b =
     and_then (exit_tx_sighash_data X b) (\<lambda>(reveal_sighash, funding_taproot, _).
     let agg = tweaked_key_agg [bb_user_pubkey b, bb_server_pubkey b] (ext_tap_tweak X funding_taproot);
         (sec_nonce, pub_nonce) = ext_nonce_gen X rnd agg (bb_user_pubkey b) reveal_sighash
     in Ok (b\<lparr>bb_user_pub_nonce := Some pub_nonce, bb_user_sec_nonce := Some sec_nonce,
              bb_state := CanFinish\<rparr>))"

definition new_for_cosign ::
  "PublicKey \<Rightarrow> BlockHeight \<Rightarrow> PublicKey \<Rightarrow> BlockDelta \<Rightarrow> Amount \<Rightarrow> OutPoint \<Rightarrow> PublicNonce \<Rightarrow> BoardBuilder" where
  "new_for_cosign user_pubkey expiry_height server_pubkey exit_delta amount utxo user_pub_nonce =
     \<lparr>bb_user_pubkey = user_pubkey, bb_expiry_height = expiry_height, bb_server_pubkey = server_pubkey,
      bb_exit_delta = exit_delta, bb_amount = Some amount, bb_utxo = Some utxo,
      bb_user_pub_nonce = Some user_pub_nonce, bb_user_sec_nonce = None, bb_state = ServerCanCosign\<rparr>"

definition board_server_cosign ::
  "externals \<Rightarrow> nat \<Rightarrow> BoardBuilder \<Rightarrow> Keypair \<Rightarrow> ('e, BoardCosignResponse) outcome" where
  "board_server_cosign X rnd b key =
     and_then (exit_tx_sighash_data X b) (\<lambda>(sighash, taproot, _).
     and_then (expect (bb_user_pub_nonce b) ''state invariant'') (\<lambda>user_pub_nonce.
     let (pub_nonce, partial_signature) = deterministic_partial_sign X rnd key [bb_user_pubkey b]
           [user_pub_nonce] sighash (Some (ext_tap_tweak X taproot))
     in Ok \<lparr>bc_pub_nonce = pub_nonce, bc_partial_signature = partial_signature\<rparr>))"

definition board_verify_cosign_response ::
  "externals \<Rightarrow> BoardBuilder \<Rightarrow> BoardCosignResponse \<Rightarrow> ('e, bool) outcome" where
  "board_verify_cosign_response X b server_cosign =
     and_then (exit_tx_sighash_data X b) (\<lambda>(sighash, taproot, _).
     and_then (expect (bb_user_pub_nonce b) ''state invariant'') (\<lambda>user_pub_nonce.
     Ok (verify_partial_sig X sighash (ext_tap_tweak X taproot)
           (bb_server_pubkey b, bc_pub_nonce server_cosign)
           (bb_user_pubkey b, user_pub_nonce)
           (bc_partial_signature server_cosign))))"

definition board_build_vtxo ::
  "externals \<Rightarrow> BoardBuilder \<Rightarrow> BoardCosignResponse \<Rightarrow> Keypair \<Rightarrow> (IncorrectSigningKeyError, Vtxo) outcome" where
  "board_build_vtxo X b server_cosign user_key =
     (if ext_public_key X user_key \<noteq> bb_user_pubkey b
      then err (IncorrectSigningKey (Some (bb_user_pubkey b)) (ext_public_key X user_key))
      else
        and_then (exit_tx_sighash_data X b) (\<lambda>(sighash, taproot, exit_txid).
        and_then (expect (bb_user_pub_nonce b) ''state invariant'') (\<lambda>user_pub_nonce.
        and_then (expect (bb_user_sec_nonce b) ''state invariant'') (\<lambda>user_sec_nonce.
        let agg_nonce = nonce_agg X [user_pub_nonce, bc_pub_nonce server_cosign];
            final_sig = snd (partial_sign X [bb_user_pubkey b, bb_server_pubkey b] agg_nonce user_key
              user_sec_nonce sighash (Some (ext_tap_tweak X taproot))
              (Some [bc_partial_signature server_cosign]))
        in
        and_then (expect final_sig ''we provided the other sig'') (\<lambda>final_sig.
        and_then (expect (bb_amount b) ''state invariant'') (\<lambda>amount.
        and_then (expect (bb_utxo b) ''state invariant'') (\<lambda>utxo.
        Ok \<lparr>v_policy = Pubkey (bb_user_pubkey b), v_amount = amount,
            v_expiry_height = bb_expiry_height b, v_server_pubkey = bb_server_pubkey b,
            v_exit_delta = bb_exit_delta b, v_anchor_point = utxo,
            v_genesis = [\<lparr>gi_transition = Cosigned [bb_user_pubkey b, bb_server_pubkey b] final_sig,
                          gi_output_idx = 0, gi_other_outputs = []\<rparr>],
            v_point = \<lparr>op_txid = exit_txid, op_vout = BOARD_FUNDING_TX_VTXO_VOUT\<rparr>\<rparr>)))))))"

section \<open>The state machine\<close>

text \<open>The calls that the type states allow, and the invariant behind the \<open>expect\<close> calls.\<close>

inductive board_reachable :: "externals \<Rightarrow> BoardBuilder \<Rightarrow> bool" for X where
  new: "board_reachable X (BoardBuilder_new user_pubkey expiry_height server_pubkey exit_delta)"
| fund: "board_reachable X b \<Longrightarrow> bb_state b = Preparing \<Longrightarrow> board_reachable X (set_funding_details b amount utxo)"
| nonces: "board_reachable X b \<Longrightarrow> bb_state b = CanGenerateNonces \<Longrightarrow>
    generate_user_nonces X rnd b = (Ok b' :: (unit, BoardBuilder) outcome) \<Longrightarrow> board_reachable X b'"
| cosign: "board_reachable X
    (new_for_cosign user_pubkey expiry_height server_pubkey exit_delta amount utxo user_pub_nonce)"

inductive_cases board_reachableE: "board_reachable X b"

definition board_inv :: "BoardBuilder \<Rightarrow> bool" where
  "board_inv b \<longleftrightarrow>
     (case bb_state b of
        Preparing \<Rightarrow> bb_user_pub_nonce b = None \<and> bb_user_sec_nonce b = None
      | CanGenerateNonces \<Rightarrow> bb_amount b \<noteq> None \<and> bb_utxo b \<noteq> None
      | ServerCanCosign \<Rightarrow> bb_amount b \<noteq> None \<and> bb_utxo b \<noteq> None \<and> bb_user_pub_nonce b \<noteq> None
      | CanFinish \<Rightarrow> bb_amount b \<noteq> None \<and> bb_utxo b \<noteq> None \<and> bb_user_pub_nonce b \<noteq> None \<and>
          bb_user_sec_nonce b \<noteq> None \<and> locktime_ok (bb_expiry_height b))"

section \<open>Lemmas\<close>

lemma exit_tx_sighash_data_Ok:
  assumes "bb_amount b = Some amount" "bb_utxo b = Some utxo" "locktime_ok (bb_expiry_height b)"
  shows "exit_tx_sighash_data X b =
    (let taproot = board_funding_taproot X b;
         tx = create_exit_tx X utxo
           \<lparr>txo_value = amount, txo_script = taproot_script_pubkey X
              (exit_taproot X (bb_user_pubkey b) (bb_server_pubkey b) (bb_exit_delta b))\<rparr> None
     in Ok (ext_key_sighash X tx \<lparr>txo_value = amount, txo_script = taproot_script_pubkey X taproot\<rparr>,
            taproot, ext_txid X tx))"
  using assms by (simp add: exit_tx_sighash_data_def exit_tx_sighash_def Let_def)

lemma generate_user_nonces_Ok:
  assumes "generate_user_nonces X rnd b = Ok b'"
  shows "locktime_ok (bb_expiry_height b)" "\<exists>amount utxo sec pub c m.
    bb_amount b = Some amount \<and> bb_utxo b = Some utxo \<and> ext_nonce_gen X rnd c (bb_user_pubkey b) m = (sec, pub) \<and>
    b' = b\<lparr>bb_user_pub_nonce := Some pub, bb_user_sec_nonce := Some sec, bb_state := CanFinish\<rparr>"
  using assms
  by (auto simp: generate_user_nonces_def exit_tx_sighash_data_def and_then_eq_Inr expect_def Let_def
      split: if_splits option.splits prod.splits)

lemma board_reachable_inv: "board_reachable X b \<Longrightarrow> board_inv b"
proof (induction rule: board_reachable.induct)
  case (nonces b rnd b')
  from generate_user_nonces_Ok [OF nonces.hyps(3)] show ?case by (auto simp: board_inv_def)
qed (auto simp: board_inv_def BoardBuilder_new_def set_funding_details_def new_for_cosign_def)

text \<open>The exit transaction of a board, the output that it spends, and its key-spend message.\<close>

abbreviation board_exit_tx :: "externals \<Rightarrow> BoardBuilder \<Rightarrow> Amount \<Rightarrow> OutPoint \<Rightarrow> Transaction" where
  "board_exit_tx X b amount utxo \<equiv> create_exit_tx X utxo
     \<lparr>txo_value = amount, txo_script = taproot_script_pubkey X
        (exit_taproot X (bb_user_pubkey b) (bb_server_pubkey b) (bb_exit_delta b))\<rparr> None"

abbreviation board_funding_txout :: "externals \<Rightarrow> BoardBuilder \<Rightarrow> Amount \<Rightarrow> TxOut" where
  "board_funding_txout X b amount \<equiv>
     \<lparr>txo_value = amount, txo_script = taproot_script_pubkey X (board_funding_taproot X b)\<rparr>"

abbreviation board_vtxo ::
  "externals \<Rightarrow> BoardBuilder \<Rightarrow> Amount \<Rightarrow> OutPoint \<Rightarrow> Signature \<Rightarrow> Vtxo" where
  "board_vtxo X b amount utxo sig \<equiv>
     \<lparr>v_policy = Pubkey (bb_user_pubkey b), v_amount = amount,
      v_expiry_height = bb_expiry_height b, v_server_pubkey = bb_server_pubkey b,
      v_exit_delta = bb_exit_delta b, v_anchor_point = utxo,
      v_genesis = [\<lparr>gi_transition = Cosigned [bb_user_pubkey b, bb_server_pubkey b] sig,
                    gi_output_idx = 0, gi_other_outputs = []\<rparr>],
      v_point = \<lparr>op_txid = ext_txid X (board_exit_tx X b amount utxo), op_vout = 0\<rparr>\<rparr>"

text \<open>Completing the server's signature gives a signature for the funding output.\<close>

lemma board_signature:
  assumes laws: "musig_laws X" and gen: "generate_user_nonces X rnd b0 = (Ok b :: ('e, BoardBuilder) outcome)"
    and resp: "board_verify_cosign_response X b resp = (Ok True :: ('f, bool) outcome)"
    and key: "ext_public_key X user_key = bb_user_pubkey b"
    and fields: "bb_amount b = Some amount" "bb_utxo b = Some utxo"
      "bb_user_pub_nonce b = Some pub" "bb_user_sec_nonce b = Some sec"
  defines "msg \<equiv> ext_key_sighash X (board_exit_tx X b amount utxo) (board_funding_txout X b amount)"
  shows "\<exists>sig. snd (partial_sign X [bb_user_pubkey b, bb_server_pubkey b]
      (nonce_agg X [pub, bc_pub_nonce resp]) user_key sec msg
      (Some (ext_tap_tweak X (board_funding_taproot X b))) (Some [bc_partial_signature resp])) = Some sig \<and>
    ext_verify_schnorr X sig msg (ext_output_key X (board_funding_taproot X b))"
proof (rule two_party_finish [OF laws])
  from generate_user_nonces_Ok [OF gen] obtain c m where
    lt: "locktime_ok (bb_expiry_height b)" and gen_nonce: "ext_nonce_gen X rnd c (bb_user_pubkey b) m = (sec, pub)"
    using fields by auto
  then show "nonce_for X user_key sec pub" unfolding nonce_for_def key by blast
  show "verify_partial_sig X msg (ext_tap_tweak X (board_funding_taproot X b))
      (bb_server_pubkey b, bc_pub_nonce resp) (bb_user_pubkey b, pub) (bc_partial_signature resp)"
    using resp
    by (simp add: board_verify_cosign_response_def exit_tx_sighash_data_Ok [OF fields(1,2) lt] fields Let_def msg_def)
qed (simp_all add: board_funding_taproot_def cosign_taproot_def key)

lemma board_vtxo_valid:
  assumes "segwit_laws X" "locktime_ok (bb_expiry_height b)" "amount < u64_limit"
    and "ext_verify_schnorr X sig (ext_key_sighash X (board_exit_tx X b amount utxo) (board_funding_txout X b amount))
           (ext_output_key X (board_funding_taproot X b))"
    and "ext_txid X tx = op_txid utxo"
    and "nth_opt (tx_output tx) (unat (op_vout utxo)) = Some (board_funding_txout X b amount)"
  shows "valid_vtxo X (board_vtxo X b amount utxo sig) tx"
proof -
  let ?v = "board_vtxo X b amount utxo sig"
  let ?signed = "item_tx X (hd (v_genesis ?v)) utxo (next_output X ?v None amount) (bb_server_pubkey b) (bb_expiry_height b)"
  have point: "anchor_point_of X ?v tx = utxo" using assms(5) by (simp add: anchor_point_of_def)
  have strip: "strip_witness ?signed = strip_witness (board_exit_tx X b amount utxo)"
    by (simp add: strip_witness_def item_tx_def create_exit_tx_def next_output_def policy_txout_def policy_script_pubkey_def)
  have sig: "ext_verify_schnorr X sig (ext_key_sighash X ?signed (board_funding_txout X b amount))
      (ext_output_key X (board_funding_taproot X b))"
    using assms(4) segwit_lawsD(2) [OF assms(1) strip] by simp
  have amount: "onchain_amount ?v = Some amount"
    using assms(3) by (simp add: onchain_amount_def sum_amounts_def other_value_def)
  show ?thesis
    using assms(2,6) sig
    by (simp add: valid_vtxo_def amount point vtxo_locktimes_ok_def genesis_order_def outputs_standard_def
        transition_signed_def input_txout_def board_funding_taproot_def other_value_def)
qed

lemma board_vtxo_point:
  assumes "segwit_laws X" "locktime_ok (bb_expiry_height b)" "amount < u64_limit"
  shows "\<exists>item. (vtxo_transactions X (board_vtxo X b amount utxo sig) :: ('e, VtxoTxIterItem list) outcome) = Ok [item] \<and>
    ext_txid X (ii_tx item) = ext_txid X (board_exit_tx X b amount utxo) \<and>
    nth_opt (tx_output (ii_tx item)) 0 = Some (vtxo_txout X (board_vtxo X b amount utxo sig))"
proof -
  let ?v = "board_vtxo X b amount utxo sig"
  let ?tx = "item_tx X (hd (v_genesis ?v)) utxo (next_output X ?v None amount) (bb_server_pubkey b) (bb_expiry_height b)"
  have strip: "strip_witness ?tx = strip_witness (board_exit_tx X b amount utxo)"
    by (simp add: strip_witness_def item_tx_def create_exit_tx_def next_output_def policy_txout_def policy_script_pubkey_def)
  have "vtxo_locktimes_ok ?v" using assms(2) by (simp add: vtxo_locktimes_ok_def)
  from vtxo_transactions_run [OF this, where 'e = 'e and X = X] assms(3)
  have "(vtxo_transactions X ?v :: ('e, VtxoTxIterItem list) outcome) = Ok [\<lparr>ii_tx = ?tx, ii_output_idx = 0\<rparr>]"
    by (simp add: onchain_amount_def sum_amounts_def other_value_def)
  moreover have "nth_opt (tx_output ?tx) 0 = Some (vtxo_txout X ?v)"
    by (simp add: item_tx_def next_output_def vtxo_txout_def)
  ultimately show ?thesis using segwit_lawsD(1) [OF assms(1) strip] by simp
qed

text \<open>A board in \<open>CanFinish\<close> with the concrete instance, and the server's answer to it.\<close>

definition demo_board :: BoardBuilder where
  "demo_board = set_funding_details
     (BoardBuilder_new (2 # replicate 32 7) 800000 (2 # replicate 32 9) 144) 20000
     \<lparr>op_txid = replicate 32 1, op_vout = 0\<rparr>"

definition demo_board_finish :: BoardBuilder where
  "demo_board_finish = demo_board\<lparr>bb_user_pub_nonce := Some [5, 2], bb_user_sec_nonce := Some [5],
     bb_state := CanFinish\<rparr>"

definition demo_board_tx :: Transaction where
  "demo_board_tx = v3_tx [] [board_funding_txout demo_ext demo_board 20000]"

lemma demo_board_nonces: "generate_user_nonces demo_ext 5 demo_board = Ok demo_board_finish"
  by (simp add: generate_user_nonces_def demo_board_finish_def exit_tx_sighash_data_Ok demo_board_def
      set_funding_details_def BoardBuilder_new_def locktime_ok_def Let_def demo_ext_def)

lemma demo_board_fields [simp]:
  "bb_amount demo_board_finish = Some 20000" "bb_user_pubkey demo_board_finish = 2 # replicate 32 7"
  "bb_server_pubkey demo_board_finish = 2 # replicate 32 9" "bb_expiry_height demo_board_finish = 800000"
  "bb_utxo demo_board_finish = Some \<lparr>op_txid = replicate 32 1, op_vout = 0\<rparr>"
  "bb_user_pub_nonce demo_board_finish = Some [5, 2]" "bb_exit_delta demo_board_finish = 144"
  "bb_user_sec_nonce demo_board_finish = Some [5]" "bb_state demo_board_finish = CanFinish"
  "board_funding_taproot X demo_board_finish = board_funding_taproot X demo_board"
  by (simp_all add: demo_board_finish_def demo_board_def set_funding_details_def BoardBuilder_new_def
      board_funding_taproot_def)

lemma demo_board_tx_id: "ext_txid demo_ext demo_board_tx = replicate 32 1"
  by (simp add: demo_board_tx_def demo_ext_def)

lemma demo_board_tx_out:
  "nth_opt (tx_output demo_board_tx) 0 = Some (board_funding_txout demo_ext demo_board 20000)"
  by (simp add: demo_board_tx_def)

lemma demo_public_key: "ext_public_key demo_ext k = 2 # take 32 k"
  by (simp add: demo_ext_def)

section \<open>Properties\<close>

text \<open>
  C8: a board that the server answered correctly becomes a valid VTXO. When the user generated
  nonces, the server's cosign response verifies and the user signs with the key of the board,
  \<open>build_vtxo\<close> returns a VTXO that the validator accepts against every funding transaction that
  has the announced outpoint's id and pays the amount to \<open>funding_script_pubkey\<close> there; its only
  exit transaction creates the VTXO's output at the VTXO's point.
\<close>

theorem boarded_vtxo_is_valid:
  assumes "musig_laws X" "segwit_laws X"
    and gen: "generate_user_nonces X rnd b0 = (Ok b :: ('e, BoardBuilder) outcome)"
    and resp: "board_verify_cosign_response X b resp = (Ok True :: ('f, bool) outcome)"
    and key: "ext_public_key X user_key = bb_user_pubkey b"
    and amount: "bb_amount b = Some amount" "amount < u64_limit"
    and utxo: "bb_utxo b = Some utxo" "ext_txid X funding_tx = op_txid utxo"
    and spk: "funding_script_pubkey X b = (Ok spk :: ('g, ScriptBuf) outcome)"
    and out: "nth_opt (tx_output funding_tx) (unat (op_vout utxo)) = Some \<lparr>txo_value = amount, txo_script = spk\<rparr>"
  shows "\<exists>v item. board_build_vtxo X b resp user_key = Ok v \<and>
     v_policy v = Pubkey (bb_user_pubkey b) \<and> v_amount v = amount \<and> v_anchor_point v = utxo \<and>
     vtxo_validate X v funding_tx = Ok () \<and>
     (vtxo_transactions X v :: ('h, VtxoTxIterItem list) outcome) = Ok [item] \<and>
     v_point v = \<lparr>op_txid = ext_txid X (ii_tx item), op_vout = 0\<rparr> \<and>
     nth_opt (tx_output (ii_tx item)) 0 = Some (vtxo_txout X v)"
proof -
  from generate_user_nonces_Ok [OF gen] obtain pub sec where
    nonces: "bb_user_pub_nonce b = Some pub" "bb_user_sec_nonce b = Some sec" and
    lt: "locktime_ok (bb_expiry_height b)" by auto
  from board_signature [OF assms(1) gen resp key amount(1) utxo(1) nonces] obtain sig where
    sig: "snd (partial_sign X [bb_user_pubkey b, bb_server_pubkey b] (nonce_agg X [pub, bc_pub_nonce resp])
        user_key sec (ext_key_sighash X (board_exit_tx X b amount utxo) (board_funding_txout X b amount))
        (Some (ext_tap_tweak X (board_funding_taproot X b))) (Some [bc_partial_signature resp])) = Some sig"
    and valid: "ext_verify_schnorr X sig
        (ext_key_sighash X (board_exit_tx X b amount utxo) (board_funding_txout X b amount))
        (ext_output_key X (board_funding_taproot X b))" by blast
  have build: "board_build_vtxo X b resp user_key = Ok (board_vtxo X b amount utxo sig)"
    by (simp add: board_build_vtxo_def key exit_tx_sighash_data_Ok [OF amount(1) utxo(1) lt] nonces amount utxo
        sig Let_def BOARD_FUNDING_TX_VTXO_VOUT_def)
  have "spk = taproot_script_pubkey X (board_funding_taproot X b)"
    using spk lt by (simp add: funding_script_pubkey_def)
  then have "vtxo_validate X (board_vtxo X b amount utxo sig) funding_tx = Ok ()"
    using board_vtxo_valid [OF assms(2) lt amount(2) valid utxo(2)] out by (simp add: validate_iff)
  with build board_vtxo_point [OF assms(2) lt amount(2), where utxo = utxo and sig = sig and 'e = 'h] show ?thesis
    by auto
qed

theorem boarded_vtxo_is_valid_witness:
  "\<exists>v. board_build_vtxo demo_ext demo_board_finish \<lparr>bc_pub_nonce = [4, 1], bc_partial_signature = [1]\<rparr>
         (replicate 32 7) = Ok v \<and> vtxo_validate demo_ext v demo_board_tx = Ok ()"
proof -
  let ?resp = "\<lparr>bc_pub_nonce = [4, 1], bc_partial_signature = [1 :: byte]\<rparr>"
  have lt: "locktime_ok (bb_expiry_height demo_board_finish)" by (simp add: locktime_ok_def)
  have resp: "board_verify_cosign_response demo_ext demo_board_finish ?resp = (Ok True :: (unit, bool) outcome)"
    using lt by (simp add: board_verify_cosign_response_def exit_tx_sighash_data_Ok verify_partial_sig_def Let_def)
      (simp add: demo_ext_def)
  have spk: "funding_script_pubkey demo_ext demo_board_finish =
      (Ok (taproot_script_pubkey demo_ext (board_funding_taproot demo_ext demo_board)) :: (unit, ScriptBuf) outcome)"
    using lt by (simp add: funding_script_pubkey_def)
  have key: "ext_public_key demo_ext (replicate 32 7) = bb_user_pubkey demo_board_finish"
    by (simp add: demo_public_key)
  have "\<exists>v item. board_build_vtxo demo_ext demo_board_finish ?resp (replicate 32 7) = Ok v \<and>
     v_policy v = Pubkey (bb_user_pubkey demo_board_finish) \<and> v_amount v = 20000 \<and>
     v_anchor_point v = \<lparr>op_txid = replicate 32 1, op_vout = 0\<rparr> \<and>
     vtxo_validate demo_ext v demo_board_tx = Ok () \<and>
     (vtxo_transactions demo_ext v :: (unit, VtxoTxIterItem list) outcome) = Ok [item] \<and>
     v_point v = \<lparr>op_txid = ext_txid demo_ext (ii_tx item), op_vout = 0\<rparr> \<and>
     nth_opt (tx_output (ii_tx item)) 0 = Some (vtxo_txout demo_ext v)"
    by (rule boarded_vtxo_is_valid [OF demo_ext_laws(4,1) demo_board_nonces [where 'a = unit] resp key])
      (use spk in \<open>simp_all add: u64_limit_def demo_board_tx_id demo_board_tx_out\<close>)
  then show ?thesis by blast
qed

text \<open>
  the server's answer verifies at the user. When the server builds its own builder from the
  board's data and the user's public nonce and cosigns with the key of the server's public key,
  the user's builder accepts the response.
\<close>

theorem server_cosign_verifies:
  assumes "musig_laws X" and gen: "generate_user_nonces X rnd b0 = (Ok b :: ('e, BoardBuilder) outcome)"
    and amount: "bb_amount b = Some amount" and utxo: "bb_utxo b = Some utxo"
    and nonce: "bb_user_pub_nonce b = Some pub"
    and key: "ext_public_key X server_key = bb_server_pubkey b"
  shows "\<exists>resp. board_server_cosign X rnd'
        (new_for_cosign (bb_user_pubkey b) (bb_expiry_height b) (bb_server_pubkey b) (bb_exit_delta b) amount utxo pub)
        server_key = (Ok resp :: ('f, BoardCosignResponse) outcome) \<and>
     board_verify_cosign_response X b resp = (Ok True :: ('f, bool) outcome)"
proof -
  let ?s = "new_for_cosign (bb_user_pubkey b) (bb_expiry_height b) (bb_server_pubkey b) (bb_exit_delta b) amount utxo pub"
  have lt: "locktime_ok (bb_expiry_height b)" using generate_user_nonces_Ok [OF gen] by auto
  let ?data = "(ext_key_sighash X (board_exit_tx X b amount utxo) (board_funding_txout X b amount),
      board_funding_taproot X b, ext_txid X (board_exit_tx X b amount utxo))"
  have data: "exit_tx_sighash_data X ?s = (Ok ?data :: ('f, bytes \<times> TaprootSpendInfo \<times> Txid) outcome)"
    "exit_tx_sighash_data X b = (Ok ?data :: ('f, bytes \<times> TaprootSpendInfo \<times> Txid) outcome)"
    using lt amount utxo
    by (simp_all add: exit_tx_sighash_data_Ok new_for_cosign_def board_funding_taproot_def Let_def)
  obtain nonce' psig where sign: "deterministic_partial_sign X rnd' server_key [bb_user_pubkey b] [pub]
      (fst ?data) (Some (ext_tap_tweak X (board_funding_taproot X b))) = (nonce', psig)" by fastforce
  have "board_server_cosign X rnd' ?s server_key =
      (Ok \<lparr>bc_pub_nonce = nonce', bc_partial_signature = psig\<rparr> :: ('f, BoardCosignResponse) outcome)"
    using sign data(1) by (simp add: board_server_cosign_def new_for_cosign_def Let_def)
  then show ?thesis
    using data(2) two_party_cosign [OF assms(1) key sign]
    by (simp add: board_verify_cosign_response_def nonce)
qed

theorem server_cosign_verifies_witness:
  "\<exists>resp. board_server_cosign demo_ext 4 (new_for_cosign (2 # replicate 32 7) 800000 (2 # replicate 32 9) 144 20000
        \<lparr>op_txid = replicate 32 1, op_vout = 0\<rparr> [5, 2]) (replicate 32 9)
        = (Ok resp :: (unit, BoardCosignResponse) outcome) \<and>
     board_verify_cosign_response demo_ext demo_board_finish resp = (Ok True :: (unit, bool) outcome)"
  using server_cosign_verifies [OF demo_ext_laws(4) demo_board_nonces [where 'a = unit], of 20000
      "\<lparr>op_txid = replicate 32 1, op_vout = 0\<rparr>" "[5, 2]" "replicate 32 9" 4, where 'f = unit]
  by (simp add: demo_public_key)

text \<open>
  C32: no builder that the API can produce hits one of the \<open>expect("state invariant")\<close> panics. With
  a valid lock height, nonces are generated, the server cosigns, the response is verified and
  \<open>build_vtxo\<close> returns a VTXO or, for a wrong key, the error that names the expected key.
\<close>

theorem board_never_panics:
  assumes "board_reachable X b" "locktime_ok (bb_expiry_height b)"
  shows "case bb_state b of
      Preparing \<Rightarrow> \<exists>spk. funding_script_pubkey X b = (Ok spk :: ('e, ScriptBuf) outcome)
    | CanGenerateNonces \<Rightarrow> \<exists>b'. generate_user_nonces X rnd b = (Ok b' :: ('e, BoardBuilder) outcome) \<and> bb_state b' = CanFinish
    | ServerCanCosign \<Rightarrow> \<exists>r. board_server_cosign X rnd b key = (Ok r :: ('e, BoardCosignResponse) outcome)
    | CanFinish \<Rightarrow> (\<exists>ok. board_verify_cosign_response X b resp = (Ok ok :: ('e, bool) outcome)) \<and>
        (if ext_public_key X key = bb_user_pubkey b then \<exists>v. board_build_vtxo X b resp key = Ok v
         else board_build_vtxo X b resp key =
                err (IncorrectSigningKey (Some (bb_user_pubkey b)) (ext_public_key X key)))"
  using board_reachable_inv [OF assms(1)] assms(2)
  by (cases "bb_state b")
    (auto simp: board_inv_def funding_script_pubkey_def generate_user_nonces_def board_server_cosign_def
      board_verify_cosign_response_def board_build_vtxo_def exit_tx_sighash_data_Ok partial_sign_def Let_def
      split: prod.splits)

theorem board_never_panics_witness:
  "\<exists>v. board_build_vtxo demo_ext demo_board_finish \<lparr>bc_pub_nonce = [], bc_partial_signature = []\<rparr> (replicate 32 7) = Ok v"
proof -
  have "board_reachable demo_ext demo_board"
    unfolding demo_board_def by (intro board_reachable.intros) (simp add: BoardBuilder_new_def)
  then have "board_reachable demo_ext demo_board_finish"
    by (rule board_reachable.nonces [OF _ _ demo_board_nonces]) (simp add: demo_board_def set_funding_details_def)
  from board_never_panics [OF this, where key = "replicate 32 7" and rnd = 0 and 'e = unit
      and resp = "\<lparr>bc_pub_nonce = [], bc_partial_signature = []\<rparr>"]
  show ?thesis by (simp add: locktime_ok_def demo_public_key)
qed

end
