(* ===== verification/Ark_Spend.thy ===== *)
theory Ark_Spend
  imports Ark_Signed_Tree
begin

text \<open>
  Spending a VTXO out of round, independently of who builds the transactions: a genesis item with
  an arkoor transition on top of a valid VTXO gives a valid VTXO again, provided the values balance,
  the other outputs are standard and the signature is valid for the spent VTXO's output. The
  arkoor builders of \<open>lib/src/arkoor\<close> are shown to establish these conditions.

  The theory also states the contract between the two parties of a cosigning flow as a locale:
  what the server cosigns the user accepts, and what the user accepts it can finish.
\<close>

section \<open>VTXOs at their point\<close>

text \<open>
  The VTXO's point is the output of its last exit transaction that the last genesis item names.
  The validator does not check this; every builder establishes it.
\<close>

definition exit_tip :: "externals \<Rightarrow> Vtxo \<Rightarrow> Transaction" where
  "exit_tip X v =
     last (exit_chain X v (v_amount v + sum_list (map other_value (v_genesis v))) (v_anchor_point v) (v_genesis v))"

definition vtxo_at_point :: "externals \<Rightarrow> Vtxo \<Rightarrow> bool" where
  "vtxo_at_point X v \<longleftrightarrow>
     v_genesis v \<noteq> [] \<and>
     v_point v = \<lparr>op_txid = ext_txid X (exit_tip X v), op_vout = ucast (gi_output_idx (last (v_genesis v)))\<rparr> \<and>
     unat (gi_output_idx (last (v_genesis v))) \<le> length (gi_other_outputs (last (v_genesis v)))"

text \<open>A VTXO that is valid for the transaction its anchor names, and sits at its point.\<close>

definition sound_vtxo :: "externals \<Rightarrow> Vtxo \<Rightarrow> Transaction \<Rightarrow> bool" where
  "sound_vtxo X v anchor_tx \<longleftrightarrow>
     valid_vtxo X v anchor_tx \<and> vtxo_at_point X v \<and> ext_txid X anchor_tx = op_txid (v_anchor_point v)"

text \<open>What a spend turns a VTXO into.\<close>

definition spend_vtxo :: "externals \<Rightarrow> Vtxo \<Rightarrow> GenesisItem \<Rightarrow> VtxoPolicy \<Rightarrow> Amount \<Rightarrow> Vtxo" where
  "spend_vtxo X v item policy amount =
     v\<lparr>v_policy := policy, v_amount := amount, v_genesis := v_genesis v @ [item],
       v_point := \<lparr>op_txid = ext_txid X (item_tx X item (v_point v)
                     (policy_txout X policy amount (v_server_pubkey v) (v_exit_delta v) (v_expiry_height v))
                     (v_server_pubkey v) (v_expiry_height v)),
                   op_vout = ucast (gi_output_idx item)\<rparr>\<rparr>"

text \<open>What makes a spend valid.\<close>

definition spend_ok :: "externals \<Rightarrow> Vtxo \<Rightarrow> GenesisItem \<Rightarrow> VtxoPolicy \<Rightarrow> Amount \<Rightarrow> Signature \<Rightarrow> bool" where
  "spend_ok X v item policy amount sig \<longleftrightarrow>
     gi_transition item = Arkoor (v_policy v) (Some sig) \<and>
     amount + other_value item = v_amount v \<and>
     list_all (is_standard X) (gi_other_outputs item) \<and>
     unat (gi_output_idx item) \<le> length (gi_other_outputs item) \<and>
     policy_locktime_ok policy (v_expiry_height v) \<and>
     ext_verify_schnorr X sig
       (ext_key_sighash X (item_tx X item (v_point v)
          (policy_txout X policy amount (v_server_pubkey v) (v_exit_delta v) (v_expiry_height v))
          (v_server_pubkey v) (v_expiry_height v)) (vtxo_txout X v))
       (ext_output_key X (vtxo_output_taproot X v))"

section \<open>The chain of a spend\<close>

lemma exit_chain_snoc:
  assumes "items \<noteq> []" "amount = v_amount v + sum_list (map other_value items)"
    and same: "v_server_pubkey v' = v_server_pubkey v" "v_expiry_height v' = v_expiry_height v"
      "v_exit_delta v' = v_exit_delta v"
    and item: "gi_transition item = Arkoor (v_policy v) s"
  shows "exit_chain X v' amount prev (items @ [item]) =
    (let chain = exit_chain X v amount prev items
     in chain @ [item_tx X item \<lparr>op_txid = ext_txid X (last chain), op_vout = ucast (gi_output_idx (last items))\<rparr>
          (next_output X v' None (v_amount v - other_value item)) (v_server_pubkey v) (v_expiry_height v)])"
  using assms(1,2)
proof (induction items arbitrary: amount prev)
  case (Cons i rest)
  show ?case
  proof (cases rest)
    case Nil
    have "next_output X v' (Some item) (v_amount v) = next_output X v None (v_amount v)"
      by (simp add: next_output_def input_txout_def policy_txout_def policy_script_pubkey_def item same)
    then show ?thesis using Cons.prems(2) by (simp add: Nil Let_def same)
  next
    case (Cons j rest')
    have a: "amount - other_value i = v_amount v + sum_list (map other_value rest)" using Cons.prems(2) by simp
    have n: "next_output X v' (Some j) b = next_output X v (Some j) b" for b
      by (simp add: next_output_def input_txout_def same)
    let ?tx = "item_tx X i prev (next_output X v (Some j) (amount - other_value i)) (v_server_pubkey v) (v_expiry_height v)"
    let ?chain = "exit_chain X v (amount - other_value i)
      \<lparr>op_txid = ext_txid X ?tx, op_vout = ucast (gi_output_idx i)\<rparr> rest"
    have ne: "rest \<noteq> []" "?chain \<noteq> []" by (simp_all add: Cons Let_def)
    have "exit_chain X v' amount prev ((i # rest) @ [item]) =
        ?tx # exit_chain X v' (amount - other_value i) \<lparr>op_txid = ext_txid X ?tx, op_vout = ucast (gi_output_idx i)\<rparr> (rest @ [item])"
      "exit_chain X v amount prev (i # rest) = ?tx # ?chain"
      using Cons by (simp_all add: Let_def n same)
    then show ?thesis
      using Cons.IH [OF ne(1) a, of "\<lparr>op_txid = ext_txid X ?tx, op_vout = ucast (gi_output_idx i)\<rparr>"] ne
      by (simp add: Let_def)
  qed
qed simp

lemma chain_signed_snoc:
  assumes "items \<noteq> []" "length txs = length items"
  shows "chain_signed X v prev_tx prev_vout (items @ [item]) (txs @ [tx]) \<longleftrightarrow>
    chain_signed X v prev_tx prev_vout items txs \<and>
    transition_signed X v (last txs) (unat (gi_output_idx (last items))) (gi_transition item) tx"
  using assms
proof (induction items arbitrary: txs prev_tx prev_vout)
  case (Cons i rest)
  then obtain t ts where txs: "txs = t # ts" by (cases txs) auto
  show ?case
  proof (cases "rest = []")
    case True
    then show ?thesis using Cons.prems txs by simp
  next
    case False
    then have "ts \<noteq> []" using Cons.prems(2) txs by auto
    with False Cons.IH [of ts] Cons.prems(2) show ?thesis by (simp add: txs)
  qed
qed simp

lemma chain_signed_cong:
  assumes "v_server_pubkey v' = v_server_pubkey v" "v_expiry_height v' = v_expiry_height v"
    "v_exit_delta v' = v_exit_delta v"
  shows "chain_signed X v' prev_tx prev_vout items txs = chain_signed X v prev_tx prev_vout items txs"
proof (induction items arbitrary: prev_tx prev_vout txs)
  case (Cons item items)
  show ?case
    by (cases txs) (simp_all add: Cons.IH transition_signed_def assms cong: option.case_cong)
qed simp

lemma genesis_order_snoc:
  assumes "genesis_order ts" "is_arkoor t"
  shows "genesis_order (ts @ [t])"
  using assms
proof (induction ts)
  case Nil
  then show ?case by (cases t) (simp_all add: genesis_order_def)
next
  case (Cons t' ts)
  then show ?case by (simp add: genesis_order_Cons split: if_splits)
qed

lemma exit_chain_tip_output:
  assumes "items \<noteq> []" "unat (gi_output_idx (last items)) \<le> length (gi_other_outputs (last items))"
  shows "nth_opt (tx_output (last (exit_chain X v amount prev items))) (unat (gi_output_idx (last items)))
    = Some (vtxo_txout X v)"
  using assms
proof (induction items arbitrary: amount prev)
  case (Cons i rest)
  show ?case
  proof (cases "rest = []")
    case True
    then show ?thesis using Cons.prems item_tx_output_idx [of i]
      by (simp add: Let_def next_output_def vtxo_txout_def)
  next
    case False
    then have "exit_chain X v a p rest \<noteq> []" for a p
      by (metis length_exit_chain length_0_conv)
    with False Cons.IH Cons.prems show ?thesis by (simp add: Let_def)
  qed
qed simp

text \<open>The last exit transaction creates the VTXO's output at its point.\<close>

lemma exit_tip_output:
  "vtxo_at_point X v \<Longrightarrow>
   nth_opt (tx_output (exit_tip X v)) (unat (gi_output_idx (last (v_genesis v)))) = Some (vtxo_txout X v)"
  unfolding exit_tip_def vtxo_at_point_def by (intro exit_chain_tip_output) auto

section \<open>Spending keeps VTXOs sound\<close>

lemma spend_chain:
  assumes "vtxo_at_point X v" "spend_ok X v item policy amount sig"
  defines "tot \<equiv> v_amount v + sum_list (map other_value (v_genesis v))"
  shows "exit_chain X (spend_vtxo X v item policy amount) tot (v_anchor_point v) (v_genesis v @ [item]) =
    exit_chain X v tot (v_anchor_point v) (v_genesis v) @
      [item_tx X item (v_point v)
         (policy_txout X policy amount (v_server_pubkey v) (v_exit_delta v) (v_expiry_height v))
         (v_server_pubkey v) (v_expiry_height v)]"
proof -
  let ?v' = "spend_vtxo X v item policy amount"
  have "exit_chain X ?v' tot (v_anchor_point v) (v_genesis v @ [item]) =
    (let chain = exit_chain X v tot (v_anchor_point v) (v_genesis v)
     in chain @ [item_tx X item \<lparr>op_txid = ext_txid X (last chain), op_vout = ucast (gi_output_idx (last (v_genesis v)))\<rparr>
          (next_output X ?v' None (v_amount v - other_value item)) (v_server_pubkey v) (v_expiry_height v)])"
    by (rule exit_chain_snoc)
      (use assms(1,2) in \<open>simp_all add: vtxo_at_point_def spend_ok_def tot_def spend_vtxo_def\<close>)
  then show ?thesis
    using assms(1) by (simp add: vtxo_at_point_def exit_tip_def tot_def Let_def next_output_def spend_vtxo_def)
qed

lemma spend_total:
  assumes "spend_ok X v item policy amount sig"
  shows "onchain_amount (spend_vtxo X v item policy amount) = onchain_amount v"
    "v_amount (spend_vtxo X v item policy amount) +
       sum_list (map other_value (v_genesis (spend_vtxo X v item policy amount))) =
     v_amount v + sum_list (map other_value (v_genesis v))"
  using assms by (simp_all add: onchain_amount_def sum_amounts_def spend_vtxo_def spend_ok_def)

lemma spend_at_point:
  assumes "vtxo_at_point X v" "spend_ok X v item policy amount sig"
  shows "vtxo_at_point X (spend_vtxo X v item policy amount)"
proof -
  have "exit_tip X (spend_vtxo X v item policy amount) = item_tx X item (v_point v)
         (policy_txout X policy amount (v_server_pubkey v) (v_exit_delta v) (v_expiry_height v))
         (v_server_pubkey v) (v_expiry_height v)"
    unfolding exit_tip_def spend_total(2) [OF assms(2)] using spend_chain [OF assms] by (simp add: spend_vtxo_def)
  then show ?thesis using assms(2) by (simp add: vtxo_at_point_def spend_ok_def) (simp add: spend_vtxo_def)
qed

lemma spend_sound:
  assumes sound: "sound_vtxo X v anchor_tx" and ok: "spend_ok X v item policy amount sig"
  shows "sound_vtxo X (spend_vtxo X v item policy amount) anchor_tx"
proof -
  let ?v' = "spend_vtxo X v item policy amount"
  have valid: "valid_vtxo X v anchor_tx" and at: "vtxo_at_point X v"
    and anchor: "ext_txid X anchor_tx = op_txid (v_anchor_point v)"
    using sound by (simp_all add: sound_vtxo_def)
  have ne: "v_genesis v \<noteq> []" using at by (simp add: vtxo_at_point_def)
  from valid obtain a where a: "onchain_amount v = Some a"
    by (auto simp: valid_vtxo_def split: option.splits)
  have tot: "a = v_amount v + sum_list (map other_value (v_genesis v))"
    using a by (simp add: onchain_amount_eq_Some)
  have point: "anchor_point_of X v anchor_tx = v_anchor_point v" "anchor_point_of X ?v' anchor_tx = v_anchor_point v"
    using anchor by (simp_all add: anchor_point_of_def spend_vtxo_def)
  let ?chain = "exit_chain X v a (v_anchor_point v) (v_genesis v)"
  let ?tx = "item_tx X item (v_point v)
         (policy_txout X policy amount (v_server_pubkey v) (v_exit_delta v) (v_expiry_height v))
         (v_server_pubkey v) (v_expiry_height v)"
  have tip: "nth_opt (tx_output (last ?chain)) (unat (gi_output_idx (last (v_genesis v)))) = Some (vtxo_txout X v)"
    using exit_tip_output [OF at] by (simp add: exit_tip_def tot)
  have signed: "transition_signed X v (last ?chain) (unat (gi_output_idx (last (v_genesis v)))) (gi_transition item) ?tx"
    using ok tip by (simp add: transition_signed_def spend_ok_def vtxo_output_taproot_def)
  have "chain_signed X ?v' anchor_tx (unat (op_vout (v_anchor_point v))) (v_genesis v @ [item]) (?chain @ [?tx])"
    using valid a signed ne
    by (subst chain_signed_cong [of _ v])
      (simp_all add: chain_signed_snoc valid_vtxo_def point spend_vtxo_def)
  then have "valid_vtxo X ?v' anchor_tx"
    using valid a ne ok spend_chain [OF at ok] genesis_order_snoc [of "map gi_transition (v_genesis v)" "gi_transition item"]
    unfolding valid_vtxo_def spend_total(1) [OF ok]
    by (simp add: point tot [symmetric])
      (simp add: spend_vtxo_def spend_ok_def vtxo_locktimes_ok_def outputs_standard_def)
  with spend_at_point [OF at ok] anchor show ?thesis by (simp add: sound_vtxo_def) (simp add: spend_vtxo_def)
qed

section \<open>Spending to a list of outputs\<close>

text \<open>
  The genesis item of the \<open>i\<close>-th output of a transaction that spends a VTXO to a list of outputs
  and a fee anchor.
\<close>

definition spend_item :: "VtxoPolicy \<Rightarrow> Signature option \<Rightarrow> TxOut list \<Rightarrow> nat \<Rightarrow> GenesisItem" where
  "spend_item policy signature outs i =
     \<lparr>gi_transition = Arkoor policy signature, gi_output_idx = word_of_nat i, gi_other_outputs = drop_nth i outs\<rparr>"

abbreviation spend_tx :: "externals \<Rightarrow> OutPoint \<Rightarrow> TxOut list \<Rightarrow> Transaction" where
  "spend_tx X point outs \<equiv> v3_tx [plain_input point Sequence_ZERO []] (outs @ [fee_anchor X])"

lemma ucast_word_of_nat_byte: "i < 256 \<Longrightarrow> (ucast (word_of_nat i :: byte) :: u32) = word_of_nat i"
  by (metis unat_of_nat_small(1) word_of_nat_unat_byte)

lemma spend_item_tx:
  assumes "i < length outs" "i < 256"
  shows "strip_witness (item_tx X (spend_item policy s outs i) point (outs ! i) server expiry) =
    strip_witness (spend_tx X point outs)"
proof -
  have "take i (drop_nth i outs) @ outs ! i # drop i (drop_nth i outs) = outs"
    using take_drop_nth [OF assms(1)] by simp
  then have "take i (drop_nth i outs) @ outs ! i # drop i (drop_nth i outs) @ [fee_anchor X] = outs @ [fee_anchor X]"
    by (metis append_Cons append_assoc)
  then show ?thesis
    by (simp add: strip_witness_def item_tx_def spend_item_def unat_of_nat_small(1) [OF assms(2)])
qed

lemma spend_item_ok:
  assumes laws: "segwit_laws X" and i: "i < length outs" "i < 256"
    and out: "outs ! i = policy_txout X policy amount (v_server_pubkey v) (v_exit_delta v) (v_expiry_height v)"
    and sum: "sum_list (map txo_value outs) = v_amount v" and std: "list_all (is_standard X) outs"
    and lt: "policy_locktime_ok policy (v_expiry_height v)"
    and sig: "ext_verify_schnorr X sig (ext_key_sighash X (spend_tx X (v_point v) outs) (vtxo_txout X v))
      (ext_output_key X (vtxo_output_taproot X v))"
  shows "spend_ok X v (spend_item (v_policy v) (Some sig) outs i) policy amount sig"
proof -
  note strip = segwit_lawsD(2) [OF laws spend_item_tx [OF i, of X "v_policy v" "Some sig" "v_point v"
    "v_server_pubkey v" "v_expiry_height v"]]
  have "amount + sum_list (map txo_value (drop_nth i outs)) = v_amount v"
    using sum_list_drop_nth [of i "map txo_value outs"] i(1) sum out by (simp add: map_drop_nth)
  moreover have "list_all (is_standard X) (drop_nth i outs)"
    using std set_drop_nth_subset [of i outs] by (auto simp: list_all_iff)
  moreover have "i \<le> length (drop_nth i outs)" using i(1) length_drop_nth [OF i(1)] by simp
  ultimately show ?thesis
    using lt sig strip unat_of_nat_small(1) [OF i(2)]
    by (simp add: spend_ok_def out) (simp add: spend_item_def other_value_def)
qed

lemma spend_item_vtxo:
  assumes laws: "segwit_laws X" and i: "i < length outs" "i < 256"
    and out: "outs ! i = policy_txout X policy amount (v_server_pubkey v) (v_exit_delta v) (v_expiry_height v)"
  shows "spend_vtxo X v (spend_item p s outs i) policy amount =
    v\<lparr>v_policy := policy, v_amount := amount, v_genesis := v_genesis v @ [spend_item p s outs i],
      v_point := \<lparr>op_txid = ext_txid X (spend_tx X (v_point v) outs), op_vout = word_of_nat i\<rparr>\<rparr>"
  using segwit_lawsD(1) [OF laws spend_item_tx [OF i, of X p s "v_point v" "v_server_pubkey v" "v_expiry_height v"]]
  by (simp add: spend_vtxo_def out) (simp add: spend_item_def ucast_word_of_nat_byte i)

section \<open>The contract of a cosigning flow\<close>

text \<open>
  The user's side: a response that the user accepted can be finished to a good result. A package is
  a list of requests, each answered, checked and finished on its own.
\<close>

locale cosign_user =
  fixes ready :: "'request \<Rightarrow> bool"
    and verify :: "'request \<Rightarrow> 'response \<Rightarrow> bool"
    and finish :: "'request \<Rightarrow> 'response \<Rightarrow> 'result option"
    and good :: "'request \<Rightarrow> 'result \<Rightarrow> bool"
  assumes finish_good: "ready r \<Longrightarrow> verify r a \<Longrightarrow> \<exists>x. finish r a = Some x \<and> good r x"
begin

lemma finish_package:
  "list_all ready rs \<Longrightarrow> list_all2 verify rs as \<Longrightarrow>
   \<exists>xs. map2 finish rs as = map Some xs \<and> list_all2 good rs xs"
proof (induction rs arbitrary: as)
  case (Cons r rs)
  from Cons.prems(2) obtain a as' where as: "as = a # as'" "verify r a" "list_all2 verify rs as'"
    by (auto simp: list_all2_Cons1)
  with Cons obtain xs where xs: "map2 finish rs as' = map Some xs" "list_all2 good rs xs" by auto
  from Cons.prems(1) as(2) obtain x where "finish r a = Some x" "good r x" using finish_good by auto
  with xs as show ?case by (intro exI [of _ "x # xs"]) simp
qed simp

end

text \<open>With an honest server: what it cosigns the user accepts, so the whole flow succeeds.\<close>

locale cosign_flow = cosign_user +
  fixes cosign :: "'a \<Rightarrow> 'b option"
  assumes cosign_verifies: "ready r \<Longrightarrow> \<exists>a. cosign r = Some a \<and> verify r a"
begin

lemma flow: "ready r \<Longrightarrow> \<exists>a x. cosign r = Some a \<and> verify r a \<and> finish r a = Some x \<and> good r x"
  using cosign_verifies finish_good by blast

lemma cosign_package:
  "list_all ready rs \<Longrightarrow> \<exists>as. map cosign rs = map Some as \<and> list_all2 verify rs as"
proof (induction rs)
  case (Cons r rs)
  then obtain as where "map cosign rs = map Some as" "list_all2 verify rs as" by auto
  moreover from Cons.prems obtain a where "cosign r = Some a" "verify r a" using cosign_verifies by auto
  ultimately show ?case by (intro exI [of _ "a # as"]) simp
qed simp

lemma flow_package:
  assumes "list_all ready rs"
  shows "\<exists>as xs. map cosign rs = map Some as \<and> list_all2 verify rs as \<and>
    map2 finish rs as = map Some xs \<and> list_all2 good rs xs"
  using cosign_package [OF assms] finish_package [OF assms] by blast

end

end
