(* ===== verification/Ark_Arkoor.thy ===== *)
theory Ark_Arkoor
  imports Ark_Spend
begin

text \<open>
  Out-of-round payments (\<open>lib/src/arkoor/mod.rs\<close>) and packages of them
  (\<open>lib/src/arkoor/package.rs\<close>): one transaction spends one VTXO to at most two new ones; a package
  pays a request from several VTXOs. The value of \<open>LockTime::from_height\<close> is unwrapped when the
  taproot of a policy is built, so every function that builds one may panic.
\<close>

section \<open>Arkoor transactions\<close>

datatype ArkoorError = Unbalanced Amount Amount | Dust | TooManyOutputs

definition arkoor_sighash :: "externals \<Rightarrow> TxOut \<Rightarrow> Transaction \<Rightarrow> bytes" where
  "arkoor_sighash X prevout arkoor_tx = ext_key_sighash X arkoor_tx prevout"

definition unsigned_arkoor_tx :: "externals \<Rightarrow> Vtxo \<Rightarrow> TxOut list \<Rightarrow> Transaction" where
  "unsigned_arkoor_tx X input outputs =
     v3_tx [plain_input (v_point input) Sequence_ZERO []] (outputs @ [fee_anchor X])"

definition build_arkoor_vtxos ::
  "Vtxo \<Rightarrow> VtxoRequest list \<Rightarrow> TxOut list \<Rightarrow> Txid \<Rightarrow> Signature option \<Rightarrow> Vtxo list" where
  "build_arkoor_vtxos input outputs txouts arkoor_txid arkoor_signature =
     map (\<lambda>(idx, out).
       \<lparr>v_policy = vr_policy out, v_amount = vr_amount out, v_expiry_height = v_expiry_height input,
        v_server_pubkey = v_server_pubkey input, v_exit_delta = v_exit_delta input,
        v_anchor_point = v_anchor_point input,
        v_genesis = v_genesis input @
          [\<lparr>gi_transition = Arkoor (v_policy input) arkoor_signature, gi_output_idx = word_of_nat idx,
            gi_other_outputs = map snd (filter (\<lambda>(i, _). i \<noteq> idx) (enumerate 0 txouts))\<rparr>],
        v_point = \<lparr>op_txid = arkoor_txid, op_vout = word_of_nat idx\<rparr>\<rparr>)
       (enumerate 0 outputs)"

definition signed_arkoor_tx ::
  "externals \<Rightarrow> Vtxo \<Rightarrow> Signature \<Rightarrow> TxOut list \<Rightarrow> ('e, Transaction) outcome" where
  "signed_arkoor_tx X input signature outputs =
     fill_taproot_sigs (unsigned_arkoor_tx X input outputs) [signature]"

record ArkoorCosignResponse =
  ac_pub_nonce :: PublicNonce
  ac_partial_signature :: PartialSignature

record ArkoorBuilder =
  ab_input :: Vtxo
  ab_user_nonce :: PublicNonce
  ab_outputs :: "VtxoRequest list"

definition ArkoorBuilder_new ::
  "Vtxo \<Rightarrow> PublicNonce \<Rightarrow> VtxoRequest list \<Rightarrow> (ArkoorError, ArkoorBuilder) outcome" where
  "ArkoorBuilder_new input user_nonce outputs =
     (if list_ex (\<lambda>o'. vr_amount o' < P2TR_DUST) outputs then err Dust
      else
        and_then (expect (sum_amounts (map vr_amount outputs)) ''attempt to add with overflow'') (\<lambda>output_amount.
        if output_amount > v_amount input then err (Unbalanced (v_amount input) output_amount)
        else if length outputs > 2 then err TooManyOutputs
        else Ok \<lparr>ab_input = input, ab_user_nonce = user_nonce, ab_outputs = outputs\<rparr>))"

definition arkoor_txouts :: "externals \<Rightarrow> ArkoorBuilder \<Rightarrow> ('e, TxOut list) outcome" where
  "arkoor_txouts X b =
     (let input = ab_input b in
      if list_all (\<lambda>o'. policy_locktime_ok (vr_policy o') (v_expiry_height input)) (ab_outputs b)
      then Ok (map (\<lambda>o'. policy_txout X (vr_policy o') (vr_amount o') (v_server_pubkey input)
                      (v_exit_delta input) (v_expiry_height input)) (ab_outputs b))
      else panic ''LockTime::from_height'')"

text \<open>\<open>Vtxo::output_taproot\<close> and \<open>Vtxo::txout\<close> with the panic on an invalid height.\<close>

definition checked_output_taproot :: "externals \<Rightarrow> Vtxo \<Rightarrow> ('e, TaprootSpendInfo) outcome" where
  "checked_output_taproot X v =
     (if policy_locktime_ok (v_policy v) (v_expiry_height v) then Ok (vtxo_output_taproot X v)
      else panic ''LockTime::from_height'')"

definition checked_txout :: "externals \<Rightarrow> Vtxo \<Rightarrow> ('e, TxOut) outcome" where
  "checked_txout X v =
     (if policy_locktime_ok (v_policy v) (v_expiry_height v) then Ok (vtxo_txout X v)
      else panic ''LockTime::from_height'')"

definition arkoor_unsigned_transaction :: "externals \<Rightarrow> ArkoorBuilder \<Rightarrow> ('e, Transaction) outcome" where
  "arkoor_unsigned_transaction X b =
     and_then (arkoor_txouts X b) (\<lambda>txouts. Ok (unsigned_arkoor_tx X (ab_input b) txouts))"

definition arkoor_builder_sighash :: "externals \<Rightarrow> ArkoorBuilder \<Rightarrow> ('e, bytes) outcome" where
  "arkoor_builder_sighash X b =
     and_then (checked_txout X (ab_input b)) (\<lambda>prevout.
     and_then (arkoor_unsigned_transaction X b) (\<lambda>tx.
     Ok (arkoor_sighash X prevout tx)))"

definition arkoor_server_cosign ::
  "externals \<Rightarrow> nat \<Rightarrow> ArkoorBuilder \<Rightarrow> Keypair \<Rightarrow> ('e, ArkoorCosignResponse) outcome" where
  "arkoor_server_cosign X rnd b keypair =
     and_then (arkoor_builder_sighash X b) (\<lambda>sighash.
     and_then (checked_output_taproot X (ab_input b)) (\<lambda>taproot.
     let (pub_nonce, partial_signature) = deterministic_partial_sign X rnd keypair
           [vtxo_user_pubkey (ab_input b)] [ab_user_nonce b] sighash (Some (ext_tap_tweak X taproot))
     in Ok \<lparr>ac_pub_nonce = pub_nonce, ac_partial_signature = partial_signature\<rparr>))"

definition arkoor_verify_cosign_response ::
  "externals \<Rightarrow> ArkoorBuilder \<Rightarrow> ArkoorCosignResponse \<Rightarrow> ('e, bool) outcome" where
  "arkoor_verify_cosign_response X b server_cosign =
     and_then (arkoor_builder_sighash X b) (\<lambda>sighash.
     and_then (checked_output_taproot X (ab_input b)) (\<lambda>taproot.
     Ok (verify_partial_sig X sighash (ext_tap_tweak X taproot)
           (v_server_pubkey (ab_input b), ac_pub_nonce server_cosign)
           (vtxo_user_pubkey (ab_input b), ab_user_nonce b)
           (ac_partial_signature server_cosign))))"

definition unsigned_output_vtxos :: "externals \<Rightarrow> ArkoorBuilder \<Rightarrow> ('e, Vtxo list) outcome" where
  "unsigned_output_vtxos X b =
     and_then (arkoor_txouts X b) (\<lambda>txouts.
     let tx = unsigned_arkoor_tx X (ab_input b) txouts
     in Ok (build_arkoor_vtxos (ab_input b) (ab_outputs b) txouts (ext_txid X tx) None))"

definition arkoor_build_vtxos ::
  "externals \<Rightarrow> ArkoorBuilder \<Rightarrow> SecretNonce \<Rightarrow> Keypair \<Rightarrow> ArkoorCosignResponse \<Rightarrow>
   (IncorrectSigningKeyError, Vtxo list) outcome" where
  "arkoor_build_vtxos X b user_sec_nonce user_key cosign_resp =
     (let input = ab_input b in
      if ext_public_key X user_key \<noteq> vtxo_user_pubkey input
      then err (IncorrectSigningKey (Some (vtxo_user_pubkey input)) (ext_public_key X user_key))
      else
        and_then (arkoor_txouts X b) (\<lambda>txouts.
        let tx = unsigned_arkoor_tx X input txouts in
        and_then (checked_txout X input) (\<lambda>prevout.
        and_then (checked_output_taproot X input) (\<lambda>taproot.
        let sighash = arkoor_sighash X prevout tx;
            agg_nonce = nonce_agg X [ab_user_nonce b, ac_pub_nonce cosign_resp];
            final_sig = snd (partial_sign X [vtxo_user_pubkey input, v_server_pubkey input] agg_nonce
              user_key user_sec_nonce sighash (Some (ext_tap_tweak X taproot))
              (Some [ac_partial_signature cosign_resp]))
        in
        and_then (expect final_sig ''we provided the other sig'') (\<lambda>final_sig.
        Ok (build_arkoor_vtxos input (ab_outputs b) txouts (ext_txid X tx) (Some final_sig)))))))"

section \<open>Packages\<close>

datatype ArkoorPackageError =
    MissingChangePk
  | InvalidLength
  | MissingVtxo
  | InvalidRevocationSpk
  | InvalidUserNoncesLength
  | InvalidHtlcAmount
  | PackageArkoorError ArkoorError
  | PackageTooManyOutputs
  | PackageSigning IncorrectSigningKeyError

record ArkoorPackageBuilder =
  ap_arkoors :: "ArkoorBuilder list"
  ap_spending_tx_by_input :: "VtxoId \<rightharpoonup> Transaction"

text \<open>
  The amount that an input contributes and the change it returns; sub-dust change is dropped.
\<close>

definition package_split ::
  "Amount \<Rightarrow> Amount \<Rightarrow> PublicKey option \<Rightarrow> (ArkoorPackageError, Amount \<times> VtxoRequest list) outcome" where
  "package_split input_amount remaining_amount change_pubkey =
     (if remaining_amount \<le> input_amount then
        let change_amount = input_amount - remaining_amount in
        if change_amount < P2TR_DUST then Ok (remaining_amount, [])
        else and_then (ok_or change_pubkey MissingChangePk) (\<lambda>pk.
          Ok (remaining_amount, [\<lparr>vr_amount = change_amount, vr_policy = Pubkey pk\<rparr>]))
      else Ok (input_amount, []))"

fun package_loop ::
  "externals \<Rightarrow> PublicNonce list \<Rightarrow> VtxoPolicy \<Rightarrow> PublicKey option \<Rightarrow> nat \<Rightarrow> Amount \<Rightarrow> ArkoorPackageBuilder \<Rightarrow>
   Vtxo list \<Rightarrow> (ArkoorPackageError, ArkoorPackageBuilder) outcome" where
  "package_loop X user_nonces policy change_pubkey idx remaining_amount acc [] = Ok acc"
| "package_loop X user_nonces policy change_pubkey idx remaining_amount acc (input # inputs) =
     and_then (ok_or (nth_opt user_nonces idx) InvalidUserNoncesLength) (\<lambda>user_nonce.
     and_then (package_split (v_amount input) remaining_amount change_pubkey) (\<lambda>(output_amount, change).
     let pay_reqs = \<lparr>vr_amount = output_amount, vr_policy = policy\<rparr> # change in
     and_then (map_err PackageArkoorError (ArkoorBuilder_new input user_nonce pay_reqs)) (\<lambda>arkoor.
     and_then (arkoor_unsigned_transaction X arkoor) (\<lambda>tx.
     let acc' = \<lparr>ap_arkoors = ap_arkoors acc @ [arkoor],
                 ap_spending_tx_by_input = (ap_spending_tx_by_input acc)(vtxo_id input \<mapsto> tx)\<rparr>;
         remaining_amount' = remaining_amount - output_amount
     in if remaining_amount' = 0 then Ok acc'
        else package_loop X user_nonces policy change_pubkey (idx + 1) remaining_amount' acc' inputs))))"

definition ArkoorPackageBuilder_new ::
  "externals \<Rightarrow> Vtxo list \<Rightarrow> PublicNonce list \<Rightarrow> VtxoRequest \<Rightarrow> PublicKey option \<Rightarrow>
   (ArkoorPackageError, ArkoorPackageBuilder) outcome" where
  "ArkoorPackageBuilder_new X inputs user_nonces vtxo_request change_pubkey =
     package_loop X user_nonces (vr_policy vtxo_request) change_pubkey 0 (vr_amount vtxo_request)
       \<lparr>ap_arkoors = [], ap_spending_tx_by_input = Map.empty\<rparr> inputs"

fun from_arkoors_loop ::
  "externals \<Rightarrow> ArkoorBuilder list \<Rightarrow> (VtxoId \<rightharpoonup> Transaction) \<Rightarrow> ('e, VtxoId \<rightharpoonup> Transaction) outcome" where
  "from_arkoors_loop X [] m = Ok m"
| "from_arkoors_loop X (arkoor # arkoors) m =
     and_then (arkoor_unsigned_transaction X arkoor) (\<lambda>tx.
       from_arkoors_loop X arkoors (m(vtxo_id (ab_input arkoor) \<mapsto> tx)))"

definition from_arkoors ::
  "externals \<Rightarrow> ArkoorBuilder list \<Rightarrow> (ArkoorPackageError, ArkoorPackageBuilder) outcome" where
  "from_arkoors X arkoors =
     and_then (from_arkoors_loop X arkoors Map.empty) (\<lambda>m.
       Ok \<lparr>ap_arkoors = arkoors, ap_spending_tx_by_input = m\<rparr>)"

definition htlc_refund :: "Vtxo \<Rightarrow> PublicNonce \<Rightarrow> (ArkoorPackageError, ArkoorBuilder) outcome" where
  "htlc_refund v u =
     (case v_policy v of
        ServerHtlcSend _ _ _ \<Rightarrow>
          map_err PackageArkoorError (ArkoorBuilder_new v u
            [\<lparr>vr_amount = v_amount v, vr_policy = Pubkey (vtxo_user_pubkey v)\<rparr>])
      | _ \<Rightarrow> err InvalidRevocationSpk)"

definition new_htlc_revocation ::
  "externals \<Rightarrow> Vtxo list \<Rightarrow> PublicNonce list \<Rightarrow> (ArkoorPackageError, ArkoorPackageBuilder) outcome" where
  "new_htlc_revocation X htlc_vtxos user_nonces =
     and_then (collect_results (map2 htlc_refund htlc_vtxos user_nonces)) (from_arkoors X)"

definition package_inputs :: "ArkoorPackageBuilder \<Rightarrow> Vtxo list" where
  "package_inputs p = map ab_input (ap_arkoors p)"

definition spending_tx :: "ArkoorPackageBuilder \<Rightarrow> VtxoId \<Rightarrow> Transaction option" where
  "spending_tx p input_id = ap_spending_tx_by_input p input_id"

fun package_build_loop ::
  "externals \<Rightarrow> ArkoorBuilder list \<Rightarrow> ArkoorCosignResponse list \<Rightarrow> Keypair list \<Rightarrow> SecretNonce list \<Rightarrow>
   Vtxo option \<Rightarrow> (ArkoorPackageError, Vtxo list \<times> Vtxo option) outcome" where
  "package_build_loop X (arkoor # arkoors) (cosign # sigs) (keypair # keypairs) (sec_nonce # sec_nonces) change_vtxo =
     and_then (map_err PackageSigning (arkoor_build_vtxos X arkoor sec_nonce keypair cosign)) (\<lambda>vtxos.
     case vtxos of
       [] \<Rightarrow> err MissingVtxo
     | user_vtxo # others \<Rightarrow>
         and_then
           (case others of
              [] \<Rightarrow> Ok change_vtxo
            | vtxo # _ \<Rightarrow> if change_vtxo \<noteq> None then panic ''change vtxo already set'' else Ok (Some vtxo))
           (\<lambda>change_vtxo'.
         and_then (package_build_loop X arkoors sigs keypairs sec_nonces change_vtxo') (\<lambda>(sent_vtxos, change).
         Ok (user_vtxo # sent_vtxos, change))))"
| "package_build_loop X _ _ _ _ change_vtxo = Ok ([], change_vtxo)"

definition package_build_vtxos ::
  "externals \<Rightarrow> ArkoorPackageBuilder \<Rightarrow> ArkoorCosignResponse list \<Rightarrow> Keypair list \<Rightarrow> SecretNonce list \<Rightarrow>
   (ArkoorPackageError, Vtxo list \<times> Vtxo option) outcome" where
  "package_build_vtxos X p sigs keypairs sec_nonces =
     and_then (package_build_loop X (ap_arkoors p) sigs keypairs sec_nonces None) (\<lambda>(sent_vtxos, change_vtxo).
     if length sent_vtxos \<noteq> length (ap_arkoors p) then err InvalidLength
     else Ok (sent_vtxos, change_vtxo))"

definition package_new_vtxos :: "externals \<Rightarrow> ArkoorPackageBuilder \<Rightarrow> ('e, Vtxo list list) outcome" where
  "package_new_vtxos X p = collect_results (map (unsigned_output_vtxos X) (ap_arkoors p))"

definition package_server_cosign ::
  "externals \<Rightarrow> (nat \<Rightarrow> nat) \<Rightarrow> ArkoorPackageBuilder \<Rightarrow> Keypair \<Rightarrow> ('e, ArkoorCosignResponse list) outcome" where
  "package_server_cosign X rnd p keypair =
     collect_results (map (\<lambda>(i, arkoor). arkoor_server_cosign X (rnd i) arkoor keypair)
       (enumerate 0 (ap_arkoors p)))"

fun package_verify_loop ::
  "externals \<Rightarrow> ArkoorCosignResponse list \<Rightarrow> nat \<Rightarrow> ArkoorBuilder list \<Rightarrow> ('e, bool) outcome" where
  "package_verify_loop X server_cosign idx [] = Ok True"
| "package_verify_loop X server_cosign idx (builder # builders) =
     (case nth_opt server_cosign idx of
        Some cosign \<Rightarrow>
          and_then (arkoor_verify_cosign_response X builder cosign) (\<lambda>valid.
            if \<not> valid then Ok False else package_verify_loop X server_cosign (idx + 1) builders)
      | None \<Rightarrow> Ok False)"

definition package_verify_cosign_response ::
  "externals \<Rightarrow> ArkoorPackageBuilder \<Rightarrow> ArkoorCosignResponse list \<Rightarrow> ('e, bool) outcome" where
  "package_verify_cosign_response X p server_cosign = package_verify_loop X server_cosign 0 (ap_arkoors p)"

section \<open>Lemmas\<close>

subsection \<open>One arkoor\<close>

definition arkoor_heights_ok :: "ArkoorBuilder \<Rightarrow> bool" where
  "arkoor_heights_ok b \<longleftrightarrow>
     list_all (\<lambda>o'. policy_locktime_ok (vr_policy o') (v_expiry_height (ab_input b))) (ab_outputs b) \<and>
     policy_locktime_ok (v_policy (ab_input b)) (v_expiry_height (ab_input b))"

definition arkoor_outs :: "externals \<Rightarrow> ArkoorBuilder \<Rightarrow> TxOut list" where
  "arkoor_outs X b = map (\<lambda>o'. policy_txout X (vr_policy o') (vr_amount o') (v_server_pubkey (ab_input b))
     (v_exit_delta (ab_input b)) (v_expiry_height (ab_input b))) (ab_outputs b)"

text \<open>The message that both parties sign.\<close>

definition arkoor_msg :: "externals \<Rightarrow> ArkoorBuilder \<Rightarrow> bytes" where
  "arkoor_msg X b =
     ext_key_sighash X (spend_tx X (v_point (ab_input b)) (arkoor_outs X b)) (vtxo_txout X (ab_input b))"

lemma arkoor_txouts_eq:
  "arkoor_heights_ok b \<Longrightarrow> arkoor_txouts X b = Ok (arkoor_outs X b)"
  by (simp add: arkoor_txouts_def arkoor_heights_ok_def arkoor_outs_def Let_def)

lemma checked_input_eq:
  "arkoor_heights_ok b \<Longrightarrow> checked_txout X (ab_input b) = Ok (vtxo_txout X (ab_input b))"
  "arkoor_heights_ok b \<Longrightarrow> checked_output_taproot X (ab_input b) = Ok (vtxo_output_taproot X (ab_input b))"
  by (simp_all add: checked_txout_def checked_output_taproot_def arkoor_heights_ok_def)

lemma arkoor_unsigned_transaction_eq:
  "arkoor_heights_ok b \<Longrightarrow>
   arkoor_unsigned_transaction X b = Ok (spend_tx X (v_point (ab_input b)) (arkoor_outs X b))"
  by (simp add: arkoor_unsigned_transaction_def arkoor_txouts_eq unsigned_arkoor_tx_def)

lemma arkoor_builder_sighash_eq:
  "arkoor_heights_ok b \<Longrightarrow> arkoor_builder_sighash X b = Ok (arkoor_msg X b)"
  by (simp add: arkoor_builder_sighash_def arkoor_unsigned_transaction_eq checked_input_eq arkoor_msg_def
      arkoor_sighash_def)

lemma arkoor_bad_heights:
  "\<not> arkoor_heights_ok b \<Longrightarrow> arkoor_builder_sighash X b = (panic ''LockTime::from_height'' :: ('e, bytes) outcome)"
  by (auto simp: arkoor_builder_sighash_def arkoor_unsigned_transaction_def checked_txout_def arkoor_txouts_def
      arkoor_heights_ok_def Let_def)

text \<open>What the user's check of the server's response accepts.\<close>

definition arkoor_accepts :: "externals \<Rightarrow> ArkoorBuilder \<Rightarrow> ArkoorCosignResponse \<Rightarrow> bool" where
  "arkoor_accepts X b resp \<longleftrightarrow> arkoor_heights_ok b \<and>
     verify_partial_sig X (arkoor_msg X b) (ext_tap_tweak X (vtxo_output_taproot X (ab_input b)))
       (v_server_pubkey (ab_input b), ac_pub_nonce resp) (vtxo_user_pubkey (ab_input b), ab_user_nonce b)
       (ac_partial_signature resp)"

lemma arkoor_verify_iff:
  "arkoor_verify_cosign_response X b resp = (Ok True :: ('e, bool) outcome) \<longleftrightarrow> arkoor_accepts X b resp"
  by (cases "arkoor_heights_ok b")
    (simp_all add: arkoor_verify_cosign_response_def arkoor_builder_sighash_eq checked_input_eq
      arkoor_bad_heights arkoor_accepts_def)

lemma arkoor_server_cosign_accepted:
  assumes "musig_laws X" "arkoor_heights_ok b" "ext_public_key X server_key = v_server_pubkey (ab_input b)"
  shows "\<exists>resp. arkoor_server_cosign X rnd b server_key = (Ok resp :: ('e, ArkoorCosignResponse) outcome) \<and>
    arkoor_accepts X b resp"
proof -
  obtain n s where sign: "deterministic_partial_sign X rnd server_key [vtxo_user_pubkey (ab_input b)] [ab_user_nonce b]
      (arkoor_msg X b) (Some (ext_tap_tweak X (vtxo_output_taproot X (ab_input b)))) = (n, s)" by fastforce
  from two_party_cosign [OF assms(1,3) sign] assms(2) show ?thesis
    by (intro exI [of _ "\<lparr>ac_pub_nonce = n, ac_partial_signature = s\<rparr>"])
      (simp add: arkoor_server_cosign_def arkoor_builder_sighash_eq checked_input_eq sign arkoor_accepts_def)
qed

lemma vtxo_output_taproot_key:
  "internal_key (vtxo_output_taproot X v) = combine_keys X [vtxo_user_pubkey v, v_server_pubkey v]"
  by (simp add: vtxo_output_taproot_def vtxo_user_pubkey_def policy_taproot_internal_key)

lemma enumerate_others: "map snd (filter (\<lambda>(i, _). i \<noteq> idx) (enumerate 0 xs)) = drop_nth idx xs"
  using filter_enumerate_drop_nth [of "\<lambda>_. False" xs 0 idx] by (simp add: list_all_iff)

text \<open>The VTXO at each output, as a spend of the input.\<close>

lemma build_arkoor_vtxos_nth:
  assumes "segwit_laws X" "i < length (ab_outputs b)" "i < 256"
  shows "build_arkoor_vtxos (ab_input b) (ab_outputs b) (arkoor_outs X b)
      (ext_txid X (spend_tx X (v_point (ab_input b)) (arkoor_outs X b))) s ! i =
    spend_vtxo X (ab_input b) (spend_item (v_policy (ab_input b)) s (arkoor_outs X b) i)
      (vr_policy (ab_outputs b ! i)) (vr_amount (ab_outputs b ! i))"
proof -
  have i: "i < length (arkoor_outs X b)" using assms(2) by (simp add: arkoor_outs_def)
  have out: "arkoor_outs X b ! i = policy_txout X (vr_policy (ab_outputs b ! i)) (vr_amount (ab_outputs b ! i))
      (v_server_pubkey (ab_input b)) (v_exit_delta (ab_input b)) (v_expiry_height (ab_input b))"
    using assms(2) by (simp add: arkoor_outs_def)
  show ?thesis
    unfolding spend_item_vtxo [OF assms(1) i assms(3) out]
    using assms(2) by (simp add: build_arkoor_vtxos_def nth_enumerate_eq enumerate_others spend_item_def)
qed

lemma length_build_arkoor_vtxos [simp]:
  "length (build_arkoor_vtxos v outs txouts t s) = length outs"
  by (simp add: build_arkoor_vtxos_def)

text \<open>The builder that \<open>ArkoorBuilder::new\<close> returns.\<close>

definition arkoor_checked :: "Vtxo \<Rightarrow> VtxoRequest list \<Rightarrow> bool" where
  "arkoor_checked input outputs \<longleftrightarrow>
     list_all (\<lambda>o'. P2TR_DUST \<le> vr_amount o') outputs \<and> length outputs \<le> 2 \<and>
     sum_list (map vr_amount outputs) \<le> v_amount input \<and> sum_list (map vr_amount outputs) < u64_limit"

lemma ArkoorBuilder_new_Ok:
  "ArkoorBuilder_new input user_nonce outputs = Ok b \<longleftrightarrow>
     arkoor_checked input outputs \<and> b = \<lparr>ab_input = input, ab_user_nonce = user_nonce, ab_outputs = outputs\<rparr>"
proof -
  have "list_ex (\<lambda>o'. vr_amount o' < P2TR_DUST) outputs \<longleftrightarrow> \<not> list_all (\<lambda>o'. P2TR_DUST \<le> vr_amount o') outputs"
    by (auto simp: list_ex_iff list_all_iff not_le)
  then show ?thesis by (auto simp: ArkoorBuilder_new_def arkoor_checked_def sum_amounts_def split: if_splits)
qed

text \<open>What a user needs to finish an arkoor: the right key and its nonce, and balanced outputs.\<close>

definition arkoor_ready :: "externals \<Rightarrow> Transaction \<Rightarrow> ArkoorBuilder \<Rightarrow> SecretNonce \<Rightarrow> Keypair \<Rightarrow> bool" where
  "arkoor_ready X anchor_tx b sec user_key \<longleftrightarrow>
     musig_laws X \<and> segwit_laws X \<and> p2tr_laws X \<and> sound_vtxo X (ab_input b) anchor_tx \<and>
     arkoor_checked (ab_input b) (ab_outputs b) \<and>
     sum_list (map vr_amount (ab_outputs b)) = v_amount (ab_input b) \<and>
     nonce_for X user_key sec (ab_user_nonce b) \<and> ext_public_key X user_key = vtxo_user_pubkey (ab_input b)"

lemma arkoor_build_Ok:
  assumes "musig_laws X" "nonce_for X user_key sec (ab_user_nonce b)"
    and "ext_public_key X user_key = vtxo_user_pubkey (ab_input b)" "arkoor_accepts X b resp"
  shows "\<exists>sig. arkoor_build_vtxos X b sec user_key resp =
      Ok (build_arkoor_vtxos (ab_input b) (ab_outputs b) (arkoor_outs X b)
            (ext_txid X (spend_tx X (v_point (ab_input b)) (arkoor_outs X b))) (Some sig)) \<and>
    ext_verify_schnorr X sig (arkoor_msg X b) (ext_output_key X (vtxo_output_taproot X (ab_input b)))"
proof -
  have heights: "arkoor_heights_ok b" using assms(4) by (simp add: arkoor_accepts_def)
  from two_party_finish [OF assms(1) vtxo_output_taproot_key _ assms(2,3)] assms(4)
  obtain sig where sig: "snd (partial_sign X [vtxo_user_pubkey (ab_input b), v_server_pubkey (ab_input b)]
      (nonce_agg X [ab_user_nonce b, ac_pub_nonce resp]) user_key sec (arkoor_msg X b)
      (Some (ext_tap_tweak X (vtxo_output_taproot X (ab_input b)))) (Some [ac_partial_signature resp])) = Some sig"
    "ext_verify_schnorr X sig (arkoor_msg X b) (ext_output_key X (vtxo_output_taproot X (ab_input b)))"
    unfolding arkoor_accepts_def by blast
  have msg: "arkoor_sighash X (vtxo_txout X (ab_input b)) (spend_tx X (v_point (ab_input b)) (arkoor_outs X b)) = arkoor_msg X b"
    by (simp add: arkoor_sighash_def arkoor_msg_def)
  show ?thesis
    using sig heights assms(3)
    by (intro exI [of _ sig])
      (simp add: arkoor_build_vtxos_def arkoor_txouts_eq checked_input_eq unsigned_arkoor_tx_def msg Let_def)
qed

lemma arkoor_outs_standard:
  assumes "p2tr_laws X" "list_all (\<lambda>o'. P2TR_DUST \<le> vr_amount o') (ab_outputs b)"
  shows "list_all (is_standard X) (arkoor_outs X b)"
  using assms(2) p2tr_standard [OF assms(1)] by (auto simp: list_all_iff arkoor_outs_def)

text \<open>Every output of a finished arkoor is again a sound VTXO.\<close>

definition arkoor_result :: "externals \<Rightarrow> Transaction \<Rightarrow> ArkoorBuilder \<Rightarrow> Vtxo list \<Rightarrow> bool" where
  "arkoor_result X anchor_tx b vs \<longleftrightarrow>
     map v_policy vs = map vr_policy (ab_outputs b) \<and> map v_amount vs = map vr_amount (ab_outputs b) \<and>
     list_all (\<lambda>v. sound_vtxo X v anchor_tx) vs"

lemma arkoor_build_result:
  assumes ready: "arkoor_ready X anchor_tx b sec user_key" and resp: "arkoor_accepts X b resp"
  shows "\<exists>vs. arkoor_build_vtxos X b sec user_key resp = Ok vs \<and> arkoor_result X anchor_tx b vs"
proof -
  let ?v = "ab_input b" and ?outs = "arkoor_outs X b"
  note r = ready [unfolded arkoor_ready_def]
  from r resp arkoor_build_Ok obtain sig where
    build: "arkoor_build_vtxos X b sec user_key resp = Ok (build_arkoor_vtxos ?v (ab_outputs b) ?outs
            (ext_txid X (spend_tx X (v_point ?v) ?outs)) (Some sig))"
    and sig: "ext_verify_schnorr X sig (arkoor_msg X b) (ext_output_key X (vtxo_output_taproot X ?v))" by blast
  let ?vs = "build_arkoor_vtxos ?v (ab_outputs b) ?outs (ext_txid X (spend_tx X (v_point ?v) ?outs)) (Some sig)"
  have small: "i < 256" if "i < length (ab_outputs b)" for i
    using that r by (simp add: arkoor_checked_def)
  have nth: "?vs ! i = spend_vtxo X ?v (spend_item (v_policy ?v) (Some sig) ?outs i)
      (vr_policy (ab_outputs b ! i)) (vr_amount (ab_outputs b ! i))" if "i < length (ab_outputs b)" for i
    using build_arkoor_vtxos_nth [OF _ that small [OF that]] r by blast
  have sound: "sound_vtxo X (?vs ! i) anchor_tx" if i: "i < length (ab_outputs b)" for i
  proof -
    have "spend_ok X ?v (spend_item (v_policy ?v) (Some sig) ?outs i)
        (vr_policy (ab_outputs b ! i)) (vr_amount (ab_outputs b ! i)) sig"
    proof (rule spend_item_ok)
      show "list_all (is_standard X) ?outs" using r arkoor_outs_standard by (simp add: arkoor_checked_def)
      show "sum_list (map txo_value ?outs) = v_amount ?v"
        using r by (simp add: arkoor_outs_def comp_def)
      show "policy_locktime_ok (vr_policy (ab_outputs b ! i)) (v_expiry_height ?v)"
        using resp i by (simp add: arkoor_accepts_def arkoor_heights_ok_def list_all_length)
    qed (use r i small sig in \<open>simp_all add: arkoor_outs_def arkoor_msg_def\<close>)
    then show ?thesis unfolding nth [OF i] using spend_sound r by blast
  qed
  then have "arkoor_result X anchor_tx b ?vs"
    by (simp add: arkoor_result_def list_all_length list_eq_iff_nth_eq nth spend_vtxo_def)
  with build show ?thesis by blast
qed

subsection \<open>The contract between user and server\<close>

text \<open>The value of a call that returns without error.\<close>

definition ok_of :: "('e, 'a) outcome \<Rightarrow> 'a option" where
  "ok_of m = (case m of Inl _ \<Rightarrow> None | Inr x \<Rightarrow> Some x)"

lemma ok_of_simps [simp]: "ok_of (Ok x) = Some x" "ok_of (Inl e) = None"
  by (simp_all add: ok_of_def)

lemma ok_of_eq_Some: "ok_of m = Some x \<longleftrightarrow> m = Ok x"
  by (cases m) simp_all

text \<open>The confirmed transaction that a VTXO is anchored in, by its transaction id.\<close>

abbreviation anchor_tx_of :: "(Txid \<Rightarrow> Transaction) \<Rightarrow> Vtxo \<Rightarrow> Transaction" where
  "anchor_tx_of chain v \<equiv> chain (op_txid (v_anchor_point v))"

interpretation arkoor_user: cosign_user
  "\<lambda>(b, sec, key). arkoor_ready X (anchor_tx_of chain (ab_input b)) b sec key"
  "\<lambda>(b, sec, key). arkoor_accepts X b"
  "\<lambda>(b, sec, key) resp. ok_of (arkoor_build_vtxos X b sec key resp)"
  "\<lambda>(b, sec, key). arkoor_result X (anchor_tx_of chain (ab_input b)) b"
  for X chain
proof (unfold_locales, goal_cases)
  case (1 r a)
  then show ?case using arkoor_build_result by (cases r) (fastforce simp: ok_of_eq_Some)
qed

text \<open>The server's randomness is part of the request, its key the server's of the input.\<close>

interpretation arkoor: cosign_flow
  "\<lambda>(b, sec, key, rnd). arkoor_ready X (anchor_tx_of chain (ab_input b)) b sec key \<and> arkoor_heights_ok b \<and>
     ext_public_key X server_key = v_server_pubkey (ab_input b)"
  "\<lambda>(b, sec, key, rnd). arkoor_accepts X b"
  "\<lambda>(b, sec, key, rnd) resp. ok_of (arkoor_build_vtxos X b sec key resp)"
  "\<lambda>(b, sec, key, rnd). arkoor_result X (anchor_tx_of chain (ab_input b)) b"
  "\<lambda>(b, sec, key, rnd). ok_of (arkoor_server_cosign X rnd b server_key :: (unit, ArkoorCosignResponse) outcome)"
  for X chain server_key
proof (unfold_locales, goal_cases)
  case (1 r a)
  then show ?case using arkoor_build_result by (cases r) (fastforce simp: ok_of_eq_Some)
next
  case (2 r)
  obtain b sec key rnd where r: "r = (b, sec, key, rnd)" by (cases r) auto
  with 2 arkoor_server_cosign_accepted [of X b server_key rnd, where 'e = unit] show ?case
    by (auto simp: arkoor_ready_def ok_of_eq_Some)
qed

subsection \<open>Packages\<close>

definition arkoor_paid :: "ArkoorBuilder \<Rightarrow> Amount" where
  "arkoor_paid a = vr_amount (hd (ab_outputs a))"

text \<open>
  What the loop over the inputs produces: it pays from a prefix of the inputs, all of them but the
  last in full, and no arkoor loses a P2TR dust amount or more.
\<close>

definition package_pays :: "VtxoPolicy \<Rightarrow> Amount \<Rightarrow> Vtxo list \<Rightarrow> ArkoorBuilder list \<Rightarrow> bool" where
  "package_pays policy amount inputs as \<longleftrightarrow>
     map ab_input as = take (length as) inputs \<and>
     sum_list (map arkoor_paid as) = min amount (sum_list (map v_amount inputs)) \<and>
     list_all (\<lambda>a. arkoor_checked (ab_input a) (ab_outputs a) \<and>
       (\<exists>change. ab_outputs a = \<lparr>vr_amount = arkoor_paid a, vr_policy = policy\<rparr> # change) \<and>
       v_amount (ab_input a) < sum_list (map vr_amount (ab_outputs a)) + P2TR_DUST) as \<and>
     list_all (\<lambda>a. ab_outputs a = [\<lparr>vr_amount = v_amount (ab_input a), vr_policy = policy\<rparr>]) (butlast as)"

lemma package_split_Ok:
  assumes "package_split input_amount remaining change_pubkey = Ok (paid, change)"
  shows "if remaining \<le> input_amount
    then paid = remaining \<and> length change \<le> 1 \<and>
         input_amount < remaining + sum_list (map vr_amount change) + P2TR_DUST
    else paid = input_amount \<and> change = []"
  using assms
  by (cases change_pubkey) (auto simp: package_split_def Let_def P2TR_DUST_def split: if_splits)

lemma package_loop_Ok:
  assumes "package_loop X nonces policy change_pubkey idx amount acc inputs = Ok p"
  shows "\<exists>as. ap_arkoors p = ap_arkoors acc @ as \<and> package_pays policy amount inputs as \<and>
    map ab_user_nonce as = take (length as) (drop idx nonces) \<and>
    (from_arkoors_loop X as (ap_spending_tx_by_input acc) :: ('e, VtxoId \<rightharpoonup> Transaction) outcome)
      = Ok (ap_spending_tx_by_input p)"
  using assms
proof (induction inputs arbitrary: idx amount acc)
  case Nil
  then show ?case by (simp add: package_pays_def)
next
  case (Cons input inputs)
  from Cons.prems obtain nonce paid change arkoor tx where
    nonce: "nth_opt nonces idx = Some nonce" and
    split: "package_split (v_amount input) amount change_pubkey = Ok (paid, change)" and
    new: "ArkoorBuilder_new input nonce (\<lparr>vr_amount = paid, vr_policy = policy\<rparr> # change) = Ok arkoor" and
    tx: "arkoor_unsigned_transaction X arkoor = (Ok tx :: (ArkoorPackageError, Transaction) outcome)" and
    rest: "(let acc' = \<lparr>ap_arkoors = ap_arkoors acc @ [arkoor],
                 ap_spending_tx_by_input = (ap_spending_tx_by_input acc)(vtxo_id input \<mapsto> tx)\<rparr>
      in if amount - paid = 0 then Ok acc'
         else package_loop X nonces policy change_pubkey (idx + 1) (amount - paid) acc' inputs) = Ok p"
    by (auto simp: and_then_eq_Inr Let_def ok_or_def split: option.splits)
  have tx': "arkoor_unsigned_transaction X arkoor = (Ok tx :: ('e, Transaction) outcome)"
    using tx by (cases "arkoor_txouts X arkoor :: (ArkoorPackageError, TxOut list) outcome")
      (auto simp: arkoor_unsigned_transaction_def arkoor_txouts_def Let_def split: if_splits)
  have arkoor: "arkoor_checked input (\<lparr>vr_amount = paid, vr_policy = policy\<rparr> # change)"
    "arkoor = \<lparr>ab_input = input, ab_user_nonce = nonce, ab_outputs = \<lparr>vr_amount = paid, vr_policy = policy\<rparr> # change\<rparr>"
    using new by (simp_all add: ArkoorBuilder_new_Ok)
  have nonces: "drop idx nonces = nonce # drop (Suc idx) nonces"
    using nonce by (metis Cons_nth_drop_Suc nth_opt_eq_Some)
  note s = package_split_Ok [OF split]
  show ?case
  proof (cases "amount - paid = 0")
    case True
    with s arkoor have "amount \<le> v_amount input" by (auto split: if_splits)
    with True s rest arkoor nonces tx' show ?thesis
      by (intro exI [of _ "[arkoor]"]) (auto simp: package_pays_def arkoor_paid_def Let_def)
  next
    case False
    with s have full: "v_amount input < amount" "paid = v_amount input" "change = []" by (auto split: if_splits)
    let ?acc = "\<lparr>ap_arkoors = ap_arkoors acc @ [arkoor],
                 ap_spending_tx_by_input = (ap_spending_tx_by_input acc)(vtxo_id input \<mapsto> tx)\<rparr>"
    from False rest Cons.IH [of "idx + 1" "amount - paid" ?acc] obtain as where
      as: "ap_arkoors p = (ap_arkoors acc @ [arkoor]) @ as" "package_pays policy (amount - paid) inputs as"
      "map ab_user_nonce as = take (length as) (drop (Suc idx) nonces)"
      "(from_arkoors_loop X as ((ap_spending_tx_by_input acc)(vtxo_id input \<mapsto> tx)) :: ('e, VtxoId \<rightharpoonup> Transaction) outcome)
        = Ok (ap_spending_tx_by_input p)"
      by (auto simp: Let_def simp del: fun_upd_apply)
    from as full arkoor nonces tx' show ?thesis
      by (intro exI [of _ "arkoor # as"]) (auto simp: package_pays_def arkoor_paid_def P2TR_DUST_def)
  qed
qed

lemma package_new_pays:
  assumes "ArkoorPackageBuilder_new X inputs nonces req change_pubkey = Ok p"
  shows "package_pays (vr_policy req) (vr_amount req) inputs (ap_arkoors p)" "from_arkoors X (ap_arkoors p) = Ok p"
  using package_loop_Ok [OF assms [unfolded ArkoorPackageBuilder_new_def], where 'e = ArkoorPackageError]
  by (auto simp: from_arkoors_def)

lemma package_verify_iff:
  "package_verify_loop X sigs idx as = (Ok True :: ('e, bool) outcome) \<longleftrightarrow>
     length as \<le> length (drop idx sigs) \<and> list_all2 (arkoor_accepts X) as (take (length as) (drop idx sigs))"
proof (induction as arbitrary: idx)
  case (Cons a as)
  show ?case
  proof (cases "idx < length sigs")
    case True
    then have d: "drop idx sigs = sigs ! idx # drop (Suc idx) sigs" by (simp add: Cons_nth_drop_Suc)
    have "arkoor_verify_cosign_response X a (sigs ! idx) = (Ok True :: ('e, bool) outcome) \<longleftrightarrow> arkoor_accepts X a (sigs ! idx)"
      by (rule arkoor_verify_iff)
    then have "package_verify_loop X sigs idx (a # as) = (Ok True :: ('e, bool) outcome) \<longleftrightarrow>
        arkoor_accepts X a (sigs ! idx) \<and> package_verify_loop X sigs (Suc idx) as = (Ok True :: ('e, bool) outcome)"
      using True by (auto simp: nth_opt_def and_then_eq_Inr)
    then show ?thesis by (simp add: d Cons.IH [of "Suc idx"]) auto
  qed (simp add: nth_opt_def)
qed simp

lemma package_build_loop_Ok:
  assumes "length secs = length as" "length keys = length as" "length as \<le> length sigs"
    and "map2 (\<lambda>(a, sec, key) s. arkoor_build_vtxos X a sec key s) (zip as (zip secs keys)) sigs = map Ok vss"
    and "list_all (\<lambda>vs. vs \<noteq> []) vss" "list_all (\<lambda>vs. length vs = 1) (butlast vss)"
  shows "package_build_loop X as sigs keys secs None = Ok (map hd vss, peek (concat (map tl vss)))"
  using assms
proof (induction as arbitrary: secs keys sigs vss)
  case Nil
  then show ?case by simp
next
  case (Cons a as)
  from Cons.prems(1,2,3) obtain sec secs' key keys' s sigs' where
    eqs: "secs = sec # secs'" "keys = key # keys'" "sigs = s # sigs'"
    by (cases secs; cases keys; cases sigs) auto
  with Cons.prems(4) obtain vs vss' where vss: "vss = vs # vss'" "arkoor_build_vtxos X a sec key s = Ok vs"
    and rest: "map2 (\<lambda>(a, sec, key) s. arkoor_build_vtxos X a sec key s) (zip as (zip secs' keys')) sigs' = map Ok vss'"
    by (cases vss) auto
  obtain v more where vs: "vs = v # more" using Cons.prems(5) vss by (cases vs) auto
  show ?case
  proof (cases "as = []")
    case True
    with rest have "vss' = []" by simp
    with True vs vss eqs show ?thesis by (cases more) auto
  next
    case False
    with rest eqs Cons.prems(1,2,3) have "vss' \<noteq> []" by (cases as; cases secs'; cases keys'; cases sigs') auto
    with Cons.prems(6) vss vs have "more = []" "list_all (\<lambda>vs. length vs = 1) (butlast vss')" by auto
    with Cons.IH [of secs' keys' sigs' vss'] Cons.prems vss vs eqs rest show ?thesis by simp
  qed
qed

text \<open>The results of all arkoors of a package whose responses were verified.\<close>

lemma package_results:
  assumes lens: "length secs = length as" "length keys = length as" "length as \<le> length sigs"
    and accepts: "list_all2 (arkoor_accepts X) as (take (length as) sigs)"
    and ready: "\<And>i. i < length as \<Longrightarrow>
      arkoor_ready X (anchor_tx_of chain (ab_input (as ! i))) (as ! i) (secs ! i) (keys ! i)"
  shows "\<exists>vss. map2 (\<lambda>(a, sec, key) s. arkoor_build_vtxos X a sec key s) (zip as (zip secs keys)) sigs = map Ok vss \<and>
    list_all2 (\<lambda>a vs. arkoor_result X (anchor_tx_of chain (ab_input a)) a vs) as vss"
proof -
  let ?rs = "zip as (zip secs keys)"
  have len: "length ?rs = length as" using lens by simp
  have "list_all (\<lambda>(b, sec, key). arkoor_ready X (anchor_tx_of chain (ab_input b)) b sec key) ?rs"
    using lens ready by (simp add: list_all_length)
  moreover have "list_all2 (\<lambda>(b, sec, key). arkoor_accepts X b) ?rs (take (length as) sigs)"
    using lens accepts by (simp add: list_all2_conv_all_nth)
  ultimately obtain vss where
    vss: "map2 (\<lambda>(b, sec, key) resp. ok_of (arkoor_build_vtxos X b sec key resp)) ?rs (take (length as) sigs) = map Some vss"
    "list_all2 (\<lambda>(b, sec, key). arkoor_result X (anchor_tx_of chain (ab_input b)) b) ?rs vss"
    using arkoor_user.finish_package [where X = X and chain = chain] by blast
  have lvss: "length vss = length as" using vss(2) len by (simp add: list_all2_conv_all_nth)
  have "arkoor_build_vtxos X (as ! i) (secs ! i) (keys ! i) (sigs ! i) = Ok (vss ! i)" if "i < length as" for i
    using arg_cong [OF vss(1), of "\<lambda>xs. xs ! i"] that lens lvss by (simp add: ok_of_eq_Some)
  moreover have "arkoor_result X (anchor_tx_of chain (ab_input (as ! i))) (as ! i) (vss ! i)" if "i < length as" for i
    using vss(2) that lens by (simp add: list_all2_conv_all_nth)
  ultimately show ?thesis
    using lens lvss by (intro exI [of _ vss]) (simp add: list_eq_iff_nth_eq list_all2_conv_all_nth)
qed

lemma arkoor_result_heads:
  assumes "arkoor_result X tx a vs" "ab_outputs a = \<lparr>vr_amount = paid, vr_policy = policy\<rparr> # change"
  shows "v_amount (hd vs) = paid" "v_policy (hd vs) = policy" "vs \<noteq> []" "length vs = length (ab_outputs a)"
proof -
  show "length vs = length (ab_outputs a)" using assms(1) by (metis arkoor_result_def length_map)
  then show ne: "vs \<noteq> []" using assms(2) by auto
  show "v_amount (hd vs) = paid" "v_policy (hd vs) = policy"
    using assms ne by (auto simp: arkoor_result_def neq_Nil_conv)
qed

text \<open>The VTXOs of a package are those of its arkoors; the first ones are paid to the recipient.\<close>

lemma package_build_result:
  assumes pays: "package_pays policy amount inputs as" and enough: "amount \<le> sum_list (map v_amount inputs)"
    and lens: "length secs = length as" "length keys = length as" "length as \<le> length sigs"
    and build: "map2 (\<lambda>(a, sec, key) s. arkoor_build_vtxos X a sec key s) (zip as (zip secs keys)) sigs = map Ok vss"
    and results: "list_all2 (\<lambda>a vs. arkoor_result X (anchor_tx_of chain (ab_input a)) a vs) as vss"
  shows "\<exists>sent change. package_build_loop X as sigs keys secs None = Ok (sent, change) \<and> length sent = length as \<and>
    sum_list (map v_amount sent) = amount \<and> (\<forall>v \<in> set sent. v_policy v = policy) \<and>
    set sent \<union> set_option change \<subseteq> \<Union> (set ` set vss)"
proof -
  have len: "length vss = length as" using results by (simp add: list_all2_conv_all_nth)
  have heads: "v_amount (hd (vss ! i)) = arkoor_paid (as ! i)" "v_policy (hd (vss ! i)) = policy"
    "vss ! i \<noteq> []" "length (vss ! i) = length (ab_outputs (as ! i))" if i: "i < length as" for i
  proof -
    from pays i obtain change where
      out: "ab_outputs (as ! i) = \<lparr>vr_amount = arkoor_paid (as ! i), vr_policy = policy\<rparr> # change"
      by (auto simp: package_pays_def list_all_length)
    from results i have "arkoor_result X (anchor_tx_of chain (ab_input (as ! i))) (as ! i) (vss ! i)"
      by (simp add: list_all2_conv_all_nth)
    from arkoor_result_heads [OF this out] show "v_amount (hd (vss ! i)) = arkoor_paid (as ! i)"
      "v_policy (hd (vss ! i)) = policy" "vss ! i \<noteq> []" "length (vss ! i) = length (ab_outputs (as ! i))" .
  qed
  have loop: "package_build_loop X as sigs keys secs None = Ok (map hd vss, peek (concat (map tl vss)))"
    by (rule package_build_loop_Ok [OF lens build])
      (use pays heads len in \<open>auto simp: list_all_length nth_butlast package_pays_def\<close>)
  have "map v_amount (map hd vss) = map arkoor_paid as"
    using heads(1) len by (simp add: list_eq_iff_nth_eq)
  then have sum: "sum_list (map v_amount (map hd vss)) = amount"
    using pays enough by (simp add: package_pays_def)
  have policy: "\<forall>v \<in> set (map hd vss). v_policy v = policy"
    using heads(2) len by (auto simp: in_set_conv_nth)
  have "set (tl xs) \<subseteq> set xs" "set_option (peek xs) \<subseteq> set xs" for xs :: "Vtxo list" by (cases xs; auto)+
  then have "set_option (peek (concat (map tl vss))) \<subseteq> \<Union> (set ` set vss)" by fastforce
  moreover have "set (map hd vss) \<subseteq> \<Union> (set ` set vss)"
  proof
    fix v
    assume "v \<in> set (map hd vss)"
    then obtain i where "i < length vss" "v = hd (vss ! i)" by (auto simp: in_set_conv_nth)
    with heads(3) [of i] len hd_in_set have "v \<in> set (vss ! i)" "vss ! i \<in> set vss" by simp_all
    then show "v \<in> \<Union> (set ` set vss)" by blast
  qed
  ultimately show ?thesis using loop sum policy len by auto
qed

text \<open>An arkoor that pays less than its input holds does not validate any more.\<close>

lemma smaller_vtxo_invalid:
  assumes valid: "valid_vtxo X v anchor_tx" and ne: "v_genesis v \<noteq> []"
    and v': "v' = v\<lparr>v_policy := policy, v_amount := amount, v_genesis := v_genesis v @ [item], v_point := p\<rparr>"
    and less: "amount + other_value item < v_amount v"
  shows "\<exists>expected found. vtxo_validate X v' anchor_tx = err (IncorrectChainAnchor expected found)"
proof -
  let ?vout = "unat (op_vout (v_anchor_point v))"
  let ?first = "gi_transition (hd (v_genesis v))"
  from valid obtain a where a: "onchain_amount v = Some a"
    and out: "nth_opt (tx_output anchor_tx) ?vout =
      Some (input_txout X ?first a (v_server_pubkey v) (v_expiry_height v) (v_exit_delta v))"
    and lt: "transition_locktime_ok ?first (v_expiry_height v)"
    using ne by (cases "v_genesis v") (auto simp: valid_vtxo_def vtxo_locktimes_ok_def split: option.splits)
  have same: "v_anchor_point v' = v_anchor_point v" "v_expiry_height v' = v_expiry_height v"
    "v_server_pubkey v' = v_server_pubkey v" "v_exit_delta v' = v_exit_delta v"
    and gen: "nth_opt (v_genesis v') 0 = Some (hd (v_genesis v))"
    using ne by (simp_all add: v' nth_opt_def hd_conv_nth nth_append)
  define a' where "a' = amount + other_value item + sum_list (map other_value (v_genesis v))"
  have a': "onchain_amount v' = Some a'" "a' \<noteq> a"
    using a less unfolding onchain_amount_eq_Some by (simp_all add: v' a'_def)
  have "input_txout X ?first a (v_server_pubkey v) (v_expiry_height v) (v_exit_delta v) \<noteq>
      input_txout X ?first a' (v_server_pubkey v) (v_expiry_height v) (v_exit_delta v)"
    using a'(2) by (simp add: input_txout_def)
  then show ?thesis
    unfolding vtxo_validate_def using out lt gen a'(1) by (simp add: same Let_def)
qed

section \<open>A concrete arkoor\<close>

definition demo_input :: Vtxo where
  "demo_input = demo_vtxo\<lparr>v_anchor_point := \<lparr>op_txid = replicate 32 2, op_vout = 1\<rparr>\<rparr>"

lemma demo_input_fields [simp]:
  "v_amount demo_input = 1000" "v_expiry_height demo_input = 800000" "v_server_pubkey demo_input = replicate 33 3"
  "v_anchor_point demo_input = \<lparr>op_txid = replicate 32 2, op_vout = 1\<rparr>" "v_policy demo_input = Pubkey (replicate 33 2)"
  "vtxo_user_pubkey demo_input = replicate 33 2"
  by (simp_all add: demo_input_def demo_vtxo_def vtxo_user_pubkey_def)

lemma demo_input_sound: "sound_vtxo demo_ext demo_input demo_anchor_tx"
proof -
  have "valid_vtxo demo_ext demo_input demo_anchor_tx"
    unfolding demo_input_def by (rule demo_vtxo_valid)
  moreover have "vtxo_at_point demo_ext demo_input"
    by (simp add: vtxo_at_point_def exit_tip_def demo_input_def demo_vtxo_def Let_def)
      (simp add: demo_ext_def item_tx_def)
  moreover have "ext_txid demo_ext demo_anchor_tx = op_txid (v_anchor_point demo_input)"
    by (simp add: demo_ext_def demo_anchor_tx_def)
  ultimately show ?thesis by (simp add: sound_vtxo_def)
qed

definition demo_response :: ArkoorCosignResponse where
  "demo_response = \<lparr>ac_pub_nonce = [8, 1], ac_partial_signature = [1]\<rparr>"

lemma demo_accepts:
  "arkoor_heights_ok b \<Longrightarrow> arkoor_accepts demo_ext b demo_response"
  by (simp add: arkoor_accepts_def verify_partial_sig_def demo_response_def Let_def) (simp add: demo_ext_def)

lemma demo_user_key:
  "nonce_for demo_ext (replicate 32 2) [5] [5, 1]" "ext_public_key demo_ext (replicate 32 2) = replicate 33 2"
proof -
  have "ext_nonce_pair demo_ext 5 None (replicate 32 2) None = ([5], [5, 1])" by (simp add: demo_ext_def)
  then show "nonce_for demo_ext (replicate 32 2) [5] [5, 1]" unfolding nonce_for_def by blast
  have "replicate 33 (2 :: byte) = 2 # replicate 32 2" by (simp add: numeral_eq_Suc)
  then show "ext_public_key demo_ext (replicate 32 2) = replicate 33 2" by (simp add: demo_ext_def)
qed

abbreviation demo_arkoor :: "VtxoRequest list \<Rightarrow> ArkoorBuilder" where
  "demo_arkoor outputs \<equiv> \<lparr>ab_input = demo_input, ab_user_nonce = [5, 1], ab_outputs = outputs\<rparr>"

abbreviation demo_pay :: "Amount \<Rightarrow> VtxoRequest" where
  "demo_pay amount \<equiv> \<lparr>vr_amount = amount, vr_policy = Pubkey (replicate 33 4)\<rparr>"

lemma demo_new:
  "ArkoorBuilder_new demo_input [5, 1] [demo_pay 400, demo_pay 600] = Ok (demo_arkoor [demo_pay 400, demo_pay 600])"
  "ArkoorBuilder_new demo_input [5, 1] [demo_pay 900] = Ok (demo_arkoor [demo_pay 900])"
  by (simp_all add: ArkoorBuilder_new_Ok arkoor_checked_def P2TR_DUST_def u64_limit_def)

lemma demo_verified:
  "arkoor_verify_cosign_response demo_ext (demo_arkoor outs) demo_response = (Ok True :: (unit, bool) outcome)"
  if "list_all (\<lambda>o'. vr_policy o' = Pubkey (replicate 33 4)) outs" for outs
  using that unfolding arkoor_verify_iff
  by (intro demo_accepts) (auto simp: arkoor_heights_ok_def list_all_iff)

section \<open>Properties\<close>

text \<open>
  C3: an out-of-round payment produces valid VTXOs. If the input is a valid VTXO at its point, the
  builder accepted the outputs, the outputs use up the input, the server's response verifies and the
  user signs with the input's key and the nonce it announced, then \<open>build_vtxos\<close> returns one VTXO
  per output, with the requested policy and amount, each valid for the input's chain anchor and at
  its own point, ready to be spent out of round again.
\<close>

theorem arkoor_vtxos_are_valid:
  assumes "musig_laws X" "segwit_laws X" "p2tr_laws X" and sound: "sound_vtxo X input anchor_tx"
    and new: "ArkoorBuilder_new input user_nonce outputs = Ok b"
    and balanced: "sum_list (map vr_amount outputs) = v_amount input"
    and resp: "arkoor_verify_cosign_response X b resp = (Ok True :: ('e, bool) outcome)"
    and key: "nonce_for X user_key sec user_nonce" "ext_public_key X user_key = vtxo_user_pubkey input"
  shows "\<exists>vs. arkoor_build_vtxos X b sec user_key resp = Ok vs \<and>
    map v_policy vs = map vr_policy outputs \<and> map v_amount vs = map vr_amount outputs \<and>
    (\<forall>v \<in> set vs. vtxo_validate X v anchor_tx = Ok () \<and> vtxo_at_point X v)"
proof -
  have b: "arkoor_checked input outputs" "b = \<lparr>ab_input = input, ab_user_nonce = user_nonce, ab_outputs = outputs\<rparr>"
    using new by (simp_all add: ArkoorBuilder_new_Ok)
  have "arkoor_ready X anchor_tx b sec user_key"
    using assms b by (simp add: arkoor_ready_def)
  from arkoor_build_result [OF this, of resp] resp [unfolded arkoor_verify_iff] show ?thesis
    by (auto simp: arkoor_result_def b(2) list_all_iff sound_vtxo_def validate_iff)
qed

theorem arkoor_vtxos_are_valid_witness:
  "\<exists>vs. arkoor_build_vtxos demo_ext (demo_arkoor [demo_pay 400, demo_pay 600]) [5] (replicate 32 2) demo_response = Ok vs \<and>
     map v_amount vs = [400, 600] \<and> (\<forall>v \<in> set vs. vtxo_validate demo_ext v demo_anchor_tx = Ok ())"
  using arkoor_vtxos_are_valid [OF demo_ext_laws(4,1,2) demo_input_sound demo_new(1) _ demo_verified demo_user_key(1)]
    demo_user_key(2) by fastforce




lemma demo_package:
  "\<exists>p. ArkoorPackageBuilder_new demo_ext [demo_input, demo_input] [[5, 1], [6, 1]] (demo_pay 1600) (Some (replicate 33 2)) = Ok p \<and>
     ap_arkoors p = [demo_arkoor [demo_pay 1000],
       \<lparr>ab_input = demo_input, ab_user_nonce = [6, 1],
        ab_outputs = [demo_pay 600, \<lparr>vr_amount = 400, vr_policy = Pubkey (replicate 33 2)\<rparr>]\<rparr>]"
  by (simp add: ArkoorPackageBuilder_new_def package_split_def ArkoorBuilder_new_def P2TR_DUST_def sum_amounts_def
      u64_limit_def arkoor_unsigned_transaction_def arkoor_txouts_def Let_def del: replicate_Suc)




text \<open>
  C34: revoking outgoing HTLCs. Every VTXO that \<open>new_htlc_revocation\<close> accepts is an outgoing HTLC,
  and its arkoor returns the whole amount to the user's own key, so it is balanced.
\<close>

theorem htlc_revocation_refunds:
  assumes "new_htlc_revocation X htlc_vtxos user_nonces = Ok p"
  shows "package_inputs p = take (length user_nonces) htlc_vtxos \<and>
    (\<forall>a \<in> set (ap_arkoors p). policy_type (v_policy (ab_input a)) = KServerHtlcSend \<and>
      ab_outputs a = [\<lparr>vr_amount = v_amount (ab_input a), vr_policy = Pubkey (vtxo_user_pubkey (ab_input a))\<rparr>] \<and>
      arkoor_checked (ab_input a) (ab_outputs a))"
proof (intro conjI)
  from assms obtain as m where as: "map2 htlc_refund htlc_vtxos user_nonces = map Ok as"
    and p: "ap_arkoors p = as"
    by (auto simp: new_htlc_revocation_def and_then_eq_Inr collect_results_eq_Inr from_arkoors_def)
  have refund: "ab_input a = v \<and> policy_type (v_policy v) = KServerHtlcSend \<and>
      ab_outputs a = [\<lparr>vr_amount = v_amount v, vr_policy = Pubkey (vtxo_user_pubkey v)\<rparr>] \<and>
      arkoor_checked v (ab_outputs a)" if "htlc_refund v u = Ok a" for v u a
    using that by (auto simp: htlc_refund_def ArkoorBuilder_new_Ok split: VtxoPolicy.splits)
  have len: "length as = min (length htlc_vtxos) (length user_nonces)"
    using arg_cong [OF as, of length] by simp
  have nth: "htlc_refund (htlc_vtxos ! i) (user_nonces ! i) = Ok (as ! i)" if "i < length as" for i
    using arg_cong [OF as, of "\<lambda>xs. xs ! i"] that len by simp
  show "package_inputs p = take (length user_nonces) htlc_vtxos"
    using refund [OF nth] len by (simp add: package_inputs_def p list_eq_iff_nth_eq)
  show "\<forall>a \<in> set (ap_arkoors p). policy_type (v_policy (ab_input a)) = KServerHtlcSend \<and>
      ab_outputs a = [\<lparr>vr_amount = v_amount (ab_input a), vr_policy = Pubkey (vtxo_user_pubkey (ab_input a))\<rparr>] \<and>
      arkoor_checked (ab_input a) (ab_outputs a)"
  proof
    fix a
    assume "a \<in> set (ap_arkoors p)"
    then obtain i where "i < length as" "a = as ! i" by (auto simp: p in_set_conv_nth)
    with refund [OF nth [OF this(1)]] show "policy_type (v_policy (ab_input a)) = KServerHtlcSend \<and>
      ab_outputs a = [\<lparr>vr_amount = v_amount (ab_input a), vr_policy = Pubkey (vtxo_user_pubkey (ab_input a))\<rparr>] \<and>
      arkoor_checked (ab_input a) (ab_outputs a)" by metis
  qed
qed

theorem htlc_revocation_refunds_witness:
  "\<exists>p. new_htlc_revocation demo_ext [demo_input\<lparr>v_policy := ServerHtlcSend (replicate 33 2) (replicate 32 1) 900000\<rparr>] [[5, 1]] = Ok p \<and>
     map (\<lambda>a. map vr_amount (ab_outputs a)) (ap_arkoors p) = [[1000]]"
proof -
  let ?v = "demo_input\<lparr>v_policy := ServerHtlcSend (replicate 33 2) (replicate 32 1) 900000\<rparr>"
  have "\<exists>p. new_htlc_revocation demo_ext [?v] [[5, 1]] = Ok p \<and> length (ap_arkoors p) = 1"
    by (simp add: new_htlc_revocation_def htlc_refund_def ArkoorBuilder_new_def P2TR_DUST_def sum_amounts_def u64_limit_def
        from_arkoors_def arkoor_unsigned_transaction_def arkoor_txouts_def demo_input_def demo_vtxo_def Let_def)
  then obtain p where p: "new_htlc_revocation demo_ext [?v] [[5, 1]] = Ok p" "length (ap_arkoors p) = 1" by blast
  from htlc_revocation_refunds [OF p(1)] p show ?thesis
    by (auto simp: package_inputs_def length_Suc_conv)
qed

text \<open>
  an honest server's package response verifies: when the server cosigns with the key of all
  inputs and every height is a lock height, the user's check of the whole package succeeds.
\<close>

theorem package_cosign_verifies:
  assumes "musig_laws X" "\<forall>a \<in> set (ap_arkoors p). arkoor_heights_ok a \<and> ext_public_key X server_key = v_server_pubkey (ab_input a)"
  shows "\<exists>resps. package_server_cosign X rnd p server_key = (Ok resps :: ('e, ArkoorCosignResponse list) outcome) \<and>
    package_verify_cosign_response X p resps = (Ok True :: ('e, bool) outcome)"
proof -
  let ?as = "ap_arkoors p"
  have "\<exists>r. arkoor_server_cosign X (rnd i) (?as ! i) server_key = (Ok r :: ('e, ArkoorCosignResponse) outcome) \<and>
      arkoor_accepts X (?as ! i) r" if "i < length ?as" for i
    using arkoor_server_cosign_accepted [OF assms(1), of "?as ! i" server_key "rnd i"] assms(2) that by simp
  then obtain f where f: "arkoor_server_cosign X (rnd i) (?as ! i) server_key = (Ok (f i) :: ('e, ArkoorCosignResponse) outcome)"
    "arkoor_accepts X (?as ! i) (f i)" if "i < length ?as" for i by metis
  have "package_server_cosign X rnd p server_key = (Ok (map f [0..<length ?as]) :: ('e, ArkoorCosignResponse list) outcome)"
    unfolding package_server_cosign_def collect_results_eq_Inr
    by (rule nth_equalityI) (simp_all add: nth_enumerate_eq f(1))
  moreover have "package_verify_cosign_response X p (map f [0..<length ?as]) = (Ok True :: ('e, bool) outcome)"
    using f(2) by (simp add: package_verify_cosign_response_def package_verify_iff list_all2_conv_all_nth)
  ultimately show ?thesis by blast
qed

theorem package_cosign_verifies_witness:
  "\<exists>resps. package_server_cosign demo_ext (\<lambda>i. i)
      \<lparr>ap_arkoors = [\<lparr>ab_input = demo_input\<lparr>v_server_pubkey := replicate 33 2\<rparr>, ab_user_nonce = [5, 1], ab_outputs = [demo_pay 1000]\<rparr>],
       ap_spending_tx_by_input = Map.empty\<rparr> (replicate 32 2)
     = (Ok resps :: (unit, ArkoorCosignResponse list) outcome) \<and>
     package_verify_cosign_response demo_ext
      \<lparr>ap_arkoors = [\<lparr>ab_input = demo_input\<lparr>v_server_pubkey := replicate 33 2\<rparr>, ab_user_nonce = [5, 1], ab_outputs = [demo_pay 1000]\<rparr>],
       ap_spending_tx_by_input = Map.empty\<rparr> resps = (Ok True :: (unit, bool) outcome)"
  by (rule package_cosign_verifies [OF demo_ext_laws(4)]) (simp add: demo_user_key arkoor_heights_ok_def)

end
