(* ===== verification/Ark_Checkpoint.thy ===== *)
theory Ark_Checkpoint
  imports Ark_Arkoor
begin

text \<open>
  Checkpointed out-of-round payments (\<open>lib/src/arkoor/checkpoint.rs\<close>): the input VTXO is spent by
  one checkpoint transaction, and each of its outputs by an arkoor transaction of its own. The type
  states of \<open>CheckpointedArkoorBuilder\<close> are a field of the record. Indexing a vector and the
  \<open>expect("state invariant")\<close> calls are panics of the model.
\<close>

section \<open>Errors, requests and responses\<close>

datatype ArkoorConstructionError =
    ConstructionUnbalanced Amount Amount
  | ConstructionDust
  | TooManyInputs

datatype ArkoorSigningError =
    SigningConstructionError ArkoorConstructionError
  | InvalidNbUserNonces nat nat
  | InvalidNbServerNonces nat nat
  | IncorrectKey PublicKey PublicKey
  | InvalidNbServerPartialSigs nat nat
  | InvalidPartialSignature nat
  | InvalidNbPackages nat nat
  | InvalidNbKeypairs nat nat

record CosignResponse =
  cr_server_pub_nonces :: "PublicNonce list"
  cr_server_partial_sigs :: "PartialSignature list"

record 'v CosignRequest =
  cq_user_pub_nonces :: "PublicNonce list"
  cq_input :: 'v
  cq_outputs :: "VtxoRequest list"

definition CosignRequest_new :: "PublicNonce list \<Rightarrow> 'v \<Rightarrow> VtxoRequest list \<Rightarrow> 'v CosignRequest" where
  "CosignRequest_new user_pub_nonces input outputs =
     \<lparr>cq_user_pub_nonces = user_pub_nonces, cq_input = input, cq_outputs = outputs\<rparr>"

definition with_vtxo :: "VtxoId CosignRequest \<Rightarrow> Vtxo \<Rightarrow> (string, Vtxo CosignRequest) outcome" where
  "with_vtxo r vtxo =
     (if cq_input r \<noteq> vtxo_id vtxo then err ''Input vtxo id does not match the provided vtxo id''
      else Ok (CosignRequest_new (cq_user_pub_nonces r) vtxo (cq_outputs r)))"

section \<open>The builder\<close>

datatype CheckpointState = Initial | UserGeneratedNonces | UserSigned | ServerMayCosign | ServerSigned

record CheckpointedArkoorBuilder =
  cb_input :: Vtxo
  cb_outputs :: "VtxoRequest list"
  cb_unsigned_checkpoint_tx :: Transaction
  cb_unsigned_checkpoint_txid :: Txid
  cb_unsigned_arkoor_txs :: "Transaction list"
  cb_sighashes :: "bytes list"
  cb_checkpoint_taptweak :: bytes
  cb_arkoor_taptweak :: bytes
  cb_new_vtxo_ids :: "VtxoId list"
  cb_user_pub_nonces :: "PublicNonce list option"
  cb_user_sec_nonces :: "SecretNonce list option"
  cb_server_pub_nonces :: "PublicNonce list option"
  cb_server_partial_sigs :: "PartialSignature list option"
  cb_full_signatures :: "Signature list option"
  cb_state :: CheckpointState

text \<open>Indexing a vector.\<close>

definition index :: "'a list \<Rightarrow> nat \<Rightarrow> ('e, 'a) outcome" where
  "index xs i = expect (nth_opt xs i) ''index out of bounds''"

text \<open>The genesis item that the checkpoint transaction adds for one of its outputs.\<close>

definition checkpoint_item ::
  "externals \<Rightarrow> CheckpointedArkoorBuilder \<Rightarrow> nat \<Rightarrow> Signature option \<Rightarrow> GenesisItem" where
  "checkpoint_item X b output_idx checkpoint_sig =
     \<lparr>gi_transition = Arkoor (v_policy (cb_input b)) checkpoint_sig, gi_output_idx = word_of_nat output_idx,
      gi_other_outputs = other_outputs_of X (cb_unsigned_checkpoint_tx b) output_idx\<rparr>"

definition checkpoint_vtxo_at ::
  "externals \<Rightarrow> CheckpointedArkoorBuilder \<Rightarrow> nat \<Rightarrow> Signature option \<Rightarrow> ('e, Vtxo) outcome" where
  "checkpoint_vtxo_at X b output_idx checkpoint_sig =
     and_then (index (cb_outputs b) output_idx) (\<lambda>out.
     let checkpoint_txid = ext_txid X (cb_unsigned_checkpoint_tx b); input = cb_input b in
     Ok \<lparr>v_policy = Checkpoint (vtxo_user_pubkey input), v_amount = vr_amount out,
         v_expiry_height = v_expiry_height input, v_server_pubkey = v_server_pubkey input,
         v_exit_delta = v_exit_delta input, v_anchor_point = v_anchor_point input,
         v_genesis = v_genesis input @ [checkpoint_item X b output_idx checkpoint_sig],
         v_point = \<lparr>op_txid = checkpoint_txid, op_vout = word_of_nat output_idx\<rparr>\<rparr>)"

definition vtxo_at ::
  "externals \<Rightarrow> CheckpointedArkoorBuilder \<Rightarrow> nat \<Rightarrow> Signature option \<Rightarrow> Signature option \<Rightarrow> ('e, Vtxo) outcome" where
  "vtxo_at X b output_idx checkpoint_sig arkoor_sig =
     and_then (index (cb_outputs b) output_idx) (\<lambda>out.
     and_then (index (cb_new_vtxo_ids b) output_idx) (\<lambda>new_id.
     let checkpoint_policy = Checkpoint (vtxo_user_pubkey (cb_input b)); input = cb_input b in
     Ok \<lparr>v_policy = vr_policy out, v_amount = vr_amount out,
         v_expiry_height = v_expiry_height input, v_server_pubkey = v_server_pubkey input,
         v_exit_delta = v_exit_delta input, v_anchor_point = v_anchor_point input,
         v_genesis = v_genesis input @
           [checkpoint_item X b output_idx checkpoint_sig,
            \<lparr>gi_transition = Arkoor checkpoint_policy arkoor_sig, gi_output_idx = 0, gi_other_outputs = []\<rparr>],
         v_point = vtxo_id_utxo new_id\<rparr>))"

definition nb_sigs :: "CheckpointedArkoorBuilder \<Rightarrow> nat" where
  "nb_sigs b = length (cb_outputs b) + 1"

definition nb_outputs :: "CheckpointedArkoorBuilder \<Rightarrow> nat" where
  "nb_outputs b = length (cb_outputs b)"

definition build_unsigned_vtxos :: "externals \<Rightarrow> CheckpointedArkoorBuilder \<Rightarrow> ('e, Vtxo list) outcome" where
  "build_unsigned_vtxos X b = collect_results (map (\<lambda>i. vtxo_at X b i None None) [0..<nb_outputs b])"

definition build_unsigned_checkpoint_vtxos ::
  "externals \<Rightarrow> CheckpointedArkoorBuilder \<Rightarrow> ('e, Vtxo list) outcome" where
  "build_unsigned_checkpoint_vtxos X b =
     collect_results (map (\<lambda>i. checkpoint_vtxo_at X b i None) [0..<nb_outputs b])"

definition spend_info :: "externals \<Rightarrow> CheckpointedArkoorBuilder \<Rightarrow> ('e, (VtxoId \<times> Txid) list) outcome" where
  "spend_info X b =
     and_then (collect_results (map (\<lambda>idx.
       and_then (index (cb_unsigned_arkoor_txs b) idx) (\<lambda>tx.
       Ok (vtxo_id_of_point \<lparr>op_txid = cb_unsigned_checkpoint_txid b, op_vout = word_of_nat idx\<rparr>, ext_txid X tx)))
       [0..<nb_outputs b])) (\<lambda>others.
     Ok ((vtxo_id (cb_input b), cb_unsigned_checkpoint_txid b) # others))"

definition checkpoint_spend_info ::
  "externals \<Rightarrow> CheckpointedArkoorBuilder \<Rightarrow> ('e, (Vtxo \<times> Txid) list) outcome" where
  "checkpoint_spend_info X b =
     collect_results (map (\<lambda>idx.
       and_then (checkpoint_vtxo_at X b idx None) (\<lambda>vtxo.
       and_then (index (cb_new_vtxo_ids b) idx) (\<lambda>new_id.
       Ok (vtxo, op_txid (vtxo_id_utxo new_id))))) [0..<nb_outputs b])"

definition taptweak_at :: "CheckpointedArkoorBuilder \<Rightarrow> nat \<Rightarrow> bytes" where
  "taptweak_at b idx = (if idx = 0 then cb_checkpoint_taptweak b else cb_arkoor_taptweak b)"

text \<open>The output policies' taproots are built here; an invalid height panics.\<close>

definition construct_unsigned_checkpoint_tx ::
  "externals \<Rightarrow> Vtxo \<Rightarrow> VtxoRequest list \<Rightarrow> ('e, Transaction) outcome" where
  "construct_unsigned_checkpoint_tx X input outputs =
     (let output_policy = Checkpoint (vtxo_user_pubkey input) in
      if \<not> policy_locktime_ok output_policy (v_expiry_height input) then panic ''LockTime::from_height''
      else
        let checkpoint_spk = policy_script_pubkey X output_policy (v_server_pubkey input) (v_exit_delta input)
              (v_expiry_height input)
        in Ok (v3_tx [plain_input (v_point input) Sequence_ZERO []]
             (map (\<lambda>o'. \<lparr>txo_value = vr_amount o', txo_script = checkpoint_spk\<rparr>) outputs @ [fee_anchor X])))"

definition construct_unsigned_arkoor_txs ::
  "externals \<Rightarrow> Vtxo \<Rightarrow> VtxoRequest list \<Rightarrow> Txid \<Rightarrow> ('e, Transaction list) outcome" where
  "construct_unsigned_arkoor_txs X input outputs checkpoint_txid =
     collect_results (map (\<lambda>(vout, out).
       if \<not> policy_locktime_ok (vr_policy out) (v_expiry_height input) then panic ''LockTime::from_height''
       else Ok (v3_tx [plain_input \<lparr>op_txid = checkpoint_txid, op_vout = word_of_nat vout\<rparr> Sequence_ZERO []]
         [policy_txout X (vr_policy out) (vr_amount out) (v_server_pubkey input) (v_exit_delta input)
            (v_expiry_height input), fee_anchor X])) (enumerate 0 outputs))"

definition validate_amounts :: "Vtxo \<Rightarrow> VtxoRequest list \<Rightarrow> (ArkoorConstructionError, unit) outcome" where
  "validate_amounts input outputs =
     and_then (expect (sum_amounts (map vr_amount outputs)) ''attempt to add with overflow'') (\<lambda>output_amount.
     if v_amount input \<noteq> output_amount then err (ConstructionUnbalanced (v_amount input) output_amount)
     else if list_ex (\<lambda>o'. vr_amount o' < P2TR_DUST) outputs then err ConstructionDust
     else Ok ())"

text \<open>The loop over the outputs that computes the sighashes of the arkoor transactions.\<close>

definition arkoor_sighashes ::
  "externals \<Rightarrow> Transaction \<Rightarrow> Transaction list \<Rightarrow> nat \<Rightarrow> ('e, bytes list) outcome" where
  "arkoor_sighashes X checkpoint_tx arkoor_txs n =
     collect_results (map (\<lambda>vout.
       and_then (index (tx_output checkpoint_tx) vout) (\<lambda>prevout.
       and_then (index arkoor_txs vout) (\<lambda>tx.
       Ok (arkoor_sighash X prevout tx)))) [0..<n])"

definition CheckpointedArkoorBuilder_new ::
  "externals \<Rightarrow> Vtxo \<Rightarrow> VtxoRequest list \<Rightarrow> (ArkoorConstructionError, CheckpointedArkoorBuilder) outcome" where
  "CheckpointedArkoorBuilder_new X input outputs =
     and_then (validate_amounts input outputs) (\<lambda>_.
     and_then (construct_unsigned_checkpoint_tx X input outputs) (\<lambda>unsigned_checkpoint_tx.
     let unsigned_checkpoint_txid = ext_txid X unsigned_checkpoint_tx in
     and_then (construct_unsigned_arkoor_txs X input outputs unsigned_checkpoint_txid) (\<lambda>unsigned_arkoor_txs.
     let new_vtxo_ids = map (\<lambda>tx. vtxo_id_of_point \<lparr>op_txid = ext_txid X tx, op_vout = 0\<rparr>) unsigned_arkoor_txs in
     and_then (checked_txout X input) (\<lambda>input_txout.
     and_then (arkoor_sighashes X unsigned_checkpoint_tx unsigned_arkoor_txs (length outputs)) (\<lambda>more_sighashes.
     and_then (checked_output_taproot X input) (\<lambda>input_taproot.
     let policy = Checkpoint (vtxo_user_pubkey input) in
     Ok \<lparr>cb_input = input, cb_outputs = outputs, cb_unsigned_checkpoint_tx = unsigned_checkpoint_tx,
         cb_unsigned_checkpoint_txid = unsigned_checkpoint_txid, cb_unsigned_arkoor_txs = unsigned_arkoor_txs,
         cb_sighashes = arkoor_sighash X input_txout unsigned_checkpoint_tx # more_sighashes,
         cb_checkpoint_taptweak = ext_tap_tweak X input_taproot,
         cb_arkoor_taptweak = ext_tap_tweak X (policy_taproot X policy (v_server_pubkey input)
           (v_exit_delta input) (v_expiry_height input)),
         cb_new_vtxo_ids = new_vtxo_ids, cb_user_pub_nonces = None, cb_user_sec_nonces = None,
         cb_server_pub_nonces = None, cb_server_partial_sigs = None, cb_full_signatures = None,
         cb_state = Initial\<rparr>))))))"

section \<open>Signing\<close>

definition checkpoint_generate_user_nonces ::
  "externals \<Rightarrow> (nat \<Rightarrow> nat) \<Rightarrow> CheckpointedArkoorBuilder \<Rightarrow> Keypair \<Rightarrow> ('e, CheckpointedArkoorBuilder) outcome" where
  "checkpoint_generate_user_nonces X rnd b user_keypair =
     and_then (collect_results (map (\<lambda>idx.
       and_then (index (cb_sighashes b) idx) (\<lambda>sighash.
       Ok (nonce_pair_with_msg X (rnd idx) user_keypair sighash))) [0..<nb_sigs b])) (\<lambda>pairs.
     Ok (b\<lparr>cb_user_pub_nonces := Some (map snd pairs), cb_user_sec_nonces := Some (map fst pairs),
           cb_state := UserGeneratedNonces\<rparr>))"

definition set_user_pub_nonces ::
  "CheckpointedArkoorBuilder \<Rightarrow> PublicNonce list \<Rightarrow> (ArkoorSigningError, CheckpointedArkoorBuilder) outcome" where
  "set_user_pub_nonces b user_pub_nonces =
     (if length user_pub_nonces \<noteq> nb_sigs b
      then err (InvalidNbUserNonces (nb_sigs b) (length user_pub_nonces))
      else Ok (b\<lparr>cb_user_pub_nonces := Some user_pub_nonces, cb_state := ServerMayCosign\<rparr>))"

definition from_cosign_request ::
  "externals \<Rightarrow> Vtxo CosignRequest \<Rightarrow> (ArkoorSigningError, CheckpointedArkoorBuilder) outcome" where
  "from_cosign_request X r =
     and_then (map_err SigningConstructionError (CheckpointedArkoorBuilder_new X (cq_input r) (cq_outputs r)))
       (\<lambda>b. set_user_pub_nonces b (cq_user_pub_nonces r))"

definition checkpoint_server_cosign ::
  "externals \<Rightarrow> (nat \<Rightarrow> nat) \<Rightarrow> CheckpointedArkoorBuilder \<Rightarrow> Keypair \<Rightarrow>
   (ArkoorSigningError, CheckpointedArkoorBuilder) outcome" where
  "checkpoint_server_cosign X rnd b server_keypair =
     (if ext_public_key X server_keypair \<noteq> v_server_pubkey (cb_input b)
      then err (IncorrectKey (v_server_pubkey (cb_input b)) (ext_public_key X server_keypair))
      else
        and_then (collect_results (map (\<lambda>idx.
          and_then (expect (cb_user_pub_nonces b) ''state-invariant'') (\<lambda>nonces.
          and_then (index nonces idx) (\<lambda>nonce.
          and_then (index (cb_sighashes b) idx) (\<lambda>sighash.
          Ok (deterministic_partial_sign X (rnd idx) server_keypair [vtxo_user_pubkey (cb_input b)] [nonce]
                sighash (Some (taptweak_at b idx))))))) [0..<nb_sigs b])) (\<lambda>pairs.
        Ok (b\<lparr>cb_server_pub_nonces := Some (map fst pairs), cb_server_partial_sigs := Some (map snd pairs),
              cb_state := ServerSigned\<rparr>)))"

definition checkpoint_cosign_response :: "CheckpointedArkoorBuilder \<Rightarrow> ('e, CosignResponse) outcome" where
  "checkpoint_cosign_response b =
     and_then (expect (cb_server_pub_nonces b) ''state invariant'') (\<lambda>nonces.
     and_then (expect (cb_server_partial_sigs b) ''state invariant'') (\<lambda>sigs.
     Ok \<lparr>cr_server_pub_nonces = nonces, cr_server_partial_sigs = sigs\<rparr>))"

definition checkpoint_cosign_request :: "CheckpointedArkoorBuilder \<Rightarrow> ('e, Vtxo CosignRequest) outcome" where
  "checkpoint_cosign_request b =
     and_then (expect (cb_user_pub_nonces b) ''State invariant'') (\<lambda>nonces.
     Ok \<lparr>cq_user_pub_nonces = nonces, cq_input = cb_input b, cq_outputs = cb_outputs b\<rparr>)"

definition validate_server_cosign_response ::
  "externals \<Rightarrow> CheckpointedArkoorBuilder \<Rightarrow> CosignResponse \<Rightarrow> (ArkoorSigningError, unit) outcome" where
  "validate_server_cosign_response X b r =
     (if length (cr_server_pub_nonces r) \<noteq> nb_sigs b
      then err (InvalidNbServerNonces (nb_sigs b) (length (cr_server_pub_nonces r)))
      else if length (cr_server_partial_sigs r) \<noteq> nb_sigs b
      then err (InvalidNbServerPartialSigs (nb_sigs b) (length (cr_server_partial_sigs r)))
      else
        and_then (collect_results (map (\<lambda>idx.
          and_then (index (cb_sighashes b) idx) (\<lambda>sighash.
          and_then (index (cr_server_pub_nonces r) idx) (\<lambda>server_nonce.
          and_then (expect (cb_user_pub_nonces b) ''State invariant'') (\<lambda>nonces.
          and_then (index nonces idx) (\<lambda>user_nonce.
          and_then (index (cr_server_partial_sigs r) idx) (\<lambda>sig.
          if verify_partial_sig X sighash (taptweak_at b idx) (v_server_pubkey (cb_input b), server_nonce)
               (vtxo_user_pubkey (cb_input b), user_nonce) sig
          then Ok () else err (InvalidPartialSignature idx))))))) [0..<nb_sigs b])) (\<lambda>_. Ok ()))"

definition user_cosign ::
  "externals \<Rightarrow> CheckpointedArkoorBuilder \<Rightarrow> Keypair \<Rightarrow> CosignResponse \<Rightarrow>
   (ArkoorSigningError, CheckpointedArkoorBuilder) outcome" where
  "user_cosign X b user_keypair r =
     (if ext_public_key X user_keypair \<noteq> vtxo_user_pubkey (cb_input b)
      then err (IncorrectKey (vtxo_user_pubkey (cb_input b)) (ext_public_key X user_keypair))
      else
        and_then (validate_server_cosign_response X b r) (\<lambda>_.
        and_then (expect (cb_user_sec_nonces b) ''state invariant'') (\<lambda>user_sec_nonces.
        and_then (collect_results (map (\<lambda>(idx, user_sec_nonce).
          and_then (expect (cb_user_pub_nonces b) ''State invariant'') (\<lambda>nonces.
          and_then (index nonces idx) (\<lambda>user_nonce.
          and_then (index (cr_server_pub_nonces r) idx) (\<lambda>server_nonce.
          and_then (index (cb_sighashes b) idx) (\<lambda>sighash.
          and_then (index (cr_server_partial_sigs r) idx) (\<lambda>sig.
          expect (snd (partial_sign X [vtxo_user_pubkey (cb_input b), v_server_pubkey (cb_input b)]
                    (nonce_agg X [user_nonce, server_nonce]) user_keypair user_sec_nonce sighash
                    (Some (taptweak_at b idx)) (Some [sig])))
            ''The full signature exists. The server did sign first'')))))) (enumerate 0 user_sec_nonces))) (\<lambda>sigs.
        Ok (b\<lparr>cb_user_sec_nonces := None, cb_full_signatures := Some sigs, cb_state := UserSigned\<rparr>)))))"

definition build_signed_vtxos :: "externals \<Rightarrow> CheckpointedArkoorBuilder \<Rightarrow> ('e, Vtxo list) outcome" where
  "build_signed_vtxos X b =
     and_then (expect (cb_full_signatures b) ''state invariant'') (\<lambda>sigs.
     and_then (index sigs 0) (\<lambda>checkpoint_sig.
     collect_results (map (\<lambda>i.
       and_then (index (drop 1 sigs) i) (\<lambda>arkoor_sig.
       vtxo_at X b i (Some checkpoint_sig) (Some arkoor_sig))) [0..<nb_outputs b])))"

section \<open>The transactions of a payment\<close>

text \<open>The outputs and transactions in closed form, and the message of each of the \<open>1 + n\<close> signatures.\<close>

abbreviation checkpoint_policy_of :: "Vtxo \<Rightarrow> VtxoPolicy" where
  "checkpoint_policy_of input \<equiv> Checkpoint (vtxo_user_pubkey input)"

abbreviation policy_txout_in :: "externals \<Rightarrow> Vtxo \<Rightarrow> VtxoPolicy \<Rightarrow> Amount \<Rightarrow> TxOut" where
  "policy_txout_in X input policy amount \<equiv>
     policy_txout X policy amount (v_server_pubkey input) (v_exit_delta input) (v_expiry_height input)"

definition checkpoint_outs :: "externals \<Rightarrow> Vtxo \<Rightarrow> VtxoRequest list \<Rightarrow> TxOut list" where
  "checkpoint_outs X input outputs =
     map (\<lambda>o'. policy_txout_in X input (checkpoint_policy_of input) (vr_amount o')) outputs"

definition checkpoint_tx :: "externals \<Rightarrow> Vtxo \<Rightarrow> VtxoRequest list \<Rightarrow> Transaction" where
  "checkpoint_tx X input outputs = spend_tx X (v_point input) (checkpoint_outs X input outputs)"

definition checkpoint_point :: "externals \<Rightarrow> Vtxo \<Rightarrow> VtxoRequest list \<Rightarrow> nat \<Rightarrow> OutPoint" where
  "checkpoint_point X input outputs i =
     \<lparr>op_txid = ext_txid X (checkpoint_tx X input outputs), op_vout = word_of_nat i\<rparr>"

definition checkpointed_arkoor_tx :: "externals \<Rightarrow> Vtxo \<Rightarrow> VtxoRequest list \<Rightarrow> nat \<Rightarrow> Transaction" where
  "checkpointed_arkoor_tx X input outputs i =
     spend_tx X (checkpoint_point X input outputs i)
       [policy_txout_in X input (vr_policy (outputs ! i)) (vr_amount (outputs ! i))]"

definition checkpoint_taproot_at :: "externals \<Rightarrow> Vtxo \<Rightarrow> nat \<Rightarrow> TaprootSpendInfo" where
  "checkpoint_taproot_at X input idx =
     (if idx = 0 then vtxo_output_taproot X input
      else policy_taproot X (checkpoint_policy_of input) (v_server_pubkey input) (v_exit_delta input)
             (v_expiry_height input))"

definition checkpoint_msg :: "externals \<Rightarrow> Vtxo \<Rightarrow> VtxoRequest list \<Rightarrow> nat \<Rightarrow> bytes" where
  "checkpoint_msg X input outputs idx =
     (case idx of
        0 \<Rightarrow> ext_key_sighash X (checkpoint_tx X input outputs) (vtxo_txout X input)
      | Suc i \<Rightarrow> ext_key_sighash X (checkpointed_arkoor_tx X input outputs i) (checkpoint_outs X input outputs ! i))"

definition checkpoint_heights_ok :: "Vtxo \<Rightarrow> VtxoRequest list \<Rightarrow> bool" where
  "checkpoint_heights_ok input outputs \<longleftrightarrow>
     locktime_ok (v_expiry_height input) \<and> policy_locktime_ok (v_policy input) (v_expiry_height input) \<and>
     list_all (\<lambda>o'. policy_locktime_ok (vr_policy o') (v_expiry_height input)) outputs"

definition checkpoint_balanced :: "Vtxo \<Rightarrow> VtxoRequest list \<Rightarrow> bool" where
  "checkpoint_balanced input outputs \<longleftrightarrow>
     sum_list (map vr_amount outputs) = v_amount input \<and> v_amount input < u64_limit \<and>
     list_all (\<lambda>o'. P2TR_DUST \<le> vr_amount o') outputs"

definition checkpoint_initial :: "externals \<Rightarrow> Vtxo \<Rightarrow> VtxoRequest list \<Rightarrow> CheckpointedArkoorBuilder" where
  "checkpoint_initial X input outputs =
     \<lparr>cb_input = input, cb_outputs = outputs, cb_unsigned_checkpoint_tx = checkpoint_tx X input outputs,
      cb_unsigned_checkpoint_txid = ext_txid X (checkpoint_tx X input outputs),
      cb_unsigned_arkoor_txs = map (checkpointed_arkoor_tx X input outputs) [0..<length outputs],
      cb_sighashes = map (checkpoint_msg X input outputs) [0..<Suc (length outputs)],
      cb_checkpoint_taptweak = ext_tap_tweak X (checkpoint_taproot_at X input 0),
      cb_arkoor_taptweak = ext_tap_tweak X (checkpoint_taproot_at X input 1),
      cb_new_vtxo_ids = map (\<lambda>i. vtxo_id_of_point
        \<lparr>op_txid = ext_txid X (checkpointed_arkoor_tx X input outputs i), op_vout = 0\<rparr>) [0..<length outputs],
      cb_user_pub_nonces = None, cb_user_sec_nonces = None, cb_server_pub_nonces = None,
      cb_server_partial_sigs = None, cb_full_signatures = None, cb_state = Initial\<rparr>"

section \<open>Lemmas\<close>

subsection \<open>Results of loops\<close>

lemma collect_results_mapI:
  assumes "\<And>x. x \<in> set xs \<Longrightarrow> f x = Inr (g x)"
  shows "collect_results (map f xs) = Inr (map g xs)"
  using assms by (auto simp: collect_results_eq_Inr)

lemma collect_results_map_eq:
  "collect_results (map f xs) = Inr ys \<longleftrightarrow>
     length ys = length xs \<and> (\<forall>i < length xs. f (xs ! i) = Inr (ys ! i))"
  by (auto simp: collect_results_eq_Inr list_eq_iff_nth_eq)

lemma index_simps [simp]: "i < length xs \<Longrightarrow> index xs i = Ok (xs ! i)"
  by (simp add: index_def nth_opt_def)

lemma index_eq_Ok: "index xs i = Ok x \<longleftrightarrow> i < length xs \<and> x = xs ! i"
  by (auto simp: index_def nth_opt_def)

subsection \<open>The constructor\<close>

lemma validate_amounts_Ok: "validate_amounts input outputs = Ok () \<longleftrightarrow> checkpoint_balanced input outputs"
proof -
  have "list_ex (\<lambda>o'. vr_amount o' < P2TR_DUST) outputs \<longleftrightarrow> \<not> list_all (\<lambda>o'. P2TR_DUST \<le> vr_amount o') outputs"
    by (auto simp: list_ex_iff list_all_iff not_le)
  then show ?thesis by (auto simp: validate_amounts_def checkpoint_balanced_def sum_amounts_def)
qed

lemma construct_unsigned_checkpoint_tx_eq:
  "construct_unsigned_checkpoint_tx X input outputs =
     (if locktime_ok (v_expiry_height input) then Ok (checkpoint_tx X input outputs)
      else panic ''LockTime::from_height'')"
  by (simp add: construct_unsigned_checkpoint_tx_def checkpoint_tx_def checkpoint_outs_def policy_txout_def)

lemma construct_unsigned_arkoor_txs_eq:
  assumes "list_all (\<lambda>o'. policy_locktime_ok (vr_policy o') (v_expiry_height input)) outputs"
  shows "construct_unsigned_arkoor_txs X input outputs (ext_txid X (checkpoint_tx X input outputs)) =
    Ok (map (checkpointed_arkoor_tx X input outputs) [0..<length outputs])"
  using assms unfolding construct_unsigned_arkoor_txs_def collect_results_map_eq
  by (simp add: nth_enumerate_eq list_all_length checkpointed_arkoor_tx_def checkpoint_point_def)

lemma construct_unsigned_arkoor_txs_bad:
  assumes "construct_unsigned_arkoor_txs X input outputs t = Ok txs"
  shows "list_all (\<lambda>o'. policy_locktime_ok (vr_policy o') (v_expiry_height input)) outputs"
  using assms unfolding construct_unsigned_arkoor_txs_def collect_results_map_eq
  by (auto simp: nth_enumerate_eq list_all_length split: if_splits)

lemma arkoor_sighashes_eq:
  "arkoor_sighashes X (checkpoint_tx X input outputs)
     (map (checkpointed_arkoor_tx X input outputs) [0..<length outputs]) (length outputs) =
   Ok (map (\<lambda>i. checkpoint_msg X input outputs (Suc i)) [0..<length outputs])"
  unfolding arkoor_sighashes_def
  by (intro collect_results_mapI)
    (simp add: checkpoint_tx_def checkpoint_outs_def nth_append arkoor_sighash_def checkpoint_msg_def)

lemma checkpoint_sighashes:
  "map (checkpoint_msg X input outputs) [0..<Suc (length outputs)] =
   ext_key_sighash X (checkpoint_tx X input outputs) (vtxo_txout X input) #
     map (\<lambda>i. checkpoint_msg X input outputs (Suc i)) [0..<length outputs]"
  by (simp add: upt_conv_Cons map_Suc_upt [symmetric] checkpoint_msg_def comp_def del: upt_Suc)

lemma CheckpointedArkoorBuilder_new_Ok:
  "CheckpointedArkoorBuilder_new X input outputs = Ok b \<longleftrightarrow>
     checkpoint_balanced input outputs \<and> checkpoint_heights_ok input outputs \<and>
     b = checkpoint_initial X input outputs"
proof (cases "checkpoint_balanced input outputs \<and> checkpoint_heights_ok input outputs")
  case True
  then have "CheckpointedArkoorBuilder_new X input outputs = Ok (checkpoint_initial X input outputs)"
    by (simp add: CheckpointedArkoorBuilder_new_def validate_amounts_Ok [THEN iffD2] checkpoint_heights_ok_def
        construct_unsigned_checkpoint_tx_eq construct_unsigned_arkoor_txs_eq arkoor_sighashes_eq checked_txout_def
        checked_output_taproot_def checkpoint_initial_def checkpoint_sighashes checkpoint_taproot_at_def
        arkoor_sighash_def comp_def Let_def del: upt_Suc)
  with True show ?thesis by auto
next
  case False
  have "\<not> CheckpointedArkoorBuilder_new X input outputs = Ok b"
  proof
    assume "CheckpointedArkoorBuilder_new X input outputs = Ok b"
    then have "validate_amounts input outputs = Ok ()" "locktime_ok (v_expiry_height input)"
      "list_all (\<lambda>o'. policy_locktime_ok (vr_policy o') (v_expiry_height input)) outputs"
      "policy_locktime_ok (v_policy input) (v_expiry_height input)"
      by (auto simp: CheckpointedArkoorBuilder_new_def and_then_eq_Inr construct_unsigned_checkpoint_tx_eq checked_txout_def
          Let_def split: if_splits dest: construct_unsigned_arkoor_txs_bad)
    with False show False by (simp add: validate_amounts_Ok checkpoint_heights_ok_def)
  qed
  with False show ?thesis by blast
qed

subsection \<open>The VTXOs\<close>

lemma other_outputs_of_spend:
  assumes "p2tr_laws X" "tx_output tx = outs @ [fee_anchor X]"
    and "\<And>t. t \<in> set outs \<Longrightarrow> \<exists>tr. txo_script t = taproot_script_pubkey X tr"
  shows "other_outputs_of X tx idx = drop_nth idx outs"
proof -
  have "list_all (\<lambda>o'. \<not> is_p2a_fee_anchor X o') outs"
    using assms(3) p2tr_not_anchor [OF assms(1)] by (auto simp: list_all_iff)
  from filter_enumerate_drop_nth [OF this, of 0 idx] show ?thesis
    by (simp add: other_outputs_of_def assms(2) enumerate_append_eq)
qed

text \<open>The spend of the input to a checkpoint output, and the spend of that one by its arkoor.\<close>

definition checkpoint_spend ::
  "externals \<Rightarrow> Vtxo \<Rightarrow> VtxoRequest list \<Rightarrow> nat \<Rightarrow> Signature option \<Rightarrow> Vtxo" where
  "checkpoint_spend X input outputs i sig =
     spend_vtxo X input (spend_item (v_policy input) sig (checkpoint_outs X input outputs) i)
       (checkpoint_policy_of input) (vr_amount (outputs ! i))"

definition arkoor_spend ::
  "externals \<Rightarrow> Vtxo \<Rightarrow> VtxoRequest list \<Rightarrow> nat \<Rightarrow> Signature option \<Rightarrow> Signature option \<Rightarrow> Vtxo" where
  "arkoor_spend X input outputs i checkpoint_sig arkoor_sig =
     spend_vtxo X (checkpoint_spend X input outputs i checkpoint_sig)
       (spend_item (checkpoint_policy_of input) arkoor_sig
          [policy_txout_in X input (vr_policy (outputs ! i)) (vr_amount (outputs ! i))] 0)
       (vr_policy (outputs ! i)) (vr_amount (outputs ! i))"

definition txid_laws :: "externals \<Rightarrow> bool" where
  "txid_laws X \<longleftrightarrow> (\<forall>tx. length (ext_txid X tx) = 32)"

lemma checkpoint_spend_eq:
  assumes "segwit_laws X" "i < length outputs" "i < 256"
  shows "checkpoint_spend X input outputs i sig =
    input\<lparr>v_policy := checkpoint_policy_of input, v_amount := vr_amount (outputs ! i),
      v_genesis := v_genesis input @ [spend_item (v_policy input) sig (checkpoint_outs X input outputs) i],
      v_point := checkpoint_point X input outputs i\<rparr>"
  unfolding checkpoint_spend_def checkpoint_point_def checkpoint_tx_def
  by (rule spend_item_vtxo) (use assms in \<open>simp_all add: checkpoint_outs_def\<close>)

lemma arkoor_spend_eq:
  assumes "segwit_laws X" "i < length outputs" "i < 256"
  shows "arkoor_spend X input outputs i checkpoint_sig arkoor_sig =
    input\<lparr>v_policy := vr_policy (outputs ! i), v_amount := vr_amount (outputs ! i),
      v_genesis := v_genesis input @ [spend_item (v_policy input) checkpoint_sig (checkpoint_outs X input outputs) i,
        spend_item (checkpoint_policy_of input) arkoor_sig
          [policy_txout_in X input (vr_policy (outputs ! i)) (vr_amount (outputs ! i))] 0],
      v_point := \<lparr>op_txid = ext_txid X (checkpointed_arkoor_tx X input outputs i), op_vout = 0\<rparr>\<rparr>"
  unfolding arkoor_spend_def checkpoint_spend_eq [OF assms]
  by (subst spend_item_vtxo [OF assms(1)]) (simp_all add: checkpointed_arkoor_tx_def)

text \<open>Builders whose computed fields are those of the constructor.\<close>

definition checkpoint_base :: "externals \<Rightarrow> CheckpointedArkoorBuilder \<Rightarrow> bool" where
  "checkpoint_base X b \<longleftrightarrow>
     checkpoint_balanced (cb_input b) (cb_outputs b) \<and> checkpoint_heights_ok (cb_input b) (cb_outputs b) \<and>
     b\<lparr>cb_user_pub_nonces := None, cb_user_sec_nonces := None, cb_server_pub_nonces := None,
       cb_server_partial_sigs := None, cb_full_signatures := None, cb_state := Initial\<rparr>
     = checkpoint_initial X (cb_input b) (cb_outputs b)"

lemma checkpoint_base_fields:
  assumes "checkpoint_base X b"
  shows "cb_unsigned_checkpoint_tx b = checkpoint_tx X (cb_input b) (cb_outputs b)"
    "cb_unsigned_checkpoint_txid b = ext_txid X (checkpoint_tx X (cb_input b) (cb_outputs b))"
    "cb_unsigned_arkoor_txs b = map (checkpointed_arkoor_tx X (cb_input b) (cb_outputs b)) [0..<length (cb_outputs b)]"
    "cb_sighashes b = map (checkpoint_msg X (cb_input b) (cb_outputs b)) [0..<Suc (length (cb_outputs b))]"
    "taptweak_at b idx = ext_tap_tweak X (checkpoint_taproot_at X (cb_input b) idx)"
    "cb_new_vtxo_ids b = map (\<lambda>i. vtxo_id_of_point
        \<lparr>op_txid = ext_txid X (checkpointed_arkoor_tx X (cb_input b) (cb_outputs b) i), op_vout = 0\<rparr>)
        [0..<length (cb_outputs b)]"
proof -
  show "cb_unsigned_checkpoint_tx b = checkpoint_tx X (cb_input b) (cb_outputs b)"
    "cb_unsigned_checkpoint_txid b = ext_txid X (checkpoint_tx X (cb_input b) (cb_outputs b))"
    "cb_unsigned_arkoor_txs b = map (checkpointed_arkoor_tx X (cb_input b) (cb_outputs b)) [0..<length (cb_outputs b)]"
    "cb_sighashes b = map (checkpoint_msg X (cb_input b) (cb_outputs b)) [0..<Suc (length (cb_outputs b))]"
    "taptweak_at b idx = ext_tap_tweak X (checkpoint_taproot_at X (cb_input b) idx)"
    "cb_new_vtxo_ids b = map (\<lambda>i. vtxo_id_of_point
        \<lparr>op_txid = ext_txid X (checkpointed_arkoor_tx X (cb_input b) (cb_outputs b) i), op_vout = 0\<rparr>)
        [0..<length (cb_outputs b)]"
    using assms unfolding checkpoint_base_def
    by (cases b, simp add: checkpoint_initial_def taptweak_at_def checkpoint_taproot_at_def del: upt_Suc)+
qed

lemma checkpoint_item_eq:
  assumes "p2tr_laws X" "checkpoint_base X b"
  shows "checkpoint_item X b i sig = spend_item (v_policy (cb_input b)) sig (checkpoint_outs X (cb_input b) (cb_outputs b)) i"
proof -
  have "other_outputs_of X (checkpoint_tx X (cb_input b) (cb_outputs b)) i = drop_nth i (checkpoint_outs X (cb_input b) (cb_outputs b))"
    by (rule other_outputs_of_spend [OF assms(1)]) (auto simp: checkpoint_tx_def checkpoint_outs_def)
  then show ?thesis by (simp add: checkpoint_item_def spend_item_def checkpoint_base_fields [OF assms(2)])
qed

lemma vtxo_at_eq:
  assumes "segwit_laws X" "p2tr_laws X" "txid_laws X" "checkpoint_base X b" "i < nb_outputs b" "i < 256"
  shows "vtxo_at X b i checkpoint_sig arkoor_sig = Ok (arkoor_spend X (cb_input b) (cb_outputs b) i checkpoint_sig arkoor_sig)"
    and "checkpoint_vtxo_at X b i checkpoint_sig = Ok (checkpoint_spend X (cb_input b) (cb_outputs b) i checkpoint_sig)"
proof -
  have i: "i < length (cb_outputs b)" using assms(5) by (simp add: nb_outputs_def)
  have "wf_outpoint \<lparr>op_txid = ext_txid X tx, op_vout = 0\<rparr>" for tx
    using assms(3) by (simp add: txid_laws_def wf_outpoint_def)
  then show "vtxo_at X b i checkpoint_sig arkoor_sig = Ok (arkoor_spend X (cb_input b) (cb_outputs b) i checkpoint_sig arkoor_sig)"
    using i by (simp add: vtxo_at_def checkpoint_base_fields [OF assms(4)] checkpoint_item_eq [OF assms(2,4)]
        arkoor_spend_eq [OF assms(1) i assms(6)] vtxo_id_point_roundtrip Let_def) (simp add: spend_item_def)
  show "checkpoint_vtxo_at X b i checkpoint_sig = Ok (checkpoint_spend X (cb_input b) (cb_outputs b) i checkpoint_sig)"
    using i by (simp add: checkpoint_vtxo_at_def checkpoint_base_fields [OF assms(4)] checkpoint_item_eq [OF assms(2,4)]
        checkpoint_spend_eq [OF assms(1) i assms(6)] checkpoint_point_def Let_def)
qed

text \<open>Both spends keep the VTXO sound.\<close>

lemma checkpoint_spend_sound:
  assumes laws: "segwit_laws X" "p2tr_laws X" and i: "i < length outputs" "i < 256"
    and ok: "checkpoint_balanced input outputs" "checkpoint_heights_ok input outputs"
    and sound: "sound_vtxo X input anchor_tx"
    and sig: "ext_verify_schnorr X sig (checkpoint_msg X input outputs 0) (ext_output_key X (checkpoint_taproot_at X input 0))"
  shows "sound_vtxo X (checkpoint_spend X input outputs i (Some sig)) anchor_tx"
  unfolding checkpoint_spend_def
proof (rule spend_sound [OF sound], rule spend_item_ok [OF laws(1)])
  let ?outs = "checkpoint_outs X input outputs"
  show "sum_list (map txo_value ?outs) = v_amount input"
    using ok(1) by (simp add: checkpoint_outs_def checkpoint_balanced_def comp_def)
  show "list_all (is_standard X) ?outs"
    using ok(1) p2tr_standard [OF laws(2)] by (auto simp: list_all_iff checkpoint_outs_def checkpoint_balanced_def)
  show "ext_verify_schnorr X sig (ext_key_sighash X (spend_tx X (v_point input) ?outs) (vtxo_txout X input))
      (ext_output_key X (vtxo_output_taproot X input))"
    using sig by (simp add: checkpoint_msg_def checkpoint_taproot_at_def checkpoint_tx_def)
qed (use i ok(2) in \<open>simp_all add: checkpoint_outs_def checkpoint_heights_ok_def\<close>)

lemma arkoor_spend_sound:
  assumes laws: "segwit_laws X" "p2tr_laws X" and i: "i < length outputs" "i < 256"
    and ok: "checkpoint_balanced input outputs" "checkpoint_heights_ok input outputs"
    and sound: "sound_vtxo X (checkpoint_spend X input outputs i (Some csig)) anchor_tx"
    and sig: "ext_verify_schnorr X asig (checkpoint_msg X input outputs (Suc i))
      (ext_output_key X (checkpoint_taproot_at X input (Suc i)))"
  shows "sound_vtxo X (arkoor_spend X input outputs i (Some csig) (Some asig)) anchor_tx"
proof -
  let ?c = "checkpoint_spend X input outputs i (Some csig)"
  let ?out = "policy_txout_in X input (vr_policy (outputs ! i)) (vr_amount (outputs ! i))"
  note c = checkpoint_spend_eq [OF laws(1) i]
  have policy: "v_policy ?c = checkpoint_policy_of input" by (simp add: c)
  have prev: "vtxo_txout X ?c = checkpoint_outs X input outputs ! i"
    using i(1) by (simp add: c vtxo_txout_def checkpoint_outs_def)
  have taproot: "vtxo_output_taproot X ?c = checkpoint_taproot_at X input (Suc i)"
    by (simp add: c vtxo_output_taproot_def checkpoint_taproot_at_def)
  have "spend_ok X ?c (spend_item (v_policy ?c) (Some asig) [?out] 0) (vr_policy (outputs ! i)) (vr_amount (outputs ! i)) asig"
  proof (rule spend_item_ok [OF laws(1)])
    show "list_all (is_standard X) [?out]"
      using ok(1) i(1) p2tr_standard [OF laws(2)] by (auto simp: list_all_length checkpoint_balanced_def)
    show "policy_locktime_ok (vr_policy (outputs ! i)) (v_expiry_height ?c)"
      using ok(2) i(1) by (simp add: c checkpoint_heights_ok_def list_all_length)
    show "ext_verify_schnorr X asig (ext_key_sighash X (spend_tx X (v_point ?c) [?out]) (vtxo_txout X ?c))
        (ext_output_key X (vtxo_output_taproot X ?c))"
      unfolding prev taproot using sig by (simp add: c checkpoint_msg_def checkpointed_arkoor_tx_def)
  qed (simp_all add: c)
  from spend_sound [OF sound this] show ?thesis unfolding arkoor_spend_def policy .
qed

subsection \<open>Signatures\<close>

lemma checkpoint_taproot_key:
  "internal_key (checkpoint_taproot_at X input idx) = combine_keys X [vtxo_user_pubkey input, v_server_pubkey input]"
  using policy_taproot_internal_key [of X "checkpoint_policy_of input"]
  by (simp add: checkpoint_taproot_at_def vtxo_output_taproot_key)

text \<open>A response that the user accepts.\<close>

definition checkpoint_accepts :: "externals \<Rightarrow> CheckpointedArkoorBuilder \<Rightarrow> PublicNonce list \<Rightarrow> CosignResponse \<Rightarrow> bool" where
  "checkpoint_accepts X b nonces r \<longleftrightarrow>
     length (cr_server_pub_nonces r) = nb_sigs b \<and> length (cr_server_partial_sigs r) = nb_sigs b \<and>
     (\<forall>idx < nb_sigs b. verify_partial_sig X (checkpoint_msg X (cb_input b) (cb_outputs b) idx)
        (ext_tap_tweak X (checkpoint_taproot_at X (cb_input b) idx))
        (v_server_pubkey (cb_input b), cr_server_pub_nonces r ! idx)
        (vtxo_user_pubkey (cb_input b), nonces ! idx) (cr_server_partial_sigs r ! idx))"

lemma checkpoint_sighash_nth:
  assumes "checkpoint_base X b" "idx < nb_sigs b"
  shows "index (cb_sighashes b) idx = Ok (checkpoint_msg X (cb_input b) (cb_outputs b) idx)"
proof -
  have "[0..<Suc n] ! idx = idx" if "idx < Suc n" for n using that by (simp del: upt_Suc)
  then show ?thesis
    using assms by (simp add: checkpoint_base_fields [OF assms(1)] nb_sigs_def del: upt_Suc)
qed

lemma validate_server_cosign_response_iff:
  assumes base: "checkpoint_base X b" and nonces: "cb_user_pub_nonces b = Some nonces" "length nonces = nb_sigs b"
  shows "validate_server_cosign_response X b r = Ok () \<longleftrightarrow> checkpoint_accepts X b nonces r"
proof (cases "length (cr_server_pub_nonces r) = nb_sigs b \<and> length (cr_server_partial_sigs r) = nb_sigs b")
  case True
  let ?ok = "\<lambda>idx. verify_partial_sig X (checkpoint_msg X (cb_input b) (cb_outputs b) idx)
        (ext_tap_tweak X (checkpoint_taproot_at X (cb_input b) idx))
        (v_server_pubkey (cb_input b), cr_server_pub_nonces r ! idx)
        (vtxo_user_pubkey (cb_input b), nonces ! idx) (cr_server_partial_sigs r ! idx)"
  let ?check = "map (\<lambda>idx. if ?ok idx then Ok () else err (InvalidPartialSignature idx)) [0..<nb_sigs b]"
  have loop: "map (\<lambda>idx.
          and_then (index (cb_sighashes b) idx) (\<lambda>sighash.
          and_then (index (cr_server_pub_nonces r) idx) (\<lambda>server_nonce.
          and_then (expect (cb_user_pub_nonces b) ''State invariant'') (\<lambda>nonces.
          and_then (index nonces idx) (\<lambda>user_nonce.
          and_then (index (cr_server_partial_sigs r) idx) (\<lambda>sig.
          if verify_partial_sig X sighash (taptweak_at b idx) (v_server_pubkey (cb_input b), server_nonce)
               (vtxo_user_pubkey (cb_input b), user_nonce) sig
          then Ok () else err (InvalidPartialSignature idx))))))) [0..<nb_sigs b] = ?check"
    by (rule map_cong [OF refl])
      (use True nonces in \<open>simp add: checkpoint_sighash_nth [OF base] checkpoint_base_fields(5) [OF base]\<close>)
  have "validate_server_cosign_response X b r = and_then (collect_results ?check) (\<lambda>_. Ok ())"
    unfolding validate_server_cosign_response_def loop using True by simp
  moreover have "(\<exists>us. collect_results ?check = Ok us) \<longleftrightarrow> (\<forall>idx < nb_sigs b. ?ok idx)"
  proof
    assume "\<exists>us. collect_results ?check = Ok us"
    then show "\<forall>idx < nb_sigs b. ?ok idx" by (auto simp: collect_results_map_eq split: if_splits)
  next
    assume "\<forall>idx < nb_sigs b. ?ok idx"
    then have "collect_results ?check = Ok (map (\<lambda>_. ()) [0..<nb_sigs b])"
      by (intro collect_results_mapI) simp
    then show "\<exists>us. collect_results ?check = Ok us" by blast
  qed
  ultimately show ?thesis using True by (auto simp: checkpoint_accepts_def and_then_eq_Inr)
qed (auto simp: validate_server_cosign_response_def checkpoint_accepts_def)

text \<open>The user's own nonces, one for each signature.\<close>

definition checkpoint_nonces ::
  "externals \<Rightarrow> CheckpointedArkoorBuilder \<Rightarrow> Keypair \<Rightarrow> PublicNonce list \<Rightarrow> SecretNonce list \<Rightarrow> bool" where
  "checkpoint_nonces X b key nonces secs \<longleftrightarrow>
     cb_user_pub_nonces b = Some nonces \<and> cb_user_sec_nonces b = Some secs \<and>
     length nonces = nb_sigs b \<and> length secs = nb_sigs b \<and>
     (\<forall>i < nb_sigs b. nonce_for X key (secs ! i) (nonces ! i))"

lemma nb_sigs_update [simp]:
  "nb_sigs (b\<lparr>cb_user_pub_nonces := a\<rparr>) = nb_sigs b" "nb_sigs (b\<lparr>cb_user_sec_nonces := c\<rparr>) = nb_sigs b"
  "nb_sigs (b\<lparr>cb_server_pub_nonces := a\<rparr>) = nb_sigs b" "nb_sigs (b\<lparr>cb_server_partial_sigs := d\<rparr>) = nb_sigs b"
  "nb_sigs (b\<lparr>cb_full_signatures := e\<rparr>) = nb_sigs b" "nb_sigs (b\<lparr>cb_state := f\<rparr>) = nb_sigs b"
  by (simp_all add: nb_sigs_def)

lemma checkpoint_generate_nonces:
  assumes "checkpoint_base X b"
  shows "\<exists>nonces secs. checkpoint_generate_user_nonces X rnd b key = (Ok (b\<lparr>cb_user_pub_nonces := Some nonces,
      cb_user_sec_nonces := Some secs, cb_state := UserGeneratedNonces\<rparr>) :: ('e, CheckpointedArkoorBuilder) outcome) \<and>
    checkpoint_nonces X (b\<lparr>cb_user_pub_nonces := Some nonces, cb_user_sec_nonces := Some secs,
      cb_state := UserGeneratedNonces\<rparr>) key nonces secs"
proof -
  let ?pair = "\<lambda>i. nonce_pair_with_msg X (rnd i) key (checkpoint_msg X (cb_input b) (cb_outputs b) i)"
  let ?pairs = "map ?pair [0..<nb_sigs b]"
  have "collect_results (map (\<lambda>idx. and_then (index (cb_sighashes b) idx) (\<lambda>sighash.
       Ok (nonce_pair_with_msg X (rnd idx) key sighash))) [0..<nb_sigs b]) =
     (Ok ?pairs :: ('e, (SecretNonce \<times> PublicNonce) list) outcome)"
    by (rule collect_results_mapI) (simp add: checkpoint_sighash_nth [OF assms])
  moreover have "nonce_for X key (fst (?pair i)) (snd (?pair i))" for i
    unfolding nonce_for_def nonce_pair_with_msg_def by (metis prod.collapse)
  ultimately show ?thesis
    by - (rule exI [of _ "map snd ?pairs"], rule exI [of _ "map fst ?pairs"],
        simp add: checkpoint_generate_user_nonces_def checkpoint_nonces_def)
qed

lemma checkpoint_base_update [simp]:
  "checkpoint_base X (b\<lparr>cb_user_pub_nonces := a\<rparr>) = checkpoint_base X b"
  "checkpoint_base X (b\<lparr>cb_user_sec_nonces := c\<rparr>) = checkpoint_base X b"
  "checkpoint_base X (b\<lparr>cb_server_pub_nonces := d\<rparr>) = checkpoint_base X b"
  "checkpoint_base X (b\<lparr>cb_server_partial_sigs := e\<rparr>) = checkpoint_base X b"
  "checkpoint_base X (b\<lparr>cb_full_signatures := f\<rparr>) = checkpoint_base X b"
  "checkpoint_base X (b\<lparr>cb_state := g\<rparr>) = checkpoint_base X b"
  by (cases b; simp add: checkpoint_base_def)+

lemma checkpoint_initial_base:
  "checkpoint_balanced input outputs \<Longrightarrow> checkpoint_heights_ok input outputs \<Longrightarrow>
   checkpoint_base X (checkpoint_initial X input outputs)"
  by (simp add: checkpoint_base_def checkpoint_initial_def)

text \<open>What \<open>user_cosign\<close> returns: the full signatures, valid when the nonces belong to the key.\<close>

lemma user_cosign_eq:
  assumes base: "checkpoint_base X b" and nonces: "cb_user_pub_nonces b = Some nonces" "length nonces = nb_sigs b"
    and secs: "cb_user_sec_nonces b = Some secs" "length secs = nb_sigs b"
    and key: "ext_public_key X key = vtxo_user_pubkey (cb_input b)" and accepts: "checkpoint_accepts X b nonces r"
  defines "sig \<equiv> \<lambda>idx. snd (partial_sign X [vtxo_user_pubkey (cb_input b), v_server_pubkey (cb_input b)]
      (nonce_agg X [nonces ! idx, cr_server_pub_nonces r ! idx]) key (secs ! idx)
      (checkpoint_msg X (cb_input b) (cb_outputs b) idx)
      (Some (ext_tap_tweak X (checkpoint_taproot_at X (cb_input b) idx))) (Some [cr_server_partial_sigs r ! idx]))"
  shows "user_cosign X b key r = Ok (b\<lparr>cb_user_sec_nonces := None,
      cb_full_signatures := Some (map (\<lambda>idx. the (sig idx)) [0..<nb_sigs b]), cb_state := UserSigned\<rparr>)"
proof -
  have valid: "validate_server_cosign_response X b r = Ok ()"
    using validate_server_cosign_response_iff [OF base nonces] accepts by simp
  have lens: "length (cr_server_pub_nonces r) = nb_sigs b" "length (cr_server_partial_sigs r) = nb_sigs b"
    using accepts by (simp_all add: checkpoint_accepts_def)
  have some: "sig idx = Some (the (sig idx))" for idx by (simp add: sig_def partial_sign_def Let_def)
  have "collect_results (map (\<lambda>(idx, user_sec_nonce).
          and_then (expect (cb_user_pub_nonces b) ''State invariant'') (\<lambda>nonces.
          and_then (index nonces idx) (\<lambda>user_nonce.
          and_then (index (cr_server_pub_nonces r) idx) (\<lambda>server_nonce.
          and_then (index (cb_sighashes b) idx) (\<lambda>sighash.
          and_then (index (cr_server_partial_sigs r) idx) (\<lambda>sig.
          expect (snd (partial_sign X [vtxo_user_pubkey (cb_input b), v_server_pubkey (cb_input b)]
                    (nonce_agg X [user_nonce, server_nonce]) key user_sec_nonce sighash
                    (Some (taptweak_at b idx)) (Some [sig])))
            ''The full signature exists. The server did sign first'')))))) (enumerate 0 secs))
      = (Ok (map (\<lambda>idx. the (sig idx)) [0..<nb_sigs b]) :: (ArkoorSigningError, Signature list) outcome)"
    unfolding collect_results_map_eq
    using secs lens nonces some
    by (simp add: nth_enumerate_eq checkpoint_sighash_nth [OF base] checkpoint_base_fields(5) [OF base])
      (simp add: sig_def partial_sign_def Let_def)
  then show ?thesis
    unfolding user_cosign_def using key valid secs(1) by simp
qed

lemma user_cosign_signatures:
  assumes laws: "musig_laws X" and base: "checkpoint_base X b" and nonces: "checkpoint_nonces X b key nonces secs"
    and key: "ext_public_key X key = vtxo_user_pubkey (cb_input b)" and accepts: "checkpoint_accepts X b nonces r"
  shows "\<exists>sigs. user_cosign X b key r = Ok (b\<lparr>cb_user_sec_nonces := None, cb_full_signatures := Some sigs,
      cb_state := UserSigned\<rparr>) \<and> length sigs = nb_sigs b \<and>
    (\<forall>idx < nb_sigs b. ext_verify_schnorr X (sigs ! idx) (checkpoint_msg X (cb_input b) (cb_outputs b) idx)
       (ext_output_key X (checkpoint_taproot_at X (cb_input b) idx)))"
proof -
  note n = nonces [unfolded checkpoint_nonces_def]
  let ?sig = "\<lambda>idx. snd (partial_sign X [vtxo_user_pubkey (cb_input b), v_server_pubkey (cb_input b)]
      (nonce_agg X [nonces ! idx, cr_server_pub_nonces r ! idx]) key (secs ! idx)
      (checkpoint_msg X (cb_input b) (cb_outputs b) idx)
      (Some (ext_tap_tweak X (checkpoint_taproot_at X (cb_input b) idx))) (Some [cr_server_partial_sigs r ! idx]))"
  have "ext_verify_schnorr X (the (?sig idx)) (checkpoint_msg X (cb_input b) (cb_outputs b) idx)
       (ext_output_key X (checkpoint_taproot_at X (cb_input b) idx))" if "idx < nb_sigs b" for idx
    using two_party_finish [OF laws checkpoint_taproot_key _ _ key] accepts n that
    unfolding checkpoint_accepts_def by (metis option.sel)
  with user_cosign_eq [OF base _ _ _ _ key accepts] n show ?thesis
    by (intro exI [of _ "map (\<lambda>idx. the (?sig idx)) [0..<nb_sigs b]"]) simp
qed

text \<open>An accepted response is what makes \<open>user_cosign\<close> return.\<close>

lemma user_cosign_OkD:
  assumes "user_cosign X b key r = Ok b'"
  shows "ext_public_key X key = vtxo_user_pubkey (cb_input b)" "validate_server_cosign_response X b r = Ok ()"
  using assms by (auto simp: user_cosign_def and_then_eq_Inr split: if_splits)

lemma checkpoint_server_signs:
  assumes base: "checkpoint_base X b" and nonces: "cb_user_pub_nonces b = Some nonces" "length nonces = nb_sigs b"
    and key: "ext_public_key X key = v_server_pubkey (cb_input b)"
  shows "\<exists>r. checkpoint_server_cosign X rnd b key = Ok (b\<lparr>cb_server_pub_nonces := Some (cr_server_pub_nonces r),
      cb_server_partial_sigs := Some (cr_server_partial_sigs r), cb_state := ServerSigned\<rparr>) \<and>
    (musig_laws X \<longrightarrow> checkpoint_accepts X b nonces r)"
proof -
  let ?sign = "\<lambda>idx. deterministic_partial_sign X (rnd idx) key [vtxo_user_pubkey (cb_input b)] [nonces ! idx]
      (checkpoint_msg X (cb_input b) (cb_outputs b) idx)
      (Some (ext_tap_tweak X (checkpoint_taproot_at X (cb_input b) idx)))"
  let ?pairs = "map ?sign [0..<nb_sigs b]"
  let ?r = "\<lparr>cr_server_pub_nonces = map fst ?pairs, cr_server_partial_sigs = map snd ?pairs\<rparr>"
  have loop: "collect_results (map (\<lambda>idx.
          and_then (expect (cb_user_pub_nonces b) ''state-invariant'') (\<lambda>nonces.
          and_then (index nonces idx) (\<lambda>nonce.
          and_then (index (cb_sighashes b) idx) (\<lambda>sighash.
          Ok (deterministic_partial_sign X (rnd idx) key [vtxo_user_pubkey (cb_input b)] [nonce]
                sighash (Some (taptweak_at b idx))))))) [0..<nb_sigs b]) =
      (Ok ?pairs :: (ArkoorSigningError, (PublicNonce \<times> PartialSignature) list) outcome)"
    by (rule collect_results_mapI)
      (use nonces in \<open>simp add: checkpoint_sighash_nth [OF base] checkpoint_base_fields(5) [OF base]\<close>)
  have "checkpoint_server_cosign X rnd b key = Ok (b\<lparr>cb_server_pub_nonces := Some (cr_server_pub_nonces ?r),
      cb_server_partial_sigs := Some (cr_server_partial_sigs ?r), cb_state := ServerSigned\<rparr>)"
    unfolding checkpoint_server_cosign_def loop using key by simp
  moreover have "checkpoint_accepts X b nonces ?r" if laws: "musig_laws X"
    unfolding checkpoint_accepts_def
    using two_party_cosign [OF laws key, where nonce = "fst (?sign idx)" and psig = "snd (?sign idx)" for idx] by simp
  ultimately show ?thesis by blast
qed

section \<open>The state machine\<close>

inductive checkpoint_reachable :: "externals \<Rightarrow> CheckpointedArkoorBuilder \<Rightarrow> bool" for X where
  new: "CheckpointedArkoorBuilder_new X input outputs = Ok b \<Longrightarrow> checkpoint_reachable X b"
| nonces: "checkpoint_reachable X b \<Longrightarrow> cb_state b = Initial \<Longrightarrow>
    checkpoint_generate_user_nonces X rnd b key = (Ok b' :: (unit, CheckpointedArkoorBuilder) outcome) \<Longrightarrow>
    checkpoint_reachable X b'"
| request: "from_cosign_request X r = Ok b \<Longrightarrow> checkpoint_reachable X b"
| server: "checkpoint_reachable X b \<Longrightarrow> cb_state b = ServerMayCosign \<Longrightarrow>
    checkpoint_server_cosign X rnd b key = Ok b' \<Longrightarrow> checkpoint_reachable X b'"
| user: "checkpoint_reachable X b \<Longrightarrow> cb_state b = UserGeneratedNonces \<Longrightarrow>
    user_cosign X b key resp = Ok b' \<Longrightarrow> checkpoint_reachable X b'"

definition checkpoint_inv :: "externals \<Rightarrow> CheckpointedArkoorBuilder \<Rightarrow> bool" where
  "checkpoint_inv X b \<longleftrightarrow> checkpoint_base X b \<and>
     (case cb_state b of
        Initial \<Rightarrow> True
      | UserGeneratedNonces \<Rightarrow> (\<exists>key nonces secs. checkpoint_nonces X b key nonces secs)
      | ServerMayCosign \<Rightarrow> (\<exists>nonces. cb_user_pub_nonces b = Some nonces \<and> length nonces = nb_sigs b)
      | ServerSigned \<Rightarrow> cb_server_pub_nonces b \<noteq> None \<and> cb_server_partial_sigs b \<noteq> None
      | UserSigned \<Rightarrow> (\<exists>sigs. cb_full_signatures b = Some sigs \<and> length sigs = nb_sigs b))"

lemma new_base:
  assumes "CheckpointedArkoorBuilder_new X input outputs = Ok b"
  shows "checkpoint_base X b" "cb_state b = Initial" "cb_input b = input" "cb_outputs b = outputs"
  using assms checkpoint_initial_base
  by (auto simp: CheckpointedArkoorBuilder_new_Ok) (simp_all add: checkpoint_initial_def)

lemma checkpoint_reachable_inv: "checkpoint_reachable X b \<Longrightarrow> checkpoint_inv X b"
proof (induction rule: checkpoint_reachable.induct)
  case (new input outputs b)
  from new_base [OF this] show ?case by (simp add: checkpoint_inv_def)
next
  case (nonces b rnd key b')
  then have "checkpoint_base X b" by (simp add: checkpoint_inv_def)
  from checkpoint_generate_nonces [OF this, of rnd key, where 'e = unit] nonces.hyps(3) this show ?case
    by (auto simp: checkpoint_inv_def) blast
next
  case (request r b)
  then obtain b0 where b0: "CheckpointedArkoorBuilder_new X (cq_input r) (cq_outputs r) = Ok b0"
    "set_user_pub_nonces b0 (cq_user_pub_nonces r) = Ok b"
    by (auto simp: from_cosign_request_def and_then_eq_Inr)
  from b0(2) new_base(1) [OF b0(1)] show ?case
    by (auto simp: checkpoint_inv_def set_user_pub_nonces_def split: if_splits)
next
  case (server b rnd key b')
  then obtain nonces where "checkpoint_base X b" "cb_user_pub_nonces b = Some nonces" "length nonces = nb_sigs b"
    by (auto simp: checkpoint_inv_def)
  moreover have "ext_public_key X key = v_server_pubkey (cb_input b)"
    using server.hyps(3) by (auto simp: checkpoint_server_cosign_def split: if_splits)
  ultimately show ?case
    using checkpoint_server_signs [of X b nonces key rnd] server.hyps(3) by (auto simp: checkpoint_inv_def)
next
  case (user b key resp b')
  then obtain nonces secs where base: "checkpoint_base X b" and n: "cb_user_pub_nonces b = Some nonces"
    "length nonces = nb_sigs b" "cb_user_sec_nonces b = Some secs" "length secs = nb_sigs b"
    by (auto simp: checkpoint_inv_def checkpoint_nonces_def)
  have "checkpoint_accepts X b nonces resp"
    using user_cosign_OkD(2) [OF user.hyps(3)] validate_server_cosign_response_iff [OF base n(1,2)] by simp
  from user_cosign_eq [OF base n user_cosign_OkD(1) [OF user.hyps(3)] this] user.hyps(3) base show ?case
    by (auto simp: checkpoint_inv_def)
qed

text \<open>No call ends in a panic.\<close>

definition no_panic :: "('e, 'a) outcome \<Rightarrow> bool" where
  "no_panic m \<longleftrightarrow> (case m of Inl (Panic _) \<Rightarrow> False | _ \<Rightarrow> True)"

lemma no_panic_simps [simp]: "no_panic (Ok x)" "no_panic (err e)" "\<not> no_panic (panic m)"
  by (simp_all add: no_panic_def)

lemma no_panic_and_then: "no_panic m \<Longrightarrow> (\<And>x. m = Ok x \<Longrightarrow> no_panic (f x)) \<Longrightarrow> no_panic (and_then m f)"
  by (cases m) (auto simp: no_panic_def split: failure.splits)

lemma no_panic_collect: "(\<And>m. m \<in> set ms \<Longrightarrow> no_panic m) \<Longrightarrow> no_panic (collect_results ms)"
  by (induction ms) (auto intro!: no_panic_and_then)

lemma validate_response_no_panic:
  assumes base: "checkpoint_base X b" and nonces: "cb_user_pub_nonces b = Some nonces" "length nonces = nb_sigs b"
  shows "no_panic (validate_server_cosign_response X b r)"
  unfolding validate_server_cosign_response_def
  by (auto intro!: no_panic_and_then no_panic_collect simp: checkpoint_sighash_nth [OF base] nonces)

lemma user_cosign_no_panic:
  assumes base: "checkpoint_base X b" and nonces: "cb_user_pub_nonces b = Some nonces" "length nonces = nb_sigs b"
    and secs: "cb_user_sec_nonces b = Some secs" "length secs = nb_sigs b"
  shows "no_panic (user_cosign X b key r)"
proof (cases "ext_public_key X key = vtxo_user_pubkey (cb_input b) \<and> checkpoint_accepts X b nonces r")
  case True
  then show ?thesis using user_cosign_eq [OF base nonces secs] by simp
next
  case False
  then consider "ext_public_key X key \<noteq> vtxo_user_pubkey (cb_input b)" | "validate_server_cosign_response X b r \<noteq> Ok ()"
    using validate_server_cosign_response_iff [OF base nonces] by blast
  then show ?thesis
    using validate_response_no_panic [OF base nonces, of r]
    by cases (auto simp: user_cosign_def intro!: no_panic_and_then)
qed

lemma vtxo_at_no_panic:
  "checkpoint_base X b \<Longrightarrow> i < nb_outputs b \<Longrightarrow> \<exists>v. vtxo_at X b i c a = (Ok v :: ('e, Vtxo) outcome)"
  "checkpoint_base X b \<Longrightarrow> i < nb_outputs b \<Longrightarrow> \<exists>v. checkpoint_vtxo_at X b i c = (Ok v :: ('e, Vtxo) outcome)"
  by (simp_all add: vtxo_at_def checkpoint_vtxo_at_def nb_outputs_def checkpoint_base_fields Let_def)

section \<open>The contract between user and server\<close>

text \<open>The user's builder after it generated nonces with its key for a sound input.\<close>

definition checkpoint_ready :: "externals \<Rightarrow> Transaction \<Rightarrow> CheckpointedArkoorBuilder \<Rightarrow> Keypair \<Rightarrow> bool" where
  "checkpoint_ready X anchor_tx b key \<longleftrightarrow>
     musig_laws X \<and> segwit_laws X \<and> p2tr_laws X \<and> txid_laws X \<and> sound_vtxo X (cb_input b) anchor_tx \<and>
     checkpoint_base X b \<and> nb_outputs b \<le> 256 \<and> (\<exists>nonces secs. checkpoint_nonces X b key nonces secs) \<and>
     ext_public_key X key = vtxo_user_pubkey (cb_input b)"

definition checkpoint_result :: "externals \<Rightarrow> Transaction \<Rightarrow> CheckpointedArkoorBuilder \<Rightarrow> Vtxo list \<Rightarrow> bool" where
  "checkpoint_result X anchor_tx b vs \<longleftrightarrow>
     map v_policy vs = map vr_policy (cb_outputs b) \<and> map v_amount vs = map vr_amount (cb_outputs b) \<and>
     list_all (\<lambda>v. sound_vtxo X v anchor_tx) vs"

definition checkpoint_finish ::
  "externals \<Rightarrow> CheckpointedArkoorBuilder \<Rightarrow> Keypair \<Rightarrow> CosignResponse \<Rightarrow> Vtxo list option" where
  "checkpoint_finish X b key r =
     ok_of (and_then (user_cosign X b key r) (\<lambda>b'. build_signed_vtxos X b'))"

definition checkpoint_verify :: "externals \<Rightarrow> CheckpointedArkoorBuilder \<Rightarrow> CosignResponse \<Rightarrow> bool" where
  "checkpoint_verify X b r \<longleftrightarrow> validate_server_cosign_response X b r = Ok ()"

text \<open>The server's side: it rebuilds the payment from the request and signs it.\<close>

definition checkpoint_serve ::
  "externals \<Rightarrow> (nat \<Rightarrow> nat) \<Rightarrow> CheckpointedArkoorBuilder \<Rightarrow> Keypair \<Rightarrow> (ArkoorSigningError, CosignResponse) outcome" where
  "checkpoint_serve X rnd b server_key =
     and_then (checkpoint_cosign_request b) (\<lambda>request.
     and_then (from_cosign_request X request) (\<lambda>s.
     and_then (checkpoint_server_cosign X rnd s server_key) checkpoint_cosign_response))"

lemma build_signed_vtxos_eq:
  assumes laws: "segwit_laws X" "p2tr_laws X" "txid_laws X" and base: "checkpoint_base X b" and n: "nb_outputs b \<le> 256"
    and sigs: "cb_full_signatures b = Some sigs" "length sigs = nb_sigs b"
  shows "build_signed_vtxos X b = Ok (map (\<lambda>i. arkoor_spend X (cb_input b) (cb_outputs b) i (Some (sigs ! 0))
    (Some (sigs ! Suc i))) [0..<nb_outputs b])"
proof -
  have "0 < length sigs" "length (drop 1 sigs) = nb_outputs b"
    using sigs(2) by (simp_all add: nb_sigs_def nb_outputs_def)
  then show ?thesis
    unfolding build_signed_vtxos_def using sigs(1) n
    by simp (rule collect_results_mapI, simp add: vtxo_at_eq [OF laws base])
qed

lemma checkpoint_finish_result:
  assumes ready: "checkpoint_ready X anchor_tx b key" and ok: "checkpoint_verify X b r"
  shows "\<exists>vs. checkpoint_finish X b key r = Some vs \<and> checkpoint_result X anchor_tx b vs"
proof -
  note rd = ready [unfolded checkpoint_ready_def]
  have base: "checkpoint_base X b" using rd by blast
  from rd obtain nonces secs where nonces: "checkpoint_nonces X b key nonces secs" by blast
  have "checkpoint_accepts X b nonces r"
    using ok validate_server_cosign_response_iff [OF base, of nonces r] nonces
    by (simp add: checkpoint_nonces_def checkpoint_verify_def)
  with user_cosign_signatures [OF _ base nonces] rd obtain sigs where
    sigs: "user_cosign X b key r = Ok (b\<lparr>cb_user_sec_nonces := None, cb_full_signatures := Some sigs, cb_state := UserSigned\<rparr>)"
    "length sigs = nb_sigs b" "\<And>idx. idx < nb_sigs b \<Longrightarrow>
       ext_verify_schnorr X (sigs ! idx) (checkpoint_msg X (cb_input b) (cb_outputs b) idx)
         (ext_output_key X (checkpoint_taproot_at X (cb_input b) idx))" by blast
  let ?b' = "b\<lparr>cb_user_sec_nonces := None, cb_full_signatures := Some sigs, cb_state := UserSigned\<rparr>"
  let ?vs = "map (\<lambda>i. arkoor_spend X (cb_input b) (cb_outputs b) i (Some (sigs ! 0)) (Some (sigs ! Suc i))) [0..<nb_outputs b]"
  have build: "build_signed_vtxos X ?b' = (Ok ?vs :: (ArkoorSigningError, Vtxo list) outcome)"
    using build_signed_vtxos_eq [of X ?b' sigs, where 'a = ArkoorSigningError] rd sigs(2) by (simp add: nb_outputs_def)
  have nth: "sound_vtxo X (?vs ! i) anchor_tx \<and> v_policy (?vs ! i) = vr_policy (cb_outputs b ! i) \<and>
      v_amount (?vs ! i) = vr_amount (cb_outputs b ! i)" if i: "i < nb_outputs b" for i
  proof -
    have i': "i < length (cb_outputs b)" "i < 256" "0 < nb_sigs b" "Suc i < nb_sigs b"
      using i rd by (simp_all add: nb_outputs_def nb_sigs_def)
    have ok: "checkpoint_balanced (cb_input b) (cb_outputs b)" "checkpoint_heights_ok (cb_input b) (cb_outputs b)"
      using base by (simp_all add: checkpoint_base_def)
    have "sound_vtxo X (checkpoint_spend X (cb_input b) (cb_outputs b) i (Some (sigs ! 0))) anchor_tx"
      using checkpoint_spend_sound [OF _ _ i'(1,2) ok] sigs(3) [OF i'(3)] rd by blast
    then have "sound_vtxo X (?vs ! i) anchor_tx"
      using arkoor_spend_sound [OF _ _ i'(1,2) ok _ sigs(3) [OF i'(4)]] rd i by simp
    with i show ?thesis
      using arkoor_spend_eq [OF _ i'(1,2)] rd by simp
  qed
  have len: "length ?vs = length (cb_outputs b)" by (simp add: nb_outputs_def)
  have "map v_policy ?vs = map vr_policy (cb_outputs b)" "map v_amount ?vs = map vr_amount (cb_outputs b)"
    by (rule nth_equalityI; use len nth in \<open>simp add: nb_outputs_def\<close>)+
  moreover have "list_all (\<lambda>v. sound_vtxo X v anchor_tx) ?vs"
    unfolding list_all_length using nth by simp
  ultimately have "checkpoint_result X anchor_tx b ?vs" by (simp only: checkpoint_result_def simp_thms)
  with sigs(1) build show ?thesis by (auto simp: checkpoint_finish_def)
qed

lemma checkpoint_serve_verifies:
  assumes laws: "musig_laws X" and base: "checkpoint_base X b"
    and nonces: "cb_user_pub_nonces b = Some nonces" "length nonces = nb_sigs b"
    and key: "ext_public_key X server_key = v_server_pubkey (cb_input b)"
  shows "\<exists>r. checkpoint_serve X rnd b server_key = Ok r \<and> checkpoint_verify X b r"
proof -
  let ?init = "checkpoint_initial X (cb_input b) (cb_outputs b)"
  let ?s = "?init\<lparr>cb_user_pub_nonces := Some nonces, cb_state := ServerMayCosign\<rparr>"
  have new: "CheckpointedArkoorBuilder_new X (cb_input b) (cb_outputs b) = Ok ?init" and s0: "checkpoint_base X ?init"
    using base checkpoint_initial_base [of "cb_input b" "cb_outputs b" X]
    by (simp_all add: CheckpointedArkoorBuilder_new_Ok checkpoint_base_def)
  have fields: "cb_input ?init = cb_input b" "cb_outputs ?init = cb_outputs b" "nb_sigs ?init = nb_sigs b"
    using new_base(3,4) [OF new] by (simp_all add: nb_sigs_def)
  have request: "and_then (checkpoint_cosign_request b) (from_cosign_request X) = Ok ?s"
    using nonces new fields by (simp add: checkpoint_cosign_request_def from_cosign_request_def set_user_pub_nonces_def)
  from checkpoint_server_signs [of X ?s nonces server_key rnd] s0 nonces(2) key fields laws obtain r where
    r: "checkpoint_server_cosign X rnd ?s server_key = Ok (?s\<lparr>cb_server_pub_nonces := Some (cr_server_pub_nonces r),
      cb_server_partial_sigs := Some (cr_server_partial_sigs r), cb_state := ServerSigned\<rparr>)"
    "checkpoint_accepts X ?s nonces r" by auto
  have "checkpoint_accepts X b nonces r" using r(2) by (simp add: checkpoint_accepts_def fields)
  then have "checkpoint_verify X b r"
    using validate_server_cosign_response_iff [OF base nonces] by (simp add: checkpoint_verify_def)
  moreover have "checkpoint_serve X rnd b server_key = Ok r"
    using request r(1) nonces(1)
    by (simp add: checkpoint_serve_def checkpoint_cosign_response_def checkpoint_cosign_request_def)
  ultimately show ?thesis by blast
qed

interpretation checkpoint: cosign_flow
  "\<lambda>(b, key, rnd). checkpoint_ready X (anchor_tx_of chain (cb_input b)) b key \<and>
     ext_public_key X server_key = v_server_pubkey (cb_input b)"
  "\<lambda>(b, key, rnd). checkpoint_verify X b"
  "\<lambda>(b, key, rnd). checkpoint_finish X b key"
  "\<lambda>(b, key, rnd). checkpoint_result X (anchor_tx_of chain (cb_input b)) b"
  "\<lambda>(b, key, rnd). ok_of (checkpoint_serve X rnd b server_key)"
  for X chain server_key
proof (unfold_locales, goal_cases)
  case (1 r a)
  then show ?case using checkpoint_finish_result by (cases r) fastforce
next
  case (2 r)
  obtain b key rnd where r: "r = (b, key, rnd)" by (cases r) auto
  with 2 obtain nonces secs where "checkpoint_nonces X b key nonces secs" "musig_laws X" "checkpoint_base X b"
    by (auto simp: checkpoint_ready_def)
  with checkpoint_serve_verifies [of X b nonces server_key rnd] 2 r show ?case
    by (auto simp: checkpoint_nonces_def ok_of_eq_Some)
qed

lemma collect_all_Ok:
  assumes "\<And>i. i < n \<Longrightarrow> \<exists>y. f i = (Ok y :: ('e, 'a) outcome)"
  shows "\<exists>ys. collect_results (map f [0..<n]) = (Ok ys :: ('e, 'a list) outcome)"
proof -
  from assms obtain g where "\<And>i. i < n \<Longrightarrow> f i = Ok (g i)" by metis
  then have "collect_results (map f [0..<n]) = Ok (map g [0..<n])" by (intro collect_results_mapI) simp
  then show ?thesis by blast
qed

lemma spend_info_Ok:
  assumes "checkpoint_base X b"
  shows "spend_info X b = (Ok ((vtxo_id (cb_input b), ext_txid X (checkpoint_tx X (cb_input b) (cb_outputs b))) #
    map (\<lambda>i. (vtxo_id_of_point (checkpoint_point X (cb_input b) (cb_outputs b) i),
       ext_txid X (checkpointed_arkoor_tx X (cb_input b) (cb_outputs b) i))) [0..<nb_outputs b])
    :: ('e, (VtxoId \<times> Txid) list) outcome)"
proof -
  have "collect_results (map (\<lambda>idx.
       and_then (index (cb_unsigned_arkoor_txs b) idx) (\<lambda>tx.
       Ok (vtxo_id_of_point \<lparr>op_txid = cb_unsigned_checkpoint_txid b, op_vout = word_of_nat idx\<rparr>, ext_txid X tx)))
       [0..<nb_outputs b]) = (Ok (map (\<lambda>i. (vtxo_id_of_point (checkpoint_point X (cb_input b) (cb_outputs b) i),
       ext_txid X (checkpointed_arkoor_tx X (cb_input b) (cb_outputs b) i))) [0..<nb_outputs b])
       :: ('e, (VtxoId \<times> Txid) list) outcome)"
    by (rule collect_results_mapI) (simp add: checkpoint_base_fields [OF assms] nb_outputs_def checkpoint_point_def)
  then show ?thesis by (simp add: spend_info_def checkpoint_base_fields(2) [OF assms])
qed

text \<open>The methods of the later states.\<close>

lemma checkpoint_state_no_panic:
  assumes "checkpoint_reachable X b"
  shows "cb_state b = UserGeneratedNonces \<Longrightarrow>
      (\<exists>r. checkpoint_cosign_request b = (Ok r :: ('e, Vtxo CosignRequest) outcome)) \<and> no_panic (user_cosign X b key resp)"
    and "cb_state b = ServerMayCosign \<Longrightarrow> no_panic (checkpoint_server_cosign X rnd b key)"
    and "cb_state b = ServerSigned \<Longrightarrow> \<exists>r. checkpoint_cosign_response b = (Ok r :: ('e, CosignResponse) outcome)"
    and "cb_state b = UserSigned \<Longrightarrow> \<exists>vs. build_signed_vtxos X b = (Ok vs :: ('e, Vtxo list) outcome)"
proof -
  note inv = checkpoint_reachable_inv [OF assms, unfolded checkpoint_inv_def]
  then have base: "checkpoint_base X b" by blast
  show "(\<exists>r. checkpoint_cosign_request b = (Ok r :: ('e, Vtxo CosignRequest) outcome)) \<and> no_panic (user_cosign X b key resp)"
    if st: "cb_state b = UserGeneratedNonces"
  proof -
    from inv st obtain k nonces secs where "checkpoint_nonces X b k nonces secs" by auto
    with user_cosign_no_panic [OF base] show ?thesis
      by (auto simp: checkpoint_nonces_def checkpoint_cosign_request_def)
  qed
  show "no_panic (checkpoint_server_cosign X rnd b key)" if st: "cb_state b = ServerMayCosign"
  proof -
    from inv st obtain nonces where n: "cb_user_pub_nonces b = Some nonces" "length nonces = nb_sigs b" by auto
    show ?thesis
    proof (cases "ext_public_key X key = v_server_pubkey (cb_input b)")
      case True
      from checkpoint_server_signs [OF base n True, of rnd] show ?thesis by auto
    qed (simp add: checkpoint_server_cosign_def)
  qed
  show "\<exists>r. checkpoint_cosign_response b = (Ok r :: ('e, CosignResponse) outcome)" if "cb_state b = ServerSigned"
    using inv that by (auto simp: checkpoint_cosign_response_def)
  show "\<exists>vs. build_signed_vtxos X b = (Ok vs :: ('e, Vtxo list) outcome)" if st: "cb_state b = UserSigned"
  proof -
    from inv st obtain sigs where sigs: "cb_full_signatures b = Some sigs" "length sigs = nb_sigs b" by auto
    have "\<exists>v. and_then (index (drop 1 sigs) i) (\<lambda>a. vtxo_at X b i (Some (sigs ! 0)) (Some a)) = (Ok v :: ('e, Vtxo) outcome)"
      if "i < nb_outputs b" for i
      using vtxo_at_no_panic(1) [OF base that] that sigs(2) by (simp add: nb_sigs_def nb_outputs_def)
    then have "\<exists>vs. collect_results (map (\<lambda>i. and_then (index (drop 1 sigs) i)
        (\<lambda>a. vtxo_at X b i (Some (sigs ! 0)) (Some a))) [0..<nb_outputs b]) = (Ok vs :: ('e, Vtxo list) outcome)"
      by (rule collect_all_Ok)
    then show ?thesis using sigs by (simp add: build_signed_vtxos_def nb_sigs_def)
  qed
qed

lemma generated_ready:
  assumes "musig_laws X" "segwit_laws X" "p2tr_laws X" "txid_laws X" "sound_vtxo X input anchor_tx"
    and new: "CheckpointedArkoorBuilder_new X input outputs = Ok b0" and n: "length outputs \<le> 256"
    and gen: "checkpoint_generate_user_nonces X rnd b0 key = (Ok b :: ('e, CheckpointedArkoorBuilder) outcome)"
    and key: "ext_public_key X key = vtxo_user_pubkey input"
  shows "checkpoint_ready X anchor_tx b key" "cb_input b = input" "cb_outputs b = outputs"
proof -
  note b0 = new_base [OF new]
  from checkpoint_generate_nonces [OF b0(1), of rnd key, where 'e = 'e] gen obtain nonces secs where
    b: "b = b0\<lparr>cb_user_pub_nonces := Some nonces, cb_user_sec_nonces := Some secs, cb_state := UserGeneratedNonces\<rparr>"
    "checkpoint_nonces X b key nonces secs" by auto
  show "cb_input b = input" "cb_outputs b = outputs" using b(1) b0 by simp_all
  have "checkpoint_base X b" using b(1) b0(1) by simp
  with assms b b0 show "checkpoint_ready X anchor_tx b key"
    by (auto simp: checkpoint_ready_def nb_outputs_def)
qed

text \<open>What the user builds once it accepted a response.\<close>

lemma accepted_result:
  assumes laws: "musig_laws X" "segwit_laws X" "p2tr_laws X" "txid_laws X"
    and sound: "sound_vtxo X input anchor_tx"
    and new: "CheckpointedArkoorBuilder_new X input outputs = Ok b0" and n: "length outputs \<le> 256"
    and gen: "checkpoint_generate_user_nonces X rnd b0 key = (Ok b :: ('e, CheckpointedArkoorBuilder) outcome)"
    and cosign: "user_cosign X b key resp = Ok b'"
  shows "\<exists>vs. build_signed_vtxos X b' = (Ok vs :: (ArkoorSigningError, Vtxo list) outcome) \<and>
    map v_policy vs = map vr_policy outputs \<and> map v_amount vs = map vr_amount outputs \<and>
    list_all (\<lambda>v. sound_vtxo X v anchor_tx) vs"
proof -
  have input: "cb_input b = input"
    using gen new_base(3) [OF new] by (auto simp: checkpoint_generate_user_nonces_def and_then_eq_Inr)
  note r = generated_ready [OF laws sound new n gen]
  have key: "ext_public_key X key = vtxo_user_pubkey input" using user_cosign_OkD(1) [OF cosign] input by simp
  have "checkpoint_verify X b resp" using user_cosign_OkD(2) [OF cosign] by (simp add: checkpoint_verify_def)
  from checkpoint_finish_result [OF r(1) [OF key] this] cosign show ?thesis
    by (auto simp: checkpoint_finish_def ok_of_eq_Some checkpoint_result_def r(3) [OF key])
qed

section \<open>A concrete payment\<close>

lemma demo_txid_laws: "txid_laws demo_ext"
  by (simp add: txid_laws_def demo_ext_def)

text \<open>A boarded VTXO whose server key belongs to a known key pair.\<close>

definition demo_served :: Vtxo where
  "demo_served = \<lparr>v_policy = Pubkey (replicate 33 2), v_amount = 1000, v_expiry_height = 800000,
     v_server_pubkey = 2 # replicate 32 3, v_exit_delta = 144,
     v_anchor_point = \<lparr>op_txid = replicate 32 2, op_vout = 1\<rparr>,
     v_genesis = [\<lparr>gi_transition = Cosigned [replicate 33 2, 2 # replicate 32 3] (replicate 64 5),
       gi_output_idx = 0, gi_other_outputs = []\<rparr>],
     v_point = \<lparr>op_txid = replicate 32 2, op_vout = 0\<rparr>\<rparr>"

definition demo_served_tx :: Transaction where
  "demo_served_tx = v3_tx []
     [fee_anchor demo_ext, input_txout demo_ext (gi_transition (hd (v_genesis demo_served))) 1000
        (2 # replicate 32 3) 800000 144]"

lemma demo_served_sound: "sound_vtxo demo_ext demo_served demo_served_tx"
proof -
  have "valid_vtxo demo_ext demo_served demo_served_tx"
    by (simp add: valid_vtxo_def vtxo_locktimes_ok_def genesis_order_def outputs_standard_def
        onchain_amount_def sum_amounts_def other_value_def u64_limit_def locktime_ok_def
        transition_signed_def demo_served_def demo_served_tx_def nth_opt_def)
      (simp add: demo_ext_def)
  moreover have "vtxo_at_point demo_ext demo_served"
    by (simp add: vtxo_at_point_def exit_tip_def demo_served_def Let_def) (simp add: demo_ext_def item_tx_def)
  moreover have "ext_txid demo_ext demo_served_tx = op_txid (v_anchor_point demo_served)"
    by (simp add: demo_ext_def demo_served_tx_def demo_served_def)
  ultimately show ?thesis by (simp add: sound_vtxo_def)
qed

definition demo_checkpoint :: CheckpointedArkoorBuilder where
  "demo_checkpoint = checkpoint_initial demo_ext demo_input [demo_pay 400, demo_pay 600]"

lemma demo_checkpoint_new:
  "CheckpointedArkoorBuilder_new demo_ext demo_input [demo_pay 400, demo_pay 600] = Ok demo_checkpoint"
  by (simp add: CheckpointedArkoorBuilder_new_Ok demo_checkpoint_def checkpoint_balanced_def checkpoint_heights_ok_def
      P2TR_DUST_def u64_limit_def locktime_ok_def)

lemma demo_checkpoint_nonces:
  "\<exists>b. checkpoint_generate_user_nonces demo_ext (\<lambda>i. i) demo_checkpoint (replicate 32 2)
     = (Ok b :: (unit, CheckpointedArkoorBuilder) outcome) \<and> cb_input b = demo_input"
proof -
  have base: "checkpoint_base demo_ext demo_checkpoint" using new_base [OF demo_checkpoint_new] by blast
  have "cb_input demo_checkpoint = demo_input" by (simp add: demo_checkpoint_def checkpoint_initial_def)
  with checkpoint_generate_nonces [OF base, of "\<lambda>i. i" "replicate 32 2", where 'e = unit] show ?thesis by auto
qed

definition demo_cosign_response :: CosignResponse where
  "demo_cosign_response = \<lparr>cr_server_pub_nonces = [[7, 1], [8, 1], [9, 1]], cr_server_partial_sigs = [[1], [1], [1]]\<rparr>"

lemma demo_checkpoint_accepts:
  assumes "cb_outputs b = [o1, o2]"
  shows "checkpoint_accepts demo_ext b nonces demo_cosign_response"
proof -
  have "verify_partial_sig demo_ext m t s u [1]" for m t s u
    by (simp add: verify_partial_sig_def Let_def) (simp add: demo_ext_def)
  then show ?thesis
    using assms by (auto simp: checkpoint_accepts_def demo_cosign_response_def nb_sigs_def less_Suc_eq)
qed

section \<open>Properties\<close>

text \<open>
  C4: a checkpointed payment produces valid VTXOs, whatever the server answers. When the input is
  a valid VTXO at its point, the user generated its nonces and \<open>user_cosign\<close> accepted the server's
  response, \<open>build_signed_vtxos\<close> returns one VTXO per requested output, with its policy and amount,
  valid for the input's chain anchor through the checkpoint and its arkoor transaction, and at its
  point. The output index of a genesis item is one byte, so this needs at most 256 outputs.
\<close>

theorem checkpoint_vtxos_are_valid:
  assumes laws: "musig_laws X" "segwit_laws X" "p2tr_laws X" "txid_laws X"
    and sound: "sound_vtxo X input anchor_tx"
    and new: "CheckpointedArkoorBuilder_new X input outputs = Ok b0" and n: "length outputs \<le> 256"
    and gen: "checkpoint_generate_user_nonces X rnd b0 key = (Ok b :: ('e, CheckpointedArkoorBuilder) outcome)"
    and cosign: "user_cosign X b key resp = Ok b'"
  shows "\<exists>vs. build_signed_vtxos X b' = (Ok vs :: (ArkoorSigningError, Vtxo list) outcome) \<and>
    map v_policy vs = map vr_policy outputs \<and> map v_amount vs = map vr_amount outputs \<and>
    (\<forall>v \<in> set vs. vtxo_validate X v anchor_tx = Ok () \<and> vtxo_at_point X v)"
  using accepted_result [OF assms] by (auto simp: list_all_iff sound_vtxo_def validate_iff)

theorem checkpoint_vtxos_are_valid_witness:
  "\<exists>b b' vs. checkpoint_generate_user_nonces demo_ext (\<lambda>i. i) demo_checkpoint (replicate 32 2)
       = (Ok b :: (unit, CheckpointedArkoorBuilder) outcome) \<and>
     user_cosign demo_ext b (replicate 32 2) demo_cosign_response = Ok b' \<and>
     build_signed_vtxos demo_ext b' = (Ok vs :: (ArkoorSigningError, Vtxo list) outcome) \<and> map v_amount vs = [400, 600] \<and>
     (\<forall>v \<in> set vs. vtxo_validate demo_ext v demo_anchor_tx = Ok ())"
proof -
  from demo_checkpoint_nonces obtain b where gen: "checkpoint_generate_user_nonces demo_ext (\<lambda>i. i) demo_checkpoint
      (replicate 32 2) = (Ok b :: (unit, CheckpointedArkoorBuilder) outcome)" by blast
  have key: "ext_public_key demo_ext (replicate 32 2) = vtxo_user_pubkey demo_input" by (simp add: demo_user_key)
  note r = generated_ready [OF demo_ext_laws(4,1,2) demo_txid_laws demo_input_sound demo_checkpoint_new _ gen key]
  from r(1) obtain nonces secs where n: "checkpoint_nonces demo_ext b (replicate 32 2) nonces secs" and base: "checkpoint_base demo_ext b"
    by (auto simp: checkpoint_ready_def)
  have accepts: "checkpoint_accepts demo_ext b nonces demo_cosign_response" using r(3) by (intro demo_checkpoint_accepts) simp
  obtain b' where b': "user_cosign demo_ext b (replicate 32 2) demo_cosign_response = Ok b'"
    using user_cosign_signatures [OF demo_ext_laws(4) base n _ accepts] key r(2) by auto
  from checkpoint_vtxos_are_valid [OF demo_ext_laws(4,1,2) demo_txid_laws demo_input_sound demo_checkpoint_new _ gen b'] gen b'
  show ?thesis by auto
qed

text \<open>
  C25: the whole payment succeeds with an honest server: the server accepts the request that the
  user's builder produces, rebuilds the same transactions from it, and its response makes the
  user's builder return valid VTXOs.
\<close>

theorem checkpoint_payment_completes:
  assumes laws: "musig_laws X" "segwit_laws X" "p2tr_laws X" "txid_laws X"
    and sound: "sound_vtxo X input anchor_tx"
    and new: "CheckpointedArkoorBuilder_new X input outputs = Ok b0" and n: "length outputs \<le> 256"
    and gen: "checkpoint_generate_user_nonces X rnd b0 key = (Ok b :: (ArkoorSigningError, CheckpointedArkoorBuilder) outcome)"
    and keys: "ext_public_key X key = vtxo_user_pubkey input" "ext_public_key X server_key = v_server_pubkey input"
  shows "\<exists>request s s' resp b' vs.
    checkpoint_cosign_request b = (Ok request :: (ArkoorSigningError, Vtxo CosignRequest) outcome) \<and>
    from_cosign_request X request = Ok s \<and> checkpoint_server_cosign X rnd' s server_key = Ok s' \<and>
    checkpoint_cosign_response s' = (Ok resp :: (ArkoorSigningError, CosignResponse) outcome) \<and>
    user_cosign X b key resp = Ok b' \<and>
    build_signed_vtxos X b' = (Ok vs :: (ArkoorSigningError, Vtxo list) outcome) \<and>
    map v_amount vs = map vr_amount outputs \<and> (\<forall>v \<in> set vs. vtxo_validate X v anchor_tx = Ok ())"
proof -
  note r = generated_ready [OF laws sound new n gen keys(1)]
  let ?chain = "\<lambda>_. anchor_tx"
  from r(1,2) keys(2) checkpoint.flow [of X ?chain server_key "(b, key, rnd')"] obtain resp vs where
    f: "checkpoint_serve X rnd' b server_key = Ok resp" "checkpoint_finish X b key resp = Some vs"
    "checkpoint_result X anchor_tx b vs" by (auto simp: ok_of_eq_Some)
  from f(3) have "map v_amount vs = map vr_amount outputs" "\<forall>v \<in> set vs. vtxo_validate X v anchor_tx = Ok ()"
    by (auto simp: checkpoint_result_def r(3) list_all_iff sound_vtxo_def validate_iff)
  with f(1,2) show ?thesis
    by (auto simp: checkpoint_serve_def checkpoint_finish_def ok_of_eq_Some and_then_eq_Inr)
qed

theorem checkpoint_payment_completes_witness:
  "\<exists>b s s' resp b' vs.
     checkpoint_generate_user_nonces demo_ext (\<lambda>i. i) (checkpoint_initial demo_ext demo_served [demo_pay 1000])
       (replicate 32 2) = (Ok b :: (ArkoorSigningError, CheckpointedArkoorBuilder) outcome) \<and>
     checkpoint_server_cosign demo_ext (\<lambda>i. i + 10) s (replicate 32 3) = Ok s' \<and>
     checkpoint_cosign_response s' = (Ok resp :: (ArkoorSigningError, CosignResponse) outcome) \<and>
     user_cosign demo_ext b (replicate 32 2) resp = Ok b' \<and>
     build_signed_vtxos demo_ext b' = (Ok vs :: (ArkoorSigningError, Vtxo list) outcome) \<and> map v_amount vs = [1000]"
proof -
  have new: "CheckpointedArkoorBuilder_new demo_ext demo_served [demo_pay 1000] = Ok (checkpoint_initial demo_ext demo_served [demo_pay 1000])"
    by (simp add: CheckpointedArkoorBuilder_new_Ok checkpoint_balanced_def checkpoint_heights_ok_def demo_served_def
        P2TR_DUST_def u64_limit_def locktime_ok_def)
  from checkpoint_generate_nonces [OF new_base(1) [OF new], of "\<lambda>i. i" "replicate 32 2", where 'e = ArkoorSigningError]
  obtain b where gen: "checkpoint_generate_user_nonces demo_ext (\<lambda>i. i) (checkpoint_initial demo_ext demo_served [demo_pay 1000])
       (replicate 32 2) = (Ok b :: (ArkoorSigningError, CheckpointedArkoorBuilder) outcome)" by blast
  have key: "ext_public_key demo_ext (replicate 32 2) = vtxo_user_pubkey demo_served"
    by (simp only: demo_user_key) (simp add: demo_served_def vtxo_user_pubkey_def)
  have server: "ext_public_key demo_ext (replicate 32 3) = v_server_pubkey demo_served"
    by (simp add: demo_served_def demo_ext_def)
  from checkpoint_payment_completes [OF demo_ext_laws(4,1,2) demo_txid_laws demo_served_sound new _ gen key server,
      of "\<lambda>i. i + 10"] gen show ?thesis by fastforce
qed



end
