(* ===== verification/Ark_Checkpoint_Package.thy ===== *)
theory Ark_Checkpoint_Package
  imports Ark_Checkpoint
begin

text \<open>
  Packages of checkpointed payments (\<open>lib/src/arkoor/checkpointed_package.rs\<close>): a request is paid
  from several VTXOs, each through its own checkpoint; change goes back to the sender from the last
  one, and change below the dust limit is left to the recipient.
\<close>

section \<open>The builder\<close>

record CheckpointedPackageBuilder =
  cp_builders :: "CheckpointedArkoorBuilder list"

record 'v PackageCosignRequest =
  pq_requests :: "'v CosignRequest list"

definition convert_vtxo :: "('v \<Rightarrow> 'o) \<Rightarrow> 'v PackageCosignRequest \<Rightarrow> 'o PackageCosignRequest" where
  "convert_vtxo f r = \<lparr>pq_requests = map (\<lambda>q. \<lparr>cq_user_pub_nonces = cq_user_pub_nonces q,
     cq_input = f (cq_input q), cq_outputs = cq_outputs q\<rparr>) (pq_requests r)\<rparr>"

definition package_request_inputs :: "'v PackageCosignRequest \<Rightarrow> 'v list" where
  "package_request_inputs r = map cq_input (pq_requests r)"

record PackageCosignResponse =
  pr_responses :: "CosignResponse list"

text \<open>The outputs of one input: everything to the recipient, or the rest of the payment and change.\<close>

definition checkpoint_split :: "Amount \<Rightarrow> Amount \<Rightarrow> VtxoPolicy \<Rightarrow> PublicKey \<Rightarrow> VtxoRequest list" where
  "checkpoint_split input_amount to_be_paid policy change_pubkey =
     (let change_amount = input_amount - to_be_paid in
      if change_amount < P2TR_DUST then [\<lparr>vr_amount = input_amount, vr_policy = policy\<rparr>]
      else [\<lparr>vr_amount = to_be_paid, vr_policy = policy\<rparr>,
            \<lparr>vr_amount = change_amount, vr_policy = Pubkey change_pubkey\<rparr>])"

fun checkpoint_package_loop ::
  "externals \<Rightarrow> VtxoPolicy \<Rightarrow> PublicKey \<Rightarrow> Amount \<Rightarrow> CheckpointedArkoorBuilder list \<Rightarrow> Vtxo list \<Rightarrow>
   (ArkoorConstructionError, Amount \<times> CheckpointedArkoorBuilder list) outcome" where
  "checkpoint_package_loop X policy change_pubkey to_be_paid packages [] = Ok (to_be_paid, packages)"
| "checkpoint_package_loop X policy change_pubkey to_be_paid packages (input # inputs) =
     (if v_amount input \<le> to_be_paid then
        and_then (CheckpointedArkoorBuilder_new X input [\<lparr>vr_amount = v_amount input, vr_policy = policy\<rparr>]) (\<lambda>package.
        checkpoint_package_loop X policy change_pubkey (to_be_paid - v_amount input) (packages @ [package]) inputs)
      else if 0 < to_be_paid then
        and_then (CheckpointedArkoorBuilder_new X input
                    (checkpoint_split (v_amount input) to_be_paid policy change_pubkey)) (\<lambda>package.
        checkpoint_package_loop X policy change_pubkey 0 (packages @ [package]) inputs)
      else err TooManyInputs)"

definition CheckpointedPackageBuilder_new ::
  "externals \<Rightarrow> Vtxo list \<Rightarrow> VtxoRequest \<Rightarrow> PublicKey \<Rightarrow>
   (ArkoorConstructionError, CheckpointedPackageBuilder) outcome" where
  "CheckpointedPackageBuilder_new X inputs request change_pubkey =
     and_then (checkpoint_package_loop X (vr_policy request) change_pubkey (vr_amount request) [] inputs)
       (\<lambda>(to_be_paid, packages).
     if to_be_paid \<noteq> 0
     then err (ConstructionUnbalanced (vr_amount request - to_be_paid) (vr_amount request))
     else Ok \<lparr>cp_builders = packages\<rparr>)"

definition cp_generate_user_nonces ::
  "externals \<Rightarrow> (nat \<Rightarrow> nat \<Rightarrow> nat) \<Rightarrow> CheckpointedPackageBuilder \<Rightarrow> Keypair list \<Rightarrow>
   (ArkoorSigningError, CheckpointedPackageBuilder) outcome" where
  "cp_generate_user_nonces X rnd p user_keypairs =
     (if length user_keypairs \<noteq> length (cp_builders p)
      then err (InvalidNbKeypairs (length (cp_builders p)) (length user_keypairs))
      else
        and_then (collect_results (map (\<lambda>(idx, package).
          and_then (index user_keypairs idx) (checkpoint_generate_user_nonces X (rnd idx) package))
          (enumerate 0 (cp_builders p)))) (\<lambda>builders.
        Ok \<lparr>cp_builders = builders\<rparr>))"

definition cp_user_cosign ::
  "externals \<Rightarrow> CheckpointedPackageBuilder \<Rightarrow> Keypair list \<Rightarrow> PackageCosignResponse \<Rightarrow>
   (ArkoorSigningError, CheckpointedPackageBuilder) outcome" where
  "cp_user_cosign X p user_keypair r =
     (if length (pr_responses r) \<noteq> length (cp_builders p)
      then err (InvalidNbPackages (length (cp_builders p)) (length (pr_responses r)))
      else if length user_keypair \<noteq> length (cp_builders p)
      then err (InvalidNbKeypairs (length (cp_builders p)) (length user_keypair))
      else
        and_then (collect_results (map (\<lambda>(idx, pkg).
          and_then (index user_keypair idx) (\<lambda>key.
          and_then (index (pr_responses r) idx) (user_cosign X pkg key))) (enumerate 0 (cp_builders p)))) (\<lambda>packages.
        Ok \<lparr>cp_builders = packages\<rparr>))"

definition cp_cosign_requests :: "CheckpointedPackageBuilder \<Rightarrow> ('e, Vtxo PackageCosignRequest) outcome" where
  "cp_cosign_requests p =
     and_then (collect_results (map checkpoint_cosign_request (cp_builders p))) (\<lambda>requests.
     Ok \<lparr>pq_requests = requests\<rparr>)"

definition cp_build_signed_vtxos :: "externals \<Rightarrow> CheckpointedPackageBuilder \<Rightarrow> ('e, Vtxo list) outcome" where
  "cp_build_signed_vtxos X p =
     and_then (collect_results (map (build_signed_vtxos X) (cp_builders p))) (\<lambda>vss. Ok (concat vss))"

definition from_cosign_requests ::
  "externals \<Rightarrow> Vtxo PackageCosignRequest \<Rightarrow> (ArkoorSigningError, CheckpointedPackageBuilder) outcome" where
  "from_cosign_requests X r =
     and_then (collect_results (map (from_cosign_request X) (pq_requests r))) (\<lambda>packages.
     Ok \<lparr>cp_builders = packages\<rparr>)"

definition cp_server_cosign ::
  "externals \<Rightarrow> (nat \<Rightarrow> nat \<Rightarrow> nat) \<Rightarrow> CheckpointedPackageBuilder \<Rightarrow> Keypair \<Rightarrow>
   (ArkoorSigningError, CheckpointedPackageBuilder) outcome" where
  "cp_server_cosign X rnd p server_keypair =
     and_then (collect_results (map (\<lambda>(i, package). checkpoint_server_cosign X (rnd i) package server_keypair)
       (enumerate 0 (cp_builders p)))) (\<lambda>packages.
     Ok \<lparr>cp_builders = packages\<rparr>)"

definition cp_cosign_response :: "CheckpointedPackageBuilder \<Rightarrow> ('e, PackageCosignResponse) outcome" where
  "cp_cosign_response p =
     and_then (collect_results (map checkpoint_cosign_response (cp_builders p))) (\<lambda>responses.
     Ok \<lparr>pr_responses = responses\<rparr>)"

definition cp_build_unsigned_vtxos :: "externals \<Rightarrow> CheckpointedPackageBuilder \<Rightarrow> ('e, Vtxo list) outcome" where
  "cp_build_unsigned_vtxos X p =
     and_then (collect_results (map (build_unsigned_vtxos X) (cp_builders p))) (\<lambda>vss. Ok (concat vss))"

definition cp_build_unsigned_checkpoint_vtxos ::
  "externals \<Rightarrow> CheckpointedPackageBuilder \<Rightarrow> ('e, Vtxo list) outcome" where
  "cp_build_unsigned_checkpoint_vtxos X p =
     and_then (collect_results (map (build_unsigned_checkpoint_vtxos X) (cp_builders p))) (\<lambda>vss. Ok (concat vss))"

definition cp_spend_info ::
  "externals \<Rightarrow> CheckpointedPackageBuilder \<Rightarrow> ('e, (VtxoId \<times> Txid) list) outcome" where
  "cp_spend_info X p = and_then (collect_results (map (spend_info X) (cp_builders p))) (\<lambda>is. Ok (concat is))"

section \<open>Lemmas\<close>

text \<open>What the loop pays: all inputs are spent, all but the last in full to the recipient.\<close>

definition paid_to_recipient :: "CheckpointedArkoorBuilder \<Rightarrow> Amount" where
  "paid_to_recipient b = vr_amount (hd (cb_outputs b))"

definition checkpoint_package_pays ::
  "externals \<Rightarrow> VtxoPolicy \<Rightarrow> PublicKey \<Rightarrow> Vtxo list \<Rightarrow> CheckpointedArkoorBuilder list \<Rightarrow> bool" where
  "checkpoint_package_pays X policy change_pubkey inputs bs \<longleftrightarrow>
     map cb_input bs = inputs \<and>
     list_all (\<lambda>b. CheckpointedArkoorBuilder_new X (cb_input b) (cb_outputs b) = Ok b \<and>
       (cb_outputs b = [\<lparr>vr_amount = v_amount (cb_input b), vr_policy = policy\<rparr>] \<or>
        (\<exists>change. cb_outputs b = [\<lparr>vr_amount = paid_to_recipient b, vr_policy = policy\<rparr>,
           \<lparr>vr_amount = change, vr_policy = Pubkey change_pubkey\<rparr>]))) bs \<and>
     list_all (\<lambda>b. cb_outputs b = [\<lparr>vr_amount = v_amount (cb_input b), vr_policy = policy\<rparr>]) (butlast bs)"

lemma new_self:
  assumes "CheckpointedArkoorBuilder_new X input outputs = Ok b"
  shows "CheckpointedArkoorBuilder_new X (cb_input b) (cb_outputs b) = Ok b"
  using assms new_base(3,4) [OF assms] by simp

lemma checkpoint_amount_pos:
  assumes "CheckpointedArkoorBuilder_new X input [\<lparr>vr_amount = v_amount input, vr_policy = policy\<rparr>] = Ok b"
  shows "0 < v_amount input"
  using assms by (auto simp: CheckpointedArkoorBuilder_new_Ok checkpoint_balanced_def P2TR_DUST_def)

lemma checkpoint_package_loop_zero:
  "checkpoint_package_loop X policy change_pubkey 0 packages inputs = Ok (rest, packages') \<longleftrightarrow>
     inputs = [] \<and> rest = 0 \<and> packages' = packages"
proof (cases inputs)
  case (Cons input inputs')
  show ?thesis
  proof
    assume "checkpoint_package_loop X policy change_pubkey 0 packages inputs = Ok (rest, packages')"
    with Cons obtain b where "v_amount input = 0"
      "CheckpointedArkoorBuilder_new X input [\<lparr>vr_amount = v_amount input, vr_policy = policy\<rparr>] = Ok b"
      by (auto simp: and_then_eq_Inr split: if_splits)
    with checkpoint_amount_pos show "inputs = [] \<and> rest = 0 \<and> packages' = packages" by fastforce
  qed (simp add: Cons)
qed auto

lemma checkpoint_package_loop_Ok:
  assumes "checkpoint_package_loop X policy change_pubkey amount packages inputs = Ok (rest, packages')"
  shows "\<exists>bs. packages' = packages @ bs \<and> checkpoint_package_pays X policy change_pubkey inputs bs \<and>
    amount \<le> rest + sum_list (map paid_to_recipient bs) \<and>
    sum_list (map paid_to_recipient bs) < amount + P2TR_DUST \<and>
    rest = amount - sum_list (map v_amount inputs)"
  using assms
proof (induction inputs arbitrary: amount packages)
  case Nil
  then show ?case by (simp add: checkpoint_package_pays_def P2TR_DUST_def)
next
  case (Cons input inputs)
  show ?case
  proof (cases "v_amount input \<le> amount")
    case True
    with Cons.prems obtain b where
      new: "CheckpointedArkoorBuilder_new X input [\<lparr>vr_amount = v_amount input, vr_policy = policy\<rparr>] = Ok b"
      and loop: "checkpoint_package_loop X policy change_pubkey (amount - v_amount input) (packages @ [b]) inputs
        = Ok (rest, packages')" by (auto simp: and_then_eq_Inr)
    from Cons.IH [OF loop] obtain bs where bs: "packages' = (packages @ [b]) @ bs"
      "checkpoint_package_pays X policy change_pubkey inputs bs"
      "amount - v_amount input \<le> rest + sum_list (map paid_to_recipient bs)"
      "sum_list (map paid_to_recipient bs) < amount - v_amount input + P2TR_DUST"
      "rest = amount - v_amount input - sum_list (map v_amount inputs)" by auto
    have "paid_to_recipient b = v_amount input" using new_base(4) [OF new] by (simp add: paid_to_recipient_def)
    with bs True new_base(3,4) [OF new] new_self [OF new] show ?thesis
      by (intro exI [of _ "b # bs"]) (auto simp: checkpoint_package_pays_def)
  next
    case False
    with Cons.prems obtain b where
      new: "CheckpointedArkoorBuilder_new X input (checkpoint_split (v_amount input) amount policy change_pubkey) = Ok b"
      and stop: "inputs = []" "rest = 0" "packages' = packages @ [b]"
      by (auto simp: and_then_eq_Inr checkpoint_package_loop_zero split: if_splits)
    from False stop new_base(3,4) [OF new] new_self [OF new] show ?thesis
      by (intro exI [of _ "[b]"])
        (auto simp: checkpoint_package_pays_def paid_to_recipient_def checkpoint_split_def P2TR_DUST_def Let_def
          split: if_splits)
  qed
qed

lemma checkpoint_total:
  assumes "CheckpointedArkoorBuilder_new X (cb_input b) (cb_outputs b) = Ok b"
  shows "sum_list (map vr_amount (cb_outputs b)) = v_amount (cb_input b)"
  using assms by (simp add: CheckpointedArkoorBuilder_new_Ok checkpoint_balanced_def)

text \<open>The results of a package whose builders all finish.\<close>

lemma cp_user_cosign_Ok:
  assumes "cp_user_cosign X p keys r = Ok p'"
  shows "length keys = length (cp_builders p)" "length (pr_responses r) = length (cp_builders p)"
    "length (cp_builders p') = length (cp_builders p)"
    "\<And>i. i < length (cp_builders p) \<Longrightarrow>
       user_cosign X (cp_builders p ! i) (keys ! i) (pr_responses r ! i) = Ok (cp_builders p' ! i)"
proof -
  show lens: "length keys = length (cp_builders p)" "length (pr_responses r) = length (cp_builders p)"
    using assms by (simp_all add: cp_user_cosign_def split: if_splits)
  from assms lens obtain bs where p': "p' = \<lparr>cp_builders = bs\<rparr>" and
    c: "collect_results (map (\<lambda>(idx, pkg).
          and_then (index keys idx) (\<lambda>key.
          and_then (index (pr_responses r) idx) (user_cosign X pkg key))) (enumerate 0 (cp_builders p))) = Ok bs"
    by (auto simp: cp_user_cosign_def and_then_eq_Inr)
  from c show "length (cp_builders p') = length (cp_builders p)"
    unfolding collect_results_map_eq by (simp add: p')
  from c lens show "user_cosign X (cp_builders p ! i) (keys ! i) (pr_responses r ! i) = Ok (cp_builders p' ! i)"
    if "i < length (cp_builders p)" for i
    using that unfolding collect_results_map_eq by (simp add: p' nth_enumerate_eq)
qed

lemma cp_generate_user_nonces_Ok:
  assumes "cp_generate_user_nonces X rnd p keys = Ok p'"
  shows "length (cp_builders p') = length (cp_builders p)"
    "\<And>i. i < length (cp_builders p) \<Longrightarrow> checkpoint_generate_user_nonces X (rnd i) (cp_builders p ! i) (keys ! i)
       = (Ok (cp_builders p' ! i) :: (ArkoorSigningError, CheckpointedArkoorBuilder) outcome)"
proof -
  from assms obtain bs where len: "length keys = length (cp_builders p)" and p': "p' = \<lparr>cp_builders = bs\<rparr>" and
    c: "collect_results (map (\<lambda>(idx, package).
          and_then (index keys idx) (checkpoint_generate_user_nonces X (rnd idx) package))
          (enumerate 0 (cp_builders p))) = (Ok bs :: (ArkoorSigningError, CheckpointedArkoorBuilder list) outcome)"
    by (auto simp: cp_generate_user_nonces_def and_then_eq_Inr split: if_splits)
  from c show "length (cp_builders p') = length (cp_builders p)"
    unfolding collect_results_map_eq by (simp add: p')
  from c len show "checkpoint_generate_user_nonces X (rnd i) (cp_builders p ! i) (keys ! i)
       = (Ok (cp_builders p' ! i) :: (ArkoorSigningError, CheckpointedArkoorBuilder) outcome)"
    if "i < length (cp_builders p)" for i
    using that unfolding collect_results_map_eq by (simp add: p' nth_enumerate_eq)
qed

section \<open>Properties\<close>


lemma demo_checkpoint_package:
  "\<exists>p. CheckpointedPackageBuilder_new demo_ext [demo_input, demo_input] (demo_pay 1600) (replicate 33 2) = Ok p \<and>
     length (cp_builders p) = 2"
  by (simp add: CheckpointedPackageBuilder_new_def checkpoint_split_def P2TR_DUST_def Let_def)
    (simp add: CheckpointedArkoorBuilder_new_Ok [THEN iffD2] checkpoint_balanced_def checkpoint_heights_ok_def
      P2TR_DUST_def u64_limit_def locktime_ok_def)




text \<open>
  C26: a finished package is valid. When the inputs are valid VTXOs at their points and the user's
  builder accepted the server's responses, the VTXOs of the whole package are those requested by its
  builders, in order, and every one is valid for the chain anchor of its input.
\<close>

theorem checkpoint_package_vtxos_are_valid:
  assumes laws: "musig_laws X" "segwit_laws X" "p2tr_laws X" "txid_laws X"
    and sound: "\<forall>v \<in> set inputs. sound_vtxo X v (anchor_tx_of chain v)"
    and new: "CheckpointedPackageBuilder_new X inputs request change_pubkey = Ok p0"
    and gen: "cp_generate_user_nonces X rnd p0 keys = Ok p"
    and cosign: "cp_user_cosign X p keys r = Ok p'"
  shows "\<exists>vs. cp_build_signed_vtxos X p' = (Ok vs :: (ArkoorSigningError, Vtxo list) outcome) \<and>
    map v_amount vs = concat (map (\<lambda>b. map vr_amount (cb_outputs b)) (cp_builders p0)) \<and>
    map v_policy vs = concat (map (\<lambda>b. map vr_policy (cb_outputs b)) (cp_builders p0)) \<and>
    (\<forall>v \<in> set vs. \<exists>input \<in> set inputs. vtxo_validate X v (anchor_tx_of chain input) = Ok () \<and> vtxo_at_point X v)"
proof -
  let ?bs = "cp_builders p0"
  from new have "checkpoint_package_loop X (vr_policy request) change_pubkey (vr_amount request) [] inputs = Ok (0, ?bs)"
    by (auto simp: CheckpointedPackageBuilder_new_def and_then_eq_Inr split: if_splits)
  from checkpoint_package_loop_Ok [OF this] have pays: "checkpoint_package_pays X (vr_policy request) change_pubkey inputs ?bs"
    by auto
  note g = cp_generate_user_nonces_Ok [OF gen] and u = cp_user_cosign_Ok [OF cosign]
  have "\<exists>vs. build_signed_vtxos X (cp_builders p' ! i) = (Ok vs :: (ArkoorSigningError, Vtxo list) outcome) \<and>
      map v_policy vs = map vr_policy (cb_outputs (?bs ! i)) \<and> map v_amount vs = map vr_amount (cb_outputs (?bs ! i)) \<and>
      list_all (\<lambda>v. sound_vtxo X v (anchor_tx_of chain (cb_input (?bs ! i)))) vs"
    if i: "i < length ?bs" for i
  proof (rule accepted_result [OF laws _ _ _ g(2) [OF i]])
    have mem: "?bs ! i \<in> set ?bs" using i by simp
    then have b: "CheckpointedArkoorBuilder_new X (cb_input (?bs ! i)) (cb_outputs (?bs ! i)) = Ok (?bs ! i)"
      "length (cb_outputs (?bs ! i)) \<le> 2"
      using pays by (auto simp: checkpoint_package_pays_def list_all_iff)
    show "CheckpointedArkoorBuilder_new X (cb_input (?bs ! i)) (cb_outputs (?bs ! i)) = Ok (?bs ! i)"
      "length (cb_outputs (?bs ! i)) \<le> 256" using b by simp_all
    have "cb_input (?bs ! i) \<in> set inputs" using pays mem by (auto simp: checkpoint_package_pays_def)
    then show "sound_vtxo X (cb_input (?bs ! i)) (anchor_tx_of chain (cb_input (?bs ! i)))" using sound by blast
    show "user_cosign X (cp_builders p ! i) (keys ! i) (pr_responses r ! i) = Ok (cp_builders p' ! i)"
      using u(4) [of i] i g(1) by simp
  qed
  then obtain f where f: "build_signed_vtxos X (cp_builders p' ! i) = (Ok (f i) :: (ArkoorSigningError, Vtxo list) outcome)"
    "map v_policy (f i) = map vr_policy (cb_outputs (?bs ! i))" "map v_amount (f i) = map vr_amount (cb_outputs (?bs ! i))"
    "list_all (\<lambda>v. sound_vtxo X v (anchor_tx_of chain (cb_input (?bs ! i)))) (f i)"
    if "i < length ?bs" for i by metis
  let ?vss = "map f [0..<length ?bs]"
  have build: "cp_build_signed_vtxos X p' = (Ok (concat ?vss) :: (ArkoorSigningError, Vtxo list) outcome)"
    using f(1) u(3) g(1) unfolding cp_build_signed_vtxos_def
    by (simp add: collect_results_map_eq [of _ _ ?vss, THEN iffD2])
  have "map (map v_amount) ?vss = map (\<lambda>b. map vr_amount (cb_outputs b)) ?bs"
    "map (map v_policy) ?vss = map (\<lambda>b. map vr_policy (cb_outputs b)) ?bs"
    by (rule nth_equalityI; simp add: f(2,3))+
  moreover have "\<exists>input \<in> set inputs. vtxo_validate X v (anchor_tx_of chain input) = Ok () \<and> vtxo_at_point X v"
    if "v \<in> set (concat ?vss)" for v
  proof -
    from that obtain i where i: "i < length ?bs" "v \<in> set (f i)" by auto
    then have "cb_input (?bs ! i) \<in> set inputs" using pays by (auto simp: checkpoint_package_pays_def)
    moreover have "sound_vtxo X v (anchor_tx_of chain (cb_input (?bs ! i)))" using f(4) [OF i(1)] i(2) by (simp add: list_all_iff)
    ultimately show ?thesis by (auto simp: sound_vtxo_def validate_iff)
  qed
  ultimately show ?thesis using build by (auto simp: map_concat)
qed

text \<open>One input, cosigned by the concrete server.\<close>

theorem checkpoint_package_vtxos_are_valid_witness:
  "\<exists>p0 p p' vs. CheckpointedPackageBuilder_new demo_ext [demo_input] (demo_pay 600) (replicate 33 2) = Ok p0 \<and>
     cp_generate_user_nonces demo_ext (\<lambda>i j. j) p0 [replicate 32 2] = Ok p \<and>
     cp_user_cosign demo_ext p [replicate 32 2] \<lparr>pr_responses = [demo_cosign_response]\<rparr> = Ok p' \<and>
     cp_build_signed_vtxos demo_ext p' = (Ok vs :: (ArkoorSigningError, Vtxo list) outcome) \<and> map v_amount vs = [600, 400]"
proof -
  let ?outs = "[demo_pay 600, \<lparr>vr_amount = 400, vr_policy = Pubkey (replicate 33 2)\<rparr>]"
  let ?b = "checkpoint_initial demo_ext demo_input ?outs"
  have new: "CheckpointedArkoorBuilder_new demo_ext demo_input ?outs = Ok ?b"
    by (simp add: CheckpointedArkoorBuilder_new_Ok checkpoint_balanced_def checkpoint_heights_ok_def P2TR_DUST_def
        u64_limit_def locktime_ok_def)
  have p0: "CheckpointedPackageBuilder_new demo_ext [demo_input] (demo_pay 600) (replicate 33 2) = Ok \<lparr>cp_builders = [?b]\<rparr>"
    using new by (simp add: CheckpointedPackageBuilder_new_def checkpoint_split_def P2TR_DUST_def Let_def)
  from checkpoint_generate_nonces [OF new_base(1) [OF new], of "\<lambda>j. j" "replicate 32 2", where 'e = ArkoorSigningError]
  obtain b where gen: "checkpoint_generate_user_nonces demo_ext (\<lambda>j. j) ?b (replicate 32 2)
      = (Ok b :: (ArkoorSigningError, CheckpointedArkoorBuilder) outcome)" by blast
  have p: "cp_generate_user_nonces demo_ext (\<lambda>i j. j) \<lparr>cp_builders = [?b]\<rparr> [replicate 32 2] = Ok \<lparr>cp_builders = [b]\<rparr>"
    using gen by (simp add: cp_generate_user_nonces_def)
  have key: "ext_public_key demo_ext (replicate 32 2) = vtxo_user_pubkey demo_input" by (simp add: demo_user_key)
  note r = generated_ready [OF demo_ext_laws(4,1,2) demo_txid_laws demo_input_sound new _ gen key]
  from r(1) obtain nonces secs where n: "checkpoint_nonces demo_ext b (replicate 32 2) nonces secs" and base: "checkpoint_base demo_ext b"
    by (auto simp: checkpoint_ready_def)
  have accepts: "checkpoint_accepts demo_ext b nonces demo_cosign_response" using r(3) by (intro demo_checkpoint_accepts) simp
  obtain b' where b': "user_cosign demo_ext b (replicate 32 2) demo_cosign_response = Ok b'"
    using user_cosign_signatures [OF demo_ext_laws(4) base n _ accepts] key r(2) by auto
  have p': "cp_user_cosign demo_ext \<lparr>cp_builders = [b]\<rparr> [replicate 32 2] \<lparr>pr_responses = [demo_cosign_response]\<rparr>
      = Ok \<lparr>cp_builders = [b']\<rparr>" using b' by (simp add: cp_user_cosign_def)
  from checkpoint_package_vtxos_are_valid [OF demo_ext_laws(4,1,2) demo_txid_laws _ p0 p p', of "\<lambda>_. demo_anchor_tx"]
    p0 p p' demo_input_sound show ?thesis by (fastforce simp: checkpoint_initial_def)
qed

end
