(* ===== verification/Ark_Connectors.thy ===== *)
theory Ark_Connectors
  imports Ark_Bitcoin
begin

text \<open>
  Connector chains (\<open>lib/src/connectors.rs\<close>): one output of a round transaction is split by a chain
  of transactions into one dust output per forfeited VTXO. The chain is never stored; it is
  recomputed by two iterators, one over the transactions and one over the connectors. An iterator
  is the record of its fields, \<open>next\<close> returns the item and the iterator after it, and the two
  \<open>collect\<close> functions run an iterator to its end.

  A \<open>usize\<close> is a natural number and an underflow of the subtraction is a panic. The random bytes of
  the Schnorr signatures are an argument.
\<close>

section \<open>The chain\<close>

definition CONNECTOR_TX_CHAIN_VOUT :: u32 where
  "CONNECTOR_TX_CHAIN_VOUT = 0"

definition CONNECTOR_TX_CONNECTOR_VOUT :: u32 where
  "CONNECTOR_TX_CONNECTOR_VOUT = 1"

text \<open>\<open>Weight::from_vb_unchecked(167)\<close>, in weight units.\<close>

definition TX_WEIGHT :: nat where
  "TX_WEIGHT = 167 * 4"

record ConnectorChain =
  cc_len :: nat
  cc_spk :: ScriptBuf
  cc_utxo :: OutPoint

definition total_weight :: "nat \<Rightarrow> ('e, nat) outcome" where
  "total_weight len =
     (if len = 0 then panic ''assertion left != right failed''
      else if (len - 1) * TX_WEIGHT < u64_limit then Ok ((len - 1) * TX_WEIGHT)
      else panic ''attempt to multiply with overflow'')"

definition required_budget :: "nat \<Rightarrow> ('e, Amount) outcome" where
  "required_budget len =
     (if len = 0 then panic ''assertion left != right failed''
      else if P2TR_DUST * len < u64_limit then Ok (P2TR_DUST * len)
      else panic ''Amount multiplication error'')"

definition connector_output_script :: "externals \<Rightarrow> PublicKey \<Rightarrow> ScriptBuf" where
  "connector_output_script X pubkey = ext_p2tr X (ext_x_only X pubkey)"

definition connector_output :: "externals \<Rightarrow> nat \<Rightarrow> PublicKey \<Rightarrow> ('e, TxOut) outcome" where
  "connector_output X len pubkey =
     and_then (required_budget len) (\<lambda>budget.
       Ok \<lparr>txo_value = budget, txo_script = connector_output_script X pubkey\<rparr>)"

definition ConnectorChain_new :: "externals \<Rightarrow> nat \<Rightarrow> OutPoint \<Rightarrow> PublicKey \<Rightarrow> ('e, ConnectorChain) outcome" where
  "ConnectorChain_new X len utxo pubkey =
     (if len = 0 then panic ''assertion left != right failed''
      else Ok \<lparr>cc_len = len, cc_spk = connector_output_script X pubkey, cc_utxo = utxo\<rparr>)"

definition connector_tx :: "externals \<Rightarrow> ConnectorChain \<Rightarrow> OutPoint \<Rightarrow> nat \<Rightarrow> ('e, Transaction) outcome" where
  "connector_tx X chain prev idx =
     (if cc_len chain < idx + 1 then panic ''attempt to subtract with overflow''
      else and_then (required_budget (cc_len chain - idx - 1)) (\<lambda>budget.
        Ok \<lparr>tx_version = 3, tx_lock_time = 0,
            tx_input = [plain_input prev Sequence_MAX []],
            tx_output = [\<lparr>txo_value = budget, txo_script = cc_spk chain\<rparr>,
                         \<lparr>txo_value = P2TR_DUST, txo_script = cc_spk chain\<rparr>,
                         fee_anchor X]\<rparr>))"

definition connector_sign_tx ::
  "externals \<Rightarrow> nat \<Rightarrow> ConnectorChain \<Rightarrow> Transaction \<Rightarrow> nat \<Rightarrow> Keypair \<Rightarrow> ('e, Transaction) outcome" where
  "connector_sign_tx X rnd chain tx idx keypair =
     (if cc_len chain < idx then panic ''attempt to subtract with overflow''
      else and_then (required_budget (cc_len chain - idx)) (\<lambda>budget.
        let prevout = \<lparr>txo_value = budget, txo_script = cc_spk chain\<rparr>;
            sighash = ext_key_sighash X tx prevout;
            sig = ext_sign_schnorr X rnd keypair sighash
        in case tx_input tx of
             [] \<Rightarrow> panic ''index out of bounds''
           | i # is \<Rightarrow> Ok (tx\<lparr>tx_input := i\<lparr>txin_witness := [sig]\<rparr> # is\<rparr>)))"

section \<open>The iterators\<close>

record ConnectorTxIter =
  it_chain :: ConnectorChain
  it_sign_key :: "Keypair option"
  it_prev :: OutPoint
  it_idx :: nat

text \<open>The signing key passed into \<open>iter_signed_txs\<close> or \<open>connectors_signed\<close> is incorrect.\<close>

datatype InvalidSigningKeyError = InvalidSigningKeyError

definition iter_signed_txs ::
  "externals \<Rightarrow> ConnectorChain \<Rightarrow> Keypair \<Rightarrow> (InvalidSigningKeyError, ConnectorTxIter) outcome" where
  "iter_signed_txs X chain sign_key =
     (if cc_spk chain = connector_output_script X (ext_public_key X sign_key) then
        and_then (for_keyspend X sign_key) (\<lambda>key.
          Ok \<lparr>it_chain = chain, it_sign_key = Some key, it_prev = cc_utxo chain, it_idx = 0\<rparr>)
      else err InvalidSigningKeyError)"

definition iter_unsigned_txs :: "ConnectorChain \<Rightarrow> ConnectorTxIter" where
  "iter_unsigned_txs chain =
     \<lparr>it_chain = chain, it_sign_key = None, it_prev = cc_utxo chain, it_idx = 0\<rparr>"

definition tx_iter_signing :: "ConnectorTxIter \<Rightarrow> Keypair \<Rightarrow> ConnectorTxIter" where
  "tx_iter_signing it sign_key = it\<lparr>it_sign_key := Some sign_key\<rparr>"

definition tx_iter_next ::
  "externals \<Rightarrow> nat \<Rightarrow> ConnectorTxIter \<Rightarrow> ('e, Transaction option \<times> ConnectorTxIter) outcome" where
  "tx_iter_next X rnd it =
     (let chain = it_chain it in
      if cc_len chain = 0 then panic ''attempt to subtract with overflow''
      else if cc_len chain - 1 \<le> it_idx it then Ok (None, it)
      else
        and_then (connector_tx X chain (it_prev it) (it_idx it)) (\<lambda>unsigned.
        and_then (case it_sign_key it of
                    None \<Rightarrow> Ok unsigned
                  | Some keypair \<Rightarrow> connector_sign_tx X rnd chain unsigned (it_idx it) keypair) (\<lambda>ret.
        Ok (Some ret, it\<lparr>it_prev := \<lparr>op_txid = ext_txid X ret, op_vout = CONNECTOR_TX_CHAIN_VOUT\<rparr>,
                         it_idx := it_idx it + 1\<rparr>))))"

definition tx_iter_size_hint :: "ConnectorTxIter \<Rightarrow> ('e, nat) outcome" where
  "tx_iter_size_hint it =
     (if cc_len (it_chain it) = 0 then panic ''attempt to subtract with overflow''
      else Ok (cc_len (it_chain it) - 1 - it_idx it))"

type_synonym connector = "OutPoint \<times> Transaction option"

record ConnectorIter =
  ci_txs :: ConnectorTxIter
  ci_maybe_last :: "connector option"

definition connectors :: "ConnectorChain \<Rightarrow> ConnectorIter" where
  "connectors chain = \<lparr>ci_txs = iter_unsigned_txs chain, ci_maybe_last = Some (cc_utxo chain, None)\<rparr>"

definition connectors_signed ::
  "externals \<Rightarrow> ConnectorChain \<Rightarrow> Keypair \<Rightarrow> (InvalidSigningKeyError, ConnectorIter) outcome" where
  "connectors_signed X chain sign_key =
     and_then (iter_signed_txs X chain sign_key) (\<lambda>txs.
       Ok \<lparr>ci_txs = txs, ci_maybe_last = Some (cc_utxo chain, None)\<rparr>)"

definition connector_iter_signing :: "ConnectorIter \<Rightarrow> Keypair \<Rightarrow> ConnectorIter" where
  "connector_iter_signing it sign_key = it\<lparr>ci_txs := tx_iter_signing (ci_txs it) sign_key\<rparr>"

definition connector_iter_next ::
  "externals \<Rightarrow> nat \<Rightarrow> ConnectorIter \<Rightarrow> ('e, connector option \<times> ConnectorIter) outcome" where
  "connector_iter_next X rnd it =
     (if ci_maybe_last it = None then Ok (None, it)
      else
        and_then (tx_iter_next X rnd (ci_txs it)) (\<lambda>(item, txs).
        case item of
          Some tx \<Rightarrow>
            let txid = ext_txid X tx in
            Ok (Some (\<lparr>op_txid = txid, op_vout = CONNECTOR_TX_CONNECTOR_VOUT\<rparr>, Some tx),
                it\<lparr>ci_txs := txs,
                   ci_maybe_last := Some (\<lparr>op_txid = txid, op_vout = CONNECTOR_TX_CHAIN_VOUT\<rparr>, Some tx)\<rparr>)
        | None \<Rightarrow>
            and_then (expect (ci_maybe_last it) ''broken'') (\<lambda>last_connector.
              Ok (Some last_connector, it\<lparr>ci_txs := txs, ci_maybe_last := None\<rparr>))))"

definition connector_iter_size_hint :: "ConnectorIter \<Rightarrow> ('e, nat) outcome" where
  "connector_iter_size_hint it = and_then (tx_iter_size_hint (ci_txs it)) (\<lambda>len. Ok (len + 1))"

lemma tx_iter_next_progress:
  "tx_iter_next X rnd it = Ok (Some tx, it') \<Longrightarrow>
   it_chain it' = it_chain it \<and> it_idx it' = Suc (it_idx it) \<and> it_idx it < cc_len (it_chain it)"
  by (auto simp: tx_iter_next_def and_then_eq_Inr Let_def split: if_splits)

lemma tx_iter_next_end: "tx_iter_next X rnd it = Ok (None, it') \<Longrightarrow> it' = it"
  by (auto simp: tx_iter_next_def and_then_eq_Inr Let_def split: if_splits)

text \<open>
  \<open>Iterator::collect\<close> on both iterators: call \<open>next\<close> until it returns \<open>None\<close>. The iterators end
  because every item moves the index towards the length of the chain.
\<close>

function tx_iter_collect ::
  "externals \<Rightarrow> (nat \<Rightarrow> nat) \<Rightarrow> ConnectorTxIter \<Rightarrow> ('e, Transaction list) outcome" where
  "tx_iter_collect X rnds it =
     (case tx_iter_next X (rnds (it_idx it)) it of
        Inl e \<Rightarrow> Inl e
      | Inr (None, _) \<Rightarrow> Ok []
      | Inr (Some tx, it') \<Rightarrow> and_then (tx_iter_collect X rnds it') (\<lambda>txs. Ok (tx # txs)))"
  by pat_completeness auto

termination tx_iter_collect
  by (relation "measure (\<lambda>(X, rnds, it). cc_len (it_chain it) - it_idx it)")
    (auto dest!: sym [of "Inr _"] tx_iter_next_progress)

function connector_iter_collect ::
  "externals \<Rightarrow> (nat \<Rightarrow> nat) \<Rightarrow> ConnectorIter \<Rightarrow> ('e, connector list) outcome" where
  "connector_iter_collect X rnds it =
     (case connector_iter_next X (rnds (it_idx (ci_txs it))) it of
        Inl e \<Rightarrow> Inl e
      | Inr (None, _) \<Rightarrow> Ok []
      | Inr (Some c, it') \<Rightarrow> and_then (connector_iter_collect X rnds it') (\<lambda>cs. Ok (c # cs)))"
  by pat_completeness auto

lemma connector_iter_next_progress:
  assumes "connector_iter_next X rnd it = Ok (Some c, it')"
  shows "(if ci_maybe_last it' = None then 0 else Suc (cc_len (it_chain (ci_txs it')) - it_idx (ci_txs it')))
       < (if ci_maybe_last it = None then 0 else Suc (cc_len (it_chain (ci_txs it)) - it_idx (ci_txs it)))"
  using assms
  by (auto simp: connector_iter_next_def and_then_eq_Inr Let_def split: if_splits option.splits
      dest!: tx_iter_next_progress)

termination connector_iter_collect
  by (relation "measure (\<lambda>(X, rnds, it). if ci_maybe_last it = None then 0
        else Suc (cc_len (it_chain (ci_txs it)) - it_idx (ci_txs it)))")
    (auto dest!: sym [of "Inr _"] connector_iter_next_progress split: if_splits)

declare tx_iter_collect.simps [simp del] connector_iter_collect.simps [simp del]

section \<open>Closed forms\<close>

definition chain_ok :: "ConnectorChain \<Rightarrow> bool" where
  "chain_ok chain \<longleftrightarrow> 0 < cc_len chain \<and> P2TR_DUST * cc_len chain < u64_limit"

text \<open>The transaction at an index with its witness, and the output of the chain that it spends.\<close>

definition chain_tx :: "externals \<Rightarrow> ConnectorChain \<Rightarrow> OutPoint \<Rightarrow> nat \<Rightarrow> bytes list \<Rightarrow> Transaction" where
  "chain_tx X chain prev idx w =
     \<lparr>tx_version = 3, tx_lock_time = 0, tx_input = [plain_input prev Sequence_MAX w],
      tx_output = [\<lparr>txo_value = P2TR_DUST * (cc_len chain - idx - 1), txo_script = cc_spk chain\<rparr>,
                   \<lparr>txo_value = P2TR_DUST, txo_script = cc_spk chain\<rparr>, fee_anchor X]\<rparr>"

definition chain_prevout :: "ConnectorChain \<Rightarrow> nat \<Rightarrow> TxOut" where
  "chain_prevout chain idx = \<lparr>txo_value = P2TR_DUST * (cc_len chain - idx), txo_script = cc_spk chain\<rparr>"

definition chain_witness ::
  "externals \<Rightarrow> nat \<Rightarrow> ConnectorChain \<Rightarrow> Keypair option \<Rightarrow> OutPoint \<Rightarrow> nat \<Rightarrow> bytes list" where
  "chain_witness X rnd chain key prev idx =
     (case key of None \<Rightarrow> []
      | Some k \<Rightarrow> [ext_sign_schnorr X rnd k (ext_key_sighash X (chain_tx X chain prev idx []) (chain_prevout chain idx))])"

primrec chain_txs ::
  "nat \<Rightarrow> externals \<Rightarrow> (nat \<Rightarrow> nat) \<Rightarrow> ConnectorChain \<Rightarrow> Keypair option \<Rightarrow> OutPoint \<Rightarrow> nat \<Rightarrow> Transaction list" where
  "chain_txs 0 X rnds chain key prev idx = []"
| "chain_txs (Suc n) X rnds chain key prev idx =
     (let tx = chain_tx X chain prev idx (chain_witness X (rnds idx) chain key prev idx)
      in tx # chain_txs n X rnds chain key \<lparr>op_txid = ext_txid X tx, op_vout = 0\<rparr> (Suc idx))"

text \<open>The connectors of a list of transactions, when \<open>l\<close> is the connector in case there is none.\<close>

fun connector_points :: "externals \<Rightarrow> connector \<Rightarrow> Transaction list \<Rightarrow> connector list" where
  "connector_points X l [] = [l]"
| "connector_points X l (tx # txs) =
     (\<lparr>op_txid = ext_txid X tx, op_vout = 1\<rparr>, Some tx)
     # connector_points X (\<lparr>op_txid = ext_txid X tx, op_vout = 0\<rparr>, Some tx) txs"

section \<open>Lemmas\<close>

lemma required_budget_Ok:
  assumes "chain_ok chain" "0 < n" "n \<le> cc_len chain"
  shows "required_budget n = Ok (P2TR_DUST * n)"
proof -
  have "P2TR_DUST * n < u64_limit"
    by (rule le_less_trans [OF mult_le_mono2 [OF assms(3)]]) (use assms(1) in \<open>simp add: chain_ok_def\<close>)
  then show ?thesis using assms(2) by (simp add: required_budget_def)
qed

lemma tx_iter_next_Some:
  assumes "chain_ok (it_chain it)" "it_idx it + 1 < cc_len (it_chain it)"
  shows "tx_iter_next X rnd it =
    (let tx = chain_tx X (it_chain it) (it_prev it) (it_idx it)
                (chain_witness X rnd (it_chain it) (it_sign_key it) (it_prev it) (it_idx it))
     in Ok (Some tx, it\<lparr>it_prev := \<lparr>op_txid = ext_txid X tx, op_vout = 0\<rparr>, it_idx := Suc (it_idx it)\<rparr>))"
  using assms
  by (auto simp: tx_iter_next_def connector_tx_def connector_sign_tx_def required_budget_Ok [OF assms(1)]
      CONNECTOR_TX_CHAIN_VOUT_def chain_tx_def chain_witness_def chain_prevout_def Let_def split: option.splits)

lemma tx_iter_next_None:
  "chain_ok (it_chain it) \<Longrightarrow> cc_len (it_chain it) \<le> it_idx it + 1 \<Longrightarrow> tx_iter_next X rnd it = Ok (None, it)"
  by (auto simp: tx_iter_next_def chain_ok_def Let_def)

lemma tx_iter_collect_Ok:
  assumes "chain_ok (it_chain it)" "it_idx it + n + 1 = cc_len (it_chain it)"
  shows "tx_iter_collect X rnds it =
    Ok (chain_txs n X rnds (it_chain it) (it_sign_key it) (it_prev it) (it_idx it))"
  using assms
proof (induction n arbitrary: it)
  case 0
  then show ?case by (subst tx_iter_collect.simps) (simp add: tx_iter_next_None)
next
  case (Suc n)
  then show ?case by (subst tx_iter_collect.simps) (simp add: tx_iter_next_Some Let_def)
qed

lemma connector_iter_collect_Ok:
  assumes "chain_ok (it_chain (ci_txs it))" "it_idx (ci_txs it) + n + 1 = cc_len (it_chain (ci_txs it))"
    and "ci_maybe_last it = Some l"
  shows "connector_iter_collect X rnds it =
    (Ok (connector_points X l
      (chain_txs n X rnds (it_chain (ci_txs it)) (it_sign_key (ci_txs it)) (it_prev (ci_txs it)) (it_idx (ci_txs it))))
     :: ('e, connector list) outcome)"
  using assms
proof (induction n arbitrary: it l)
  case 0
  have "connector_iter_collect X rnds (it\<lparr>ci_maybe_last := None\<rparr>) = (Ok [] :: ('e, connector list) outcome)"
    by (subst connector_iter_collect.simps) (simp add: connector_iter_next_def)
  with 0 show ?case
    by (subst connector_iter_collect.simps) (simp add: connector_iter_next_def tx_iter_next_None)
next
  case (Suc n)
  then show ?case
    by (subst connector_iter_collect.simps)
      (simp add: connector_iter_next_def tx_iter_next_Some CONNECTOR_TX_CHAIN_VOUT_def
        CONNECTOR_TX_CONNECTOR_VOUT_def Let_def)
qed

lemma length_chain_txs [simp]: "length (chain_txs n X rnds chain key prev idx) = n"
  by (induction n arbitrary: prev idx) (simp_all add: Let_def)

lemma nth_chain_txs:
  assumes "k < n"
  shows "\<exists>p. chain_txs n X rnds chain key prev idx ! k =
      chain_tx X chain p (idx + k) (chain_witness X (rnds (idx + k)) chain key p (idx + k)) \<and>
    p = (if k = 0 then prev
         else \<lparr>op_txid = ext_txid X (chain_txs n X rnds chain key prev idx ! (k - 1)), op_vout = 0\<rparr>)"
  using assms
proof (induction n arbitrary: prev idx k)
  case (Suc n)
  show ?case
  proof (cases k)
    case 0
    then show ?thesis by (simp add: Let_def)
  next
    case (Suc j)
    let ?tx = "chain_tx X chain prev idx (chain_witness X (rnds idx) chain key prev idx)"
    have "j < n" using Suc Suc.prems by simp
    from Suc.IH [OF this, of "\<lparr>op_txid = ext_txid X ?tx, op_vout = 0\<rparr>" "Suc idx"] show ?thesis
      using Suc by (cases j) (simp_all add: Let_def)
  qed
qed simp

lemma length_connector_points [simp]: "length (connector_points X l txs) = Suc (length txs)"
  by (induction X l txs rule: connector_points.induct) simp_all

lemma connector_points_eq:
  "connector_points X l txs = map (\<lambda>tx. (\<lparr>op_txid = ext_txid X tx, op_vout = 1\<rparr>, Some tx)) txs
     @ [if txs = [] then l else (\<lparr>op_txid = ext_txid X (last txs), op_vout = 0\<rparr>, Some (last txs))]"
  by (induction X l txs rule: connector_points.induct) auto

lemma distinct_connector_points:
  assumes "distinct (map (ext_txid X) txs)"
  shows "distinct (map fst (connector_points X l txs))"
proof -
  have "distinct (map ((\<lambda>t. \<lparr>op_txid = t, op_vout = (1 :: u32)\<rparr>) \<circ> ext_txid X) txs)"
    using assms by (subst map_map [symmetric], subst distinct_map) (auto simp: inj_on_def)
  moreover have "\<lparr>op_txid = ext_txid X (last txs), op_vout = 0\<rparr>
      \<notin> (\<lambda>tx. \<lparr>op_txid = ext_txid X tx, op_vout = (1 :: u32)\<rparr>) ` set txs" by auto
  ultimately show ?thesis by (auto simp: connector_points_eq comp_def)
qed

lemma ConnectorChain_new_Ok:
  assumes "ConnectorChain_new X len utxo pubkey = Ok chain" "P2TR_DUST * len < u64_limit"
  shows "chain_ok chain" "cc_len chain = len" "cc_utxo chain = utxo" "cc_spk chain = connector_output_script X pubkey"
    "0 < len"
  using assms by (auto simp: ConnectorChain_new_def chain_ok_def split: if_splits)

text \<open>A connector of a chain: the funding output itself, or a dust output of one of its transactions.\<close>

definition connector_spendable :: "externals \<Rightarrow> ConnectorChain \<Rightarrow> connector \<Rightarrow> bool" where
  "connector_spendable X chain c \<longleftrightarrow>
     (case c of
        (point, None) \<Rightarrow> cc_len chain = 1 \<and> point = cc_utxo chain
      | (point, Some tx) \<Rightarrow> op_txid point = ext_txid X tx \<and>
          nth_opt (tx_output tx) (unat (op_vout point)) = Some \<lparr>txo_value = P2TR_DUST, txo_script = cc_spk chain\<rparr>)"

lemma chain_txs_connectors:
  assumes "chain_ok chain" "n + 1 = cc_len chain"
  shows "list_all (connector_spendable X chain)
    (connector_points X (cc_utxo chain, None) (chain_txs n X rnds chain key (cc_utxo chain) 0))"
proof (cases "n = 0")
  case True
  then show ?thesis using assms(2) by (simp add: connector_spendable_def)
next
  case False
  let ?txs = "chain_txs n X rnds chain key (cc_utxo chain) 0"
  have nth: "nth_opt (tx_output (?txs ! k)) 1 = Some \<lparr>txo_value = P2TR_DUST, txo_script = cc_spk chain\<rparr>"
    "nth_opt (tx_output (?txs ! k)) 0 = Some \<lparr>txo_value = P2TR_DUST * (cc_len chain - k - 1), txo_script = cc_spk chain\<rparr>"
    if "k < n" for k
    using nth_chain_txs [OF that, of X rnds chain key "cc_utxo chain" 0] by (auto simp: chain_tx_def)
  have "length ?txs = n" by simp
  then have "?txs \<noteq> []" using False by (metis list.size(3))
  moreover have "last ?txs = ?txs ! (n - 1)" using \<open>?txs \<noteq> []\<close> by (simp add: last_conv_nth)
  moreover have "cc_len chain - (n - 1) - 1 = 1" using False assms(2) by simp
  then have "nth_opt (tx_output (?txs ! (n - 1))) 0 = Some \<lparr>txo_value = P2TR_DUST, txo_script = cc_spk chain\<rparr>"
    using nth(2) [of "n - 1"] False by simp
  moreover have "nth_opt (tx_output tx) 1 = Some \<lparr>txo_value = P2TR_DUST, txo_script = cc_spk chain\<rparr>"
    if "tx \<in> set ?txs" for tx
    using that nth(1) by (auto simp: in_set_conv_nth)
  ultimately show ?thesis
    by (simp add: connector_points_eq list_all_iff connector_spendable_def)
qed

text \<open>Signatures change neither the ids of the transactions nor, therefore, the chain.\<close>

lemma strip_chain_tx [simp]: "strip_witness (chain_tx X chain prev idx w) = chain_tx X chain prev idx []"
  by (simp add: strip_witness_def chain_tx_def)

lemma chain_tx_txid: "segwit_laws X \<Longrightarrow> ext_txid X (chain_tx X chain prev idx w) = ext_txid X (chain_tx X chain prev idx [])"
  by (rule segwit_lawsD) simp_all

lemma strip_chain_txs:
  assumes "segwit_laws X"
  shows "map strip_witness (chain_txs n X rnds chain key prev idx) = chain_txs n X rnds' chain None prev idx"
proof (induction n arbitrary: prev idx)
  case (Suc n)
  have "chain_witness X rnd chain None prev idx = []" for rnd by (simp add: chain_witness_def)
  with Suc show ?case
    using chain_tx_txid [OF assms, of chain prev idx "chain_witness X (rnds idx) chain key prev idx"]
    by (simp add: Let_def)
qed simp

lemma strip_connector_points:
  assumes "segwit_laws X"
  shows "map (\<lambda>(point, tx). (point, map_option strip_witness tx)) (connector_points X l txs) =
    connector_points X (fst l, map_option strip_witness (snd l)) (map strip_witness txs)"
proof -
  have "ext_txid X (strip_witness tx) = ext_txid X tx" for tx using assms by (simp add: segwit_laws_def)
  then show ?thesis by (induction X l txs rule: connector_points.induct) (simp_all add: case_prod_beta)
qed

lemma chain_signature:
  assumes laws: "keyspend_laws X" "segwit_laws X" and i: "i < n"
  shows "\<exists>sig. map txin_witness (tx_input (chain_txs n X rnds chain (Some k) prev 0 ! i)) = [[sig]] \<and>
    ext_verify_schnorr X sig
      (ext_key_sighash X (chain_txs n X rnds chain (Some k) prev 0 ! i) (chain_prevout chain i))
      (ext_x_only X (ext_public_key X k))"
proof -
  from nth_chain_txs [OF i, of X rnds chain "Some k" prev 0] obtain p where
    tx: "chain_txs n X rnds chain (Some k) prev 0 ! i =
      chain_tx X chain p i (chain_witness X (rnds i) chain (Some k) p i)" by auto
  let ?msg = "ext_key_sighash X (chain_tx X chain p i []) (chain_prevout chain i)"
  have msg: "ext_key_sighash X (chain_tx X chain p i w) (chain_prevout chain i) = ?msg" for w
    by (rule segwit_lawsD [OF laws(2)]) simp
  have "map txin_witness (tx_input (chain_txs n X rnds chain (Some k) prev 0 ! i)) =
      [[ext_sign_schnorr X (rnds i) k ?msg]]"
    by (simp add: tx) (simp add: chain_witness_def chain_tx_def)
  then show ?thesis
    using keyspend_lawsD(1) [OF laws(1)] by (simp add: tx msg [of "chain_witness X (rnds i) chain (Some k) p i"])
qed

section \<open>Properties\<close>

text \<open>
  C22: a connector chain of length \<open>n\<close> is complete and loses nothing. Its transaction iterator ends
  after \<open>n - 1\<close> transactions: the first spends the chain's outpoint, every other one output 0 of its
  predecessor; each pays out exactly the value of the output it spends, so all fees come from the
  anchor's child. The connector iterator ends after \<open>n\<close> connectors, as \<open>size_hint\<close> announced, each the
  outpoint of a dust output with the chain's script; no two are the same outpoint when the
  transactions have different ids.
\<close>

theorem connector_chain_complete:
  assumes "ConnectorChain_new X len utxo pubkey = (Ok chain :: ('e, ConnectorChain) outcome)"
    and "P2TR_DUST * len < u64_limit"
  shows "\<exists>txs cs.
     tx_iter_collect X rnds (iter_unsigned_txs chain) = (Ok txs :: ('e, Transaction list) outcome) \<and>
     length txs = len - 1 \<and>
     (\<forall>i < len - 1.
        map previous_output (tx_input (txs ! i)) =
          [if i = 0 then utxo else \<lparr>op_txid = ext_txid X (txs ! (i - 1)), op_vout = 0\<rparr>] \<and>
        required_budget (len - i) = (Ok (output_value (txs ! i)) :: ('e, Amount) outcome) \<and>
        nth_opt (tx_output (txs ! i)) 0 =
          Some \<lparr>txo_value = P2TR_DUST * (len - i - 1), txo_script = connector_output_script X pubkey\<rparr>) \<and>
     connector_iter_collect X rnds (connectors chain) = (Ok cs :: ('e, connector list) outcome) \<and>
     connector_iter_size_hint (connectors chain) = (Ok (length cs) :: ('e, nat) outcome) \<and> length cs = len \<and>
     list_all (connector_spendable X chain) cs \<and>
     (distinct (map (ext_txid X) txs) \<longrightarrow> distinct (map fst cs))"
proof -
  note new = ConnectorChain_new_Ok [OF assms]
  let ?txs = "chain_txs (len - 1) X rnds chain None utxo 0"
  let ?cs = "connector_points X (utxo, None) ?txs"
  have txs: "tx_iter_collect X rnds (iter_unsigned_txs chain) = (Ok ?txs :: ('e, Transaction list) outcome)"
    using tx_iter_collect_Ok [of "iter_unsigned_txs chain" "len - 1"] new by (simp add: iter_unsigned_txs_def)
  have cs: "connector_iter_collect X rnds (connectors chain) = (Ok ?cs :: ('e, connector list) outcome)"
    using connector_iter_collect_Ok [of "connectors chain" "len - 1" "(utxo, None)"] new
    by (simp add: connectors_def iter_unsigned_txs_def)
  have "map previous_output (tx_input (?txs ! i)) =
          [if i = 0 then utxo else \<lparr>op_txid = ext_txid X (?txs ! (i - 1)), op_vout = 0\<rparr>] \<and>
        required_budget (len - i) = (Ok (output_value (?txs ! i)) :: ('e, Amount) outcome) \<and>
        nth_opt (tx_output (?txs ! i)) 0 =
          Some \<lparr>txo_value = P2TR_DUST * (len - i - 1), txo_script = connector_output_script X pubkey\<rparr>"
    if i: "i < len - 1" for i
  proof -
    have "P2TR_DUST * (len - i - 1) + P2TR_DUST = P2TR_DUST * Suc (len - i - 1)" by simp
    also have "Suc (len - i - 1) = len - i" using i by simp
    finally have "P2TR_DUST * (len - i - 1) + P2TR_DUST = P2TR_DUST * (len - i)" .
    then show ?thesis
      using nth_chain_txs [OF i, of X rnds chain None utxo 0] required_budget_Ok [OF new(1), of "len - i", where 'a = 'e] i new(2,4)
      by (auto simp: chain_tx_def output_value_def)
  qed
  moreover have "list_all (connector_spendable X chain) ?cs"
    using chain_txs_connectors [OF new(1), of "len - 1"] new(2,3,5) by simp
  moreover have "connector_iter_size_hint (connectors chain) = (Ok len :: ('e, nat) outcome)"
    using new by (simp add: connector_iter_size_hint_def connectors_def iter_unsigned_txs_def tx_iter_size_hint_def)
  ultimately show ?thesis using txs cs new(5) distinct_connector_points by (intro exI [of _ ?txs] exI [of _ ?cs]) simp
qed

definition demo_chain :: ConnectorChain where
  "demo_chain = \<lparr>cc_len = 3, cc_spk = 0x51 # 0x20 # replicate 32 7, cc_utxo = null_outpoint\<rparr>"

definition demo_connector_ext :: externals where
  "demo_connector_ext = demo_ext\<lparr>ext_txid := (\<lambda>tx. replicate 32 (word_of_nat (output_value tx div 330)))\<rparr>"

lemma demo_chain_new:
  "ConnectorChain_new demo_connector_ext 3 null_outpoint (2 # replicate 32 7) = (Ok demo_chain :: ('e, ConnectorChain) outcome)"
  "ConnectorChain_new demo_ext 3 null_outpoint (2 # replicate 32 7) = (Ok demo_chain :: ('e, ConnectorChain) outcome)"
  by (simp_all add: ConnectorChain_new_def demo_chain_def connector_output_script_def demo_connector_ext_def demo_ext_def)

theorem connector_chain_complete_witness:
  "\<exists>txs cs. tx_iter_collect demo_connector_ext (\<lambda>i. i) (iter_unsigned_txs demo_chain) = (Ok txs :: (unit, Transaction list) outcome) \<and>
     length txs = 2 \<and> connector_iter_collect demo_connector_ext (\<lambda>i. i) (connectors demo_chain) = (Ok cs :: (unit, connector list) outcome) \<and>
     length cs = 3 \<and> distinct (map fst cs)"
proof -
  from connector_chain_complete [OF demo_chain_new(1) [where 'e = unit], of "\<lambda>i. i"] obtain txs cs where
    txs: "tx_iter_collect demo_connector_ext (\<lambda>i. i) (iter_unsigned_txs demo_chain) = (Ok txs :: (unit, Transaction list) outcome)"
    "length txs = 2" and
    budgets: "\<And>i. i < 2 \<Longrightarrow> required_budget (3 - i) = (Ok (output_value (txs ! i)) :: (unit, Amount) outcome)" and
    cs: "connector_iter_collect demo_connector_ext (\<lambda>i. i) (connectors demo_chain) = (Ok cs :: (unit, connector list) outcome)"
    "length cs = 3" "distinct (map (ext_txid demo_connector_ext) txs) \<longrightarrow> distinct (map fst cs)"
    by (auto simp: P2TR_DUST_def u64_limit_def)
  obtain a b where ab: "txs = [a, b]" using txs(2) by (auto simp: length_Suc_conv numeral_2_eq_2)
  have "output_value a = 990" "output_value b = 660"
    using budgets [of 0] budgets [of 1] ab by (simp_all add: required_budget_def P2TR_DUST_def u64_limit_def)
  then have "distinct (map (ext_txid demo_connector_ext) txs)"
    by (simp add: ab demo_connector_ext_def)
  with txs cs show ?thesis by blast
qed

text \<open>
  C36: signing a connector chain. With a key that is not the chain's, both signing iterators return
  \<open>InvalidSigningKeyError\<close>. With the chain's internal key, the signed transactions are the unsigned ones
  with one witness element each, a valid signature for the output key behind the chain's script on
  the message that spends the value left at that point of the chain; the connectors are the same
  outpoints as without signatures.
\<close>

theorem signed_chain_is_valid:
  assumes laws: "keyspend_laws X" "segwit_laws X"
    and new: "ConnectorChain_new X len utxo pubkey = (Ok chain :: ('e, ConnectorChain) outcome)"
    and budget: "P2TR_DUST * len < u64_limit"
  shows "if connector_output_script X (ext_public_key X key) \<noteq> connector_output_script X pubkey
     then iter_signed_txs X chain key = err InvalidSigningKeyError \<and>
          connectors_signed X chain key = err InvalidSigningKeyError
     else \<exists>it ci txs cs k. iter_signed_txs X chain key = Ok it \<and> connectors_signed X chain key = Ok ci \<and>
       tx_iter_collect X rnds it = (Ok txs :: ('e, Transaction list) outcome) \<and>
       tx_iter_collect X rnds' (iter_unsigned_txs chain) = (Ok (map strip_witness txs) :: ('e, Transaction list) outcome) \<and>
       ext_p2tr_tweaked X k = cc_spk chain \<and>
       (\<forall>i < length txs. \<exists>sig. map txin_witness (tx_input (txs ! i)) = [[sig]] \<and>
          ext_verify_schnorr X sig
            (ext_key_sighash X (txs ! i) \<lparr>txo_value = P2TR_DUST * (len - i), txo_script = cc_spk chain\<rparr>) k) \<and>
       connector_iter_collect X rnds ci = (Ok cs :: ('e, connector list) outcome) \<and>
       connector_iter_collect X rnds' (connectors chain) =
         (Ok (map (\<lambda>(point, tx). (point, map_option strip_witness tx)) cs) :: ('e, connector list) outcome)"
proof (cases "connector_output_script X (ext_public_key X key) = connector_output_script X pubkey")
  case False
  then show ?thesis using ConnectorChain_new_Ok(4) [OF new budget]
    by (simp add: iter_signed_txs_def connectors_signed_def)
next
  case True
  note chain = ConnectorChain_new_Ok [OF new budget]
  from keyspend_lawsD(2) [OF laws(1)] obtain tweaked where
    key: "for_keyspend X key = (Ok tweaked :: (InvalidSigningKeyError, Keypair) outcome)"
    and spk: "ext_p2tr_tweaked X (ext_x_only X (ext_public_key X tweaked)) = cc_spk chain"
    using chain(4) True by (metis connector_output_script_def)
  let ?txs = "chain_txs (len - 1) X rnds chain (Some tweaked) utxo 0"
  let ?it = "\<lparr>it_chain = chain, it_sign_key = Some tweaked, it_prev = utxo, it_idx = 0\<rparr>"
  let ?ci = "\<lparr>ci_txs = ?it, ci_maybe_last = Some (utxo, None)\<rparr>"
  have iters: "iter_signed_txs X chain key = Ok ?it" "connectors_signed X chain key = Ok ?ci"
    using True chain key by (simp_all add: iter_signed_txs_def connectors_signed_def)
  have txs: "tx_iter_collect X rnds ?it = (Ok ?txs :: ('e, Transaction list) outcome)"
    "tx_iter_collect X rnds' (iter_unsigned_txs chain) = (Ok (map strip_witness ?txs) :: ('e, Transaction list) outcome)"
    using tx_iter_collect_Ok [of ?it "len - 1"] tx_iter_collect_Ok [of "iter_unsigned_txs chain" "len - 1"] chain
      strip_chain_txs [OF laws(2), where rnds' = rnds']
    by (simp_all add: iter_unsigned_txs_def)
  have cs: "connector_iter_collect X rnds ?ci = (Ok (connector_points X (utxo, None) ?txs) :: ('e, connector list) outcome)"
    "connector_iter_collect X rnds' (connectors chain) =
       (Ok (map (\<lambda>(point, tx). (point, map_option strip_witness tx)) (connector_points X (utxo, None) ?txs)) :: ('e, connector list) outcome)"
    using connector_iter_collect_Ok [of ?ci "len - 1" "(utxo, None)"]
      connector_iter_collect_Ok [of "connectors chain" "len - 1" "(utxo, None)"] chain
      strip_chain_txs [OF laws(2), where rnds' = rnds'] strip_connector_points [OF laws(2)]
    by (simp_all add: connectors_def iter_unsigned_txs_def)
  have "\<forall>i < length ?txs. \<exists>sig. map txin_witness (tx_input (?txs ! i)) = [[sig]] \<and>
      ext_verify_schnorr X sig
        (ext_key_sighash X (?txs ! i) \<lparr>txo_value = P2TR_DUST * (len - i), txo_script = cc_spk chain\<rparr>)
        (ext_x_only X (ext_public_key X tweaked))"
    using chain_signature [OF laws, of _ "len - 1" rnds chain tweaked utxo]
    by (simp add: chain_prevout_def chain(2))
  with iters txs cs spk True show ?thesis by (simp only: simp_thms if_False) blast
qed

theorem signed_chain_is_valid_witness:
  "iter_signed_txs demo_ext demo_chain (replicate 32 8) = err InvalidSigningKeyError \<and>
   (\<exists>it txs. iter_signed_txs demo_ext demo_chain (replicate 32 7) = Ok it \<and>
      tx_iter_collect demo_ext (\<lambda>i. i) it = (Ok txs :: (unit, Transaction list) outcome))"
proof
  note valid = signed_chain_is_valid [OF demo_ext_laws(6,1) demo_chain_new(2) [where 'e = unit],
      where rnds = "\<lambda>i. i" and rnds' = "\<lambda>i. i"]
  have budget: "P2TR_DUST * 3 < u64_limit" by (simp add: P2TR_DUST_def u64_limit_def)
  show "iter_signed_txs demo_ext demo_chain (replicate 32 8) = err InvalidSigningKeyError"
    using valid [OF budget, of "replicate 32 8"] by (simp add: connector_output_script_def demo_ext_def)
  have "connector_output_script demo_ext (ext_public_key demo_ext (replicate 32 7)) =
      connector_output_script demo_ext (2 # replicate 32 7)"
    by (simp add: connector_output_script_def demo_ext_def)
  with valid [OF budget, of "replicate 32 7"]
  show "\<exists>it txs. iter_signed_txs demo_ext demo_chain (replicate 32 7) = Ok it \<and>
      tx_iter_collect demo_ext (\<lambda>i. i) it = (Ok txs :: (unit, Transaction list) outcome)"
    by auto
qed

end
