(* ===== verification/Ark_Forfeit.thy ===== *)
theory Ark_Forfeit
  imports Ark_Arkoor Ark_Connectors
begin

text \<open>
  Forfeits (\<open>lib/src/forfeit.rs\<close>): a user gives up a VTXO in exchange for a new one. In the
  hash-locked protocol the user signs two transactions: one that moves the VTXO to an output which
  the server can claim with the unlock preimage and the user gets back after the exit delta, and one
  that claims this output for the server. In the connector protocol the user signs one transaction
  that also spends a connector of the round. The random bytes of the two nonce pairs are arguments.
\<close>

section \<open>Transactions\<close>

definition hark_forfeit_claim_taproot :: "externals \<Rightarrow> Vtxo \<Rightarrow> Hash \<Rightarrow> TaprootSpendInfo" where
  "hark_forfeit_claim_taproot X vtxo unlock_hash =
     (let agg_pk = forfeit_agg_pubkey X vtxo in
      \<lparr>internal_key = agg_pk,
       tap_leaves = [(1, exit_clause X (vtxo_user_pubkey vtxo) (v_exit_delta vtxo)),
                     (1, unlock_clause X agg_pk unlock_hash)]\<rparr>)"

definition create_hark_forfeit_tx :: "externals \<Rightarrow> Vtxo \<Rightarrow> Hash \<Rightarrow> Signature option \<Rightarrow> Transaction" where
  "create_hark_forfeit_tx X vtxo unlock_hash signature =
     (let claim_taproot = hark_forfeit_claim_taproot X vtxo unlock_hash in
      v3_tx [plain_input (v_point vtxo) Sequence_MAX (case signature of Some s \<Rightarrow> [s] | None \<Rightarrow> [])]
        [\<lparr>txo_value = v_amount vtxo, txo_script = taproot_script_pubkey X claim_taproot\<rparr>, fee_anchor X])"

definition create_hark_forfeit_claim_tx ::
  "externals \<Rightarrow> Vtxo \<Rightarrow> OutPoint \<Rightarrow> Hash \<Rightarrow> (Signature \<times> bytes) option \<Rightarrow> Transaction" where
  "create_hark_forfeit_claim_tx X vtxo forfeit_point unlock_hash witness =
     v3_tx
       [plain_input forfeit_point Sequence_MAX
          (case witness of
             Some (signature, unlock_preimage) \<Rightarrow>
               (let taproot = hark_forfeit_claim_taproot X vtxo unlock_hash;
                    agg_pk = internal_key taproot;
                    clause = unlock_clause X agg_pk unlock_hash
                in [signature, unlock_preimage, ext_script_bytes X clause, ext_control_block X taproot clause])
           | None \<Rightarrow> [])]
       [\<lparr>txo_value = v_amount vtxo, txo_script = ext_p2tr X (ext_x_only X (v_server_pubkey vtxo))\<rparr>, fee_anchor X]"

definition hark_forfeit_sighash :: "externals \<Rightarrow> Vtxo \<Rightarrow> Hash \<Rightarrow> ('e, bytes \<times> Transaction) outcome" where
  "hark_forfeit_sighash X vtxo unlock_hash =
     and_then (checked_txout X vtxo) (\<lambda>exit_prevout.
     let tx = create_hark_forfeit_tx X vtxo unlock_hash None
     in Ok (ext_key_sighash X tx exit_prevout, tx))"

definition hark_forfeit_claim_sighash ::
  "externals \<Rightarrow> Vtxo \<Rightarrow> OutPoint \<Rightarrow> Hash \<Rightarrow> bytes \<times> Transaction" where
  "hark_forfeit_claim_sighash X vtxo forfeit_point unlock_hash =
     (let claim_taproot = hark_forfeit_claim_taproot X vtxo unlock_hash;
          claim_txout = \<lparr>txo_value = v_amount vtxo, txo_script = taproot_script_pubkey X claim_taproot\<rparr>;
          tx = create_hark_forfeit_claim_tx X vtxo forfeit_point unlock_hash None;
          agg_pk = internal_key claim_taproot;
          clause = unlock_clause X agg_pk unlock_hash
      in (ext_script_sighash X tx claim_txout clause, tx))"

section \<open>The bundle of signatures\<close>

record HashLockedForfeitNonces =
  hn_forfeit_tx_nonce :: PublicNonce
  hn_forfeit_claim_tx_nonce :: PublicNonce

record HashLockedForfeitBundle =
  hb_vtxo_id :: VtxoId
  hb_unlock_hash :: Hash
  hb_user_nonces :: HashLockedForfeitNonces
  hb_forfeit_tx_part_sig :: PartialSignature
  hb_forfeit_claim_tx_part_sig :: PartialSignature

definition forfeit_vtxo ::
  "externals \<Rightarrow> nat \<Rightarrow> nat \<Rightarrow> Vtxo \<Rightarrow> Hash \<Rightarrow> Keypair \<Rightarrow> HashLockedForfeitNonces \<Rightarrow>
   ('e, HashLockedForfeitBundle) outcome" where
  "forfeit_vtxo X rnd_ff rnd_claim vtxo unlock_hash user_key server_nonces =
     and_then (checked_output_taproot X vtxo) (\<lambda>vtxo_exit_taproot.
     and_then (hark_forfeit_sighash X vtxo unlock_hash) (\<lambda>(ff_sighash, ff_tx).
     let (ff_sec_nonce, ff_pub_nonce) = nonce_pair_with_msg X rnd_ff user_key ff_sighash;
         ff_agg_nonce = nonce_agg X [ff_pub_nonce, hn_forfeit_tx_nonce server_nonces];
         ff_point = \<lparr>op_txid = ext_txid X ff_tx, op_vout = 0\<rparr>;
         (ff_part_sig, _) = partial_sign X [vtxo_user_pubkey vtxo, v_server_pubkey vtxo] ff_agg_nonce user_key
           ff_sec_nonce ff_sighash (Some (ext_tap_tweak X vtxo_exit_taproot)) None;
         (claim_sighash, _) = hark_forfeit_claim_sighash X vtxo ff_point unlock_hash;
         (claim_sec_nonce, claim_pub_nonce) = nonce_pair_with_msg X rnd_claim user_key claim_sighash;
         claim_agg_nonce = nonce_agg X [claim_pub_nonce, hn_forfeit_claim_tx_nonce server_nonces];
         (claim_part_sig, _) = partial_sign X [vtxo_user_pubkey vtxo, v_server_pubkey vtxo] claim_agg_nonce user_key
           claim_sec_nonce claim_sighash None None
     in Ok \<lparr>hb_vtxo_id = vtxo_id vtxo, hb_unlock_hash = unlock_hash,
            hb_user_nonces = \<lparr>hn_forfeit_tx_nonce = ff_pub_nonce, hn_forfeit_claim_tx_nonce = claim_pub_nonce\<rparr>,
            hb_forfeit_tx_part_sig = ff_part_sig, hb_forfeit_claim_tx_part_sig = claim_part_sig\<rparr>))"

definition forfeit_verify ::
  "externals \<Rightarrow> HashLockedForfeitBundle \<Rightarrow> Vtxo \<Rightarrow> HashLockedForfeitNonces \<Rightarrow> (string, unit) outcome" where
  "forfeit_verify X b vtxo server_nonces =
     (if vtxo_id vtxo \<noteq> hb_vtxo_id b then err ''VTXO mismatch''
      else
        let ff_agg_nonce = nonce_agg X [hn_forfeit_tx_nonce (hb_user_nonces b), hn_forfeit_tx_nonce server_nonces] in
        and_then (checked_output_taproot X vtxo) (\<lambda>vtxo_exit_taproot.
        and_then (hark_forfeit_sighash X vtxo (hb_unlock_hash b)) (\<lambda>(ff_sighash, ff_tx).
        let ff_key_agg = tweaked_key_agg [vtxo_user_pubkey vtxo, v_server_pubkey vtxo]
              (ext_tap_tweak X vtxo_exit_taproot);
            ff_point = \<lparr>op_txid = ext_txid X ff_tx, op_vout = 0\<rparr>
        in
        if \<not> ext_partial_verify X ff_key_agg ff_agg_nonce ff_sighash (hb_forfeit_tx_part_sig b)
               (hn_forfeit_tx_nonce (hb_user_nonces b)) (vtxo_user_pubkey vtxo)
        then err ''invalid partial sig for forfeit tx''
        else
        let claim_agg_nonce = nonce_agg X [hn_forfeit_claim_tx_nonce (hb_user_nonces b),
              hn_forfeit_claim_tx_nonce server_nonces];
            (claim_sighash, _) = hark_forfeit_claim_sighash X vtxo ff_point (hb_unlock_hash b);
            claim_key_agg = key_agg [vtxo_user_pubkey vtxo, v_server_pubkey vtxo]
        in
        if \<not> ext_partial_verify X claim_key_agg claim_agg_nonce claim_sighash (hb_forfeit_claim_tx_part_sig b)
               (hn_forfeit_claim_tx_nonce (hb_user_nonces b)) (vtxo_user_pubkey vtxo)
        then err ''invalid partial sig for forfeit claim tx''
        else Ok ())))"

text \<open>\<open>finish\<close>; its debug assertions are not part of a release build.\<close>

definition forfeit_finish ::
  "externals \<Rightarrow> HashLockedForfeitBundle \<Rightarrow> Vtxo \<Rightarrow> HashLockedForfeitNonces \<Rightarrow> SecretNonce \<times> SecretNonce \<Rightarrow>
   Keypair \<Rightarrow> ('e, Signature \<times> Signature) outcome" where
  "forfeit_finish X b vtxo server_pub_nonces sec_nonces server_key =
     (if vtxo_id vtxo \<noteq> hb_vtxo_id b then panic ''assertion left == right failed''
      else
        let (ff_sec_nonce, claim_sec_nonce) = sec_nonces;
            ff_agg_nonce = nonce_agg X [hn_forfeit_tx_nonce (hb_user_nonces b), hn_forfeit_tx_nonce server_pub_nonces]
        in
        and_then (checked_output_taproot X vtxo) (\<lambda>vtxo_exit_taproot.
        and_then (hark_forfeit_sighash X vtxo (hb_unlock_hash b)) (\<lambda>(ff_sighash, ff_tx).
        let ff_point = \<lparr>op_txid = ext_txid X ff_tx, op_vout = 0\<rparr>;
            (_, ff_sig) = partial_sign X [vtxo_user_pubkey vtxo, v_server_pubkey vtxo] ff_agg_nonce server_key
              ff_sec_nonce ff_sighash (Some (ext_tap_tweak X vtxo_exit_taproot)) (Some [hb_forfeit_tx_part_sig b])
        in
        and_then (expect ff_sig ''forfeit tx sig error'') (\<lambda>ff_sig.
        let claim_agg_nonce = nonce_agg X [hn_forfeit_claim_tx_nonce (hb_user_nonces b),
              hn_forfeit_claim_tx_nonce server_pub_nonces];
            (claim_sighash, _) = hark_forfeit_claim_sighash X vtxo ff_point (hb_unlock_hash b);
            (_, claim_sig) = partial_sign X [vtxo_user_pubkey vtxo, v_server_pubkey vtxo] claim_agg_nonce server_key
              claim_sec_nonce claim_sighash None (Some [hb_forfeit_claim_tx_part_sig b])
        in
        and_then (expect claim_sig ''forfeit claim tx sig error'') (\<lambda>claim_sig.
        Ok (ff_sig, claim_sig))))))"

section \<open>Wire format\<close>

definition enc_forfeit_nonces :: "HashLockedForfeitNonces \<Rightarrow> bytes" where
  "enc_forfeit_nonces n = enc_nonce (hn_forfeit_tx_nonce n) @ enc_nonce (hn_forfeit_claim_tx_nonce n)"

definition dec_forfeit_nonces :: "externals \<Rightarrow> HashLockedForfeitNonces decoder" where
  "dec_forfeit_nonces X =
     dbind (dec_nonce (ext_nonce_ok X)) (\<lambda>a. dbind (dec_nonce (ext_nonce_ok X)) (\<lambda>b.
       dreturn \<lparr>hn_forfeit_tx_nonce = a, hn_forfeit_claim_tx_nonce = b\<rparr>))"

definition HASH_LOCKED_FORFEIT_BUNDLE_VERSION :: byte where
  "HASH_LOCKED_FORFEIT_BUNDLE_VERSION = 0"

definition enc_forfeit_bundle :: "HashLockedForfeitBundle \<Rightarrow> bytes" where
  "enc_forfeit_bundle b =
     emit_u8 HASH_LOCKED_FORFEIT_BUNDLE_VERSION @ enc_vtxo_id (hb_vtxo_id b) @ enc_hash (hb_unlock_hash b)
     @ enc_forfeit_nonces (hb_user_nonces b) @ enc_part_sig (hb_forfeit_tx_part_sig b)
     @ enc_part_sig (hb_forfeit_claim_tx_part_sig b)"

definition dec_forfeit_bundle :: "externals \<Rightarrow> HashLockedForfeitBundle decoder" where
  "dec_forfeit_bundle X = dbind read_u8 (\<lambda>ver.
     if ver \<noteq> HASH_LOCKED_FORFEIT_BUNDLE_VERSION then dfail (Invalid ''unknown encoding version'')
     else
       dbind dec_vtxo_id (\<lambda>vtxo_id. dbind dec_hash (\<lambda>unlock_hash. dbind (dec_forfeit_nonces X) (\<lambda>user_nonces.
       dbind (dec_part_sig (ext_part_sig_ok X)) (\<lambda>ff. dbind (dec_part_sig (ext_part_sig_ok X)) (\<lambda>claim.
         dreturn \<lparr>hb_vtxo_id = vtxo_id, hb_unlock_hash = unlock_hash, hb_user_nonces = user_nonces,
                  hb_forfeit_tx_part_sig = ff, hb_forfeit_claim_tx_part_sig = claim\<rparr>))))))"

definition wf_forfeit_nonces :: "externals \<Rightarrow> HashLockedForfeitNonces \<Rightarrow> bool" where
  "wf_forfeit_nonces X n \<longleftrightarrow>
     wf_nonce (ext_nonce_ok X) (hn_forfeit_tx_nonce n) \<and> wf_nonce (ext_nonce_ok X) (hn_forfeit_claim_tx_nonce n)"

definition wf_forfeit_bundle :: "externals \<Rightarrow> HashLockedForfeitBundle \<Rightarrow> bool" where
  "wf_forfeit_bundle X b \<longleftrightarrow>
     length (hb_vtxo_id b) = 36 \<and> wf_hash (hb_unlock_hash b) \<and> wf_forfeit_nonces X (hb_user_nonces b) \<and>
     wf_part_sig (ext_part_sig_ok X) (hb_forfeit_tx_part_sig b) \<and>
     wf_part_sig (ext_part_sig_ok X) (hb_forfeit_claim_tx_part_sig b)"

section \<open>Connector forfeits\<close>

definition create_connector_forfeit_tx ::
  "externals \<Rightarrow> Vtxo \<Rightarrow> OutPoint \<Rightarrow> Signature option \<Rightarrow> Signature option \<Rightarrow> Transaction" where
  "create_connector_forfeit_tx X vtxo connector forfeit_sig connector_sig =
     v3_tx
       [plain_input (v_point vtxo) Sequence_ZERO (case forfeit_sig of Some s \<Rightarrow> [s] | None \<Rightarrow> []),
        plain_input connector Sequence_ZERO (case connector_sig of Some s \<Rightarrow> [s] | None \<Rightarrow> [])]
       [\<lparr>txo_value = v_amount vtxo, txo_script = ext_p2tr X (ext_x_only X (v_server_pubkey vtxo))\<rparr>,
        fee_anchor_with_amount X P2TR_DUST]"

definition connector_forfeit_input_sighash ::
  "externals \<Rightarrow> Vtxo \<Rightarrow> OutPoint \<Rightarrow> PublicKey \<Rightarrow> nat \<Rightarrow> ('e, bytes \<times> Transaction) outcome" where
  "connector_forfeit_input_sighash X vtxo connector connector_pk input_idx =
     and_then (checked_txout X vtxo) (\<lambda>exit_prevout.
     let connector_prevout = \<lparr>txo_value = P2TR_DUST, txo_script = connector_output_script X connector_pk\<rparr>;
         tx = create_connector_forfeit_tx X vtxo connector None None
     in if input_idx < length (tx_input tx)
        then Ok (ext_key_sighash_at X tx input_idx [exit_prevout, connector_prevout], tx)
        else panic ''sighash error'')"

definition connector_forfeit_sighash_exit ::
  "externals \<Rightarrow> Vtxo \<Rightarrow> OutPoint \<Rightarrow> PublicKey \<Rightarrow> ('e, bytes \<times> Transaction) outcome" where
  "connector_forfeit_sighash_exit X vtxo connector connector_pk =
     connector_forfeit_input_sighash X vtxo connector connector_pk 0"

definition connector_forfeit_sighash_connector ::
  "externals \<Rightarrow> Vtxo \<Rightarrow> OutPoint \<Rightarrow> PublicKey \<Rightarrow> ('e, bytes \<times> Transaction) outcome" where
  "connector_forfeit_sighash_connector X vtxo connector connector_pk =
     connector_forfeit_input_sighash X vtxo connector connector_pk 1"

section \<open>Lemmas\<close>

abbreviation forfeit_heights_ok :: "Vtxo \<Rightarrow> bool" where
  "forfeit_heights_ok v \<equiv> policy_locktime_ok (v_policy v) (v_expiry_height v)"

lemma hark_forfeit_sighash_Ok:
  "forfeit_heights_ok v \<Longrightarrow> hark_forfeit_sighash X v h =
     Ok (ext_key_sighash X (create_hark_forfeit_tx X v h None) (vtxo_txout X v), create_hark_forfeit_tx X v h None)"
  by (simp add: hark_forfeit_sighash_def checked_txout_def Let_def)

text \<open>What the user signs, and what the server's acceptance says about a bundle.\<close>

abbreviation ff_message :: "externals \<Rightarrow> Vtxo \<Rightarrow> Hash \<Rightarrow> bytes" where
  "ff_message X v h \<equiv> ext_key_sighash X (create_hark_forfeit_tx X v h None) (vtxo_txout X v)"

abbreviation ff_point :: "externals \<Rightarrow> Vtxo \<Rightarrow> Hash \<Rightarrow> OutPoint" where
  "ff_point X v h \<equiv> \<lparr>op_txid = ext_txid X (create_hark_forfeit_tx X v h None), op_vout = 0\<rparr>"

abbreviation claim_message :: "externals \<Rightarrow> Vtxo \<Rightarrow> Hash \<Rightarrow> bytes" where
  "claim_message X v h \<equiv> fst (hark_forfeit_claim_sighash X v (ff_point X v h) h)"

abbreviation ff_key_agg :: "externals \<Rightarrow> Vtxo \<Rightarrow> KeyAggCache" where
  "ff_key_agg X v \<equiv> tweaked_key_agg [vtxo_user_pubkey v, v_server_pubkey v] (ext_tap_tweak X (vtxo_output_taproot X v))"

abbreviation claim_key_agg :: "Vtxo \<Rightarrow> KeyAggCache" where
  "claim_key_agg v \<equiv> key_agg [vtxo_user_pubkey v, v_server_pubkey v]"

abbreviation bundle_nonce ::
  "externals \<Rightarrow> (HashLockedForfeitNonces \<Rightarrow> PublicNonce) \<Rightarrow> HashLockedForfeitBundle \<Rightarrow> HashLockedForfeitNonces \<Rightarrow> AggregatedNonce" where
  "bundle_nonce X f b n \<equiv> nonce_agg X [f (hb_user_nonces b), f n]"

lemma forfeit_verify_iff:
  assumes "forfeit_heights_ok v"
  shows "forfeit_verify X b v n = Ok () \<longleftrightarrow>
    vtxo_id v = hb_vtxo_id b \<and>
    ext_partial_verify X (ff_key_agg X v) (bundle_nonce X hn_forfeit_tx_nonce b n) (ff_message X v (hb_unlock_hash b))
      (hb_forfeit_tx_part_sig b) (hn_forfeit_tx_nonce (hb_user_nonces b)) (vtxo_user_pubkey v) \<and>
    ext_partial_verify X (claim_key_agg v) (bundle_nonce X hn_forfeit_claim_tx_nonce b n)
      (claim_message X v (hb_unlock_hash b)) (hb_forfeit_claim_tx_part_sig b)
      (hn_forfeit_claim_tx_nonce (hb_user_nonces b)) (vtxo_user_pubkey v)"
  using assms
  by (auto simp: forfeit_verify_def checked_output_taproot_def hark_forfeit_sighash_Ok case_prod_beta Let_def)

lemma forfeit_finish_Ok:
  assumes "forfeit_heights_ok v" "vtxo_id v = hb_vtxo_id b"
  shows "forfeit_finish X b v n (ff_sec, claim_sec) key = Ok
    (ext_partial_sig_agg X (ff_key_agg X v) (bundle_nonce X hn_forfeit_tx_nonce b n) (ff_message X v (hb_unlock_hash b))
       [hb_forfeit_tx_part_sig b, ext_partial_sign X (ff_key_agg X v) (bundle_nonce X hn_forfeit_tx_nonce b n)
          (ff_message X v (hb_unlock_hash b)) ff_sec key],
     ext_partial_sig_agg X (claim_key_agg v) (bundle_nonce X hn_forfeit_claim_tx_nonce b n)
       (claim_message X v (hb_unlock_hash b))
       [hb_forfeit_claim_tx_part_sig b, ext_partial_sign X (claim_key_agg v) (bundle_nonce X hn_forfeit_claim_tx_nonce b n)
          (claim_message X v (hb_unlock_hash b)) claim_sec key])"
  using assms
  by (simp add: forfeit_finish_def checked_output_taproot_def hark_forfeit_sighash_Ok partial_sign_def session_agg_def
      case_prod_beta Let_def)

lemma strip_forfeit_txs [simp]:
  "strip_witness (create_hark_forfeit_tx X v h sig) = create_hark_forfeit_tx X v h None"
  "strip_witness (create_hark_forfeit_claim_tx X v point h w) = create_hark_forfeit_claim_tx X v point h None"
  by (simp_all add: strip_witness_def create_hark_forfeit_tx_def create_hark_forfeit_claim_tx_def Let_def)

lemma forfeit_signatures_valid:
  assumes laws: "musig_laws X" "musig_untweaked_laws X" and ok: "forfeit_heights_ok v"
    and accepted: "forfeit_verify X b v n = Ok ()"
    and key: "ext_public_key X server_key = v_server_pubkey v"
    and nonces: "nonce_for X server_key ff_sec (hn_forfeit_tx_nonce n)"
      "nonce_for X server_key claim_sec (hn_forfeit_claim_tx_nonce n)"
  shows "\<exists>ff claim. forfeit_finish X b v n (ff_sec, claim_sec) server_key = Ok (ff, claim) \<and>
    ext_verify_schnorr X ff (ff_message X v (hb_unlock_hash b)) (ext_output_key X (vtxo_output_taproot X v)) \<and>
    ext_verify_schnorr X claim (claim_message X v (hb_unlock_hash b)) (forfeit_agg_pubkey X v)"
proof -
  note verified = accepted [unfolded forfeit_verify_iff [OF ok]]
  have mine: "ext_partial_verify X (ff_key_agg X v) agg_nonce msg
      (ext_partial_sign X (ff_key_agg X v) agg_nonce msg ff_sec server_key) (hn_forfeit_tx_nonce n) (v_server_pubkey v)"
    "ext_partial_verify X (claim_key_agg v) agg_nonce msg
      (ext_partial_sign X (claim_key_agg v) agg_nonce msg claim_sec server_key)
      (hn_forfeit_claim_tx_nonce n) (v_server_pubkey v)" for agg_nonce msg
    using nonce_for_verifies [OF laws(1) nonces(1), of "ff_key_agg X v" agg_nonce msg]
      nonce_for_verifies [OF laws(1) nonces(2), of "claim_key_agg v" agg_nonce msg]
    by (simp_all add: key tweaked_key_agg_def key_agg_def)
  have "ext_verify_schnorr X (ext_partial_sig_agg X (ff_key_agg X v) (bundle_nonce X hn_forfeit_tx_nonce b n)
      (ff_message X v (hb_unlock_hash b)) [hb_forfeit_tx_part_sig b, ext_partial_sign X (ff_key_agg X v)
        (bundle_nonce X hn_forfeit_tx_nonce b n) (ff_message X v (hb_unlock_hash b)) ff_sec server_key])
      (ff_message X v (hb_unlock_hash b)) (ext_output_key X (vtxo_output_taproot X v))"
    by (rule musig_two_party [OF laws(1) vtxo_output_taproot_key]) (use verified mine in \<open>blast\<close>)+
  moreover have "ext_verify_schnorr X (ext_partial_sig_agg X (claim_key_agg v) (bundle_nonce X hn_forfeit_claim_tx_nonce b n)
      (claim_message X v (hb_unlock_hash b)) [hb_forfeit_claim_tx_part_sig b, ext_partial_sign X (claim_key_agg v)
        (bundle_nonce X hn_forfeit_claim_tx_nonce b n) (claim_message X v (hb_unlock_hash b)) claim_sec server_key])
      (claim_message X v (hb_unlock_hash b)) (forfeit_agg_pubkey X v)"
    unfolding forfeit_agg_pubkey_def
    by (rule musig_two_party_untweaked [OF laws(2)]) (use verified mine in \<open>blast\<close>)+
  ultimately show ?thesis using forfeit_finish_Ok [OF ok] verified by blast
qed

interpretation c_forfeit_nonces: canonical_codec
  "\<lambda>n. Some (enc_forfeit_nonces n)" "dec_forfeit_nonces X" "wf_forfeit_nonces X" for X
proof
  show "wf_forfeit_nonces X n \<Longrightarrow> Some (enc_forfeit_nonces n) = Some b \<Longrightarrow> dec_forfeit_nonces X (b @ r) = Inr (n, r)"
    for n b r
    by (auto simp: enc_forfeit_nonces_def dec_forfeit_nonces_def wf_forfeit_nonces_def decode_simps
        c_nonce.roundtrip [OF _ refl])
  fix b n r
  assume "dec_forfeit_nonces X b = Inr (n, r)"
  then obtain x y b' where d: "dec_nonce (ext_nonce_ok X) b = Inr (x, b')" "dec_nonce (ext_nonce_ok X) b' = Inr (y, r)"
    "n = \<lparr>hn_forfeit_tx_nonce = x, hn_forfeit_claim_tx_nonce = y\<rparr>"
    by (auto simp: dec_forfeit_nonces_def dbind_eq_Inr dreturn_apply)
  show "wf_forfeit_nonces X n \<and> (\<exists>e. Some (enc_forfeit_nonces n) = Some e \<and> b = e @ r)"
    using c_nonce.canonical [OF d(1)] c_nonce.canonical [OF d(2)] d(3)
    by (simp add: enc_forfeit_nonces_def wf_forfeit_nonces_def)
qed

interpretation c_forfeit_bundle: canonical_codec
  "\<lambda>b. Some (enc_forfeit_bundle b)" "dec_forfeit_bundle X" "wf_forfeit_bundle X" for X
proof
  show "wf_forfeit_bundle X n \<Longrightarrow> Some (enc_forfeit_bundle n) = Some b \<Longrightarrow> dec_forfeit_bundle X (b @ r) = Inr (n, r)"
    for n b r
    by (auto simp: enc_forfeit_bundle_def dec_forfeit_bundle_def wf_forfeit_bundle_def decode_simps
        c_forfeit_nonces.roundtrip [OF _ refl] c_vtxo_id.roundtrip [OF _ refl] c_hash.roundtrip [OF _ refl]
        c_part_sig.roundtrip [OF _ refl])
  fix b n r
  assume "dec_forfeit_bundle X b = Inr (n, r)"
  then obtain ver i h ns s t b1 b2 b3 b4 b5 where d: "read_u8 b = Inr (ver, b1)" "dec_vtxo_id b1 = Inr (i, b2)"
    "dec_hash b2 = Inr (h, b3)" "dec_forfeit_nonces X b3 = Inr (ns, b4)"
    "dec_part_sig (ext_part_sig_ok X) b4 = Inr (s, b5)" "dec_part_sig (ext_part_sig_ok X) b5 = Inr (t, r)"
    and n: "ver = HASH_LOCKED_FORFEIT_BUNDLE_VERSION" "n = \<lparr>hb_vtxo_id = i, hb_unlock_hash = h, hb_user_nonces = ns,
      hb_forfeit_tx_part_sig = s, hb_forfeit_claim_tx_part_sig = t\<rparr>"
    by (auto simp: dec_forfeit_bundle_def dbind_eq_Inr dreturn_apply dfail_apply split: if_splits)
  show "wf_forfeit_bundle X n \<and> (\<exists>e. Some (enc_forfeit_bundle n) = Some e \<and> b = e @ r)"
    using int_canonical(1) [OF d(1)] c_vtxo_id.canonical [OF d(2)] c_hash.canonical [OF d(3)]
      c_forfeit_nonces.canonical [OF d(4)] c_part_sig.canonical [OF d(5)] c_part_sig.canonical [OF d(6)] n
    by (simp add: enc_forfeit_bundle_def wf_forfeit_bundle_def)
qed

text \<open>The connector's dust pays the fee: a connector forfeit pays out what its two inputs hold.\<close>

lemma connector_forfeit_value:
  "output_value (create_connector_forfeit_tx X v connector fs cs) = v_amount v + P2TR_DUST"
  by (simp add: create_connector_forfeit_tx_def output_value_def fee_anchor_with_amount_def)

section \<open>Properties\<close>

text \<open>
  C21: the server accepts what an honest user sends. A user that forfeits a VTXO with the key of its
  policy, for any nonces of the server, gets a bundle that \<open>verify\<close> accepts for the same VTXO and
  nonces, and no other VTXO: for a VTXO with another identifier the answer is \<open>"VTXO mismatch"\<close>.
\<close>

theorem forfeit_bundle_verifies:
  assumes "musig_laws X" "policy_locktime_ok (v_policy v) (v_expiry_height v)"
    and "ext_public_key X user_key = vtxo_user_pubkey v"
  shows "\<exists>b. forfeit_vtxo X rnd_ff rnd_claim v h user_key n = (Ok b :: ('e, HashLockedForfeitBundle) outcome) \<and>
     hb_unlock_hash b = h \<and> forfeit_verify X b v n = Ok () \<and>
     (\<forall>v'. vtxo_id v' \<noteq> vtxo_id v \<longrightarrow> forfeit_verify X b v' n = err ''VTXO mismatch'')"
proof -
  obtain s p where ff: "nonce_pair_with_msg X rnd_ff user_key (ff_message X v h) = (s, p)" by fastforce
  obtain s' p' where claim: "nonce_pair_with_msg X rnd_claim user_key (claim_message X v h) = (s', p')" by fastforce
  let ?b = "\<lparr>hb_vtxo_id = vtxo_id v, hb_unlock_hash = h,
      hb_user_nonces = \<lparr>hn_forfeit_tx_nonce = p, hn_forfeit_claim_tx_nonce = p'\<rparr>,
      hb_forfeit_tx_part_sig = ext_partial_sign X (ff_key_agg X v) (nonce_agg X [p, hn_forfeit_tx_nonce n])
        (ff_message X v h) s user_key,
      hb_forfeit_claim_tx_part_sig = ext_partial_sign X (claim_key_agg v)
        (nonce_agg X [p', hn_forfeit_claim_tx_nonce n]) (claim_message X v h) s' user_key\<rparr>"
  have b: "forfeit_vtxo X rnd_ff rnd_claim v h user_key n = (Ok ?b :: ('e, HashLockedForfeitBundle) outcome)"
    using assms(2) ff claim
    by (simp add: forfeit_vtxo_def checked_output_taproot_def hark_forfeit_sighash_Ok partial_sign_def session_agg_def
        case_prod_beta Let_def)
  have gen: "nonce_for X user_key s p" "nonce_for X user_key s' p'"
    using ff claim unfolding nonce_for_def nonce_pair_with_msg_def by blast+
  have "ext_partial_verify X agg agg_nonce msg (ext_partial_sign X agg agg_nonce msg s user_key) p (vtxo_user_pubkey v)"
    "ext_partial_verify X agg agg_nonce msg (ext_partial_sign X agg agg_nonce msg s' user_key) p' (vtxo_user_pubkey v)"
    if "vtxo_user_pubkey v \<in> set (ka_keys agg)" for agg agg_nonce msg
    using nonce_for_verifies [OF assms(1) gen(1)] nonce_for_verifies [OF assms(1) gen(2)] that by (simp_all add: assms(3))
  then have "forfeit_verify X ?b v n = Ok ()"
    unfolding forfeit_verify_iff [OF assms(2)] by (simp add: tweaked_key_agg_def key_agg_def)
  with b show ?thesis by (auto simp: forfeit_verify_def)
qed

abbreviation demo_forfeit_nonces :: HashLockedForfeitNonces where
  "demo_forfeit_nonces \<equiv> \<lparr>hn_forfeit_tx_nonce = [5, 1], hn_forfeit_claim_tx_nonce = [6, 1]\<rparr>"

theorem forfeit_bundle_verifies_witness:
  "\<exists>b. forfeit_vtxo demo_ext 3 4 demo_input (replicate 32 9) (replicate 32 2) demo_forfeit_nonces
        = (Ok b :: (unit, HashLockedForfeitBundle) outcome) \<and>
     forfeit_verify demo_ext b demo_input demo_forfeit_nonces = Ok ()"
  using forfeit_bundle_verifies [OF demo_ext_laws(4), of demo_input "replicate 32 2" 3 4 "replicate 32 9"
      demo_forfeit_nonces, where 'e = unit] demo_user_key(2)
  by auto


definition demo_forfeit_input :: Vtxo where
  "demo_forfeit_input = demo_input\<lparr>v_server_pubkey := 2 # replicate 32 3\<rparr>"

definition demo_bundle :: HashLockedForfeitBundle where
  "demo_bundle = \<lparr>hb_vtxo_id = vtxo_id demo_forfeit_input, hb_unlock_hash = replicate 32 9,
     hb_user_nonces = demo_forfeit_nonces, hb_forfeit_tx_part_sig = [1], hb_forfeit_claim_tx_part_sig = [1]\<rparr>"


text \<open>
  C37: the wire format of a forfeit bundle is exact: \<open>decode\<close> returns a bundle and leaves \<open>r\<close> if and
  only if the bundle consists of values of the Rust types and the input is its encoding followed by
  \<open>r\<close>.
\<close>

theorem forfeit_bundle_codec:
  "dec_forfeit_bundle X input = Inr (b, r) \<longleftrightarrow> wf_forfeit_bundle X b \<and> input = enc_forfeit_bundle b @ r"
  using c_forfeit_bundle.roundtrip [OF _ refl, of X b r] c_forfeit_bundle.canonical [of X input b r] by auto

end
