(* ===== verification/Ark_Action.thy ===== *)
theory Ark_Action
  imports Ark_Prelude
begin

text \<open>
  Stateful code that can fail: an action takes the state and returns an outcome with the state after
  it, also when it fails, since what was written before an error stays written. Weakest
  preconditions compute through the combinators by rewriting; the rules are the collection
  \<open>wp_simps\<close>.
\<close>

named_theorems wp_simps \<open>weakest preconditions of the action combinators\<close>

type_synonym ('s, 'e, 'a) action = "'s \<Rightarrow> ('e, 'a) outcome \<times> 's"

definition areturn :: "'a \<Rightarrow> ('s, 'e, 'a) action" where
  "areturn x = (\<lambda>s. (Ok x, s))"

definition athrow :: "'e \<Rightarrow> ('s, 'e, 'a) action" where
  "athrow e = (\<lambda>s. (err e, s))"

definition apanic :: "string \<Rightarrow> ('s, 'e, 'a) action" where
  "apanic m = (\<lambda>s. (panic m, s))"

definition abind :: "('s, 'e, 'a) action \<Rightarrow> ('a \<Rightarrow> ('s, 'e, 'b) action) \<Rightarrow> ('s, 'e, 'b) action" where
  "abind m f = (\<lambda>s. case m s of (Inr x, t) \<Rightarrow> f x t | (Inl e, t) \<Rightarrow> (Inl e, t))"

text \<open>A result without effect, the state, and its update.\<close>

definition alift :: "('e, 'a) outcome \<Rightarrow> ('s, 'e, 'a) action" where
  "alift r = (\<lambda>s. (r, s))"

definition aget :: "('s \<Rightarrow> 'a) \<Rightarrow> ('s, 'e, 'a) action" where
  "aget f = (\<lambda>s. (Ok (f s), s))"

definition amodify :: "('s \<Rightarrow> 's) \<Rightarrow> ('s, 'e, unit) action" where
  "amodify f = (\<lambda>s. (Ok (), f s))"

text \<open>\<open>map_err\<close>, and \<open>match\<close> on a result: the error becomes a value, a panic passes through.\<close>

definition amap_err :: "('e \<Rightarrow> 'f) \<Rightarrow> ('s, 'e, 'a) action \<Rightarrow> ('s, 'f, 'a) action" where
  "amap_err g m = (\<lambda>s. case m s of (r, t) \<Rightarrow> (map_err g r, t))"

definition atry :: "('s, 'e, 'a) action \<Rightarrow> ('s, 'f, 'e + 'a) action" where
  "atry m = (\<lambda>s. case m s of
      (Inr x, t) \<Rightarrow> (Ok (Inr x), t)
    | (Inl (Err e), t) \<Rightarrow> (Ok (Inl e), t)
    | (Inl (Panic p), t) \<Rightarrow> (panic p, t))"

primrec afold :: "('a \<Rightarrow> 'b \<Rightarrow> ('s, 'e, 'b) action) \<Rightarrow> 'a list \<Rightarrow> 'b \<Rightarrow> ('s, 'e, 'b) action" where
  "afold f [] acc = areturn acc"
| "afold f (x # xs) acc = abind (f x acc) (afold f xs)"

section \<open>Weakest preconditions\<close>

definition wp :: "('s, 'e, 'a) action \<Rightarrow> ('a \<Rightarrow> 's \<Rightarrow> bool) \<Rightarrow> ('e failure \<Rightarrow> 's \<Rightarrow> bool) \<Rightarrow> 's \<Rightarrow> bool" where
  "wp m Q E s = (case m s of (Inr x, t) \<Rightarrow> Q x t | (Inl e, t) \<Rightarrow> E e t)"

lemma wp_basic [wp_simps]:
  "wp (areturn x) Q E s = Q x s"
  "wp (athrow e) Q E s = E (Err e) s"
  "wp (apanic m) Q E s = E (Panic m) s"
  "wp (aget f) Q E s = Q (f s) s"
  by (simp_all add: wp_def areturn_def athrow_def apanic_def aget_def)

lemma wp_areturn: "wp (areturn x) Q E = Q x"
  by (simp add: fun_eq_iff wp_basic)

lemma wp_amodify [wp_simps]: "wp (amodify f) Q E s = Q () (f s)"
  by (simp add: wp_def amodify_def)

lemma wp_alift [wp_simps]: "wp (alift r) Q E s = (case r of Inr x \<Rightarrow> Q x s | Inl e \<Rightarrow> E e s)"
  by (simp add: wp_def alift_def split: sum.splits)

lemma wp_abind [wp_simps]: "wp (abind m f) Q E s = wp m (\<lambda>x. wp (f x) Q E) E s"
  by (auto simp: wp_def abind_def split: prod.splits sum.splits)

lemma wp_amap_err [wp_simps]:
  "wp (amap_err g m) Q E s =
     wp m Q (\<lambda>e. case e of Err x \<Rightarrow> E (Err (g x)) | Panic p \<Rightarrow> E (Panic p)) s"
  by (auto simp: wp_def amap_err_def split: prod.splits sum.splits failure.splits)

lemma wp_atry [wp_simps]:
  "wp (atry m) Q E s =
     wp m (\<lambda>x. Q (Inr x)) (\<lambda>e. case e of Err x \<Rightarrow> Q (Inl x) | Panic p \<Rightarrow> E (Panic p)) s"
  by (auto simp: wp_def atry_def split: prod.splits sum.splits failure.splits)

lemma wp_cases [wp_simps]:
  "wp (if b then m else n) Q E s = (if b then wp m Q E s else wp n Q E s)"
  "wp (case o' of None \<Rightarrow> m | Some x \<Rightarrow> f x) Q E s = (case o' of None \<Rightarrow> wp m Q E s | Some x \<Rightarrow> wp (f x) Q E s)"
  "wp (case r of Inl e \<Rightarrow> g e | Inr x \<Rightarrow> h x) Q E s = (case r of Inl e \<Rightarrow> wp (g e) Q E s | Inr x \<Rightarrow> wp (h x) Q E s)"
  "wp (case p of (a, b) \<Rightarrow> k a b) Q E s = (case p of (a, b) \<Rightarrow> wp (k a b) Q E s)"
  by (simp_all split: option.splits sum.splits prod.splits)

lemma wp_mono:
  assumes "wp m Q E s" "\<And>x t. Q x t \<Longrightarrow> Q' x t" "\<And>e t. E e t \<Longrightarrow> E' e t"
  shows "wp m Q' E' s"
  using assms by (auto simp: wp_def split: prod.splits sum.splits)

lemma wp_conj:
  "wp m Q E s \<Longrightarrow> wp m Q' E' s \<Longrightarrow> wp m (\<lambda>x t. Q x t \<and> Q' x t) (\<lambda>e t. E e t \<and> E' e t) s"
  by (auto simp: wp_def split: prod.splits sum.splits)

lemma wp_True: "wp m (\<lambda>_ _. True) (\<lambda>_ _. True) s"
  by (simp add: wp_def split: prod.splits sum.splits)

lemma wpD:
  assumes "wp m Q E s" "m s = (r, t)"
  shows "case r of Inr x \<Rightarrow> Q x t | Inl e \<Rightarrow> E e t"
  using assms by (simp add: wp_def split: sum.splits)

text \<open>A loop keeps what its body keeps.\<close>

lemma wp_afold:
  assumes "I acc s"
    and "\<And>x acc s. x \<in> set xs \<Longrightarrow> I acc s \<Longrightarrow> wp (f x acc) I E s"
  shows "wp (afold f xs acc) I E s"
  using assms
proof (induction xs arbitrary: acc s)
  case Nil
  then show ?case by (simp add: wp_simps)
next
  case (Cons x xs)
  have "wp (f x acc) (\<lambda>a. wp (afold f xs a) I E) E s"
  proof (rule wp_mono)
    show "wp (f x acc) I E s" by (rule Cons.prems(2)) (simp_all add: Cons.prems(1))
    show "wp (afold f xs a) I E t" if "I a t" for a t
      using that by (rule Cons.IH) (simp add: Cons.prems(2))
  qed
  then show ?case by (simp add: wp_simps)
qed

section \<open>Actions that keep an invariant\<close>

text \<open>Neither a result nor an error breaks the invariant, and there is no panic.\<close>

fun not_panic :: "'e failure \<Rightarrow> bool" where
  "not_panic (Err _) = True"
| "not_panic (Panic _) = False"

definition keeps :: "('s \<Rightarrow> bool) \<Rightarrow> ('s, 'e, 'a) action \<Rightarrow> bool" where
  "keeps I m \<longleftrightarrow> (\<forall>s. I s \<longrightarrow> wp m (\<lambda>_. I) (\<lambda>e t. not_panic e \<and> I t) s)"

lemma keepsI: "(\<And>s. I s \<Longrightarrow> wp m (\<lambda>_. I) (\<lambda>e t. not_panic e \<and> I t) s) \<Longrightarrow> keeps I m"
  by (simp add: keeps_def)

lemma keepsD: "keeps I m \<Longrightarrow> I s \<Longrightarrow> wp m (\<lambda>_. I) (\<lambda>e t. not_panic e \<and> I t) s"
  by (simp add: keeps_def)

named_theorems keeps_intros \<open>actions that keep an invariant\<close>

lemma keeps_abind [keeps_intros]: "keeps I m \<Longrightarrow> (\<And>x. keeps I (f x)) \<Longrightarrow> keeps I (abind m f)"
  unfolding keeps_def by (auto simp: wp_abind intro: wp_mono)

lemma keeps_basic [keeps_intros]:
  "keeps I (areturn x)" "keeps I (athrow e)" "keeps I (aget f)"
  by (simp_all add: keeps_def wp_simps)

lemma keeps_amap_err [keeps_intros]: "keeps I m \<Longrightarrow> keeps I (amap_err g m)"
  by (rule keepsI, unfold wp_amap_err, rule wp_mono [OF keepsD]) (auto split: failure.splits)

lemma keeps_atry [keeps_intros]: "keeps I m \<Longrightarrow> keeps I (atry m)"
  by (rule keepsI, unfold wp_atry, rule wp_mono [OF keepsD]) (auto split: failure.splits)

lemma keeps_if [keeps_intros]: "keeps I m \<Longrightarrow> keeps I n \<Longrightarrow> keeps I (if b then m else n)"
  by simp

lemma keeps_option [keeps_intros]:
  "keeps I m \<Longrightarrow> (\<And>x. keeps I (f x)) \<Longrightarrow> keeps I (case o' of None \<Rightarrow> m | Some x \<Rightarrow> f x)"
  by (simp split: option.splits)

lemma keeps_sum [keeps_intros]:
  "(\<And>e. keeps I (g e)) \<Longrightarrow> (\<And>x. keeps I (h x)) \<Longrightarrow> keeps I (case r of Inl e \<Rightarrow> g e | Inr x \<Rightarrow> h x)"
  by (simp split: sum.splits)

lemma keeps_prod [keeps_intros]: "(\<And>a b. keeps I (k a b)) \<Longrightarrow> keeps I (case p of (a, b) \<Rightarrow> k a b)"
  by (simp split: prod.splits)

lemma keeps_afold [keeps_intros]: "(\<And>x acc. keeps I (f x acc)) \<Longrightarrow> keeps I (afold f xs acc)"
  by (induction xs arbitrary: acc) (simp_all add: keeps_intros)

lemma keeps_run:
  assumes "keeps I m" "I s"
  shows "\<exists>r t. m s = (r, t) \<and> I t \<and> (case r of Inr _ \<Rightarrow> True | Inl e \<Rightarrow> not_panic e)"
  using keepsD [OF assms] by (auto simp: wp_def split: prod.splits sum.splits)

section \<open>Actions that keep a part of the state, panics included\<close>

definition stays :: "('s \<Rightarrow> bool) \<Rightarrow> ('s, 'e, 'a) action \<Rightarrow> bool" where
  "stays I m \<longleftrightarrow> (\<forall>s. I s \<longrightarrow> wp m (\<lambda>_. I) (\<lambda>_. I) s)"

named_theorems stays_intros \<open>actions that keep a part of the state\<close>

lemma stays_basic [stays_intros]:
  "stays I (areturn x)" "stays I (athrow e)" "stays I (apanic p)" "stays I (aget f)" "stays I (alift r)"
  by (simp_all add: stays_def wp_simps split: sum.splits)

lemma stays_abind [stays_intros]: "stays I m \<Longrightarrow> (\<And>x. stays I (f x)) \<Longrightarrow> stays I (abind m f)"
  unfolding stays_def by (auto simp: wp_abind intro: wp_mono)

lemma stays_wrap [stays_intros]: "stays I m \<Longrightarrow> stays I (amap_err g m)" "stays I m \<Longrightarrow> stays I (atry m)"
  unfolding stays_def by (auto simp: wp_amap_err wp_atry elim!: wp_mono split: failure.splits)

lemma stays_cases [stays_intros]:
  "stays I m \<Longrightarrow> stays I n \<Longrightarrow> stays I (if b then m else n)"
  "stays I m \<Longrightarrow> (\<And>x. stays I (f x)) \<Longrightarrow> stays I (case o' of None \<Rightarrow> m | Some x \<Rightarrow> f x)"
  "(\<And>e. stays I (g e)) \<Longrightarrow> (\<And>x. stays I (h x)) \<Longrightarrow> stays I (case r of Inl e \<Rightarrow> g e | Inr x \<Rightarrow> h x)"
  "(\<And>a b. stays I (k a b)) \<Longrightarrow> stays I (case p of (a, b) \<Rightarrow> k a b)"
  by (simp_all split: option.splits sum.splits prod.splits)

lemma stays_afold [stays_intros]: "(\<And>x acc. stays I (f x acc)) \<Longrightarrow> stays I (afold f xs acc)"
  by (induction xs arbitrary: acc) (simp_all add: stays_intros)

lemma wp_stays:
  assumes "wp m Q E s" "stays I m" "I s"
  shows "wp m (\<lambda>x t. Q x t \<and> I t) (\<lambda>e t. E e t \<and> I t) s"
  using wp_conj [OF assms(1), of "\<lambda>_. I" "\<lambda>_. I"] assms(2,3) by (simp add: stays_def)

end
