(* ===== verification/Ark_Exit_Manager.thy ===== *)
theory Ark_Exit_Manager
  imports Ark_Action Ark_Vtxo
begin

text \<open>
  The transaction manager of unilateral exits (\<open>bark/src/exit/transaction_manager.rs\<close>) with the data of
  \<open>bark/src/exit/models\<close>. The manager owns one package per exit transaction: the transaction itself
  and the child that pays its fee. The packages are shared by reference; here they are a list, the
  index maps transaction ids to positions in it, and since no package is ever dropped no weak
  reference can be stale.

  The chain source, the on-chain wallet and the database are reached through the functions of the
  record \<open>exit_env\<close>. Each takes the world outside the wallet and returns it changed, so that answers
  may differ from call to call in any way. A hash map is a map or a set, and the order in which
  its keys are visited is a function of the environment. Blocks heights are \<open>u32\<close> and their
  arithmetic wraps around, as in a release build.
\<close>

section \<open>Data\<close>

text \<open>\<open>BlockRef\<close> and \<open>TxStatus\<close> of \<open>bitcoin-ext\<close>.\<close>

record BlockRef =
  br_height :: BlockHeight
  br_hash :: bytes

datatype TxStatus = TxConfirmed BlockRef | TxMempool | TxNotFound

fun confirmed_height :: "TxStatus \<Rightarrow> BlockHeight option" where
  "confirmed_height (TxConfirmed block) = Some (br_height block)"
| "confirmed_height _ = None"

fun confirmed_in :: "TxStatus \<Rightarrow> BlockRef option" where
  "confirmed_in (TxConfirmed block) = Some block"
| "confirmed_in _ = None"

definition DEEPLY_CONFIRMED :: BlockHeight where
  "DEEPLY_CONFIRMED = 100"

type_synonym FeeRate = nat

datatype ExitTxOrigin =
    OWallet "BlockRef option"
  | OMempool FeeRate Amount
  | OBlock BlockRef

fun origin_confirmed_in :: "ExitTxOrigin \<Rightarrow> BlockRef option" where
  "origin_confirmed_in (OWallet block) = block"
| "origin_confirmed_in (OMempool _ _) = None"
| "origin_confirmed_in (OBlock block) = Some block"

datatype ExitTxStatus =
    VerifyInputs
  | AwaitingInputConfirmation "Txid set"
  | NeedsSignedPackage
  | NeedsReplacementPackage FeeRate Amount
  | NeedsBroadcasting Txid ExitTxOrigin
  | BroadcastWithCpfp Txid ExitTxOrigin
  | Confirmed Txid BlockRef ExitTxOrigin

fun status_child_txid :: "ExitTxStatus \<Rightarrow> Txid option" where
  "status_child_txid (NeedsBroadcasting child_txid _) = Some child_txid"
| "status_child_txid (BroadcastWithCpfp child_txid _) = Some child_txid"
| "status_child_txid (Confirmed child_txid _ _) = Some child_txid"
| "status_child_txid _ = None"

fun status_confirmed_in :: "ExitTxStatus \<Rightarrow> BlockRef option" where
  "status_confirmed_in (Confirmed _ block _) = Some block"
| "status_confirmed_in _ = None"

record ExitTx =
  et_txid :: Txid
  et_status :: ExitTxStatus

record ExitStartState =
  st_tip_height :: BlockHeight

record ExitProcessingState =
  pr_tip_height :: BlockHeight
  pr_transactions :: "ExitTx list"

record ExitAwaitingDeltaState =
  aw_tip_height :: BlockHeight
  aw_confirmed_block :: BlockRef
  aw_claimable_height :: BlockHeight

record ExitClaimableState =
  cl_tip_height :: BlockHeight
  cl_claimable_since :: BlockRef
  cl_last_scanned_block :: "BlockRef option"

record ExitClaimInProgressState =
  cp_tip_height :: BlockHeight
  cp_claimable_since :: BlockRef
  cp_claim_txid :: Txid

record ExitClaimedState =
  cd_tip_height :: BlockHeight
  cd_txid :: Txid
  cd_block :: BlockRef

datatype ExitState =
    Start ExitStartState
  | Processing ExitProcessingState
  | AwaitingDelta ExitAwaitingDeltaState
  | Claimable ExitClaimableState
  | ClaimInProgress ExitClaimInProgressState
  | Claimed ExitClaimedState

text \<open>What the database keeps of an exit (\<open>bark/src/persist/models.rs\<close>).\<close>

record StoredExit =
  se_vtxo_id :: VtxoId
  se_state :: ExitState
  se_history :: "ExitState list"

text \<open>The errors; the message of an underlying error is a string.\<close>

datatype ExitError =
    AncestorRetrievalFailure Txid string
  | BlockRetrievalFailure BlockHeight string
  | ClaimMissingInputs
  | ClaimFeeExceedsOutput Amount Amount
  | ClaimSigningError string
  | CyclicExitTransactions VtxoId
  | DatabaseVtxoStoreFailure VtxoId string
  | DatabaseChildRetrievalFailure string
  | DustLimit Amount Amount
  | ExitPackageBroadcastFailure Txid string
  | ExitPackageFinalizeFailure string
  | ExitPackageStoreFailure Txid string
  | InsufficientConfirmedFunds Amount Amount
  | InsufficientFeeToStart Amount Amount FeeRate
  | InternalError string
  | InvalidExitTransactionStatus Txid ExitTxStatus string
  | InvalidLocalLocktime BlockHeight string
  | InvalidWalletState string
  | MissingAnchorOutput Txid
  | MissingExitTransaction Txid
  | MovementRegistrationFailure string
  | TipRetrievalFailure string
  | TransactionRetrievalFailure Txid string
  | VtxoNotClaimable VtxoId
  | VtxoScriptPubKeyInvalid string

record TransactionInfo =
  ti_txid :: Txid
  ti_tx :: Transaction

record ChildTransactionInfo =
  ch_info :: TransactionInfo
  ch_origin :: ExitTxOrigin

record ExitTransactionPackage =
  pk_exit :: TransactionInfo
  pk_child :: "ChildTransactionInfo option"

record ExitChildStatus =
  cs_txid :: Txid
  cs_status :: TxStatus
  cs_origin :: ExitTxOrigin

text \<open>\<open>CpfpError\<close> and \<open>MakeCpfpFees\<close> of \<open>bitcoin-ext\<close>.\<close>

datatype CpfpError =
    CpfpCreateError string
  | CpfpFinalizeError string
  | CpfpInsufficientConfirmedFunds Amount Amount
  | CpfpInternalError string
  | CpfpNoFeeAnchor Txid
  | CpfpSigningError string
  | CpfpStoreError string

datatype MakeCpfpFees = Effective FeeRate | Rbf FeeRate Amount

section \<open>The world outside\<close>

record 'w exit_env =
  \<comment> \<open>chain source\<close>
  chain_tip :: "'w \<Rightarrow> (string + BlockHeight) \<times> 'w"
  chain_block_ref :: "BlockHeight \<Rightarrow> 'w \<Rightarrow> (string + BlockRef) \<times> 'w"
  chain_tx_status :: "Txid \<Rightarrow> 'w \<Rightarrow> (string + TxStatus) \<times> 'w"
  chain_get_tx :: "Txid \<Rightarrow> 'w \<Rightarrow> (string + Transaction option) \<times> 'w"
  chain_spend_of :: "OutPoint \<Rightarrow> BlockHeight \<Rightarrow> 'w \<Rightarrow> (string + (Txid \<times> TxStatus) option) \<times> 'w"
  chain_broadcast_package :: "Transaction list \<Rightarrow> 'w \<Rightarrow> (string + unit) \<times> 'w"
  chain_ancestor_fee :: "Txid \<Rightarrow> 'w \<Rightarrow> (string + FeeRate option \<times> Amount) \<times> 'w"
  chain_fast_fee_rate :: "'w \<Rightarrow> FeeRate \<times> 'w"
  \<comment> \<open>on-chain wallet\<close>
  wallet_balance :: "'w \<Rightarrow> Amount \<times> 'w"
  wallet_make_cpfp :: "Transaction \<Rightarrow> MakeCpfpFees \<Rightarrow> 'w \<Rightarrow> (CpfpError + Transaction) \<times> 'w"
  wallet_store_cpfp :: "Transaction \<Rightarrow> 'w \<Rightarrow> (CpfpError + unit) \<times> 'w"
  wallet_spending_tx :: "OutPoint \<Rightarrow> 'w \<Rightarrow> Transaction option \<times> 'w"
  wallet_tx_block :: "Txid \<Rightarrow> 'w \<Rightarrow> (string + BlockRef option) \<times> 'w"
  \<comment> \<open>database\<close>
  db_wallet_vtxo :: "VtxoId \<Rightarrow> 'w \<Rightarrow> (string + Vtxo option) \<times> 'w"
  db_exit_child_tx :: "Txid \<Rightarrow> 'w \<Rightarrow> (string + (Transaction \<times> ExitTxOrigin) option) \<times> 'w"
  db_store_exit_vtxo_entry :: "StoredExit \<Rightarrow> 'w \<Rightarrow> (string + unit) \<times> 'w"
  db_store_exit_child_tx :: "Txid \<Rightarrow> Transaction \<Rightarrow> ExitTxOrigin \<Rightarrow> 'w \<Rightarrow> (string + unit) \<times> 'w"
  \<comment> \<open>fees of the crate \<open>bitcoin\<close>, formatting, order of hash tables\<close>
  fee_for_txs :: "FeeRate \<Rightarrow> Transaction list \<Rightarrow> Amount"
  show_txid :: "Txid \<Rightarrow> string"
  show_cpfp_error :: "CpfpError \<Rightarrow> string"
  hash_order :: "Txid set \<Rightarrow> Txid list"

text \<open>The elements of a set are visited, and a finite set is visited completely.\<close>

definition hash_order_ok :: "'w exit_env \<Rightarrow> bool" where
  "hash_order_ok env \<longleftrightarrow>
     (\<forall>A. set (hash_order env A) \<subseteq> A \<and> distinct (hash_order env A) \<and> (finite A \<longrightarrow> set (hash_order env A) = A))"

text \<open>
  \<open>ExitTransactionManager\<close> together with the world it acts in.
\<close>

record 'w exit_sys =
  sy_packages :: "ExitTransactionPackage list"
  sy_index :: "Txid \<rightharpoonup> nat"
  sy_status :: "Txid \<rightharpoonup> TxStatus"
  sy_world :: 'w

text \<open>
  A call to the outside with its \<open>map_err\<close>, and one that cannot fail.
\<close>

definition call :: "('w \<Rightarrow> ('x + 'a) \<times> 'w) \<Rightarrow> ('x \<Rightarrow> 'e) \<Rightarrow> ('w exit_sys, 'e, 'a) action" where
  "call f on_err = (\<lambda>s. case f (sy_world s) of
      (Inr x, w) \<Rightarrow> (Ok x, s\<lparr>sy_world := w\<rparr>)
    | (Inl m, w) \<Rightarrow> (err (on_err m), s\<lparr>sy_world := w\<rparr>))"

definition query :: "('w \<Rightarrow> 'a \<times> 'w) \<Rightarrow> ('w exit_sys, 'e, 'a) action" where
  "query f = (\<lambda>s. case f (sy_world s) of (x, w) \<Rightarrow> (Ok x, s\<lparr>sy_world := w\<rparr>))"

section \<open>The manager\<close>

type_synonym ('w, 'a) exit_action = "('w exit_sys, ExitError, 'a) action"

definition set_status :: "Txid \<Rightarrow> TxStatus \<Rightarrow> ('w exit_sys, 'e, unit) action" where
  "set_status txid status = amodify (\<lambda>s. s\<lparr>sy_status := (sy_status s)(txid \<mapsto> status)\<rparr>)"

definition set_index :: "Txid \<Rightarrow> nat \<Rightarrow> ('w exit_sys, 'e, unit) action" where
  "set_index txid p = amodify (\<lambda>s. s\<lparr>sy_index := (sy_index s)(txid \<mapsto> p)\<rparr>)"

definition set_child :: "nat \<Rightarrow> ChildTransactionInfo \<Rightarrow> ('w exit_sys, 'e, unit) action" where
  "set_child p child =
     amodify (\<lambda>s. s\<lparr>sy_packages := (sy_packages s)[p := (sy_packages s ! p)\<lparr>pk_child := Some child\<rparr>]\<rparr>)"

definition manager_tip :: "'w exit_env \<Rightarrow> ('w, BlockHeight) exit_action" where
  "manager_tip env = call (chain_tip env) TipRetrievalFailure"

definition get_tx_status :: "'w exit_env \<Rightarrow> Txid \<Rightarrow> ('w, TxStatus) exit_action" where
  "get_tx_status env txid = call (chain_tx_status env txid) (TransactionRetrievalFailure txid)"

text \<open>\<open>get_package\<close>: the position of the package; the second error of the code needs a dropped package.\<close>

definition get_package :: "'w exit_env \<Rightarrow> Txid \<Rightarrow> ('w, nat) exit_action" where
  "get_package env exit_txid =
     abind (aget (\<lambda>s. sy_index s exit_txid)) (\<lambda>p.
     case p of
       None \<Rightarrow> athrow (InternalError (''Attempt to get package for untracked exit tx: '' @ show_txid env exit_txid))
     | Some p \<Rightarrow>
         abind (aget (\<lambda>s. length (sy_packages s))) (\<lambda>n.
         if p < n then areturn p
         else athrow (InternalError (''Attempt to get package for stale exit tx: '' @ show_txid env exit_txid))))"

definition read_package :: "'w exit_env \<Rightarrow> Txid \<Rightarrow> ('w, ExitTransactionPackage) exit_action" where
  "read_package env exit_txid = abind (get_package env exit_txid) (\<lambda>p. aget (\<lambda>s. sy_packages s ! p))"

definition find_child_in_wallet ::
  "externals \<Rightarrow> 'w exit_env \<Rightarrow> TransactionInfo \<Rightarrow> ('w, ChildTransactionInfo option) exit_action" where
  "find_child_in_wallet X env exit_info =
     (case tx_fee_anchor X (ti_tx exit_info) of
        None \<Rightarrow> athrow (InternalError (''Exit tx '' @ show_txid env (ti_txid exit_info) @ '' has no P2A output''))
      | Some (outpoint, _) \<Rightarrow>
          abind (query (wallet_spending_tx env outpoint)) (\<lambda>child.
          case child of
            None \<Rightarrow> areturn None
          | Some child_tx \<Rightarrow>
              let child_txid = ext_txid X child_tx in
              abind (call (wallet_tx_block env child_txid) InvalidWalletState) (\<lambda>block.
              areturn (Some \<lparr>ch_info = \<lparr>ti_txid = child_txid, ti_tx = child_tx\<rparr>, ch_origin = OWallet block\<rparr>))))"

definition find_child_in_database ::
  "externals \<Rightarrow> 'w exit_env \<Rightarrow> TransactionInfo \<Rightarrow> ('w, ChildTransactionInfo option) exit_action" where
  "find_child_in_database X env exit_info =
     abind (call (db_exit_child_tx env (ti_txid exit_info)) DatabaseChildRetrievalFailure) (\<lambda>result.
     areturn (map_option (\<lambda>(tx, origin).
       \<lparr>ch_info = \<lparr>ti_txid = ext_txid X tx, ti_tx = tx\<rparr>, ch_origin = origin\<rparr>) result))"

definition find_child_locally ::
  "externals \<Rightarrow> 'w exit_env \<Rightarrow> TransactionInfo \<Rightarrow> ('w, ChildTransactionInfo option) exit_action" where
  "find_child_locally X env exit_info =
     abind (find_child_in_wallet X env exit_info) (\<lambda>wallet.
     if wallet \<noteq> None then areturn wallet else find_child_in_database X env exit_info)"

definition track_exit_tx :: "externals \<Rightarrow> 'w exit_env \<Rightarrow> Transaction \<Rightarrow> ('w, Txid) exit_action" where
  "track_exit_tx X env tx =
     (let txid = ext_txid X tx in
      abind (aget (\<lambda>s. sy_index s txid)) (\<lambda>known.
      if known \<noteq> None then areturn txid
      else
        let info = \<lparr>ti_txid = txid, ti_tx = tx\<rparr> in
        abind (find_child_locally X env info) (\<lambda>child.
        let (status, child_txid) =
              (case child of
                 None \<Rightarrow> (TxNotFound, None)
               | Some child \<Rightarrow>
                   (case origin_confirmed_in (ch_origin child) of
                      Some block \<Rightarrow> (TxConfirmed block, Some (ti_txid (ch_info child)))
                    | None \<Rightarrow> (TxMempool, Some (ti_txid (ch_info child)))))
        in
        abind (aget (\<lambda>s. length (sy_packages s))) (\<lambda>p.
        abind (set_index txid p) (\<lambda>_.
        abind (case child_txid of Some c \<Rightarrow> set_index c p | None \<Rightarrow> areturn ()) (\<lambda>_.
        abind (set_status txid status) (\<lambda>_.
        abind (amodify (\<lambda>s. s\<lparr>sy_packages := sy_packages s @ [\<lparr>pk_exit = info, pk_child = child\<rparr>]\<rparr>)) (\<lambda>_.
        areturn txid))))))))"

definition track_vtxo_exits :: "externals \<Rightarrow> 'w exit_env \<Rightarrow> Vtxo \<Rightarrow> ('w, Txid list) exit_action" where
  "track_vtxo_exits X env vtxo =
     abind (alift (vtxo_transactions X vtxo)) (\<lambda>exit_txs.
     afold (\<lambda>item txids. abind (track_exit_tx X env (ii_tx item)) (\<lambda>txid. areturn (txids @ [txid]))) exit_txs [])"

definition broadcast_package ::
  "'w exit_env \<Rightarrow> ExitTransactionPackage \<Rightarrow> ('w, TxStatus) exit_action" where
  "broadcast_package env package =
     (let txid = ti_txid (pk_exit package) in
      abind (aget (\<lambda>s. sy_status s txid)) (\<lambda>known.
      abind (if known = None then set_status txid TxNotFound else areturn ()) (\<lambda>_.
      abind (case pk_child package of
               None \<Rightarrow> areturn TxNotFound
             | Some child \<Rightarrow>
                 abind (call (chain_broadcast_package env [ti_tx (pk_exit package), ti_tx (ch_info child)])
                          (ExitPackageBroadcastFailure txid)) (\<lambda>_.
                 areturn TxMempool)) (\<lambda>status.
      abind (set_status txid status) (\<lambda>_.
      areturn status)))))"

text \<open>The origin of a child that was found on the network.\<close>

definition network_origin :: "'w exit_env \<Rightarrow> Txid \<Rightarrow> TxStatus \<Rightarrow> ('w, ExitTxOrigin) exit_action" where
  "network_origin env txid status =
     (case confirmed_in status of
        Some block \<Rightarrow> areturn (OBlock block)
      | None \<Rightarrow>
          abind (call (chain_ancestor_fee env txid) (AncestorRetrievalFailure txid)) (\<lambda>(fee_rate, total_fee).
          case fee_rate of
            None \<Rightarrow> athrow (AncestorRetrievalFailure txid (''unable to calculate fee rate for '' @ show_txid env txid))
          | Some fee_rate \<Rightarrow> areturn (OMempool fee_rate total_fee)))"

definition is_wallet_child :: "ChildTransactionInfo option \<Rightarrow> Txid \<Rightarrow> bool" where
  "is_wallet_child child txid =
     (case child of
        None \<Rightarrow> False
      | Some c \<Rightarrow> (case ch_origin c of OWallet _ \<Rightarrow> ti_txid (ch_info c) = txid | _ \<Rightarrow> False))"

definition download_child :: "'w exit_env \<Rightarrow> Txid \<Rightarrow> ('w, Transaction) exit_action" where
  "download_child env txid =
     abind (call (chain_get_tx env txid) (TransactionRetrievalFailure txid)) (\<lambda>tx.
     alift (expect tx ''Spending transaction should exist''))"

definition update_child_from_network ::
  "externals \<Rightarrow> 'w exit_env \<Rightarrow> nat \<Rightarrow> BlockHeight \<Rightarrow> ('w, TxStatus) exit_action" where
  "update_child_from_network X env p block_scan_start =
     abind (aget (\<lambda>s. sy_packages s ! p)) (\<lambda>package.
     case tx_fee_anchor X (ti_tx (pk_exit package)) of
       None \<Rightarrow> athrow (MissingAnchorOutput (ti_txid (pk_exit package)))
     | Some (outpoint, _) \<Rightarrow>
         abind (call (chain_spend_of env outpoint block_scan_start)
                  (TransactionRetrievalFailure (op_txid outpoint))) (\<lambda>spend.
         case spend of
           None \<Rightarrow> areturn TxNotFound
         | Some (txid, status) \<Rightarrow>
             if is_wallet_child (pk_child package) txid then
               abind (set_child p ((the (pk_child package))\<lparr>ch_origin := OWallet (confirmed_in status)\<rparr>)) (\<lambda>_.
               areturn status)
             else
               abind
                 (case pk_child package of
                    Some child \<Rightarrow>
                      if ti_txid (ch_info child) \<noteq> txid then download_child env txid
                      else areturn (ti_tx (ch_info child))
                  | None \<Rightarrow> download_child env txid) (\<lambda>tx.
               abind (network_origin env txid status) (\<lambda>origin.
               abind (atry (call (db_store_exit_child_tx env (op_txid outpoint) tx origin) InternalError)) (\<lambda>_.
               abind (set_child p \<lparr>ch_info = \<lparr>ti_txid = txid, ti_tx = tx\<rparr>, ch_origin = origin\<rparr>) (\<lambda>_.
               areturn status))))))"

text \<open>\<open>sync\<close>: one pass of the loop for each transaction whose status is known.\<close>

definition sync_tx ::
  "externals \<Rightarrow> 'w exit_env \<Rightarrow> BlockHeight \<Rightarrow> Txid \<Rightarrow> unit \<Rightarrow> ('w, unit) exit_action" where
  "sync_tx X env tip txid u =
     abind (aget (\<lambda>s. sy_status s txid)) (\<lambda>known.
     abind (alift (expect known ''called `Option::unwrap()` on a `None` value'')) (\<lambda>old.
     if (case old of TxConfirmed block \<Rightarrow> br_height block \<le> tip - DEEPLY_CONFIRMED | _ \<Rightarrow> False)
     then areturn ()
     else
       abind (aget (\<lambda>s. sy_index s txid)) (\<lambda>index.
       case index of
         None \<Rightarrow> abind (get_tx_status env txid) (\<lambda>status. set_status txid status)
       | Some p \<Rightarrow>
           abind (aget (\<lambda>s. nth_opt (sy_packages s) p)) (\<lambda>package.
           abind (alift (expect package ''index contains a stale package'')) (\<lambda>package.
           abind (get_tx_status env txid) (\<lambda>status.
           case status of
             TxNotFound \<Rightarrow>
               abind (atry (broadcast_package env package)) (\<lambda>r.
               case r of
                 Inr _ \<Rightarrow> areturn ()
               | Inl e \<Rightarrow> (case e of ExitPackageBroadcastFailure _ _ \<Rightarrow> areturn () | _ \<Rightarrow> athrow e))
           | _ \<Rightarrow>
               abind (update_child_from_network X env p
                        (case confirmed_height status of Some h \<Rightarrow> h | None \<Rightarrow> tip)) (\<lambda>status.
               set_status txid status)))))))"

definition manager_sync :: "externals \<Rightarrow> 'w exit_env \<Rightarrow> ('w, unit) exit_action" where
  "manager_sync X env =
     abind (manager_tip env) (\<lambda>tip.
     abind (aget (\<lambda>s. hash_order env (dom (sy_status s)))) (\<lambda>keys.
     afold (sync_tx X env tip) keys ()))"

definition get_child_status :: "'w exit_env \<Rightarrow> Txid \<Rightarrow> ('w, ExitChildStatus option) exit_action" where
  "get_child_status env exit_txid =
     abind (read_package env exit_txid) (\<lambda>package.
     case pk_child package of
       None \<Rightarrow> areturn None
     | Some child \<Rightarrow>
         abind (aget (\<lambda>s. sy_status s exit_txid)) (\<lambda>status.
         abind (alift (expect status ''status should be set'')) (\<lambda>status.
         areturn (Some \<lparr>cs_txid = ti_txid (ch_info child), cs_status = status, cs_origin = ch_origin child\<rparr>))))"

definition get_child_txid :: "'w exit_env \<Rightarrow> Txid \<Rightarrow> ('w, Txid option) exit_action" where
  "get_child_txid env exit_txid =
     abind (read_package env exit_txid) (\<lambda>package.
     areturn (map_option (\<lambda>child. ti_txid (ch_info child)) (pk_child package)))"

definition tx_status :: "'w exit_env \<Rightarrow> Txid \<Rightarrow> ('w, TxStatus) exit_action" where
  "tx_status env txid =
     abind (aget (\<lambda>s. sy_status s txid)) (\<lambda>known.
     case known of
       Some status \<Rightarrow> areturn status
     | None \<Rightarrow>
         abind (get_tx_status env txid) (\<lambda>status.
         abind (set_status txid status) (\<lambda>_.
         areturn status)))"

definition set_wallet_child_tx ::
  "externals \<Rightarrow> 'w exit_env \<Rightarrow> Txid \<Rightarrow> Transaction \<Rightarrow> ExitTxOrigin \<Rightarrow> ('w, Txid) exit_action" where
  "set_wallet_child_tx X env exit_txid child_tx origin =
     abind (get_package env exit_txid) (\<lambda>p.
     let child_txid = ext_txid X child_tx in
     abind (set_child p \<lparr>ch_info = \<lparr>ti_txid = child_txid, ti_tx = child_tx\<rparr>, ch_origin = origin\<rparr>) (\<lambda>_.
     abind (set_index child_txid p) (\<lambda>_.
     abind (set_status exit_txid TxNotFound) (\<lambda>_.
     areturn child_txid))))"

section \<open>Invariant\<close>

text \<open>
  The index points to packages only, and every package is in the index and has a status. The exit
  transactions \<open>xs\<close> of the packages are never changed, and a status, once known (\<open>K\<close>), is never removed.
\<close>

definition manager_inv :: "Txid set \<Rightarrow> TransactionInfo list \<Rightarrow> 'w exit_sys \<Rightarrow> bool" where
  "manager_inv K xs s \<longleftrightarrow>
     map pk_exit (sy_packages s) = xs \<and> K \<subseteq> dom (sy_status s) \<and>
     (\<forall>t p. sy_index s t = Some p \<longrightarrow> p < length (sy_packages s)) \<and>
     (\<forall>x \<in> set xs. sy_index s (ti_txid x) \<noteq> None \<and> sy_status s (ti_txid x) \<noteq> None)"

lemma wp_call:
  "wp (call f g) Q E s = (case f (sy_world s) of
     (Inr x, w) \<Rightarrow> Q x (s\<lparr>sy_world := w\<rparr>) | (Inl m, w) \<Rightarrow> E (Err (g m)) (s\<lparr>sy_world := w\<rparr>))"
  by (auto simp: wp_def call_def split: prod.splits sum.splits)

lemma wp_callI:
  assumes "\<And>x w. Q x (s\<lparr>sy_world := w\<rparr>)" "\<And>m w. E (Err (g m)) (s\<lparr>sy_world := w\<rparr>)"
  shows "wp (call f g) Q E s"
  using assms by (auto simp: wp_call split: prod.splits sum.splits)

lemma wp_query: "wp (query f) Q E s = (case f (sy_world s) of (x, w) \<Rightarrow> Q x (s\<lparr>sy_world := w\<rparr>))"
  by (auto simp: wp_def query_def split: prod.splits)

lemma wp_queryI: "(\<And>x w. Q x (s\<lparr>sy_world := w\<rparr>)) \<Longrightarrow> wp (query f) Q E s"
  by (auto simp: wp_query split: prod.splits)

lemma manager_inv_length: "manager_inv K xs s \<Longrightarrow> length (sy_packages s) = length xs"
  by (metis manager_inv_def length_map)

lemma manager_inv_world [simp]: "manager_inv K xs (s\<lparr>sy_world := w\<rparr>) = manager_inv K xs s"
  by (simp add: manager_inv_def)

lemma keeps_world [keeps_intros]:
  "keeps (manager_inv K xs) (call f g)" "keeps (manager_inv K xs) (query h)"
  by (auto intro!: keepsI wp_callI wp_queryI)

lemma keeps_set_status [keeps_intros]: "keeps (manager_inv K xs) (set_status t st)"
  by (rule keepsI) (auto simp: set_status_def wp_simps manager_inv_def)

lemma map_exit_set_child:
  "p < length ps \<Longrightarrow> map pk_exit (ps[p := (ps ! p)\<lparr>pk_child := c\<rparr>]) = map pk_exit ps"
  using list_update_id [of "map pk_exit ps" p] by (simp add: map_update)

lemma wp_get_package:
  assumes "manager_inv K xs s"
  shows "wp (get_package env t) (\<lambda>p s'. s' = s \<and> sy_index s t = Some p \<and> p < length (sy_packages s))
    (\<lambda>e s'. not_panic e \<and> s' = s) s"
  using assms by (auto simp: get_package_def wp_simps manager_inv_def split: option.splits)

lemma keeps_get_package [keeps_intros]:
  "keeps (manager_inv K xs) (get_package env t)" "keeps (manager_inv K xs) (read_package env t)"
proof -
  show "keeps (manager_inv K xs) (get_package env t)"
    by (rule keepsI) (rule wp_mono [OF wp_get_package], auto)
  then show "keeps (manager_inv K xs) (read_package env t)"
    unfolding read_package_def by (intro keeps_intros)
qed

lemma keeps_manager [keeps_intros]:
  "keeps (manager_inv K xs) (get_tx_status env t)"
  "keeps (manager_inv K xs) (manager_tip env)"
  "keeps (manager_inv K xs) (tx_status env t)"
  "keeps (manager_inv K xs) (get_child_txid env t)"
  "keeps (manager_inv K xs) (broadcast_package env pkg)"
  "keeps (manager_inv K xs) (network_origin env t st)"
  unfolding get_tx_status_def manager_tip_def tx_status_def get_child_txid_def broadcast_package_def
    network_origin_def Let_def
  by (intro keeps_intros)+

lemma wp_read_package:
  assumes "manager_inv K xs s"
  shows "wp (read_package env t) (\<lambda>pkg s'. s' = s \<and> (\<exists>p. sy_index s t = Some p \<and> p < length (sy_packages s) \<and> pkg = sy_packages s ! p))
    (\<lambda>e s'. not_panic e \<and> s' = s) s"
  unfolding read_package_def wp_abind by (rule wp_mono [OF wp_get_package [OF assms]]) (auto simp: wp_simps)

lemma keeps_get_child_status [keeps_intros]:
  assumes "t \<in> ti_txid ` set xs"
  shows "keeps (manager_inv K xs) (get_child_status env t)"
proof (rule keepsI)
  fix s :: "'a exit_sys"
  assume inv: "manager_inv K xs s"
  then have "sy_status s t \<noteq> None" using assms by (auto simp: manager_inv_def)
  then show "wp (get_child_status env t) (\<lambda>_. manager_inv K xs) (\<lambda>e t. not_panic e \<and> manager_inv K xs t) s"
    unfolding get_child_status_def wp_abind
    by (intro wp_mono [OF wp_read_package [OF inv]]) (auto simp: wp_simps inv split: option.splits)
qed

lemma manager_inv_set_child:
  "manager_inv K xs s \<Longrightarrow> p < length (sy_packages s) \<Longrightarrow>
   manager_inv K xs (s\<lparr>sy_packages := (sy_packages s)[p := (sy_packages s ! p)\<lparr>pk_child := c\<rparr>]\<rparr>)"
  by (simp add: manager_inv_def map_exit_set_child)

lemma keeps_set_wallet_child_tx [keeps_intros]:
  "keeps (manager_inv K xs) (set_wallet_child_tx X env t tx origin)"
proof (rule keepsI)
  fix s :: "'a exit_sys"
  assume inv: "manager_inv K xs s"
  show "wp (set_wallet_child_tx X env t tx origin) (\<lambda>_. manager_inv K xs) (\<lambda>e t. not_panic e \<and> manager_inv K xs t) s"
    unfolding set_wallet_child_tx_def wp_abind
  proof (rule wp_mono [OF wp_get_package [OF inv]])
    fix p s'
    assume p: "s' = s \<and> sy_index s t = Some p \<and> p < length (sy_packages s)"
    let ?c = "\<lparr>ch_info = \<lparr>ti_txid = ext_txid X tx, ti_tx = tx\<rparr>, ch_origin = origin\<rparr>"
    from manager_inv_set_child [OF inv, of p "Some ?c"] p
    show "wp (let child_txid = ext_txid X tx in
        abind (set_child p \<lparr>ch_info = \<lparr>ti_txid = child_txid, ti_tx = tx\<rparr>, ch_origin = origin\<rparr>) (\<lambda>_.
        abind (set_index child_txid p) (\<lambda>_. abind (set_status t TxNotFound) (\<lambda>_. areturn child_txid))))
      (\<lambda>_. manager_inv K xs) (\<lambda>e t. not_panic e \<and> manager_inv K xs t) s'"
      by (auto simp: Let_def wp_simps set_child_def set_index_def set_status_def manager_inv_def)
  qed (use inv in auto)
qed

text \<open>
  What \<open>txs_spending_inputs\<close> reports as spent is in the mempool or in a block and can be downloaded.
\<close>

definition spends_found :: "'w exit_env \<Rightarrow> bool" where
  "spends_found env \<longleftrightarrow>
     (\<forall>point h w t w'. chain_spend_of env point h w \<noteq> (Inr (Some (t, TxNotFound)), w')) \<and>
     (\<forall>t w w'. chain_get_tx env t w \<noteq> (Inr None, w'))"

lemma keeps_download_child [keeps_intros]: "spends_found env \<Longrightarrow> keeps (manager_inv K xs) (download_child env t)"
proof (rule keepsI)
  fix s :: "'a exit_sys"
  assume env: "spends_found env" and inv: "manager_inv K xs s"
  obtain r w where get: "chain_get_tx env t (sy_world s) = (r, w)" by fastforce
  with env have "r \<noteq> Inr None" by (auto simp: spends_found_def)
  with get inv show "wp (download_child env t) (\<lambda>_. manager_inv K xs) (\<lambda>e t. not_panic e \<and> manager_inv K xs t) s"
    by (cases r) (auto simp: download_child_def wp_abind wp_alift wp_call)
qed

lemma keeps_update_child:
  assumes "spends_found env" "manager_inv K xs s" "p < length (sy_packages s)"
  shows "wp (update_child_from_network X env p h) (\<lambda>_. manager_inv K xs) (\<lambda>e t. not_panic e \<and> manager_inv K xs t) s"
proof -
  have child: "wp (abind (set_child p c) (\<lambda>_. areturn st)) (\<lambda>_. manager_inv K xs) E t"
    if "manager_inv K xs t" for c and st :: TxStatus and E :: "ExitError failure \<Rightarrow> 'a exit_sys \<Rightarrow> bool" and t
  proof -
    have "length (sy_packages t) = length xs" "length (sy_packages s) = length xs"
      using that assms(2) by (simp_all add: manager_inv_length)
    then show ?thesis
      using manager_inv_set_child [OF that, of p "Some c"] assms(3) by (simp add: wp_simps set_child_def)
  qed
  then have child': "keeps (manager_inv K xs) (abind (set_child p c) (\<lambda>_. areturn st) :: ('a, TxStatus) exit_action)" for c st
    by (intro keepsI)
  have "keeps (manager_inv K xs) (update_child_from_network X env p h)"
    unfolding update_child_from_network_def using assms(1) by (intro keeps_intros child')
  from keepsD [OF this assms(2)] show ?thesis .
qed

lemma keeps_sync_tx:
  assumes "spends_found env" "t \<in> K"
  shows "keeps (manager_inv K xs) (sync_tx X env tip t u)"
proof (rule keepsI)
  fix s :: "'a exit_sys"
  assume inv: "manager_inv K xs s"
  then obtain old where old: "sy_status s t = Some old" using assms(2) by (auto simp: manager_inv_def)
  let ?E = "\<lambda>e t. not_panic e \<and> manager_inv K xs t"
  have tracked: "wp (abind (get_tx_status env t) (\<lambda>status. case status of
        TxNotFound \<Rightarrow> abind (atry (broadcast_package env (sy_packages s ! p))) (\<lambda>r. case r of
            Inr _ \<Rightarrow> areturn () | Inl e \<Rightarrow> (case e of ExitPackageBroadcastFailure _ _ \<Rightarrow> areturn () | _ \<Rightarrow> athrow e))
      | _ \<Rightarrow> abind (update_child_from_network X env p (case confirmed_height status of Some h \<Rightarrow> h | None \<Rightarrow> tip))
               (\<lambda>status. set_status t status)))
      (\<lambda>_. manager_inv K xs) ?E s" if "p < length (sy_packages s)" for p
  proof (rule keepsD [where I = "manager_inv K xs", OF _ inv], rule keeps_abind)
    have "keeps (manager_inv K xs) (update_child_from_network X env p h)" for h
    proof (rule keepsI)
      fix s' :: "'a exit_sys"
      assume inv': "manager_inv K xs s'"
      then have "length (sy_packages s') = length (sy_packages s)"
        using inv by (simp add: manager_inv_length)
      then show "wp (update_child_from_network X env p h) (\<lambda>_. manager_inv K xs) ?E s'"
        using keeps_update_child [OF assms(1) inv'] that by simp
    qed
    then show "keeps (manager_inv K xs) (case status of
        TxNotFound \<Rightarrow> abind (atry (broadcast_package env (sy_packages s ! p))) (\<lambda>r. case r of
            Inr _ \<Rightarrow> areturn () | Inl e \<Rightarrow> (case e of ExitPackageBroadcastFailure _ _ \<Rightarrow> areturn () | _ \<Rightarrow> athrow e))
      | _ \<Rightarrow> abind (update_child_from_network X env p (case confirmed_height status of Some h \<Rightarrow> h | None \<Rightarrow> tip))
               (\<lambda>status. set_status t status))" for status
      by (cases status) (auto intro!: keeps_intros split: ExitError.splits)
  qed (intro keeps_intros)
  have untracked: "wp (abind (get_tx_status env t) (\<lambda>status. set_status t status)) (\<lambda>_. manager_inv K xs) ?E s"
    by (rule keepsD [where I = "manager_inv K xs", OF _ inv]) (intro keeps_intros)
  have "p < length (sy_packages s)" if "sy_index s t = Some p" for p using inv that by (auto simp: manager_inv_def)
  then show "wp (sync_tx X env tip t u) (\<lambda>_. manager_inv K xs) ?E s"
    using tracked untracked inv
    by (auto simp: sync_tx_def wp_basic wp_abind wp_alift wp_cases old nth_opt_def split: option.splits)
qed

lemma keeps_sync:
  assumes "spends_found env" "hash_order_ok env"
  shows "keeps (manager_inv K xs) (manager_sync X env)"
proof (rule keepsI)
  fix s :: "'a exit_sys"
  assume inv: "manager_inv K xs s"
  let ?K = "dom (sy_status s)"
  have K: "manager_inv ?K xs s" and sub: "K \<subseteq> ?K" using inv by (auto simp: manager_inv_def)
  have keys: "set (hash_order env ?K) \<subseteq> ?K" using assms(2) by (simp add: hash_order_ok_def)
  have "wp (afold (sync_tx X env tip) (hash_order env ?K) ()) (\<lambda>_. manager_inv ?K xs)
      (\<lambda>e t. not_panic e \<and> manager_inv ?K xs t) (s\<lparr>sy_world := w\<rparr>)" for tip w
  proof (rule wp_afold)
    fix t u and s' :: "'a exit_sys"
    assume "t \<in> set (hash_order env ?K)" "manager_inv ?K xs s'"
    then show "wp (sync_tx X env tip t u) (\<lambda>_. manager_inv ?K xs) (\<lambda>e t. not_panic e \<and> manager_inv ?K xs t) s'"
      using keys by (intro keepsD [OF keeps_sync_tx [OF assms(1)]]) auto
  qed (use K in simp)
  then have "wp (manager_sync X env) (\<lambda>_. manager_inv ?K xs) (\<lambda>e t. not_panic e \<and> manager_inv ?K xs t) s"
    using K by (auto simp: manager_sync_def manager_tip_def wp_abind wp_basic wp_call split: prod.splits sum.splits)
  then show "wp (manager_sync X env) (\<lambda>_. manager_inv K xs) (\<lambda>e t. not_panic e \<and> manager_inv K xs t) s"
    by (rule wp_mono) (use sub in \<open>auto simp: manager_inv_def\<close>)
qed

text \<open>
  A reorganisation that removes a confirmed exit transaction goes unnoticed while the node rejects the
  package: the pass over it leaves the recorded confirmation as it was.
\<close>

theorem sync_keeps_stale_confirmation:
  assumes "sy_status s txid = Some (TxConfirmed block)" "\<not> br_height block \<le> tip - DEEPLY_CONFIRMED"
    and "sy_index s txid = Some p" "nth_opt (sy_packages s) p = Some package" "ti_txid (pk_exit package) = txid"
    and "pk_child package = Some child"
    and "chain_tx_status env txid (sy_world s) = (Inr TxNotFound, w)"
    and "chain_broadcast_package env [ti_tx (pk_exit package), ti_tx (ch_info child)] w = (Inl e, w')"
  shows "sync_tx X env tip txid () s = (Ok (), s\<lparr>sy_world := w'\<rparr>)"
  using assms
  by (simp add: sync_tx_def broadcast_package_def get_tx_status_def call_def abind_def aget_def alift_def
      areturn_def atry_def Let_def)

end
