(* ===== verification/Ark_Exit.thy ===== *)
theory Ark_Exit
  imports Ark_Exit_Manager
begin

text \<open>
  The state machine of a unilateral exit (\<open>bark/src/exit/progress\<close>, \<open>bark/src/exit/vtxo.rs\<close> and
  \<open>bark/src/exit/models/mod.rs\<close>): each state's \<open>progress\<close> and the driver that repeats it, keeps the
  history and stores it. Log output is not modelled.
\<close>

section \<open>States\<close>

definition new_start :: "BlockHeight \<Rightarrow> ExitState" where
  "new_start tip = Start \<lparr>st_tip_height = tip\<rparr>"

definition new_processing :: "BlockHeight \<Rightarrow> Txid list \<Rightarrow> ExitState" where
  "new_processing tip txids =
     Processing \<lparr>pr_tip_height = tip,
       pr_transactions = map (\<lambda>id. \<lparr>et_txid = id, et_status = VerifyInputs\<rparr>) txids\<rparr>"

definition new_processing_from_transactions :: "BlockHeight \<Rightarrow> ExitTx list \<Rightarrow> ExitState" where
  "new_processing_from_transactions tip transactions =
     Processing \<lparr>pr_tip_height = tip, pr_transactions = transactions\<rparr>"

definition new_awaiting_delta :: "BlockHeight \<Rightarrow> BlockRef \<Rightarrow> BlockDelta \<Rightarrow> ExitState" where
  "new_awaiting_delta tip confirmed_block wait_delta =
     AwaitingDelta \<lparr>aw_tip_height = tip, aw_confirmed_block = confirmed_block,
       aw_claimable_height = br_height confirmed_block + ucast wait_delta\<rparr>"

definition new_claimable :: "BlockHeight \<Rightarrow> BlockRef \<Rightarrow> BlockRef option \<Rightarrow> ExitState" where
  "new_claimable tip claimable_since last_scanned_block =
     Claimable \<lparr>cl_tip_height = tip, cl_claimable_since = claimable_since,
       cl_last_scanned_block = last_scanned_block\<rparr>"

definition new_claim_in_progress :: "BlockHeight \<Rightarrow> BlockRef \<Rightarrow> Txid \<Rightarrow> ExitState" where
  "new_claim_in_progress tip claimable_since claim_txid =
     ClaimInProgress \<lparr>cp_tip_height = tip, cp_claimable_since = claimable_since, cp_claim_txid = claim_txid\<rparr>"

definition new_claimed :: "BlockHeight \<Rightarrow> Txid \<Rightarrow> BlockRef \<Rightarrow> ExitState" where
  "new_claimed tip txid block = Claimed \<lparr>cd_tip_height = tip, cd_txid = txid, cd_block = block\<rparr>"

fun is_pending :: "ExitState \<Rightarrow> bool" where
  "is_pending (Start _) = True"
| "is_pending (Processing _) = True"
| "is_pending (AwaitingDelta _) = True"
| "is_pending _ = False"

fun requires_confirmations :: "ExitState \<Rightarrow> bool" where
  "requires_confirmations (Processing s) =
     list_ex (\<lambda>t. case et_status t of
         AwaitingInputConfirmation _ \<Rightarrow> True | BroadcastWithCpfp _ _ \<Rightarrow> True | _ \<Rightarrow> False) (pr_transactions s)"
| "requires_confirmations (AwaitingDelta _) = True"
| "requires_confirmations (ClaimInProgress _) = True"
| "requires_confirmations _ = False"

fun requires_network_update :: "ExitState \<Rightarrow> bool" where
  "requires_network_update (Processing s) =
     list_all (\<lambda>t. case et_status t of
         BroadcastWithCpfp _ _ \<Rightarrow> True | Confirmed _ _ _ \<Rightarrow> True | _ \<Rightarrow> False) (pr_transactions s)"
| "requires_network_update (AwaitingDelta _) = True"
| "requires_network_update (Claimable _) = True"
| "requires_network_update (ClaimInProgress _) = True"
| "requires_network_update _ = False"

fun claimable_height :: "ExitState \<Rightarrow> BlockHeight option" where
  "claimable_height (AwaitingDelta s) = Some (aw_claimable_height s)"
| "claimable_height (Claimable s) = Some (br_height (cl_claimable_since s))"
| "claimable_height (ClaimInProgress s) = Some (br_height (cp_claimable_since s))"
| "claimable_height _ = None"

section \<open>Helpers of the progress\<close>

definition count_confirmed :: "ExitTx list \<Rightarrow> nat" where
  "count_confirmed txs =
     length (filter (\<lambda>t. case et_status t of Confirmed _ _ _ \<Rightarrow> True | _ \<Rightarrow> False) txs)"

text \<open>
  \<open>estimate_exit_cost\<close> for one VTXO: the transactions are collected by their id, and the fee rate is
  multiplied with their total weight and two (the environment's \<open>fee_for_txs\<close>).
\<close>

definition insert_tx :: "externals \<Rightarrow> Transaction \<Rightarrow> Transaction list \<Rightarrow> Transaction list" where
  "insert_tx X tx txs = filter (\<lambda>t. ext_txid X t \<noteq> ext_txid X tx) txs @ [tx]"

definition estimate_exit_cost ::
  "externals \<Rightarrow> 'w exit_env \<Rightarrow> Vtxo \<Rightarrow> FeeRate \<Rightarrow> ('w exit_sys, 'e, Amount) action" where
  "estimate_exit_cost X env vtxo fee_rate =
     abind (alift (vtxo_transactions X vtxo)) (\<lambda>items.
     areturn (fee_for_txs env fee_rate (fold (\<lambda>item. insert_tx X (ii_tx item)) items []) * 2))"

datatype ProgressStep = Continue | Done

fun tx_continues :: "ExitTxStatus \<Rightarrow> bool" where
  "tx_continues VerifyInputs = True"
| "tx_continues (AwaitingInputConfirmation _) = False"
| "tx_continues NeedsSignedPackage = True"
| "tx_continues (NeedsReplacementPackage _ _) = True"
| "tx_continues (NeedsBroadcasting _ _) = True"
| "tx_continues (BroadcastWithCpfp _ _) = False"
| "tx_continues (Confirmed _ _ _) = False"

fun from_exit_state :: "ExitState \<Rightarrow> ProgressStep" where
  "from_exit_state (Start _) = Continue"
| "from_exit_state (Processing s) =
     (if list_ex (\<lambda>t. tx_continues (et_status t)) (pr_transactions s) then Continue else Done)"
| "from_exit_state (AwaitingDelta _) = Done"
| "from_exit_state (Claimable _) = Done"
| "from_exit_state (ClaimInProgress _) = Done"
| "from_exit_state (Claimed _) = Done"

record ExitProgressError =
  pe_state :: "ExitState option"
  pe_error :: ExitError

definition from_exit_error :: "ExitError \<Rightarrow> ExitProgressError" where
  "from_exit_error e = \<lparr>pe_state = None, pe_error = e\<rparr>"

record ProgressContext =
  pc_vtxo :: Vtxo
  pc_exit_txids :: "Txid list"
  pc_fee_rate :: FeeRate

section \<open>The context\<close>

text \<open>A failing status request counts as not confirmed.\<close>

definition check_confirmed :: "'w exit_env \<Rightarrow> Txid \<Rightarrow> ('w, bool) exit_action" where
  "check_confirmed env txid =
     abind (atry (tx_status env txid)) (\<lambda>r.
     areturn (case r of Inr (TxConfirmed _) \<Rightarrow> True | _ \<Rightarrow> False))"

definition check_status_from_inputs ::
  "'w exit_env \<Rightarrow> Txid set \<Rightarrow> ('w, ExitTxStatus) exit_action" where
  "check_status_from_inputs env inputs =
     abind (afold (\<lambda>txid txids. abind (check_confirmed env txid) (\<lambda>confirmed.
              areturn (if confirmed then txids else insert txid txids))) (hash_order env inputs) {}) (\<lambda>txids.
     areturn (if txids = {} then NeedsSignedPackage else AwaitingInputConfirmation txids))"

definition create_exit_cpfp_tx ::
  "'w exit_env \<Rightarrow> ProgressContext \<Rightarrow> Transaction \<Rightarrow> (FeeRate \<times> Amount) option \<Rightarrow> ('w, Transaction) exit_action" where
  "create_exit_cpfp_tx env ctx exit_tx min_rbf_fees =
     (let fees = (case min_rbf_fees of
            Some (min_fee_rate, min_fee) \<Rightarrow>
              Rbf (if min_fee_rate < pc_fee_rate ctx then pc_fee_rate ctx else min_fee_rate) min_fee
          | None \<Rightarrow> Effective (pc_fee_rate ctx))
      in call (wallet_make_cpfp env exit_tx fees) (\<lambda>e. case e of
           CpfpNoFeeAnchor _ \<Rightarrow> InternalError (show_cpfp_error env e)
         | CpfpInsufficientConfirmedFunds needed available \<Rightarrow> InsufficientConfirmedFunds needed available
         | _ \<Rightarrow> ExitPackageFinalizeFailure (show_cpfp_error env e)))"

definition get_block_ref :: "'w exit_env \<Rightarrow> BlockHeight \<Rightarrow> ('w, BlockRef) exit_action" where
  "get_block_ref env height = call (chain_block_ref env height) (BlockRetrievalFailure height)"

definition get_exit_tx_status :: "'w exit_env \<Rightarrow> ProgressContext \<Rightarrow> ExitTx \<Rightarrow> ('w, ExitTxStatus) exit_action" where
  "get_exit_tx_status env ctx exit =
     abind (get_child_status env (et_txid exit)) (\<lambda>child.
     case child of
       None \<Rightarrow> areturn NeedsSignedPackage
     | Some child \<Rightarrow>
         (case cs_status child of
            TxNotFound \<Rightarrow> areturn (NeedsBroadcasting (cs_txid child) (cs_origin child))
          | TxMempool \<Rightarrow>
              (case cs_origin child of
                 OWallet _ \<Rightarrow> areturn (BroadcastWithCpfp (cs_txid child) (cs_origin child))
               | OMempool fee_rate total_fee \<Rightarrow>
                   if fee_rate < pc_fee_rate ctx then areturn (NeedsReplacementPackage fee_rate total_fee)
                   else areturn (BroadcastWithCpfp (cs_txid child) (cs_origin child))
               | OBlock _ \<Rightarrow> athrow (InternalError ''TxStatus was Mempool when origin is Block, this should never happen''))
          | TxConfirmed b \<Rightarrow> areturn (Confirmed (cs_txid child) b (cs_origin child))))"

definition get_exit_child_status :: "'w exit_env \<Rightarrow> ProgressContext \<Rightarrow> ExitTx \<Rightarrow> ('w, ExitTxStatus) exit_action" where
  "get_exit_child_status env ctx exit =
     abind (get_child_txid env (et_txid exit)) (\<lambda>current_child_txid.
     if current_child_txid \<noteq> None then get_exit_tx_status env ctx exit
     else areturn NeedsSignedPackage)"

definition get_unique_inputs :: "'w exit_env \<Rightarrow> Txid \<Rightarrow> ('w, Txid set) exit_action" where
  "get_unique_inputs env exit_txid =
     abind (read_package env exit_txid) (\<lambda>package.
     areturn (set (map (\<lambda>i. op_txid (previous_output i)) (tx_input (ti_tx (pk_exit package))))))"

definition tip_height :: "'w exit_env \<Rightarrow> ('w, BlockHeight) exit_action" where
  "tip_height env = call (chain_tip env) TipRetrievalFailure"

section \<open>One exit transaction\<close>

text \<open>\<open>progress_exit_tx\<close>, the step from each status.\<close>

definition create_package ::
  "externals \<Rightarrow> 'w exit_env \<Rightarrow> ProgressContext \<Rightarrow> ExitTx \<Rightarrow> ('w, ExitTxStatus) exit_action" where
  "create_package X env ctx exit =
     abind (get_exit_tx_status env ctx exit) (\<lambda>new_status.
     if new_status = NeedsSignedPackage then
       abind (read_package env (et_txid exit)) (\<lambda>package.
       if pk_child package \<noteq> None then apanic ''assertion left == right failed''
       else
         abind (create_exit_cpfp_tx env ctx (ti_tx (pk_exit package)) None) (\<lambda>child_tx.
         let origin = OWallet None in
         abind (set_wallet_child_tx X env (et_txid exit) child_tx origin) (\<lambda>child_txid.
         areturn (NeedsBroadcasting child_txid origin))))
     else areturn new_status)"

definition replace_package ::
  "externals \<Rightarrow> 'w exit_env \<Rightarrow> ProgressContext \<Rightarrow> ExitTx \<Rightarrow> ('w, ExitTxStatus) exit_action" where
  "replace_package X env ctx exit =
     abind (get_exit_tx_status env ctx exit) (\<lambda>new_status.
     case new_status of
       NeedsReplacementPackage min_fee_rate min_fee \<Rightarrow>
         abind (read_package env (et_txid exit)) (\<lambda>package.
         abind (create_exit_cpfp_tx env ctx (ti_tx (pk_exit package)) (Some (min_fee_rate, min_fee))) (\<lambda>child_tx.
         let origin = OWallet None in
         abind (set_wallet_child_tx X env (et_txid exit) child_tx origin) (\<lambda>child_txid.
         areturn (NeedsBroadcasting child_txid origin))))
     | s \<Rightarrow> areturn s)"

definition broadcast_exit ::
  "'w exit_env \<Rightarrow> ProgressContext \<Rightarrow> ExitTx \<Rightarrow> ('w, ExitTxStatus) exit_action" where
  "broadcast_exit env ctx exit =
     abind (get_exit_child_status env ctx exit) (\<lambda>status.
     case status of
       NeedsBroadcasting new_child_txid _ \<Rightarrow>
         abind (read_package env (et_txid exit)) (\<lambda>package.
         abind (broadcast_package env package) (\<lambda>tx_status.
         abind
           (if tx_status = TxMempool then
              abind (alift (expect (pk_child package) ''child can't be missing'')) (\<lambda>child.
              call (wallet_store_cpfp env (ti_tx (ch_info child)))
                (\<lambda>e. ExitPackageStoreFailure (et_txid exit) (show_cpfp_error env e)))
            else areturn ()) (\<lambda>_.
         get_exit_child_status env ctx exit)))
     | _ \<Rightarrow> areturn status)"

fun progress_exit_tx ::
  "externals \<Rightarrow> 'w exit_env \<Rightarrow> ProgressContext \<Rightarrow> ExitTx \<Rightarrow> ('w, ExitTxStatus) exit_action" where
  "progress_exit_tx X env ctx exit =
     (case et_status exit of
        VerifyInputs \<Rightarrow>
          abind (get_unique_inputs env (et_txid exit)) (\<lambda>inputs. check_status_from_inputs env inputs)
      | AwaitingInputConfirmation txids \<Rightarrow> check_status_from_inputs env txids
      | NeedsSignedPackage \<Rightarrow> create_package X env ctx exit
      | NeedsReplacementPackage _ _ \<Rightarrow> replace_package X env ctx exit
      | NeedsBroadcasting _ _ \<Rightarrow> broadcast_exit env ctx exit
      | BroadcastWithCpfp _ _ \<Rightarrow> get_exit_child_status env ctx exit
      | Confirmed _ _ _ \<Rightarrow> get_exit_child_status env ctx exit)"

section \<open>The progress of each state\<close>

type_synonym 'w progress = "('w exit_sys, ExitProgressError, ExitState) action"

definition progress_start ::
  "externals \<Rightarrow> 'w exit_env \<Rightarrow> ProgressContext \<Rightarrow> ExitStartState \<Rightarrow> 'w progress" where
  "progress_start X env ctx st =
     (if v_amount (pc_vtxo ctx) < P2TR_DUST
      then athrow (from_exit_error (DustLimit (v_amount (pc_vtxo ctx)) P2TR_DUST))
      else
        abind (estimate_exit_cost X env (pc_vtxo ctx) (pc_fee_rate ctx)) (\<lambda>total_fee.
        abind (query (wallet_balance env)) (\<lambda>balance.
        if balance < total_fee
        then athrow (from_exit_error (InsufficientFeeToStart balance total_fee (pc_fee_rate ctx)))
        else
          abind (query (chain_tip env)) (\<lambda>tip.
          areturn (new_processing (case tip of Inr t \<Rightarrow> t | Inl _ \<Rightarrow> st_tip_height st) (pc_exit_txids ctx))))))"

text \<open>
  The loop over the transactions: their statuses after it, and the error that stopped it.
\<close>

fun progress_txs ::
  "externals \<Rightarrow> 'w exit_env \<Rightarrow> ProgressContext \<Rightarrow> ExitTx list \<Rightarrow>
   ('w exit_sys, ExitProgressError, ExitTx list \<times> ExitError option) action" where
  "progress_txs X env ctx [] = areturn ([], None)"
| "progress_txs X env ctx (t # ts) =
     abind (atry (progress_exit_tx X env ctx t)) (\<lambda>r.
     case r of
       Inl e \<Rightarrow> areturn (t # ts, Some e)
     | Inr status \<Rightarrow>
         abind (progress_txs X env ctx ts) (\<lambda>(rest, e).
         areturn (t\<lparr>et_status := status\<rparr> # rest, e)))"

text \<open>\<open>max_by\<close> on the heights: the last of the highest blocks.\<close>

fun max_by_height :: "BlockRef list \<Rightarrow> BlockRef option" where
  "max_by_height [] = None"
| "max_by_height (b # bs) =
     (case max_by_height bs of
        None \<Rightarrow> Some b
      | Some m \<Rightarrow> if br_height m < br_height b then Some b else Some m)"

text \<open>After the loop: the error that stopped it, or the next state.\<close>

definition finish_processing ::
  "ProgressContext \<Rightarrow> ExitProcessingState \<Rightarrow> BlockHeight \<Rightarrow> ExitTx list \<times> ExitError option \<Rightarrow> 'w progress" where
  "finish_processing ctx st tip = (\<lambda>(transactions, e).
     case e of
       Some e \<Rightarrow>
         athrow (if pr_transactions st \<noteq> transactions
                 then \<lparr>pe_state = Some (new_processing_from_transactions tip transactions), pe_error = e\<rparr>
                 else from_exit_error e)
     | None \<Rightarrow>
         if count_confirmed transactions = length transactions then
           abind (alift (expect (max_by_height (List.map_filter (\<lambda>t. status_confirmed_in (et_status t)) transactions))
                    ''called `Option::unwrap()` on a `None` value'')) (\<lambda>conf_block.
           areturn (new_awaiting_delta tip conf_block (v_exit_delta (pc_vtxo ctx))))
         else if pr_transactions st \<noteq> transactions
         then areturn (new_processing_from_transactions tip transactions)
         else areturn (Processing st))"

definition progress_processing ::
  "externals \<Rightarrow> 'w exit_env \<Rightarrow> ProgressContext \<Rightarrow> ExitProcessingState \<Rightarrow> 'w progress" where
  "progress_processing X env ctx st =
     (if length (pr_transactions st) \<noteq> length (pc_exit_txids ctx) then apanic ''assertion left == right failed''
      else
        abind (amap_err from_exit_error (tip_height env)) (\<lambda>tip.
        abind (progress_txs X env ctx (pr_transactions st)) (finish_processing ctx st tip)))"

definition progress_awaiting_delta ::
  "'w exit_env \<Rightarrow> ProgressContext \<Rightarrow> ExitAwaitingDeltaState \<Rightarrow> 'w progress" where
  "progress_awaiting_delta env ctx st =
     abind (amap_err from_exit_error (tip_height env)) (\<lambda>tip.
     abind (amap_err from_exit_error (check_confirmed env (op_txid (v_point (pc_vtxo ctx))))) (\<lambda>confirmed.
     if \<not> confirmed then areturn (new_processing tip (pc_exit_txids ctx))
     else if aw_claimable_height st \<le> tip then
       abind (amap_err from_exit_error (get_block_ref env (aw_claimable_height st))) (\<lambda>spendable_block.
       areturn (new_claimable tip spendable_block None))
     else areturn (AwaitingDelta st)))"

definition progress_claimable ::
  "'w exit_env \<Rightarrow> ProgressContext \<Rightarrow> ExitClaimableState \<Rightarrow> 'w progress" where
  "progress_claimable env ctx st =
     abind (amap_err from_exit_error (tip_height env)) (\<lambda>tip.
     abind (amap_err from_exit_error (get_block_ref env (br_height (cl_claimable_since st)))) (\<lambda>spendable_block.
     if br_hash spendable_block \<noteq> br_hash (cl_claimable_since st)
     then areturn (new_claimable tip spendable_block None)
     else
       abind (case cl_last_scanned_block st of
                Some block \<Rightarrow>
                  abind (amap_err from_exit_error (get_block_ref env (br_height block))) (\<lambda>current.
                  areturn (if br_hash current = br_hash block then br_height block
                           else br_height (cl_claimable_since st)))
              | None \<Rightarrow> areturn (br_height (cl_claimable_since st))) (\<lambda>scan_height.
       let point = v_point (pc_vtxo ctx) in
       abind (call (chain_spend_of env point scan_height)
                (\<lambda>m. from_exit_error (TransactionRetrievalFailure (op_txid point) m))) (\<lambda>spend.
       case spend of
         Some (txid, status) \<Rightarrow>
           (case status of
              TxConfirmed block \<Rightarrow> areturn (new_claimed tip txid block)
            | TxMempool \<Rightarrow> areturn (new_claim_in_progress tip (cl_claimable_since st) txid)
            | TxNotFound \<Rightarrow> apanic ''internal error: entered unreachable code'')
       | None \<Rightarrow>
           abind (amap_err from_exit_error (get_block_ref env tip)) (\<lambda>tip_block.
           areturn (new_claimable tip (cl_claimable_since st) (Some tip_block)))))))"

definition progress_claim_in_progress ::
  "'w exit_env \<Rightarrow> ExitClaimInProgressState \<Rightarrow> 'w progress" where
  "progress_claim_in_progress env st =
     abind (amap_err from_exit_error (tip_height env)) (\<lambda>tip.
     abind (amap_err from_exit_error (tx_status env (cp_claim_txid st))) (\<lambda>status.
     areturn (case status of
        TxConfirmed block \<Rightarrow> new_claimed tip (cp_claim_txid st) block
      | TxMempool \<Rightarrow> ClaimInProgress st
      | TxNotFound \<Rightarrow> new_claimable tip (cp_claimable_since st) None)))"

fun exit_progress :: "externals \<Rightarrow> 'w exit_env \<Rightarrow> ProgressContext \<Rightarrow> ExitState \<Rightarrow> 'w progress" where
  "exit_progress X env ctx (Start st) = progress_start X env ctx st"
| "exit_progress X env ctx (Processing st) = progress_processing X env ctx st"
| "exit_progress X env ctx (AwaitingDelta st) = progress_awaiting_delta env ctx st"
| "exit_progress X env ctx (Claimable st) = progress_claimable env ctx st"
| "exit_progress X env ctx (ClaimInProgress st) = progress_claim_in_progress env st"
| "exit_progress X env ctx (Claimed st) = areturn (Claimed st)"

section \<open>The driver\<close>

record ExitVtxo =
  ev_vtxo_id :: VtxoId
  ev_amount :: Amount
  ev_state :: ExitState
  ev_history :: "ExitState list"
  ev_txids :: "Txid list option"

definition ExitVtxo_new :: "Vtxo \<Rightarrow> BlockHeight \<Rightarrow> ExitVtxo" where
  "ExitVtxo_new vtxo tip =
     \<lparr>ev_vtxo_id = vtxo_id vtxo, ev_amount = v_amount vtxo, ev_state = new_start tip, ev_history = [],
      ev_txids = None\<rparr>"

definition ExitVtxo_from_entry :: "StoredExit \<Rightarrow> Vtxo \<Rightarrow> ('e, ExitVtxo) outcome" where
  "ExitVtxo_from_entry entry vtxo =
     (if se_vtxo_id entry \<noteq> vtxo_id vtxo then panic ''assertion left == right failed''
      else Ok \<lparr>ev_vtxo_id = se_vtxo_id entry, ev_amount = v_amount vtxo, ev_state = se_state entry,
               ev_history = se_history entry, ev_txids = None\<rparr>)"

definition StoredExit_new :: "ExitVtxo \<Rightarrow> StoredExit" where
  "StoredExit_new ev = \<lparr>se_vtxo_id = ev_vtxo_id ev, se_state = ev_state ev, se_history = ev_history ev\<rparr>"

definition is_claimable :: "ExitVtxo \<Rightarrow> bool" where
  "is_claimable ev \<longleftrightarrow> (case ev_state ev of Claimable _ \<Rightarrow> True | _ \<Rightarrow> False)"

definition is_initialized :: "ExitVtxo \<Rightarrow> bool" where
  "is_initialized ev \<longleftrightarrow> ev_txids ev \<noteq> None"

definition get_vtxo :: "'w exit_env \<Rightarrow> ExitVtxo \<Rightarrow> ('w, Vtxo) exit_action" where
  "get_vtxo env ev =
     abind (call (db_wallet_vtxo env (ev_vtxo_id ev)) InvalidWalletState) (\<lambda>vtxo.
     case vtxo of
       None \<Rightarrow> athrow (InternalError ''VTXO for exit couldn't be found'')
     | Some vtxo \<Rightarrow> areturn vtxo)"

definition exit_initialize :: "externals \<Rightarrow> 'w exit_env \<Rightarrow> ExitVtxo \<Rightarrow> ('w, ExitVtxo) exit_action" where
  "exit_initialize X env ev =
     abind (get_vtxo env ev) (\<lambda>vtxo.
     abind (track_vtxo_exits X env vtxo) (\<lambda>txids.
     areturn (ev\<lparr>ev_txids := Some txids\<rparr>)))"

text \<open>
  The methods that change the exit and may fail return it next to their result.
\<close>

definition exit_persist :: "'w exit_env \<Rightarrow> ExitVtxo \<Rightarrow> ('w, unit) exit_action" where
  "exit_persist env ev =
     call (db_store_exit_vtxo_entry env (StoredExit_new ev)) (DatabaseVtxoStoreFailure (ev_vtxo_id ev))"

definition update_state_if_newer ::
  "'w exit_env \<Rightarrow> ExitVtxo \<Rightarrow> ExitState \<Rightarrow> ('w exit_sys, 'e, ExitVtxo \<times> (ExitError + unit)) action" where
  "update_state_if_newer env ev new =
     (if new \<noteq> ev_state ev then
        let ev' = ev\<lparr>ev_history := ev_history ev @ [ev_state ev], ev_state := new\<rparr>
        in abind (atry (exit_persist env ev')) (\<lambda>r. areturn (ev', r))
      else areturn (ev, Inr ()))"

definition MAX_ITERATIONS :: nat where
  "MAX_ITERATIONS = 100"

text \<open>
  The loop of \<open>ExitVtxo::progress\<close> with the iterations that are left. The result is \<open>None\<close> when they
  run out, where a debug build fails and a release build returns \<open>Ok\<close>.
\<close>

fun exit_loop ::
  "nat \<Rightarrow> externals \<Rightarrow> 'w exit_env \<Rightarrow> FeeRate option \<Rightarrow> bool \<Rightarrow> Vtxo \<Rightarrow> Txid list \<Rightarrow> ExitVtxo \<Rightarrow>
   ('w exit_sys, unit, ExitVtxo \<times> (ExitError + unit) option) action" where
  "exit_loop 0 X env fee_rate_override continue_until_finished vtxo txids ev = areturn (ev, None)"
| "exit_loop (Suc n) X env fee_rate_override continue_until_finished vtxo txids ev =
     abind (query (chain_fast_fee_rate env)) (\<lambda>fast.
     let ctx = \<lparr>pc_vtxo = vtxo, pc_exit_txids = txids,
                pc_fee_rate = (case fee_rate_override of Some f \<Rightarrow> f | None \<Rightarrow> fast)\<rparr>
     in
     abind (atry (exit_progress X env ctx (ev_state ev))) (\<lambda>r.
     case r of
       Inr new_state \<Rightarrow>
         abind (update_state_if_newer env ev new_state) (\<lambda>(ev', stored).
         case stored of
           Inl e \<Rightarrow> areturn (ev', Some (Inl e))
         | Inr _ \<Rightarrow>
             if \<not> continue_until_finished then areturn (ev', Some (Inr ()))
             else
               (case from_exit_state (ev_state ev') of
                  Done \<Rightarrow> areturn (ev', Some (Inr ()))
                | Continue \<Rightarrow> exit_loop n X env fee_rate_override continue_until_finished vtxo txids ev'))
     | Inl e \<Rightarrow>
         (case pe_state e of
            None \<Rightarrow> areturn (ev, Some (Inl (pe_error e)))
          | Some new_state \<Rightarrow>
              abind (update_state_if_newer env ev new_state) (\<lambda>(ev', stored).
              areturn (ev', Some (case stored of Inl e' \<Rightarrow> Inl e' | Inr _ \<Rightarrow> Inl (pe_error e)))))))"

definition ExitVtxo_progress ::
  "externals \<Rightarrow> 'w exit_env \<Rightarrow> FeeRate option \<Rightarrow> bool \<Rightarrow> ExitVtxo \<Rightarrow>
   ('w exit_sys, unit, ExitVtxo \<times> (ExitError + unit) option) action" where
  "ExitVtxo_progress X env fee_rate_override continue_until_finished ev =
     (case ev_txids ev of
        None \<Rightarrow> areturn (ev, Some (Inl (InternalError ''Unilateral exit not yet initialized'')))
      | Some txids \<Rightarrow>
          abind (atry (get_vtxo env ev)) (\<lambda>wallet_vtxo.
          case wallet_vtxo of
            Inl e \<Rightarrow> areturn (ev, Some (Inl e))
          | Inr vtxo \<Rightarrow> exit_loop MAX_ITERATIONS X env fee_rate_override continue_until_finished vtxo txids ev))"

section \<open>What the manager knows about an exit transaction\<close>

text \<open>
  The child of a tracked exit transaction and the status of the package, and the status of the exit
  that follows from them at a fee rate; \<open>None\<close> is the error of an unconfirmed child from a block.
\<close>

definition exit_view :: "'w exit_sys \<Rightarrow> Txid \<Rightarrow> ChildTransactionInfo option \<times> TxStatus" where
  "exit_view s t = (pk_child (sy_packages s ! the (sy_index s t)), the (sy_status s t))"

fun view_status :: "FeeRate \<Rightarrow> ChildTransactionInfo option \<times> TxStatus \<Rightarrow> ExitTxStatus option" where
  "view_status f (None, m) = Some NeedsSignedPackage"
| "view_status f (Some c, TxNotFound) = Some (NeedsBroadcasting (ti_txid (ch_info c)) (ch_origin c))"
| "view_status f (Some c, TxConfirmed b) = Some (Confirmed (ti_txid (ch_info c)) b (ch_origin c))"
| "view_status f (Some c, TxMempool) =
     (case ch_origin c of
        OWallet _ \<Rightarrow> Some (BroadcastWithCpfp (ti_txid (ch_info c)) (ch_origin c))
      | OMempool fee_rate total_fee \<Rightarrow>
          if fee_rate < f then Some (NeedsReplacementPackage fee_rate total_fee)
          else Some (BroadcastWithCpfp (ti_txid (ch_info c)) (ch_origin c))
      | OBlock _ \<Rightarrow> None)"

lemma view_status_cases:
  "view_status f v = Some NeedsSignedPackage \<longleftrightarrow> fst v = None"
  "view_status f v = Some (NeedsBroadcasting c o') \<Longrightarrow> snd v = TxNotFound \<and> fst v \<noteq> None"
  "view_status f v = Some (NeedsReplacementPackage a b) \<Longrightarrow> snd v = TxMempool \<and> fst v \<noteq> None"
  "view_status f v \<noteq> Some VerifyInputs" "view_status f v \<noteq> Some (AwaitingInputConfirmation T)"
  by (cases "(f, v)" rule: view_status.cases; auto split: ExitTxOrigin.splits if_splits)+

abbreviation origin_error :: ExitError where
  "origin_error \<equiv> InternalError ''TxStatus was Mempool when origin is Block, this should never happen''"

abbreviation tracked :: "TransactionInfo list \<Rightarrow> Txid set" where
  "tracked xs \<equiv> ti_txid ` set xs"

lemma wp_tracked_package:
  assumes "manager_inv K xs s" "t \<in> tracked xs"
  shows "wp (read_package env t) Q E s = Q (sy_packages s ! the (sy_index s t)) s"
    and "wp (get_package env t) Q' E s = Q' (the (sy_index s t)) s"
proof -
  from assms obtain p where "sy_index s t = Some p" "p < length (sy_packages s)"
    unfolding manager_inv_def by (metis (no_types, lifting) imageE option.exhaust)
  then show "wp (get_package env t) Q' E s = Q' (the (sy_index s t)) s"
    "wp (read_package env t) Q E s = Q (sy_packages s ! the (sy_index s t)) s"
    by (simp_all add: get_package_def read_package_def wp_simps)
qed

lemma wp_get_exit_tx_status:
  assumes "manager_inv K xs s" "et_txid exit \<in> tracked xs"
  shows "wp (get_exit_tx_status env ctx exit) Q E s =
    (case view_status (pc_fee_rate ctx) (exit_view s (et_txid exit)) of
       Some st \<Rightarrow> Q st s | None \<Rightarrow> E (Err origin_error) s)"
proof -
  from assms obtain m where m: "sy_status s (et_txid exit) = Some m"
    unfolding manager_inv_def by (metis (no_types, lifting) imageE option.exhaust)
  show ?thesis
    unfolding get_exit_tx_status_def get_child_status_def wp_abind
    by (auto simp: wp_tracked_package [OF assms] wp_simps m exit_view_def
        split: option.splits TxStatus.splits ExitTxOrigin.splits)
qed

lemma wp_get_exit_child_status:
  assumes "manager_inv K xs s" "et_txid exit \<in> tracked xs"
  shows "wp (get_exit_child_status env ctx exit) Q E s =
    (case view_status (pc_fee_rate ctx) (exit_view s (et_txid exit)) of
       Some st \<Rightarrow> Q st s | None \<Rightarrow> E (Err origin_error) s)"
  unfolding get_exit_child_status_def get_child_txid_def wp_abind
  by (auto simp: wp_tracked_package [OF assms] wp_get_exit_tx_status [OF assms] wp_simps exit_view_def
      split: option.splits)

section \<open>No panics\<close>

lemma keeps_context [keeps_intros]:
  "keeps (manager_inv K xs) (check_confirmed env t)"
  "keeps (manager_inv K xs) (check_status_from_inputs env T)"
  "keeps (manager_inv K xs) (create_exit_cpfp_tx env ctx tx fees)"
  "keeps (manager_inv K xs) (get_block_ref env h)"
  "keeps (manager_inv K xs) (get_unique_inputs env t)"
  "keeps (manager_inv K xs) (tip_height env)"
  unfolding check_confirmed_def check_status_from_inputs_def create_exit_cpfp_tx_def get_block_ref_def
    get_unique_inputs_def tip_height_def Let_def
  by (intro keeps_intros)+

lemma keeps_exit_status [keeps_intros]:
  assumes "et_txid exit \<in> tracked xs"
  shows "keeps (manager_inv K xs) (get_exit_tx_status env ctx exit)"
    and "keeps (manager_inv K xs) (get_exit_child_status env ctx exit)"
  using assms
  by (auto simp: keeps_def wp_get_exit_tx_status wp_get_exit_child_status split: option.splits)

text \<open>The rest of \<open>create_package\<close> and \<open>replace_package\<close> once the wallet has made the child.\<close>

lemma keeps_new_child [keeps_intros]:
  "keeps (manager_inv K xs) (abind (create_exit_cpfp_tx env ctx tx fees) (\<lambda>child_tx.
     let origin = OWallet None in
     abind (set_wallet_child_tx X env t child_tx origin) (\<lambda>child_txid.
     areturn (NeedsBroadcasting child_txid origin))))"
  unfolding Let_def by (intro keeps_intros)

lemma keeps_create_package [keeps_intros]:
  assumes "et_txid exit \<in> tracked xs"
  shows "keeps (manager_inv K xs) (create_package X env ctx exit)"
proof (rule keepsI)
  fix s :: "'a exit_sys"
  assume inv: "manager_inv K xs s"
  show "wp (create_package X env ctx exit) (\<lambda>_. manager_inv K xs) (\<lambda>e t. not_panic e \<and> manager_inv K xs t) s"
    unfolding create_package_def wp_abind
    using keepsD [OF keeps_new_child inv, unfolded wp_abind]
    by (auto simp: wp_get_exit_tx_status [OF inv assms] wp_tracked_package [OF inv assms] wp_cases wp_basic
        wp_abind inv view_status_cases exit_view_def Let_def split: option.splits)
qed

lemma keeps_replace_package [keeps_intros]:
  assumes "et_txid exit \<in> tracked xs"
  shows "keeps (manager_inv K xs) (replace_package X env ctx exit)"
  unfolding replace_package_def Let_def
  by (intro keeps_intros assms) (auto intro!: keeps_intros split: ExitTxStatus.splits)

lemma wp_broadcast_package:
  assumes "manager_inv K xs s"
  shows "wp (broadcast_package env pkg)
    (\<lambda>st t. manager_inv K xs t \<and> (st = TxMempool \<longrightarrow> pk_child pkg \<noteq> None)) (\<lambda>e t. not_panic e \<and> manager_inv K xs t) s"
proof (cases "pk_child pkg")
  case None
  then show ?thesis
    using keepsD [OF keeps_set_status assms]
    by (auto simp: broadcast_package_def wp_simps set_status_def manager_inv_def Let_def)
next
  case (Some c)
  then show ?thesis by (rule_tac wp_mono [OF keepsD [OF keeps_manager(5) assms]]) auto
qed

lemma keeps_broadcast_exit [keeps_intros]:
  assumes "et_txid exit \<in> tracked xs"
  shows "keeps (manager_inv K xs) (broadcast_exit env ctx exit)"
proof -
  let ?I = "manager_inv K xs" and ?E = "\<lambda>e t. not_panic e \<and> manager_inv K xs t"
  let ?store = "\<lambda>pkg st. if st = TxMempool then
      abind (alift (expect (pk_child pkg) ''child can't be missing'')) (\<lambda>child.
        call (wallet_store_cpfp env (ti_tx (ch_info child)))
          (\<lambda>e. ExitPackageStoreFailure (et_txid exit) (show_cpfp_error env e))) else areturn ()"
  have send: "keeps ?I (abind (broadcast_package env pkg) (\<lambda>st. abind (?store pkg st) (\<lambda>_. get_exit_child_status env ctx exit)))"
    for pkg
  proof (rule keepsI)
    fix s :: "'a exit_sys"
    assume inv: "?I s"
    have "wp (abind (?store pkg st) (\<lambda>_. get_exit_child_status env ctx exit)) (\<lambda>_. ?I) ?E t"
      if "?I t \<and> (st = TxMempool \<longrightarrow> pk_child pkg \<noteq> None)" for st t
    proof -
      have "keeps ?I (?store pkg st)"
        using that by (auto intro!: keeps_intros keepsI wp_callI simp: wp_simps)
      then have "keeps ?I (abind (?store pkg st) (\<lambda>_. get_exit_child_status env ctx exit))"
        by (rule keeps_abind) (intro keeps_intros assms)
      then show ?thesis by (rule keepsD) (use that in simp)
    qed
    then show "wp (abind (broadcast_package env pkg) (\<lambda>st. abind (?store pkg st) (\<lambda>_. get_exit_child_status env ctx exit)))
        (\<lambda>_. ?I) ?E s"
      unfolding wp_abind [of "broadcast_package env pkg"] by (rule wp_mono [OF wp_broadcast_package [OF inv]]) auto
  qed
  show ?thesis
    unfolding broadcast_exit_def
  proof (rule keeps_abind)
    show "keeps ?I (case status of
        NeedsBroadcasting new_child_txid _ \<Rightarrow>
          abind (read_package env (et_txid exit)) (\<lambda>pkg.
          abind (broadcast_package env pkg) (\<lambda>st. abind (?store pkg st) (\<lambda>_. get_exit_child_status env ctx exit)))
      | _ \<Rightarrow> areturn status)" for status
      by (cases status) (simp_all add: keeps_basic keeps_abind [OF keeps_get_package(2) send])
  qed (intro keeps_intros assms)
qed

lemma keeps_progress_exit_tx:
  assumes "et_txid exit \<in> tracked xs"
  shows "keeps (manager_inv K xs) (progress_exit_tx X env ctx exit)"
  using assms by (auto intro!: keeps_intros split: ExitTxStatus.splits)

section \<open>The state machine\<close>

text \<open>
  The steps that an exit of a VTXO with exit transactions \<open>txids\<close> and exit delta \<open>delta\<close> can take.
\<close>

inductive exit_edge :: "Txid list \<Rightarrow> BlockDelta \<Rightarrow> ExitState \<Rightarrow> ExitState \<Rightarrow> bool"
  for txids :: "Txid list" and delta :: BlockDelta where
  begin_exit: "exit_edge txids delta (Start st) (new_processing tip txids)"
| work: "map et_txid ts = map et_txid (pr_transactions st) \<Longrightarrow>
    exit_edge txids delta (Processing st) (new_processing_from_transactions tip ts)"
| all_confirmed: "map et_txid (ts :: ExitTx list) = map et_txid (pr_transactions st) \<Longrightarrow>
    List.map_filter (\<lambda>t. status_confirmed_in (et_status t)) ts = bs \<Longrightarrow> length bs = length ts \<Longrightarrow>
    block \<in> set bs \<Longrightarrow> (\<And>b. b \<in> set bs \<Longrightarrow> br_height b \<le> br_height block) \<Longrightarrow>
    exit_edge txids delta (Processing st) (new_awaiting_delta tip block delta)"
| reorganized: "exit_edge txids delta (AwaitingDelta st) (new_processing tip txids)"
| matured: "aw_claimable_height st \<le> tip \<Longrightarrow> exit_edge txids delta (AwaitingDelta st) (new_claimable tip block None)"
| rescanned: "exit_edge txids delta (Claimable st) (new_claimable tip block scanned)"
| claim_seen: "exit_edge txids delta (Claimable st) (new_claim_in_progress tip (cl_claimable_since st) txid)"
| claim_mined: "exit_edge txids delta (Claimable st) (new_claimed tip txid block)"
| claim_confirmed: "exit_edge txids delta (ClaimInProgress st) (new_claimed tip (cp_claim_txid st) block)"
| claim_dropped: "exit_edge txids delta (ClaimInProgress st) (new_claimable tip (cp_claimable_since st) None)"

inductive_cases exit_edgeE: "exit_edge txids delta st st'"

lemmas new_state_defs = new_start_def new_processing_def new_processing_from_transactions_def
  new_awaiting_delta_def new_claimable_def new_claim_in_progress_def new_claimed_def

text \<open>The list of transactions is the one of the exit, and the claimable height was computed from it.\<close>

fun exit_inv :: "Txid list \<Rightarrow> BlockDelta \<Rightarrow> ExitState \<Rightarrow> bool" where
  "exit_inv txids delta (Processing st) \<longleftrightarrow> map et_txid (pr_transactions st) = txids"
| "exit_inv txids delta (AwaitingDelta st) \<longleftrightarrow>
     aw_claimable_height st = br_height (aw_confirmed_block st) + ucast delta"
| "exit_inv txids delta _ \<longleftrightarrow> True"

lemma exit_edge_inv: "exit_edge txids delta st st' \<Longrightarrow> exit_inv txids delta st \<Longrightarrow> exit_inv txids delta st'"
  by (induction rule: exit_edge.induct) (auto simp: new_state_defs comp_def)

lemma max_by_height_Some: "bs \<noteq> [] \<Longrightarrow> \<exists>b. max_by_height bs = Some b"
  by (cases bs) (auto split: option.splits)

lemma max_by_height_max:
  "max_by_height bs = Some m \<Longrightarrow> m \<in> set bs \<and> (\<forall>b \<in> set bs. br_height b \<le> br_height m)"
proof (induction bs arbitrary: m)
  case (Cons b bs)
  show ?case
  proof (cases "max_by_height bs")
    case None
    then have "bs = []" using max_by_height_Some by (metis option.distinct(1))
    with Cons.prems show ?thesis by simp
  next
    case (Some n)
    from Cons.IH [OF this] Cons.prems Some show ?thesis by (auto split: if_splits)
  qed
qed simp

lemma count_confirmed_eq:
  "count_confirmed ts = length (List.map_filter (\<lambda>t. status_confirmed_in (et_status t)) ts)"
proof -
  have "(case et_status t of Confirmed _ _ _ \<Rightarrow> True | _ \<Rightarrow> False) \<longleftrightarrow> status_confirmed_in (et_status t) \<noteq> None" for t :: ExitTx
    by (cases "et_status t") auto
  then show ?thesis by (simp add: count_confirmed_def List.map_filter_def)
qed

lemma wp_progress_txs:
  assumes "manager_inv K xs s" "et_txid ` set ts \<subseteq> tracked xs"
  shows "wp (progress_txs X env ctx ts)
    (\<lambda>(us, e) t. manager_inv K xs t \<and> map et_txid us = map et_txid ts) (\<lambda>e t. False) s"
  using assms
proof (induction ts arbitrary: s)
  case Nil
  then show ?case by (simp add: wp_simps)
next
  case (Cons t ts)
  let ?Q = "\<lambda>(us, e) t'. manager_inv K xs t' \<and> map et_txid us = map et_txid (t # ts)"
  have "keeps (manager_inv K xs) (progress_exit_tx X env ctx t)"
    using Cons.prems(2) by (intro keeps_progress_exit_tx) auto
  moreover have "wp (abind (progress_txs X env ctx ts) (\<lambda>(rest, e). areturn (t\<lparr>et_status := st\<rparr> # rest, e))) ?Q (\<lambda>e t. False) s'"
    if "manager_inv K xs s'" for st s'
    unfolding wp_abind by (rule wp_mono [OF Cons.IH [OF that]]) (use Cons.prems(2) in \<open>auto simp: wp_simps\<close>)
  ultimately show ?case
    unfolding progress_txs.simps wp_abind [of "atry (progress_exit_tx X env ctx t)"] wp_atry
    by (intro wp_mono [OF keepsD [where I = "manager_inv K xs", OF _ Cons.prems(1)]]) (auto simp: wp_basic split: failure.splits)
qed

abbreviation progress_result ::
  "Txid set \<Rightarrow> TransactionInfo list \<Rightarrow> Txid list \<Rightarrow> BlockDelta \<Rightarrow> ExitState \<Rightarrow> ExitState \<Rightarrow> 'w exit_sys \<Rightarrow> bool" where
  "progress_result K xs txids delta st st' t \<equiv> manager_inv K xs t \<and> (st' = st \<or> exit_edge txids delta st st')"

fun progress_failure ::
  "Txid set \<Rightarrow> TransactionInfo list \<Rightarrow> Txid list \<Rightarrow> BlockDelta \<Rightarrow> ExitState \<Rightarrow> ExitProgressError failure \<Rightarrow> 'w exit_sys \<Rightarrow> bool" where
  "progress_failure K xs txids delta st (Panic m) t = False"
| "progress_failure K xs txids delta st (Err e) t \<longleftrightarrow>
     manager_inv K xs t \<and> (\<forall>st'. pe_state e = Some st' \<longrightarrow> exit_edge txids delta st st')"

lemma keeps_no_state:
  assumes "keeps (manager_inv K xs) m" "manager_inv K xs s"
  shows "wp (amap_err from_exit_error m) (\<lambda>x t. manager_inv K xs t) (progress_failure K xs txids delta st) s"
  unfolding wp_amap_err
  by (rule wp_mono [OF keepsD [OF assms]]) (auto simp: from_exit_error_def split: failure.splits)

lemma wp_progress_processing:
  assumes inv: "manager_inv K xs s" "set (pc_exit_txids ctx) \<subseteq> tracked xs" "pc_exit_txids ctx \<noteq> []"
    and st: "exit_inv (pc_exit_txids ctx) delta (Processing st)" "delta = v_exit_delta (pc_vtxo ctx)"
  shows "wp (progress_processing X env ctx st)
    (progress_result K xs (pc_exit_txids ctx) delta (Processing st))
    (progress_failure K xs (pc_exit_txids ctx) delta (Processing st)) s"
proof -
  let ?txids = "pc_exit_txids ctx" and ?ts = "pr_transactions st"
  let ?edge = "exit_edge ?txids delta (Processing st)"
  let ?Q = "progress_result K xs ?txids delta (Processing st)"
  let ?E = "progress_failure K xs ?txids delta (Processing st)"
  have ts: "map et_txid ?ts = ?txids" using st by simp
  then have len: "length ?ts = length ?txids" and sub: "et_txid ` set ?ts \<subseteq> tracked xs"
    using inv(2) by (metis length_map, metis list.set_map)
  have rest: "wp (finish_processing ctx st tip (us, e)) ?Q ?E t"
    if "manager_inv K xs t" and us: "map et_txid us = map et_txid ?ts" for tip us e t
  proof (cases e)
    case (Some err)
    then show ?thesis using that by (auto simp: finish_processing_def wp_basic from_exit_error_def intro: exit_edge.work)
  next
    case None
    let ?bs = "List.map_filter (\<lambda>t. status_confirmed_in (et_status t)) us"
    show ?thesis
    proof (cases "count_confirmed us = length us")
      case True
      then have bs: "length ?bs = length us" by (simp add: count_confirmed_eq)
      moreover have "us \<noteq> []" using us ts inv(3) by (metis map_is_Nil_conv)
      ultimately obtain b where b: "max_by_height ?bs = Some b"
        using max_by_height_Some by (metis length_0_conv)
      from max_by_height_max [OF b] have "?edge (new_awaiting_delta tip b delta)"
        using exit_edge.all_confirmed [OF us refl bs] by blast
      then show ?thesis using None True b that(1) st(2) by (simp add: finish_processing_def wp_simps)
    qed (use None that in \<open>auto simp: finish_processing_def wp_basic intro: exit_edge.work\<close>)
  qed
  have "wp (abind (progress_txs X env ctx ?ts) (finish_processing ctx st tip)) ?Q ?E t" if "manager_inv K xs t" for tip t
    unfolding wp_abind by (rule wp_mono [OF wp_progress_txs [OF that sub]]) (auto intro: rest)
  then have "wp (abind (amap_err from_exit_error (tip_height env)) (\<lambda>tip.
      abind (progress_txs X env ctx ?ts) (finish_processing ctx st tip))) ?Q ?E s"
    unfolding wp_abind [of "amap_err from_exit_error (tip_height env)"]
    by (intro wp_mono [OF keeps_no_state [OF keeps_context(6) inv(1)]])
  then show ?thesis unfolding progress_processing_def using len by simp
qed

text \<open>Sequencing with a call that only reads the context.\<close>

lemma wp_read_then:
  assumes "keeps (manager_inv K xs) m" "manager_inv K xs s"
    and "\<And>x t. manager_inv K xs t \<Longrightarrow> wp (f x) Q (progress_failure K xs txids delta st) t"
  shows "wp (abind (amap_err from_exit_error m) f) Q (progress_failure K xs txids delta st) s"
  unfolding wp_abind by (rule wp_mono [OF keeps_no_state [OF assms(1,2)]]) (auto intro: assms(3))

lemma wp_progress_start:
  assumes "manager_inv K xs s" "vtxo_transactions X (pc_vtxo ctx) = (Ok items :: (ExitProgressError, VtxoTxIterItem list) outcome)"
  shows "wp (progress_start X env ctx st)
    (progress_result K xs (pc_exit_txids ctx) delta (Start st))
    (progress_failure K xs (pc_exit_txids ctx) delta (Start st)) s"
  using assms
  by (auto simp: progress_start_def estimate_exit_cost_def wp_simps from_exit_error_def
      intro!: wp_queryI exit_edge.begin_exit)

lemma wp_progress_awaiting_delta:
  assumes "manager_inv K xs s"
  shows "wp (progress_awaiting_delta env ctx st)
    (progress_result K xs (pc_exit_txids ctx) delta (AwaitingDelta st))
    (progress_failure K xs (pc_exit_txids ctx) delta (AwaitingDelta st)) s"
  unfolding progress_awaiting_delta_def
proof (intro wp_read_then keeps_intros assms)
  fix tip confirmed and t t' :: "'a exit_sys"
  assume inv: "manager_inv K xs t'"
  show "wp (if \<not> confirmed then areturn (new_processing tip (pc_exit_txids ctx))
       else if aw_claimable_height st \<le> tip
       then abind (amap_err from_exit_error (get_block_ref env (aw_claimable_height st)))
              (\<lambda>spendable_block. areturn (new_claimable tip spendable_block None))
       else areturn (AwaitingDelta st))
     (progress_result K xs (pc_exit_txids ctx) delta (AwaitingDelta st))
     (progress_failure K xs (pc_exit_txids ctx) delta (AwaitingDelta st)) t'"
    using inv by (auto simp: wp_basic intro!: wp_read_then keeps_intros exit_edge.intros)
qed

lemma wp_progress_claimable:
  assumes "spends_found env" "manager_inv K xs s"
  shows "wp (progress_claimable env ctx st)
    (progress_result K xs (pc_exit_txids ctx) delta (Claimable st))
    (progress_failure K xs (pc_exit_txids ctx) delta (Claimable st)) s"
  (is "wp _ ?Q ?E s")
proof -
  let ?point = "v_point (pc_vtxo ctx)" and ?since = "cl_claimable_since st"
  let ?spend = "\<lambda>tip h. abind (call (chain_spend_of env ?point h)
      (\<lambda>m. from_exit_error (TransactionRetrievalFailure (op_txid ?point) m))) (\<lambda>spend. case spend of
         Some (txid, status) \<Rightarrow>
           (case status of
              TxConfirmed block \<Rightarrow> areturn (new_claimed tip txid block)
            | TxMempool \<Rightarrow> areturn (new_claim_in_progress tip ?since txid)
            | TxNotFound \<Rightarrow> apanic ''internal error: entered unreachable code'')
       | None \<Rightarrow>
           abind (amap_err from_exit_error (get_block_ref env tip)) (\<lambda>tip_block.
           areturn (new_claimable tip ?since (Some tip_block))))"
  let ?scan = "case cl_last_scanned_block st of
      Some block \<Rightarrow> abind (amap_err from_exit_error (get_block_ref env (br_height block))) (\<lambda>current.
        areturn (if br_hash current = br_hash block then br_height block else br_height ?since))
    | None \<Rightarrow> areturn (br_height ?since)"
  have spend: "wp (?spend tip h) ?Q ?E t" if "manager_inv K xs t" for h tip t
  proof -
    obtain r w where r: "chain_spend_of env ?point h (sy_world t) = (r, w)" by fastforce
    then have "r \<noteq> Inr (Some (txid, TxNotFound))" for txid using assms(1) by (auto simp: spends_found_def)
    then show ?thesis
      using that r
      by (auto simp: wp_abind wp_call wp_basic wp_amap_err from_exit_error_def get_block_ref_def
          intro: exit_edge.intros split: option.splits sum.splits prod.splits TxStatus.splits)
  qed
  have scan: "wp ?scan (\<lambda>h. manager_inv K xs) ?E t" if "manager_inv K xs t" for t
    using that by (auto simp: wp_basic split: option.splits intro!: wp_read_then keeps_intros)
  have "wp (abind ?scan (?spend tip)) ?Q ?E t" if "manager_inv K xs t" for tip t
    unfolding wp_abind [of ?scan] by (rule wp_mono [OF scan [OF that]]) (auto intro: spend)
  then have "wp (if br_hash b \<noteq> br_hash ?since then areturn (new_claimable tip b None) else abind ?scan (?spend tip)) ?Q ?E t"
    if "manager_inv K xs t" for b tip t
    using that by (auto simp: wp_basic intro: exit_edge.rescanned)
  then show ?thesis
    unfolding progress_claimable_def Let_def by (intro wp_read_then keeps_intros assms(2))
qed

lemma wp_progress_claim_in_progress:
  assumes "manager_inv K xs s"
  shows "wp (progress_claim_in_progress env st)
    (progress_result K xs txids delta (ClaimInProgress st)) (progress_failure K xs txids delta (ClaimInProgress st)) s"
  unfolding progress_claim_in_progress_def
  by (intro wp_read_then keeps_intros assms)
    (auto simp: wp_basic intro: exit_edge.intros split: TxStatus.splits)

text \<open>The exit that the driver may progress.\<close>

definition exit_ready :: "externals \<Rightarrow> TransactionInfo list \<Rightarrow> Vtxo \<Rightarrow> Txid list \<Rightarrow> bool" where
  "exit_ready X xs vtxo txids \<longleftrightarrow>
     set txids \<subseteq> tracked xs \<and> txids \<noteq> [] \<and>
     (\<exists>items. vtxo_transactions X vtxo = (Ok items :: (ExitProgressError, VtxoTxIterItem list) outcome))"

lemma wp_exit_progress:
  assumes "spends_found env" "manager_inv K xs s" "exit_ready X xs (pc_vtxo ctx) (pc_exit_txids ctx)"
    and "exit_inv (pc_exit_txids ctx) (v_exit_delta (pc_vtxo ctx)) st"
  shows "wp (exit_progress X env ctx st)
    (progress_result K xs (pc_exit_txids ctx) (v_exit_delta (pc_vtxo ctx)) st)
    (progress_failure K xs (pc_exit_txids ctx) (v_exit_delta (pc_vtxo ctx)) st) s"
proof (cases st)
  case (Start a)
  then show ?thesis using assms(2,3) by (auto simp: exit_ready_def intro: wp_progress_start)
next
  case (Processing a)
  have "wp (progress_processing X env ctx a)
      (progress_result K xs (pc_exit_txids ctx) (v_exit_delta (pc_vtxo ctx)) (Processing a))
      (progress_failure K xs (pc_exit_txids ctx) (v_exit_delta (pc_vtxo ctx)) (Processing a)) s"
    by (rule wp_progress_processing) (use assms Processing in \<open>auto simp: exit_ready_def\<close>)
  then show ?thesis using Processing by simp
qed (use assms(1,2) in \<open>auto intro: wp_progress_awaiting_delta wp_progress_claimable
    wp_progress_claim_in_progress simp: wp_basic\<close>)

section \<open>The driver\<close>

text \<open>
  The states that the driver went through are a path of steps, recorded in the history.
\<close>

definition exit_path :: "Txid list \<Rightarrow> BlockDelta \<Rightarrow> ExitVtxo \<Rightarrow> ExitVtxo \<Rightarrow> bool" where
  "exit_path txids delta ev ev' \<longleftrightarrow>
     (\<exists>new. ev_history ev' = ev_history ev @ new \<and> hd (new @ [ev_state ev']) = ev_state ev \<and>
       successively (exit_edge txids delta) (new @ [ev_state ev'])) \<and>
     ev_vtxo_id ev' = ev_vtxo_id ev \<and> ev_amount ev' = ev_amount ev \<and> ev_txids ev' = ev_txids ev"

lemma exit_path_refl: "exit_path txids delta ev ev"
  by (auto simp: exit_path_def intro!: exI [of _ "[]"])

lemma exit_path_step:
  assumes "exit_edge txids delta (ev_state ev) st"
    and "exit_path txids delta (ev\<lparr>ev_history := ev_history ev @ [ev_state ev], ev_state := st\<rparr>) ev'"
  shows "exit_path txids delta ev ev'"
proof -
  from assms(2) obtain new where new: "ev_history ev' = ev_history ev @ ev_state ev # new"
    "hd (new @ [ev_state ev']) = st" "successively (exit_edge txids delta) (new @ [ev_state ev'])"
    by (auto simp: exit_path_def)
  then have "successively (exit_edge txids delta) ((ev_state ev # new) @ [ev_state ev'])"
    using assms(1) by (cases "new @ [ev_state ev']") auto
  then show ?thesis
    using new(1) assms(2) unfolding exit_path_def by (intro conjI exI [of _ "ev_state ev # new"]) auto
qed

definition exit_next :: "ExitVtxo \<Rightarrow> ExitState \<Rightarrow> ExitVtxo" where
  "exit_next ev new =
     (if new \<noteq> ev_state ev then ev\<lparr>ev_history := ev_history ev @ [ev_state ev], ev_state := new\<rparr> else ev)"

lemma wp_update_state:
  assumes "manager_inv K xs s"
  shows "wp (update_state_if_newer env ev new) (\<lambda>(ev', r) t. manager_inv K xs t \<and> ev' = exit_next ev new \<and>
     (new = ev_state ev \<longrightarrow> r = Inr ())) (\<lambda>e t. False) s"
  using assms
  by (auto simp: update_state_if_newer_def exit_persist_def wp_simps wp_call exit_next_def Let_def
      split: prod.splits sum.splits)

lemma exit_next_path:
  assumes "st' = ev_state ev \<or> exit_edge txids delta (ev_state ev) st'"
    and "exit_path txids delta (exit_next ev st') ev'"
  shows "exit_path txids delta ev ev'"
  using assms exit_path_step by (auto simp: exit_next_def split: if_splits)

lemma exit_next_inv:
  "exit_inv txids delta (ev_state ev) \<Longrightarrow> st' = ev_state ev \<or> exit_edge txids delta (ev_state ev) st' \<Longrightarrow>
   exit_inv txids delta (ev_state (exit_next ev st'))"
  using exit_edge_inv by (auto simp: exit_next_def)

lemma exit_next_state [simp]: "ev_state (exit_next ev st) = st"
  by (auto simp: exit_next_def)

lemma exit_next_one:
  "st' = ev_state ev \<or> exit_edge txids delta (ev_state ev) st' \<Longrightarrow> exit_path txids delta ev (exit_next ev st')"
  using exit_next_path exit_path_refl by blast

text \<open>What holds of every run of the driver's loop.\<close>

definition loop_post ::
  "Txid set \<Rightarrow> TransactionInfo list \<Rightarrow> Txid list \<Rightarrow> BlockDelta \<Rightarrow> bool \<Rightarrow> ExitVtxo \<Rightarrow>
   ExitVtxo \<times> (ExitError + unit) option \<Rightarrow> 'w exit_sys \<Rightarrow> bool" where
  "loop_post K xs txids delta c ev res t \<longleftrightarrow>
     manager_inv K xs t \<and> exit_path txids delta ev (fst res) \<and> exit_inv txids delta (ev_state (fst res)) \<and>
     (snd res = Some (Inr ()) \<and> c \<longrightarrow> from_exit_state (ev_state (fst res)) = Done)"

lemma loop_post_next:
  assumes "loop_post K xs txids delta c (exit_next ev st') res t"
    and "st' = ev_state ev \<or> exit_edge txids delta (ev_state ev) st'"
  shows "loop_post K xs txids delta c ev res t"
  using assms exit_next_path by (auto simp: loop_post_def)

lemma wp_exit_loop:
  assumes "spends_found env" "manager_inv K xs s" "exit_ready X xs vtxo txids"
    and "exit_inv txids (v_exit_delta vtxo) (ev_state ev)"
  shows "wp (exit_loop n X env f c vtxo txids ev) (loop_post K xs txids (v_exit_delta vtxo) c ev) (\<lambda>e t. False) s"
  using assms(2,4)
proof (induction n arbitrary: ev s)
  case 0
  then show ?case by (simp add: wp_basic loop_post_def exit_path_refl)
next
  case (Suc n)
  let ?delta = "v_exit_delta vtxo"
  let ?Q = "loop_post K xs txids ?delta c ev" and ?E = "\<lambda>e t. False"
  let ?ctx = "\<lambda>fast. \<lparr>pc_vtxo = vtxo, pc_exit_txids = txids, pc_fee_rate = (case f of Some f \<Rightarrow> f | None \<Rightarrow> fast)\<rparr>"
  let ?ok = "\<lambda>new_state. abind (update_state_if_newer env ev new_state) (\<lambda>(ev', stored).
      case stored of
        Inl e \<Rightarrow> areturn (ev', Some (Inl e))
      | Inr _ \<Rightarrow>
          if \<not> c then areturn (ev', Some (Inr ()))
          else (case from_exit_state (ev_state ev') of
                  Done \<Rightarrow> areturn (ev', Some (Inr ()))
                | Continue \<Rightarrow> exit_loop n X env f c vtxo txids ev'))"
  let ?failed = "\<lambda>e. case pe_state e of
      None \<Rightarrow> areturn (ev, Some (Inl (pe_error e)))
    | Some new_state \<Rightarrow>
        abind (update_state_if_newer env ev new_state) (\<lambda>(ev', stored).
        areturn (ev', Some (case stored of Inl e' \<Rightarrow> Inl e' | Inr _ \<Rightarrow> Inl (pe_error e))))"
  have one: "loop_post K xs txids ?delta c ev (exit_next ev st', r) t"
    if "manager_inv K xs t" "st' = ev_state ev \<or> exit_edge txids ?delta (ev_state ev) st'"
      "r = Some (Inr ()) \<Longrightarrow> c \<Longrightarrow> from_exit_state st' = Done" for st' r t
    using that exit_next_one [OF that(2)] exit_next_inv [OF Suc.prems(2) that(2)] by (auto simp: loop_post_def)
  have ok: "wp (?ok st') ?Q ?E t"
    if t: "manager_inv K xs t" and st': "st' = ev_state ev \<or> exit_edge txids ?delta (ev_state ev) st'" for st' t
  proof -
    have again: "wp (exit_loop n X env f c vtxo txids (exit_next ev st')) ?Q ?E u" if "manager_inv K xs u" for u
      by (rule wp_mono [OF Suc.IH [OF that exit_next_inv [OF Suc.prems(2) st']]])
        (auto intro: loop_post_next [OF _ st'])
    show ?thesis
      unfolding wp_abind
    proof (rule wp_mono [OF wp_update_state [OF t]])
      fix x :: "ExitVtxo \<times> (ExitError + unit)" and u :: "'a exit_sys"
      assume "(case x of (ev', r) \<Rightarrow> \<lambda>t. manager_inv K xs t \<and> ev' = exit_next ev st' \<and> (st' = ev_state ev \<longrightarrow> r = Inr ())) u"
      then obtain r where x: "x = (exit_next ev st', r)" and u: "manager_inv K xs u" by (auto split: prod.splits)
      show "wp (case x of (ev', stored) \<Rightarrow> (case stored of
          Inl e \<Rightarrow> areturn (ev', Some (Inl e))
        | Inr _ \<Rightarrow>
            if \<not> c then areturn (ev', Some (Inr ()))
            else (case from_exit_state (ev_state ev') of
                    Done \<Rightarrow> areturn (ev', Some (Inr ()))
                  | Continue \<Rightarrow> exit_loop n X env f c vtxo txids ev'))) ?Q ?E u"
        using one [OF u st'] again [OF u]
        by (cases r; cases c; cases "from_exit_state st'") (auto simp: x wp_basic)
    qed simp
  qed
  have failed: "wp (?failed e) ?Q ?E t" if "progress_failure K xs txids ?delta (ev_state ev) (Err e) t" for e t
  proof (cases "pe_state e")
    case None
    then show ?thesis using that Suc.prems(2) by (simp add: wp_basic loop_post_def exit_path_refl)
  next
    case (Some st')
    then have st': "manager_inv K xs t" "exit_edge txids ?delta (ev_state ev) st'" using that by simp_all
    have "wp (abind (update_state_if_newer env ev st') (\<lambda>(ev', stored).
        areturn (ev', Some (case stored of Inl e' \<Rightarrow> Inl e' | Inr _ \<Rightarrow> Inl (pe_error e))))) ?Q ?E t"
      unfolding wp_abind
      by (rule wp_mono [OF wp_update_state [OF st'(1)]])
        (auto simp: wp_basic st'(2) split: sum.splits intro!: one)
    then show ?thesis using Some by simp
  qed
  have "wp (abind (atry (exit_progress X env (?ctx fast) (ev_state ev)))
      (\<lambda>r. case r of Inr st' \<Rightarrow> ?ok st' | Inl e \<Rightarrow> ?failed e)) ?Q ?E t" if "manager_inv K xs t" for fast t
  proof -
    have "wp (exit_progress X env (?ctx fast) (ev_state ev))
        (progress_result K xs txids ?delta (ev_state ev)) (progress_failure K xs txids ?delta (ev_state ev)) t"
      using wp_exit_progress [OF assms(1) that, of X "?ctx fast" "ev_state ev"] assms(3) Suc.prems(2) by simp
    then show ?thesis
      unfolding wp_abind [of "atry (exit_progress X env (?ctx fast) (ev_state ev))"] wp_atry
      by (rule wp_mono) (auto intro: ok failed split: failure.splits)
  qed
  then show ?case
    unfolding exit_loop.simps Let_def wp_abind [of "query (chain_fast_fee_rate env)"]
    using Suc.prems(1) by (intro wp_queryI) simp
qed

section \<open>Properties\<close>

text \<open>
  The database has the VTXO of the exit, and its exit transactions are the tracked ones.
\<close>

definition exit_stored :: "externals \<Rightarrow> 'w exit_env \<Rightarrow> TransactionInfo list \<Rightarrow> Vtxo \<Rightarrow> ExitVtxo \<Rightarrow> Txid list \<Rightarrow> bool" where
  "exit_stored X env xs vtxo ev txids \<longleftrightarrow>
     (\<forall>w v w'. db_wallet_vtxo env (ev_vtxo_id ev) w = (Inr (Some v), w') \<longrightarrow> v = vtxo) \<and>
     ev_txids ev = Some txids \<and> exit_ready X xs vtxo txids"

lemma wp_ExitVtxo_progress:
  assumes "spends_found env" "manager_inv K xs s" "exit_stored X env xs vtxo ev txids"
    and "exit_inv txids (v_exit_delta vtxo) (ev_state ev)"
  shows "wp (ExitVtxo_progress X env f c ev) (loop_post K xs txids (v_exit_delta vtxo) c ev) (\<lambda>e t. False) s"
proof -
  let ?Q = "loop_post K xs txids (v_exit_delta vtxo) c ev"
  have failed: "?Q (ev, Some (Inl e)) t" if "manager_inv K xs t" for e and t :: "'a exit_sys"
    using that assms(4) by (simp add: loop_post_def exit_path_refl)
  have ok: "wp (exit_loop n X env f c vtxo txids ev) ?Q (\<lambda>e t. False) t" if "manager_inv K xs t" for n t
    using assms(1) that _ assms(4) by (rule wp_exit_loop) (use assms(3) in \<open>simp add: exit_stored_def\<close>)
  obtain r w where db: "db_wallet_vtxo env (ev_vtxo_id ev) (sy_world s) = (r, w)" by fastforce
  have "v = vtxo" if "r = Inr (Some v)" for v using assms(3) db that by (auto simp: exit_stored_def)
  then show ?thesis
    using assms(2,3) db ok failed
    by (auto simp: ExitVtxo_progress_def exit_stored_def get_vtxo_def wp_simps wp_call split: sum.splits option.splits)
qed

lemma exit_path_inv:
  assumes "successively (exit_edge txids delta) L" "exit_inv txids delta (hd L)" "st \<in> set L"
  shows "exit_inv txids delta st"
  using assms
proof (induction L)
  case (Cons a L)
  then show ?case using exit_edge_inv by (cases L) auto
qed simp

text \<open>Where a path leaves the pending states.\<close>

lemma exit_path_leaves_pending:
  assumes "successively (exit_edge txids delta) L" "L \<noteq> []" "is_pending (hd L)" "\<not> is_pending (last L)"
  shows "\<exists>pre post a b. L = pre @ AwaitingDelta a # Claimable b # post \<and> aw_claimable_height a \<le> cl_tip_height b"
  using assms
proof (induction L)
  case (Cons x L)
  then have "L \<noteq> []" by auto
  then obtain y L' where L: "L = y # L'" by (cases L) auto
  with Cons.prems have edge: "exit_edge txids delta x y" by simp
  show ?case
  proof (cases "is_pending y")
    case True
    with Cons L obtain pre post a b where
      "L = pre @ AwaitingDelta a # Claimable b # post" "aw_claimable_height a \<le> cl_tip_height b" by auto
    then have "x # L = (x # pre) @ AwaitingDelta a # Claimable b # post" by simp
    then show ?thesis using \<open>aw_claimable_height a \<le> cl_tip_height b\<close> by blast
  next
    case False
    with edge Cons.prems(3) obtain a b where "x = AwaitingDelta a" "y = Claimable b" "aw_claimable_height a \<le> cl_tip_height b"
      by (cases rule: exit_edge.cases) (auto simp: new_state_defs)
    then show ?thesis unfolding L by (metis append_Nil)
  qed
qed simp

section \<open>A concrete world\<close>

text \<open>
  A chain at height 300 on which the exit transactions are confirmed in block 100, a wallet without the
  funds to make a child, and a database that has the concrete VTXO.
\<close>

definition demo_block :: "BlockHeight \<Rightarrow> BlockRef" where
  "demo_block h = \<lparr>br_height = h, br_hash = []\<rparr>"

definition demo_env :: "unit exit_env" where
  "demo_env = \<lparr>chain_tip = (\<lambda>w. (Inr 300, w)), chain_block_ref = (\<lambda>h w. (Inr (demo_block h), w)),
     chain_tx_status = (\<lambda>t w. (Inr (TxConfirmed (demo_block 100)), w)),
     chain_get_tx = (\<lambda>t w. (Inl ''offline'', w)), chain_spend_of = (\<lambda>p h w. (Inr None, w)),
     chain_broadcast_package = (\<lambda>txs w. (Inr (), w)), chain_ancestor_fee = (\<lambda>t w. (Inl ''offline'', w)),
     chain_fast_fee_rate = (\<lambda>w. (5, w)), wallet_balance = (\<lambda>w. (100000, w)),
     wallet_make_cpfp = (\<lambda>tx fees w. (Inr (v3_tx [] []), w)),
     wallet_store_cpfp = (\<lambda>tx w. (Inr (), w)), wallet_spending_tx = (\<lambda>p w. (None, w)),
     wallet_tx_block = (\<lambda>t w. (Inr None, w)), db_wallet_vtxo = (\<lambda>i w. (Inr (Some demo_vtxo), w)),
     db_exit_child_tx = (\<lambda>t w. (Inr None, w)), db_store_exit_vtxo_entry = (\<lambda>e w. (Inr (), w)),
     db_store_exit_child_tx = (\<lambda>t tx o' w. (Inr (), w)), fee_for_txs = (\<lambda>f txs. f * length txs),
     show_txid = (\<lambda>t. ''txid''), show_cpfp_error = (\<lambda>e. ''error''),
     hash_order = sorted_list_of_set\<rparr>"

definition demo_tx :: TransactionInfo where
  "demo_tx = \<lparr>ti_txid = replicate 32 2, ti_tx = v3_tx [] []\<rparr>"

definition demo_sys :: "unit exit_sys" where
  "demo_sys = \<lparr>sy_packages = [\<lparr>pk_exit = demo_tx, pk_child = None\<rparr>],
     sy_index = [replicate 32 2 \<mapsto> 0], sy_status = [replicate 32 2 \<mapsto> TxConfirmed (demo_block 100)], sy_world = ()\<rparr>"

definition demo_exit :: ExitVtxo where
  "demo_exit = \<lparr>ev_vtxo_id = vtxo_id demo_vtxo, ev_amount = 1000, ev_state = new_awaiting_delta 120 (demo_block 100) 144,
     ev_history = [], ev_txids = Some [replicate 32 2]\<rparr>"

lemma demo_exit_ok:
  "spends_found demo_env" "manager_inv {} [demo_tx] demo_sys"
  "exit_stored demo_ext demo_env [demo_tx] demo_vtxo demo_exit [replicate 32 2]"
  "exit_inv [replicate 32 2] (v_exit_delta demo_vtxo) (ev_state demo_exit)"
proof -
  show "spends_found demo_env" by (simp add: spends_found_def demo_env_def)
  show "manager_inv {} [demo_tx] demo_sys" by (simp add: manager_inv_def demo_sys_def demo_tx_def)
  have "vtxo_locktimes_ok demo_vtxo" "onchain_amount demo_vtxo = Some 1400" "v_genesis demo_vtxo \<noteq> []"
    by (simp_all add: vtxo_locktimes_ok_def demo_vtxo_def locktime_ok_def onchain_amount_eq_Some
        other_value_def u64_limit_def)
  then have "\<exists>items. vtxo_transactions demo_ext demo_vtxo = (Ok items :: (ExitProgressError, VtxoTxIterItem list) outcome)"
    using vtxo_transactions_run [of demo_vtxo demo_ext, where 'e = ExitProgressError] by simp
  then show "exit_stored demo_ext demo_env [demo_tx] demo_vtxo demo_exit [replicate 32 2]"
    by (simp add: exit_stored_def exit_ready_def demo_exit_def demo_env_def demo_tx_def)
  show "exit_inv [replicate 32 2] (v_exit_delta demo_vtxo) (ev_state demo_exit)"
    by (simp add: demo_exit_def new_awaiting_delta_def demo_vtxo_def)
qed

lemma demo_exit_run:
  "ExitVtxo_progress demo_ext demo_env None True demo_exit demo_sys =
     (Ok (exit_next demo_exit (new_claimable 300 (demo_block 244) None), Some (Inr ())), demo_sys)"
proof -
  have fuel: "MAX_ITERATIONS = Suc 99" by (simp add: MAX_ITERATIONS_def)
  show ?thesis
    unfolding ExitVtxo_progress_def fuel exit_loop.simps Let_def
    by (simp add: demo_exit_def demo_env_def demo_sys_def demo_vtxo_def new_state_defs
      get_vtxo_def call_def query_def abind_def atry_def areturn_def aget_def amap_err_def progress_awaiting_delta_def
      tip_height_def check_confirmed_def tx_status_def get_block_ref_def update_state_if_newer_def exit_persist_def
      exit_next_def demo_block_def)
qed





end
