(* ===== verification/Ark_Exit_Run.thy ===== *)
theory Ark_Exit_Run
  imports Ark_Exit
begin

text \<open>
  A whole unilateral exit: the exit transactions of a VTXO are given to the transaction manager, and the
  driver then ends within its \<open>MAX_ITERATIONS\<close>. The measure adds up, over the exit transactions, how far
  the package is from being broadcast and how far the stored status is behind the package.
\<close>

section \<open>The index\<close>

text \<open>
  The transactions of \<open>T\<close> are exit transactions: no child transaction of the wallet or of the database
  has one of their ids.
\<close>

definition children_fresh :: "externals \<Rightarrow> 'w exit_env \<Rightarrow> Txid set \<Rightarrow> bool" where
  "children_fresh X env T \<longleftrightarrow>
     (\<forall>p w c w'. wallet_spending_tx env p w = (Some c, w') \<longrightarrow> ext_txid X c \<notin> T) \<and>
     (\<forall>t w c o' w'. db_exit_child_tx env t w = (Inr (Some (c, o')), w') \<longrightarrow> ext_txid X c \<notin> T) \<and>
     (\<forall>tx fees w c w'. wallet_make_cpfp env tx fees w = (Inr c, w') \<longrightarrow> ext_txid X c \<notin> T)"

lemma children_freshD:
  assumes "children_fresh X env T"
  shows "wallet_spending_tx env p w = (Some c, w') \<Longrightarrow> ext_txid X c \<notin> T"
    and "db_exit_child_tx env t w = (Inr (Some (c, o')), w') \<Longrightarrow> ext_txid X c \<notin> T"
    and "wallet_make_cpfp env tx fees w = (Inr c, w') \<Longrightarrow> ext_txid X c \<notin> T"
  using assms unfolding children_fresh_def by blast+

text \<open>The index finds each exit transaction at the position of its package.\<close>

definition manager_exact :: "Txid set \<Rightarrow> TransactionInfo list \<Rightarrow> 'w exit_sys \<Rightarrow> bool" where
  "manager_exact T xs s \<longleftrightarrow>
     manager_inv {} xs s \<and> distinct (map ti_txid xs) \<and> tracked xs \<subseteq> T \<and>
     (\<forall>t \<in> T. \<forall>p. sy_index s t = Some p \<longrightarrow> p < length xs \<and> ti_txid (xs ! p) = t)"

lemma manager_exact_inv: "manager_exact T xs s \<Longrightarrow> manager_inv {} xs s"
  by (simp add: manager_exact_def)

lemma manager_exact_world [simp]: "manager_exact T xs (s\<lparr>sy_world := w\<rparr>) = manager_exact T xs s"
  by (simp add: manager_exact_def)

lemma manager_exact_status [simp]:
  "manager_exact T xs s \<Longrightarrow> manager_exact T xs (s\<lparr>sy_status := (sy_status s)(t \<mapsto> st)\<rparr>)"
  by (auto simp: manager_exact_def manager_inv_def)

lemma manager_exact_at:
  assumes "manager_exact T xs s" "t \<in> tracked xs"
  obtains p where "sy_index s t = Some p" "p < length xs" "p < length (sy_packages s)" "xs ! p = pk_exit (sy_packages s ! p)"
    "ti_txid (xs ! p) = t"
proof -
  have map: "map pk_exit (sy_packages s) = xs" and "sy_index s t \<noteq> None"
    using assms by (auto simp: manager_exact_def manager_inv_def)
  then obtain p where p: "sy_index s t = Some p" by blast
  moreover have "p < length xs" "ti_txid (xs ! p) = t" using assms p unfolding manager_exact_def by blast+
  moreover have "length (sy_packages s) = length xs" using map by auto
  ultimately show thesis using that map nth_map [of p "sy_packages s" pk_exit] by metis
qed

lemma wp_find_child:
  assumes "children_fresh X env T"
  shows "wp (find_child_locally X env info)
    (\<lambda>c t. (\<exists>w. t = s\<lparr>sy_world := w\<rparr>) \<and> (\<forall>c'. c = Some c' \<longrightarrow> ti_txid (ch_info c') \<notin> T))
    (\<lambda>e t. not_panic e \<and> (\<exists>w. t = s\<lparr>sy_world := w\<rparr>)) s"
proof -
  have db: "wp (find_child_in_database X env info)
      (\<lambda>c t. (\<exists>w. t = s\<lparr>sy_world := w\<rparr>) \<and> (\<forall>c'. c = Some c' \<longrightarrow> ti_txid (ch_info c') \<notin> T))
      (\<lambda>e t. not_panic e \<and> (\<exists>w. t = s\<lparr>sy_world := w\<rparr>)) (s\<lparr>sy_world := u\<rparr>)" for u
    using children_freshD [OF assms] unfolding find_child_in_database_def
    by (auto simp: wp_abind wp_basic wp_call split: prod.splits sum.splits)
  have same: "\<exists>w. s = s\<lparr>sy_world := w\<rparr>" by (rule exI [of _ "sy_world s"]) simp
  show ?thesis
    using children_freshD(1) [OF assms] db same unfolding find_child_locally_def find_child_in_wallet_def
    by (auto simp: wp_abind wp_cases wp_basic wp_call wp_query Let_def split: prod.splits sum.splits option.splits)
qed

lemma manager_exact_track:
  assumes exact: "manager_exact T xs s" and t: "sy_index s (ti_txid info) = None" "ti_txid info \<in> T"
    and c: "\<And>c'. c = Some c' \<Longrightarrow> c' \<notin> T"
  shows "manager_exact T (xs @ [info]) (s\<lparr>sy_index := (case c of None \<Rightarrow> (sy_index s)(ti_txid info \<mapsto> length (sy_packages s))
        | Some c' \<Rightarrow> (sy_index s)(ti_txid info \<mapsto> length (sy_packages s), c' \<mapsto> length (sy_packages s))),
     sy_status := (sy_status s)(ti_txid info \<mapsto> st),
     sy_packages := sy_packages s @ [\<lparr>pk_exit = info, pk_child = child\<rparr>]\<rparr>)"
proof -
  have len: "length (sy_packages s) = length xs" using exact by (auto simp: manager_exact_def manager_inv_length)
  have new: "ti_txid info \<notin> tracked xs" using exact t(1) by (auto simp: manager_exact_def manager_inv_def)
  have old: "map pk_exit (sy_packages s) = xs" "\<And>t p. sy_index s t = Some p \<Longrightarrow> p < length (sy_packages s)"
    "\<And>x. x \<in> set xs \<Longrightarrow> sy_index s (ti_txid x) \<noteq> None \<and> sy_status s (ti_txid x) \<noteq> None"
    "\<And>t p. t \<in> T \<Longrightarrow> sy_index s t = Some p \<Longrightarrow> p < length xs \<and> ti_txid (xs ! p) = t"
    "distinct (map ti_txid xs)" "tracked xs \<subseteq> T"
    using exact by (auto simp: manager_exact_def manager_inv_def)
  let ?s = "s\<lparr>sy_index := (case c of None \<Rightarrow> (sy_index s)(ti_txid info \<mapsto> length (sy_packages s))
        | Some c' \<Rightarrow> (sy_index s)(ti_txid info \<mapsto> length (sy_packages s), c' \<mapsto> length (sy_packages s))),
     sy_status := (sy_status s)(ti_txid info \<mapsto> st),
     sy_packages := sy_packages s @ [\<lparr>pk_exit = info, pk_child = child\<rparr>]\<rparr>"
  have index: "sy_index ?s t = (if t = ti_txid info then Some (length xs) else sy_index s t)" if "t \<in> T" for t
    using that c t(2) by (auto simp: len split: option.splits)
  have "sy_index ?s t = Some p \<Longrightarrow> p < length (sy_packages ?s)" for t p
    using old(2) [of t p] by (auto split: option.splits if_splits)
  moreover have "sy_index ?s (ti_txid x) \<noteq> None \<and> sy_status ?s (ti_txid x) \<noteq> None" if "x \<in> set (xs @ [info])" for x
    using that old(3,6) index [of "ti_txid x"] t(2) by auto
  moreover have "p < length (xs @ [info]) \<and> ti_txid ((xs @ [info]) ! p) = t" if "t \<in> T" "sy_index ?s t = Some p" for t p
    using that index [OF that(1)] old(4) by (auto simp: nth_append split: if_splits)
  moreover have "map pk_exit (sy_packages ?s) = xs @ [info]" using old(1) by simp
  moreover have "distinct (map ti_txid (xs @ [info]))" "tracked (xs @ [info]) \<subseteq> T"
    using old(5,6) new t(2) by auto
  ultimately show ?thesis unfolding manager_exact_def manager_inv_def by blast
qed

lemma wp_track_exit_tx:
  assumes fresh: "children_fresh X env T" and exact: "manager_exact T xs s" and t: "ext_txid X tx \<in> T"
  shows "wp (track_exit_tx X env tx)
    (\<lambda>txid s'. txid = ext_txid X tx \<and> (\<exists>ys. manager_exact T (xs @ ys) s' \<and> txid \<in> tracked (xs @ ys)))
    (\<lambda>e s'. not_panic e \<and> manager_exact T xs s') s"
    (is "wp _ ?Q ?E s")
proof (cases "sy_index s (ext_txid X tx)")
  case (Some p)
  with exact t have "ext_txid X tx \<in> tracked xs" unfolding manager_exact_def by (metis image_eqI nth_mem)
  then show ?thesis
    using Some exact by (auto simp: track_exit_tx_def wp_simps Let_def intro!: exI [of _ "[]"])
next
  case None
  let ?info = "\<lparr>ti_txid = ext_txid X tx, ti_tx = tx\<rparr>"
  let ?n = "length (sy_packages s)"
  have store: "?Q (ext_txid X tx) (s\<lparr>sy_world := w, sy_index := (sy_index s)(ext_txid X tx \<mapsto> ?n),
      sy_status := (sy_status s)(ext_txid X tx \<mapsto> st),
      sy_packages := sy_packages s @ [\<lparr>pk_exit = ?info, pk_child = child\<rparr>]\<rparr>)" for w child st
    using manager_exact_track [of T xs "s\<lparr>sy_world := w\<rparr>" ?info None child st] None exact t
    by (auto intro!: exI [of _ "[?info]"])
  have store': "?Q (ext_txid X tx) (s\<lparr>sy_world := w, sy_index := (sy_index s)(ext_txid X tx \<mapsto> ?n, c \<mapsto> ?n),
      sy_status := (sy_status s)(ext_txid X tx \<mapsto> st),
      sy_packages := sy_packages s @ [\<lparr>pk_exit = ?info, pk_child = child\<rparr>]\<rparr>)" if "c \<notin> T" for w child st c
    using manager_exact_track [of T xs "s\<lparr>sy_world := w\<rparr>" ?info "Some c" child st] None exact t that
    by (auto intro!: exI [of _ "[?info]"])
  show ?thesis
    unfolding track_exit_tx_def Let_def wp_abind [of "aget _"] wp_basic wp_cases wp_abind [of "find_child_locally X env ?info"]
    using None exact store store'
    by (auto simp: wp_simps set_index_def set_status_def split: option.splits
        intro!: wp_mono [OF wp_find_child [OF fresh, of ?info s]])
qed

lemma ex_appendI: "\<exists>zs. P ((xs @ ys) @ zs) \<Longrightarrow> \<exists>zs. P (xs @ zs)"
  by (metis append.assoc)

lemma wp_track_items:
  assumes "children_fresh X env T" "manager_exact T xs s" "(\<lambda>item. ext_txid X (ii_tx item)) ` set items \<subseteq> T"
    and "set acc \<subseteq> tracked xs"
  shows "wp (afold (\<lambda>item txids. abind (track_exit_tx X env (ii_tx item)) (\<lambda>txid. areturn (txids @ [txid]))) items acc)
    (\<lambda>txids s'. txids = acc @ map (\<lambda>item. ext_txid X (ii_tx item)) items \<and>
       (\<exists>ys. manager_exact T (xs @ ys) s' \<and> set txids \<subseteq> tracked (xs @ ys)))
    (\<lambda>e s'. not_panic e \<and> (\<exists>ys. manager_exact T (xs @ ys) s')) s"
  using assms(2-4)
proof (induction items arbitrary: xs s acc)
  case Nil
  then show ?case by (auto simp: wp_basic intro!: exI [of _ "[]"])
next
  case (Cons item items)
  have t: "ext_txid X (ii_tx item) \<in> T" using Cons.prems(2) by simp
  have rest: "(\<lambda>item. ext_txid X (ii_tx item)) ` set items \<subseteq> T" using Cons.prems(2) by simp
  show ?case
    unfolding afold.simps wp_abind wp_basic
  proof (rule wp_mono [OF wp_track_exit_tx [OF assms(1) Cons.prems(1) t]])
    fix txid and s' :: "'a exit_sys"
    assume "txid = ext_txid X (ii_tx item) \<and> (\<exists>ys. manager_exact T (xs @ ys) s' \<and> txid \<in> tracked (xs @ ys))"
    then obtain ys where ys: "manager_exact T (xs @ ys) s'" "set (acc @ [txid]) \<subseteq> tracked (xs @ ys)"
      and txid: "txid = ext_txid X (ii_tx item)"
      using Cons.prems(3) by auto
    from Cons.IH [OF ys(1) rest ys(2)]
    show "wp (afold (\<lambda>item txids. abind (track_exit_tx X env (ii_tx item)) (\<lambda>txid. areturn (txids @ [txid]))) items (acc @ [txid]))
      (\<lambda>txids s'. txids = acc @ map (\<lambda>item. ext_txid X (ii_tx item)) (item # items) \<and>
         (\<exists>ys. manager_exact T (xs @ ys) s' \<and> set txids \<subseteq> tracked (xs @ ys)))
      (\<lambda>e s'. not_panic e \<and> (\<exists>ys. manager_exact T (xs @ ys) s')) s'"
      by (rule wp_mono) (use txid in \<open>(auto simp only: append_assoc [symmetric] list.map
            intro!: ex_appendI [of _ xs ys], simp)\<close>)
  qed (auto intro: exI [of _ "[]"])
qed

text \<open>The ids of the exit transactions of a VTXO.\<close>

definition vtxo_exit_txids :: "externals \<Rightarrow> Vtxo \<Rightarrow> Txid list" where
  "vtxo_exit_txids X v = (case (vtxo_transactions X v :: (unit, VtxoTxIterItem list) outcome) of
     Inr items \<Rightarrow> map (\<lambda>item. ext_txid X (ii_tx item)) items | Inl _ \<Rightarrow> [])"

text \<open>A VTXO whose exit transactions can be built.\<close>

definition exitable :: "Vtxo \<Rightarrow> bool" where
  "exitable v \<longleftrightarrow> vtxo_locktimes_ok v \<and> onchain_amount v \<noteq> None \<and> v_genesis v \<noteq> []"

lemma exitable_transactions:
  assumes "exitable v"
  obtains items where "(vtxo_transactions X v :: ('e, VtxoTxIterItem list) outcome) = Ok items"
    "(vtxo_transactions X v :: ('f, VtxoTxIterItem list) outcome) = Ok items"
    "vtxo_exit_txids X v = map (\<lambda>item. ext_txid X (ii_tx item)) items"
    "length items = length (v_genesis v)"
proof -
  obtain a where a: "onchain_amount v = Some a" using assms by (auto simp: exitable_def)
  have ok: "vtxo_locktimes_ok v" "v_genesis v \<noteq> []" using assms by (simp_all add: exitable_def)
  define items where "items = map2 (\<lambda>tx item. \<lparr>ii_tx = tx, ii_output_idx = unat (gi_output_idx item)\<rparr>)
    (exit_chain X v a (v_anchor_point v) (v_genesis v)) (v_genesis v)"
  note run = vtxo_transactions_run [OF ok(1), of X, unfolded a, simplified ok(2), folded items_def]
  show thesis
  proof (rule that)
    show "vtxo_exit_txids X v = map (\<lambda>item. ext_txid X (ii_tx item)) items"
      by (simp add: vtxo_exit_txids_def run ok(2) items_def)
    show "length items = length (v_genesis v)" by (simp add: items_def)
  qed (use ok(2) in \<open>simp_all add: run items_def\<close>)
qed

lemma wp_exit_initialize:
  assumes fresh: "children_fresh X env T" and exact: "manager_exact T xs s"
    and v: "exitable v" "set (vtxo_exit_txids X v) \<subseteq> T"
    and db: "\<And>w u w'. db_wallet_vtxo env (ev_vtxo_id ev) w = (Inr (Some u), w') \<Longrightarrow> u = v"
  shows "wp (exit_initialize X env ev)
    (\<lambda>ev' s'. ev' = ev\<lparr>ev_txids := Some (vtxo_exit_txids X v)\<rparr> \<and>
       (\<exists>ys. manager_exact T (xs @ ys) s' \<and> exit_ready X (xs @ ys) v (vtxo_exit_txids X v)))
    (\<lambda>e s'. not_panic e \<and> (\<exists>ys. manager_exact T (xs @ ys) s')) s"
    (is "wp _ ?Q ?E s")
proof -
  obtain items where items: "vtxo_transactions X v = (Ok items :: (ExitError, VtxoTxIterItem list) outcome)"
    "vtxo_transactions X v = (Ok items :: (ExitProgressError, VtxoTxIterItem list) outcome)"
    "vtxo_exit_txids X v = map (\<lambda>item. ext_txid X (ii_tx item)) items" "length items = length (v_genesis v)"
    using exitable_transactions [OF v(1)] by blast
  then have ne: "vtxo_exit_txids X v \<noteq> []" using v(1) by (auto simp: exitable_def)
  have track: "wp (abind (track_vtxo_exits X env v) (\<lambda>txids. areturn (ev\<lparr>ev_txids := Some txids\<rparr>))) ?Q ?E t"
    if "manager_exact T xs t" for t
    unfolding track_vtxo_exits_def items(1) wp_simps sum.case
    by (rule wp_mono [OF wp_track_items [OF fresh that, of items "[]"]])
      (use v(2) items(2,3) ne in \<open>auto simp: exit_ready_def\<close>)
  obtain r w where r: "db_wallet_vtxo env (ev_vtxo_id ev) (sy_world s) = (r, w)" by fastforce
  have failed: "?E (Err e) (s\<lparr>sy_world := w\<rparr>)" for e
    using exact by (auto intro!: exI [of _ "[]"])
  show ?thesis
    unfolding exit_initialize_def get_vtxo_def wp_abind wp_call r
    using db r track [unfolded wp_abind] exact failed by (auto simp: wp_cases wp_basic split: sum.splits option.splits)
qed

section \<open>Potential\<close>

text \<open>
  How many steps a package is away from being broadcast: a child is made (2 to 1) and broadcast (1 to 0);
  a child that someone else broadcast with too low a fee is replaced (2 to 1), and may have to be broadcast
  again to see that (3 to 2).
\<close>

definition low_fee :: "FeeRate \<Rightarrow> ChildTransactionInfo \<Rightarrow> bool" where
  "low_fee f c \<longleftrightarrow> (case ch_origin c of OMempool fee_rate _ \<Rightarrow> fee_rate < f | _ \<Rightarrow> False)"

fun view_rank :: "FeeRate \<Rightarrow> ChildTransactionInfo option \<times> TxStatus \<Rightarrow> nat" where
  "view_rank f (None, m) = 2"
| "view_rank f (Some c, TxConfirmed b) = 0"
| "view_rank f (Some c, TxNotFound) = (if low_fee f c then 3 else 1)"
| "view_rank f (Some c, TxMempool) = (if low_fee f c then 2 else 0)"

text \<open>How far the stored status is behind what the manager knows.\<close>

fun same_kind :: "ExitTxStatus \<Rightarrow> ExitTxStatus \<Rightarrow> bool" where
  "same_kind NeedsSignedPackage NeedsSignedPackage = True"
| "same_kind (NeedsReplacementPackage _ _) (NeedsReplacementPackage _ _) = True"
| "same_kind (NeedsBroadcasting _ _) (NeedsBroadcasting _ _) = True"
| "same_kind (BroadcastWithCpfp _ _) (BroadcastWithCpfp _ _) = True"
| "same_kind (Confirmed _ _ _) (Confirmed _ _ _) = True"
| "same_kind _ _ = False"

fun status_rank :: "FeeRate \<Rightarrow> ChildTransactionInfo option \<times> TxStatus \<Rightarrow> ExitTxStatus \<Rightarrow> nat" where
  "status_rank f v VerifyInputs = 3"
| "status_rank f v (AwaitingInputConfirmation _) = 2"
| "status_rank f v st = (case view_status f v of Some st' \<Rightarrow> if same_kind st st' then 0 else 1 | None \<Rightarrow> 1)"

definition tx_rank :: "FeeRate \<Rightarrow> 'w exit_sys \<Rightarrow> ExitTx \<Rightarrow> nat" where
  "tx_rank f s t = view_rank f (exit_view s (et_txid t)) + status_rank f (exit_view s (et_txid t)) (et_status t)"

lemma view_rank_le: "view_rank f v \<le> 3"
  by (cases "(f, v)" rule: view_rank.cases) auto

lemma status_rank_le: "status_rank f v st \<le> 3" "status_rank f v NeedsSignedPackage \<le> 1"
  by (cases st) (auto split: option.splits)

lemma same_kind_refl: "view_status f v = Some st \<Longrightarrow> status_rank f v st = 0"
  by (cases "(f, v)" rule: view_status.cases) (auto split: ExitTxOrigin.splits if_splits)

text \<open>What one transaction's progress does to the others: nothing.\<close>

definition frame :: "TransactionInfo list \<Rightarrow> Txid \<Rightarrow> 'w exit_sys \<Rightarrow> 'w exit_sys \<Rightarrow> bool" where
  "frame xs t s s' \<longleftrightarrow> (\<forall>u \<in> tracked xs - {t}. exit_view s' u = exit_view s u)"

definition same_views :: "Txid set \<Rightarrow> TransactionInfo list \<Rightarrow> 'w exit_sys \<Rightarrow> 'w exit_sys \<Rightarrow> bool" where
  "same_views T xs s s' \<longleftrightarrow> manager_exact T xs s' \<and> (\<forall>u \<in> tracked xs. exit_view s' u = exit_view s u)"

lemma exit_view_world [simp]: "exit_view (s\<lparr>sy_world := w\<rparr>) t = exit_view s t"
  by (simp add: exit_view_def)

lemma same_views_refl: "manager_exact T xs s \<Longrightarrow> same_views T xs s s"
  by (simp add: same_views_def)

lemma keeps_same_views_world [keeps_intros]:
  "keeps (same_views T xs s) (call f g)" "keeps (same_views T xs s) (query h)"
  by (auto intro!: keepsI wp_callI wp_queryI simp: same_views_def)

lemma keeps_same_views_status [keeps_intros]:
  "keeps (same_views T xs s) (tx_status env t)" "keeps (same_views T xs s) (get_unique_inputs env t)"
proof -
  show "keeps (same_views T xs s) (tx_status env t)"
  proof (rule keepsI)
    fix s' :: "'a exit_sys"
    assume same: "same_views T xs s s'"
    show "wp (tx_status env t) (\<lambda>_. same_views T xs s) (\<lambda>e t. not_panic e \<and> same_views T xs s t) s'"
    proof (cases "sy_status s' t")
      case None
      then have "t \<notin> tracked xs" using same by (auto simp: same_views_def manager_exact_def manager_inv_def)
      then have "same_views T xs s (s'\<lparr>sy_world := w, sy_status := (sy_status s')(t \<mapsto> st)\<rparr>)" for w st
        using same manager_exact_status [of T xs "s'\<lparr>sy_world := w\<rparr>" t st]
        by (auto simp: same_views_def exit_view_def)
      moreover have "same_views T xs s (s'\<lparr>sy_world := w\<rparr>)" for w using same by (simp add: same_views_def)
      ultimately show ?thesis
        using None by (auto simp: tx_status_def get_tx_status_def set_status_def wp_abind wp_basic wp_amodify wp_call
            split: prod.splits sum.splits)
    qed (use same in \<open>simp add: tx_status_def wp_simps\<close>)
  qed
  show "keeps (same_views T xs s) (get_unique_inputs env t)"
    unfolding get_unique_inputs_def read_package_def
    by (rule keeps_abind) (auto intro!: keeps_intros simp: get_package_def)
qed

lemma keeps_same_views [keeps_intros]:
  "keeps (same_views T xs s) (check_confirmed env t)"
  "keeps (same_views T xs s) (check_status_from_inputs env U)"
  "keeps (same_views T xs s) (create_exit_cpfp_tx env ctx tx fees)"
  "keeps (same_views T xs s) (tip_height env)"
  "keeps (same_views T xs s) (get_block_ref env h)"
  unfolding check_confirmed_def check_status_from_inputs_def create_exit_cpfp_tx_def tip_height_def get_block_ref_def Let_def
  by (intro keeps_intros)+

text \<open>The step of one transaction: the rank never grows, and it falls when the transaction goes on.\<close>

definition tx_step ::
  "Txid set \<Rightarrow> TransactionInfo list \<Rightarrow> FeeRate \<Rightarrow> 'w exit_sys \<Rightarrow> ExitTx \<Rightarrow> ExitTxStatus \<Rightarrow> 'w exit_sys \<Rightarrow> bool" where
  "tx_step T xs f s t st s' \<longleftrightarrow>
     manager_exact T xs s' \<and> frame xs (et_txid t) s s' \<and>
     tx_rank f s' (t\<lparr>et_status := st\<rparr>) + (if tx_continues (et_status t) then 1 else 0) \<le> tx_rank f s t"

lemma wp_check_inputs:
  assumes "manager_exact T xs s" "et_txid t \<in> tracked xs"
    and "et_status t = VerifyInputs \<or> et_status t = AwaitingInputConfirmation V"
  shows "wp (check_status_from_inputs env U) (tx_step T xs f s t) (\<lambda>e s'. True) s"
proof -
  have ranks: "wp (check_status_from_inputs env U)
      (\<lambda>st s'. st = NeedsSignedPackage \<or> (\<exists>V. st = AwaitingInputConfirmation V)) (\<lambda>e s'. True) s"
    unfolding check_status_from_inputs_def wp_abind
    by (rule wp_mono [OF wp_True]) (auto simp: wp_basic)
  show ?thesis
    using wp_conj [OF ranks keepsD [OF keeps_same_views(2) same_views_refl [OF assms(1)]]]
    by (rule wp_mono)
      (use assms(2,3) in \<open>auto simp: tx_step_def same_views_def frame_def tx_rank_def split: option.splits\<close>)
qed

text \<open>A status that is read from the manager.\<close>

lemma tx_step_view:
  assumes "manager_exact T xs s" "view_status f (exit_view s (et_txid t)) = Some st"
    and "et_status t \<noteq> VerifyInputs" "\<And>V. et_status t \<noteq> AwaitingInputConfirmation V"
    and "tx_continues (et_status t) \<Longrightarrow> \<not> same_kind (et_status t) st"
  shows "tx_step T xs f s t st s"
proof -
  have "status_rank f (exit_view s (et_txid t)) st = 0" using assms(2) by (rule same_kind_refl)
  then show ?thesis
    using assms(2-5) by (cases "et_status t") (simp_all add: tx_step_def frame_def tx_rank_def assms(1))
qed

text \<open>A new child of the wallet.\<close>

lemma wp_new_child:
  assumes fresh: "children_fresh X env T" and exact: "manager_exact T xs s" and t: "et_txid t \<in> tracked xs"
    and rank: "view_rank f (exit_view s (et_txid t)) = 2"
    and st: "et_status t \<noteq> VerifyInputs" "\<And>V. et_status t \<noteq> AwaitingInputConfirmation V"
  shows "wp (abind (create_exit_cpfp_tx env ctx tx fees) (\<lambda>child_tx.
      abind (set_wallet_child_tx X env (et_txid t) child_tx (OWallet None)) (\<lambda>child_txid.
      areturn (NeedsBroadcasting child_txid (OWallet None))))) (tx_step T xs f s t) (\<lambda>e s'. True) s"
proof -
  obtain p where p: "sy_index s (et_txid t) = Some p" "p < length xs" "p < length (sy_packages s)"
    "xs ! p = pk_exit (sy_packages s ! p)" "ti_txid (xs ! p) = et_txid t"
    using exact t by (rule manager_exact_at)
  have step: "tx_step T xs f s t (NeedsBroadcasting (ext_txid X c) (OWallet None))
      (s\<lparr>sy_world := w, sy_packages := (sy_packages s)[p := (sy_packages s ! p)\<lparr>pk_child := Some
            \<lparr>ch_info = \<lparr>ti_txid = ext_txid X c, ti_tx = c\<rparr>, ch_origin = OWallet None\<rparr>\<rparr>],
         sy_index := (sy_index s)(ext_txid X c \<mapsto> p), sy_status := (sy_status s)(et_txid t \<mapsto> TxNotFound)\<rparr>)"
    (is "tx_step T xs f s t ?st ?s") if "ext_txid X c \<notin> T" for c w
  proof -
    have "tracked xs \<subseteq> T" using exact by (simp add: manager_exact_def)
    then have c: "ext_txid X c \<notin> tracked xs" using that by blast
    have "manager_inv {} xs ?s"
      using manager_inv_set_child [OF manager_exact_inv [OF exact] p(3)] p(1,3) by (auto simp: manager_inv_def)
    moreover have "\<forall>u \<in> T. \<forall>q. sy_index ?s u = Some q \<longrightarrow> q < length xs \<and> ti_txid (xs ! q) = u"
      using exact that by (auto simp: manager_exact_def)
    ultimately have "manager_exact T xs ?s" using exact by (simp add: manager_exact_def)
    moreover have "exit_view ?s u = exit_view s u" if u: "u \<in> tracked xs" "u \<noteq> et_txid t" for u
    proof -
      obtain q where q: "sy_index s u = Some q" "ti_txid (xs ! q) = u" using exact u(1) by (rule manager_exact_at)
      then have "q \<noteq> p" "u \<noteq> ext_txid X c" using p(5) u c by auto
      then show ?thesis using q(1) u(2) by (simp add: exit_view_def)
    qed
    moreover have "exit_view ?s (et_txid t) =
        (Some \<lparr>ch_info = \<lparr>ti_txid = ext_txid X c, ti_tx = c\<rparr>, ch_origin = OWallet None\<rparr>, TxNotFound)"
      using p(1,3) c t by (cases "et_txid t = ext_txid X c") (simp_all add: exit_view_def)
    ultimately show ?thesis
      using rank st by (auto simp: tx_step_def frame_def tx_rank_def low_fee_def)
  qed
  show ?thesis
    using step children_freshD(3) [OF fresh] p
    by (auto simp: create_exit_cpfp_tx_def set_wallet_child_tx_def get_package_def set_child_def set_index_def
        set_status_def wp_simps wp_call Let_def split: prod.splits sum.splits option.splits)
qed

lemma wp_create_package:
  assumes "children_fresh X env T" and exact: "manager_exact T xs s" and t: "et_txid t \<in> tracked xs"
    and st: "et_status t = NeedsSignedPackage"
  shows "wp (create_package X env ctx t) (tx_step T xs (pc_fee_rate ctx) s t) (\<lambda>e s'. True) s"
proof -
  let ?v = "exit_view s (et_txid t)" and ?f = "pc_fee_rate ctx"
  note inv = manager_exact_inv [OF exact]
  show ?thesis
  proof (cases "fst ?v = None")
    case True
    then have child: "pk_child (sy_packages s ! the (sy_index s (et_txid t))) = None" by (simp add: exit_view_def)
    have rank: "view_rank ?f ?v = 2" using True by (cases ?v) simp
    have "view_status ?f ?v = Some NeedsSignedPackage" using True by (simp add: view_status_cases)
    with child wp_new_child [OF assms(1) exact t rank, unfolded wp_abind [of "create_exit_cpfp_tx _ _ _ _"]] st show ?thesis
      by (simp add: create_package_def wp_abind wp_get_exit_tx_status [OF inv t] wp_tracked_package [OF inv t]
          wp_cases Let_def)
  next
    case False
    then have "view_status ?f ?v \<noteq> Some NeedsSignedPackage" by (simp add: view_status_cases)
    moreover have "tx_step T xs ?f s t new s" if "view_status ?f ?v = Some new" for new
      using exact that by (rule tx_step_view) (use False st that in \<open>cases new; simp add: view_status_cases\<close>)+
    ultimately show ?thesis
      by (auto simp: create_package_def wp_abind wp_get_exit_tx_status [OF inv t] wp_cases wp_basic split: option.splits)
  qed
qed

lemma wp_replace_package:
  assumes "children_fresh X env T" and exact: "manager_exact T xs s" and t: "et_txid t \<in> tracked xs"
    and st: "et_status t = NeedsReplacementPackage a b"
  shows "wp (replace_package X env ctx t) (tx_step T xs (pc_fee_rate ctx) s t) (\<lambda>e s'. True) s"
proof -
  let ?v = "exit_view s (et_txid t)" and ?f = "pc_fee_rate ctx"
  note inv = manager_exact_inv [OF exact]
  show ?thesis
  proof (cases "\<exists>a' b'. view_status ?f ?v = Some (NeedsReplacementPackage a' b')")
    case True
    then obtain a' b' where new: "view_status ?f ?v = Some (NeedsReplacementPackage a' b')" by blast
    then have rank: "view_rank ?f ?v = 2"
      by (cases "(?f, ?v)" rule: view_status.cases) (auto simp: low_fee_def split: ExitTxOrigin.splits if_splits)
    from new wp_new_child [OF assms(1) exact t rank, unfolded wp_abind [of "create_exit_cpfp_tx _ _ _ _"]] st show ?thesis
      by (simp add: replace_package_def wp_abind wp_get_exit_tx_status [OF inv t] wp_tracked_package [OF inv t] Let_def)
  next
    case False
    have "tx_step T xs ?f s t new s" if "view_status ?f ?v = Some new" for new
      using exact that by (rule tx_step_view) (use False st that in \<open>cases new; simp\<close>)+
    with False show ?thesis
      by (auto simp: replace_package_def wp_abind wp_get_exit_tx_status [OF inv t] wp_basic
          split: option.splits ExitTxStatus.splits)
  qed
qed

lemma wp_get_child_step:
  assumes "manager_exact T xs s" "et_txid t \<in> tracked xs"
    and "et_status t \<noteq> VerifyInputs" "\<And>V. et_status t \<noteq> AwaitingInputConfirmation V" "\<not> tx_continues (et_status t)"
  shows "wp (get_exit_child_status env ctx t) (tx_step T xs (pc_fee_rate ctx) s t) (\<lambda>e s'. True) s"
  using assms tx_step_view [OF assms(1) _ assms(3,4)]
  by (auto simp: wp_get_exit_child_status [OF manager_exact_inv] split: option.splits)

lemma wp_broadcast_exit:
  assumes exact: "manager_exact T xs s" and t: "et_txid t \<in> tracked xs"
    and st: "et_status t = NeedsBroadcasting a b"
  shows "wp (broadcast_exit env ctx t) (tx_step T xs (pc_fee_rate ctx) s t) (\<lambda>e s'. True) s"
proof -
  let ?v = "exit_view s (et_txid t)" and ?f = "pc_fee_rate ctx"
  note inv = manager_exact_inv [OF exact]
  show ?thesis
  proof (cases "\<exists>a' b'. view_status ?f ?v = Some (NeedsBroadcasting a' b')")
    case True
    then obtain a' b' where new: "view_status ?f ?v = Some (NeedsBroadcasting a' b')" by blast
    then obtain c where v: "?v = (Some c, TxNotFound)"
      by (cases "(?f, ?v)" rule: view_status.cases) (auto split: ExitTxOrigin.splits if_splits)
    obtain p where p: "sy_index s (et_txid t) = Some p" "xs ! p = pk_exit (sy_packages s ! p)" "ti_txid (xs ! p) = et_txid t"
      using exact t by (rule manager_exact_at)
    then have pkg: "ti_txid (pk_exit (sy_packages s ! p)) = et_txid t" "pk_child (sy_packages s ! p) = Some c"
      using v by (simp_all add: exit_view_def)
    obtain m where m: "sy_status s (et_txid t) = Some m" using inv t by (auto simp: manager_inv_def)
    define s' where "s' = s\<lparr>sy_status := (sy_status s)(et_txid t \<mapsto> TxMempool)\<rparr>"
    have exact': "manager_exact T xs s'" using exact by (simp add: s'_def)
    have view': "exit_view s' (et_txid t) = (Some c, TxMempool)"
      using p(1) pkg(2) by (simp add: exit_view_def s'_def)
    have other: "exit_view s' u = exit_view s u" if "u \<noteq> et_txid t" for u
      using that by (simp add: exit_view_def s'_def)
    have "tx_step T xs ?f s t new' (s'\<lparr>sy_world := w\<rparr>)" if "view_status ?f (Some c, TxMempool) = Some new'" for new' w
      using exact' other same_kind_refl [OF that] v st by (simp add: tx_step_def frame_def tx_rank_def view')
    then have "wp (get_exit_child_status env ctx t) (tx_step T xs ?f s t) (\<lambda>e s'. True) (s'\<lparr>sy_world := w\<rparr>)" for w
      using wp_get_exit_child_status [of "{}" xs "s'\<lparr>sy_world := w\<rparr>" t] exact' t
      by (auto simp: manager_exact_def view' simp del: view_status.simps split: option.splits)
    moreover have "s\<lparr>sy_world := w, sy_status := (sy_status s)(et_txid t \<mapsto> TxMempool)\<rparr> = s'\<lparr>sy_world := w\<rparr>" for w
      by (simp add: s'_def)
    ultimately show ?thesis
      by (auto simp: broadcast_exit_def broadcast_package_def set_status_def wp_abind wp_get_exit_child_status [OF inv t] new
          wp_tracked_package [OF inv t] p(1) pkg m wp_basic wp_amodify wp_alift wp_call wp_cases Let_def
          split: prod.splits sum.splits)
  next
    case False
    have "tx_step T xs ?f s t new s" if "view_status ?f ?v = Some new" for new
      using exact that by (rule tx_step_view) (use False st that in \<open>cases new; simp\<close>)+
    with False show ?thesis
      by (auto simp: broadcast_exit_def wp_abind wp_get_exit_child_status [OF inv t] wp_basic
          split: option.splits ExitTxStatus.splits)
  qed
qed

lemma wp_progress_exit_tx:
  assumes "children_fresh X env T" and exact: "manager_exact T xs s" and t: "et_txid t \<in> tracked xs"
  shows "wp (progress_exit_tx X env ctx t) (tx_step T xs (pc_fee_rate ctx) s t) (\<lambda>e s'. True) s"
proof (cases "et_status t")
  case VerifyInputs
  have "wp (get_unique_inputs env (et_txid t)) (\<lambda>U s'. s' = s) (\<lambda>e s'. True) s"
    by (simp add: get_unique_inputs_def wp_abind wp_basic wp_tracked_package [OF manager_exact_inv [OF exact] t])
  then show ?thesis
    using VerifyInputs by (auto simp: wp_abind intro!: wp_check_inputs exact t elim!: wp_mono)
qed (use assms in \<open>auto intro: wp_check_inputs wp_create_package wp_replace_package wp_broadcast_exit wp_get_child_step\<close>)

text \<open>The ranks of all transactions of an exit.\<close>

definition total_rank :: "FeeRate \<Rightarrow> 'w exit_sys \<Rightarrow> ExitTx list \<Rightarrow> nat" where
  "total_rank f s ts = sum_list (map (tx_rank f s) ts)"

lemma total_rank_le: "total_rank f s ts \<le> 6 * length ts"
proof (induction ts)
  case (Cons t ts)
  have "tx_rank f s t \<le> 6"
    using view_rank_le [of f "exit_view s (et_txid t)"] status_rank_le(1) [of f "exit_view s (et_txid t)" "et_status t"]
    by (simp add: tx_rank_def)
  then show ?case using Cons by (simp add: total_rank_def)
qed (simp add: total_rank_def)

lemma total_rank_frame:
  assumes "\<And>t. t \<in> set ts \<Longrightarrow> exit_view s' (et_txid t) = exit_view s (et_txid t)"
  shows "total_rank f s' ts = total_rank f s ts"
  using assms by (auto simp: total_rank_def tx_rank_def intro!: arg_cong [of _ _ sum_list])

definition txs_step ::
  "Txid set \<Rightarrow> TransactionInfo list \<Rightarrow> FeeRate \<Rightarrow> 'w exit_sys \<Rightarrow> ExitTx list \<Rightarrow> ExitTx list \<times> ExitError option \<Rightarrow>
   'w exit_sys \<Rightarrow> bool" where
  "txs_step T xs f s ts r s' \<longleftrightarrow> (snd r = None \<longrightarrow>
     manager_exact T xs s' \<and> (\<forall>u \<in> tracked xs - et_txid ` set ts. exit_view s' u = exit_view s u) \<and>
     total_rank f s' (fst r) + (if list_ex (\<lambda>t. tx_continues (et_status t)) ts then 1 else 0) \<le> total_rank f s ts)"

lemma txs_step_Cons:
  assumes step: "tx_step T xs f s t st s'" and rest: "txs_step T xs f s' ts (us, e) s''"
    and t: "et_txid t \<in> tracked xs" "et_txid ` set ts \<subseteq> tracked xs" "et_txid t \<notin> et_txid ` set ts"
  shows "txs_step T xs f s (t # ts) (t\<lparr>et_status := st\<rparr> # us, e) s''"
proof (cases "e = None")
  case True
  have s': "\<And>u. u \<in> tracked xs \<Longrightarrow> u \<noteq> et_txid t \<Longrightarrow> exit_view s' u = exit_view s u"
    "tx_rank f s' (t\<lparr>et_status := st\<rparr>) + (if tx_continues (et_status t) then 1 else 0) \<le> tx_rank f s t"
    using step by (auto simp: tx_step_def frame_def)
  have ts: "total_rank f s' ts = total_rank f s ts"
    by (rule total_rank_frame) (use t(2,3) s'(1) in \<open>metis image_eqI subsetD\<close>)
  have "exit_view s'' (et_txid t) = exit_view s' (et_txid t)" using rest t True by (simp add: txs_step_def)
  then have "tx_rank f s'' (t\<lparr>et_status := st\<rparr>) = tx_rank f s' (t\<lparr>et_status := st\<rparr>)" by (simp add: tx_rank_def)
  then show ?thesis
    using rest s' ts True by (auto simp: txs_step_def total_rank_def split: if_splits)
qed (auto simp: txs_step_def)

lemma wp_progress_txs_rank:
  assumes "children_fresh X env T" "manager_exact T xs s" "et_txid ` set ts \<subseteq> tracked xs" "distinct (map et_txid ts)"
  shows "wp (progress_txs X env ctx ts) (txs_step T xs (pc_fee_rate ctx) s ts) (\<lambda>e s'. True) s"
  using assms(2-4)
proof (induction ts arbitrary: s)
  case Nil
  then show ?case by (simp add: wp_basic total_rank_def txs_step_def)
next
  case (Cons t ts)
  let ?Q = "txs_step T xs (pc_fee_rate ctx) s (t # ts)"
  have t: "et_txid t \<in> tracked xs" "et_txid ` set ts \<subseteq> tracked xs" "et_txid t \<notin> et_txid ` set ts" "distinct (map et_txid ts)"
    using Cons.prems by auto
  have rest: "wp (abind (progress_txs X env ctx ts) (\<lambda>(us, e). areturn (t\<lparr>et_status := st\<rparr> # us, e))) ?Q (\<lambda>e s'. True) s'"
    if step: "tx_step T xs (pc_fee_rate ctx) s t st s'" for st s'
    unfolding wp_abind
    by (rule wp_mono [OF Cons.IH]) (use step t txs_step_Cons [OF step _ t(1-3)] in \<open>auto simp: tx_step_def wp_basic\<close>)
  show ?case
    unfolding progress_txs.simps wp_abind [of "atry (progress_exit_tx X env ctx t)"] wp_atry
    by (rule wp_mono [OF wp_progress_exit_tx [OF assms(1) Cons.prems(1) t(1)]])
      (auto simp: wp_basic txs_step_def [of _ _ _ _ _ "(_, Some _)"] rest split: failure.splits)
qed

section \<open>The loop ends\<close>

text \<open>The state after one iteration that does not end the loop.\<close>

definition going_on ::
  "Txid set \<Rightarrow> TransactionInfo list \<Rightarrow> FeeRate \<Rightarrow> nat \<Rightarrow> ExitState \<Rightarrow> 'w exit_sys \<Rightarrow> bool" where
  "going_on T xs f n st s \<longleftrightarrow> (from_exit_state st = Continue \<longrightarrow>
     manager_exact T xs s \<and> (\<exists>p. st = Processing p \<and> total_rank f s (pr_transactions p) < n))"

lemma wp_processing_rank:
  assumes "children_fresh X env T" and exact: "manager_exact T xs s" and "exit_ready X xs v (pc_exit_txids ctx)"
    and q: "map et_txid (pr_transactions q) = pc_exit_txids ctx" "distinct (pc_exit_txids ctx)"
    and n: "total_rank (pc_fee_rate ctx) s (pr_transactions q) < n + (if from_exit_state (Processing q) = Continue then 1 else 0)"
  shows "wp (progress_processing X env ctx q) (going_on T xs (pc_fee_rate ctx) n) (\<lambda>e s'. True) s"
proof -
  let ?f = "pc_fee_rate ctx" and ?ts = "pr_transactions q"
  have len: "length ?ts = length (pc_exit_txids ctx)" using q(1) by (metis length_map)
  have sub: "et_txid ` set ?ts \<subseteq> tracked xs" using assms(3) q by (metis exit_ready_def list.set_map)
  have dist: "distinct (map et_txid ?ts)" using q by simp
  have after: "wp (finish_processing ctx q tip r) (going_on T xs ?f n) (\<lambda>e s'. True) s''"
    if "txs_step T xs ?f s' ?ts r s''" "total_rank ?f s' ?ts = total_rank ?f s ?ts" for r s' s'' tip
    using that n
    by (auto simp: finish_processing_def wp_simps txs_step_def going_on_def new_state_defs
        split: prod.splits option.splits sum.splits if_splits)
  have "wp (abind (progress_txs X env ctx ?ts) (finish_processing ctx q tip)) (going_on T xs ?f n) (\<lambda>e s'. True) s'"
    if "same_views T xs s s'" for s' tip
  proof -
    have "total_rank ?f s' ?ts = total_rank ?f s ?ts"
      by (rule total_rank_frame) (use that sub in \<open>auto simp: same_views_def\<close>)
    moreover have "manager_exact T xs s'" using that by (simp add: same_views_def)
    ultimately show ?thesis
      unfolding wp_abind by (intro wp_mono [OF wp_progress_txs_rank [OF assms(1) _ sub dist]]) (auto intro: after)
  qed
  then show ?thesis
    unfolding progress_processing_def wp_abind [of "amap_err from_exit_error (tip_height env)"] wp_cases wp_amap_err
    using len by (auto intro!: wp_mono [OF keepsD [OF keeps_same_views(4) same_views_refl [OF exact]]] split: failure.splits)
qed

lemma from_exit_state_edge:
  assumes "exit_edge txids delta st st'" "from_exit_state st' = Continue"
  shows "(\<exists>p. st' = Processing p) \<and> ((\<exists>a. st = Start a) \<or> (\<exists>a. st = Processing a) \<or> (\<exists>a. st = AwaitingDelta a))"
  using assms by (cases rule: exit_edge.cases) (auto simp: new_state_defs)

text \<open>The first iteration may start from any state.\<close>

lemma wp_first_progress:
  assumes env: "children_fresh X env T" "spends_found env"
    and exact: "manager_exact T xs s" and ready: "exit_ready X xs (pc_vtxo ctx) (pc_exit_txids ctx)"
    and st: "exit_inv (pc_exit_txids ctx) (v_exit_delta (pc_vtxo ctx)) st" and dist: "distinct (pc_exit_txids ctx)"
    and n: "6 * length (pc_exit_txids ctx) < n"
  shows "wp (exit_progress X env ctx st) (going_on T xs (pc_fee_rate ctx) n) (\<lambda>e s'. True) s"
proof -
  let ?f = "pc_fee_rate ctx" and ?txids = "pc_exit_txids ctx"
  have fresh: "going_on T xs ?f n (new_processing tip ?txids) s'" if "manager_exact T xs s'" for tip s'
    using that n total_rank_le [of ?f s' "map (\<lambda>id. \<lparr>et_txid = id, et_status = VerifyInputs\<rparr>) ?txids"]
    by (simp add: going_on_def new_processing_def)
  have edges: "wp (exit_progress X env ctx st) (\<lambda>st' s'. st' = st \<or> exit_edge ?txids (v_exit_delta (pc_vtxo ctx)) st st')
      (\<lambda>e s'. True) s"
    by (rule wp_mono [OF wp_exit_progress [OF env(2) manager_exact_inv [OF exact] ready st]]) auto
  have late: "going_on T xs ?f n st' s'"
    if "st' = st \<or> exit_edge ?txids (v_exit_delta (pc_vtxo ctx)) st st'" "\<not> is_pending st" for st' s'
    using that from_exit_state_edge [of ?txids "v_exit_delta (pc_vtxo ctx)" st st'] by (cases st) (auto simp: going_on_def)
  show ?thesis
  proof (cases st)
    case (Start a)
    obtain items where "vtxo_transactions X (pc_vtxo ctx) = (Ok items :: (ExitProgressError, VtxoTxIterItem list) outcome)"
      using ready by (auto simp: exit_ready_def)
    then show ?thesis
      using Start exact fresh
      by (auto simp: progress_start_def estimate_exit_cost_def wp_simps wp_query split: prod.splits intro!: fresh)
  next
    case (Processing a)
    have "length (pr_transactions a) = length ?txids" using st Processing by (metis exit_inv.simps(1) length_map)
    then have "total_rank ?f s (pr_transactions a) < n + (if from_exit_state (Processing a) = Continue then 1 else 0)"
      using total_rank_le [of ?f s "pr_transactions a"] n by simp
    then show ?thesis
      using wp_processing_rank [OF env(1) exact ready _ dist] st Processing by simp
  next
    case (AwaitingDelta a)
    let ?point = "op_txid (v_point (pc_vtxo ctx))"
    have "wp (abind (amap_err from_exit_error (check_confirmed env ?point)) (\<lambda>confirmed.
        if \<not> confirmed then areturn (new_processing tip ?txids)
        else if aw_claimable_height a \<le> tip
        then abind (amap_err from_exit_error (get_block_ref env (aw_claimable_height a)))
               (\<lambda>spendable_block. areturn (new_claimable tip spendable_block None))
        else areturn (AwaitingDelta a))) (going_on T xs ?f n) (\<lambda>e s'. True) s'"
      if "same_views T xs s s'" for tip s'
    proof -
      have *: "wp (if \<not> confirmed then areturn (new_processing tip ?txids)
        else if aw_claimable_height a \<le> tip
        then abind (amap_err from_exit_error (get_block_ref env (aw_claimable_height a)))
               (\<lambda>spendable_block. areturn (new_claimable tip spendable_block None))
        else areturn (AwaitingDelta a)) (going_on T xs ?f n) (\<lambda>e s'. True) s''"
        if "same_views T xs s s''" for confirmed s''
      proof -
        have "wp (abind (amap_err from_exit_error (get_block_ref env (aw_claimable_height a)))
            (\<lambda>spendable_block. areturn (new_claimable tip spendable_block None))) (going_on T xs ?f n) (\<lambda>e s'. True) s''"
          unfolding wp_abind wp_basic by (rule wp_mono [OF wp_True]) (auto simp: going_on_def new_claimable_def)
        then show ?thesis
          using fresh [of s''] that by (auto simp: wp_cases wp_basic same_views_def going_on_def [of _ _ _ _ "AwaitingDelta a"])
      qed
      show ?thesis
        unfolding wp_abind [of "amap_err from_exit_error (check_confirmed env ?point)"] wp_amap_err
        by (rule wp_mono [OF keepsD [OF keeps_same_views(1) that] *]) (auto split: failure.splits)
    qed
    then show ?thesis
      unfolding AwaitingDelta exit_progress.simps progress_awaiting_delta_def
        wp_abind [of "amap_err from_exit_error (tip_height env)"] wp_amap_err
      by (intro wp_mono [OF keepsD [OF keeps_same_views(4) same_views_refl [OF exact]]]) (auto split: failure.splits)
  qed (rule wp_mono [OF edges late]; simp)+
qed

lemma going_on_world [simp]: "going_on T xs f n st (s\<lparr>sy_world := w\<rparr>) = going_on T xs f n st s"
proof -
  have "tx_rank f (s\<lparr>sy_world := w\<rparr>) = tx_rank f s" by (simp add: tx_rank_def fun_eq_iff)
  then show ?thesis by (simp add: going_on_def total_rank_def)
qed

lemma wp_update_state_world:
  "wp (update_state_if_newer env ev new) (\<lambda>r t. (\<exists>w. t = s\<lparr>sy_world := w\<rparr>) \<and> fst r = exit_next ev new) (\<lambda>e t. True) s"
proof -
  have "\<exists>w. s = s\<lparr>sy_world := w\<rparr>" by (rule exI [of _ "sy_world s"]) simp
  then show ?thesis
    by (auto simp: update_state_if_newer_def exit_persist_def wp_simps wp_call exit_next_def Let_def
        split: prod.splits sum.splits)
qed

definition fee_fixed :: "'w exit_env \<Rightarrow> FeeRate option \<Rightarrow> FeeRate \<Rightarrow> bool" where
  "fee_fixed env fee_rate_override f \<longleftrightarrow>
     (case fee_rate_override of Some g \<Rightarrow> g = f | None \<Rightarrow> \<forall>w. fst (chain_fast_fee_rate env w) = f)"

definition ended :: "ExitVtxo \<times> (ExitError + unit) option \<Rightarrow> bool" where
  "ended r \<longleftrightarrow> snd r \<noteq> None"

lemma ended_simps [simp]: "ended (ev, Some r)" "\<not> ended (ev, None)"
  by (simp_all add: ended_def)

text \<open>One iteration, with what the rest of the loop is known to do.\<close>

lemma wp_loop_iteration:
  assumes fee: "fee_fixed env fo f"
    and step: "\<And>w. wp (exit_progress X env \<lparr>pc_vtxo = vtxo, pc_exit_txids = txids, pc_fee_rate = f\<rparr> (ev_state ev))
      (\<lambda>st' s'. (st' = ev_state ev \<or> exit_edge txids delta (ev_state ev) st') \<and> going_on T xs f n st' s')
      (\<lambda>e s'. \<not> not_panic e \<longrightarrow> False) (s\<lparr>sy_world := w\<rparr>)"
    and inv: "exit_inv txids delta (ev_state ev)"
    and rest: "\<And>ev' s'. exit_inv txids delta (ev_state ev') \<Longrightarrow> from_exit_state (ev_state ev') = Continue \<Longrightarrow>
      going_on T xs f n (ev_state ev') s' \<Longrightarrow>
      wp (exit_loop n X env fo c vtxo txids ev') (\<lambda>r s'. ended r) (\<lambda>e s'. True) s'"
  shows "wp (exit_loop (Suc n) X env fo c vtxo txids ev) (\<lambda>r s'. ended r) (\<lambda>e s'. True) s"
proof -
  obtain fast w where w: "chain_fast_fee_rate env (sy_world s) = (fast, w)" by fastforce
  then have f: "(case fo of Some f \<Rightarrow> f | None \<Rightarrow> fast) = f"
    using fee by (auto simp: fee_fixed_def split: option.splits) (metis fst_conv)
  let ?k = "\<lambda>(ev', stored). case stored of
      Inl e \<Rightarrow> areturn (ev', Some (Inl e))
    | Inr _ \<Rightarrow>
        if \<not> c then areturn (ev', Some (Inr ()))
        else (case from_exit_state (ev_state ev') of
                Done \<Rightarrow> areturn (ev', Some (Inr ()))
              | Continue \<Rightarrow> exit_loop n X env fo c vtxo txids ev')"
  have ok: "wp (abind (update_state_if_newer env ev st') ?k) (\<lambda>r s'. ended r) (\<lambda>e s'. True) s'"
    if "st' = ev_state ev \<or> exit_edge txids delta (ev_state ev) st'" "going_on T xs f n st' s'" for st' s'
    unfolding wp_abind
  proof (rule wp_mono [OF wp_update_state_world])
    fix r :: "ExitVtxo \<times> (ExitError + unit)" and t
    assume r: "(\<exists>w. t = s'\<lparr>sy_world := w\<rparr>) \<and> fst r = exit_next ev st'"
    have "wp (exit_loop n X env fo c vtxo txids (exit_next ev st')) (\<lambda>r s'. ended r) (\<lambda>e s'. True) t"
      if "from_exit_state st' = Continue"
      by (rule rest) (use that r \<open>going_on T xs f n st' s'\<close> exit_next_inv [OF inv \<open>st' = _ \<or> _\<close>] in auto)
    then show "wp (?k r) (\<lambda>r s'. ended r) (\<lambda>e s'. True) t"
      using r by (cases r; cases "snd r"; cases "from_exit_state st'") (auto simp: wp_basic)
  qed simp
  have failed: "wp (case pe_state e of
      None \<Rightarrow> areturn (ev, Some (Inl (pe_error e)))
    | Some new_state \<Rightarrow> abind (update_state_if_newer env ev new_state) (\<lambda>(ev', stored).
        areturn (ev', Some (case stored of Inl e' \<Rightarrow> Inl e' | Inr _ \<Rightarrow> Inl (pe_error e)))))
      (\<lambda>r s'. ended r) (\<lambda>e s'. True) s'" for e s'
  proof (cases "pe_state e")
    case (Some st')
    show ?thesis
      unfolding Some option.case wp_abind by (rule wp_mono [OF wp_True]) (auto simp: wp_basic split: prod.splits)
  qed (simp add: wp_basic)
  show ?thesis
    unfolding exit_loop.simps Let_def wp_abind [of "query (chain_fast_fee_rate env)"] wp_query w prod.case f
      wp_abind [of "atry (exit_progress X env _ (ev_state ev))"] wp_atry
    by (rule wp_mono [OF step]) (auto intro: ok failed split: failure.splits)
qed

lemma wp_loop_ends:
  assumes env: "children_fresh X env T" "spends_found env" "fee_fixed env fo f"
    and ready: "exit_ready X xs vtxo txids" "distinct txids"
    and st: "exit_inv txids (v_exit_delta vtxo) (ev_state ev)"
      "from_exit_state (ev_state ev) = Continue" "going_on T xs f n (ev_state ev) s"
  shows "wp (exit_loop n X env fo c vtxo txids ev) (\<lambda>r s'. ended r) (\<lambda>e s'. True) s"
  using st
proof (induction n arbitrary: ev s)
  case 0
  then show ?case by (simp add: going_on_def)
next
  case (Suc n)
  let ?ctx = "\<lparr>pc_vtxo = vtxo, pc_exit_txids = txids, pc_fee_rate = f\<rparr>"
  from Suc.prems(2,3) obtain p where p: "ev_state ev = Processing p" and exact: "manager_exact T xs s"
    and rank: "total_rank f s (pr_transactions p) < Suc n"
    by (auto simp: going_on_def)
  note inv = manager_exact_inv [OF exact]
  show ?case
    using env(3)
  proof (rule wp_loop_iteration [OF _ _ Suc.prems(1) Suc.IH])
    fix w
    have edge: "wp (exit_progress X env ?ctx (ev_state ev))
        (\<lambda>st' s'. st' = ev_state ev \<or> exit_edge txids (v_exit_delta vtxo) (ev_state ev) st') (\<lambda>e s'. not_panic e) (s\<lparr>sy_world := w\<rparr>)"
      by (rule wp_mono [OF wp_exit_progress [OF env(2), of "{}" xs]])
        (use inv ready(1) Suc.prems(1) in \<open>auto elim: progress_failure.elims\<close>)
    have "total_rank f (s\<lparr>sy_world := w\<rparr>) (pr_transactions p) = total_rank f s (pr_transactions p)"
      by (rule total_rank_frame) simp
    then have "wp (progress_processing X env ?ctx p) (going_on T xs (pc_fee_rate ?ctx) n) (\<lambda>e s'. True) (s\<lparr>sy_world := w\<rparr>)"
      using exact ready Suc.prems(1,2) rank p by (intro wp_processing_rank [OF env(1)]) auto
    then show "wp (exit_progress X env ?ctx (ev_state ev))
        (\<lambda>st' s'. (st' = ev_state ev \<or> exit_edge txids (v_exit_delta vtxo) (ev_state ev) st') \<and> going_on T xs f n st' s')
        (\<lambda>e s'. \<not> not_panic e \<longrightarrow> False) (s\<lparr>sy_world := w\<rparr>)"
      using wp_conj [OF edge, of "going_on T xs f n" "\<lambda>e s'. True"] p by simp
  qed
qed

lemma exit_driver_ends_aux:
  assumes env: "children_fresh X env T" "spends_found env" "fee_fixed env fo f"
    and exact: "manager_exact T xs s" and ready: "exit_stored X env xs vtxo ev txids" "distinct txids"
    and st: "exit_inv txids (v_exit_delta vtxo) (ev_state ev)" and len: "length txids \<le> 16"
  shows "wp (ExitVtxo_progress X env fo c ev) (\<lambda>r s'. ended r) (\<lambda>e s'. True) s"
proof -
  let ?ctx = "\<lparr>pc_vtxo = vtxo, pc_exit_txids = txids, pc_fee_rate = f\<rparr>"
  have ok: "exit_ready X xs vtxo txids" using ready(1) by (simp add: exit_stored_def)
  have "wp (exit_loop (Suc 99) X env fo c vtxo txids ev) (\<lambda>r s'. ended r) (\<lambda>e s'. True) t"
    if t: "manager_exact T xs t" for t
    using env(3)
  proof (rule wp_loop_iteration [OF _ _ st wp_loop_ends [OF env ok ready(2)]])
    fix w
    have edge: "wp (exit_progress X env ?ctx (ev_state ev))
        (\<lambda>st' s'. st' = ev_state ev \<or> exit_edge txids (v_exit_delta vtxo) (ev_state ev) st') (\<lambda>e s'. not_panic e) (t\<lparr>sy_world := w\<rparr>)"
      by (rule wp_mono [OF wp_exit_progress [OF env(2), of "{}" xs]])
        (use manager_exact_inv [OF t] ok st in \<open>auto elim: progress_failure.elims\<close>)
    have "wp (exit_progress X env ?ctx (ev_state ev)) (going_on T xs (pc_fee_rate ?ctx) 99) (\<lambda>e s'. True) (t\<lparr>sy_world := w\<rparr>)"
      by (rule wp_first_progress [OF env(1,2)]) (use t ok st ready(2) len in simp_all)
    then show "wp (exit_progress X env ?ctx (ev_state ev))
        (\<lambda>st' s'. (st' = ev_state ev \<or> exit_edge txids (v_exit_delta vtxo) (ev_state ev) st') \<and> going_on T xs f 99 st' s')
        (\<lambda>e s'. \<not> not_panic e \<longrightarrow> False) (t\<lparr>sy_world := w\<rparr>)"
      using wp_conj [OF edge, of "going_on T xs f 99" "\<lambda>e s'. True"] by simp
  qed
  then have loop: "wp (exit_loop MAX_ITERATIONS X env fo c vtxo txids ev) (\<lambda>r s'. ended r) (\<lambda>e s'. True) (s\<lparr>sy_world := w\<rparr>)"
    for w using exact by (simp add: MAX_ITERATIONS_def eval_nat_numeral del: exit_loop.simps)
  obtain r w where db: "db_wallet_vtxo env (ev_vtxo_id ev) (sy_world s) = (r, w)" by fastforce
  have "v = vtxo" if "r = Inr (Some v)" for v using ready(1) db that by (auto simp: exit_stored_def)
  then show ?thesis
    using loop ready(1) db
    by (auto simp: ExitVtxo_progress_def exit_stored_def get_vtxo_def wp_simps wp_call split: sum.splits option.splits)
qed

section \<open>The index of the exit transactions\<close>

text \<open>Only tracking changes where the index finds an exit transaction, errors and panics included.\<close>

definition index_kept :: "Txid set \<Rightarrow> 'w exit_sys \<Rightarrow> 'w exit_sys \<Rightarrow> bool" where
  "index_kept T s s' \<longleftrightarrow> (\<forall>t \<in> T. sy_index s' t = sy_index s t)"

lemma stays_world [stays_intros]:
  "stays (index_kept T s) (call f g)" "stays (index_kept T s) (query h)"
  "stays (index_kept T s) (set_status t st)" "stays (index_kept T s) (set_child p c)"
  by (auto simp: stays_def wp_simps set_status_def set_child_def index_kept_def intro!: wp_callI wp_queryI)

lemma stays_manager [stays_intros]:
  "stays (index_kept T s) (manager_tip env)"
  "stays (index_kept T s) (get_tx_status env t)"
  "stays (index_kept T s) (tx_status env t)"
  "stays (index_kept T s) (get_package env t)"
  "stays (index_kept T s) (read_package env t)"
  "stays (index_kept T s) (broadcast_package env pkg)"
  "stays (index_kept T s) (network_origin env t st)"
  "stays (index_kept T s) (download_child env t)"
  "stays (index_kept T s) (update_child_from_network X env p h)"
  "stays (index_kept T s) (get_child_status env t)"
  "stays (index_kept T s) (get_child_txid env t)"
  unfolding manager_tip_def get_tx_status_def tx_status_def get_package_def read_package_def broadcast_package_def
    network_origin_def download_child_def update_child_from_network_def get_child_status_def get_child_txid_def Let_def
  by (intro stays_intros)+

lemma stays_sync [stays_intros]: "stays (index_kept T s) (manager_sync X env)"
proof -
  have "stays (index_kept T s) (sync_tx X env tip t u)" for tip t u
    unfolding sync_tx_def by (auto intro!: stays_intros split: TxStatus.splits ExitError.splits)
  then show ?thesis unfolding manager_sync_def by (intro stays_intros)
qed

lemma stays_context [stays_intros]:
  "stays (index_kept T s) (check_confirmed env t)"
  "stays (index_kept T s) (check_status_from_inputs env U)"
  "stays (index_kept T s) (create_exit_cpfp_tx env ctx tx fees)"
  "stays (index_kept T s) (get_block_ref env h)"
  "stays (index_kept T s) (get_unique_inputs env t)"
  "stays (index_kept T s) (tip_height env)"
  unfolding check_confirmed_def check_status_from_inputs_def create_exit_cpfp_tx_def get_block_ref_def
    get_unique_inputs_def tip_height_def Let_def
  by (intro stays_intros)+

lemma stays_exit_status [stays_intros]:
  "stays (index_kept T s) (get_exit_tx_status env ctx exit)"
  "stays (index_kept T s) (get_exit_child_status env ctx exit)"
proof -
  show "stays (index_kept T s) (get_exit_tx_status env ctx exit)"
    unfolding get_exit_tx_status_def by (auto intro!: stays_intros split: TxStatus.splits ExitTxOrigin.splits)
  then show "stays (index_kept T s) (get_exit_child_status env ctx exit)"
    unfolding get_exit_child_status_def by (intro stays_intros)
qed

lemma stays_new_child:
  assumes "children_fresh X env T"
  shows "stays (index_kept T s) (abind (create_exit_cpfp_tx env ctx tx fees) (\<lambda>child_tx.
     let origin = OWallet None in
     abind (set_wallet_child_tx X env t child_tx origin) (\<lambda>child_txid.
     areturn (NeedsBroadcasting child_txid origin))))"
proof -
  have set: "wp (abind (set_wallet_child_tx X env t c o') (\<lambda>child_txid. areturn (NeedsBroadcasting child_txid o')))
      (\<lambda>_. index_kept T s) (\<lambda>_. index_kept T s) s'"
    if "index_kept T s s'" "ext_txid X c \<notin> T" for c o' s'
  proof -
    have "stays (index_kept T s) (set_index (ext_txid X c) p)" for p
      using that(2) by (auto simp: stays_def wp_simps set_index_def index_kept_def)
    then have "stays (index_kept T s) (abind (set_wallet_child_tx X env t c o') (\<lambda>child_txid. areturn (NeedsBroadcasting child_txid o')))"
      unfolding set_wallet_child_tx_def Let_def by (intro stays_intros)
    then show ?thesis using that(1) by (simp add: stays_def)
  qed
  show ?thesis
    unfolding stays_def create_exit_cpfp_tx_def Let_def wp_abind [of "call _ _"] wp_call
    using set children_freshD(3) [OF assms] by (auto simp: index_kept_def split: prod.splits sum.splits)
qed

lemma stays_exit_tx:
  assumes "children_fresh X env T"
  shows "stays (index_kept T s) (progress_exit_tx X env ctx exit)"
proof -
  note new = stays_new_child [OF assms, unfolded Let_def]
  have "stays (index_kept T s) (create_package X env ctx exit)"
    unfolding create_package_def Let_def by (intro stays_intros new)
  moreover have "stays (index_kept T s) (replace_package X env ctx exit)"
    unfolding replace_package_def Let_def by (intro stays_intros) (auto intro!: stays_intros new split: ExitTxStatus.splits)
  moreover have "stays (index_kept T s) (broadcast_exit env ctx exit)"
    unfolding broadcast_exit_def by (intro stays_intros) (auto intro!: stays_intros split: ExitTxStatus.splits)
  ultimately show ?thesis by (auto intro!: stays_intros split: ExitTxStatus.splits)
qed

lemma stays_exit_progress:
  assumes "children_fresh X env T"
  shows "stays (index_kept T s) (exit_progress X env ctx st)"
proof -
  have txs: "stays (index_kept T s) (progress_txs X env ctx ts)" for ts
    by (induction ts) (auto intro!: stays_intros stays_exit_tx [OF assms] simp del: progress_exit_tx.simps)
  have finish: "stays (index_kept T s) (finish_processing ctx p tip r)" for p tip r
    unfolding finish_processing_def by (intro stays_intros)
  show ?thesis
  proof (cases st)
    case (Claimable a)
    have "stays (index_kept T s) (progress_claimable env ctx a)"
      unfolding progress_claimable_def Let_def by (intro stays_intros) (auto intro!: stays_intros split: TxStatus.splits)
    with Claimable show ?thesis by simp
  qed (auto intro!: stays_intros txs finish simp: progress_start_def estimate_exit_cost_def progress_processing_def
      progress_awaiting_delta_def progress_claim_in_progress_def)
qed

lemma stays_driver:
  assumes "children_fresh X env T"
  shows "stays (index_kept T s) (ExitVtxo_progress X env fo c ev)"
proof -
  have update: "stays (index_kept T s) (update_state_if_newer env ev st)" for ev st
    unfolding update_state_if_newer_def exit_persist_def Let_def by (intro stays_intros)
  have "stays (index_kept T s) (exit_loop n X env fo c vtxo txids ev)" for n vtxo txids
  proof (induction n arbitrary: ev)
    case (Suc n)
    then show ?case
      by (auto intro!: stays_intros update stays_exit_progress [OF assms] simp: Let_def split: ProgressStep.splits)
  qed (simp add: stays_intros)
  then show ?thesis
    unfolding ExitVtxo_progress_def get_vtxo_def by (intro stays_intros)
qed

lemma manager_exact_kept:
  assumes "manager_exact T xs s" "index_kept T s s'" "manager_inv {} xs s'"
  shows "manager_exact T xs s'"
  using assms unfolding manager_exact_def index_kept_def by simp

section \<open>Properties\<close>


lemma find_anchor_None: "find_anchor X i os = None \<longleftrightarrow> (\<forall>o' \<in> set os. \<not> is_p2a_fee_anchor X o')"
  by (induction os arbitrary: i) auto

lemma item_tx_anchor: "tx_fee_anchor X (item_tx X i p n s h) \<noteq> None"
  by (simp add: tx_fee_anchor_def find_anchor_None item_tx_def del: not_None_eq)

text \<open>The two exit transactions of the concrete VTXO, given to an empty manager.\<close>

definition empty_sys :: "unit exit_sys" where
  "empty_sys = \<lparr>sy_packages = [], sy_index = Map.empty, sy_status = Map.empty, sy_world = ()\<rparr>"

lemma demo_exit_items:
  obtains a b where "(vtxo_transactions demo_ext demo_vtxo :: ('e, VtxoTxIterItem list) outcome) = Ok [a, b]"
    "(vtxo_transactions demo_ext demo_vtxo :: ('f, VtxoTxIterItem list) outcome) = Ok [a, b]"
    "ext_txid demo_ext (ii_tx a) = replicate 32 3" "ext_txid demo_ext (ii_tx b) = replicate 32 2"
    "tx_fee_anchor demo_ext (ii_tx a) \<noteq> None" "tx_fee_anchor demo_ext (ii_tx b) \<noteq> None"
proof -
  have ok: "vtxo_locktimes_ok demo_vtxo" "onchain_amount demo_vtxo = Some 1400"
    by (simp_all add: vtxo_locktimes_ok_def demo_vtxo_def locktime_ok_def onchain_amount_eq_Some
        other_value_def u64_limit_def)
  have txid: "ext_txid demo_ext tx = replicate 32 (word_of_nat (length (tx_output tx)))" for tx
    by (simp add: demo_ext_def)
  have two: "\<exists>t u. exit_chain X v a p [i, j] = [t, u] \<and> length (tx_output t) = length (gi_other_outputs i) + 2 \<and>
      length (tx_output u) = length (gi_other_outputs j) + 2 \<and> tx_fee_anchor X t \<noteq> None \<and> tx_fee_anchor X u \<noteq> None"
    for X v a p i j by (simp add: Let_def item_tx_anchor del: not_None_eq)
  have "\<exists>i j. v_genesis demo_vtxo = [i, j] \<and> length (gi_other_outputs i) = 1 \<and> length (gi_other_outputs j) = 0"
    by (simp add: demo_vtxo_def)
  then obtain i j where g: "v_genesis demo_vtxo = [i, j]" "length (gi_other_outputs i) = 1" "length (gi_other_outputs j) = 0"
    by blast
  obtain t u where c: "exit_chain demo_ext demo_vtxo 1400 (v_anchor_point demo_vtxo) [i, j] = [t, u]"
    "length (tx_output t) = 3" "length (tx_output u) = 2" "tx_fee_anchor demo_ext t \<noteq> None" "tx_fee_anchor demo_ext u \<noteq> None"
    using two [of demo_ext demo_vtxo 1400 "v_anchor_point demo_vtxo" i j] g(2,3) by auto
  show thesis
    by (rule that [of "\<lparr>ii_tx = t, ii_output_idx = unat (gi_output_idx i)\<rparr>" "\<lparr>ii_tx = u, ii_output_idx = unat (gi_output_idx j)\<rparr>"])
      (use c in \<open>simp_all add: vtxo_transactions_run [OF ok(1)] ok(2) g(1) txid del: exit_chain.simps\<close>)
qed

lemma demo_exitable: "exitable demo_vtxo"
  by (simp add: exitable_def vtxo_locktimes_ok_def demo_vtxo_def locktime_ok_def onchain_amount_eq_Some
      other_value_def u64_limit_def)

lemma demo_txids: "vtxo_exit_txids demo_ext demo_vtxo = [replicate 32 3, replicate 32 2]"
  by (rule demo_exit_items [where 'e = unit and 'f = unit]) (simp add: vtxo_exit_txids_def)

lemma demo_initialize:
  "\<exists>s. exit_initialize demo_ext demo_env (ExitVtxo_new demo_vtxo 300) empty_sys =
     (Ok ((ExitVtxo_new demo_vtxo 300)\<lparr>ev_txids := Some [replicate 32 3, replicate 32 2]\<rparr>), s)"
proof -
  obtain a b where ab: "(vtxo_transactions demo_ext demo_vtxo :: (ExitError, VtxoTxIterItem list) outcome) = Ok [a, b]"
    "ext_txid demo_ext (ii_tx a) = replicate 32 3" "ext_txid demo_ext (ii_tx b) = replicate 32 2"
    "tx_fee_anchor demo_ext (ii_tx a) \<noteq> None" "tx_fee_anchor demo_ext (ii_tx b) \<noteq> None"
    by (rule demo_exit_items [where 'e = ExitError and 'f = unit])
  have neq: "replicate 32 (2 :: byte) \<noteq> replicate 32 3" by simp
  show ?thesis
    using ab neq
    by (auto simp: exit_initialize_def get_vtxo_def track_vtxo_exits_def track_exit_tx_def find_child_locally_def
        find_child_in_wallet_def find_child_in_database_def call_def query_def abind_def areturn_def aget_def amodify_def
        alift_def set_index_def set_status_def demo_env_def empty_sys_def Let_def)
qed


end
