(* ===== verification/Ark_Exits.thy ===== *)
theory Ark_Exits
  imports Ark_Exit_Run
begin

text \<open>
  The exits of a wallet (\<open>bark/src/exit/mod.rs\<close>): the list of exits with the operations that start, load,
  synchronize and progress them, and the transaction that claims their outputs
  (\<open>drain_exits\<close> with \<open>bark/src/psbtext.rs\<close>). The list is passed and returned; an operation that may fail
  after it has changed the list returns the list next to its result.
\<close>

section \<open>Data\<close>

text \<open>An \<open>anyhow::Error\<close> with its message, or one made from an \<open>ExitError\<close>.\<close>

datatype wallet_error = Anyhow string | FromExit ExitError

record 'w exits_env =
  xe_env :: "'w exit_env"
  db_exit_vtxo_entries :: "'w \<Rightarrow> (string + StoredExit list) \<times> 'w"
  db_remove_exit_vtxo_entry :: "VtxoId \<Rightarrow> 'w \<Rightarrow> (string + unit) \<times> 'w"
  \<comment> \<open>\<open>get_vtxos_by_state(UNSPENT_STATES)\<close> and \<open>update_vtxo_state_checked(id, Spent, UNSPENT_STATES)\<close>\<close>
  db_unspent_vtxos :: "'w \<Rightarrow> (string + Vtxo list) \<times> 'w"
  db_mark_spent :: "VtxoId \<Rightarrow> 'w \<Rightarrow> (string + unit) \<times> 'w"
  new_exit_movement :: "VtxoId \<Rightarrow> Amount \<Rightarrow> ScriptBuf \<Rightarrow> 'w \<Rightarrow> (string + unit) \<times> 'w"
  chain_regular_fee_rate :: "'w \<Rightarrow> FeeRate \<times> 'w"
  db_public_key_idx :: "PublicKey \<Rightarrow> 'w \<Rightarrow> (string + u32 option) \<times> 'w"
  derive_keypair :: "u32 \<Rightarrow> Keypair"
  \<comment> \<open>\<open>taproot_script_spend_signature_hash\<close> at an input, and the weight of a transaction times a fee rate\<close>
  claim_sighash :: "Transaction \<Rightarrow> nat \<Rightarrow> TxOut list \<Rightarrow> script \<Rightarrow> bytes"
  fee_for_weight :: "FeeRate \<Rightarrow> Transaction \<Rightarrow> Amount"

record ExitProgressStatus =
  ps_vtxo_id :: VtxoId
  ps_state :: ExitState
  ps_error :: "ExitError option"

record ExitTransactionStatus =
  ts_vtxo_id :: VtxoId
  ts_state :: ExitState
  ts_history :: "ExitState list option"
  ts_transactions :: "ExitTransactionPackage list"

section \<open>Queries\<close>

definition get_exit_vtxo :: "ExitVtxo list \<Rightarrow> VtxoId \<Rightarrow> ExitVtxo option" where
  "get_exit_vtxo evs i = find (\<lambda>ev. ev_vtxo_id ev = i) evs"

definition get_exit_status ::
  "externals \<Rightarrow> 'w exit_env \<Rightarrow> ExitVtxo list \<Rightarrow> VtxoId \<Rightarrow> bool \<Rightarrow> bool \<Rightarrow> ('w, ExitTransactionStatus option) exit_action" where
  "get_exit_status X env evs i include_history include_transactions =
     (case find (\<lambda>ev. ev_vtxo_id ev = i) evs of
        None \<Rightarrow> areturn None
      | Some exit \<Rightarrow>
          abind
            (if \<not> include_transactions then areturn []
             else
               (case ev_txids exit of
                  Some txids \<Rightarrow>
                    afold (\<lambda>txid txs. abind (read_package env txid) (\<lambda>package. areturn (txs @ [package]))) txids []
                | None \<Rightarrow>
                    abind (get_vtxo env exit) (\<lambda>vtxo.
                    abind (alift (vtxo_transactions X vtxo)) (\<lambda>items.
                    areturn (map (\<lambda>item. \<lparr>pk_exit = \<lparr>ti_txid = ext_txid X (ii_tx item), ti_tx = ii_tx item\<rparr>,
                                           pk_child = None\<rparr>) items))))) (\<lambda>txs.
          areturn (Some \<lparr>ts_vtxo_id = ev_vtxo_id exit, ts_state = ev_state exit,
            ts_history = (if include_history then Some (ev_history exit) else None), ts_transactions = txs\<rparr>)))"

definition has_pending_exits :: "ExitVtxo list \<Rightarrow> bool" where
  "has_pending_exits evs = list_ex (\<lambda>ev. is_pending (ev_state ev)) evs"

definition pending_total :: "ExitVtxo list \<Rightarrow> ('e, Amount) outcome" where
  "pending_total evs =
     expect (sum_amounts (map ev_amount (filter (\<lambda>ev. is_pending (ev_state ev)) evs))) ''attempt to add with overflow''"

fun is_claimed :: "ExitState \<Rightarrow> bool" where
  "is_claimed (Claimed _) = True"
| "is_claimed _ = False"

text \<open>The loop of \<open>all_claimable_at_height\<close>; \<open>cmp::max\<close> on options puts \<open>None\<close> first.\<close>

definition max_height :: "BlockHeight option \<Rightarrow> BlockHeight \<Rightarrow> BlockHeight option" where
  "max_height acc h = (case acc of None \<Rightarrow> Some h | Some a \<Rightarrow> Some (max a h))"

fun highest_claimable :: "BlockHeight option \<Rightarrow> ExitVtxo list \<Rightarrow> BlockHeight option" where
  "highest_claimable acc [] = acc"
| "highest_claimable acc (ev # evs) =
     (if is_claimed (ev_state ev) then highest_claimable acc evs
      else (case claimable_height (ev_state ev) of
              Some h \<Rightarrow> highest_claimable (max_height acc h) evs
            | None \<Rightarrow> None))"

definition all_claimable_at_height :: "ExitVtxo list \<Rightarrow> BlockHeight option" where
  "all_claimable_at_height evs = highest_claimable None evs"

definition list_claimable :: "ExitVtxo list \<Rightarrow> ExitVtxo list" where
  "list_claimable evs = filter is_claimable evs"

section \<open>Operations\<close>

type_synonym 'w exits_action = "('w exit_sys, unit, ExitVtxo list \<times> (wallet_error + unit)) action"

fun load_entries :: "externals \<Rightarrow> 'w exits_env \<Rightarrow> ExitVtxo list \<Rightarrow> StoredExit list \<Rightarrow> 'w exits_action" where
  "load_entries X env evs [] = areturn (evs, Inr ())"
| "load_entries X env evs (entry # entries) =
     abind (atry (call (db_wallet_vtxo (xe_env env) (se_vtxo_id entry)) Anyhow)) (\<lambda>r.
     case r of
       Inl e \<Rightarrow> areturn (evs, Inl e)
     | Inr None \<Rightarrow> load_entries X env evs entries
     | Inr (Some vtxo) \<Rightarrow>
         abind (alift (ExitVtxo_from_entry entry vtxo)) (\<lambda>exit.
         abind (atry (exit_initialize X (xe_env env) exit)) (\<lambda>r.
         case r of
           Inl e \<Rightarrow> areturn (evs, Inl (FromExit e))
         | Inr exit \<Rightarrow> load_entries X env (evs @ [exit]) entries)))"

definition exits_load :: "externals \<Rightarrow> 'w exits_env \<Rightarrow> ExitVtxo list \<Rightarrow> 'w exits_action" where
  "exits_load X env evs =
     abind (atry (call (db_exit_vtxo_entries env) Anyhow)) (\<lambda>r.
     case r of
       Inl e \<Rightarrow> areturn (evs, Inl e)
     | Inr entries \<Rightarrow> load_entries X env evs entries)"

fun start_exits :: "externals \<Rightarrow> 'w exits_env \<Rightarrow> BlockHeight \<Rightarrow> ExitVtxo list \<Rightarrow> Vtxo list \<Rightarrow> 'w exits_action" where
  "start_exits X env tip evs [] = areturn (evs, Inr ())"
| "start_exits X env tip evs (vtxo # vtxos) =
     (if list_ex (\<lambda>ev. ev_vtxo_id ev = vtxo_id vtxo) evs then start_exits X env tip evs vtxos
      else
        let exit = ExitVtxo_new vtxo tip in
        abind (atry (call (db_store_exit_vtxo_entry (xe_env env) (StoredExit_new exit)) Anyhow)) (\<lambda>stored.
        case stored of
          Inl e \<Rightarrow> areturn (evs, Inl e)
        | Inr _ \<Rightarrow>
            abind (atry (call (db_mark_spent env (vtxo_id vtxo)) Anyhow)) (\<lambda>marked.
            case marked of
              Inl e \<Rightarrow> areturn (evs, Inl e)
            | Inr _ \<Rightarrow>
                if 2 ^ 63 \<le> v_amount vtxo then areturn (evs @ [exit], Inl (Anyhow ''amount too big''))
                else
                  abind (atry (call (new_exit_movement env (vtxo_id vtxo) (v_amount vtxo) (txo_script (vtxo_txout X vtxo))) Anyhow)) (\<lambda>moved.
                  case moved of
                    Inl e \<Rightarrow> areturn (evs @ [exit], Inl e)
                  | Inr _ \<Rightarrow> start_exits X env tip (evs @ [exit]) vtxos))))"

definition start_exit_for_vtxos :: "externals \<Rightarrow> 'w exits_env \<Rightarrow> ExitVtxo list \<Rightarrow> Vtxo list \<Rightarrow> 'w exits_action" where
  "start_exit_for_vtxos X env evs vtxos =
     (if vtxos = [] then areturn (evs, Inr ())
      else
        abind (atry (call (chain_tip (xe_env env)) Anyhow)) (\<lambda>tip.
        case tip of
          Inl e \<Rightarrow> areturn (evs, Inl e)
        | Inr tip \<Rightarrow> start_exits X env tip evs vtxos))"

definition start_exit_for_entire_wallet :: "externals \<Rightarrow> 'w exits_env \<Rightarrow> ExitVtxo list \<Rightarrow> 'w exits_action" where
  "start_exit_for_entire_wallet X env evs =
     abind (atry (call (db_unspent_vtxos env) Anyhow)) (\<lambda>vtxos.
     case vtxos of
       Inl e \<Rightarrow> areturn (evs, Inl e)
     | Inr vtxos \<Rightarrow> start_exit_for_vtxos X env evs vtxos)"

fun remove_entries :: "'w exits_env \<Rightarrow> ExitVtxo list \<Rightarrow> ('w exit_sys, wallet_error, unit) action" where
  "remove_entries env [] = areturn ()"
| "remove_entries env (ev # evs) =
     abind (call (db_remove_exit_vtxo_entry env (ev_vtxo_id ev)) Anyhow) (\<lambda>_. remove_entries env evs)"

definition dangerous_clear_exit :: "'w exits_env \<Rightarrow> ExitVtxo list \<Rightarrow> 'w exits_action" where
  "dangerous_clear_exit env evs =
     abind (atry (remove_entries env evs)) (\<lambda>r.
     areturn (case r of Inl e \<Rightarrow> (evs, Inl e) | Inr _ \<Rightarrow> ([], Inr ())))"

definition progress_error :: "(ExitError + unit) option \<Rightarrow> ExitError option" where
  "progress_error r = (case r of Some (Inl e) \<Rightarrow> Some e | _ \<Rightarrow> None)"

fun progress_exits ::
  "externals \<Rightarrow> 'w exit_env \<Rightarrow> FeeRate option \<Rightarrow> ExitVtxo list \<Rightarrow>
   ('w exit_sys, unit, ExitVtxo list \<times> ExitProgressStatus list) action" where
  "progress_exits X env fee_rate_override [] = areturn ([], [])"
| "progress_exits X env fee_rate_override (ev # evs) =
     (if \<not> is_initialized ev then
        abind (progress_exits X env fee_rate_override evs) (\<lambda>(rest, statuses). areturn (ev # rest, statuses))
      else
        abind (ExitVtxo_progress X env fee_rate_override True ev) (\<lambda>(ev', r).
        abind (progress_exits X env fee_rate_override evs) (\<lambda>(rest, statuses).
        areturn (ev' # rest,
          (if is_claimed (ev_state ev') then statuses
           else \<lparr>ps_vtxo_id = ev_vtxo_id ev', ps_state = ev_state ev', ps_error = progress_error r\<rparr> # statuses)))))"

text \<open>An exit that cannot be initialized stays as it is and is tried again by the next call.\<close>

fun initialize_exits :: "externals \<Rightarrow> 'w exit_env \<Rightarrow> ExitVtxo list \<Rightarrow> ('w exit_sys, unit, ExitVtxo list) action" where
  "initialize_exits X env [] = areturn []"
| "initialize_exits X env (ev # evs) =
     abind (if is_initialized ev then areturn ev
            else abind (atry (exit_initialize X env ev)) (\<lambda>r. areturn (case r of Inr ev' \<Rightarrow> ev' | Inl _ \<Rightarrow> ev))) (\<lambda>ev'.
     abind (initialize_exits X env evs) (\<lambda>rest.
     areturn (ev' # rest)))"

definition sync_no_progress :: "externals \<Rightarrow> 'w exit_env \<Rightarrow> ExitVtxo list \<Rightarrow> 'w exits_action" where
  "sync_no_progress X env evs =
     abind (initialize_exits X env evs) (\<lambda>evs.
     abind (atry (manager_sync X env)) (\<lambda>r.
     areturn (evs, case r of Inl e \<Rightarrow> Inl (FromExit e) | Inr _ \<Rightarrow> Inr ())))"

fun update_exits :: "externals \<Rightarrow> 'w exit_env \<Rightarrow> ExitVtxo list \<Rightarrow> ('w exit_sys, unit, ExitVtxo list) action" where
  "update_exits X env [] = areturn []"
| "update_exits X env (ev # evs) =
     abind (if requires_network_update (ev_state ev)
            then abind (ExitVtxo_progress X env None False ev) (\<lambda>(ev', _). areturn ev')
            else areturn ev) (\<lambda>ev'.
     abind (update_exits X env evs) (\<lambda>rest.
     areturn (ev' # rest)))"

definition exits_sync :: "externals \<Rightarrow> 'w exit_env \<Rightarrow> ExitVtxo list \<Rightarrow> 'w exits_action" where
  "exits_sync X env evs =
     abind (sync_no_progress X env evs) (\<lambda>(evs, r).
     case r of
       Inl e \<Rightarrow> areturn (evs, Inl e)
     | Inr _ \<Rightarrow> abind (update_exits X env evs) (\<lambda>evs. areturn (evs, Inr ())))"

section \<open>Claiming\<close>

text \<open>\<open>psbt::Input\<close>: the claim of \<open>PsbtInputExt\<close> is the encoded VTXO.\<close>

record PsbtInput =
  pi_exit_claim :: "bytes option"
  pi_witness_utxo :: "TxOut option"
  pi_witness :: "bytes list option"

record Psbt =
  psbt_tx :: Transaction
  psbt_inputs :: "PsbtInput list"

definition set_exit_claim_input :: "externals \<Rightarrow> Vtxo \<Rightarrow> PsbtInput \<Rightarrow> ('e, PsbtInput) outcome" where
  "set_exit_claim_input X vtxo input =
     and_then (expect (enc_vtxo X vtxo) ''buffers don't produce I/O errors'') (\<lambda>b.
     Ok (input\<lparr>pi_exit_claim := Some b\<rparr>))"

definition get_exit_claim_input :: "externals \<Rightarrow> PsbtInput \<Rightarrow> ('e, Vtxo option) outcome" where
  "get_exit_claim_input X input =
     (case pi_exit_claim input of
        None \<Rightarrow> Ok None
      | Some b \<Rightarrow> (case dec_vtxo X b of Inl _ \<Rightarrow> panic ''corrupt psbt'' | Inr (vtxo, _) \<Rightarrow> Ok (Some vtxo)))"

definition get_vtxo_key :: "'w exits_env \<Rightarrow> Vtxo \<Rightarrow> ('w exit_sys, string, Keypair) action" where
  "get_vtxo_key env vtxo =
     abind (call (db_public_key_idx env (vtxo_user_pubkey vtxo)) (\<lambda>m. m)) (\<lambda>idx.
     case idx of
       None \<Rightarrow> athrow ''VTXO key not found''
     | Some idx \<Rightarrow> areturn (derive_keypair env idx))"

definition maybe_sign_exit_claim_input ::
  "externals \<Rightarrow> 'w exits_env \<Rightarrow> nat \<Rightarrow> Transaction \<Rightarrow> TxOut list \<Rightarrow> nat \<Rightarrow> Keypair \<Rightarrow> PsbtInput \<Rightarrow> (string, PsbtInput) outcome" where
  "maybe_sign_exit_claim_input X env rnd tx prevouts input_idx vtxo_key input =
     and_then (get_exit_claim_input X input) (\<lambda>claim.
     case claim of
       None \<Rightarrow> Ok input
     | Some claim \<Rightarrow>
         if ext_public_key X vtxo_key \<noteq> vtxo_user_pubkey claim then err ''incorrect signing key''
         else
           and_then (user_exit_clause X (v_policy claim) (v_exit_delta claim)) (\<lambda>exit_script.
           let sighash = claim_sighash env tx input_idx prevouts exit_script;
               sig = ext_sign_schnorr X rnd vtxo_key sighash;
               taproot = vtxo_output_taproot X claim
           in
           if exit_script \<notin> snd ` set (tap_leaves taproot) then panic ''script is in taproot''
           else Ok (input\<lparr>pi_witness := Some [sig, ext_script_bytes X exit_script, ext_control_block X taproot exit_script]\<rparr>)))"

fun sign_inputs ::
  "externals \<Rightarrow> 'w exits_env \<Rightarrow> (nat \<Rightarrow> nat) \<Rightarrow> ExitVtxo list \<Rightarrow> Transaction \<Rightarrow> TxOut list \<Rightarrow> nat \<Rightarrow> PsbtInput list \<Rightarrow>
   ('w exit_sys, string, PsbtInput list) action" where
  "sign_inputs X env rnd evs tx prevouts i [] = areturn []"
| "sign_inputs X env rnd evs tx prevouts i (input # inputs) =
     abind (alift (get_exit_claim_input X input)) (\<lambda>vtxo.
     abind
       (case vtxo of
          None \<Rightarrow> areturn input
        | Some vtxo \<Rightarrow>
            if \<not> list_ex (\<lambda>ev. ev_vtxo_id ev = vtxo_id vtxo) (list_claimable evs) then athrow ''vtxo is not claimable yet''
            else
              abind (get_vtxo_key env vtxo) (\<lambda>keypair.
              alift (maybe_sign_exit_claim_input X env (rnd i) tx prevouts i keypair input))) (\<lambda>input.
     abind (sign_inputs X env rnd evs tx prevouts (Suc i) inputs) (\<lambda>rest.
     areturn (input # rest))))"

definition sign_exit_claim_inputs ::
  "externals \<Rightarrow> 'w exits_env \<Rightarrow> (nat \<Rightarrow> nat) \<Rightarrow> ExitVtxo list \<Rightarrow> Psbt \<Rightarrow> ('w exit_sys, string, Psbt) action" where
  "sign_exit_claim_inputs X env rnd evs psbt =
     (if list_ex (\<lambda>i. pi_witness_utxo i = None) (psbt_inputs psbt)
      then apanic ''called `Option::unwrap()` on a `None` value''
      else
        abind (sign_inputs X env rnd evs (psbt_tx psbt) (map (\<lambda>i. the (pi_witness_utxo i)) (psbt_inputs psbt)) 0
                 (psbt_inputs psbt)) (\<lambda>inputs.
        areturn (psbt\<lparr>psbt_inputs := inputs\<rparr>)))"

text \<open>\<open>Psbt::from_unsigned_tx\<close> accepts every transaction whose inputs are not signed, as the ones here.\<close>

definition create_psbt ::
  "externals \<Rightarrow> 'w exits_env \<Rightarrow> (nat \<Rightarrow> nat) \<Rightarrow> ExitVtxo list \<Rightarrow> Vtxo list \<Rightarrow> Transaction \<Rightarrow> ('w, Psbt) exit_action" where
  "create_psbt X env rnd evs vtxos tx =
     abind (alift (collect_results (map (\<lambda>v.
         set_exit_claim_input X v \<lparr>pi_exit_claim = None, pi_witness_utxo = Some (vtxo_txout X v), pi_witness = None\<rparr>) vtxos))) (\<lambda>inputs.
     amap_err ClaimSigningError (sign_exit_claim_inputs X env rnd evs \<lparr>psbt_tx = tx, psbt_inputs = inputs\<rparr>))"

text \<open>
  \<open>extract_tx\<close>: the transaction with its witnesses. Its check of the fee does not apply, since the
  output that it is called with has the value of the inputs.
\<close>

definition extract_tx :: "Psbt \<Rightarrow> Transaction" where
  "extract_tx psbt = (psbt_tx psbt)\<lparr>tx_input := map2 (\<lambda>i p. i\<lparr>txin_witness := (case pi_witness p of Some w \<Rightarrow> w | None \<Rightarrow> [])\<rparr>)
     (tx_input (psbt_tx psbt)) (psbt_inputs psbt)\<rparr>"

text \<open>The VTXOs of the inputs; a second input with the same id finds the VTXO of the last one.\<close>

fun get_vtxos :: "'w exit_env \<Rightarrow> ExitVtxo list \<Rightarrow> (VtxoId \<rightharpoonup> Vtxo) \<Rightarrow> ('w, VtxoId \<rightharpoonup> Vtxo) exit_action" where
  "get_vtxos env [] m = areturn m"
| "get_vtxos env (input # inputs) m =
     abind (get_vtxo env input) (\<lambda>vtxo. get_vtxos env inputs (m(ev_vtxo_id input \<mapsto> vtxo)))"

fun claim_inputs ::
  "(VtxoId \<rightharpoonup> Vtxo) \<Rightarrow> ExitVtxo list \<Rightarrow> Amount \<Rightarrow> (ExitError, Amount \<times> TxIn list \<times> Vtxo list) outcome" where
  "claim_inputs vtxos [] amount = Ok (amount, [], [])"
| "claim_inputs vtxos (input # inputs) amount =
     and_then (expect (vtxos (ev_vtxo_id input)) ''no entry found for key'') (\<lambda>vtxo.
     if \<not> is_claimable input then err (VtxoNotClaimable (ev_vtxo_id input))
     else if u64_limit \<le> amount + v_amount vtxo then panic ''attempt to add with overflow''
     else
       and_then (claim_inputs vtxos inputs (amount + v_amount vtxo)) (\<lambda>(output_amount, tx_ins, vs).
       Ok (output_amount, plain_input (v_point vtxo) (ucast (v_exit_delta vtxo)) [] # tx_ins, vtxo # vs)))"

text \<open>\<open>drain_exits\<close> from the transaction on: its fee is taken from the weight of a signed copy.\<close>

definition drain_tx ::
  "externals \<Rightarrow> 'w exits_env \<Rightarrow> (nat \<Rightarrow> nat) \<Rightarrow> ExitVtxo list \<Rightarrow> BlockHeight \<Rightarrow> ScriptBuf \<Rightarrow> FeeRate option \<Rightarrow>
   Amount \<times> TxIn list \<times> Vtxo list \<Rightarrow> ('w, Psbt) exit_action" where
  "drain_tx X env rnd evs tip address fee_rate_override = (\<lambda>(output_amount, tx_ins, vtxos).
     if \<not> locktime_ok tip then athrow (InvalidLocalLocktime tip ''invalid height'')
     else
       let tx = \<lparr>tx_version = 3, tx_lock_time = tip, tx_input = tx_ins,
                 tx_output = [\<lparr>txo_value = output_amount, txo_script = address\<rparr>]\<rparr>
       in
       abind (query (chain_regular_fee_rate env)) (\<lambda>regular.
       abind (create_psbt X env rnd evs vtxos tx) (\<lambda>psbt.
       let fee_rate = (case fee_rate_override of Some f \<Rightarrow> f | None \<Rightarrow> regular);
           fee_amount = fee_for_weight env fee_rate (extract_tx psbt);
           needed = fee_amount + P2TR_DUST
       in
       if output_amount < needed then athrow (ClaimFeeExceedsOutput needed output_amount)
       else create_psbt X env rnd evs vtxos
              (tx\<lparr>tx_output := [\<lparr>txo_value = output_amount - fee_amount, txo_script = address\<rparr>]\<rparr>))))"

definition drain_exits ::
  "externals \<Rightarrow> 'w exits_env \<Rightarrow> (nat \<Rightarrow> nat) \<Rightarrow> ExitVtxo list \<Rightarrow> ExitVtxo list \<Rightarrow> ScriptBuf \<Rightarrow> FeeRate option \<Rightarrow> ('w, Psbt) exit_action" where
  "drain_exits X env rnd evs inputs address fee_rate_override =
     abind (call (chain_tip (xe_env env)) TipRetrievalFailure) (\<lambda>tip.
     if inputs = [] then athrow ClaimMissingInputs
     else
       abind (get_vtxos (xe_env env) inputs Map.empty) (\<lambda>vtxos.
       abind (alift (claim_inputs vtxos inputs 0)) (drain_tx X env rnd evs tip address fee_rate_override)))"

section \<open>The exits of a wallet over time\<close>

text \<open>
  The database has the VTXO \<open>V i\<close> for the id \<open>i\<close>. An exit is in order when its VTXO can be exited, its
  transactions are tracked once it is initialized, and its state fits them.
\<close>

definition exit_ok ::
  "externals \<Rightarrow> 'w exit_env \<Rightarrow> Txid set \<Rightarrow> (VtxoId \<Rightarrow> Vtxo) \<Rightarrow> TransactionInfo list \<Rightarrow> ExitVtxo \<Rightarrow> bool" where
  "exit_ok X env T V xs ev \<longleftrightarrow>
     (\<forall>w u w'. db_wallet_vtxo env (ev_vtxo_id ev) w = (Inr (Some u), w') \<longrightarrow> u = V (ev_vtxo_id ev)) \<and>
     exitable (V (ev_vtxo_id ev)) \<and> set (vtxo_exit_txids X (V (ev_vtxo_id ev))) \<subseteq> T \<and>
     (ev_txids ev = None \<or>
      ev_txids ev = Some (vtxo_exit_txids X (V (ev_vtxo_id ev))) \<and> set (vtxo_exit_txids X (V (ev_vtxo_id ev))) \<subseteq> tracked xs) \<and>
     exit_inv (vtxo_exit_txids X (V (ev_vtxo_id ev))) (v_exit_delta (V (ev_vtxo_id ev))) (ev_state ev)"

text \<open>What an operation may do to an exit: move it along its state machine.\<close>

definition exit_moved :: "externals \<Rightarrow> (VtxoId \<Rightarrow> Vtxo) \<Rightarrow> ExitVtxo \<Rightarrow> ExitVtxo \<Rightarrow> bool" where
  "exit_moved X V ev ev' \<longleftrightarrow>
     exit_path (vtxo_exit_txids X (V (ev_vtxo_id ev))) (v_exit_delta (V (ev_vtxo_id ev))) (ev\<lparr>ev_txids := ev_txids ev'\<rparr>) ev'"

lemma exit_moved_refl: "exit_moved X V ev ev"
  by (simp add: exit_moved_def exit_path_refl)

lemma exit_path_trans:
  assumes "exit_path txids delta a b" "exit_path txids delta b c"
  shows "exit_path txids delta a c"
proof -
  obtain new where new: "ev_history b = ev_history a @ new" "hd (new @ [ev_state b]) = ev_state a"
    "successively (exit_edge txids delta) (new @ [ev_state b])" using assms(1) by (auto simp: exit_path_def)
  obtain new' where new': "ev_history c = ev_history b @ new'" "hd (new' @ [ev_state c]) = ev_state b"
    "successively (exit_edge txids delta) (new' @ [ev_state c])" using assms(2) by (auto simp: exit_path_def)
  have "successively (exit_edge txids delta) ((new @ new') @ [ev_state c])"
    using new(3) new'(2,3) by (auto simp: successively_append_iff)
  moreover have "hd ((new @ new') @ [ev_state c]) = ev_state a" using new(2) new'(2) by (cases new) auto
  ultimately show ?thesis
    using assms new(1) new'(1) unfolding exit_path_def by (intro conjI exI [of _ "new @ new'"]) auto
qed

lemma exit_moved_trans:
  assumes "exit_moved X V a b" "exit_moved X V b c"
  shows "exit_moved X V a c"
proof -
  have "ev_vtxo_id b = ev_vtxo_id a" using assms(1) by (simp add: exit_moved_def exit_path_def)
  then have "exit_path (vtxo_exit_txids X (V (ev_vtxo_id a))) (v_exit_delta (V (ev_vtxo_id a)))
      (a\<lparr>ev_txids := ev_txids c\<rparr>) (b\<lparr>ev_txids := ev_txids c\<rparr>)"
    using assms(1) by (simp add: exit_moved_def exit_path_def)
  then show ?thesis
    using assms(2) \<open>ev_vtxo_id b = _\<close> unfolding exit_moved_def by (metis exit_path_trans)
qed

lemma exit_ok_grow: "exit_ok X env T V xs ev \<Longrightarrow> exit_ok X env T V (xs @ ys) ev"
  by (auto simp: exit_ok_def)

lemma exit_ok_ready:
  assumes "exit_ok X env T V xs ev" "is_initialized ev"
  shows "exit_stored X env xs (V (ev_vtxo_id ev)) ev (vtxo_exit_txids X (V (ev_vtxo_id ev)))"
proof -
  let ?v = "V (ev_vtxo_id ev)"
  have v: "exitable ?v" using assms(1) by (simp add: exit_ok_def)
  obtain items where items: "vtxo_transactions X ?v = (Ok items :: (ExitProgressError, VtxoTxIterItem list) outcome)"
    "vtxo_exit_txids X ?v = map (\<lambda>item. ext_txid X (ii_tx item)) items" "length items = length (v_genesis ?v)"
    by (rule exitable_transactions [OF v, where 'e = ExitProgressError and 'f = unit, of X])
  then have "vtxo_exit_txids X ?v \<noteq> []" using v by (auto simp: exitable_def)
  then show ?thesis
    using assms items(1) by (auto simp: exit_ok_def exit_stored_def exit_ready_def is_initialized_def)
qed

text \<open>The environment that the operations need.\<close>

definition exit_world :: "externals \<Rightarrow> 'w exit_env \<Rightarrow> Txid set \<Rightarrow> bool" where
  "exit_world X env T \<longleftrightarrow> children_fresh X env T \<and> spends_found env \<and> hash_order_ok env"

lemma wp_exit_progressed:
  assumes env: "exit_world X env T" and exact: "manager_exact T xs s" and ok: "exit_ok X env T V xs ev" "is_initialized ev"
  shows "wp (ExitVtxo_progress X env fo c ev)
    (\<lambda>r s'. manager_exact T xs s' \<and> exit_ok X env T V xs (fst r) \<and> exit_moved X V ev (fst r) \<and> is_initialized (fst r))
    (\<lambda>e s'. False) s"
proof -
  let ?v = "V (ev_vtxo_id ev)"
  let ?txids = "vtxo_exit_txids X ?v"
  have fresh: "children_fresh X env T" and found: "spends_found env" using env by (simp_all add: exit_world_def)
  have inv: "exit_inv ?txids (v_exit_delta ?v) (ev_state ev)" using ok(1) by (simp add: exit_ok_def)
  note run = wp_ExitVtxo_progress [OF found manager_exact_inv [OF exact] exit_ok_ready [OF ok] inv, of fo c]
  have "index_kept T s s" by (simp add: index_kept_def)
  from wp_stays [OF run stays_driver [OF fresh] this] show ?thesis
  proof (rule wp_mono)
    fix r s'
    assume post: "loop_post {} xs ?txids (v_exit_delta ?v) c ev r s' \<and> index_kept T s s'"
    then have path: "exit_path ?txids (v_exit_delta ?v) ev (fst r)" and "manager_inv {} xs s'"
      and st: "exit_inv ?txids (v_exit_delta ?v) (ev_state (fst r))" by (simp_all add: loop_post_def)
    then have "manager_exact T xs s'" using manager_exact_kept exact post by blast
    moreover have "exit_moved X V ev (fst r)" using path by (simp add: exit_moved_def exit_path_def)
    moreover have "exit_ok X env T V xs (fst r)" using path st ok by (auto simp: exit_ok_def exit_path_def)
    moreover have "is_initialized (fst r)" using path ok(2) by (auto simp: exit_path_def is_initialized_def)
    ultimately show "manager_exact T xs s' \<and> exit_ok X env T V xs (fst r) \<and> exit_moved X V ev (fst r) \<and> is_initialized (fst r)"
      by blast
  qed simp
qed

lemma wp_exit_driven:
  assumes "exit_world X env T" "manager_exact T xs s" "exit_ok X env T V xs ev"
  shows "wp (ExitVtxo_progress X env fo c ev)
    (\<lambda>r s'. manager_exact T xs s' \<and> exit_ok X env T V xs (fst r) \<and> exit_moved X V ev (fst r)) (\<lambda>e s'. False) s"
proof (cases "is_initialized ev")
  case True
  show ?thesis by (rule wp_mono [OF wp_exit_progressed [OF assms True]]) auto
next
  case False
  then show ?thesis
    using assms by (simp add: is_initialized_def ExitVtxo_progress_def wp_basic exit_moved_refl)
qed

text \<open>The exits after an operation: those that were there have moved, new ones are at the end.\<close>

definition exits_step ::
  "externals \<Rightarrow> 'w exit_env \<Rightarrow> Txid set \<Rightarrow> (VtxoId \<Rightarrow> Vtxo) \<Rightarrow> TransactionInfo list \<Rightarrow> ExitVtxo list \<Rightarrow> ExitVtxo list \<Rightarrow>
   'w exit_sys \<Rightarrow> bool" where
  "exits_step X env T V xs evs evs' s' \<longleftrightarrow>
     (\<exists>ys old new. manager_exact T (xs @ ys) s' \<and> list_all (exit_ok X env T V (xs @ ys)) evs' \<and>
        evs' = old @ new \<and> list_all2 (exit_moved X V) evs old)"

lemma list_all2_moved_refl: "list_all2 (exit_moved X V) evs evs"
  by (simp add: list_all2_same exit_moved_refl)

lemma exits_step_refl:
  assumes "manager_exact T xs s" "list_all (exit_ok X env T V xs) evs"
  shows "exits_step X env T V xs evs evs s"
  unfolding exits_step_def
  by (rule exI [of _ "[]"], rule exI [of _ evs], rule exI [of _ "[]"]) (use assms list_all2_moved_refl in auto)

lemma exits_step_trans:
  assumes "exits_step X env T V xs evs evs' s'"
    and "\<And>ys. manager_exact T (xs @ ys) s' \<Longrightarrow> list_all (exit_ok X env T V (xs @ ys)) evs' \<Longrightarrow>
      wp m (\<lambda>r. exits_step X env T V (xs @ ys) evs' (f r)) (\<lambda>e s. False) s'"
  shows "wp m (\<lambda>r. exits_step X env T V xs evs (f r)) (\<lambda>e s. False) s'"
proof -
  obtain ys old new where ys: "manager_exact T (xs @ ys) s'" "list_all (exit_ok X env T V (xs @ ys)) evs'"
    and old: "evs' = old @ new" "list_all2 (exit_moved X V) evs old" using assms(1) by (auto simp: exits_step_def)
  from assms(2) [OF ys] show ?thesis
  proof (rule wp_mono)
    fix r t
    assume "exits_step X env T V (xs @ ys) evs' (f r) t"
    then obtain zs old' new' where zs: "manager_exact T (xs @ ys @ zs) t" "list_all (exit_ok X env T V (xs @ ys @ zs)) (f r)"
      and fr: "f r = old' @ new'" "list_all2 (exit_moved X V) (old @ new) old'" by (auto simp: exits_step_def old(1))
    then obtain o1 o2 where o: "old' = o1 @ o2" "list_all2 (exit_moved X V) old o1" by (auto simp: list_all2_append1)
    have "list_all2 (exit_moved X V) evs o1"
      using list_all2_trans [OF exit_moved_trans old(2) o(2)] .
    then show "exits_step X env T V xs evs (f r) t"
      using zs fr(1) o(1) unfolding exits_step_def by (metis append.assoc)
  qed simp
qed

lemma exits_step_new:
  assumes "exits_step X env T V xs evs evs' s" "\<And>ys. exit_ok X env T V (xs @ ys) ev"
  shows "exits_step X env T V xs evs (evs' @ [ev]) s"
proof -
  obtain ys old new where ys: "manager_exact T (xs @ ys) s" "list_all (exit_ok X env T V (xs @ ys)) evs'"
    and old: "evs' = old @ new" "list_all2 (exit_moved X V) evs old" using assms(1) by (auto simp: exits_step_def)
  then have "list_all (exit_ok X env T V (xs @ ys)) (evs' @ [ev])" "evs' @ [ev] = old @ (new @ [ev])"
    using assms(2) by simp_all
  then show ?thesis using ys(1) old(2) unfolding exits_step_def by blast
qed

lemma exits_step_world [simp]: "exits_step X env T V xs evs evs' (s\<lparr>sy_world := w\<rparr>) = exits_step X env T V xs evs evs' s"
  by (simp add: exits_step_def)

text \<open>Operations that walk over the exits one after the other.\<close>

definition exits_walk ::
  "externals \<Rightarrow> 'w exit_env \<Rightarrow> Txid set \<Rightarrow> (VtxoId \<Rightarrow> Vtxo) \<Rightarrow> TransactionInfo list \<Rightarrow> ExitVtxo list \<Rightarrow> ExitVtxo list \<Rightarrow>
   'w exit_sys \<Rightarrow> bool" where
  "exits_walk X env T V xs evs rest s' \<longleftrightarrow>
     (\<exists>zs. manager_exact T (xs @ zs) s' \<and> list_all (exit_ok X env T V (xs @ zs)) rest \<and> list_all2 (exit_moved X V) evs rest)"

lemma exits_walk_step: "exits_walk X env T V xs evs rest s \<Longrightarrow> exits_step X env T V xs evs rest s"
  unfolding exits_walk_def exits_step_def by (metis append_Nil2)

lemma exits_walk_Cons:
  assumes head: "\<And>s. manager_exact T xs s \<Longrightarrow> exit_ok X env T V xs ev \<Longrightarrow>
      wp m (\<lambda>ev' s'. \<exists>ys. manager_exact T (xs @ ys) s' \<and> exit_ok X env T V (xs @ ys) ev' \<and> exit_moved X V ev ev') (\<lambda>e s. False) s"
    and tail: "\<And>ys s. manager_exact T (xs @ ys) s \<Longrightarrow> list_all (exit_ok X env T V (xs @ ys)) evs \<Longrightarrow>
      wp n (exits_walk X env T V (xs @ ys) evs) (\<lambda>e s. False) s"
    and ok: "manager_exact T xs s" "list_all (exit_ok X env T V xs) (ev # evs)"
  shows "wp (abind m (\<lambda>ev'. abind n (\<lambda>rest. areturn (ev' # rest)))) (exits_walk X env T V xs (ev # evs)) (\<lambda>e s. False) s"
proof -
  have first: "exit_ok X env T V xs ev" using ok(2) by simp
  show ?thesis
    unfolding wp_abind
  proof (rule wp_mono [OF head [OF ok(1) first]])
    fix ev' and s' :: "'a exit_sys"
    assume "\<exists>ys. manager_exact T (xs @ ys) s' \<and> exit_ok X env T V (xs @ ys) ev' \<and> exit_moved X V ev ev'"
    then obtain ys where ys: "manager_exact T (xs @ ys) s'" "exit_ok X env T V (xs @ ys) ev'" "exit_moved X V ev ev'" by blast
    have "list_all (exit_ok X env T V (xs @ ys)) evs" using ok(2) by (auto simp: list_all_iff intro: exit_ok_grow)
    from tail [OF ys(1) this]
    show "wp n (\<lambda>rest. wp (areturn (ev' # rest)) (exits_walk X env T V xs (ev # evs)) (\<lambda>e s. False)) (\<lambda>e s. False) s'"
    proof (rule wp_mono)
      fix rest and t :: "'a exit_sys"
      assume "exits_walk X env T V (xs @ ys) evs rest t"
      then obtain zs where "manager_exact T (xs @ ys @ zs) t" "list_all (exit_ok X env T V (xs @ ys @ zs)) rest"
        "list_all2 (exit_moved X V) evs rest" by (auto simp: exits_walk_def)
      then show "wp (areturn (ev' # rest)) (exits_walk X env T V xs (ev # evs)) (\<lambda>e s. False) t"
        using exit_ok_grow [OF ys(2), of zs] ys(3) by (auto simp: wp_basic exits_walk_def intro!: exI [of _ "ys @ zs"])
    qed simp
  qed simp
qed

lemma exits_walk_Nil: "manager_exact T xs s \<Longrightarrow> exits_walk X env T V xs [] [] s"
  by (auto simp: exits_walk_def intro!: exI [of _ "[]"])

lemma wp_initialize_one:
  assumes env: "exit_world X env T" and exact: "manager_exact T xs s" and ok: "exit_ok X env T V xs ev"
  shows "wp (if is_initialized ev then areturn ev
       else abind (atry (exit_initialize X env ev)) (\<lambda>r. areturn (case r of Inr ev' \<Rightarrow> ev' | Inl _ \<Rightarrow> ev)))
    (\<lambda>ev' s'. \<exists>ys. manager_exact T (xs @ ys) s' \<and> exit_ok X env T V (xs @ ys) ev' \<and> exit_moved X V ev ev') (\<lambda>e s. False) s"
    (is "wp _ ?Q _ s")
proof (cases "is_initialized ev")
  case True
  then show ?thesis
    using exact ok exit_moved_refl by (simp add: wp_basic) (metis append_Nil2)
next
  case False
  let ?v = "V (ev_vtxo_id ev)"
  have v: "exitable ?v" "set (vtxo_exit_txids X ?v) \<subseteq> T" using ok by (simp_all add: exit_ok_def)
  have fresh: "children_fresh X env T" using env by (simp add: exit_world_def)
  have moved: "exit_moved X V ev (ev\<lparr>ev_txids := t\<rparr>)" for t by (simp add: exit_moved_def exit_path_refl)
  have ready: "?Q (ev\<lparr>ev_txids := Some (vtxo_exit_txids X ?v)\<rparr>) s'"
    if "manager_exact T (xs @ ys) s'" "exit_ready X (xs @ ys) ?v (vtxo_exit_txids X ?v)" for ys s'
    using that moved ok by (auto simp: exit_ok_def exit_ready_def)
  have failed: "?Q ev s'" if "manager_exact T (xs @ ys) s'" for ys s'
    using that exit_ok_grow [OF ok] exit_moved_refl by blast
  have "wp (exit_initialize X env ev)
    (\<lambda>ev' s'. ev' = ev\<lparr>ev_txids := Some (vtxo_exit_txids X ?v)\<rparr> \<and>
       (\<exists>ys. manager_exact T (xs @ ys) s' \<and> exit_ready X (xs @ ys) ?v (vtxo_exit_txids X ?v)))
    (\<lambda>e s'. not_panic e \<and> (\<exists>ys. manager_exact T (xs @ ys) s')) s"
    by (rule wp_exit_initialize [OF fresh exact v]) (use ok in \<open>auto simp: exit_ok_def\<close>)
  then have "wp (exit_initialize X env ev) (\<lambda>ev'. ?Q ev') (\<lambda>e. case e of Err x \<Rightarrow> ?Q ev | Panic p \<Rightarrow> \<lambda>s. False) s"
    by (rule wp_mono) (auto split: failure.splits intro: ready failed)
  then show ?thesis
    using False unfolding wp_cases wp_abind wp_atry wp_basic by simp
qed

lemma wp_initialize_exits:
  assumes "exit_world X env T" "manager_exact T xs s" "list_all (exit_ok X env T V xs) evs"
  shows "wp (initialize_exits X env evs) (exits_walk X env T V xs evs) (\<lambda>e s. False) s"
  using assms(2,3)
proof (induction evs arbitrary: xs s)
  case Nil
  then show ?case by (simp add: wp_basic exits_walk_Nil)
next
  case (Cons ev evs)
  show ?case
    unfolding initialize_exits.simps
    by (rule exits_walk_Cons [OF wp_initialize_one [OF assms(1)] Cons.IH Cons.prems])
qed

lemma wp_update_exits:
  assumes "exit_world X env T" "manager_exact T xs s" "list_all (exit_ok X env T V xs) evs"
  shows "wp (update_exits X env evs) (exits_walk X env T V xs evs) (\<lambda>e s. False) s"
  using assms(2,3)
proof (induction evs arbitrary: xs s)
  case Nil
  then show ?case by (simp add: wp_basic exits_walk_Nil)
next
  case (Cons ev evs)
  have one: "wp (if requires_network_update (ev_state ev)
       then abind (ExitVtxo_progress X env None False ev) (\<lambda>(ev', _). areturn ev') else areturn ev)
    (\<lambda>ev' s'. \<exists>ys. manager_exact T (xs @ ys) s' \<and> exit_ok X env T V (xs @ ys) ev' \<and> exit_moved X V ev ev') (\<lambda>e s. False) t"
    if "manager_exact T xs t" "exit_ok X env T V xs ev" for t
  proof (cases "requires_network_update (ev_state ev)")
    case True
    have "wp (ExitVtxo_progress X env None False ev) (\<lambda>r. wp (case r of (ev', _) \<Rightarrow> areturn ev')
        (\<lambda>ev' s'. \<exists>ys. manager_exact T (xs @ ys) s' \<and> exit_ok X env T V (xs @ ys) ev' \<and> exit_moved X V ev ev') (\<lambda>e s. False)) (\<lambda>e s. False) t"
      by (rule wp_mono [OF wp_exit_driven [OF assms(1) that]])
        (auto simp: wp_basic split: prod.splits intro!: exI [of _ "[]"])
    then show ?thesis using True by (simp add: wp_abind)
  qed (use that exit_moved_refl in \<open>auto simp: wp_basic intro!: exI [of _ "[]"]\<close>)
  show ?case
    unfolding update_exits.simps by (rule exits_walk_Cons [OF one Cons.IH Cons.prems])
qed

text \<open>The statuses that \<open>progress_exits\<close> reports: the initialized exits that are not claimed.\<close>

definition reported :: "ExitVtxo list \<Rightarrow> ExitVtxo list" where
  "reported evs = filter (\<lambda>ev. is_initialized ev \<and> \<not> is_claimed (ev_state ev)) evs"

lemma wp_progress_exits:
  assumes env: "exit_world X env T" and "manager_exact T xs s" "list_all (exit_ok X env T V xs) evs"
  shows "wp (progress_exits X env fo evs)
    (\<lambda>r s'. manager_exact T xs s' \<and> list_all (exit_ok X env T V xs) (fst r) \<and> list_all2 (exit_moved X V) evs (fst r) \<and>
       map ps_vtxo_id (snd r) = map ev_vtxo_id (reported (fst r)) \<and> map ps_state (snd r) = map ev_state (reported (fst r)))
    (\<lambda>e s. False) s"
  using assms(2,3)
proof (induction evs arbitrary: s)
  case Nil
  then show ?case by (simp add: wp_basic reported_def)
next
  case (Cons ev evs)
  let ?P = "\<lambda>evs r s'. manager_exact T xs s' \<and> list_all (exit_ok X env T V xs) (fst r) \<and> list_all2 (exit_moved X V) evs (fst r) \<and>
       map ps_vtxo_id (snd r) = map ev_vtxo_id (reported (fst r)) \<and> map ps_state (snd r) = map ev_state (reported (fst r))"
  have ok: "exit_ok X env T V xs ev" "list_all (exit_ok X env T V xs) evs" using Cons.prems by simp_all
  show ?case
  proof (cases "is_initialized ev")
    case False
    have "wp (abind (progress_exits X env fo evs) (\<lambda>(rest, statuses). areturn (ev # rest, statuses))) (?P (ev # evs)) (\<lambda>e s. False) s"
      unfolding wp_abind
      by (rule wp_mono [OF Cons.IH [OF Cons.prems(1) ok(2)]])
        (use False ok(1) exit_moved_refl in \<open>auto simp: wp_basic reported_def split: prod.splits\<close>)
    then show ?thesis using False by simp
  next
    case True
    have rest: "wp (abind (progress_exits X env fo evs) (\<lambda>(rest, statuses). areturn (ev' # rest,
        (if is_claimed (ev_state ev') then statuses
         else \<lparr>ps_vtxo_id = ev_vtxo_id ev', ps_state = ev_state ev', ps_error = progress_error r\<rparr> # statuses))))
      (?P (ev # evs)) (\<lambda>e s. False) s'"
      if "manager_exact T xs s'" "exit_ok X env T V xs ev'" "exit_moved X V ev ev'" "is_initialized ev'" for ev' r s'
      unfolding wp_abind
      by (rule wp_mono [OF Cons.IH [OF that(1) ok(2)]]) (use that in \<open>auto simp: wp_basic reported_def split: prod.splits\<close>)
    have "wp (ExitVtxo_progress X env fo True ev)
      (\<lambda>r s'. manager_exact T xs s' \<and> exit_ok X env T V xs (fst r) \<and> exit_moved X V ev (fst r) \<and> is_initialized (fst r)) (\<lambda>e s'. False) s"
      by (rule wp_exit_progressed [OF env Cons.prems(1) ok(1) True])
    then have "wp (abind (ExitVtxo_progress X env fo True ev) (\<lambda>(ev', r).
        abind (progress_exits X env fo evs) (\<lambda>(rest, statuses). areturn (ev' # rest,
        (if is_claimed (ev_state ev') then statuses
         else \<lparr>ps_vtxo_id = ev_vtxo_id ev', ps_state = ev_state ev', ps_error = progress_error r\<rparr> # statuses))))) (?P (ev # evs)) (\<lambda>e s. False) s"
      unfolding wp_abind [of "ExitVtxo_progress X env fo True ev"]
      by (rule wp_mono) (auto intro: rest split: prod.splits)
    then show ?thesis using True by simp
  qed
qed

lemma wp_exits_sync:
  assumes env: "exit_world X env T" and ok: "manager_exact T xs s" "list_all (exit_ok X env T V xs) evs"
  shows "wp (sync_no_progress X env evs) (\<lambda>r. exits_walk X env T V xs evs (fst r)) (\<lambda>e s. False) s"
    and "wp (exits_sync X env evs) (\<lambda>r. exits_step X env T V xs evs (fst r)) (\<lambda>e s. False) s"
proof -
  have sync: "wp (atry (manager_sync X env)) (\<lambda>r. exits_walk X env T V xs evs evs') (\<lambda>e s. False) s'"
    if walk: "exits_walk X env T V xs evs evs' s'" for evs' s'
  proof -
    obtain zs where zs: "manager_exact T (xs @ zs) s'" "list_all (exit_ok X env T V (xs @ zs)) evs'" "list_all2 (exit_moved X V) evs evs'"
      using walk by (auto simp: exits_walk_def)
    have "index_kept T s' s'" by (simp add: index_kept_def)
    from wp_stays [OF keepsD [OF keeps_sync manager_exact_inv [OF zs(1)]] stays_sync this] env
    have "wp (manager_sync X env) (\<lambda>_ t. manager_inv {} (xs @ zs) t \<and> index_kept T s' t)
        (\<lambda>e t. (not_panic e \<and> manager_inv {} (xs @ zs) t) \<and> index_kept T s' t) s'" by (simp add: exit_world_def)
    moreover have "exits_walk X env T V xs evs evs' t" if "manager_inv {} (xs @ zs) t" "index_kept T s' t" for t
      using manager_exact_kept [OF zs(1) that(2,1)] zs(2,3) by (auto simp: exits_walk_def)
    ultimately show ?thesis
      unfolding wp_atry by (elim wp_mono) (auto split: failure.splits)
  qed
  show first: "wp (sync_no_progress X env evs) (\<lambda>r. exits_walk X env T V xs evs (fst r)) (\<lambda>e s. False) s"
    unfolding sync_no_progress_def wp_abind wp_basic fst_conv
    by (rule wp_mono [OF wp_initialize_exits [OF env ok]]) (auto intro: sync)
  have update: "wp (case r of (evs', res) \<Rightarrow> (case res of Inl e \<Rightarrow> areturn (evs', Inl e)
        | Inr _ \<Rightarrow> abind (update_exits X env evs') (\<lambda>evs. areturn (evs, Inr ()))))
      (\<lambda>r. exits_step X env T V xs evs (fst r)) (\<lambda>e s. False) s'" if "exits_walk X env T V xs evs (fst r) s'" for r s'
  proof (cases r)
    case (Pair evs' res)
    have step: "exits_step X env T V xs evs evs' s'" using that Pair by (simp add: exits_walk_step)
    have "wp (abind (update_exits X env evs') (\<lambda>evs. areturn (evs, Inr ()))) (\<lambda>r. exits_step X env T V xs evs (fst r)) (\<lambda>e s. False) s'"
    proof (rule exits_step_trans [OF step])
      fix ys
      assume ys: "manager_exact T (xs @ ys) s'" "list_all (exit_ok X env T V (xs @ ys)) evs'"
      show "wp (abind (update_exits X env evs') (\<lambda>evs. areturn (evs, Inr ())))
          (\<lambda>r. exits_step X env T V (xs @ ys) evs' (fst r)) (\<lambda>e s. False) s'"
        unfolding wp_abind wp_basic fst_conv
        by (rule wp_mono [OF wp_update_exits [OF env ys]]) (auto intro: exits_walk_step)
    qed
    then show ?thesis using Pair step by (cases res) (simp_all add: wp_basic)
  qed
  show "wp (exits_sync X env evs) (\<lambda>r. exits_step X env T V xs evs (fst r)) (\<lambda>e s. False) s"
    unfolding exits_sync_def wp_abind [of "sync_no_progress X env evs"]
    by (rule wp_mono [OF first update]) auto
qed

text \<open>Exits that are started or loaded are in order.\<close>

definition startable :: "externals \<Rightarrow> 'w exit_env \<Rightarrow> Txid set \<Rightarrow> (VtxoId \<Rightarrow> Vtxo) \<Rightarrow> Vtxo \<Rightarrow> bool" where
  "startable X env T V v \<longleftrightarrow>
     V (vtxo_id v) = v \<and> exitable v \<and> set (vtxo_exit_txids X v) \<subseteq> T \<and>
     (\<forall>w u w'. db_wallet_vtxo env (vtxo_id v) w = (Inr (Some u), w') \<longrightarrow> u = v)"

lemma startable_ok: "startable X env T V v \<Longrightarrow> exit_ok X env T V xs (ExitVtxo_new v tip)"
  by (simp add: startable_def exit_ok_def ExitVtxo_new_def new_start_def)

lemma wp_start_exits:
  assumes "\<And>v. v \<in> set vs \<Longrightarrow> startable X (xe_env env) T V v" "exits_step X (xe_env env) T V xs evs evs' s"
  shows "wp (start_exits X env tip evs' vs) (\<lambda>r. exits_step X (xe_env env) T V xs evs (fst r)) (\<lambda>e s. False) s"
  using assms
proof (induction vs arbitrary: evs' s)
  case (Cons v vs)
  have new: "exits_step X (xe_env env) T V xs evs (evs' @ [ExitVtxo_new v tip]) s"
    using Cons.prems by (intro exits_step_new startable_ok) auto
  have rest: "wp (start_exits X env tip (evs' @ [ExitVtxo_new v tip]) vs) (\<lambda>r. exits_step X (xe_env env) T V xs evs (fst r)) (\<lambda>e s. False) (s\<lparr>sy_world := w\<rparr>)" for w
    using new Cons.prems(1) by (intro Cons.IH) auto
  have skip: "wp (start_exits X env tip evs' vs) (\<lambda>r. exits_step X (xe_env env) T V xs evs (fst r)) (\<lambda>e s. False) s"
    using Cons.prems by (intro Cons.IH) auto
  show ?case
    using rest skip new Cons.prems(2)
    by (auto simp: wp_abind wp_atry wp_cases wp_basic wp_call Let_def split: prod.splits sum.splits failure.splits)
qed (simp add: wp_basic)

lemma wp_start_exit_for_vtxos:
  assumes "\<And>v. v \<in> set vs \<Longrightarrow> startable X (xe_env env) T V v" "exits_step X (xe_env env) T V xs evs evs' s"
  shows "wp (start_exit_for_vtxos X env evs' vs) (\<lambda>r. exits_step X (xe_env env) T V xs evs (fst r)) (\<lambda>e s. False) s"
  unfolding start_exit_for_vtxos_def
  using assms wp_start_exits [OF assms(1)]
  by (auto simp: wp_abind wp_atry wp_cases wp_basic wp_call split: prod.splits sum.splits failure.splits)

lemma wp_load_entries:
  assumes "exit_world X (xe_env env) T"
    and "\<And>e. e \<in> set es \<Longrightarrow> startable X (xe_env env) T V (V (se_vtxo_id e)) \<and> vtxo_id (V (se_vtxo_id e)) = se_vtxo_id e \<and>
      exit_inv (vtxo_exit_txids X (V (se_vtxo_id e))) (v_exit_delta (V (se_vtxo_id e))) (se_state e)"
    and "exits_step X (xe_env env) T V xs evs evs' s"
  shows "wp (load_entries X env evs' es) (\<lambda>r. exits_step X (xe_env env) T V xs evs (fst r)) (\<lambda>e s. False) s"
  using assms(2,3)
proof (induction es arbitrary: evs' s)
  case (Cons e es)
  let ?env = "xe_env env" and ?v = "V (se_vtxo_id e)"
  let ?Q = "\<lambda>r. exits_step X ?env T V xs evs (fst r)"
  have e: "startable X ?env T V ?v" "vtxo_id ?v = se_vtxo_id e"
    "exit_inv (vtxo_exit_txids X ?v) (v_exit_delta ?v) (se_state e)" using Cons.prems(1) by auto
  define exit where "exit = \<lparr>ev_vtxo_id = se_vtxo_id e, ev_amount = v_amount ?v, ev_state = se_state e,
    ev_history = se_history e, ev_txids = None\<rparr>"
  have exit: "ExitVtxo_from_entry e ?v = (Ok exit :: (unit, ExitVtxo) outcome)" using e(2) by (simp add: ExitVtxo_from_entry_def exit_def)
  have ok: "exit_ok X ?env T V zs exit" for zs
    using e by (simp add: exit_ok_def exit_def startable_def)
  obtain ys old new where ys: "manager_exact T (xs @ ys) s" "list_all (exit_ok X ?env T V (xs @ ys)) evs'"
    and old: "evs' = old @ new" "list_all2 (exit_moved X V) evs old" using Cons.prems(2) by (auto simp: exits_step_def)
  have grown: "exits_step X ?env T V xs evs (evs' @ ls) t"
    if "manager_exact T ((xs @ ys) @ zs) t" "list_all (exit_ok X ?env T V ((xs @ ys) @ zs)) ls" for zs ls t
  proof -
    have "list_all (exit_ok X ?env T V ((xs @ ys) @ zs)) (evs' @ ls)"
      using ys(2) that(2) by (auto simp del: append_assoc simp: list_all_iff intro: exit_ok_grow)
    then show ?thesis
      using that(1) old unfolding exits_step_def append_assoc
      by (intro exI [of _ "ys @ zs"] exI [of _ old] exI [of _ "new @ ls"]) simp
  qed
  have v: "exitable ?v" "set (vtxo_exit_txids X ?v) \<subseteq> T" using e(1) by (simp_all add: startable_def)
  have fresh: "children_fresh X ?env T" using assms(1) by (simp add: exit_world_def)
  have rest: "wp (load_entries X env (evs' @ [exit\<lparr>ev_txids := Some (vtxo_exit_txids X ?v)\<rparr>]) es) ?Q (\<lambda>e s. False) t"
    if "manager_exact T ((xs @ ys) @ zs) t" "exit_ready X ((xs @ ys) @ zs) ?v (vtxo_exit_txids X ?v)" for zs t
  proof (rule Cons.IH)
    have "exit_ok X ?env T V ((xs @ ys) @ zs) (exit\<lparr>ev_txids := Some (vtxo_exit_txids X ?v)\<rparr>)"
      using ok that(2) by (simp add: exit_ok_def exit_ready_def exit_def)
    then show "exits_step X ?env T V xs evs (evs' @ [exit\<lparr>ev_txids := Some (vtxo_exit_txids X ?v)\<rparr>]) t"
      using grown [OF that(1)] by simp
  qed (use Cons.prems(1) in auto)
  have "wp (exit_initialize X ?env exit)
      (\<lambda>x s'. x = exit\<lparr>ev_txids := Some (vtxo_exit_txids X ?v)\<rparr> \<and>
         (\<exists>zs. manager_exact T ((xs @ ys) @ zs) s' \<and> exit_ready X ((xs @ ys) @ zs) ?v (vtxo_exit_txids X ?v)))
      (\<lambda>x s'. not_panic x \<and> (\<exists>zs. manager_exact T ((xs @ ys) @ zs) s')) (s\<lparr>sy_world := w\<rparr>)" for w
    by (rule wp_exit_initialize [OF fresh _ v]) (use ys(1) e(1,2) in \<open>auto simp: exit_def startable_def\<close>)
  then have init: "wp (abind (atry (exit_initialize X ?env exit)) (\<lambda>r. case r of
      Inl e \<Rightarrow> areturn (evs', Inl (FromExit e)) | Inr exit \<Rightarrow> load_entries X env (evs' @ [exit]) es)) ?Q (\<lambda>e s. False) (s\<lparr>sy_world := w\<rparr>)" for w
    unfolding wp_abind wp_atry
    by (rule wp_mono) (use rest grown [of _ _ "[]"] in \<open>auto simp: wp_basic split: failure.splits\<close>)
  have skip: "wp (load_entries X env evs' es) ?Q (\<lambda>e s. False) (s\<lparr>sy_world := w\<rparr>)" for w
    using Cons.prems by (intro Cons.IH) auto
  obtain r w where db: "db_wallet_vtxo ?env (se_vtxo_id e) (sy_world s) = (r, w)" by fastforce
  then have "u = ?v" if "r = Inr (Some u)" for u using e(1,2) that by (auto simp: startable_def)
  then show ?case
    using db init skip Cons.prems(2) exit
    by (auto simp: wp_abind [of "atry (call _ _)"] wp_abind [of "alift _"] wp_atry wp_alift wp_call wp_basic
        split: sum.splits option.splits)
qed (simp add: wp_basic)

section \<open>Sequences of operations\<close>

datatype exits_op =
    OpLoad
  | OpStart "Vtxo list"
  | OpSync
  | OpSyncNoProgress
  | OpProgress "FeeRate option"

fun run_op :: "externals \<Rightarrow> 'w exits_env \<Rightarrow> exits_op \<Rightarrow> ExitVtxo list \<Rightarrow> ('w exit_sys, unit, ExitVtxo list) action" where
  "run_op X env OpLoad evs = abind (exits_load X env evs) (\<lambda>r. areturn (fst r))"
| "run_op X env (OpStart vtxos) evs = abind (start_exit_for_vtxos X env evs vtxos) (\<lambda>r. areturn (fst r))"
| "run_op X env OpSync evs = abind (exits_sync X (xe_env env) evs) (\<lambda>r. areturn (fst r))"
| "run_op X env OpSyncNoProgress evs = abind (sync_no_progress X (xe_env env) evs) (\<lambda>r. areturn (fst r))"
| "run_op X env (OpProgress fee_rate_override) evs =
     abind (progress_exits X (xe_env env) fee_rate_override evs) (\<lambda>r. areturn (fst r))"

text \<open>The VTXOs that are started and the entries of the database are in order.\<close>

fun op_ok :: "externals \<Rightarrow> 'w exits_env \<Rightarrow> Txid set \<Rightarrow> (VtxoId \<Rightarrow> Vtxo) \<Rightarrow> exits_op \<Rightarrow> bool" where
  "op_ok X env T V (OpStart vtxos) \<longleftrightarrow> list_all (startable X (xe_env env) T V) vtxos"
| "op_ok X env T V OpLoad \<longleftrightarrow>
     (\<forall>w es w'. db_exit_vtxo_entries env w = (Inr es, w') \<longrightarrow> list_all (\<lambda>e.
        startable X (xe_env env) T V (V (se_vtxo_id e)) \<and> vtxo_id (V (se_vtxo_id e)) = se_vtxo_id e \<and>
        exit_inv (vtxo_exit_txids X (V (se_vtxo_id e))) (v_exit_delta (V (se_vtxo_id e))) (se_state e)) es)"
| "op_ok X env T V _ \<longleftrightarrow> True"

lemma wp_run_op:
  assumes env: "exit_world X (xe_env env) T" and op: "op_ok X env T V op"
    and ok: "manager_exact T xs s" "list_all (exit_ok X (xe_env env) T V xs) evs"
  shows "wp (run_op X env op evs) (exits_step X (xe_env env) T V xs evs) (\<lambda>e s. False) s"
proof (cases op)
  case OpLoad
  obtain r w where r: "db_exit_vtxo_entries env (sy_world s) = (r, w)" by fastforce
  have refl: "exits_step X (xe_env env) T V xs evs evs (s\<lparr>sy_world := w\<rparr>)" using exits_step_refl [OF ok] by simp
  have "wp (load_entries X env evs es) (\<lambda>r. exits_step X (xe_env env) T V xs evs (fst r)) (\<lambda>e s. False) (s\<lparr>sy_world := w\<rparr>)"
    if "r = Inr es" for es
    by (rule wp_load_entries [OF env _ refl]) (use op OpLoad r that in \<open>auto simp: list_all_iff\<close>)
  then show ?thesis
    using OpLoad r refl by (auto simp: exits_load_def wp_abind wp_atry wp_areturn wp_basic wp_call split: sum.splits)
next
  case (OpStart vs)
  have "wp (start_exit_for_vtxos X env evs vs) (\<lambda>r. exits_step X (xe_env env) T V xs evs (fst r)) (\<lambda>e s. False) s"
    by (rule wp_start_exit_for_vtxos [OF _ exits_step_refl [OF ok]]) (use op OpStart in \<open>auto simp: list_all_iff\<close>)
  then show ?thesis using OpStart by (simp add: wp_abind wp_areturn)
next
  case OpSync
  then show ?thesis using wp_exits_sync(2) [OF env ok] by (simp add: wp_abind wp_areturn)
next
  case OpSyncNoProgress
  have "wp (sync_no_progress X (xe_env env) evs) (\<lambda>r. exits_step X (xe_env env) T V xs evs (fst r)) (\<lambda>e s. False) s"
    by (rule wp_mono [OF wp_exits_sync(1) [OF env ok]]) (auto intro: exits_walk_step)
  then show ?thesis using OpSyncNoProgress by (simp add: wp_abind wp_areturn)
next
  case (OpProgress fo)
  have "wp (progress_exits X (xe_env env) fo evs) (\<lambda>r. exits_step X (xe_env env) T V xs evs (fst r)) (\<lambda>e s. False) s"
    by (rule wp_mono [OF wp_progress_exits [OF env ok]])
      (auto intro!: exits_walk_step exI [of _ "[]"] simp: exits_walk_def)
  then show ?thesis using OpProgress by (simp add: wp_abind wp_areturn)
qed

definition run_ops :: "externals \<Rightarrow> 'w exits_env \<Rightarrow> exits_op list \<Rightarrow> ExitVtxo list \<Rightarrow> ('w exit_sys, unit, ExitVtxo list) action" where
  "run_ops X env ops evs = afold (run_op X env) ops evs"

lemma wp_run_ops:
  assumes env: "exit_world X (xe_env env) T" and op: "list_all (op_ok X env T V) ops"
    and ok: "exits_step X (xe_env env) T V xs evs evs' s"
  shows "wp (run_ops X env ops evs') (exits_step X (xe_env env) T V xs evs) (\<lambda>e s. False) s"
  unfolding run_ops_def
proof (rule wp_afold [where I = "exits_step X (xe_env env) T V xs evs", OF ok])
  fix p and evs'' and s' :: "'a exit_sys"
  assume "p \<in> set ops" and step: "exits_step X (xe_env env) T V xs evs evs'' s'"
  then have "op_ok X env T V p" using op by (simp add: list_all_iff)
  then show "wp (run_op X env p evs'') (exits_step X (xe_env env) T V xs evs) (\<lambda>e s. False) s'"
    using exits_step_trans [OF step, of "run_op X env p evs''" "\<lambda>r. r"] wp_run_op [OF env] by simp
qed

section \<open>The claim transaction\<close>

text \<open>A claim input of VTXO \<open>v\<close> that is signed with the key of its user.\<close>

definition claim_signed ::
  "externals \<Rightarrow> 'w exits_env \<Rightarrow> Transaction \<Rightarrow> TxOut list \<Rightarrow> nat \<Rightarrow> Vtxo \<Rightarrow> PsbtInput \<Rightarrow> bool" where
  "claim_signed X env tx prevouts i v input \<longleftrightarrow>
     (\<exists>script sig. user_exit_clause X (v_policy v) (v_exit_delta v) = (Ok script :: (string, script) outcome) \<and>
        script \<in> snd ` set (tap_leaves (vtxo_output_taproot X v)) \<and>
        pi_witness input = Some [sig, ext_script_bytes X script, ext_control_block X (vtxo_output_taproot X v) script] \<and>
        ext_verify_schnorr X sig (claim_sighash env tx i prevouts script) (ext_x_only X (vtxo_user_pubkey v)))"

lemma maybe_sign_ok:
  assumes "keyspend_laws X" "get_exit_claim_input X input = (Ok (Some v) :: (string, Vtxo option) outcome)"
    and "maybe_sign_exit_claim_input X env rnd tx prevouts i key input = Ok input'"
  shows "claim_signed X env tx prevouts i v input'"
proof -
  have "ext_public_key X key = vtxo_user_pubkey v" using assms(2,3)
    by (auto simp: maybe_sign_exit_claim_input_def split: if_splits)
  moreover have "ext_verify_schnorr X (ext_sign_schnorr X rnd key m) m (ext_x_only X (ext_public_key X key))" for m
    using assms(1) by (simp add: keyspend_laws_def)
  ultimately show ?thesis
    using assms(2,3) unfolding claim_signed_def
    by (auto simp: maybe_sign_exit_claim_input_def and_then_eq_Inr Let_def split: if_splits)
qed

definition claims_signed ::
  "externals \<Rightarrow> 'w exits_env \<Rightarrow> Transaction \<Rightarrow> TxOut list \<Rightarrow> nat \<Rightarrow> Vtxo list \<Rightarrow> PsbtInput list \<Rightarrow> bool" where
  "claims_signed X env tx prevouts i vs inputs \<longleftrightarrow>
     length inputs = length vs \<and> (\<forall>j < length vs. claim_signed X env tx prevouts (i + j) (vs ! j) (inputs ! j))"

lemma claims_signed_simps [simp]:
  "claims_signed X env tx prevouts i [] []"
  "claims_signed X env tx prevouts i (v # vs) (input # inputs) \<longleftrightarrow>
     claim_signed X env tx prevouts i v input \<and> claims_signed X env tx prevouts (Suc i) vs inputs"
  by (auto simp: claims_signed_def nth_Cons less_Suc_eq_0_disj split: nat.splits)

lemma wp_sign_inputs:
  assumes "keyspend_laws X"
    and "list_all2 (\<lambda>v input. get_exit_claim_input X input = (Ok (Some v) :: (string, Vtxo option) outcome)) vs inputs"
  shows "wp (sign_inputs X env rnd evs tx prevouts i inputs) (\<lambda>out s'. claims_signed X env tx prevouts i vs out) (\<lambda>e s'. True) s"
  using assms(2)
proof (induction vs inputs arbitrary: i s rule: list_all2_induct)
  case Nil
  show ?case by (simp add: wp_basic)
next
  case (Cons v vs' input inputs)
  note v = Cons.hyps(1)
  let ?Q = "\<lambda>out s'. claims_signed X env tx prevouts i (v # vs') out"
  have tail: "wp (abind (sign_inputs X env rnd evs tx prevouts (Suc i) inputs) (\<lambda>out. areturn (input' # out))) ?Q (\<lambda>e s'. True) s'"
    if "claim_signed X env tx prevouts i v input'" for input' s'
    unfolding wp_abind wp_areturn by (rule wp_mono [OF Cons.IH]) (use that in auto)
  have signed: "wp (alift (maybe_sign_exit_claim_input X env (rnd i) tx prevouts i key input))
      (\<lambda>input'. wp (abind (sign_inputs X env rnd evs tx prevouts (Suc i) inputs) (\<lambda>out. areturn (input' # out))) ?Q (\<lambda>e s'. True))
      (\<lambda>e s'. True) s'" for key s'
    unfolding wp_alift by (cases "maybe_sign_exit_claim_input X env (rnd i) tx prevouts i key input")
      (simp, simp only: sum.case, intro tail maybe_sign_ok [OF assms(1) v])
  have key: "wp (abind (get_vtxo_key env v) (\<lambda>key. alift (maybe_sign_exit_claim_input X env (rnd i) tx prevouts i key input)))
      (\<lambda>input'. wp (abind (sign_inputs X env rnd evs tx prevouts (Suc i) inputs) (\<lambda>out. areturn (input' # out))) ?Q (\<lambda>e s'. True))
      (\<lambda>e s'. True) s'" for s'
    unfolding wp_abind [of "get_vtxo_key env v"] by (rule wp_mono [OF wp_True]) (use signed in auto)
  show ?case
    unfolding sign_inputs.simps v wp_abind [of "alift (Ok (Some v))"] wp_alift sum.case option.case
      wp_abind [of "if _ then _ else _"]
    using key by (simp add: wp_basic)
qed

lemma wp_create_psbt:
  assumes laws: "keyspend_laws X" "consensus_laws X" and wf: "\<And>v. v \<in> set vs \<Longrightarrow> wf_vtxo X v"
  shows "wp (create_psbt X env rnd evs vs tx)
    (\<lambda>psbt s'. psbt_tx psbt = tx \<and> claims_signed X env tx (map (vtxo_txout X) vs) 0 vs (psbt_inputs psbt)) (\<lambda>e s'. True) s"
proof -
  let ?init = "\<lambda>v. \<lparr>pi_exit_claim = None, pi_witness_utxo = Some (vtxo_txout X v), pi_witness = None\<rparr>"
  have claims: "list_all2 (\<lambda>v input. get_exit_claim_input X input = (Ok (Some v) :: (string, Vtxo option) outcome)) vs inputs \<and>
      map pi_witness_utxo inputs = map (\<lambda>v. Some (vtxo_txout X v)) vs"
    if "collect_results (map (\<lambda>v. set_exit_claim_input X v (?init v)) vs) = (Ok inputs :: (ExitError, PsbtInput list) outcome)" for inputs
  proof -
    have eq: "map (\<lambda>v. set_exit_claim_input X v (?init v)) vs = map (Inr :: PsbtInput \<Rightarrow> (ExitError, PsbtInput) outcome) inputs"
      using that by (simp add: collect_results_eq_Inr)
    have len: "length vs = length inputs" by (rule map_eq_imp_length_eq [OF eq])
    have one: "get_exit_claim_input X (inputs ! i) = (Ok (Some (vs ! i)) :: (string, Vtxo option) outcome) \<and>
        pi_witness_utxo (inputs ! i) = Some (vtxo_txout X (vs ! i))" if "i < length vs" for i
    proof -
      have "set_exit_claim_input X (vs ! i) (?init (vs ! i)) = (Ok (inputs ! i) :: (ExitError, PsbtInput) outcome)"
        using arg_cong [OF eq, of "\<lambda>l. l ! i"] that len by simp
      then obtain b where b: "enc_vtxo X (vs ! i) = Some b" "inputs ! i = (?init (vs ! i))\<lparr>pi_exit_claim := Some b\<rparr>"
        by (auto simp: set_exit_claim_input_def and_then_eq_Inr expect_def split: option.splits)
      have "dec_vtxo X (b @ []) = Inr (vs ! i, [])"
        by (rule codec.roundtrip [OF vtxo_codec [OF laws(2)] _ b(1)]) (use wf that in simp)
      then show ?thesis using b(2) by (simp add: get_exit_claim_input_def)
    qed
    then show ?thesis using len by (auto simp: list_all2_conv_all_nth intro: nth_equalityI)
  qed
  have sign: "wp (sign_exit_claim_inputs X env rnd evs \<lparr>psbt_tx = tx, psbt_inputs = inputs\<rparr>)
      (\<lambda>psbt s'. psbt_tx psbt = tx \<and> claims_signed X env tx (map (vtxo_txout X) vs) 0 vs (psbt_inputs psbt)) (\<lambda>e s'. True) s'"
    if "list_all2 (\<lambda>v input. get_exit_claim_input X input = (Ok (Some v) :: (string, Vtxo option) outcome)) vs inputs"
      "map pi_witness_utxo inputs = map (\<lambda>v. Some (vtxo_txout X v)) vs" for inputs s'
  proof -
    have "map (\<lambda>i. the (pi_witness_utxo i)) inputs = map the (map pi_witness_utxo inputs)" by simp
    then have prev: "map (\<lambda>i. the (pi_witness_utxo i)) inputs = map (vtxo_txout X) vs" using that(2) by simp
    have "None \<notin> set (map pi_witness_utxo inputs)" unfolding that(2) by auto
    then have some: "\<not> list_ex (\<lambda>i. pi_witness_utxo i = None) inputs" by (force simp: list_ex_iff)
    show ?thesis
      using some unfolding sign_exit_claim_inputs_def Psbt.select_convs prev wp_cases wp_abind wp_areturn
      by (auto intro!: wp_mono [OF wp_sign_inputs [OF laws(1) that(1)]])
  qed
  show ?thesis
    unfolding create_psbt_def wp_abind wp_alift wp_amap_err
  proof (cases "collect_results (map (\<lambda>v. set_exit_claim_input X v (?init v)) vs) :: (ExitError, PsbtInput list) outcome")
    case (Inr inputs)
    from claims [OF this] have "wp (sign_exit_claim_inputs X env rnd evs \<lparr>psbt_tx = tx, psbt_inputs = inputs\<rparr>)
        (\<lambda>psbt s'. psbt_tx psbt = tx \<and> claims_signed X env tx (map (vtxo_txout X) vs) 0 vs (psbt_inputs psbt)) (\<lambda>e s'. True) s"
      by (intro sign) auto
    then show "case collect_results (map (\<lambda>v. set_exit_claim_input X v (?init v)) vs) :: (ExitError, PsbtInput list) outcome of
        Inl e \<Rightarrow> True
      | Inr inputs \<Rightarrow> wp (sign_exit_claim_inputs X env rnd evs \<lparr>psbt_tx = tx, psbt_inputs = inputs\<rparr>)
          (\<lambda>psbt s'. psbt_tx psbt = tx \<and> claims_signed X env tx (map (vtxo_txout X) vs) 0 vs (psbt_inputs psbt))
          (\<lambda>e. case e of Err x \<Rightarrow> \<lambda>s. True | Panic p \<Rightarrow> \<lambda>s. True) s"
      unfolding Inr sum.case by (rule wp_mono) (auto split: failure.splits)
  qed simp
qed

lemma claim_inputs_Ok:
  assumes "claim_inputs m inputs amount = Ok (total', tx_ins, vs)"
  shows "list_all is_claimable inputs \<and> map (\<lambda>ev. m (ev_vtxo_id ev)) inputs = map Some vs \<and>
    total' = amount + sum_list (map v_amount vs) \<and>
    tx_ins = map (\<lambda>v. plain_input (v_point v) (ucast (v_exit_delta v)) []) vs"
  using assms
proof (induction inputs arbitrary: amount total' tx_ins vs)
  case (Cons input inputs)
  then obtain v t ins us where v: "m (ev_vtxo_id input) = Some v" "is_claimable input"
    and rest: "claim_inputs m inputs (amount + v_amount v) = Ok (t, ins, us)"
    and out: "total' = t" "tx_ins = plain_input (v_point v) (ucast (v_exit_delta v)) [] # ins" "vs = v # us"
    by (auto simp: and_then_eq_Inr expect_def split: option.splits if_splits)
  from Cons.IH [OF rest] v out show ?case by simp
qed simp

lemma wp_get_vtxos:
  assumes "\<And>i w u w'. db_wallet_vtxo env i w = (Inr (Some u), w') \<Longrightarrow> u = V i"
    and "\<And>i v. m i = Some v \<Longrightarrow> v = V i"
  shows "wp (get_vtxos env inputs m) (\<lambda>m' s'. \<forall>i v. m' i = Some v \<longrightarrow> v = V i) (\<lambda>e s'. True) s"
  using assms(2)
proof (induction inputs arbitrary: m s)
  case Nil
  then show ?case by (simp add: wp_basic)
next
  case (Cons input inputs)
  have "wp (get_vtxos env inputs (m(ev_vtxo_id input \<mapsto> V (ev_vtxo_id input)))) (\<lambda>m' s'. \<forall>i v. m' i = Some v \<longrightarrow> v = V i) (\<lambda>e s'. True) t" for t
    by (rule Cons.IH) (use Cons.prems in \<open>auto split: if_splits\<close>)
  moreover have "wp (get_vtxo env input) (\<lambda>v s'. v = V (ev_vtxo_id input)) (\<lambda>e s'. True) t" for t
    using assms(1) by (auto simp: get_vtxo_def wp_abind wp_call wp_cases wp_basic split: prod.splits sum.splits option.splits)
  ultimately show ?case unfolding get_vtxos.simps wp_abind by (auto intro: wp_mono)
qed

text \<open>What a successful \<open>drain_exits\<close> returns for the VTXOs \<open>vs\<close>.\<close>

definition drain_post :: "externals \<Rightarrow> 'w exits_env \<Rightarrow> ScriptBuf \<Rightarrow> Vtxo list \<Rightarrow> Psbt \<Rightarrow> bool" where
  "drain_post X env address vs psbt \<longleftrightarrow>
     tx_version (psbt_tx psbt) = 3 \<and> locktime_ok (tx_lock_time (psbt_tx psbt)) \<and>
     tx_input (psbt_tx psbt) = map (\<lambda>v. plain_input (v_point v) (ucast (v_exit_delta v)) []) vs \<and>
     (\<exists>fee out. tx_output (psbt_tx psbt) = [\<lparr>txo_value = out, txo_script = address\<rparr>] \<and>
        out + fee = sum_list (map v_amount vs) \<and> P2TR_DUST \<le> out) \<and>
     claims_signed X env (psbt_tx psbt) (map (vtxo_txout X) vs) 0 vs (psbt_inputs psbt)"

lemma wp_drain_tx:
  assumes laws: "keyspend_laws X" "consensus_laws X" and wf: "\<And>v. v \<in> set vs \<Longrightarrow> wf_vtxo X v"
    and ins: "tx_ins = map (\<lambda>v. plain_input (v_point v) (ucast (v_exit_delta v)) []) vs"
      "output_amount = sum_list (map v_amount vs)"
  shows "wp (drain_tx X env rnd evs tip address fo (output_amount, tx_ins, vs)) (\<lambda>psbt s'. drain_post X env address vs psbt) (\<lambda>e s'. True) s"
proof -
  let ?tx = "\<lambda>out. \<lparr>tx_version = 3, tx_lock_time = tip, tx_input = tx_ins, tx_output = [\<lparr>txo_value = out, txo_script = address\<rparr>]\<rparr>"
  have final: "wp (create_psbt X env rnd evs vs (?tx (output_amount - fee))) (\<lambda>psbt s'. drain_post X env address vs psbt) (\<lambda>e s'. True) t"
    if "fee + P2TR_DUST \<le> output_amount" "locktime_ok tip" for fee t
  proof (rule wp_mono [OF wp_create_psbt [OF laws wf]])
    fix psbt :: Psbt and t' :: "'a exit_sys"
    assume "psbt_tx psbt = ?tx (output_amount - fee) \<and>
      claims_signed X env (?tx (output_amount - fee)) (map (vtxo_txout X) vs) 0 vs (psbt_inputs psbt)"
    moreover have "output_amount - fee + fee = output_amount" "P2TR_DUST \<le> output_amount - fee" using that(1) by simp_all
    ultimately show "drain_post X env address vs psbt"
      using that(2) ins unfolding drain_post_def by (auto intro!: exI [of _ fee])
  qed simp_all
  let ?pay = "\<lambda>regular psbt. let fee_rate = (case fo of Some f \<Rightarrow> f | None \<Rightarrow> regular);
           fee_amount = fee_for_weight env fee_rate (extract_tx psbt);
           needed = fee_amount + P2TR_DUST
       in
       if output_amount < needed then athrow (ClaimFeeExceedsOutput needed output_amount)
       else create_psbt X env rnd evs vs ((?tx output_amount)\<lparr>tx_output := [\<lparr>txo_value = output_amount - fee_amount, txo_script = address\<rparr>]\<rparr>)"
  show ?thesis
  proof (cases "locktime_ok tip")
    case True
    have pay: "wp (?pay regular psbt) (\<lambda>psbt s'. drain_post X env address vs psbt) (\<lambda>e s'. True) t" for regular psbt t
      using final [OF _ True] unfolding Let_def wp_cases wp_basic by simp
    have "wp (abind (create_psbt X env rnd evs vs (?tx output_amount)) (?pay regular))
        (\<lambda>psbt s'. drain_post X env address vs psbt) (\<lambda>e s'. True) t" for regular t
      unfolding wp_abind [of "create_psbt X env rnd evs vs _"] by (rule wp_mono [OF wp_True]) (simp_all only: pay)
    then have "wp (abind (query (chain_regular_fee_rate env)) (\<lambda>regular. abind (create_psbt X env rnd evs vs (?tx output_amount)) (?pay regular)))
        (\<lambda>psbt s'. drain_post X env address vs psbt) (\<lambda>e s'. True) s"
      unfolding wp_abind [of "query _"] by (rule wp_queryI)
    then show ?thesis using True unfolding drain_tx_def by (simp only: prod.case Let_def not_True_eq_False if_False)
  qed (simp add: drain_tx_def wp_basic)
qed

lemma wp_drain_exits:
  assumes laws: "keyspend_laws X" "consensus_laws X"
    and db: "\<And>i w u w'. db_wallet_vtxo (xe_env env) i w = (Inr (Some u), w') \<Longrightarrow> u = V i"
    and wf: "\<And>ev. ev \<in> set inputs \<Longrightarrow> wf_vtxo X (V (ev_vtxo_id ev))"
  shows "wp (drain_exits X env rnd evs inputs address fo)
    (\<lambda>psbt s'. inputs \<noteq> [] \<and> list_all is_claimable inputs \<and>
       drain_post X env address (map (\<lambda>ev. V (ev_vtxo_id ev)) inputs) psbt) (\<lambda>e s'. True) s"
proof -
  let ?vs = "map (\<lambda>ev. V (ev_vtxo_id ev)) inputs"
  let ?Q = "\<lambda>psbt s'. inputs \<noteq> [] \<and> list_all is_claimable inputs \<and> drain_post X env address ?vs psbt"
  have body: "wp (abind (alift (claim_inputs m inputs 0)) (drain_tx X env rnd evs tip address fo)) ?Q (\<lambda>e s'. True) t"
    if m: "\<forall>i v. m i = Some v \<longrightarrow> v = V i" and ne: "inputs \<noteq> []" for m tip t
  proof (cases "claim_inputs m inputs 0")
    case (Inr r)
    then obtain out ins vs where r: "r = (out, ins, vs)" by (cases r)
    note c = claim_inputs_Ok [OF Inr [unfolded r]]
    have map: "map (\<lambda>ev. m (ev_vtxo_id ev)) inputs = map Some vs" using c by simp
    have vs: "vs = ?vs"
    proof (rule nth_equalityI)
      show len: "length vs = length ?vs" using map_eq_imp_length_eq [OF map] by simp
      show "vs ! i = ?vs ! i" if "i < length vs" for i
      proof -
        have "m (ev_vtxo_id (inputs ! i)) = Some (vs ! i)" using arg_cong [OF map, of "\<lambda>l. l ! i"] that len by simp
        then show ?thesis using m that len by auto
      qed
    qed
    have "wp (drain_tx X env rnd evs tip address fo r) (\<lambda>psbt s'. drain_post X env address vs psbt) (\<lambda>e s'. True) t"
      unfolding r by (rule wp_drain_tx [OF laws]) (use c vs wf in auto)
    then show ?thesis
      unfolding wp_abind wp_alift Inr sum.case by (rule wp_mono) (use c ne vs in auto)
  qed (simp add: wp_abind wp_alift)
  have "wp (abind (get_vtxos (xe_env env) inputs Map.empty) (\<lambda>m. abind (alift (claim_inputs m inputs 0)) (drain_tx X env rnd evs tip address fo))) ?Q (\<lambda>e s'. True) t"
    if "inputs \<noteq> []" for tip t
    unfolding wp_abind [of "get_vtxos _ _ _"]
    by (rule wp_mono [OF wp_get_vtxos [OF db, where m = Map.empty] body]) (use that in auto)
  then show ?thesis
    unfolding drain_exits_def wp_abind [of "call _ _"] wp_call
    by (auto simp: wp_cases wp_basic split: prod.splits sum.splits)
qed

text \<open>
  BIP 112, for delays in blocks: a script with \<open>OP_CHECKSEQUENCEVERIFY\<close> needs an input whose sequence is
  at least the delay.
\<close>

fun csv_delays :: "script \<Rightarrow> int list" where
  "csv_delays (PushInt n # PushOpcode OP_CSV # rest) = n # csv_delays rest"
| "csv_delays (e # rest) = csv_delays rest"
| "csv_delays [] = []"

definition csv_satisfied :: "script \<Rightarrow> u32 \<Rightarrow> bool" where
  "csv_satisfied script sequence \<longleftrightarrow> list_all (\<lambda>n. n \<le> uint sequence) (csv_delays script)"

lemma uint_ucast_delta: "uint (ucast (d :: BlockDelta) :: u32) = uint d"
proof -
  have "uint d < 2 ^ 16" "0 \<le> uint d" using unsigned_less [of d] by simp_all
  then show ?thesis by (simp add: unsigned_ucast_eq take_bit_eq_mod)
qed

lemma pubkey_claim_mature:
  assumes "v_policy v = Pubkey u"
  shows "\<exists>script. user_exit_clause X (v_policy v) (v_exit_delta v) = (Ok script :: (string, script) outcome) \<and>
    csv_satisfied script (ucast (v_exit_delta v))"
  using assms by (simp add: csv_satisfied_def exit_clause_def delayed_sign_def uint_ucast_delta)

lemma csv_delays_htlc: "csv_delays (delay_timelock_sign d h k) = [uint d]"
  by (simp add: delay_timelock_sign_def)

text \<open>
  The claim of an HTLC VTXO that the user offered to the server is built with the exit delta as its sequence,
  while its script demands twice that delay.
\<close>

theorem drain_htlc_send_immature:
  assumes "v_policy v = ServerHtlcSend u payment_hash htlc_expiry" "locktime_ok htlc_expiry"
    and "0 < v_exit_delta v" "v_exit_delta v < 2 ^ 15"
  shows "\<exists>script. user_exit_clause X (v_policy v) (v_exit_delta v) = (Ok script :: (string, script) outcome) \<and>
    \<not> csv_satisfied script (ucast (v_exit_delta v))"
proof -
  have d: "uint (v_exit_delta v) < 2 ^ 15" "0 < uint (v_exit_delta v)"
    using assms(3,4) by (simp_all add: word_less_def)
  then have "uint (2 * v_exit_delta v) = 2 * uint (v_exit_delta v)"
    by (simp add: uint_word_ariths)
  then show ?thesis
    using assms(1,2) d by (simp add: csv_satisfied_def csv_delays_htlc uint_ucast_delta)
qed

section \<open>Properties\<close>

text \<open>
  \<open>all_claimable_at_height\<close> returns a height exactly when some exit is not yet claimed and the height at
  which each such exit becomes claimable is known; it is then the highest of these heights.
\<close>

theorem all_claimable_at_height_max:
  "all_claimable_at_height evs = Some h \<longleftrightarrow>
     (\<forall>ev \<in> set evs. \<not> is_claimed (ev_state ev) \<longrightarrow> (\<exists>k \<le> h. claimable_height (ev_state ev) = Some k)) \<and>
     (\<exists>ev \<in> set evs. \<not> is_claimed (ev_state ev) \<and> claimable_height (ev_state ev) = Some h)"
proof -
  have "highest_claimable acc evs = Some h \<longleftrightarrow>
     (\<forall>ev \<in> set evs. \<not> is_claimed (ev_state ev) \<longrightarrow> (\<exists>k \<le> h. claimable_height (ev_state ev) = Some k)) \<and>
     (\<forall>a. acc = Some a \<longrightarrow> a \<le> h) \<and>
     (acc = Some h \<or> (\<exists>ev \<in> set evs. \<not> is_claimed (ev_state ev) \<and> claimable_height (ev_state ev) = Some h))" for acc
  proof (induction evs arbitrary: acc)
    case Nil
    show ?case by auto
  next
    case (Cons ev evs)
    have "max_height acc k = Some h \<longleftrightarrow> (acc = Some h \<and> k \<le> h \<or> k = h \<and> (\<forall>a. acc = Some a \<longrightarrow> a \<le> h))" for k
      by (cases acc) (auto simp: max_height_def max_def)
    moreover have "(\<forall>a. max_height acc k = Some a \<longrightarrow> a \<le> h) \<longleftrightarrow> k \<le> h \<and> (\<forall>a. acc = Some a \<longrightarrow> a \<le> h)" for k
      by (cases acc) (auto simp: max_height_def max_def)
    ultimately show ?case
      using Cons.IH by (cases "claimable_height (ev_state ev)") (auto split: if_splits)
  qed
  from this [of None] show ?thesis by (simp add: all_claimable_at_height_def)
qed

theorem all_claimable_at_height_max_witness: "all_claimable_at_height [demo_exit] = Some 244"
  using all_claimable_at_height_max [of "[demo_exit]" 244]
  by (simp add: demo_exit_def demo_block_def new_awaiting_delta_def)


definition demo_exits_env :: "unit exits_env" where
  "demo_exits_env = \<lparr>xe_env = demo_env, db_exit_vtxo_entries = (\<lambda>w. (Inr [], w)),
     db_remove_exit_vtxo_entry = (\<lambda>i w. (Inr (), w)), db_unspent_vtxos = (\<lambda>w. (Inr [demo_vtxo], w)),
     db_mark_spent = (\<lambda>i w. (Inr (), w)), new_exit_movement = (\<lambda>i a s w. (Inr (), w)),
     chain_regular_fee_rate = (\<lambda>w. (2, w)), db_public_key_idx = (\<lambda>k w. (Inr (Some 0), w)),
     derive_keypair = (\<lambda>i. replicate 32 2), claim_sighash = (\<lambda>tx i prevouts script. replicate 32 1),
     fee_for_weight = (\<lambda>f tx. f * 100)\<rparr>"



definition demo_claimable :: ExitVtxo where
  "demo_claimable = demo_exit\<lparr>ev_state := new_claimable 300 (demo_block 244) None\<rparr>"

lemma demo_drain:
  "\<exists>psbt. drain_exits demo_ext demo_exits_env (\<lambda>i. i) [demo_claimable] [demo_claimable] [0x51] None demo_sys = (Ok psbt, demo_sys)"
proof -
  have wf: "wf_vtxo demo_ext demo_vtxo"
    by (simp add: wf_vtxo_def demo_vtxo_def demo_ext_def wf_outpoint_def wf_genesis_item_def
        wf_txout_def u64_limit_def wf_pubkey_def wf_sig_def wf_opt_sig_def PUBLIC_KEY_SIZE_def
        SCHNORR_SIGNATURE_SIZE_def)
  obtain b where b: "enc_vtxo demo_ext demo_vtxo = Some b"
    by (simp add: enc_vtxo_def enc_genesis_item_def demo_vtxo_def Let_def)
  from codec.roundtrip [OF vtxo_codec [OF demo_ext_laws(3)] wf b, of "[]"]
  have dec: "dec_vtxo demo_ext b = Inr (demo_vtxo, [])" by simp
  have v: "v_policy demo_vtxo = Pubkey (replicate 33 2)" "v_amount demo_vtxo = 1000" "v_exit_delta demo_vtxo = 144"
    by (simp_all add: demo_vtxo_def)
  have key: "ext_public_key demo_ext (replicate 32 2) = vtxo_user_pubkey demo_vtxo"
    by (simp add: demo_ext_def vtxo_user_pubkey_def v eval_nat_numeral)
  have leaf: "tap_leaves (vtxo_output_taproot demo_ext demo_vtxo) = [(0, exit_clause demo_ext (replicate 33 2) 144)]"
    by (simp add: vtxo_output_taproot_def v exit_taproot_def)
  have claimable: "is_claimable demo_claimable" "ev_vtxo_id demo_claimable = vtxo_id demo_vtxo"
    by (simp_all add: demo_claimable_def demo_exit_def is_claimable_def new_state_defs)
  show ?thesis
    by (simp add: drain_exits_def drain_tx_def create_psbt_def set_exit_claim_input_def sign_exit_claim_inputs_def
      get_exit_claim_input_def maybe_sign_exit_claim_input_def get_vtxo_key_def get_vtxo_def list_claimable_def
      call_def query_def abind_def areturn_def aget_def alift_def amap_err_def Let_def locktime_ok_def
      demo_exits_env_def demo_env_def demo_sys_def b dec v key leaf claimable P2TR_DUST_def u64_limit_def)
qed


end
