(* ===== verification/Ark_Server_Db.thy ===== *)
theory Ark_Server_Db
  imports Ark_Signed_Tree Ark_Action Ark_Arkoor
begin

text \<open>
  The VTXOs and rounds in the server's database (\<open>server/src/database/query.rs\<close>, \<open>oor.rs\<close>, \<open>rounds/mod.rs\<close> and
  \<open>mod.rs\<close>). The table \<open>vtxo\<close> is a map from identifiers to rows, which its unique column \<open>vtxo_id\<close> makes it; the table
  \<open>round\<close> is a list. An \<open>UPDATE\<close> with a condition on the identifier affects one row or none. A transaction
  that is dropped before it is committed leaves no trace. That the connection can fail is left to the callers.
\<close>

section \<open>Rows\<close>

record ForfeitState =
  fs_round_id :: Txid
  fs_user_nonces :: "PublicNonce list"
  fs_user_part_sigs :: "PartialSignature list"
  fs_pub_nonces :: "PublicNonce list"
  fs_sec_nonces :: "SecretNonce list"

record VtxoState =
  vs_vtxo :: Vtxo
  vs_oor_spent_txid :: "Txid option"
  vs_forfeit_state :: "ForfeitState option"

definition is_spendable :: "VtxoState \<Rightarrow> bool" where
  "is_spendable v \<longleftrightarrow> vs_oor_spent_txid v = None \<and> vs_forfeit_state v = None"

record StoredRound =
  rd_seq :: nat
  rd_tx :: Transaction
  rd_tree :: CachedSignedVtxoTree
  rd_connector_key :: Keypair
  rd_nb_input_vtxos :: nat
  rd_expiry :: BlockHeight

record database =
  db_vtxo :: "VtxoId \<rightharpoonup> VtxoState"
  db_round :: "StoredRound list"
  db_board :: "VtxoId \<rightharpoonup> BlockHeight"

type_synonym 'a query = "(database, string, 'a) action"

text \<open>\<open>conn.transaction()\<close> up to \<open>tx.commit()\<close>: an error drops the transaction.\<close>

definition transaction :: "'a query \<Rightarrow> 'a query" where
  "transaction q = (\<lambda>d. case q d of (Inr x, d') \<Rightarrow> (Inr x, d') | (Inl e, d') \<Rightarrow> (Inl e, d))"

section \<open>Queries\<close>

definition get_vtxos_by_id :: "VtxoId list \<Rightarrow> VtxoState list query" where
  "get_vtxos_by_id ids =
     abind (aget db_vtxo) (\<lambda>rows.
     if length (remdups (filter (\<lambda>i. rows i \<noteq> None) ids)) \<noteq> length ids then athrow ''vtxo does not exist''
     else areturn (map (\<lambda>i. the (rows i)) ids))"

text \<open>\<open>INSERT ... ON CONFLICT DO NOTHING\<close>.\<close>

fun upsert_vtxos :: "Vtxo list \<Rightarrow> unit query" where
  "upsert_vtxos [] = areturn ()"
| "upsert_vtxos (v # vs) =
     abind (amodify (\<lambda>d. if db_vtxo d (vtxo_id v) = None
        then d\<lparr>db_vtxo := (db_vtxo d)(vtxo_id v \<mapsto> \<lparr>vs_vtxo = v, vs_oor_spent_txid = None, vs_forfeit_state = None\<rparr>)\<rparr>
        else d)) (\<lambda>_. upsert_vtxos vs)"

text \<open>
  \<open>UPDATE vtxo SET ... WHERE vtxo_id = $1 AND oor_spent_txid IS NULL AND forfeit_state IS NULL\<close>, with the number of
  rows that it changed.
\<close>

definition update_spendable :: "VtxoId \<Rightarrow> (VtxoState \<Rightarrow> VtxoState) \<Rightarrow> nat query" where
  "update_spendable i f =
     abind (aget (\<lambda>d. db_vtxo d i)) (\<lambda>row.
     case row of
       None \<Rightarrow> areturn 0
     | Some r \<Rightarrow>
         if is_spendable r
         then abind (amodify (\<lambda>d. d\<lparr>db_vtxo := (db_vtxo d)(i \<mapsto> f r)\<rparr>)) (\<lambda>_. areturn 1)
         else areturn 0)"

fun mark_forfeited :: "(VtxoId \<times> ForfeitState) list \<Rightarrow> unit query" where
  "mark_forfeited [] = areturn ()"
| "mark_forfeited ((i, forfeit_state) # rest) =
     abind (update_spendable i (\<lambda>r. r\<lparr>vs_forfeit_state := Some forfeit_state\<rparr>)) (\<lambda>rows_affected.
     if rows_affected = 0 then athrow ''tried to mark unspendable vtxo as forfeited''
     else mark_forfeited rest)"

definition db_finish_round ::
  "externals \<Rightarrow> nat \<Rightarrow> Transaction \<Rightarrow> CachedSignedVtxoTree \<Rightarrow> Keypair \<Rightarrow> (VtxoId \<times> ForfeitState) list \<Rightarrow> unit query" where
  "db_finish_round X round_seq round_tx vtxos connector_key forfeit_vtxos =
     transaction (
       abind (amodify (\<lambda>d. d\<lparr>db_round := db_round d @
         [\<lparr>rd_seq = round_seq, rd_tx = round_tx, rd_tree = vtxos, rd_connector_key = connector_key,
           rd_nb_input_vtxos = length forfeit_vtxos, rd_expiry = ts_expiry_height (st_spec (ct_spec vtxos))\<rparr>]\<rparr>)) (\<lambda>_.
       abind (mark_forfeited forfeit_vtxos) (\<lambda>_.
       abind (alift (all_vtxos X vtxos)) (\<lambda>new_vtxos.
       upsert_vtxos new_vtxos))))"

text \<open>
  \<open>mark_package_spent\<close>: when nothing was updated, the recorded spend has to be the same. A forfeited VTXO has no
  recorded spend, and reading the \<open>NULL\<close> as a string panics.
\<close>

fun mark_package_spent :: "(VtxoId \<times> Txid) list \<Rightarrow> unit query" where
  "mark_package_spent [] = areturn ()"
| "mark_package_spent ((i, spending_txid) # rest) =
     abind (update_spendable i (\<lambda>r. r\<lparr>vs_oor_spent_txid := Some spending_txid\<rparr>)) (\<lambda>nb_rows_affected.
     abind
       (if nb_rows_affected = 0 then
          abind (aget (\<lambda>d. db_vtxo d i)) (\<lambda>row.
          case row of
            None \<Rightarrow> athrow ''Failed to verify if vtxo is spent''
          | Some r \<Rightarrow>
              (case vs_oor_spent_txid r of
                 None \<Rightarrow> apanic ''error retrieving column 0''
               | Some txid \<Rightarrow> if txid \<noteq> spending_txid then athrow ''Failed to mark vtxo as spent'' else areturn ()))
        else areturn ()) (\<lambda>_.
     mark_package_spent rest))"

definition upsert_vtxos_and_mark_spends :: "Vtxo list \<Rightarrow> (VtxoId \<times> Txid) list \<Rightarrow> unit query" where
  "upsert_vtxos_and_mark_spends new_vtxos spend_info =
     transaction (abind (upsert_vtxos new_vtxos) (\<lambda>_. mark_package_spent spend_info))"

text \<open>
  \<open>check_set_vtxo_oor_spent_package\<close>: the first input that is already spent is returned, and returning it drops the
  transaction.
\<close>

fun mark_oor_spent :: "(VtxoId \<times> Txid) list \<Rightarrow> VtxoId option query" where
  "mark_oor_spent [] = areturn None"
| "mark_oor_spent ((i, txid) # rest) =
     abind (update_spendable i (\<lambda>r. r\<lparr>vs_oor_spent_txid := Some txid\<rparr>)) (\<lambda>rows_affected.
     if rows_affected = 0 then areturn (Some i) else mark_oor_spent rest)"

definition check_set_vtxo_oor_spent_package :: "(VtxoId \<times> Txid) list \<Rightarrow> Vtxo list \<Rightarrow> VtxoId option query" where
  "check_set_vtxo_oor_spent_package spends new_vtxos =
     (\<lambda>d. case mark_oor_spent spends d of
        (Inr None, d') \<Rightarrow> abind (upsert_vtxos new_vtxos) (\<lambda>_. areturn None) d'
      | (r, _) \<Rightarrow> (r, d))"

text \<open>
  \<open>upsert_board\<close>: the row that is there after the insertion is read back; heights are stored as \<open>i32\<close>, and a negative one
  is not a block height.
\<close>

definition upsert_board_row :: "VtxoId \<Rightarrow> BlockHeight \<Rightarrow> BlockHeight query" where
  "upsert_board_row i expiry_height =
     abind (amodify (\<lambda>d. if db_board d i = None then d\<lparr>db_board := (db_board d)(i \<mapsto> expiry_height)\<rparr> else d)) (\<lambda>_.
     abind (aget (\<lambda>d. db_board d i)) (\<lambda>row.
     case row of
       None \<Rightarrow> athrow ''Failed to execute query''
     | Some h \<Rightarrow> if unat h < 2 ^ 31 then areturn h else athrow ''Bad row: not a valid Board''))"

definition upsert_board :: "Vtxo \<Rightarrow> unit query" where
  "upsert_board v =
     transaction (abind (upsert_vtxos [v]) (\<lambda>_. abind (upsert_board_row (vtxo_id v) (v_expiry_height v)) (\<lambda>_. areturn ())))"

section \<open>Queries of the server\<close>

text \<open>What the server asks of the tables that it writes, as one type, for histories of the database.\<close>

datatype db_op =
    DbUpsert "Vtxo list"
  | DbFinishRound nat Transaction CachedSignedVtxoTree Keypair "(VtxoId \<times> ForfeitState) list"
  | DbMarkSpends "Vtxo list" "(VtxoId \<times> Txid) list"
  | DbCheckSet "(VtxoId \<times> Txid) list" "Vtxo list"
  | DbBoard Vtxo

fun db_run :: "externals \<Rightarrow> db_op \<Rightarrow> database \<Rightarrow> database" where
  "db_run X (DbUpsert vtxos) d = snd (transaction (upsert_vtxos vtxos) d)"
| "db_run X (DbFinishRound round_seq tx vtxos key forfeits) d =
     snd (db_finish_round X round_seq tx vtxos key forfeits d)"
| "db_run X (DbMarkSpends vtxos spends) d = snd (upsert_vtxos_and_mark_spends vtxos spends d)"
| "db_run X (DbCheckSet spends vtxos) d = snd (check_set_vtxo_oor_spent_package spends vtxos d)"
| "db_run X (DbBoard v) d = snd (upsert_board v d)"

section \<open>The invariant and what never changes\<close>

text \<open>
  Every row is stored under the identifier of its VTXO, and no VTXO is both spent by an arkoor and forfeited.
\<close>

definition db_ok :: "database \<Rightarrow> bool" where
  "db_ok d \<longleftrightarrow> (\<forall>i r. db_vtxo d i = Some r \<longrightarrow>
     vtxo_id (vs_vtxo r) = i \<and> (vs_oor_spent_txid r = None \<or> vs_forfeit_state r = None))"

text \<open>
  A later database knows the rows and rounds of an earlier one, with the same VTXOs, and a row that is not
  spendable is the same forever.
\<close>

definition db_later :: "database \<Rightarrow> database \<Rightarrow> bool" where
  "db_later d d' \<longleftrightarrow>
     (\<forall>i r. db_vtxo d i = Some r \<longrightarrow>
        (\<exists>r'. db_vtxo d' i = Some r' \<and> vs_vtxo r' = vs_vtxo r \<and> (\<not> is_spendable r \<longrightarrow> r' = r))) \<and>
     take (length (db_round d)) (db_round d') = db_round d"

lemma db_later_refl [simp]: "db_later d d"
  by (simp add: db_later_def)

lemma db_later_trans: "db_later d d' \<Longrightarrow> db_later d' d'' \<Longrightarrow> db_later d d''"
  unfolding db_later_def
  by (auto simp: dest: arg_cong [where f = "take (length (db_round d))"]) (metis min.absorb1 take_take length_take min.cobounded1)+

definition db_empty :: database where
  "db_empty = \<lparr>db_vtxo = Map.empty, db_round = [], db_board = Map.empty\<rparr>"

definition db_step :: "database \<Rightarrow> database \<Rightarrow> bool" where
  "db_step d d' \<longleftrightarrow> db_ok d' \<and> db_later d d'"

lemma db_step_self: "db_ok d \<Longrightarrow> db_step d d"
  by (simp add: db_step_def)

lemma stays_transaction [stays_intros]: "stays I q \<Longrightarrow> stays I (transaction q)"
  by (auto simp: stays_def wp_def transaction_def split: prod.splits sum.splits)

lemma wp_transaction [wp_simps]: "wp (transaction q) Q E d = wp q Q (\<lambda>e _. E e d) d"
  by (auto simp: wp_def transaction_def split: prod.splits sum.splits)

lemma wp_update_spendable [wp_simps]:
  "wp (update_spendable i f) Q E d =
     (case db_vtxo d i of
        None \<Rightarrow> Q 0 d
      | Some r \<Rightarrow> if is_spendable r then Q 1 (d\<lparr>db_vtxo := (db_vtxo d)(i \<mapsto> f r)\<rparr>) else Q 0 d)"
  by (simp add: update_spendable_def wp_simps split: option.splits)

lemma db_step_update:
  assumes "db_step d0 d" "db_vtxo d i = Some r" "is_spendable r" "vs_vtxo (f r) = vs_vtxo r"
    and "vs_oor_spent_txid (f r) = None \<or> vs_forfeit_state (f r) = None"
  shows "db_step d0 (d\<lparr>db_vtxo := (db_vtxo d)(i \<mapsto> f r)\<rparr>)"
proof -
  have "db_later d (d\<lparr>db_vtxo := (db_vtxo d)(i \<mapsto> f r)\<rparr>)" using assms(2-4) by (auto simp: db_later_def)
  moreover have "db_ok (d\<lparr>db_vtxo := (db_vtxo d)(i \<mapsto> f r)\<rparr>)"
    using assms(1,2,4,5) by (auto simp: db_step_def db_ok_def)
  ultimately show ?thesis using assms(1) db_later_trans by (auto simp: db_step_def)
qed

lemma stays_update_spendable:
  assumes "\<And>r. vs_vtxo (f r) = vs_vtxo r"
    and "\<And>r. is_spendable r \<Longrightarrow> vs_oor_spent_txid (f r) = None \<or> vs_forfeit_state (f r) = None"
  shows "stays (db_step d0) (update_spendable i f)"
  unfolding stays_def
  by (auto simp: wp_simps assms(1) split: option.splits intro!: db_step_update [where f = f] assms(2))

lemma stays_insert: "stays (db_step d0) (amodify (\<lambda>d. if db_vtxo d (vtxo_id v) = None
    then d\<lparr>db_vtxo := (db_vtxo d)(vtxo_id v \<mapsto> \<lparr>vs_vtxo = v, vs_oor_spent_txid = None, vs_forfeit_state = None\<rparr>)\<rparr>
    else d))"
proof -
  let ?r = "\<lparr>vs_vtxo = v, vs_oor_spent_txid = None, vs_forfeit_state = None\<rparr>"
  have "db_later d (d\<lparr>db_vtxo := (db_vtxo d)(vtxo_id v \<mapsto> ?r)\<rparr>)" if "db_vtxo d (vtxo_id v) = None" for d
    using that by (auto simp: db_later_def)
  moreover have "db_ok (d\<lparr>db_vtxo := (db_vtxo d)(vtxo_id v \<mapsto> ?r)\<rparr>)" if "db_ok d" for d
    using that by (simp add: db_ok_def)
  ultimately show ?thesis unfolding stays_def wp_amodify db_step_def by (auto intro: db_later_trans)
qed

lemma stays_upsert_vtxos [stays_intros]: "stays (db_step d0) (upsert_vtxos vs)"
  by (induction vs) (auto intro!: stays_intros stays_insert)

lemma stays_mark_forfeited [stays_intros]: "stays (db_step d0) (mark_forfeited fs)"
  by (induction fs rule: mark_forfeited.induct)
     (auto intro!: stays_intros stays_update_spendable simp: is_spendable_def)

lemma stays_mark_package_spent [stays_intros]: "stays (db_step d0) (mark_package_spent spends)"
  by (induction spends rule: mark_package_spent.induct)
     (auto intro!: stays_intros stays_update_spendable simp: is_spendable_def)

lemma stays_mark_oor_spent [stays_intros]: "stays (db_step d0) (mark_oor_spent spends)"
  by (induction spends rule: mark_oor_spent.induct)
     (auto intro!: stays_intros stays_update_spendable simp: is_spendable_def)

lemma stays_add_round: "stays (db_step d0) (amodify (\<lambda>d. d\<lparr>db_round := db_round d @ [r]\<rparr>))"
proof -
  have "db_later d (d\<lparr>db_round := db_round d @ [r]\<rparr>)" for d by (simp add: db_later_def)
  moreover have "db_ok (d\<lparr>db_round := db_round d @ [r]\<rparr>)" if "db_ok d" for d using that by (simp add: db_ok_def)
  ultimately show ?thesis unfolding stays_def wp_amodify db_step_def by (auto intro: db_later_trans)
qed

lemma stays_finish_round [stays_intros]:
  "stays (db_step d0) (db_finish_round X round_seq tx vtxos key forfeits)"
  unfolding db_finish_round_def by (intro stays_intros stays_add_round)

lemma stays_upsert_and_mark [stays_intros]: "stays (db_step d0) (upsert_vtxos_and_mark_spends vtxos spends)"
  unfolding upsert_vtxos_and_mark_spends_def by (intro stays_intros)

lemma wp_check_set:
  "wp (check_set_vtxo_oor_spent_package spends vtxos) Q E d =
     wp (mark_oor_spent spends)
       (\<lambda>o' d'. case o' of None \<Rightarrow> wp (upsert_vtxos vtxos) (\<lambda>_. Q None) E d' | Some i \<Rightarrow> Q (Some i) d) (\<lambda>e _. E e d) d"
  by (auto simp: wp_def check_set_vtxo_oor_spent_package_def abind_def areturn_def
      split: prod.splits sum.splits option.splits)

lemma stays_check_set [stays_intros]: "stays (db_step d0) (check_set_vtxo_oor_spent_package spends vtxos)"
proof -
  have "wp (mark_oor_spent spends) (\<lambda>o' d'. case o' of
      None \<Rightarrow> wp (upsert_vtxos vtxos) (\<lambda>_. db_step d0) (\<lambda>_. db_step d0) d' | Some i \<Rightarrow> db_step d0 d) (\<lambda>_ _. db_step d0 d) d"
    if "db_step d0 d" for d
    using stays_mark_oor_spent [of d0 spends] stays_upsert_vtxos [of d0 vtxos] that
    by (auto simp: stays_def split: option.splits intro: wp_mono)
  then show ?thesis by (simp add: stays_def wp_check_set)
qed

lemma stays_upsert_board_row [stays_intros]: "stays (db_step d0) (upsert_board_row i h)"
proof -
  have "db_later d (d\<lparr>db_board := b\<rparr>)" "db_ok (d\<lparr>db_board := b\<rparr>) = db_ok d" for d b by (simp_all add: db_later_def db_ok_def)
  then have "stays (db_step d0) (amodify (\<lambda>d. if db_board d i = None then d\<lparr>db_board := (db_board d)(i \<mapsto> h)\<rparr> else d) :: unit query)"
    unfolding stays_def wp_amodify db_step_def by (auto intro: db_later_trans)
  then show ?thesis unfolding upsert_board_row_def by (auto intro!: stays_intros split: option.splits)
qed

lemma stays_upsert_board [stays_intros]: "stays (db_step d0) (upsert_board v)"
  unfolding upsert_board_def by (intro stays_intros)

lemma stays_snd: "stays I m \<Longrightarrow> I s \<Longrightarrow> I (snd (m s))"
  by (cases "m s") (auto simp: stays_def wp_def split: sum.splits)

lemma db_run_step: "db_step d0 d \<Longrightarrow> db_step d0 (db_run X op d)"
  by (cases op) (auto intro!: stays_snd [of "db_step d0"] stays_intros)

text \<open>
  C16: a spend is recorded once and forever. Whatever the server asks of its database, in any order and whether the
  queries succeed, fail or panic, every row stays stored under the identifier of its VTXO, no VTXO is ever both
  spent by an arkoor and forfeited, a recorded spend or forfeit never changes, and no VTXO or round is lost.
\<close>

theorem recorded_spends_are_final:
  "let d = fold (db_run X) earlier db_empty; d' = fold (db_run X) later d
   in db_ok d \<and> db_ok d' \<and> db_later d d'"
proof -
  have run: "db_step d0 (fold (db_run X) ops d)" if "db_step d0 d" for ops d0 d
    using that by (induction ops arbitrary: d) (simp_all add: db_run_step)
  have "db_step db_empty db_empty" by (simp add: db_step_def db_ok_def db_empty_def)
  from run [OF this, of earlier] have "db_ok (fold (db_run X) earlier db_empty)" by (simp add: db_step_def)
  moreover from run [OF db_step_self [OF this]] have "db_step (fold (db_run X) earlier db_empty)
      (fold (db_run X) later (fold (db_run X) earlier db_empty))" .
  ultimately show ?thesis by (simp add: Let_def db_step_def)
qed

section \<open>What a query that succeeded has recorded\<close>

definition oor_spent_by :: "database \<Rightarrow> VtxoId \<Rightarrow> Txid \<Rightarrow> bool" where
  "oor_spent_by d i txid \<longleftrightarrow> (\<exists>r. db_vtxo d i = Some r \<and> vs_oor_spent_txid r = Some txid)"

definition forfeited_with :: "database \<Rightarrow> VtxoId \<Rightarrow> ForfeitState \<Rightarrow> bool" where
  "forfeited_with d i fs \<longleftrightarrow> (\<exists>r. db_vtxo d i = Some r \<and> vs_forfeit_state r = Some fs)"

definition spendable_in :: "database \<Rightarrow> VtxoId \<Rightarrow> bool" where
  "spendable_in d i \<longleftrightarrow> (\<exists>r. db_vtxo d i = Some r \<and> is_spendable r)"

lemma db_later_keeps:
  assumes "db_later d d'"
  shows "oor_spent_by d i txid \<Longrightarrow> oor_spent_by d' i txid"
    and "forfeited_with d i fs \<Longrightarrow> forfeited_with d' i fs"
  using assms by (fastforce simp: db_later_def oor_spent_by_def forfeited_with_def is_spendable_def)+

lemma db_ok_exclusive: "db_ok d \<Longrightarrow> oor_spent_by d i txid \<Longrightarrow> \<not> forfeited_with d i fs"
  unfolding db_ok_def oor_spent_by_def forfeited_with_def by fastforce

lemma spendable_not_spent:
  "spendable_in d i \<Longrightarrow> \<not> oor_spent_by d i txid" "spendable_in d i \<Longrightarrow> \<not> forfeited_with d i fs"
  by (auto simp: spendable_in_def is_spendable_def oor_spent_by_def forfeited_with_def)

lemma query_later:
  assumes "db_ok d" "\<And>d0. stays (db_step d0) q" "wp q Q E d"
  shows "wp q (\<lambda>x d'. Q x d' \<and> db_step d d') (\<lambda>e d'. E e d' \<and> db_step d d') d"
  using wp_stays [OF assms(3) assms(2) db_step_self [OF assms(1)]] .

text \<open>One more row marked: the rest of the list is marked in the database after it.\<close>

lemma mark_package_spent_run:
  assumes "db_ok d"
  shows "wp (mark_package_spent spends) (\<lambda>_ d'. \<forall>(i, txid) \<in> set spends. oor_spent_by d' i txid) (\<lambda>_ _. True) d"
  using assms
proof (induction spends arbitrary: d rule: mark_package_spent.induct)
  case (2 i txid rest)
  have step: "wp (mark_package_spent rest)
      (\<lambda>_ d'. \<forall>(j, t) \<in> set ((i, txid) # rest). oor_spent_by d' j t) (\<lambda>_ _. True) d'"
    if "db_ok d'" "oor_spent_by d' i txid" for d'
    by (rule wp_mono [OF query_later [OF that(1) stays_mark_package_spent 2(1) [OF that(1)]]])
       (use db_later_keeps(1) that(2) in \<open>auto simp: db_step_def\<close>)
  show ?case
  proof (cases "db_vtxo d i")
    case (Some r)
    have "db_step d (d\<lparr>db_vtxo := (db_vtxo d)(i \<mapsto> r\<lparr>vs_oor_spent_txid := Some txid\<rparr>)\<rparr>)" if "is_spendable r"
      using db_step_update [OF db_step_self [OF 2(2)] Some that, of "\<lambda>r. r\<lparr>vs_oor_spent_txid := Some txid\<rparr>"] that
      by (simp add: is_spendable_def)
    then show ?thesis
      using step [of d] step [of "d\<lparr>db_vtxo := (db_vtxo d)(i \<mapsto> r\<lparr>vs_oor_spent_txid := Some txid\<rparr>)\<rparr>"] 2(2) Some
      by (auto simp: wp_simps db_step_def oor_spent_by_def split: option.splits)
  qed (simp add: wp_simps)
qed (simp add: wp_simps)

lemma mark_forfeited_run:
  assumes "db_ok d"
  shows "wp (mark_forfeited fs)
    (\<lambda>_ d'. \<forall>(i, f) \<in> set fs. spendable_in d i \<and> forfeited_with d' i f) (\<lambda>_ _. True) d"
  using assms
proof (induction fs arbitrary: d rule: mark_forfeited.induct)
  case (2 i f rest)
  show ?case
  proof (cases "db_vtxo d i")
    case (Some r)
    let ?d = "d\<lparr>db_vtxo := (db_vtxo d)(i \<mapsto> r\<lparr>vs_forfeit_state := Some f\<rparr>)\<rparr>"
    have "wp (mark_forfeited rest)
        (\<lambda>_ d'. \<forall>(j, g) \<in> set ((i, f) # rest). spendable_in d j \<and> forfeited_with d' j g) (\<lambda>_ _. True) ?d"
      if sp: "is_spendable r"
    proof -
      have ok: "db_step d ?d"
        using db_step_update [OF db_step_self [OF 2(2)] Some sp, of "\<lambda>r. r\<lparr>vs_forfeit_state := Some f\<rparr>"] sp
        by (simp add: is_spendable_def)
      have later: "spendable_in d j" if "spendable_in ?d j" for j
        using that sp Some by (auto simp: spendable_in_def is_spendable_def split: if_splits)
      have mine: "spendable_in d i" "forfeited_with ?d i f"
        using sp Some by (auto simp: spendable_in_def forfeited_with_def)
      show ?thesis
        by (rule wp_mono [OF query_later [OF _ stays_mark_forfeited 2(1) [of 1 ?d]]])
           (use ok later mine db_later_keeps(2) [of ?d] in \<open>auto simp: db_step_def\<close>)
    qed
    then show ?thesis using Some by (simp add: wp_simps)
  qed (simp add: wp_simps)
qed (simp add: wp_simps)

lemma mark_oor_spent_run:
  assumes "db_ok d"
  shows "wp (mark_oor_spent spends)
    (\<lambda>o' d'. case o' of
       None \<Rightarrow> (\<forall>(i, txid) \<in> set spends. spendable_in d i \<and> oor_spent_by d' i txid)
     | Some i \<Rightarrow> i \<in> fst ` set spends \<and> (distinct (map fst spends) \<longrightarrow> \<not> spendable_in d i)) (\<lambda>_ _. False) d"
  using assms
proof (induction spends arbitrary: d rule: mark_oor_spent.induct)
  case (2 i txid rest)
  show ?case
  proof (cases "db_vtxo d i")
    case (Some r)
    let ?d = "d\<lparr>db_vtxo := (db_vtxo d)(i \<mapsto> r\<lparr>vs_oor_spent_txid := Some txid\<rparr>)\<rparr>"
    have "wp (mark_oor_spent rest) (\<lambda>o' d'. case o' of
         None \<Rightarrow> (\<forall>(j, t) \<in> set ((i, txid) # rest). spendable_in d j \<and> oor_spent_by d' j t)
       | Some j \<Rightarrow> j \<in> fst ` set ((i, txid) # rest) \<and>
           (distinct (map fst ((i, txid) # rest)) \<longrightarrow> \<not> spendable_in d j)) (\<lambda>_ _. False) ?d"
      if sp: "is_spendable r"
    proof -
      have ok: "db_step d ?d"
        using db_step_update [OF db_step_self [OF 2(2)] Some sp, of "\<lambda>r. r\<lparr>vs_oor_spent_txid := Some txid\<rparr>"] sp
        by (simp add: is_spendable_def)
      have later: "spendable_in ?d j \<longleftrightarrow> spendable_in d j \<and> j \<noteq> i" for j
        using sp Some by (auto simp: spendable_in_def is_spendable_def split: if_splits)
      have mine: "spendable_in d i" "oor_spent_by ?d i txid"
        using sp Some by (auto simp: spendable_in_def oor_spent_by_def)
      have rest: "wp (mark_oor_spent rest) (\<lambda>o' d'. (case o' of
           None \<Rightarrow> (\<forall>(j, t) \<in> set rest. spendable_in ?d j \<and> oor_spent_by d' j t)
         | Some j \<Rightarrow> j \<in> fst ` set rest \<and> (distinct (map fst rest) \<longrightarrow> \<not> spendable_in ?d j)) \<and> db_step ?d d')
         (\<lambda>e d'. False \<and> db_step ?d d') ?d"
        by (rule query_later [OF _ stays_mark_oor_spent 2(1) [of 1]]) (use ok in \<open>simp_all add: db_step_def\<close>)
      show ?thesis
      proof (rule wp_mono [OF rest], goal_cases)
        case (1 o' d')
        then have "oor_spent_by d' i txid" using mine(2) db_later_keeps(1) by (auto simp: db_step_def)
        with 1 show ?case using later mine(1) by (cases o') auto
      qed simp
    qed
    then show ?thesis using Some by (auto simp: wp_simps spendable_in_def)
  qed (simp add: wp_simps spendable_in_def)
qed (simp add: wp_simps)

lemma upsert_vtxos_run:
  "wp (upsert_vtxos vs) (\<lambda>_ d'. \<forall>v \<in> set vs. db_vtxo d' (vtxo_id v) \<noteq> None) (\<lambda>_ _. False) d"
proof (induction vs arbitrary: d)
  case (Cons v vs)
  have "wp (upsert_vtxos vs) (\<lambda>_ d'. db_vtxo d' i \<noteq> None) (\<lambda>_ d'. db_vtxo d' i \<noteq> None) d" if "db_vtxo d i \<noteq> None" for d i
    using that by (induction vs arbitrary: d) (auto simp: wp_simps)
  from wp_conj [OF Cons this]
  have "wp (upsert_vtxos vs) (\<lambda>_ d'. \<forall>w \<in> set (v # vs). db_vtxo d' (vtxo_id w) \<noteq> None) (\<lambda>_ _. False) d"
    if "db_vtxo d (vtxo_id v) \<noteq> None" for d
    by (rule wp_mono) (use that in auto)
  then show ?case by (simp add: wp_simps)
qed (simp add: wp_simps)

end
