(* ===== verification/Ark_Flux.thy ===== *)
theory Ark_Flux
  imports Ark_Vtxo
begin

text \<open>
  VTXOs in flux (\<open>server/src/flux.rs\<close>): the server's table of VTXOs that some operation is working on. The
  table is the content of the mutex; a lock is the set of VTXOs it will release when it is dropped. The
  contract of the table is the locale \<open>flux_table\<close>, which the operations of the server use.
\<close>

section \<open>The table\<close>

record VtxosInFlux =
  fx_vtxos :: "VtxoId set"

definition flux_new :: VtxosInFlux where
  "flux_new = \<lparr>fx_vtxos = {}\<rparr>"

record VtxoFluxLock =
  lk_vtxos :: "VtxoId set"

definition empty_lock :: VtxoFluxLock where
  "empty_lock = \<lparr>lk_vtxos = {}\<rparr>"

definition add_locked :: "VtxoId list \<Rightarrow> VtxoFluxLock \<Rightarrow> VtxoFluxLock" where
  "add_locked vtxos lock = lock\<lparr>lk_vtxos := lk_vtxos lock \<union> set vtxos\<rparr>"

text \<open>\<open>release\<close>, one identifier after the other.\<close>

fun flux_release :: "VtxoId list \<Rightarrow> VtxosInFlux \<Rightarrow> VtxosInFlux" where
  "flux_release [] s = s"
| "flux_release (i # is) s = flux_release is (s\<lparr>fx_vtxos := fx_vtxos s - {i}\<rparr>)"

text \<open>
  \<open>atomic_check_put\<close>: the identifiers that were inserted are kept in a buffer, which is taken out again when
  one of them is in flux already.
\<close>

fun check_put :: "VtxoId list \<Rightarrow> VtxoId list \<Rightarrow> VtxosInFlux \<Rightarrow> (VtxoId + unit) \<times> VtxosInFlux" where
  "check_put buf [] s = (Inr (), s)"
| "check_put buf (i # is) s =
     (if i \<in> fx_vtxos s then (Inl i, flux_release buf s)
      else check_put (buf @ [i]) is (s\<lparr>fx_vtxos := insert i (fx_vtxos s)\<rparr>))"

definition atomic_check_put :: "VtxoId list \<Rightarrow> VtxosInFlux \<Rightarrow> (VtxoId + unit) \<times> VtxosInFlux" where
  "atomic_check_put ids s = check_put [] ids s"

definition flux_lock :: "VtxoId list \<Rightarrow> VtxosInFlux \<Rightarrow> (VtxoId + VtxoFluxLock) \<times> VtxosInFlux" where
  "flux_lock ids s =
     (case atomic_check_put ids s of
        (Inl i, s') \<Rightarrow> (Inl i, s')
      | (Inr _, s') \<Rightarrow> (Inr (add_locked ids empty_lock), s'))"

text \<open>
  \<open>release_all\<close> drains the lock; dropping a lock releases what it still holds. The order of the drain does
  not matter, so the set is taken out at once.
\<close>

definition release_all :: "VtxoFluxLock \<Rightarrow> VtxosInFlux \<Rightarrow> VtxoFluxLock \<times> VtxosInFlux" where
  "release_all lock s =
     (if lk_vtxos lock = {} then (lock, s)
      else (lock\<lparr>lk_vtxos := {}\<rparr>, s\<lparr>fx_vtxos := fx_vtxos s - lk_vtxos lock\<rparr>))"

definition drop_lock :: "VtxoFluxLock \<Rightarrow> VtxosInFlux \<Rightarrow> VtxosInFlux" where
  "drop_lock lock s = snd (release_all lock s)"

text \<open>\<open>absorb\<close> drains the other lock, whose drop then releases nothing; \<open>into_owned\<close> is the case of an empty lock.\<close>

definition absorb :: "VtxoFluxLock \<Rightarrow> VtxoFluxLock \<Rightarrow> VtxosInFlux \<Rightarrow> VtxoFluxLock \<times> VtxosInFlux" where
  "absorb lock other s =
     (lock\<lparr>lk_vtxos := lk_vtxos lock \<union> lk_vtxos other\<rparr>, drop_lock (other\<lparr>lk_vtxos := {}\<rparr>) s)"

definition into_owned :: "VtxoFluxLock \<Rightarrow> VtxosInFlux \<Rightarrow> VtxoFluxLock \<times> VtxosInFlux" where
  "into_owned lock s = (\<lparr>lk_vtxos = lk_vtxos lock\<rparr>, drop_lock (lock\<lparr>lk_vtxos := {}\<rparr>) s)"

section \<open>The contract\<close>

text \<open>
  A server with a number of live locks: what is in flux is what the locks hold, and no two of them hold the
  same VTXO.
\<close>

definition exclusive :: "('l \<Rightarrow> 'i set) \<Rightarrow> 'l list \<Rightarrow> 'i set \<Rightarrow> bool" where
  "exclusive holds ls flux \<longleftrightarrow>
     flux = (\<Union>l \<in> set ls. holds l) \<and> sorted_wrt (\<lambda>l l'. holds l \<inter> holds l' = {}) ls"

text \<open>
  What users of the table rely on: a lock is granted exactly for distinct identifiers none of which is in flux,
  it puts exactly these in flux, a refused lock changes nothing, and releasing a lock takes out what it holds.
\<close>

locale flux_table =
  fixes in_flux :: "'s \<Rightarrow> 'i set"
    and lock :: "'i list \<Rightarrow> 's \<Rightarrow> ('i + 'l) \<times> 's"
    and holds :: "'l \<Rightarrow> 'i set"
    and release :: "'l \<Rightarrow> 's \<Rightarrow> 's"
    and merge :: "'l \<Rightarrow> 'l \<Rightarrow> 's \<Rightarrow> 'l \<times> 's"
  assumes granted: "distinct ids \<Longrightarrow> in_flux s \<inter> set ids = {} \<Longrightarrow>
      \<exists>l s'. lock ids s = (Inr l, s') \<and> holds l = set ids \<and> in_flux s' = in_flux s \<union> set ids"
    and refused: "\<not> distinct ids \<or> in_flux s \<inter> set ids \<noteq> {} \<Longrightarrow> \<exists>i \<in> set ids. lock ids s = (Inl i, s)"
    and released: "in_flux (release l s) = in_flux s - holds l"
    and merged: "holds (fst (merge l l' s)) = holds l \<union> holds l' \<and> in_flux (snd (merge l l' s)) = in_flux s"
begin

lemma lock_cases:
  obtains (free) l s' where "lock ids s = (Inr l, s')" "distinct ids" "in_flux s \<inter> set ids = {}"
      "holds l = set ids" "in_flux s' = in_flux s \<union> set ids"
    | (busy) i where "lock ids s = (Inl i, s)" "i \<in> set ids" "\<not> distinct ids \<or> in_flux s \<inter> set ids \<noteq> {}"
  using granted [of ids s] refused [of ids s] by blast

lemma lock_exclusive:
  assumes "exclusive holds ls (in_flux s)" "lock ids s = (Inr l, s')"
  shows "exclusive holds (ls @ [l]) (in_flux s')" "holds l = set ids"
  by (cases rule: lock_cases [of ids s]; use assms in \<open>auto simp: exclusive_def sorted_wrt_append\<close>)+

lemma release_exclusive:
  assumes "exclusive holds (as @ l # bs) (in_flux s)"
  shows "exclusive holds (as @ bs) (in_flux (release l s))"
  using assms by (auto simp: exclusive_def sorted_wrt_append released)

lemma merge_exclusive:
  assumes "exclusive holds (as @ l # bs @ l' # cs) (in_flux s)" "merge l l' s = (m, s')"
  shows "exclusive holds (as @ m # bs @ cs) (in_flux s')"
  using assms merged [of l l' s] by (auto simp: exclusive_def sorted_wrt_append)

lemma merge_exclusive_later:
  assumes "exclusive holds (as @ l' # bs @ l # cs) (in_flux s)" "merge l l' s = (m, s')"
  shows "exclusive holds (as @ bs @ m # cs) (in_flux s')"
  using assms merged [of l l' s] by (auto simp: exclusive_def sorted_wrt_append)

text \<open>A critical section leaves the table as it found it.\<close>

lemma lock_release:
  assumes "lock ids s = (Inr l, s')"
  shows "in_flux (release l s') = in_flux s"
  by (cases rule: lock_cases [of ids s]; use assms released [of l s'] in auto)

end

section \<open>The table meets its contract\<close>

lemma flux_release_eq: "fx_vtxos (flux_release ids s) = fx_vtxos s - set ids"
  by (induction ids s rule: flux_release.induct) auto

lemma check_put_run:
  assumes "set buf \<subseteq> fx_vtxos s"
  shows "if distinct ids \<and> fx_vtxos s \<inter> set ids = {}
    then check_put buf ids s = (Inr (), s\<lparr>fx_vtxos := fx_vtxos s \<union> set ids\<rparr>)
    else \<exists>i \<in> set ids. check_put buf ids s = (Inl i, s\<lparr>fx_vtxos := fx_vtxos s - set buf\<rparr>)"
  using assms
proof (induction buf ids s rule: check_put.induct)
  case (2 buf i "is" s)
  show ?case
  proof (cases "i \<in> fx_vtxos s")
    case True
    have "flux_release buf s = s\<lparr>fx_vtxos := fx_vtxos s - set buf\<rparr>"
      by (rule VtxosInFlux.equality) (simp_all add: flux_release_eq)
    then show ?thesis using True by auto
  next
    case False
    let ?s = "s\<lparr>fx_vtxos := insert i (fx_vtxos s)\<rparr>"
    have IH: "if distinct is \<and> fx_vtxos ?s \<inter> set is = {}
      then check_put (buf @ [i]) is ?s = (Inr (), ?s\<lparr>fx_vtxos := fx_vtxos ?s \<union> set is\<rparr>)
      else \<exists>j \<in> set is. check_put (buf @ [i]) is ?s = (Inl j, ?s\<lparr>fx_vtxos := fx_vtxos ?s - set (buf @ [i])\<rparr>)"
      by (rule 2(1) [OF False]) (use 2(2) in auto)
    have "insert i (fx_vtxos s) - insert i (set buf) = fx_vtxos s - set buf" using False by auto
    then show ?thesis using IH False by (auto split: if_splits simp: insert_commute)
  qed
qed simp

lemma flux_lock_run:
  "if distinct ids \<and> fx_vtxos s \<inter> set ids = {}
   then flux_lock ids s = (Inr \<lparr>lk_vtxos = set ids\<rparr>, s\<lparr>fx_vtxos := fx_vtxos s \<union> set ids\<rparr>)
   else \<exists>i \<in> set ids. flux_lock ids s = (Inl i, s)"
  using check_put_run [of "[]" s ids]
  by (auto simp: flux_lock_def atomic_check_put_def add_locked_def empty_lock_def split: if_splits)

lemma drop_lock_eq: "drop_lock l s = s\<lparr>fx_vtxos := fx_vtxos s - lk_vtxos l\<rparr>"
  by (simp add: drop_lock_def release_all_def)

interpretation flux: flux_table fx_vtxos flux_lock lk_vtxos drop_lock absorb
proof
  fix ids and s :: VtxosInFlux
  show "\<exists>l s'. flux_lock ids s = (Inr l, s') \<and> lk_vtxos l = set ids \<and> fx_vtxos s' = fx_vtxos s \<union> set ids"
    if "distinct ids" "fx_vtxos s \<inter> set ids = {}"
    using flux_lock_run [of ids s] that by auto
  show "\<exists>i \<in> set ids. flux_lock ids s = (Inl i, s)" if "\<not> distinct ids \<or> fx_vtxos s \<inter> set ids \<noteq> {}"
    using flux_lock_run [of ids s] that by auto
qed (simp_all add: drop_lock_eq absorb_def)

section \<open>Histories\<close>

text \<open>
  What can happen to the locks of a server, in any order: an operation asks for a lock, a lock is dropped or
  releases what it holds and lives on, and a lock absorbs another one.
\<close>

datatype flux_op =
    OpLock "VtxoId list"
  | OpDrop nat
  | OpReleaseAll nat
  | OpAbsorb nat nat

definition remove_at :: "nat \<Rightarrow> 'a list \<Rightarrow> 'a list" where
  "remove_at i xs = take i xs @ drop (Suc i) xs"

fun flux_step :: "flux_op \<Rightarrow> VtxoFluxLock list \<times> VtxosInFlux \<Rightarrow> VtxoFluxLock list \<times> VtxosInFlux" where
  "flux_step (OpLock ids) (ls, s) =
     (case flux_lock ids s of (Inr l, s') \<Rightarrow> (ls @ [l], s') | (Inl _, s') \<Rightarrow> (ls, s'))"
| "flux_step (OpDrop i) (ls, s) =
     (if i < length ls then (remove_at i ls, drop_lock (ls ! i) s) else (ls, s))"
| "flux_step (OpReleaseAll i) (ls, s) =
     (if i < length ls then let (l, s') = release_all (ls ! i) s in (ls[i := l], s') else (ls, s))"
| "flux_step (OpAbsorb i j) (ls, s) =
     (if i < length ls \<and> j < length ls \<and> i \<noteq> j
      then let (l, s') = absorb (ls ! i) (ls ! j) s in (remove_at j (ls[i := l]), s') else (ls, s))"

lemma release_all_exclusive:
  assumes "exclusive lk_vtxos (as @ l # bs) (fx_vtxos s)" "release_all l s = (l', s')"
  shows "exclusive lk_vtxos (as @ l' # bs) (fx_vtxos s')"
proof (cases "lk_vtxos l = {}")
  case False
  have "exclusive lk_vtxos (as @ bs) (fx_vtxos (drop_lock l s))" by (rule flux.release_exclusive [OF assms(1)])
  moreover have "lk_vtxos l' = {}" "s' = drop_lock l s" using assms(2) False by (auto simp: release_all_def drop_lock_def)
  ultimately show ?thesis by (auto simp: exclusive_def sorted_wrt_append)
qed (use assms in \<open>simp add: release_all_def\<close>)

lemma split_two:
  assumes "i < j" "j < length xs"
  obtains as bs cs where "xs = as @ xs ! i # bs @ xs ! j # cs" "length as = i" "length (as @ xs ! i # bs) = j"
proof
  have "drop (Suc i) xs = take (j - Suc i) (drop (Suc i) xs) @ drop (j - Suc i) (drop (Suc i) xs)"
    by (simp only: append_take_drop_id)
  also have "drop (j - Suc i) (drop (Suc i) xs) = xs ! j # drop (Suc j) xs" using assms by (simp add: Cons_nth_drop_Suc)
  finally show "xs = take i xs @ xs ! i # take (j - Suc i) (drop (Suc i) xs) @ xs ! j # drop (Suc j) xs"
    using assms id_take_nth_drop [of i xs] by simp
qed (use assms in auto)

lemma flux_step_exclusive:
  assumes "exclusive lk_vtxos ls (fx_vtxos s)" "flux_step op (ls, s) = (ls', s')"
  shows "exclusive lk_vtxos ls' (fx_vtxos s')"
proof (cases op)
  case (OpLock ids)
  show ?thesis
  proof (cases rule: flux.lock_cases [of ids s])
    case (free l s'')
    with flux.lock_exclusive(1) [OF assms(1) free(1)] assms(2) OpLock show ?thesis by simp
  qed (use assms OpLock in auto)
next
  case (OpDrop i)
  show ?thesis
  proof (cases "i < length ls")
    case True
    then have "exclusive lk_vtxos (take i ls @ ls ! i # drop (Suc i) ls) (fx_vtxos s)"
      using assms(1) id_take_nth_drop [OF True] by simp
    from flux.release_exclusive [OF this] show ?thesis using assms(2) OpDrop True by (simp add: remove_at_def)
  qed (use assms OpDrop in simp)
next
  case (OpReleaseAll i)
  show ?thesis
  proof (cases "i < length ls")
    case True
    then have "exclusive lk_vtxos (take i ls @ ls ! i # drop (Suc i) ls) (fx_vtxos s)"
      using assms(1) id_take_nth_drop [OF True] by simp
    from release_all_exclusive [OF this] show ?thesis
      using assms(2) OpReleaseAll True by (auto simp: upd_conv_take_nth_drop split: prod.splits)
  qed (use assms OpReleaseAll in simp)
next
  case (OpAbsorb i j)
  consider "i < j" "j < length ls" | "j < i" "i < length ls" | "\<not> (i < length ls \<and> j < length ls \<and> i \<noteq> j)"
    by linarith
  then show ?thesis
  proof cases
    case 1
    obtain as bs cs where ls: "ls = as @ ls ! i # bs @ ls ! j # cs" "length as = i" "length (as @ ls ! i # bs) = j"
      using split_two [OF 1] by metis
    obtain l where l: "absorb (ls ! i) (ls ! j) s = (l, s')" "ls' = remove_at j (ls[i := l])"
      using assms(2) OpAbsorb 1 by (auto split: prod.splits)
    have "ls[i := l] = as @ l # bs @ ls ! j # cs" by (subst ls(1)) (simp add: list_update_append ls(2))
    then have "ls' = as @ l # bs @ cs" using l(2) ls(2,3) by (auto simp: remove_at_def)
    then show ?thesis using flux.merge_exclusive [OF _ l(1), of as bs cs] assms(1) ls(1) by simp
  next
    case 2
    obtain as bs cs where ls: "ls = as @ ls ! j # bs @ ls ! i # cs" "length as = j" "length (as @ ls ! j # bs) = i"
      using split_two [OF 2] by metis
    obtain l where l: "absorb (ls ! i) (ls ! j) s = (l, s')" "ls' = remove_at j (ls[i := l])"
      using assms(2) OpAbsorb 2 by (auto split: prod.splits)
    have "ls[i := l] = as @ ls ! j # bs @ l # cs"
      by (subst ls(1)) (use ls(2,3) in \<open>auto simp: list_update_append\<close>)
    then have "ls' = as @ bs @ l # cs" using l(2) ls(2) by (simp add: remove_at_def)
    then show ?thesis using flux.merge_exclusive_later [OF _ l(1), of as bs cs] assms(1) ls(1) by simp
  qed (use assms OpAbsorb in auto)
qed

text \<open>
  C17: mutual exclusion of VTXOs in flux. After any history of locks, drops, releases and absorptions the VTXOs
  in flux are exactly those that the live locks hold, and no VTXO is held by two locks.
\<close>

theorem flux_mutual_exclusion:
  "exclusive lk_vtxos (fst (fold flux_step ops ([], flux_new))) (fx_vtxos (snd (fold flux_step ops ([], flux_new))))"
proof -
  have "exclusive lk_vtxos (fst (fold flux_step ops c)) (fx_vtxos (snd (fold flux_step ops c)))"
    if "exclusive lk_vtxos (fst c) (fx_vtxos (snd c))" for c
    using that
  proof (induction ops arbitrary: c)
    case (Cons op ops)
    obtain ls s where c: "c = (ls, s)" by fastforce
    obtain ls' s' where step: "flux_step op c = (ls', s')" by fastforce
    then have "exclusive lk_vtxos ls' (fx_vtxos s')" using flux_step_exclusive [of ls s] Cons.prems c by simp
    then show ?case using Cons.IH [of "(ls', s')"] step by simp
  qed simp
  from this [of "([], flux_new)"] show ?thesis by (simp add: exclusive_def flux_new_def)
qed

end
