(* ===== verification/Ark_Challenges.thy ===== *)
theory Ark_Challenges
  imports Ark_Signed_Tree
begin

text \<open>
  Ownership challenges (\<open>lib/src/challenges.rs\<close>) and offboard requests (\<open>lib/src/lib.rs\<close>). A challenge is signed
  with the key of a VTXO's user; the signed message is the hash of a prefix that names the kind of challenge and
  of the data that the proof is for.
\<close>

section \<open>Offboard requests\<close>

record OffboardRequest =
  of_script_pubkey :: ScriptBuf
  of_amount :: Amount

datatype InvalidOffboardRequestError = InvalidOffboardRequestError string

text \<open>\<open>VarInt(n).size()\<close>.\<close>

definition varint_size :: "nat \<Rightarrow> nat" where
  "varint_size n = (if n \<le> 0xFC then 1 else if n \<le> 0xFFFF then 3 else if n \<le> 0xFFFFFFFF then 5 else 9)"

text \<open>\<open>fee_mul\<close> is the product of a fee rate and a weight, of the crate \<open>bitcoin\<close>; four weight units are a virtual byte.\<close>

definition calculate_fee ::
  "externals \<Rightarrow> ('r \<Rightarrow> nat \<Rightarrow> Amount) \<Rightarrow> ScriptBuf \<Rightarrow> 'r \<Rightarrow> (InvalidOffboardRequestError, Amount) outcome" where
  "calculate_fee X fee_mul script_pubkey fee_rate =
     and_then
       (if ext_is_p2pkh X script_pubkey then Ok 182
        else if ext_is_p2sh X script_pubkey then Ok 180
        else if ext_is_p2wpkh X script_pubkey then Ok 90
        else if ext_is_p2wsh X script_pubkey then Ok 110
        else if ext_is_p2tr X script_pubkey then Ok 110
        else if ext_is_op_return X script_pubkey then
          (if 83 < length script_pubkey then err (InvalidOffboardRequestError ''OP_RETURN over 83 bytes'')
           else Ok (varint_size (length script_pubkey) + length script_pubkey + 8 + 36 + 4 + 1 + 1))
        else err (InvalidOffboardRequestError ''non-standard scriptPubkey''))
       (\<lambda>vb. Ok (fee_mul fee_rate (4 * vb)))"

definition offboard_fee ::
  "externals \<Rightarrow> ('r \<Rightarrow> nat \<Rightarrow> Amount) \<Rightarrow> OffboardRequest \<Rightarrow> 'r \<Rightarrow> (InvalidOffboardRequestError, Amount) outcome" where
  "offboard_fee X fee_mul req fee_rate = calculate_fee X fee_mul (of_script_pubkey req) fee_rate"

definition to_txout :: "OffboardRequest \<Rightarrow> TxOut" where
  "to_txout req = \<lparr>txo_value = of_amount req, txo_script = of_script_pubkey req\<rparr>"

definition offboard_validate :: "externals \<Rightarrow> OffboardRequest \<Rightarrow> (InvalidOffboardRequestError, unit) outcome" where
  "offboard_validate X req =
     (if is_standard X (to_txout req) then Ok () else err (InvalidOffboardRequestError ''non-standard output''))"

section \<open>Challenges\<close>

definition ascii :: "string \<Rightarrow> bytes" where
  "ascii s = map of_char s"

text \<open>\<open>to_be_bytes\<close> of a 64-bit integer; \<open>usize\<close> has 64 bits.\<close>

definition be_bytes :: "nat \<Rightarrow> bytes" where
  "be_bytes n = rev (le_bytes 8 n)"

datatype RoundAttemptChallenge = RoundAttemptChallenge (rc_inner: bytes)

definition ROUND_CHALLENGE_PREFIX :: bytes where
  "ROUND_CHALLENGE_PREFIX = ascii ''Ark round input ownership proof ''"

definition challenge_request :: "SignedVtxoRequest \<Rightarrow> bytes" where
  "challenge_request req =
     be_bytes (vr_amount (sr_vtxo req)) @ enc_policy (vr_policy (sr_vtxo req)) @ enc_opt_pubkey (sr_cosign_pubkey req)"

text \<open>The bytes that are written to the hash engine.\<close>

definition round_challenge_bytes ::
  "externals \<Rightarrow> RoundAttemptChallenge \<Rightarrow> VtxoId \<Rightarrow> SignedVtxoRequest list \<Rightarrow> OffboardRequest list \<Rightarrow> bytes" where
  "round_challenge_bytes X c vid vtxo_reqs offboard_reqs =
     ROUND_CHALLENGE_PREFIX @ rc_inner c @ vid
     @ be_bytes (length vtxo_reqs) @ concat (map challenge_request vtxo_reqs)
     @ be_bytes (length offboard_reqs) @ concat (map (\<lambda>r. ext_enc_txout X (to_txout r)) offboard_reqs)"

definition round_challenge_message ::
  "externals \<Rightarrow> RoundAttemptChallenge \<Rightarrow> VtxoId \<Rightarrow> SignedVtxoRequest list \<Rightarrow> OffboardRequest list \<Rightarrow> bytes" where
  "round_challenge_message X c vid vtxo_reqs offboard_reqs =
     ext_sha256 X (round_challenge_bytes X c vid vtxo_reqs offboard_reqs)"

definition round_challenge_sign_with ::
  "externals \<Rightarrow> nat \<Rightarrow> RoundAttemptChallenge \<Rightarrow> VtxoId \<Rightarrow> SignedVtxoRequest list \<Rightarrow> OffboardRequest list \<Rightarrow> Keypair \<Rightarrow> Signature" where
  "round_challenge_sign_with X rnd c vid vtxo_reqs offboard_reqs vtxo_keypair =
     ext_sign_schnorr X rnd vtxo_keypair (round_challenge_message X c vid vtxo_reqs offboard_reqs)"

definition round_challenge_verify ::
  "externals \<Rightarrow> RoundAttemptChallenge \<Rightarrow> Vtxo \<Rightarrow> SignedVtxoRequest list \<Rightarrow> OffboardRequest list \<Rightarrow> Signature \<Rightarrow> bool" where
  "round_challenge_verify X c vtxo vtxo_reqs offboard_reqs sig =
     ext_verify_schnorr X sig (round_challenge_message X c (vtxo_id vtxo) vtxo_reqs offboard_reqs)
       (ext_x_only X (vtxo_user_pubkey vtxo))"

datatype LightningReceiveChallenge = LightningReceiveChallenge (lc_payment_hash: Hash)

definition LIGHTNING_CHALLENGE_PREFIX :: bytes where
  "LIGHTNING_CHALLENGE_PREFIX = ascii ''Lightning receive VTXO challenge''"

definition lightning_challenge_bytes :: "LightningReceiveChallenge \<Rightarrow> VtxoId \<Rightarrow> bytes" where
  "lightning_challenge_bytes c vid = LIGHTNING_CHALLENGE_PREFIX @ lc_payment_hash c @ vid"

definition lightning_challenge_sign_with ::
  "externals \<Rightarrow> nat \<Rightarrow> LightningReceiveChallenge \<Rightarrow> VtxoId \<Rightarrow> Keypair \<Rightarrow> Signature" where
  "lightning_challenge_sign_with X rnd c vid vtxo_keypair =
     ext_sign_schnorr X rnd vtxo_keypair (ext_sha256 X (lightning_challenge_bytes c vid))"

definition lightning_challenge_verify :: "externals \<Rightarrow> LightningReceiveChallenge \<Rightarrow> Vtxo \<Rightarrow> Signature \<Rightarrow> bool" where
  "lightning_challenge_verify X c vtxo sig =
     ext_verify_schnorr X sig (ext_sha256 X (lightning_challenge_bytes c (vtxo_id vtxo)))
       (ext_x_only X (vtxo_user_pubkey vtxo))"

definition STATUS_CHALLENGE_PREFIX :: bytes where
  "STATUS_CHALLENGE_PREFIX = ascii ''Ark VTXO status query challenge ''"

definition status_challenge_bytes :: "VtxoId \<Rightarrow> bytes" where
  "status_challenge_bytes vid = STATUS_CHALLENGE_PREFIX @ vid"

definition status_challenge_sign_with :: "externals \<Rightarrow> nat \<Rightarrow> VtxoId \<Rightarrow> Keypair \<Rightarrow> Signature" where
  "status_challenge_sign_with X rnd vid vtxo_keypair =
     ext_sign_schnorr X rnd vtxo_keypair (ext_sha256 X (status_challenge_bytes vid))"

definition status_challenge_verify :: "externals \<Rightarrow> Vtxo \<Rightarrow> Signature \<Rightarrow> bool" where
  "status_challenge_verify X vtxo sig =
     ext_verify_schnorr X sig (ext_sha256 X (status_challenge_bytes (vtxo_id vtxo)))
       (ext_x_only X (vtxo_user_pubkey vtxo))"

section \<open>What a message covers\<close>

lemma length_prefixes:
  "length ROUND_CHALLENGE_PREFIX = 32" "length LIGHTNING_CHALLENGE_PREFIX = 32" "length STATUS_CHALLENGE_PREFIX = 32"
  by (simp_all add: ROUND_CHALLENGE_PREFIX_def LIGHTNING_CHALLENGE_PREFIX_def STATUS_CHALLENGE_PREFIX_def ascii_def)

lemma prefixes_differ:
  "ROUND_CHALLENGE_PREFIX \<noteq> LIGHTNING_CHALLENGE_PREFIX" "ROUND_CHALLENGE_PREFIX \<noteq> STATUS_CHALLENGE_PREFIX"
  "LIGHTNING_CHALLENGE_PREFIX \<noteq> STATUS_CHALLENGE_PREFIX"
  by (simp_all add: ROUND_CHALLENGE_PREFIX_def LIGHTNING_CHALLENGE_PREFIX_def STATUS_CHALLENGE_PREFIX_def ascii_def)

definition wf_request :: "externals \<Rightarrow> SignedVtxoRequest \<Rightarrow> bool" where
  "wf_request X req \<longleftrightarrow> vr_amount (sr_vtxo req) < u64_limit \<and> wf_policy (ext_pk_ok X) (vr_policy (sr_vtxo req)) \<and>
     wf_opt_pubkey (ext_pk_ok X) (sr_cosign_pubkey req)"

definition wf_round_challenge ::
  "externals \<Rightarrow> RoundAttemptChallenge \<Rightarrow> VtxoId \<Rightarrow> SignedVtxoRequest list \<Rightarrow> OffboardRequest list \<Rightarrow> bool" where
  "wf_round_challenge X c vid reqs offs \<longleftrightarrow>
     length (rc_inner c) = 32 \<and> length vid = 36 \<and> length reqs < u64_limit \<and> length offs < u64_limit \<and>
     list_all (wf_request X) reqs \<and> list_all (\<lambda>r. wf_txout (to_txout r)) offs"

lemma be_bytes_simps: "length (be_bytes n) = 8" "n < u64_limit \<Longrightarrow> le_val (rev (be_bytes n)) = n"
  by (simp_all add: be_bytes_def le_val_le_bytes u64_limit_def)

lemma be_bytes_inj: "m < u64_limit \<Longrightarrow> n < u64_limit \<Longrightarrow> be_bytes m = be_bytes n \<Longrightarrow> m = n"
  using be_bytes_simps(2) by metis

text \<open>A reader for the requests shows that their encoding is prefix-free.\<close>

definition read_request :: "(bytes \<Rightarrow> bool) \<Rightarrow> SignedVtxoRequest decoder" where
  "read_request pk_ok =
     dbind (read_exact 8) (\<lambda>amount.
     dbind (dec_policy pk_ok) (\<lambda>policy.
     dbind (dec_opt_pubkey pk_ok) (\<lambda>cosign_pubkey.
     dreturn \<lparr>sr_vtxo = \<lparr>vr_amount = le_val (rev amount), vr_policy = policy\<rparr>, sr_cosign_pubkey = cosign_pubkey\<rparr>)))"

interpretation c_request: codec "\<lambda>r. Some (challenge_request r)" "read_request (ext_pk_ok X)" "wf_request X" for X
proof
  fix req :: SignedVtxoRequest and b r
  assume wf: "wf_request X req" and b: "Some (challenge_request req) = Some b"
  have "dec_opt_pubkey (ext_pk_ok X) (enc_opt_pubkey (sr_cosign_pubkey req) @ r) = Inr (sr_cosign_pubkey req, r)"
    by (rule c_opt_pubkey.roundtrip) (use wf in \<open>simp_all add: wf_request_def\<close>)
  moreover have "read_exact 8 (be_bytes n @ c) = Inr (be_bytes n, c)" for n c
    by (rule read_exact_append) (simp add: be_bytes_simps)
  ultimately show "read_request (ext_pk_ok X) (b @ r) = Inr (req, r)"
    using wf b by (auto simp: challenge_request_def read_request_def wf_request_def dbind_def dreturn_def
        policy_roundtrip be_bytes_simps)
qed

lemma c_txouts: "consensus_laws X \<Longrightarrow> codec (\<lambda>r. Some (ext_enc_txout X (to_txout r)))
    (\<lambda>b. map_sum id (map_prod (\<lambda>t. \<lparr>of_script_pubkey = txo_script t, of_amount = txo_value t\<rparr>) id) (ext_dec_txout X b))
    (\<lambda>r. wf_txout (to_txout r))"
  by unfold_locales (auto simp: consensus_laws_def to_txout_def)

text \<open>
  C18: an ownership proof covers exactly one registration. The bytes that are hashed determine the challenge of the
  attempt, the VTXO, the requested VTXOs and the offboards, and they are never those of another kind of challenge; the
  proof that the VTXO's user makes is accepted.
\<close>

theorem ownership_proof_binds:
  assumes "consensus_laws X" "keyspend_laws X" "wf_round_challenge X c vid reqs offs"
  shows "(\<forall>c' vid' reqs' offs'. wf_round_challenge X c' vid' reqs' offs' \<longrightarrow>
       round_challenge_bytes X c vid reqs offs = round_challenge_bytes X c' vid' reqs' offs' \<longrightarrow>
       c = c' \<and> vid = vid' \<and> reqs = reqs' \<and> offs = offs') \<and>
     (\<forall>lc vid'. round_challenge_bytes X c vid reqs offs \<noteq> lightning_challenge_bytes lc vid' \<and>
       round_challenge_bytes X c vid reqs offs \<noteq> status_challenge_bytes vid') \<and>
     (\<forall>rnd key v. vtxo_id v = vid \<and> vtxo_user_pubkey v = ext_public_key X key \<longrightarrow>
       round_challenge_verify X c v reqs offs (round_challenge_sign_with X rnd c vid reqs offs key))"
proof (intro conjI allI impI)
  fix c' vid' reqs' offs'
  assume wf': "wf_round_challenge X c' vid' reqs' offs'"
    and eq: "round_challenge_bytes X c vid reqs offs = round_challenge_bytes X c' vid' reqs' offs'"
  note wf = assms(3) [unfolded wf_round_challenge_def] wf' [unfolded wf_round_challenge_def]
  note eq1 = eq [unfolded round_challenge_bytes_def]
  have c: "rc_inner c = rc_inner c'" "vid = vid'"
    and eq2: "be_bytes (length reqs) @ concat (map challenge_request reqs) @ be_bytes (length offs) @
        concat (map (\<lambda>r. ext_enc_txout X (to_txout r)) offs) =
      be_bytes (length reqs') @ concat (map challenge_request reqs') @ be_bytes (length offs') @
        concat (map (\<lambda>r. ext_enc_txout X (to_txout r)) offs')"
    using eq1 wf by auto
  show "c = c'" "vid = vid'" using c by (auto intro: RoundAttemptChallenge.expand)
  have "be_bytes (length reqs) = be_bytes (length reqs')" using eq2 by (simp add: be_bytes_simps)
  then have n: "length reqs = length reqs'" using be_bytes_inj wf by blast
  let ?read = "dec_times (length reqs) (read_request (ext_pk_ok X))"
  have read: "?read (concat (map challenge_request reqs) @ r) = Inr (reqs, r)"
    "?read (concat (map challenge_request reqs') @ r) = Inr (reqs', r)" for r
    using c_request.roundtrip_list [of X reqs] c_request.roundtrip_list [of X reqs'] wf n by simp_all
  have "concat (map challenge_request reqs) @ be_bytes (length offs) @ concat (map (\<lambda>r. ext_enc_txout X (to_txout r)) offs) =
      concat (map challenge_request reqs') @ be_bytes (length offs') @ concat (map (\<lambda>r. ext_enc_txout X (to_txout r)) offs')"
    using eq2 n by (simp add: be_bytes_simps)
  from arg_cong [OF this, of ?read] have reqs: "reqs = reqs'"
    and eq3: "be_bytes (length offs) @ concat (map (\<lambda>r. ext_enc_txout X (to_txout r)) offs) =
      be_bytes (length offs') @ concat (map (\<lambda>r. ext_enc_txout X (to_txout r)) offs')"
    by (simp_all only: read sum.inject prod.inject)
  show "reqs = reqs'" by (rule reqs)
  have "be_bytes (length offs) = be_bytes (length offs')" using eq3 by (simp add: be_bytes_simps)
  then have m: "length offs = length offs'" using be_bytes_inj wf by blast
  let ?outs = "\<lambda>rs. concat (map (\<lambda>r. ext_enc_txout X (to_txout r)) rs)"
  note out = codec.roundtrip_list [OF c_txouts [OF assms(1)], unfolded enc_all_total, where r = "[]", OF _ refl]
  have "?outs offs @ [] = ?outs offs' @ []" using eq3 m by simp
  then show "offs = offs'" using out [of offs] out [of offs'] wf m by (metis (no_types, lifting) Inr_inject Pair_inject)
next
  fix lc vid'
  show "round_challenge_bytes X c vid reqs offs \<noteq> lightning_challenge_bytes lc vid'"
    "round_challenge_bytes X c vid reqs offs \<noteq> status_challenge_bytes vid'"
    using prefixes_differ length_prefixes
    by (auto simp: round_challenge_bytes_def lightning_challenge_bytes_def status_challenge_bytes_def)
next
  fix rnd key v
  assume "vtxo_id v = vid \<and> vtxo_user_pubkey v = ext_public_key X key"
  then show "round_challenge_verify X c v reqs offs (round_challenge_sign_with X rnd c vid reqs offs key)"
    using keyspend_lawsD(1) [OF assms(2)] by (simp add: round_challenge_verify_def round_challenge_sign_with_def)
qed

theorem ownership_proof_binds_witness:
  "round_challenge_bytes demo_ext (RoundAttemptChallenge (replicate 32 1)) (vtxo_id demo_vtxo) [] [] \<noteq>
     status_challenge_bytes (vtxo_id demo_vtxo)"
proof -
  have "wf_round_challenge demo_ext (RoundAttemptChallenge (replicate 32 1)) (vtxo_id demo_vtxo) [] []"
    by (simp add: wf_round_challenge_def u64_limit_def vtxo_id_def vtxo_id_of_point_def demo_vtxo_def)
  from ownership_proof_binds [OF demo_ext_laws(3,6) this] show ?thesis by blast
qed

end
