(* ===== verification/Ark_Server.thy ===== *)
theory Ark_Server
  imports Ark_Server_Db Ark_Flux Ark_Challenges Ark_Exit_Manager
begin

text \<open>
  The state that the handlers of the server share (\<open>server/src/lib.rs\<close>): the table of VTXOs in flux, the database
  and the events that were broadcast to the users. The outside world is a parameter: what the chain, the wallet, the
  random generator and the database connection answer may differ at every call, so their answers depend on the number
  of calls made before.
\<close>

section \<open>Messages to the users\<close>

record RoundAttempt =
  ra_round_seq :: nat
  ra_attempt_seq :: nat
  ra_challenge :: RoundAttemptChallenge

record VtxoProposal =
  vp_round_seq :: nat
  vp_attempt_seq :: nat
  vp_unsigned_round_tx :: Transaction
  vp_vtxos_spec :: VtxoTreeSpec
  vp_cosign_agg_nonces :: "AggregatedNonce list"

record RoundProposal =
  rp_round_seq :: nat
  rp_attempt_seq :: nat
  rp_cosign_sigs :: "Signature list"
  rp_forfeit_nonces :: "(VtxoId \<times> PublicNonce list) list"
  rp_connector_pubkey :: PublicKey

record RoundFinished =
  rf_round_seq :: nat
  rf_attempt_seq :: nat
  rf_signed_round_tx :: Transaction

datatype RoundEvent =
    EvAttempt RoundAttempt
  | EvVtxoProposal VtxoProposal
  | EvRoundProposal RoundProposal
  | EvFinished RoundFinished

definition ROUND_TX_VTXO_TREE_VOUT :: u32 where
  "ROUND_TX_VTXO_TREE_VOUT = 0"

definition ROUND_TX_CONNECTOR_VOUT :: u32 where
  "ROUND_TX_CONNECTOR_VOUT = 1"

section \<open>The state and the world\<close>

record server =
  sv_flux :: VtxosInFlux
  sv_db :: database
  sv_events :: "RoundEvent list"
  sv_calls :: nat

text \<open>
  The fields of \<open>config.rs\<close> that the handlers read, the server's key, and the world. \<open>we_build_round_tx\<close> is
  BDK's transaction builder on the rounds wallet with its arguments: the height from which on unconfirmed inputs are
  not trusted, the manually selected input, the recipients in order and the fee rate.
\<close>

record config =
  cf_nb_round_nonces :: nat
  cf_vtxo_lifetime :: BlockDelta
  cf_vtxo_exit_delta :: BlockDelta
  cf_max_vtxo_amount :: "Amount option"
  cf_round_tx_feerate :: FeeRate
  cf_untrusted_input_confirmations :: nat
  cf_max_arkoor_depth :: nat
  cf_required_board_confirmations :: nat
  cf_min_board_amount :: Amount

record world =
  we_tip :: "nat \<Rightarrow> BlockHeight"
  we_keypair :: "nat \<Rightarrow> Keypair"
  we_challenge :: "nat \<Rightarrow> bytes"
  we_tx_status :: "nat \<Rightarrow> Txid \<Rightarrow> string + TxStatus"
  we_db_error :: "nat \<Rightarrow> string option"
  we_build_round_tx :: "nat \<Rightarrow> BlockHeight option \<Rightarrow> OutPoint option \<Rightarrow> TxOut list \<Rightarrow> FeeRate \<Rightarrow> string + Transaction"
  we_finish_tx :: "nat \<Rightarrow> Transaction \<Rightarrow> string + Transaction"
  we_broadcast_tx :: "nat \<Rightarrow> Transaction \<Rightarrow> string + Transaction"
  we_fee_mul :: "FeeRate \<Rightarrow> nat \<Rightarrow> Amount"

record server_env =
  en_config :: config
  en_server_key :: Keypair
  en_world :: world

type_synonym 'a handler = "(server, string, 'a) action"

text \<open>A question to the world, and randomness drawn from it.\<close>

definition ask :: "(nat \<Rightarrow> 'a) \<Rightarrow> (server, 'e, 'a) action" where
  "ask f = (\<lambda>s. (Ok (f (sv_calls s)), s\<lparr>sv_calls := Suc (sv_calls s)\<rparr>))"

definition from_result :: "string + 'a \<Rightarrow> (string, 'a) outcome" where
  "from_result r = (case r of Inl e \<Rightarrow> err e | Inr x \<Rightarrow> Ok x)"

text \<open>\<open>self.db.<query>()\<close>: a connection from the pool first.\<close>

definition with_db :: "'a query \<Rightarrow> 'a handler" where
  "with_db q = (\<lambda>s. let (r, d) = q (sv_db s) in (r, s\<lparr>sv_db := d\<rparr>))"

definition on_db :: "server_env \<Rightarrow> 'a query \<Rightarrow> 'a handler" where
  "on_db env q =
     abind (ask (we_db_error (en_world env))) (\<lambda>e.
     case e of
       Some e \<Rightarrow> athrow e
     | None \<Rightarrow> with_db q)"

definition broadcast_event :: "RoundEvent \<Rightarrow> (server, 'e, unit) action" where
  "broadcast_event ev = amodify (\<lambda>s. s\<lparr>sv_events := sv_events s @ [ev]\<rparr>)"

definition take_lock :: "VtxoId list \<Rightarrow> (server, 'e, VtxoId + VtxoFluxLock) action" where
  "take_lock ids = (\<lambda>s. let (r, f) = flux_lock ids (sv_flux s) in (Ok r, s\<lparr>sv_flux := f\<rparr>))"

definition free_lock :: "VtxoFluxLock \<Rightarrow> (server, 'e, unit) action" where
  "free_lock lock = amodify (\<lambda>s. s\<lparr>sv_flux := drop_lock lock (sv_flux s)\<rparr>)"

text \<open>A lock that is held for a computation and dropped at its end, whether it returned, failed or panicked.\<close>

definition holding :: "VtxoFluxLock \<Rightarrow> (server, 'e, 'a) action \<Rightarrow> (server, 'e, 'a) action" where
  "holding lock m = (\<lambda>s. let (r, t) = m s in (r, t\<lparr>sv_flux := drop_lock lock (sv_flux t)\<rparr>))"

text \<open>\<open>nonce_pair\<close> of \<open>lib/src/musig.rs\<close>, with fresh randomness, and a number of them.\<close>

definition nonce_pair :: "externals \<Rightarrow> Keypair \<Rightarrow> (server, 'e, SecretNonce \<times> PublicNonce) action" where
  "nonce_pair X key = ask (\<lambda>rnd. ext_nonce_pair X rnd None key None)"

primrec nonce_pairs :: "nat \<Rightarrow> externals \<Rightarrow> Keypair \<Rightarrow> (server, 'e, SecretNonce list \<times> PublicNonce list) action" where
  "nonce_pairs 0 X key = areturn ([], [])"
| "nonce_pairs (Suc n) X key =
     abind (nonce_pair X key) (\<lambda>(s, p).
     abind (nonce_pairs n X key) (\<lambda>(secs, pubs). areturn (s # secs, p # pubs)))"

text \<open>\<open>check_vtxos_not_exited\<close>: the transaction of the identifier's outpoint must be unknown to the node.\<close>

fun check_vtxos_not_exited :: "server_env \<Rightarrow> VtxoId list \<Rightarrow> unit handler" where
  "check_vtxos_not_exited env [] = areturn ()"
| "check_vtxos_not_exited env (i # is) =
     abind (ask (\<lambda>t. we_tx_status (en_world env) t (take 32 i))) (\<lambda>r.
     abind (alift (from_result r)) (\<lambda>status.
     case status of
       TxConfirmed _ \<Rightarrow> athrow ''cannot spend vtxo that is already exited''
     | TxMempool \<Rightarrow> athrow ''cannot spend vtxo that is being exited''
     | TxNotFound \<Rightarrow> check_vtxos_not_exited env is))"

section \<open>Lemmas\<close>

lemma wp_ask [wp_simps]: "wp (ask f) Q E s = Q (f (sv_calls s)) (s\<lparr>sv_calls := Suc (sv_calls s)\<rparr>)"
  by (simp add: wp_def ask_def)

lemma wp_with_db [wp_simps]:
  "wp (with_db q) Q E s = wp q (\<lambda>x d. Q x (s\<lparr>sv_db := d\<rparr>)) (\<lambda>e d. E e (s\<lparr>sv_db := d\<rparr>)) (sv_db s)"
  by (auto simp: wp_def with_db_def split: prod.splits sum.splits)

lemma wp_on_db [wp_simps]:
  "wp (on_db env q) Q E s =
     (let s' = s\<lparr>sv_calls := Suc (sv_calls s)\<rparr> in
      case we_db_error (en_world env) (sv_calls s) of
        Some e \<Rightarrow> E (Err e) s'
      | None \<Rightarrow> wp q (\<lambda>x d. Q x (s'\<lparr>sv_db := d\<rparr>)) (\<lambda>e d. E e (s'\<lparr>sv_db := d\<rparr>)) (sv_db s))"
  by (simp add: on_db_def wp_simps Let_def split: option.splits)

lemma wp_broadcast_event [wp_simps]: "wp (broadcast_event ev) Q E s = Q () (s\<lparr>sv_events := sv_events s @ [ev]\<rparr>)"
  by (simp add: broadcast_event_def wp_simps)

lemma wp_take_lock [wp_simps]:
  "wp (take_lock ids) Q E s =
     (if distinct ids \<and> fx_vtxos (sv_flux s) \<inter> set ids = {}
      then Q (Inr \<lparr>lk_vtxos = set ids\<rparr>) (s\<lparr>sv_flux := (sv_flux s)\<lparr>fx_vtxos := fx_vtxos (sv_flux s) \<union> set ids\<rparr>\<rparr>)
      else Q (Inl (projl (fst (flux_lock ids (sv_flux s))))) s)"
proof (cases "distinct ids \<and> fx_vtxos (sv_flux s) \<inter> set ids = {}")
  case False
  then obtain i where i: "flux_lock ids (sv_flux s) = (Inl i, sv_flux s)" using flux_lock_run [of ids "sv_flux s"] by meson
  show ?thesis unfolding if_not_P [OF False] by (simp add: wp_def take_lock_def i)
qed (use flux_lock_run [of ids "sv_flux s"] in \<open>simp add: wp_def take_lock_def\<close>)

lemma wp_free_lock [wp_simps]:
  "wp (free_lock lock) Q E s = Q () (s\<lparr>sv_flux := drop_lock lock (sv_flux s)\<rparr>)"
  by (simp add: free_lock_def wp_simps)

lemma wp_holding [wp_simps]:
  "wp (holding lock m) Q E s =
     wp m (\<lambda>x t. Q x (t\<lparr>sv_flux := drop_lock lock (sv_flux t)\<rparr>)) (\<lambda>e t. E e (t\<lparr>sv_flux := drop_lock lock (sv_flux t)\<rparr>)) s"
  by (auto simp: wp_def holding_def split: prod.splits sum.splits)

lemma nonce_pairs_run:
  "\<exists>secs pubs. (nonce_pairs n X key :: (server, 'e, _) action) s = (Ok (secs, pubs), s\<lparr>sv_calls := sv_calls s + n\<rparr>) \<and>
     length secs = n \<and> list_all2 (nonce_for X key) secs pubs"
proof (induction n arbitrary: s)
  case (Suc n)
  let ?s = "s\<lparr>sv_calls := Suc (sv_calls s)\<rparr>"
  obtain a b where ab: "ext_nonce_pair X (sv_calls s) None key None = (a, b)" by fastforce
  obtain secs pubs where r: "(nonce_pairs n X key :: (server, 'e, _) action) ?s = (Ok (secs, pubs), ?s\<lparr>sv_calls := sv_calls ?s + n\<rparr>)"
    "length secs = n" "list_all2 (nonce_for X key) secs pubs" using Suc [of ?s] by blast
  have "nonce_for X key a b" using ab by (auto simp: nonce_for_def)
  then show ?case using r ab by (simp add: abind_def areturn_def nonce_pair_def ask_def)
qed (simp add: areturn_def)

lemma wp_nonce_pairs:
  assumes "\<And>secs pubs c. length secs = n \<Longrightarrow> length pubs = n \<Longrightarrow> list_all2 (nonce_for X key) secs pubs \<Longrightarrow>
      Q (secs, pubs) (s\<lparr>sv_calls := c\<rparr>)"
  shows "wp (nonce_pairs n X key :: (server, 'e, _) action) Q E s"
proof -
  obtain secs pubs where r: "(nonce_pairs n X key :: (server, 'e, _) action) s = (Ok (secs, pubs), s\<lparr>sv_calls := sv_calls s + n\<rparr>)"
     "length secs = n" "list_all2 (nonce_for X key) secs pubs" using nonce_pairs_run by blast
  then have "Q (secs, pubs) (s\<lparr>sv_calls := sv_calls s + n\<rparr>)"
    by (intro assms) (simp_all add: list_all2_lengthD [symmetric])
  then show ?thesis by (simp add: wp_def r)
qed

text \<open>A binding over a pair, as a function of the state.\<close>

lemma wp_case_prod [wp_simps]: "wp (case p of (a, b) \<Rightarrow> k a b) Q E = (case p of (a, b) \<Rightarrow> wp (k a b) Q E)"
  by (simp split: prod.splits)

text \<open>Questions to the world leave the tables as they are.\<close>

definition same_tables :: "server \<Rightarrow> server \<Rightarrow> bool" where
  "same_tables s t \<longleftrightarrow> sv_flux t = sv_flux s \<and> sv_db t = sv_db s \<and> sv_events t = sv_events s"

lemma same_tables_refl [simp]: "same_tables s s"
  by (simp add: same_tables_def)

lemma same_tables_calls [simp]: "same_tables s (t\<lparr>sv_calls := c\<rparr>) = same_tables s t"
  by (simp add: same_tables_def)

lemma stays_ask [stays_intros]: "stays (same_tables s) (ask f)"
  by (simp add: stays_def wp_simps)

lemma stays_check_vtxos_not_exited [stays_intros]: "stays (same_tables s) (check_vtxos_not_exited env ids)"
  by (induction ids) (auto intro!: stays_intros split: TxStatus.splits)

lemma wp_same_tables: "stays (same_tables s) m \<Longrightarrow> wp m (\<lambda>_. same_tables s) (\<lambda>_. same_tables s) s"
  by (simp add: stays_def)

text \<open>Runs of actions, taken apart.\<close>

lemma run_abind: "abind m f s = (Ok y, t) \<longleftrightarrow> (\<exists>x u. m s = (Ok x, u) \<and> f x u = (Ok y, t))"
  by (auto simp: abind_def split: prod.splits sum.splits)

lemma run_basic:
  "areturn x s = (Ok y, t) \<longleftrightarrow> y = x \<and> t = s"
  "alift r s = (Ok y, t) \<longleftrightarrow> r = Ok y \<and> t = s"
  "athrow e s = (Ok y, t) \<longleftrightarrow> False"
  "apanic p s = (Ok y, t) \<longleftrightarrow> False"
  by (auto simp: areturn_def alift_def athrow_def apanic_def)

lemma run_ask: "ask f s = (Ok y, t) \<longleftrightarrow> y = f (sv_calls s) \<and> t = s\<lparr>sv_calls := Suc (sv_calls s)\<rparr>"
  by (auto simp: ask_def)

lemmas run_simps = run_abind run_basic run_ask

lemma run_effects:
  "broadcast_event ev s = (Ok y, t) \<longleftrightarrow> t = s\<lparr>sv_events := sv_events s @ [ev]\<rparr>"
  "free_lock l s = (Ok y, t) \<longleftrightarrow> t = s\<lparr>sv_flux := drop_lock l (sv_flux s)\<rparr>"
  by (auto simp: broadcast_event_def free_lock_def amodify_def)

lemma from_result_Ok: "from_result r = Ok x \<longleftrightarrow> r = Inr x"
  by (simp add: from_result_def split: sum.splits)

lemma run_atry:
  "atry m s = (Ok r, t) \<longleftrightarrow> (case r of Inr x \<Rightarrow> m s = (Ok x, t) | Inl e \<Rightarrow> m s = (err e, t))"
  by (auto simp: atry_def split: prod.splits sum.splits failure.splits)

lemma run_wp: "wp m Q E s \<Longrightarrow> m s = (Ok x, t) \<Longrightarrow> Q x t"
  by (simp add: wp_def)

lemma run_amap_err: "amap_err f m s = (Ok x, t) \<longleftrightarrow> m s = (Ok x, t)"
  by (auto simp: amap_err_def split: prod.splits sum.splits failure.splits)

lemma run_on_db:
  "on_db env q s = (Ok x, t) \<longleftrightarrow> we_db_error (en_world env) (sv_calls s) = None \<and>
     (\<exists>d. q (sv_db s) = (Ok x, d) \<and> t = s\<lparr>sv_calls := Suc (sv_calls s), sv_db := d\<rparr>)"
  by (auto simp: on_db_def run_simps with_db_def Let_def split: option.splits prod.splits)

lemma run_holding: "holding lock m s = (Ok x, t) \<longleftrightarrow> (\<exists>u. m s = (Ok x, u) \<and> t = u\<lparr>sv_flux := drop_lock lock (sv_flux u)\<rparr>)"
  by (auto simp: holding_def Let_def split: prod.splits)

section \<open>A concrete world\<close>

text \<open>The chain is at height 100 and knows none of the VTXOs' transactions, the database answers, and the wallet pays everything.\<close>

definition demo_world :: world where
  "demo_world = \<lparr>we_tip = \<lambda>_. 100, we_keypair = \<lambda>_. replicate 32 3, we_challenge = \<lambda>_. replicate 32 0,
     we_tx_status = \<lambda>_ _. Inr TxNotFound, we_db_error = \<lambda>_. None,
     we_build_round_tx = \<lambda>_ _ _ rs _. Inr (v3_tx [\<lparr>previous_output = null_outpoint, script_sig = [], txin_sequence = 0, txin_witness = []\<rparr>] rs),
     we_finish_tx = \<lambda>_ tx. Inr tx, we_broadcast_tx = \<lambda>_ tx. Inr tx, we_fee_mul = \<lambda>_ _. 100\<rparr>"

definition demo_server_env :: server_env where
  "demo_server_env = \<lparr>en_config = \<lparr>cf_nb_round_nonces = 4, cf_vtxo_lifetime = 144, cf_vtxo_exit_delta = 12, cf_max_vtxo_amount = None,
     cf_round_tx_feerate = 1, cf_untrusted_input_confirmations = 0, cf_max_arkoor_depth = 5, cf_required_board_confirmations = 1,
     cf_min_board_amount = 1000\<rparr>, en_server_key = replicate 32 3, en_world = demo_world\<rparr>"

end
