(* ===== verification/Ark_Round_Payments.thy ===== *)
theory Ark_Round_Payments
  imports Ark_Server "HOL-Library.AList"
begin

text \<open>
  Rounds, first part: the registration of payments (\<open>CollectingPayments\<close> of \<open>server/src/round/mod.rs\<close>). Hash
  maps are association lists with distinct keys, so that their sizes and iterations compute; the order of an iteration
  is that of the insertions. Timing and telemetry are left out of \<open>TimedRoundStep\<close>, which leaves the two sequence numbers.
\<close>

section \<open>Messages\<close>

record VtxoIdInput =
  vi_vtxo_id :: VtxoId
  vi_ownership_proof :: Signature

record VtxoParticipant =
  pa_req :: SignedVtxoRequest
  pa_nonces :: "PublicNonce list"

datatype RoundInput =
    RegisterPayment "VtxoIdInput list" "VtxoParticipant list" "OffboardRequest list"
  | VtxoSignatures PublicKey "PartialSignature list"
  | ForfeitSignatures "(VtxoId \<times> PublicNonce list \<times> PartialSignature list) list"

text \<open>
  The message of the RPC interface that a participant is parsed from: amount, policy, key and nonces. \<open>from_slice\<close> is
  the parser for public keys of the crate \<open>secp256k1\<close>, which accepts two formats.
\<close>

record protos_SignedVtxoRequest =
  pr_amount :: u64
  pr_policy :: bytes
  pr_cosign_pubkey :: bytes
  pr_public_nonces :: "bytes list"

definition VtxoParticipant_try_from ::
  "externals \<Rightarrow> (bytes \<Rightarrow> PublicKey option) \<Rightarrow> protos_SignedVtxoRequest \<Rightarrow> (string, VtxoParticipant) outcome" where
  "VtxoParticipant_try_from X from_slice v =
     and_then (case dec_policy (ext_pk_ok X) (pr_policy v) of Inr (p, _) \<Rightarrow> Ok p | Inl _ \<Rightarrow> err ''invalid VtxoPolicy'') (\<lambda>policy.
     and_then (ok_or (from_slice (pr_cosign_pubkey v)) ''malformed cosign pubkey'') (\<lambda>pk.
     and_then (if list_all (\<lambda>n. length n = PUBLIC_NONCE_SIZE \<and> ext_nonce_ok X n) (pr_public_nonces v)
               then Ok (pr_public_nonces v) else err ''invalid public nonce'') (\<lambda>nonces.
     Ok \<lparr>pa_req = \<lparr>sr_vtxo = \<lparr>vr_amount = unat (pr_amount v), vr_policy = policy\<rparr>, sr_cosign_pubkey = Some pk\<rparr>,
         pa_nonces = nonces\<rparr>)))"

section \<open>State\<close>

record RoundData =
  da_max_output_vtxos :: nat
  da_nb_vtxo_nonces :: nat
  da_offboard_feerate :: FeeRate
  da_max_vtxo_amount :: "Amount option"

record CollectingPayments =
  cp_round_data :: RoundData
  cp_challenge :: RoundAttemptChallenge
  cp_locked_inputs :: VtxoFluxLock
  cp_cosign_key :: Keypair
  cp_allowed_inputs :: "VtxoId set option"
  cp_all_inputs :: "(VtxoId \<times> Vtxo) list"
  cp_all_outputs :: "VtxoParticipant list"
  cp_inputs_per_cosigner :: "(PublicKey \<times> VtxoId list) list"
  cp_all_offboards :: "OffboardRequest list"
  cp_common_round_tx_input :: "OutPoint option"
  cp_round_seq :: nat
  cp_attempt_seq :: nat
  cp_proceed :: bool

definition CollectingPayments_new ::
  "server_env \<Rightarrow> nat \<Rightarrow> nat \<Rightarrow> RoundData \<Rightarrow> VtxoFluxLock \<Rightarrow> VtxoId set option \<Rightarrow> OutPoint option \<Rightarrow>
   (server, 'e, CollectingPayments) action" where
  "CollectingPayments_new env round_seq attempt_seq round_data locked_inputs allowed_inputs common_round_tx_input =
     abind (ask (we_challenge (en_world env))) (\<lambda>challenge.
     abind (ask (we_keypair (en_world env))) (\<lambda>cosign_key.
     areturn \<lparr>cp_round_data = round_data, cp_challenge = RoundAttemptChallenge challenge,
       cp_locked_inputs = locked_inputs, cp_cosign_key = cosign_key, cp_allowed_inputs = allowed_inputs,
       cp_all_inputs = [], cp_all_outputs = [], cp_inputs_per_cosigner = [], cp_all_offboards = [],
       cp_common_round_tx_input = common_round_tx_input, cp_round_seq = round_seq, cp_attempt_seq = attempt_seq,
       cp_proceed = False\<rparr>))"

definition first_attempt :: "CollectingPayments \<Rightarrow> ('e, bool) outcome" where
  "first_attempt cp =
     (if (cp_attempt_seq cp = 0) \<noteq> (cp_allowed_inputs cp = None) then panic ''assertion left == right failed''
      else Ok (cp_attempt_seq cp = 0))"

definition need_new_round :: "CollectingPayments \<Rightarrow> ('e, bool) outcome" where
  "need_new_round cp =
     and_then (first_attempt cp) (\<lambda>first.
     if first then Ok False
     else and_then (expect (cp_allowed_inputs cp) ''called `Option::unwrap()` on a `None` value'') (\<lambda>allowed. Ok (allowed = {})))"

definition have_payments :: "CollectingPayments \<Rightarrow> bool" where
  "have_payments cp \<longleftrightarrow> cp_all_inputs cp \<noteq> [] \<and> (cp_all_outputs cp \<noteq> [] \<or> cp_all_offboards cp \<noteq> [])"

section \<open>Checks of a payment\<close>

definition MAX_MONEY :: Amount where
  "MAX_MONEY = 21000000 * 100000000"

text \<open>\<open>Amount + Amount\<close> panics on overflow.\<close>

definition amount_add :: "Amount \<Rightarrow> Amount \<Rightarrow> ('e, Amount) outcome" where
  "amount_add a b = (if a + b < u64_limit then Ok (a + b) else panic ''Amount addition error'')"

fun sum_inputs :: "VtxoId set \<Rightarrow> Amount \<Rightarrow> Vtxo list \<Rightarrow> (string, Amount) outcome" where
  "sum_inputs in_set in_sum [] = Ok in_sum"
| "sum_inputs in_set in_sum (v # vs) =
     and_then (amount_add in_sum (v_amount v)) (\<lambda>in_sum'.
     if MAX_MONEY < in_sum' then err ''total input amount overflow''
     else if vtxo_id v \<in> in_set then err ''duplicate input''
     else sum_inputs (insert (vtxo_id v) in_set) in_sum' vs)"

fun sum_outputs :: "Amount \<Rightarrow> Amount \<Rightarrow> VtxoParticipant list \<Rightarrow> (string, Amount) outcome" where
  "sum_outputs in_sum out_sum [] = Ok out_sum"
| "sum_outputs in_sum out_sum (p # ps) =
     (let req = sr_vtxo (pa_req p) in
      if vr_amount req < P2TR_DUST then err ''vtxo amount must be at least P2TR_DUST''
      else case vr_policy req of
        ServerHtlcRecv _ _ _ _ \<Rightarrow> sum_outputs in_sum out_sum ps
      | ServerHtlcSend _ _ _ \<Rightarrow> err ''invalid vtxo policy''
      | Pubkey _ \<Rightarrow>
          and_then (amount_add out_sum (vr_amount req)) (\<lambda>out_sum'.
          if in_sum < out_sum' then err ''total output amount exceeds total input amount''
          else sum_outputs in_sum out_sum' ps)
      | Checkpoint _ \<Rightarrow> err ''invalid vtxo policy'')"

fun sum_offboards ::
  "externals \<Rightarrow> (FeeRate \<Rightarrow> nat \<Rightarrow> Amount) \<Rightarrow> FeeRate \<Rightarrow> Amount \<Rightarrow> Amount \<Rightarrow> OffboardRequest list \<Rightarrow> (string, Amount) outcome" where
  "sum_offboards X fee_mul feerate in_sum out_sum [] = Ok out_sum"
| "sum_offboards X fee_mul feerate in_sum out_sum (r # rs) =
     (if of_amount r < P2TR_DUST then err ''offboard amount must be at least P2TR_DUST''
      else
        and_then (map_err (\<lambda>_. ''invalid offboard request'') (offboard_fee X fee_mul r feerate)) (\<lambda>fee.
        and_then (amount_add (of_amount r) fee) (\<lambda>spent.
        and_then (amount_add out_sum spent) (\<lambda>out_sum'.
        if in_sum < out_sum' then err ''total output amount with offboard exceeds total input amount''
        else sum_offboards X fee_mul feerate in_sum out_sum' rs))))"

definition validate_payment_amounts ::
  "externals \<Rightarrow> server_env \<Rightarrow> CollectingPayments \<Rightarrow> Vtxo list \<Rightarrow> VtxoParticipant list \<Rightarrow> OffboardRequest list \<Rightarrow>
   (string, unit) outcome" where
  "validate_payment_amounts X env cp inputs outputs offboards =
     and_then (sum_inputs {} 0 inputs) (\<lambda>in_sum.
     and_then (sum_outputs in_sum 0 outputs) (\<lambda>out_sum.
     and_then (sum_offboards X (we_fee_mul (en_world env)) (da_offboard_feerate (cp_round_data cp)) in_sum out_sum offboards) (\<lambda>_.
     Ok ())))"

text \<open>The three loops of \<open>validate_payment_data\<close>, in order.\<close>

fun check_outputs :: "CollectingPayments \<Rightarrow> VtxoParticipant list \<Rightarrow> (string, unit) outcome" where
  "check_outputs cp [] = Ok ()"
| "check_outputs cp (p # ps) =
     (if length (pa_nonces p) \<noteq> da_nb_vtxo_nonces (cp_round_data cp) then err ''incorrect number of cosign nonces per set''
      else case sr_cosign_pubkey (pa_req p) of
        Some pk \<Rightarrow> if pk \<in> fst ` set (cp_inputs_per_cosigner cp) then err ''duplicate cosign key'' else check_outputs cp ps
      | None \<Rightarrow> check_outputs cp ps)"

fun check_unique_inputs :: "CollectingPayments \<Rightarrow> VtxoIdInput set \<Rightarrow> VtxoIdInput list \<Rightarrow> (string, unit) outcome" where
  "check_unique_inputs cp unique_inputs [] = Ok ()"
| "check_unique_inputs cp unique_inputs (i # is) =
     (if i \<in> unique_inputs then err ''user provided duplicate inputs''
      else if vi_vtxo_id i \<in> fst ` set (cp_all_inputs cp) then err ''vtxo already registered''
      else check_unique_inputs cp (insert i unique_inputs) is)"

definition validate_payment_data ::
  "CollectingPayments \<Rightarrow> VtxoIdInput list \<Rightarrow> VtxoParticipant list \<Rightarrow> (string, unit) outcome" where
  "validate_payment_data cp inputs outputs =
     and_then (check_outputs cp outputs) (\<lambda>_.
     and_then
       (case da_max_vtxo_amount (cp_round_data cp) of
          Some m \<Rightarrow> if list_ex (\<lambda>p. m < vr_amount (sr_vtxo (pa_req p))) outputs
                    then err ''output exceeds maximum vtxo amount'' else Ok ()
        | None \<Rightarrow> Ok ()) (\<lambda>_.
     if da_max_output_vtxos (cp_round_data cp) < length (cp_all_outputs cp) + length outputs
     then err ''not enough outputs left in this round, try next round''
     else
       and_then (check_unique_inputs cp {} inputs) (\<lambda>_.
       case cp_allowed_inputs cp of
         Some allowed \<Rightarrow>
           if list_ex (\<lambda>i. vi_vtxo_id i \<notin> allowed) inputs then err ''input vtxo has been banned for this round'' else Ok ()
       | None \<Rightarrow> Ok ())))"

fun spendable_vtxos :: "VtxoState list \<Rightarrow> (string, Vtxo list) outcome" where
  "spendable_vtxos [] = Ok []"
| "spendable_vtxos (v # vs) =
     (if \<not> is_spendable v then err ''vtxo is not spendable''
      else and_then (spendable_vtxos vs) (\<lambda>rest. Ok (vs_vtxo v # rest)))"

definition check_fetch_round_input_vtxos :: "server_env \<Rightarrow> VtxoIdInput list \<Rightarrow> Vtxo list handler" where
  "check_fetch_round_input_vtxos env inputs =
     abind (on_db env (get_vtxos_by_id (map vi_vtxo_id inputs))) (\<lambda>vtxos. alift (spendable_vtxos vtxos))"

text \<open>The proofs are in a hash map, in which the last one of a VTXO counts.\<close>

fun verify_ownership ::
  "externals \<Rightarrow> RoundAttemptChallenge \<Rightarrow> (VtxoId \<times> Signature) list \<Rightarrow> SignedVtxoRequest list \<Rightarrow> OffboardRequest list \<Rightarrow> Vtxo list \<Rightarrow>
   (string, unit) outcome" where
  "verify_ownership X challenge proofs reqs offboards [] = Ok ()"
| "verify_ownership X challenge proofs reqs offboards (v # vs) =
     and_then (expect (map_of (rev proofs) (vtxo_id v)) ''all vtxos were found'') (\<lambda>sig.
     if \<not> round_challenge_verify X challenge v reqs offboards sig then err ''ownership proof is invalid''
     else verify_ownership X challenge proofs reqs offboards vs)"

section \<open>Registration\<close>

text \<open>The assertion is on what the insertion into the map replaced.\<close>

fun add_cosigners ::
  "VtxoId list \<Rightarrow> VtxoParticipant list \<Rightarrow> (PublicKey \<times> VtxoId list) list \<Rightarrow> ('e, (PublicKey \<times> VtxoId list) list) outcome" where
  "add_cosigners input_ids [] m = Ok m"
| "add_cosigners input_ids (p # ps) m =
     (case sr_cosign_pubkey (pa_req p) of
        Some pk \<Rightarrow>
          if pk \<in> fst ` set m then panic ''should be checked before''
          else add_cosigners input_ids ps (m @ [(pk, input_ids)])
      | None \<Rightarrow> add_cosigners input_ids ps m)"

definition insert_inputs :: "Vtxo list \<Rightarrow> (VtxoId \<times> Vtxo) list \<Rightarrow> (VtxoId \<times> Vtxo) list" where
  "insert_inputs vs m = fold (\<lambda>v. AList.update (vtxo_id v) v) vs m"

text \<open>In the first attempt the lock is absorbed by the one of the round; otherwise it is dropped at the end.\<close>

definition register_payment ::
  "VtxoFluxLock \<Rightarrow> Vtxo list \<Rightarrow> VtxoParticipant list \<Rightarrow> OffboardRequest list \<Rightarrow> CollectingPayments \<Rightarrow>
   (server, 'e, CollectingPayments) action" where
  "register_payment lock inputs vtxo_requests offboards cp =
     abind (alift (first_attempt cp)) (\<lambda>first.
     abind
       (if first
        then (\<lambda>s. let (l, f) = absorb (cp_locked_inputs cp) lock (sv_flux s) in (Ok l, s\<lparr>sv_flux := f\<rparr>))
        else areturn (cp_locked_inputs cp)) (\<lambda>locked_inputs.
     abind (alift (add_cosigners (map vtxo_id inputs) vtxo_requests (cp_inputs_per_cosigner cp))) (\<lambda>per_cosigner.
     let all_outputs = cp_all_outputs cp @ vtxo_requests;
         cp' = cp\<lparr>cp_locked_inputs := locked_inputs, cp_all_inputs := insert_inputs inputs (cp_all_inputs cp),
                  cp_inputs_per_cosigner := per_cosigner, cp_all_outputs := all_outputs,
                  cp_all_offboards := cp_all_offboards cp @ offboards,
                  cp_proceed := (if length all_outputs = da_max_output_vtxos (cp_round_data cp) then True else cp_proceed cp)\<rparr>
     in abind (if first then areturn () else free_lock lock) (\<lambda>_. areturn cp'))))"

text \<open>
  \<open>process_payment\<close>: an error after the lock was taken drops it. The state of the round only changes in
  \<open>register_payment\<close>.
\<close>

definition check_payment ::
  "externals \<Rightarrow> server_env \<Rightarrow> CollectingPayments \<Rightarrow> VtxoIdInput list \<Rightarrow> VtxoParticipant list \<Rightarrow> OffboardRequest list \<Rightarrow>
   Vtxo list handler" where
  "check_payment X env cp inputs vtxo_requests offboards =
     abind (check_fetch_round_input_vtxos env inputs) (\<lambda>input_vtxos.
     abind (alift (verify_ownership X (cp_challenge cp) (map (\<lambda>i. (vi_vtxo_id i, vi_ownership_proof i)) inputs)
       (map pa_req vtxo_requests) offboards input_vtxos)) (\<lambda>_.
     abind (alift (validate_payment_amounts X env cp input_vtxos vtxo_requests offboards)) (\<lambda>_.
     abind (check_vtxos_not_exited env (map vtxo_id input_vtxos)) (\<lambda>_.
     areturn input_vtxos))))"

definition process_payment ::
  "externals \<Rightarrow> server_env \<Rightarrow> VtxoIdInput list \<Rightarrow> VtxoParticipant list \<Rightarrow> OffboardRequest list \<Rightarrow> CollectingPayments \<Rightarrow>
   CollectingPayments handler" where
  "process_payment X env inputs vtxo_requests offboards cp =
     (if vtxo_requests = [] \<and> offboards = [] then athrow ''invalid request: zero outputs and zero offboards''
      else
        abind (alift (validate_payment_data cp inputs vtxo_requests)) (\<lambda>_.
        abind (take_lock (map vi_vtxo_id inputs)) (\<lambda>r.
        case r of
          Inl i \<Rightarrow> athrow ''vtxo already in flux''
        | Inr lock \<Rightarrow>
            abind (atry (check_payment X env cp inputs vtxo_requests offboards)) (\<lambda>checked.
            case checked of
              Inl e \<Rightarrow> abind (free_lock lock) (\<lambda>_. athrow e)
            | Inr input_vtxos \<Rightarrow> register_payment lock input_vtxos vtxo_requests offboards cp))))"

section \<open>The books of a round\<close>

text \<open>What the users get that is paid for with inputs, and what they put in.\<close>

definition pubkey_amount :: "VtxoParticipant \<Rightarrow> Amount" where
  "pubkey_amount p = (case vr_policy (sr_vtxo (pa_req p)) of Pubkey _ \<Rightarrow> vr_amount (sr_vtxo (pa_req p)) | _ \<Rightarrow> 0)"

definition offboard_cost :: "externals \<Rightarrow> server_env \<Rightarrow> FeeRate \<Rightarrow> OffboardRequest \<Rightarrow> Amount" where
  "offboard_cost X env feerate r =
     of_amount r + (case offboard_fee X (we_fee_mul (en_world env)) r feerate of Inr fee \<Rightarrow> fee | Inl _ \<Rightarrow> 0)"

definition paid_out :: "externals \<Rightarrow> server_env \<Rightarrow> CollectingPayments \<Rightarrow> Amount" where
  "paid_out X env cp =
     sum_list (map pubkey_amount (cp_all_outputs cp)) +
     sum_list (map (offboard_cost X env (da_offboard_feerate (cp_round_data cp))) (cp_all_offboards cp))"

definition paid_in :: "CollectingPayments \<Rightarrow> Amount" where
  "paid_in cp = sum_list (map (\<lambda>(i, v). v_amount v) (cp_all_inputs cp))"

definition output_ok :: "RoundData \<Rightarrow> VtxoParticipant \<Rightarrow> bool" where
  "output_ok d p \<longleftrightarrow>
     length (pa_nonces p) = da_nb_vtxo_nonces d \<and> P2TR_DUST \<le> vr_amount (sr_vtxo (pa_req p)) \<and>
     (case vr_policy (sr_vtxo (pa_req p)) of Pubkey _ \<Rightarrow> True | ServerHtlcRecv _ _ _ _ \<Rightarrow> True | _ \<Rightarrow> False) \<and>
     (case da_max_vtxo_amount d of Some m \<Rightarrow> vr_amount (sr_vtxo (pa_req p)) \<le> m | None \<Rightarrow> True)"

definition cosign_keys :: "VtxoParticipant list \<Rightarrow> PublicKey list" where
  "cosign_keys ps = List.map_filter (\<lambda>p. sr_cosign_pubkey (pa_req p)) ps"

definition payments_ok :: "externals \<Rightarrow> server_env \<Rightarrow> CollectingPayments \<Rightarrow> bool" where
  "payments_ok X env cp \<longleftrightarrow>
     distinct (map fst (cp_all_inputs cp)) \<and> (\<forall>(i, v) \<in> set (cp_all_inputs cp). vtxo_id v = i) \<and>
     map fst (cp_inputs_per_cosigner cp) = cosign_keys (cp_all_outputs cp) \<and> distinct (cosign_keys (cp_all_outputs cp)) \<and>
     length (cp_all_outputs cp) \<le> da_max_output_vtxos (cp_round_data cp) \<and>
     list_all (output_ok (cp_round_data cp)) (cp_all_outputs cp) \<and>
     paid_out X env cp \<le> paid_in cp \<and>
     (cp_attempt_seq cp = 0 \<longleftrightarrow> cp_allowed_inputs cp = None) \<and>
     (cp_attempt_seq cp = 0 \<longrightarrow> lk_vtxos (cp_locked_inputs cp) = fst ` set (cp_all_inputs cp)) \<and>
     (\<forall>allowed. cp_allowed_inputs cp = Some allowed \<longrightarrow> fst ` set (cp_all_inputs cp) \<subseteq> allowed)"

subsection \<open>What the checks establish\<close>

lemma amount_add_Ok: "amount_add a b = Ok c \<longleftrightarrow> c = a + b \<and> a + b < u64_limit"
  by (auto simp: amount_add_def)

lemma sum_inputs_Ok:
  "sum_inputs S a vs = Ok t \<Longrightarrow>
   t = a + sum_list (map v_amount vs) \<and> distinct (map vtxo_id vs) \<and> set (map vtxo_id vs) \<inter> S = {}"
  by (induction S a vs rule: sum_inputs.induct)
     (auto simp: and_then_eq_Inr amount_add_Ok split: if_splits)

lemma sum_outputs_Ok:
  "sum_outputs n a ps = Ok t \<Longrightarrow>
   t = a + sum_list (map pubkey_amount ps) \<and> (a \<le> n \<longrightarrow> t \<le> n) \<and>
   list_all (\<lambda>p. P2TR_DUST \<le> vr_amount (sr_vtxo (pa_req p)) \<and>
     (case vr_policy (sr_vtxo (pa_req p)) of Pubkey _ \<Rightarrow> True | ServerHtlcRecv _ _ _ _ \<Rightarrow> True | _ \<Rightarrow> False)) ps"
proof (induction n a ps rule: sum_outputs.induct)
  case (2 n a p ps)
  show ?case
    using 2 by (cases "vr_policy (sr_vtxo (pa_req p))")
       (auto simp: Let_def and_then_eq_Inr amount_add_Ok pubkey_amount_def split: if_splits)
qed simp

lemma sum_offboards_Ok:
  "sum_offboards X (we_fee_mul (en_world env)) rate n a rs = Ok t \<Longrightarrow>
   t = a + sum_list (map (offboard_cost X env rate) rs) \<and> (a \<le> n \<longrightarrow> t \<le> n)"
proof (induction rs arbitrary: a)
  case (Cons r rs)
  then obtain fee where fee: "offboard_fee X (we_fee_mul (en_world env)) r rate = Ok fee"
    "sum_offboards X (we_fee_mul (en_world env)) rate n (a + (of_amount r + fee)) rs = Ok t" "a + (of_amount r + fee) \<le> n"
    by (auto simp: and_then_eq_Inr amount_add_Ok split: if_splits)
  from Cons.IH [OF fee(2)] fee(1,3) show ?case by (simp add: offboard_cost_def)
qed simp

lemma validate_payment_amounts_Ok:
  assumes "validate_payment_amounts X env cp vs ps rs = Ok ()"
  shows "sum_list (map pubkey_amount ps) + sum_list (map (offboard_cost X env (da_offboard_feerate (cp_round_data cp))) rs)
      \<le> sum_list (map v_amount vs)"
    and "distinct (map vtxo_id vs)"
    and "list_all (\<lambda>p. P2TR_DUST \<le> vr_amount (sr_vtxo (pa_req p)) \<and>
     (case vr_policy (sr_vtxo (pa_req p)) of Pubkey _ \<Rightarrow> True | ServerHtlcRecv _ _ _ _ \<Rightarrow> True | _ \<Rightarrow> False)) ps"
  using assms
  by (auto simp: validate_payment_amounts_def and_then_eq_Inr dest!: sum_inputs_Ok sum_outputs_Ok sum_offboards_Ok)

lemma check_outputs_Ok:
  "check_outputs cp ps = Ok () \<Longrightarrow>
   list_all (\<lambda>p. length (pa_nonces p) = da_nb_vtxo_nonces (cp_round_data cp)) ps \<and>
   set (cosign_keys ps) \<inter> fst ` set (cp_inputs_per_cosigner cp) = {}"
  by (induction cp ps rule: check_outputs.induct)
     (auto simp: cosign_keys_def List.map_filter_simps split: if_splits option.splits)

lemma check_unique_inputs_Ok:
  "check_unique_inputs cp S is = Ok () \<Longrightarrow> vi_vtxo_id ` set is \<inter> fst ` set (cp_all_inputs cp) = {}"
  by (induction cp S "is" rule: check_unique_inputs.induct) (auto split: if_splits)

lemma validate_payment_data_Ok:
  assumes "validate_payment_data cp is ps = Ok ()"
  shows "list_all (\<lambda>p. length (pa_nonces p) = da_nb_vtxo_nonces (cp_round_data cp) \<and>
      (case da_max_vtxo_amount (cp_round_data cp) of Some m \<Rightarrow> vr_amount (sr_vtxo (pa_req p)) \<le> m | None \<Rightarrow> True)) ps"
    and "set (cosign_keys ps) \<inter> fst ` set (cp_inputs_per_cosigner cp) = {}"
    and "length (cp_all_outputs cp) + length ps \<le> da_max_output_vtxos (cp_round_data cp)"
    and "vi_vtxo_id ` set is \<inter> fst ` set (cp_all_inputs cp) = {}"
    and "\<And>allowed. cp_allowed_inputs cp = Some allowed \<Longrightarrow> vi_vtxo_id ` set is \<subseteq> allowed"
  using assms
  by (auto simp: validate_payment_data_def and_then_eq_Inr list_all_iff list_ex_iff not_less
      dest!: check_outputs_Ok check_unique_inputs_Ok split: if_splits option.splits)

lemma spendable_vtxos_Ok:
  "spendable_vtxos rows = Ok vs \<longleftrightarrow> list_all is_spendable rows \<and> vs = map vs_vtxo rows"
  by (induction rows arbitrary: vs) (auto simp: and_then_eq_Inr)

lemma add_cosigners_Ok:
  "(add_cosigners ids ps m :: ('e, _) outcome) = Ok m' \<Longrightarrow> distinct (map fst m) \<Longrightarrow>
   map fst m' = map fst m @ cosign_keys ps \<and> distinct (map fst m @ cosign_keys ps)"
proof (induction ps arbitrary: m)
  case (Cons p ps)
  show ?case
  proof (cases "sr_cosign_pubkey (pa_req p)")
    case (Some pk)
    with Cons.prems have "pk \<notin> fst ` set m" "(add_cosigners ids ps (m @ [(pk, ids)]) :: ('e, _) outcome) = Ok m'" by (auto split: if_splits)
    with Cons.IH [of "m @ [(pk, ids)]"] Cons.prems(2) Some show ?thesis by (simp add: cosign_keys_def List.map_filter_simps)
  qed (use Cons in \<open>simp add: cosign_keys_def List.map_filter_simps\<close>)
qed (simp add: cosign_keys_def List.map_filter_simps)

text \<open>The duplicates that \<open>validate_payment_data\<close> lets through are those inside of one request.\<close>

lemma add_cosigners_cases:
  assumes "set (cosign_keys ps) \<inter> fst ` set m = {}"
  shows "if distinct (cosign_keys ps) then \<exists>m'. (add_cosigners ids ps m :: ('e, _) outcome) = Ok m'
    else (add_cosigners ids ps m :: ('e, _) outcome) = panic ''should be checked before''"
  using assms
proof (induction ids ps m rule: add_cosigners.induct)
  case (2 ids p ps m)
  show ?case
  proof (cases "sr_cosign_pubkey (pa_req p)")
    case None
    then show ?thesis using 2 by (simp add: cosign_keys_def List.map_filter_simps)
  next
    case (Some pk)
    then show ?thesis
    proof (cases "pk \<in> set (cosign_keys ps)")
      case True
      have "(add_cosigners ids ps m' :: ('e, _) outcome) = panic ''should be checked before''"
        if "pk \<in> fst ` set m'" "pk \<in> set (cosign_keys ps)" for m'
        using that
        by (induction ids ps m' rule: add_cosigners.induct)
           (auto simp: cosign_keys_def List.map_filter_simps split: option.splits)
      then show ?thesis using True Some 2(3) by (auto simp: cosign_keys_def List.map_filter_simps)
    next
      case False
      then show ?thesis using Some 2 by (auto simp: cosign_keys_def List.map_filter_simps)
    qed
  qed
qed (simp add: cosign_keys_def List.map_filter_simps)

lemma update_new: "k \<notin> fst ` set m \<Longrightarrow> AList.update k v m = m @ [(k, v)]"
  by (induction m) auto

lemma insert_inputs_append:
  "set (map vtxo_id vs) \<inter> fst ` set m = {} \<Longrightarrow> distinct (map vtxo_id vs) \<Longrightarrow>
   insert_inputs vs m = m @ map (\<lambda>v. (vtxo_id v, v)) vs"
proof (induction vs arbitrary: m)
  case (Cons v vs)
  have "insert_inputs (v # vs) m = insert_inputs vs (m @ [(vtxo_id v, v)])"
    using update_new [of "vtxo_id v" m v] Cons.prems(1) by (simp add: insert_inputs_def)
  with Cons show ?case by auto
qed (simp add: insert_inputs_def)

lemma wp_get_vtxos_by_id:
  assumes "db_ok d"
  shows "wp (get_vtxos_by_id ids)
    (\<lambda>rows d'. d' = d \<and> map (\<lambda>r. vtxo_id (vs_vtxo r)) rows = ids \<and> map Some rows = map (db_vtxo d) ids) (\<lambda>_ d'. d' = d) d"
proof -
  have all: "\<forall>i \<in> set ids. db_vtxo d i \<noteq> None" if "length (remdups (filter (\<lambda>i. db_vtxo d i \<noteq> None) ids)) = length ids"
  proof -
    have "length ids \<le> length (filter (\<lambda>i. db_vtxo d i \<noteq> None) ids)" using that length_remdups_leq [of "filter (\<lambda>i. db_vtxo d i \<noteq> None) ids"] by simp
    then show ?thesis using length_filter_less [of _ ids "\<lambda>i. db_vtxo d i \<noteq> None"] by (meson linorder_not_le)
  qed
  have row: "vtxo_id (vs_vtxo (the (db_vtxo d i))) = i" if "db_vtxo d i \<noteq> None" for i
    using that assms by (auto simp: db_ok_def)
  have "map (\<lambda>i. vtxo_id (vs_vtxo (the (db_vtxo d i)))) ids = ids" if "\<forall>i \<in> set ids. db_vtxo d i \<noteq> None"
    by (rule map_idI) (use row that in blast)
  moreover have "map (\<lambda>i. Some (the (db_vtxo d i))) ids = map (db_vtxo d) ids" if "\<forall>i \<in> set ids. db_vtxo d i \<noteq> None"
    by (rule map_cong [OF refl]) (use that in auto)
  ultimately have found: "map (\<lambda>r. vtxo_id (vs_vtxo r)) (map (\<lambda>i. the (db_vtxo d i)) ids) = ids \<and>
      map Some (map (\<lambda>i. the (db_vtxo d i)) ids) = map (db_vtxo d) ids"
    if "length (remdups (filter (\<lambda>i. db_vtxo d i \<noteq> None) ids)) = length ids"
    using all [OF that] unfolding map_map comp_def by blast
  then show ?thesis unfolding get_vtxos_by_id_def wp_simps by metis
qed

text \<open>
  The inputs that the checks return are the spendable VTXOs of the request, they pay for what the request asks, and
  their owners have signed for it; the tables are as they were.
\<close>

definition payment_checked ::
  "externals \<Rightarrow> server_env \<Rightarrow> CollectingPayments \<Rightarrow> VtxoIdInput list \<Rightarrow> VtxoParticipant list \<Rightarrow> OffboardRequest list \<Rightarrow>
   database \<Rightarrow> Vtxo list \<Rightarrow> bool" where
  "payment_checked X env cp inputs ps rs d vs \<longleftrightarrow>
     map vtxo_id vs = map vi_vtxo_id inputs \<and>
     (\<forall>v \<in> set vs. \<exists>r. db_vtxo d (vtxo_id v) = Some r \<and> is_spendable r \<and> vs_vtxo r = v) \<and>
     validate_payment_amounts X env cp vs ps rs = Ok () \<and>
     verify_ownership X (cp_challenge cp) (map (\<lambda>i. (vi_vtxo_id i, vi_ownership_proof i)) inputs) (map pa_req ps) rs vs = Ok ()"

lemma wp_abind_fun: "wp (abind m f) Q E = wp m (\<lambda>x. wp (f x) Q E) E"
  by (simp add: fun_eq_iff wp_abind)

lemma rows_found:
  assumes "map (\<lambda>r. vtxo_id (vs_vtxo r)) rows = ids" "map Some rows = map (db_vtxo d) ids" "list_all is_spendable rows"
    and "v \<in> set (map vs_vtxo rows)"
  shows "\<exists>r. db_vtxo d (vtxo_id v) = Some r \<and> is_spendable r \<and> vs_vtxo r = v"
proof -
  obtain k where k: "k < length rows" "v = vs_vtxo (rows ! k)" using assms(4) by (auto simp: in_set_conv_nth)
  have len: "length ids = length rows" using assms(1) by auto
  have "Some (rows ! k) = db_vtxo d (ids ! k)" using arg_cong [OF assms(2), of "\<lambda>xs. xs ! k"] k(1) len by simp
  moreover have "ids ! k = vtxo_id v" using assms(1) k by auto
  moreover have "is_spendable (rows ! k)" using assms(3) k(1) by (simp add: list_all_length)
  ultimately show ?thesis using k(2) by (intro exI [of _ "rows ! k"]) simp
qed

lemma wp_check_payment:
  assumes "db_ok (sv_db s)"
  shows "wp (check_payment X env cp inputs ps rs)
    (\<lambda>vs t. same_tables s t \<and> payment_checked X env cp inputs ps rs (sv_db s) vs) (\<lambda>_. same_tables s) s"
proof -
  let ?ids = "map vi_vtxo_id inputs" and ?s = "s\<lparr>sv_calls := Suc (sv_calls s), sv_db := sv_db s\<rparr>"
  have s: "same_tables s ?s" by (simp add: same_tables_def)
  have exited: "wp (check_vtxos_not_exited env ids) (\<lambda>_ t. same_tables s t \<and> P) (\<lambda>_. same_tables s) ?s" if P for ids P
    using stays_check_vtxos_not_exited [of s env ids] s that by (simp add: stays_def)
  have rest: "wp (alift (spendable_vtxos rows)) (\<lambda>vs. wp (abind (alift (verify_ownership X (cp_challenge cp)
        (map (\<lambda>i. (vi_vtxo_id i, vi_ownership_proof i)) inputs) (map pa_req ps) rs vs)) (\<lambda>_.
      abind (alift (validate_payment_amounts X env cp vs ps rs)) (\<lambda>_.
      abind (check_vtxos_not_exited env (map vtxo_id vs)) (\<lambda>_. areturn vs))))
      (\<lambda>vs t. same_tables s t \<and> payment_checked X env cp inputs ps rs (sv_db s) vs) (\<lambda>_. same_tables s)) (\<lambda>_. same_tables s) ?s"
    if rows: "map (\<lambda>r. vtxo_id (vs_vtxo r)) rows = ?ids" "map Some rows = map (db_vtxo (sv_db s)) ?ids" for rows
  proof (cases "spendable_vtxos rows")
    case (Inr vs)
    then have vs: "list_all is_spendable rows" "vs = map vs_vtxo rows" by (simp_all add: spendable_vtxos_Ok)
    have "payment_checked X env cp inputs ps rs (sv_db s) vs"
      if "validate_payment_amounts X env cp vs ps rs = Ok ()" "verify_ownership X (cp_challenge cp)
        (map (\<lambda>i. (vi_vtxo_id i, vi_ownership_proof i)) inputs) (map pa_req ps) rs vs = Ok ()"
      using that rows_found [OF rows vs(1)] rows(1) vs(2) by (auto simp: payment_checked_def comp_def)
    then show ?thesis using Inr s exited by (auto simp: wp_simps wp_areturn split: sum.splits)
  qed (use s in \<open>simp add: wp_simps\<close>)
  have "wp (get_vtxos_by_id ?ids) (\<lambda>rows d'. d' = sv_db s \<and> map (\<lambda>r. vtxo_id (vs_vtxo r)) rows = ?ids \<and>
      map Some rows = map (db_vtxo (sv_db s)) ?ids) (\<lambda>_ d'. d' = sv_db s) (sv_db s)"
    by (rule wp_get_vtxos_by_id [OF assms])
  then have "wp (on_db env (get_vtxos_by_id ?ids)) (\<lambda>rows t. t = ?s \<and> map (\<lambda>r. vtxo_id (vs_vtxo r)) rows = ?ids \<and>
      map Some rows = map (db_vtxo (sv_db s)) ?ids) (\<lambda>_. same_tables s) s"
    unfolding wp_on_db by (auto simp: Let_def same_tables_def split: option.splits elim!: wp_mono)
  then show ?thesis
    unfolding check_payment_def check_fetch_round_input_vtxos_def wp_abind_fun
    by (rule wp_mono) (use rest [unfolded wp_abind_fun] in blast)+
qed

subsection \<open>A payment is registered\<close>

text \<open>
  What \<open>register_payment\<close> changes: the assertions hold for the state of a round whose request has distinct cosign
  keys, and with duplicate keys inside of one request the last one fails.
\<close>

definition registered :: "Vtxo list \<Rightarrow> VtxoParticipant list \<Rightarrow> OffboardRequest list \<Rightarrow> VtxoFluxLock \<Rightarrow> (PublicKey \<times> VtxoId list) list \<Rightarrow>
    CollectingPayments \<Rightarrow> CollectingPayments" where
  "registered vs ps rs lock m cp =
     cp\<lparr>cp_locked_inputs := (if cp_attempt_seq cp = 0 then \<lparr>lk_vtxos = lk_vtxos (cp_locked_inputs cp) \<union> lk_vtxos lock\<rparr> else cp_locked_inputs cp),
        cp_all_inputs := insert_inputs vs (cp_all_inputs cp), cp_inputs_per_cosigner := m, cp_all_outputs := cp_all_outputs cp @ ps,
        cp_all_offboards := cp_all_offboards cp @ rs,
        cp_proceed := length (cp_all_outputs cp @ ps) = da_max_output_vtxos (cp_round_data cp) \<or> cp_proceed cp\<rparr>"

lemma absorb_eq: "absorb l l' f = (\<lparr>lk_vtxos = lk_vtxos l \<union> lk_vtxos l'\<rparr>, f)"
  by (cases l) (simp add: absorb_def drop_lock_eq)

lemma wp_register_payment:
  assumes "cp_attempt_seq cp = 0 \<longleftrightarrow> cp_allowed_inputs cp = None"
    and "set (cosign_keys ps) \<inter> fst ` set (cp_inputs_per_cosigner cp) = {}" "distinct (map fst (cp_inputs_per_cosigner cp))"
  shows "wp (register_payment lock vs ps rs cp :: (server, 'e, _) action)
    (\<lambda>cp' t. distinct (cosign_keys ps) \<and>
       (\<exists>m. map fst m = map fst (cp_inputs_per_cosigner cp) @ cosign_keys ps \<and> cp' = registered vs ps rs lock m cp) \<and>
       t = (if cp_attempt_seq cp = 0 then s else s\<lparr>sv_flux := drop_lock lock (sv_flux s)\<rparr>))
    (\<lambda>e t. e = Panic ''should be checked before'' \<and> \<not> distinct (cosign_keys ps) \<and> t = s) s"
proof -
  have first: "(first_attempt cp :: ('e, bool) outcome) = Ok (cp_attempt_seq cp = 0)"
    using assms(1) by (simp add: first_attempt_def)
  note cosigners = add_cosigners_cases [OF assms(2), of "map vtxo_id vs", where 'e = 'e]
  note run = register_payment_def first abind_def alift_def areturn_def absorb_eq Let_def
  show ?thesis
  proof (cases "distinct (cosign_keys ps)")
    case True
    then obtain m where m: "(add_cosigners (map vtxo_id vs) ps (cp_inputs_per_cosigner cp) :: ('e, _) outcome) = Ok m"
      using cosigners by auto
    have keys: "map fst m = map fst (cp_inputs_per_cosigner cp) @ cosign_keys ps" using add_cosigners_Ok [OF m assms(3)] by blast
    have "register_payment lock vs ps rs cp s = ((Ok (registered vs ps rs lock m cp) :: ('e, _) outcome),
        if cp_attempt_seq cp = 0 then s else s\<lparr>sv_flux := drop_lock lock (sv_flux s)\<rparr>)"
      by (cases "cp_attempt_seq cp = 0") (simp_all add: run m registered_def free_lock_def amodify_def)
    then show ?thesis using True keys by (auto simp: wp_def)
  next
    case False
    then have m: "(add_cosigners (map vtxo_id vs) ps (cp_inputs_per_cosigner cp) :: ('e, _) outcome) = panic ''should be checked before''"
      using cosigners by simp
    have "(register_payment lock vs ps rs cp :: (server, 'e, _) action) s = (panic ''should be checked before'', s)"
      by (cases "cp_attempt_seq cp = 0") (simp_all add: run m)
    then show ?thesis using False by (simp add: wp_def)
  qed
qed

lemma cosign_keys_append [simp]: "cosign_keys (ps @ qs) = cosign_keys ps @ cosign_keys qs"
  by (simp add: cosign_keys_def List.map_filter_def)

lemma registered_ok:
  assumes ok: "payments_ok X env cp" and data: "validate_payment_data cp inputs ps = Ok ()"
    and checked: "payment_checked X env cp inputs ps rs d vs"
    and keys: "distinct (cosign_keys ps)" "map fst m = map fst (cp_inputs_per_cosigner cp) @ cosign_keys ps"
    and lock: "lk_vtxos lock = vi_vtxo_id ` set inputs"
  shows "payments_ok X env (registered vs ps rs lock m cp)"
proof -
  note o = ok [unfolded payments_ok_def]
  note dat = validate_payment_data_Ok [OF data]
  have amounts: "validate_payment_amounts X env cp vs ps rs = Ok ()" and ids: "map vtxo_id vs = map vi_vtxo_id inputs"
    using checked by (simp_all add: payment_checked_def)
  note am = validate_payment_amounts_Ok [OF amounts]
  have set_ids: "vtxo_id ` set vs = vi_vtxo_id ` set inputs" using arg_cong [OF ids, of set] by simp
  have ins: "insert_inputs vs (cp_all_inputs cp) = cp_all_inputs cp @ map (\<lambda>v. (vtxo_id v, v)) vs"
    by (rule insert_inputs_append) (use dat(4) am(2) set_ids in auto)
  let ?cp = "registered vs ps rs lock m cp"
  have inputs: "cp_all_inputs ?cp = cp_all_inputs cp @ map (\<lambda>v. (vtxo_id v, v)) vs" by (simp add: registered_def ins)
  have all_ids: "fst ` set (cp_all_inputs ?cp) = fst ` set (cp_all_inputs cp) \<union> vi_vtxo_id ` set inputs"
    by (simp add: inputs image_Un image_image set_ids)
  have "distinct (map fst (cp_all_inputs ?cp))"
    using o dat(4) am(2) set_ids by (auto simp: inputs comp_def)
  moreover have "\<forall>(i, v) \<in> set (cp_all_inputs ?cp). vtxo_id v = i" using o by (auto simp: inputs)
  moreover have "paid_out X env ?cp \<le> paid_in ?cp"
    using o am(1) by (simp add: paid_out_def paid_in_def inputs registered_def ins comp_def)
  moreover have "list_all (output_ok (cp_round_data cp)) ps"
    using am(3) dat(1) by (auto simp: list_all_iff output_ok_def)
  moreover have "set (cosign_keys (cp_all_outputs cp)) = fst ` set (cp_inputs_per_cosigner cp)"
    using o by (metis list.set_map)
  ultimately show ?thesis
    using o dat(2,3,5) keys lock all_ids
    by (auto simp: payments_ok_def registered_def image_Un)
qed

text \<open>
  The server after a registration: in the first attempt the inputs of the request are in flux, in later attempts
  nothing is. After a refusal the tables are as they were.
\<close>

definition after_payment ::
  "externals \<Rightarrow> server_env \<Rightarrow> CollectingPayments \<Rightarrow> VtxoIdInput list \<Rightarrow> VtxoParticipant list \<Rightarrow> OffboardRequest list \<Rightarrow>
   server \<Rightarrow> CollectingPayments \<Rightarrow> server \<Rightarrow> bool" where
  "after_payment X env cp inputs ps rs s cp' t \<longleftrightarrow>
     payments_ok X env cp' \<and>
     (\<exists>vs lock m. payment_checked X env cp inputs ps rs (sv_db s) vs \<and> cp' = registered vs ps rs lock m cp) \<and>
     sv_db t = sv_db s \<and> sv_events t = sv_events s \<and> fx_vtxos (sv_flux s) \<inter> vi_vtxo_id ` set inputs = {} \<and>
     fx_vtxos (sv_flux t) = fx_vtxos (sv_flux s) \<union> (if cp_attempt_seq cp = 0 then vi_vtxo_id ` set inputs else {})"

fun after_refusal :: "server \<Rightarrow> 'e failure \<Rightarrow> server \<Rightarrow> bool" where
  "after_refusal s (Err _) t = same_tables s t"
| "after_refusal s (Panic _) t = (sv_db t = sv_db s \<and> sv_events t = sv_events s)"

lemma wp_process_payment:
  assumes ok: "payments_ok X env cp" and db: "db_ok (sv_db s)"
  shows "wp (process_payment X env inputs ps rs cp) (after_payment X env cp inputs ps rs s) (after_refusal s) s"
proof (cases "validate_payment_data cp inputs ps")
  case (Inl e)
  then show ?thesis by (cases e) (simp_all add: process_payment_def wp_simps)
next
  case (Inr u)
  then have data: "validate_payment_data cp inputs ps = Ok ()" by simp
  let ?ids = "map vi_vtxo_id inputs" and ?Q = "after_payment X env cp inputs ps rs s"
  let ?lock = "\<lparr>lk_vtxos = set ?ids\<rparr>" and ?f = "(sv_flux s)\<lparr>fx_vtxos := fx_vtxos (sv_flux s) \<union> set ?ids\<rparr>"
  let ?s = "s\<lparr>sv_flux := ?f\<rparr>"
  let ?rest = "\<lambda>lock (checked :: string + Vtxo list). (case checked of
      Inl e \<Rightarrow> abind (free_lock lock) (\<lambda>_. athrow e) | Inr vs \<Rightarrow> register_payment lock vs ps rs cp) :: CollectingPayments handler"
  have locked: "wp (atry (check_payment X env cp inputs ps rs) :: (server, string, _) action) (\<lambda>checked. wp (?rest ?lock checked) ?Q (after_refusal s)) (after_refusal s) ?s"
    if free: "fx_vtxos (sv_flux s) \<inter> set ?ids = {}"
    unfolding wp_atry
  proof (rule wp_mono [OF wp_check_payment [of ?s X env cp inputs ps rs]])
    have restored: "drop_lock ?lock ?f = sv_flux s"
      using free by (intro VtxosInFlux.equality) (auto simp: drop_lock_eq)
    fix e :: "string failure" and t
    assume "same_tables ?s t"
    then show "(case e of Err x \<Rightarrow> wp (?rest ?lock (Inl x)) ?Q (after_refusal s) | Panic p \<Rightarrow> after_refusal s (Panic p :: string failure)) t"
      using restored by (cases e) (simp_all add: wp_simps same_tables_def)
  next
    have restored: "drop_lock ?lock ?f = sv_flux s"
      using free by (intro VtxosInFlux.equality) (auto simp: drop_lock_eq)
    fix vs t
    assume t: "same_tables ?s t \<and> payment_checked X env cp inputs ps rs (sv_db ?s) vs"
    show "wp (?rest ?lock (Inr vs)) ?Q (after_refusal s) t"
      unfolding sum.case
    proof (rule wp_mono [OF wp_register_payment])
      show "cp_attempt_seq cp = 0 \<longleftrightarrow> cp_allowed_inputs cp = None" "distinct (map fst (cp_inputs_per_cosigner cp))"
        using ok by (simp_all add: payments_ok_def)
      show "set (cosign_keys ps) \<inter> fst ` set (cp_inputs_per_cosigner cp) = {}" using validate_payment_data_Ok(2) [OF data] .
    next
      fix cp' u
      assume r: "distinct (cosign_keys ps) \<and> (\<exists>m. map fst m = map fst (cp_inputs_per_cosigner cp) @ cosign_keys ps \<and>
          cp' = registered vs ps rs ?lock m cp) \<and> u = (if cp_attempt_seq cp = 0 then t else t\<lparr>sv_flux := drop_lock ?lock (sv_flux t)\<rparr>)"
      then have "payments_ok X env cp'" using registered_ok [OF ok data, of rs "sv_db s" vs _ ?lock] t by auto
      then show "?Q cp' u" using r t restored free by (auto simp: after_payment_def same_tables_def)
    next
      fix e :: "string failure" and u
      assume "e = Panic ''should be checked before'' \<and> \<not> distinct (cosign_keys ps) \<and> u = t"
      then show "after_refusal s e u" using t by (simp add: same_tables_def)
    qed
  qed (use db in simp)
  have "wp (take_lock ?ids :: (server, string, _) action) (\<lambda>r. wp (case r of Inl i \<Rightarrow> athrow ''vtxo already in flux''
      | Inr lock \<Rightarrow> abind (atry (check_payment X env cp inputs ps rs)) (?rest lock)) ?Q (after_refusal s)) (after_refusal s) s"
    unfolding wp_take_lock using locked by (simp add: wp_basic(2) wp_abind del: set_map)
  then show ?thesis using data unfolding process_payment_def by (simp add: wp_basic wp_alift wp_abind)
qed

end
