(* ===== verification/Ark_Tree_Cosign.thy ===== *)
theory Ark_Tree_Cosign
  imports Ark_Signed_Tree
begin

text \<open>
  Cosigning a VTXO tree from both sides. Every user signs the nodes on the branch of its own leaf, the
  server signs all nodes, and \<open>combine_partial_signatures\<close> consumes the queues of the leaves node by node.
  The theory shows that signatures which the verification accepts combine to valid signatures of all nodes.
\<close>

section \<open>Branches as sets of nodes\<close>

definition branch_nodes :: "nat \<Rightarrow> nat \<Rightarrow> nat list" where
  "branch_nodes n l = filter (\<lambda>k. l \<in> set (leaf_list n k)) [0..<tree_size n]"

lemma distinct_branch_nodes [simp]: "distinct (branch_nodes n l)"
  by (simp add: branch_nodes_def)

lemma set_branch_nodes: "set (branch_nodes n l) = {k. k < tree_size n \<and> l \<in> set (leaf_list n k)}"
  by (auto simp: branch_nodes_def)

text \<open>The branch of a leaf are the nodes with the leaf under them, in the order of their indices.\<close>

lemma leaf_branch_nodes:
  assumes n: "0 < n" and l: "l < n"
  shows "(iter_branch \<lparr>tr_nodes = tree_nodes n, tr_nb_leaves = n\<rparr> l :: ('e, Node list) outcome)
       = Ok (map (\<lambda>k. tree_nodes n ! k) (branch_nodes n l)) \<and> up_path n None (branch_nodes n l)"
proof -
  obtain m where m: "n = Suc m" using n by (cases n) auto
  have lN: "l < tree_size n" using l by (simp add: tree_size_def)
  obtain ks where ks: "branch_iter (tree_nodes n) (tree_size n) (Some l) = map (\<lambda>k. tree_nodes n ! k) ks"
    "sorted_wrt (<) ks" "\<forall>k \<in> set ks. k < tree_size n"
    "set ks = {k. (\<lambda>a b. nd_parent (tree_nodes n ! a) = Some b)\<^sup>*\<^sup>* l k}"
    using branch_iter_run [OF n lN, of "tree_size n"] by auto
  have "k \<in> set ks \<longleftrightarrow> k < tree_size n \<and> l \<in> set (leaf_list n k)" for k
    using ks(3,4) ark_tree.leaves_branch [of k m l] l n
    by (auto simp only: m mem_Collect_eq tree_node_leaves)
  then have "set ks = set (branch_nodes n l)" by (auto simp: set_branch_nodes)
  moreover have "sorted_wrt (<) (branch_nodes n l)"
    unfolding branch_nodes_def by (rule sorted_wrt_filter) (simp add: sorted_wrt_upt)
  ultimately have same: "ks = branch_nodes n l"
    using ks(2) by (simp add: strict_sorted_equal)
  obtain ks' where ks': "(iter_branch \<lparr>tr_nodes = tree_nodes n, tr_nb_leaves = n\<rparr> l :: ('e, Node list) outcome)
       = Ok (map (\<lambda>k. tree_nodes n ! k) ks')" "up_path n None ks'"
    using leaf_branch [OF n l, where 'e = 'e] by metis
  have bound: "\<forall>k \<in> set is. k < tree_size n" if "up_path n below is" for below "is"
    using that by (induction n below "is" rule: up_path.induct) auto
  have "map (\<lambda>k. tree_nodes n ! k) ks' = map (\<lambda>k. tree_nodes n ! k) ks"
    using ks'(1) ks(1) lN n by (simp add: iter_branch_def length_tree_nodes)
  then have "map nd_idx (map (\<lambda>k. tree_nodes n ! k) ks') = map nd_idx (map (\<lambda>k. tree_nodes n ! k) ks)"
    by (simp only:)
  then have "ks' = ks"
    using bound [OF ks'(2)] ks(3) n by (simp add: tree_node_idx comp_def cong: map_cong)
  then show ?thesis using ks' same by simp
qed

section \<open>Verified branches\<close>

lemma next_nonce_at:
  "pos \<le> level \<Longrightarrow> next_nonce level pos (drop pos all) =
     (if level < length all then Some (all ! level, Suc level, drop (Suc level) all) else None)"
proof (cases "level < length all")
  case False
  have "next_nonce level p xs = None" if "p + length xs \<le> level" for p and xs :: "'a list"
    using that by (induction level p xs rule: next_nonce.induct) auto
  moreover assume "pos \<le> level"
  ultimately show ?thesis using False by simp
qed (use next_nonce_drop in auto)

text \<open>The check of one node of a branch, as \<open>verify_node_cosign_partial_sig\<close> makes it.\<close>

definition node_sig_ok ::
  "externals \<Rightarrow> VtxoTreeSpec \<Rightarrow> OutPoint \<Rightarrow> AggregatedNonce list \<Rightarrow> nat \<Rightarrow> PublicKey \<Rightarrow> PublicNonce \<Rightarrow> PartialSignature \<Rightarrow> bool" where
  "node_sig_ok X spec utxo agg_nonces k pk pub_nonce part_sig \<longleftrightarrow>
     ext_partial_verify X
       (tweaked_key_agg (node_cosign_pubkeys spec (tree_nodes (ts_nb_leaves spec) ! k))
          (ext_tap_tweak X (ts_cosign_taproot X spec (node_pk X spec k))))
       (agg_nonces ! k) (tree_sighash X spec utxo k) part_sig pub_nonce pk"

definition tree_of :: "externals \<Rightarrow> VtxoTreeSpec \<Rightarrow> OutPoint \<Rightarrow> UnsignedVtxoTree" where
  "tree_of X spec utxo =
     \<lparr>ut_spec = spec, ut_utxo = utxo,
      ut_cosign_agg_pks = map (node_pk X spec) [0..<tree_size (ts_nb_leaves spec)],
      ut_txs = map (tree_tx X spec utxo) [0..<tree_size (ts_nb_leaves spec)],
      ut_sighashes = map (tree_sighash X spec utxo) [0..<tree_size (ts_nb_leaves spec)],
      ut_tree = \<lparr>tr_nodes = tree_nodes (ts_nb_leaves spec), tr_nb_leaves = ts_nb_leaves spec\<rparr>\<rparr>"

lemma tree_of_simps [simp]:
  "ut_spec (tree_of X spec utxo) = spec" "ut_utxo (tree_of X spec utxo) = utxo"
  "ut_tree (tree_of X spec utxo) = \<lparr>tr_nodes = tree_nodes (ts_nb_leaves spec), tr_nb_leaves = ts_nb_leaves spec\<rparr>"
  "k < tree_size (ts_nb_leaves spec) \<Longrightarrow> ut_cosign_agg_pks (tree_of X spec utxo) ! k = node_pk X spec k"
  "k < tree_size (ts_nb_leaves spec) \<Longrightarrow> ut_sighashes (tree_of X spec utxo) ! k = tree_sighash X spec utxo k"
  by (simp_all add: tree_of_def)

lemma UnsignedVtxoTree_new_is:
  assumes "(UnsignedVtxoTree_new X spec utxo :: ('e, UnsignedVtxoTree) outcome) = Ok u"
  shows "u = tree_of X spec utxo"
  using UnsignedVtxoTree_new_run [OF UnsignedVtxoTree_new_Ok [OF assms], of X utxo, where 'e = 'e] assms
  by (simp add: tree_of_def)

lemma verify_node_Ok:
  assumes "0 < ts_nb_leaves spec" "k < tree_size (ts_nb_leaves spec)"
  shows "verify_node_cosign_partial_sig X (tree_of X spec utxo) (tree_nodes (ts_nb_leaves spec) ! k) pk agg_nonces sig n = Ok ()
     \<longleftrightarrow> k < length agg_nonces \<and> node_sig_ok X spec utxo agg_nonces k pk n sig"
  using assms by (auto simp: verify_node_cosign_partial_sig_def node_sig_ok_def tree_node_idx nth_opt_def Let_def)

lemma verify_branch_loop_Ok:
  fixes spec
  defines "n \<equiv> ts_nb_leaves spec"
  assumes n: "0 < n"
  shows "up_path n below ks \<Longrightarrow> (ks \<noteq> [] \<longrightarrow> pos \<le> level_of n (hd ks)) \<Longrightarrow> length sigs = length ks \<Longrightarrow>
    verify_branch_loop X (tree_of X spec utxo) agg_nonces pk pos (drop pos all) sigs (map (\<lambda>k. tree_nodes n ! k) ks) = Ok () \<Longrightarrow>
    \<forall>j < length ks. level_of n (ks ! j) < length all \<and>
      node_sig_ok X spec utxo agg_nonces (ks ! j) pk (all ! level_of n (ks ! j)) (sigs ! j)"
proof (induction ks arbitrary: below pos sigs)
  case (Cons k ks)
  obtain s ss where sigs: "sigs = s # ss" using Cons.prems(3) by (cases sigs) auto
  have k: "k < tree_size n" using Cons.prems(1) by simp
  have level: "nd_level (tree_nodes n ! k) = level_of n k"
    using n k by (simp add: tree_nodes_nth tree_node_def)
  have all: "level_of n k < length all"
    using Cons.prems(2,4) next_nonce_at [of pos "level_of n k" all] level by (auto split: if_splits)
  then have run: "verify_node_cosign_partial_sig X (tree_of X spec utxo) (tree_nodes n ! k) pk agg_nonces s (all ! level_of n k) = Ok ()"
    and rest: "verify_branch_loop X (tree_of X spec utxo) agg_nonces pk (Suc (level_of n k)) (drop (Suc (level_of n k)) all) ss
        (map (\<lambda>k. tree_nodes n ! k) ks) = Ok ()"
    using Cons.prems(2,4) next_nonce_at [of pos "level_of n k" all] level
    by (auto simp: sigs and_then_eq_Inr split: if_splits)
  have "ks \<noteq> [] \<longrightarrow> Suc (level_of n k) \<le> level_of n (hd ks)"
    using Cons.prems(1) level_of_parent [of k n] by (cases ks) auto
  with Cons.IH [of "Some k" "Suc (level_of n k)" ss] Cons.prems rest have
    "\<forall>j < length ks. level_of n (ks ! j) < length all \<and>
      node_sig_ok X spec utxo agg_nonces (ks ! j) pk (all ! level_of n (ks ! j)) (ss ! j)"
    by (simp add: sigs)
  moreover have "node_sig_ok X spec utxo agg_nonces k pk (all ! level_of n k) s"
    using run verify_node_Ok [of spec k] n k by (simp add: n_def)
  ultimately show ?case using all by (auto simp: sigs less_Suc_eq_0_disj)
qed simp

section \<open>Combining the queues\<close>

text \<open>A request that names its leaf: all leaves have cosign keys, and no two have the same.\<close>

definition leaf_keys :: "VtxoTreeSpec \<Rightarrow> PublicKey list \<Rightarrow> bool" where
  "leaf_keys spec pks \<longleftrightarrow> map sr_cosign_pubkey (ts_vtxos spec) = map Some pks \<and> distinct pks"

lemma leaf_keysD:
  assumes "leaf_keys spec pks"
  shows "length pks = ts_nb_leaves spec" "distinct pks"
    and "l < ts_nb_leaves spec \<Longrightarrow> sr_cosign_pubkey (ts_vtxos spec ! l) = Some (pks ! l)"
proof -
  have eq: "map sr_cosign_pubkey (ts_vtxos spec) = map Some pks" using assms by (simp add: leaf_keys_def)
  show len: "length pks = ts_nb_leaves spec" using arg_cong [OF eq, of length] by (simp add: ts_nb_leaves_def)
  show "distinct pks" using assms by (simp add: leaf_keys_def)
  show "sr_cosign_pubkey (ts_vtxos spec ! l) = Some (pks ! l)" if "l < ts_nb_leaves spec"
    using arg_cong [OF eq, of "\<lambda>xs. xs ! l"] that len by (simp add: ts_nb_leaves_def)
qed

lemma leaf_idx_of_leaf:
  assumes "leaf_keys spec pks" "l < ts_nb_leaves spec"
  shows "leaf_idx_of spec (ts_vtxos spec ! l) = Some l"
proof -
  have "distinct (map sr_cosign_pubkey (ts_vtxos spec))"
    using assms(1) by (simp add: leaf_keys_def distinct_map)
  then have d: "distinct (ts_vtxos spec)" by (simp add: distinct_map)
  have "position (\<lambda>e. e = xs ! l) xs = Some l" if "distinct xs" "l < length xs" for xs :: "SignedVtxoRequest list"
    using that
  proof (induction xs arbitrary: l)
    case (Cons x xs)
    then show ?case by (cases l) auto
  qed simp
  from this [OF d] show ?thesis using assms(2) by (simp add: leaf_idx_of_def ts_nb_leaves_def)
qed

lemma map_filter_leaf_keys:
  assumes "leaf_keys spec pks" "\<forall>l \<in> set ls. l < ts_nb_leaves spec"
  shows "List.map_filter (\<lambda>i. sr_cosign_pubkey (ts_vtxos spec ! i)) ls = map (\<lambda>l. pks ! l) ls"
  using assms(2) leaf_keysD(3) [OF assms(1)] by (induction ls) (simp_all add: List.map_filter_simps)

lemma pop_leaf_sigs_run:
  assumes keys: "leaf_keys spec pks"
  shows "distinct ls \<Longrightarrow> \<forall>l \<in> set ls. l < ts_nb_leaves spec \<and> queues (pks ! l) = Some (h l # t l) \<Longrightarrow>
    \<exists>queues'. pop_leaf_sigs spec ls queues = Ok (map (\<lambda>l. (pks ! l, h l)) ls, queues') \<and>
      (\<forall>l < ts_nb_leaves spec. queues' (pks ! l) = (if l \<in> set ls then Some (t l) else queues (pks ! l)))"
proof (induction ls arbitrary: queues)
  case (Cons l ls)
  note k = leaf_keysD [OF keys]
  have other: "pks ! l \<noteq> pks ! m" if "m < ts_nb_leaves spec" "m \<noteq> l" for m
    using that Cons.prems(2) k(1,2) by (simp add: nth_eq_iff_index_eq)
  have tails: "\<forall>m \<in> set ls. m < ts_nb_leaves spec \<and> (queues(pks ! l \<mapsto> t l)) (pks ! m) = Some (h m # t m)"
  proof
    fix m
    assume m: "m \<in> set ls"
    then have "m < ts_nb_leaves spec" "m \<noteq> l" using Cons.prems by auto
    from other [OF this] show "m < ts_nb_leaves spec \<and> (queues(pks ! l \<mapsto> t l)) (pks ! m) = Some (h m # t m)"
      using Cons.prems(2) m by auto
  qed
  obtain queues' where run: "pop_leaf_sigs spec ls (queues(pks ! l \<mapsto> t l)) = Ok (map (\<lambda>l. (pks ! l, h l)) ls, queues')"
    and q: "\<forall>m < ts_nb_leaves spec. queues' (pks ! m) = (if m \<in> set ls then Some (t m) else (queues(pks ! l \<mapsto> t l)) (pks ! m))"
    using Cons.IH [OF _ tails] Cons.prems(1) unfolding distinct.simps(2) by blast
  have "pop_leaf_sigs spec (l # ls) queues = Ok (map (\<lambda>l. (pks ! l, h l)) (l # ls), queues')"
    using run Cons.prems(2) k(3) [of l] by simp
  moreover have "\<forall>m < ts_nb_leaves spec. queues' (pks ! m) = (if m \<in> set (l # ls) then Some (t m) else queues (pks ! m))"
    using q other [symmetric] Cons.prems(1) by (auto dest!: spec)
  ultimately show ?case by blast
qed simp

text \<open>The signature that is made for node \<open>k\<close>.\<close>

definition node_sig ::
  "externals \<Rightarrow> VtxoTreeSpec \<Rightarrow> OutPoint \<Rightarrow> AggregatedNonce list \<Rightarrow> PartialSignature list \<Rightarrow> nat \<Rightarrow> Signature" where
  "node_sig X spec utxo agg_nonces part_sigs k =
     ext_partial_sig_agg X
       (tweaked_key_agg (node_cosign_pubkeys spec (tree_nodes (ts_nb_leaves spec) ! k))
          (ext_tap_tweak X (ts_cosign_taproot X spec (node_pk X spec k))))
       (agg_nonces ! k) (tree_sighash X spec utxo k) part_sigs"

lemma combine_loop_run:
  fixes spec
  defines "n \<equiv> ts_nb_leaves spec"
  assumes n: "0 < n" and keys: "leaf_keys spec pks"
    and global: "ts_global_cosign_pubkeys spec = [pk]" "length glob = tree_size n" "length agg_nonces = tree_size n"
  shows "i \<le> tree_size n \<Longrightarrow>
    \<forall>l < n. queues (pks ! l) = Some (map (sg l) (filter (\<lambda>k. i \<le> k) (branch_nodes n l))) \<Longrightarrow>
    combine_loop X (tree_of X spec utxo) agg_nonces [glob] i (map (\<lambda>k. tree_nodes n ! k) [i..<tree_size n]) queues
      = Ok (map (\<lambda>k. node_sig X spec utxo agg_nonces (map (\<lambda>l. sg l k) (leaf_list n k) @ [glob ! k]) k) [i..<tree_size n])"
proof (induction "tree_size n - i" arbitrary: i queues)
  case 0
  then show ?case by simp
next
  case (Suc d)
  then have i: "i < tree_size n" by simp
  have split: "filter (\<lambda>k. i \<le> k) (branch_nodes n l)
      = (if l \<in> set (leaf_list n i) then [i] else []) @ filter (\<lambda>k. Suc i \<le> k) (branch_nodes n l)" for l
  proof -
    have up: "[0..<tree_size n] = [0..<i] @ i # [Suc i..<tree_size n]"
      using i upt_add_eq_append [of 0 i "tree_size n - i"] by (simp add: upt_conv_Cons)
    have "filter (\<lambda>k. l \<in> set (leaf_list n k) \<and> i \<le> k) [0..<i] = []"
      "filter (\<lambda>k. l \<in> set (leaf_list n k) \<and> Suc i \<le> k) [0..<i] = []"
      "filter (\<lambda>k. l \<in> set (leaf_list n k) \<and> i \<le> k) [Suc i..<tree_size n]
        = filter (\<lambda>k. l \<in> set (leaf_list n k) \<and> Suc i \<le> k) [Suc i..<tree_size n]"
      by (auto simp: filter_empty_conv intro: filter_cong)
    then show ?thesis unfolding branch_nodes_def filter_filter up by simp
  qed
  have bound: "\<forall>l \<in> set (leaf_list n i). l < n"
    using ark_tree.leaves_bound [of i "n - 1"] n i by (simp add: tree_node_leaves)
  define t where "t l = map (sg l) (filter (\<lambda>k. Suc i \<le> k) (branch_nodes n l))" for l
  have heads: "\<forall>l \<in> set (leaf_list n i). l < n \<and> queues (pks ! l) = Some (sg l i # t l)"
    using Suc.prems(2) bound split by (auto simp: t_def)
  obtain queues' where pop: "pop_leaf_sigs spec (leaf_list n i) queues = Ok (map (\<lambda>l. (pks ! l, sg l i)) (leaf_list n i), queues')"
    and q: "\<forall>l < n. queues' (pks ! l) = (if l \<in> set (leaf_list n i) then Some (t l) else queues (pks ! l))"
    using pop_leaf_sigs_run [OF keys distinct_leaf_list [OF i], of queues "\<lambda>l. sg l i" t] heads unfolding n_def by blast
  have queues': "\<forall>l < n. queues' (pks ! l) = Some (map (sg l) (filter (\<lambda>k. Suc i \<le> k) (branch_nodes n l)))"
    using q Suc.prems(2) split by (auto simp: t_def)
  have IH: "combine_loop X (tree_of X spec utxo) agg_nonces [glob] (Suc i) (map (\<lambda>k. tree_nodes n ! k) [Suc i..<tree_size n]) queues'
      = Ok (map (\<lambda>k. node_sig X spec utxo agg_nonces (map (\<lambda>l. sg l k) (leaf_list n k) @ [glob ! k]) k) [Suc i..<tree_size n])"
    by (rule Suc.hyps(1) [OF _ _ queues']) (use Suc.hyps(2) i in simp_all)
  have keys_of: "node_cosign_pubkeys spec (tree_nodes n ! i) = map (\<lambda>l. pks ! l) (leaf_list n i) @ [pk]"
    using map_filter_leaf_keys [OF keys, of "leaf_list n i"] bound n i
    by (simp add: node_cosign_pubkeys_def tree_node_leaves global(1) n_def)
  have upt: "[i..<tree_size n] = i # [Suc i..<tree_size n]" using i by (simp add: upt_conv_Cons)
  show ?case
    unfolding upt using i n pop IH global keys_of
    by (simp add: tree_node_leaves tree_node_idx nth_opt_def Let_def musig_combine_partial_signatures_def
        session_agg_def node_sig_def comp_def flip: n_def)
qed

section \<open>Nonces and signatures of all nodes\<close>

lemma ts_nb_nodes_eq: "0 < ts_nb_leaves spec \<Longrightarrow> ts_nb_nodes spec = tree_size (ts_nb_leaves spec)"
  by (simp add: ts_nb_nodes_def nb_nodes_for_leaves_def nb_nodes_loop_closed tree_size_def)

lemma leaf_nonces_at_Ok:
  "leaf_nonces_at m level ks = Ok ns \<Longrightarrow> ns = map (\<lambda>pk. the (m pk) ! level) ks"
  by (induction ks arbitrary: ns) (auto simp: and_then_eq_Inr nth_opt_def ok_or_def split: option.splits if_splits)

lemma agg_nonces_run:
  fixes spec
  defines "n \<equiv> ts_nb_leaves spec"
  assumes n: "0 < n" and keys: "leaf_keys spec pks" and "ts_global_cosign_pubkeys spec = [pk]"
    and run: "calculate_cosign_agg_nonces X spec user_nonces [pubs] = Ok agg"
  shows "length agg = tree_size n"
    and "k < tree_size n \<Longrightarrow> agg ! k = nonce_agg X
       (map (\<lambda>l. the (user_nonces (pks ! l)) ! level_of n k) (leaf_list n k) @ [pubs ! k])"
proof -
  let ?node = "\<lambda>(idx, node).
     and_then (leaf_nonces_at user_nonces (nd_level node)
        (List.map_filter (\<lambda>i. sr_cosign_pubkey (ts_vtxos spec ! i)) (node_leaves node))) (\<lambda>leaf.
     and_then (collect_results (map (\<lambda>glob. ok_or (nth_opt glob idx) ''not enough global cosign nonces'') [pubs])) (\<lambda>glob.
     Ok (nonce_agg X (leaf @ glob))))"
  have all: "map ?node (enumerate 0 (tree_nodes n)) = map Ok agg"
    using run n assms(4) unfolding calculate_cosign_agg_nonces_def
    by (simp add: Tree_new_Ok collect_results_eq_Inr flip: n_def)
  show len: "length agg = tree_size n"
    using arg_cong [OF all, of length] n by (simp add: length_tree_nodes)
  assume k: "k < tree_size n"
  have "?node (k, tree_nodes n ! k) = Ok (agg ! k)"
    using arg_cong [OF all, of "\<lambda>xs. xs ! k"] k n len by (simp add: length_tree_nodes nth_enumerate_eq)
  moreover have "nd_level (tree_nodes n ! k) = level_of n k" using n k by (simp add: tree_nodes_nth tree_node_def)
  moreover have "List.map_filter (\<lambda>i. sr_cosign_pubkey (ts_vtxos spec ! i)) (node_leaves (tree_nodes n ! k))
      = map (\<lambda>l. pks ! l) (leaf_list n k)"
    using k n map_filter_leaf_keys [OF keys, of "leaf_list n k"] ark_tree.leaves_bound [of k "n - 1"]
    by (simp add: tree_node_leaves flip: n_def)
  ultimately obtain leaf where leaf: "leaf_nonces_at user_nonces (level_of n k) (map (\<lambda>l. pks ! l) (leaf_list n k)) = Ok leaf"
    and agg: "agg ! k = nonce_agg X (leaf @ [pubs ! k])"
    by (auto simp: and_then_eq_Inr nth_opt_def ok_or_def split: if_splits)
  then show "agg ! k = nonce_agg X
       (map (\<lambda>l. the (user_nonces (pks ! l)) ! level_of n k) (leaf_list n k) @ [pubs ! k])"
    by (simp add: agg leaf_nonces_at_Ok [OF leaf] comp_def)
qed

text \<open>The signatures of a leaf as a function of the node.\<close>

lemma verified_branch:
  fixes spec
  defines "n \<equiv> ts_nb_leaves spec"
  assumes n: "0 < n" and keys: "leaf_keys spec pks" and l: "l < n"
    and run: "verify_branch_cosign_partial_sigs X (tree_of X spec utxo) agg (ts_vtxos spec ! l) nonces sigs = Ok ()"
  shows "\<exists>sg. sigs = map sg (branch_nodes n l) \<and>
     (\<forall>k \<in> set (branch_nodes n l). node_sig_ok X spec utxo agg k (pks ! l) (nonces ! level_of n k) (sg k))"
proof -
  let ?ks = "branch_nodes n l"
  have br: "(iter_branch \<lparr>tr_nodes = tree_nodes n, tr_nb_leaves = n\<rparr> l :: (string, Node list) outcome)
       = Ok (map (\<lambda>k. tree_nodes n ! k) ?ks)" and up: "up_path n None ?ks"
    using leaf_branch_nodes [OF n l] by auto
  have loop: "verify_branch_loop X (tree_of X spec utxo) agg (pks ! l) 0 nonces sigs (map (\<lambda>k. tree_nodes n ! k) ?ks) = Ok ()"
    and len: "length sigs = length ?ks"
    using run l leaf_keysD(3) [OF keys, of l] leaf_idx_of_leaf [OF keys, of l] br
    by (auto simp: verify_branch_cosign_partial_sigs_def simp flip: n_def split: if_splits)
  have ok: "\<forall>j < length ?ks. node_sig_ok X spec utxo agg (?ks ! j) (pks ! l) (nonces ! level_of n (?ks ! j)) (sigs ! j)"
    using verify_branch_loop_Ok [OF n [unfolded n_def] up [unfolded n_def], of 0 sigs X utxo agg "pks ! l" nonces] loop len
    by (simp flip: n_def)
  define sg where "sg k = the (map_of (zip ?ks sigs) k)" for k
  have sg: "sg (?ks ! j) = sigs ! j" if "j < length ?ks" for j
    using that len by (simp add: sg_def map_of_zip_nth)
  then have "sigs = map sg ?ks" using len by (simp add: list_eq_iff_nth_eq)
  moreover have "node_sig_ok X spec utxo agg k (pks ! l) (nonces ! level_of n k) (sg k)" if k: "k \<in> set ?ks" for k
  proof -
    from k obtain j where "j < length ?ks" "k = ?ks ! j" by (metis in_set_conv_nth)
    then show ?thesis using ok sg by simp
  qed
  ultimately show ?thesis by blast
qed

lemma cosign_combines:
  assumes laws: "musig_laws X"
    and tree: "(UnsignedVtxoTree_new X spec utxo :: ('e, UnsignedVtxoTree) outcome) = Ok u"
    and keys: "leaf_keys spec pks" and global: "ts_global_cosign_pubkeys spec = [ext_public_key X key]"
    and nonces: "list_all2 (nonce_for X key) secs pubs" "length secs = ts_nb_nodes spec"
    and agg: "calculate_cosign_agg_nonces X spec user_nonces [pubs] = Ok agg"
    and verified: "\<And>l. l < ts_nb_leaves spec \<Longrightarrow> \<exists>ns sigs. user_nonces (pks ! l) = Some ns \<and> part_sigs (pks ! l) = Some sigs \<and>
        verify_branch_cosign_partial_sigs X u agg (ts_vtxos spec ! l) ns sigs = Ok ()"
  shows "\<exists>srv sigs. (cosign_tree X u agg key secs :: ('f, PartialSignature list) outcome) = Ok srv \<and>
     combine_partial_signatures X u agg part_sigs [srv] = Ok sigs \<and>
     length sigs = ts_nb_nodes spec \<and> verify_cosign_sigs X u sigs = Ok ()"
proof -
  let ?n = "ts_nb_leaves spec" and ?N = "tree_size (ts_nb_leaves spec)"
  note ok = UnsignedVtxoTree_new_Ok [OF tree]
  have u: "u = tree_of X spec utxo" by (rule UnsignedVtxoTree_new_is [OF tree])
  have N: "ts_nb_nodes spec = ?N" by (rule ts_nb_nodes_eq [OF ok(1)])
  note aggs = agg_nonces_run [OF ok(1) keys global agg]
  have len: "length agg = ?N" "length secs = ?N" "length pubs = ?N"
    using aggs(1) nonces N by (simp_all add: list_all2_lengthD)
  define srv where "srv = map (\<lambda>(node, sn). cosign_node X u agg key node sn) (zip (tree_nodes ?n) secs)"
  have srv: "(cosign_tree X u agg key secs :: ('f, PartialSignature list) outcome) = Ok srv"
    using len ok(1) by (simp add: cosign_tree_def srv_def ut_nb_nodes_def nb_nodes_def u length_tree_nodes)
  have len_srv: "length srv = ?N" using len ok(1) by (simp add: srv_def length_tree_nodes)
  have "\<exists>sg. part_sigs (pks ! l) = Some (map sg (branch_nodes ?n l)) \<and> (\<forall>k \<in> set (branch_nodes ?n l).
       node_sig_ok X spec utxo agg k (pks ! l) (the (user_nonces (pks ! l)) ! level_of ?n k) (sg k))" if l: "l < ?n" for l
  proof -
    obtain ns sigs where v: "user_nonces (pks ! l) = Some ns" "part_sigs (pks ! l) = Some sigs"
      "verify_branch_cosign_partial_sigs X (tree_of X spec utxo) agg (ts_vtxos spec ! l) ns sigs = Ok ()"
      using verified [OF l] by (auto simp: u)
    show ?thesis using verified_branch [OF ok(1) keys l v(3)] v(1,2) by auto
  qed
  then obtain sg where sg: "\<And>l. l < ?n \<Longrightarrow> part_sigs (pks ! l) = Some (map (sg l) (branch_nodes ?n l))"
    "\<And>l k. l < ?n \<Longrightarrow> k \<in> set (branch_nodes ?n l) \<Longrightarrow>
       node_sig_ok X spec utxo agg k (pks ! l) (the (user_nonces (pks ! l)) ! level_of ?n k) (sg l k)"
    by metis
  define sigs where "sigs = map (\<lambda>k. node_sig X spec utxo agg (map (\<lambda>l. sg l k) (leaf_list ?n k) @ [srv ! k]) k) [0..<?N]"
  have nodes: "map (\<lambda>k. tree_nodes ?n ! k) [0..<?N] = tree_nodes ?n"
    using ok(1) by (simp add: list_eq_iff_nth_eq length_tree_nodes)
  have "combine_loop X u agg [srv] 0 (tree_nodes ?n) part_sigs = Ok sigs"
    using combine_loop_run [OF ok(1) keys global len_srv aggs(1), of 0 part_sigs sg X utxo] sg(1)
    by (simp add: nodes sigs_def u)
  then have "combine_partial_signatures X u agg part_sigs [srv] = Ok sigs"
    using len_srv ok(1) by (simp add: combine_partial_signatures_def global u ut_nb_nodes_def nb_nodes_def length_tree_nodes)
  moreover have "ext_verify_schnorr X (sigs ! k) (tree_sighash X spec utxo k)
      (ext_output_key X (ts_cosign_taproot X spec (node_pk X spec k)))" if k: "k < ?N" for k
  proof -
    have leaves: "l < ?n \<and> k \<in> set (branch_nodes ?n l)" if "l \<in> set (leaf_list ?n k)" for l
      using that k ok(1) ark_tree.leaves_bound [of k "?n - 1" l] by (simp add: set_branch_nodes tree_node_leaves)
    have keys_of: "node_cosign_pubkeys spec (tree_nodes ?n ! k) = map (\<lambda>l. pks ! l) (leaf_list ?n k) @ [ext_public_key X key]"
      using map_filter_leaf_keys [OF keys, of "leaf_list ?n k"] leaves k ok(1)
      by (simp add: node_cosign_pubkeys_def tree_node_leaves global)
    let ?t = "ts_cosign_taproot X spec (node_pk X spec k)" and ?keys = "node_cosign_pubkeys spec (tree_nodes ?n ! k)"
    let ?ns = "map (\<lambda>l. the (user_nonces (pks ! l)) ! level_of ?n k) (leaf_list ?n k) @ [pubs ! k]"
    have mine: "node_sig_ok X spec utxo agg k (ext_public_key X key) (pubs ! k) (srv ! k)"
    proof -
      have "nonce_for X key (secs ! k) (pubs ! k)" using nonces(1) k len by (simp add: list_all2_conv_all_nth)
      from nonce_for_verifies [OF laws this] show ?thesis
        using k len ok(1) by (simp add: node_sig_ok_def srv_def length_tree_nodes cosign_node_def tree_node_idx u
            partial_sign_def session_agg_def Let_def tweaked_key_agg_def keys_of)
    qed
    have "ext_verify_schnorr X (ext_partial_sig_agg X (tweaked_key_agg ?keys (ext_tap_tweak X ?t)) (nonce_agg X ?ns)
        (tree_sighash X spec utxo k) (map (\<lambda>l. sg l k) (leaf_list ?n k) @ [srv ! k]))
        (tree_sighash X spec utxo k) (ext_output_key X ?t)"
    proof (rule musig_aggregate [OF laws])
      show "internal_key ?t = combine_keys X ?keys"
        by (simp add: ts_cosign_taproot_def cosign_taproot_def node_pk_def)
      fix i
      assume i: "i < length ?keys"
      show "ext_partial_verify X (tweaked_key_agg ?keys (ext_tap_tweak X ?t)) (nonce_agg X ?ns) (tree_sighash X spec utxo k)
          ((map (\<lambda>l. sg l k) (leaf_list ?n k) @ [srv ! k]) ! i) (?ns ! i) (?keys ! i)"
      proof (cases "i < length (leaf_list ?n k)")
        case True
        then have "leaf_list ?n k ! i \<in> set (leaf_list ?n k)" by simp
        from sg(2) [of "leaf_list ?n k ! i" k] leaves [OF this] show ?thesis
          using True aggs(2) [OF k] by (simp add: node_sig_ok_def keys_of nth_append)
      next
        case False
        then have "i = length (leaf_list ?n k)" using i by (simp add: keys_of)
        then show ?thesis using mine aggs(2) [OF k] by (simp add: node_sig_ok_def keys_of nth_append)
      qed
    qed (simp_all add: keys_of)
    then show ?thesis using k aggs(2) [OF k] by (simp add: sigs_def node_sig_def)
  qed
  then have "verify_cosign_sigs X u sigs = Ok ()"
    using verify_cosign_sigs_Ok [OF ok tree, of sigs] by (simp add: sigs_def)
  ultimately show ?thesis using srv N by (auto simp: sigs_def)
qed

end
