(* ===== verification/Ark_Round.thy ===== *)
theory Ark_Round
  imports Ark_Round_Payments Ark_Tree_Cosign Ark_Forfeit
begin

text \<open>
  Rounds, second part: cosigning the VTXO tree, collecting the forfeit signatures, finishing, and the coordinator that
  drives a round through these states (\<open>server/src/round/mod.rs\<close>). \<open>perform_round\<close> waits for messages and
  timeouts; the model is the step it takes at each of them. Between two steps the other handlers of the server run, so
  a step starts in any state of the server.
\<close>

section \<open>Signing the tree\<close>

datatype RoundError = Recoverable string | Fatal string

record SigningVtxoTree =
  sg_round_data :: RoundData
  sg_expiry_height :: BlockHeight
  sg_cosign_key :: Keypair
  sg_cosign_sec_nonces :: "SecretNonce list"
  sg_cosign_pub_nonces :: "PublicNonce list"
  sg_cosign_part_sigs :: "(PublicKey \<times> PartialSignature list) list"
  sg_cosign_agg_nonces :: "AggregatedNonce list"
  sg_unsigned_vtxo_tree :: UnsignedVtxoTree
  sg_round_tx :: Transaction
  sg_round_txid :: Txid
  sg_connector_key :: Keypair
  sg_all_inputs :: "(VtxoId \<times> Vtxo) list"
  sg_user_cosign_nonces :: "PublicKey \<rightharpoonup> PublicNonce list"
  sg_inputs_per_cosigner :: "(PublicKey \<times> VtxoId list) list"
  sg_locked_inputs :: VtxoFluxLock
  sg_common_round_tx_input :: OutPoint
  sg_round_seq :: nat
  sg_attempt_seq :: nat
  sg_proceed :: bool

definition UNSPENDABLE :: PublicKey where
  "UNSPENDABLE =
     [3, 21, 117, 164, 195, 173, 57, 117, 144, 204, 247, 170, 151, 82, 10, 96, 99,
      92, 50, 21, 4, 121, 118, 175, 185, 223, 34, 11, 198, 180, 36, 27, 13]"

definition height_after :: "BlockHeight \<Rightarrow> BlockDelta \<Rightarrow> ('e, BlockHeight) outcome" where
  "height_after tip delta =
     (if unat tip + unat delta < 2 ^ 32 then Ok (tip + ucast delta) else panic ''attempt to add with overflow'')"

text \<open>The dummy VTXO of the server that a round without outputs gets, with its key and nonces.\<close>

definition add_change ::
  "externals \<Rightarrow> server_env \<Rightarrow> VtxoParticipant list \<Rightarrow>
   (server, 'e, (SignedVtxoRequest \<times> Keypair \<times> SecretNonce list) option \<times> VtxoParticipant list) action" where
  "add_change X env all_outputs =
     (if all_outputs = [] then
        abind (ask (we_keypair (en_world env))) (\<lambda>cosign_key.
        abind (nonce_pairs (cf_nb_round_nonces (en_config env)) X cosign_key) (\<lambda>(secs, pubs).
        let req = \<lparr>sr_vtxo = \<lparr>vr_amount = P2WSH_DUST, vr_policy = Pubkey UNSPENDABLE\<rparr>,
                   sr_cosign_pubkey = Some (ext_public_key X cosign_key)\<rparr>
        in areturn (Some (req, cosign_key, secs), [\<lparr>pa_req = req, pa_nonces = pubs\<rparr>])))
      else areturn (None, all_outputs))"

text \<open>
  The recipients of the round transaction, in order. The sum of the leaves panics on overflow.
\<close>

definition round_recipients ::
  "externals \<Rightarrow> VtxoTreeSpec \<Rightarrow> nat \<Rightarrow> PublicKey \<Rightarrow> OffboardRequest list \<Rightarrow> ('e, TxOut list) outcome" where
  "round_recipients X spec nb_inputs connector_pk offboards =
     and_then (connector_output X nb_inputs connector_pk) (\<lambda>connector_output.
     if u64_limit \<le> total_required_value spec then panic ''Amount addition error''
     else Ok (funding_tx_txout X spec # connector_output # map to_txout offboards))"

definition trusted_height :: "server_env \<Rightarrow> BlockHeight \<Rightarrow> BlockHeight option" where
  "trusted_height env tip =
     (let n = cf_untrusted_input_confirmations (en_config env) in
      if n = 0 then None else Some (word_of_nat (unat tip - unat (word_of_nat n - 1 :: u32))))"

text \<open>\<open>collect\<close> into a hash map, in which later entries replace earlier ones.\<close>

definition collect_user_nonces :: "VtxoParticipant list \<Rightarrow> PublicKey \<rightharpoonup> PublicNonce list" where
  "collect_user_nonces outputs =
     map_of (rev (List.map_filter (\<lambda>p. map_option (\<lambda>pk. (pk, pa_nonces p)) (sr_cosign_pubkey (pa_req p))) outputs))"

definition sign_change ::
  "externals \<Rightarrow> UnsignedVtxoTree \<Rightarrow> AggregatedNonce list \<Rightarrow> (SignedVtxoRequest \<times> Keypair \<times> SecretNonce list) option \<Rightarrow>
   ('e, (PublicKey \<times> PartialSignature list) list) outcome" where
  "sign_change X tree agg_nonces change =
     (case change of
        None \<Rightarrow> Ok []
      | Some (req, key, secs) \<Rightarrow>
          and_then (expect (leaf_idx_of (ut_spec tree) req) ''have change request'') (\<lambda>idx.
          case cosign_branch X tree agg_nonces idx key secs of
            Inr sigs \<Rightarrow> Ok [(ext_public_key X key, sigs)]
          | Inl (Err _) \<Rightarrow> panic ''correct key''
          | Inl (Panic m) \<Rightarrow> panic m))"

definition CollectingPayments_progress ::
  "externals \<Rightarrow> server_env \<Rightarrow> CollectingPayments \<Rightarrow> (server, RoundError, SigningVtxoTree) action" where
  "CollectingPayments_progress X env cp =
     abind (ask (we_tip (en_world env))) (\<lambda>tip.
     abind (alift (height_after tip (cf_vtxo_lifetime (en_config env)))) (\<lambda>expiry_height.
     abind (add_change X env (cp_all_outputs cp)) (\<lambda>(change_vtxo, all_outputs).
     abind (alift (VtxoTreeSpec_new (map pa_req all_outputs) (ext_public_key X (en_server_key env)) expiry_height
              (cf_vtxo_exit_delta (en_config env)) [ext_public_key X (cp_cosign_key cp)])) (\<lambda>spec.
     if cf_nb_round_nonces (en_config env) < ts_nb_nodes spec
     then apanic ''assertion failed: nb_nodes <= srv.config.nb_round_nonces''
     else
     abind (ask (we_keypair (en_world env))) (\<lambda>connector_key.
     abind (alift (round_recipients X spec (length (cp_all_inputs cp)) (ext_public_key X connector_key) (cp_all_offboards cp))) (\<lambda>recipients.
     abind (ask (\<lambda>t. we_build_round_tx (en_world env) t (trusted_height env tip) (cp_common_round_tx_input cp) recipients
              (cf_round_tx_feerate (en_config env)))) (\<lambda>built.
     abind (alift (map_err Recoverable (from_result built))) (\<lambda>unsigned_round_tx.
     abind (alift (case cp_common_round_tx_input cp of
                     Some i \<Rightarrow> Ok i
                   | None \<Rightarrow> expect (map_option previous_output (peek (tx_input unsigned_round_tx)))
                               ''funded round tx should have an input'')) (\<lambda>common_round_tx_input.
     abind (nonce_pairs (ts_nb_nodes spec) X (cp_cosign_key cp)) (\<lambda>(secs, pubs).
     abind (alift (map_err Recoverable (calculate_cosign_agg_nonces X spec (collect_user_nonces all_outputs) [pubs]))) (\<lambda>agg_nonces.
     abind (broadcast_event (EvVtxoProposal \<lparr>vp_round_seq = cp_round_seq cp, vp_attempt_seq = cp_attempt_seq cp,
              vp_unsigned_round_tx = unsigned_round_tx, vp_vtxos_spec = spec, vp_cosign_agg_nonces = agg_nonces\<rparr>)) (\<lambda>_.
     let round_txid = ext_txid X unsigned_round_tx in
     abind (alift (UnsignedVtxoTree_new X spec \<lparr>op_txid = round_txid, op_vout = ROUND_TX_VTXO_TREE_VOUT\<rparr>)) (\<lambda>tree.
     abind (alift (sign_change X tree agg_nonces change_vtxo)) (\<lambda>part_sigs.
     areturn \<lparr>sg_round_data = cp_round_data cp, sg_expiry_height = expiry_height, sg_cosign_key = cp_cosign_key cp,
       sg_cosign_sec_nonces = secs, sg_cosign_pub_nonces = pubs, sg_cosign_part_sigs = part_sigs,
       sg_cosign_agg_nonces = agg_nonces, sg_unsigned_vtxo_tree = tree, sg_round_tx = unsigned_round_tx,
       sg_round_txid = round_txid, sg_connector_key = connector_key, sg_all_inputs = cp_all_inputs cp,
       sg_user_cosign_nonces = collect_user_nonces all_outputs, sg_inputs_per_cosigner = cp_inputs_per_cosigner cp,
       sg_locked_inputs = cp_locked_inputs cp, sg_common_round_tx_input = common_round_tx_input,
       sg_round_seq = cp_round_seq cp, sg_attempt_seq = cp_attempt_seq cp, sg_proceed = (change_vtxo \<noteq> None)\<rparr>))))))))))))))"

definition register_signature ::
  "externals \<Rightarrow> PublicKey \<Rightarrow> PartialSignature list \<Rightarrow> SigningVtxoTree \<Rightarrow> (string, SigningVtxoTree) outcome" where
  "register_signature X pubkey signatures sg =
     (if pubkey \<in> fst ` set (sg_cosign_part_sigs sg) then err ''duplicate signatures for pubkey''
      else
        and_then (ok_or (List.find (\<lambda>v. sr_cosign_pubkey v = Some pubkey) (ts_vtxos (ut_spec (sg_unsigned_vtxo_tree sg))))
                    ''pubkey is not part of cosigner group'') (\<lambda>req.
        and_then (expect (sg_user_cosign_nonces sg pubkey) ''vtxo part of round'') (\<lambda>nonces.
        and_then (map_err (\<lambda>_. ''invalid partial signatures'')
                    (verify_branch_cosign_partial_sigs X (sg_unsigned_vtxo_tree sg) (sg_cosign_agg_nonces sg) req nonces signatures)) (\<lambda>_.
        let part_sigs = sg_cosign_part_sigs sg @ [(pubkey, signatures)] in
        Ok (sg\<lparr>sg_cosign_part_sigs := part_sigs,
               sg_proceed := (if length part_sigs = ts_nb_leaves (ut_spec (sg_unsigned_vtxo_tree sg)) then True else sg_proceed sg)\<rparr>)))))"

text \<open>\<open>restart\<close>: the inputs of cosigners that did not sign are not allowed in the next attempt.\<close>

definition allowed_after_signing :: "SigningVtxoTree \<Rightarrow> VtxoId set" where
  "allowed_after_signing sg =
     fold (\<lambda>(pk, vtxos) allowed. if pk \<in> fst ` set (sg_cosign_part_sigs sg) then allowed else allowed - set vtxos)
       (sg_inputs_per_cosigner sg) (fst ` set (sg_all_inputs sg))"

definition SigningVtxoTree_restart :: "server_env \<Rightarrow> SigningVtxoTree \<Rightarrow> (server, 'e, CollectingPayments) action" where
  "SigningVtxoTree_restart env sg =
     CollectingPayments_new env (sg_round_seq sg) (sg_attempt_seq sg + 1) (sg_round_data sg) (sg_locked_inputs sg)
       (Some (allowed_after_signing sg)) (Some (sg_common_round_tx_input sg))"

section \<open>Forfeits\<close>

record SigningForfeits =
  sf_round_data :: RoundData
  sf_expiry_height :: BlockHeight
  sf_forfeit_sec_nonces :: "(VtxoId \<times> SecretNonce list) list option"
  sf_forfeit_pub_nonces :: "(VtxoId \<times> PublicNonce list) list"
  sf_forfeit_part_sigs :: "(VtxoId \<times> PublicNonce list \<times> PartialSignature list) list"
  sf_signed_vtxos :: CachedSignedVtxoTree
  sf_all_inputs :: "(VtxoId \<times> Vtxo) list"
  sf_locked_inputs :: VtxoFluxLock
  sf_connectors :: ConnectorChain
  sf_connector_key :: Keypair
  sf_round_tx :: Transaction
  sf_common_round_tx_input :: OutPoint
  sf_round_seq :: nat
  sf_attempt_seq :: nat
  sf_proceed :: bool

text \<open>The nonces for the forfeits: for each input one pair for each connector.\<close>

fun forfeit_nonces ::
  "externals \<Rightarrow> server_env \<Rightarrow> nat \<Rightarrow> VtxoId list \<Rightarrow>
   (server, 'e, (VtxoId \<times> SecretNonce list) list \<times> (VtxoId \<times> PublicNonce list) list) action" where
  "forfeit_nonces X env n [] = areturn ([], [])"
| "forfeit_nonces X env n (i # is) =
     abind (nonce_pairs n X (en_server_key env)) (\<lambda>(secs, pubs).
     abind (forfeit_nonces X env n is) (\<lambda>(all_secs, all_pubs). areturn ((i, secs) # all_secs, (i, pubs) # all_pubs)))"

definition expect_result :: "string \<Rightarrow> ('e, 'a) outcome \<Rightarrow> ('f, 'a) outcome" where
  "expect_result m r = (case r of Inr x \<Rightarrow> Ok x | Inl (Err _) \<Rightarrow> panic m | Inl (Panic p) \<Rightarrow> panic p)"

definition SigningVtxoTree_progress ::
  "externals \<Rightarrow> server_env \<Rightarrow> SigningVtxoTree \<Rightarrow> (server, 'e, SigningForfeits) action" where
  "SigningVtxoTree_progress X env sg =
     (let tree = sg_unsigned_vtxo_tree sg; ids = map fst (sg_all_inputs sg) in
     abind (alift (cosign_tree X tree (sg_cosign_agg_nonces sg) (sg_cosign_key sg) (sg_cosign_sec_nonces sg))) (\<lambda>srv_cosign_sigs.
     abind (alift (expect_result ''failed to combine partial vtxo cosign signatures: should have checked partials''
              (combine_partial_signatures X tree (sg_cosign_agg_nonces sg) (map_of (sg_cosign_part_sigs sg)) [srv_cosign_sigs]))) (\<lambda>cosign_sigs.
     abind (alift (into_cached_tree X (into_signed_tree tree cosign_sigs))) (\<lambda>signed_vtxos.
     abind (forfeit_nonces X env (length ids) ids) (\<lambda>(sec_nonces, pub_nonces).
     abind (broadcast_event (EvRoundProposal \<lparr>rp_round_seq = sg_round_seq sg, rp_attempt_seq = sg_attempt_seq sg,
              rp_cosign_sigs = st_cosign_sigs (ct_spec signed_vtxos), rp_forfeit_nonces = pub_nonces,
              rp_connector_pubkey = ext_public_key X (sg_connector_key sg)\<rparr>)) (\<lambda>_.
     abind (alift (ConnectorChain_new X (length ids) \<lparr>op_txid = sg_round_txid sg, op_vout = ROUND_TX_CONNECTOR_VOUT\<rparr>
              (ext_public_key X (sg_connector_key sg)))) (\<lambda>connectors.
     areturn \<lparr>sf_round_data = sg_round_data sg, sf_expiry_height = sg_expiry_height sg,
       sf_forfeit_sec_nonces = Some sec_nonces, sf_forfeit_pub_nonces = pub_nonces, sf_forfeit_part_sigs = [],
       sf_signed_vtxos = signed_vtxos, sf_all_inputs = sg_all_inputs sg, sf_locked_inputs = sg_locked_inputs sg,
       sf_connectors = connectors, sf_connector_key = sg_connector_key sg, sf_round_tx = sg_round_tx sg,
       sf_common_round_tx_input = sg_common_round_tx_input sg, sf_round_seq = sg_round_seq sg,
       sf_attempt_seq = sg_attempt_seq sg, sf_proceed = False\<rparr>)))))))"

fun validate_forfeit_loop ::
  "externals \<Rightarrow> Vtxo \<Rightarrow> PublicKey \<Rightarrow> KeyAggCache \<Rightarrow> PublicNonce list \<Rightarrow> PublicNonce list \<Rightarrow> PartialSignature list \<Rightarrow>
   nat \<Rightarrow> connector list \<Rightarrow> (string, unit) outcome" where
  "validate_forfeit_loop X vtxo connector_pk agg server_nonces user_nonces part_sigs idx [] = Ok ()"
| "validate_forfeit_loop X vtxo connector_pk agg server_nonces user_nonces part_sigs idx ((conn, _) # rest) =
     and_then (connector_forfeit_sighash_exit X vtxo conn connector_pk) (\<lambda>(sighash, _).
     and_then (expect (nth_opt part_sigs idx) ''we checked length'') (\<lambda>part_sig.
     and_then (expect (nth_opt server_nonces idx) ''we checked length'') (\<lambda>server_nonce.
     and_then (expect (nth_opt user_nonces idx) ''we checked length'') (\<lambda>user_nonce.
     if \<not> ext_partial_verify X agg (nonce_agg X [user_nonce, server_nonce]) sighash part_sig user_nonce (vtxo_user_pubkey vtxo)
     then err ''Invalid partial forfeit signature''
     else validate_forfeit_loop X vtxo connector_pk agg server_nonces user_nonces part_sigs (idx + 1) rest))))"

definition validate_forfeit_sigs ::
  "externals \<Rightarrow> Vtxo \<Rightarrow> ConnectorChain \<Rightarrow> PublicKey \<Rightarrow> PublicNonce list \<Rightarrow> PublicNonce list \<Rightarrow> PartialSignature list \<Rightarrow>
   (string, unit) outcome" where
  "validate_forfeit_sigs X vtxo chain connector_pk server_nonces user_nonces part_sigs =
     (if length user_nonces \<noteq> cc_len chain \<or> length part_sigs \<noteq> cc_len chain
      then err ''not enough forfeit signatures provided''
      else
        and_then (checked_output_taproot X vtxo) (\<lambda>taproot.
        and_then (connector_iter_collect X (\<lambda>_. 0) (connectors chain)) (\<lambda>conns.
        validate_forfeit_loop X vtxo connector_pk
          (tweaked_key_agg [vtxo_user_pubkey vtxo, v_server_pubkey vtxo] (ext_tap_tweak X taproot))
          server_nonces user_nonces part_sigs 0 conns)))"

text \<open>Signatures that do not verify and signatures for other VTXOs are ignored.\<close>

fun add_forfeits ::
  "externals \<Rightarrow> SigningForfeits \<Rightarrow> (VtxoId \<times> PublicNonce list \<times> PartialSignature list) list \<Rightarrow>
   (VtxoId \<times> PublicNonce list \<times> PartialSignature list) list \<Rightarrow>
   ('e, (VtxoId \<times> PublicNonce list \<times> PartialSignature list) list) outcome" where
  "add_forfeits X sf [] part_sigs = Ok part_sigs"
| "add_forfeits X sf ((i, nonces, sigs) # rest) part_sigs =
     (case map_of (sf_all_inputs sf) i of
        None \<Rightarrow> add_forfeits X sf rest part_sigs
      | Some vtxo \<Rightarrow>
          and_then (expect (map_of (sf_forfeit_pub_nonces sf) i) ''vtxo part of round'') (\<lambda>server_nonces.
          case validate_forfeit_sigs X vtxo (sf_connectors sf) (ext_public_key X (sf_connector_key sf)) server_nonces nonces sigs of
            Inr _ \<Rightarrow> add_forfeits X sf rest (AList.update i (nonces, sigs) part_sigs)
          | Inl (Err _) \<Rightarrow> add_forfeits X sf rest part_sigs
          | Inl (Panic m) \<Rightarrow> panic m))"

definition register_forfeits ::
  "externals \<Rightarrow> (VtxoId \<times> PublicNonce list \<times> PartialSignature list) list \<Rightarrow> SigningForfeits \<Rightarrow> (string, SigningForfeits) outcome" where
  "register_forfeits X signatures sf =
     and_then (add_forfeits X sf signatures (sf_forfeit_part_sigs sf)) (\<lambda>part_sigs.
     Ok (sf\<lparr>sf_forfeit_part_sigs := part_sigs,
            sf_proceed := (if length part_sigs = length (sf_all_inputs sf) then True else sf_proceed sf)\<rparr>))"

definition restart_missing_forfeits ::
  "server_env \<Rightarrow> VtxoId set option \<Rightarrow> SigningForfeits \<Rightarrow> (server, 'e, CollectingPayments) action" where
  "restart_missing_forfeits env missing sf =
     (let ids = fst ` set (sf_all_inputs sf);
          allowed_inputs = (case missing of
            Some missing \<Rightarrow> {i \<in> ids. i \<notin> missing}
          | None \<Rightarrow> {i \<in> ids. i \<in> fst ` set (sf_forfeit_part_sigs sf)})
      in CollectingPayments_new env (sf_round_seq sf) (sf_attempt_seq sf + 1) (sf_round_data sf) (sf_locked_inputs sf)
           (Some allowed_inputs) (Some (sf_common_round_tx_input sf)))"

definition check_forfeits :: "SigningForfeits \<Rightarrow> VtxoId set option" where
  "check_forfeits sf =
     (let missing = {i \<in> fst ` set (sf_all_inputs sf). i \<notin> fst ` set (sf_forfeit_part_sigs sf)}
      in if missing \<noteq> {} then Some missing else None)"

section \<open>Finishing\<close>

text \<open>The state that is stored for each input. The maps' entries are removed as they are used; the inputs are distinct.\<close>

fun forfeit_states ::
  "Txid \<Rightarrow> (VtxoId \<times> PublicNonce list \<times> PartialSignature list) list \<Rightarrow> (VtxoId \<times> PublicNonce list) list \<Rightarrow>
   (VtxoId \<times> SecretNonce list) list \<Rightarrow> VtxoId list \<Rightarrow> ('e, (VtxoId \<times> ForfeitState) list) outcome" where
  "forfeit_states round_txid part_sigs pub_nonces sec_nonces [] = Ok []"
| "forfeit_states round_txid part_sigs pub_nonces sec_nonces (i # is) =
     and_then (expect (map_of part_sigs i) ''missing part sigs'') (\<lambda>(nonces, sigs).
     and_then (expect (map_of pub_nonces i) ''missing vtxo'') (\<lambda>pubs.
     and_then (expect (map_of sec_nonces i) ''missing vtxo'') (\<lambda>secs.
     and_then (forfeit_states round_txid (AList.delete i part_sigs) (AList.delete i pub_nonces) (AList.delete i sec_nonces) is) (\<lambda>rest.
     Ok ((i, \<lparr>fs_round_id = round_txid, fs_user_nonces = nonces, fs_user_part_sigs = sigs, fs_pub_nonces = pubs,
              fs_sec_nonces = secs\<rparr>) # rest)))))"

text \<open>That the wallet's changes cannot be persisted is only logged.\<close>

definition finish :: "externals \<Rightarrow> server_env \<Rightarrow> SigningForfeits \<Rightarrow> (server, RoundError, unit) action" where
  "finish X env sf =
     abind (ask (\<lambda>t. we_finish_tx (en_world env) t (sf_round_tx sf))) (\<lambda>r.
     abind (alift (map_err Recoverable (from_result r))) (\<lambda>signed.
     abind (ask (\<lambda>t. we_broadcast_tx (en_world env) t signed)) (\<lambda>r.
     abind (alift (map_err Fatal (from_result r))) (\<lambda>signed_round_tx.
     abind (broadcast_event (EvFinished \<lparr>rf_round_seq = sf_round_seq sf, rf_attempt_seq = sf_attempt_seq sf,
              rf_signed_round_tx = signed_round_tx\<rparr>)) (\<lambda>_.
     abind (alift (expect (sf_forfeit_sec_nonces sf) ''called `Option::unwrap()` on a `None` value'')) (\<lambda>sec_nonces.
     abind (alift (forfeit_states (ext_txid X signed_round_tx) (sf_forfeit_part_sigs sf) (sf_forfeit_pub_nonces sf) sec_nonces
              (map fst (sf_all_inputs sf)))) (\<lambda>forfeit_vtxos.
     amap_err Fatal (on_db env (db_finish_round X (sf_round_seq sf) signed_round_tx (sf_signed_vtxos sf) (sf_connector_key sf) forfeit_vtxos)))))))))"

section \<open>The coordinator\<close>

datatype RoundResult = REmpty | RAbandoned | RSuccess | RErr RoundError

datatype RoundState =
    Collecting CollectingPayments
  | SigningTree SigningVtxoTree
  | Forfeiting SigningForfeits
  | Finished RoundResult

text \<open>A message comes with a channel for an error; the client may be gone.\<close>

datatype round_event =
    Timeout
  | Incoming RoundInput bool

text \<open>The head of the loop \<open>'attempt\<close>.\<close>

definition begin_attempt :: "CollectingPayments \<Rightarrow> (server, 'e, RoundState) action" where
  "begin_attempt cp =
     abind (\<lambda>s. let (l, f) = release_all (cp_locked_inputs cp) (sv_flux s) in (Ok l, s\<lparr>sv_flux := f\<rparr>)) (\<lambda>lock.
     abind (broadcast_event (EvAttempt \<lparr>ra_round_seq = cp_round_seq cp, ra_attempt_seq = cp_attempt_seq cp,
              ra_challenge = cp_challenge cp\<rparr>)) (\<lambda>_.
     areturn (Collecting (cp\<lparr>cp_locked_inputs := lock\<rparr>))))"

definition start_round :: "server_env \<Rightarrow> nat \<Rightarrow> (server, 'e, RoundState) action" where
  "start_round env round_seq =
     (let round_data = \<lparr>da_max_output_vtxos = cf_nb_round_nonces (en_config env) * 3 div 4,
            da_nb_vtxo_nonces = cf_nb_round_nonces (en_config env),
            da_offboard_feerate = cf_round_tx_feerate (en_config env),
            da_max_vtxo_amount = cf_max_vtxo_amount (en_config env)\<rparr> in
      abind (\<lambda>s. let (l, f) = into_owned empty_lock (sv_flux s) in (Ok l, s\<lparr>sv_flux := f\<rparr>)) (\<lambda>lock.
      abind (CollectingPayments_new env round_seq 0 round_data lock None None) begin_attempt))"

fun total_input_amount :: "Amount \<Rightarrow> (VtxoId \<times> Vtxo) list \<Rightarrow> ('e, Amount) outcome" where
  "total_input_amount acc [] = Ok acc"
| "total_input_amount acc ((i, v) # rest) = and_then (amount_add acc (v_amount v)) (\<lambda>acc'. total_input_amount acc' rest)"

definition to_forfeits :: "externals \<Rightarrow> server_env \<Rightarrow> SigningVtxoTree \<Rightarrow> RoundState handler" where
  "to_forfeits X env sg = abind (SigningVtxoTree_progress X env sg) (\<lambda>sf. areturn (Forfeiting sf))"

text \<open>After the payments were received. A round that ends drops its state, and with it the lock.\<close>

definition close_payments :: "externals \<Rightarrow> server_env \<Rightarrow> CollectingPayments \<Rightarrow> RoundState handler" where
  "close_payments X env cp =
     abind (alift (total_input_amount 0 (cp_all_inputs cp))) (\<lambda>_.
     if \<not> have_payments cp then abind (free_lock (cp_locked_inputs cp)) (\<lambda>_. areturn (Finished REmpty))
     else
       abind (atry (CollectingPayments_progress X env cp)) (\<lambda>r.
       case r of
         Inl e \<Rightarrow> abind (free_lock (cp_locked_inputs cp)) (\<lambda>_. areturn (Finished (RErr e)))
       | Inr sg \<Rightarrow> if sg_proceed sg then to_forfeits X env sg else areturn (SigningTree sg)))"

definition retry :: "CollectingPayments \<Rightarrow> RoundState handler" where
  "retry cp =
     abind (alift (need_new_round cp)) (\<lambda>abandon.
     if abandon then abind (free_lock (cp_locked_inputs cp)) (\<lambda>_. areturn (Finished RAbandoned))
     else begin_attempt cp)"

definition close_forfeits :: "externals \<Rightarrow> server_env \<Rightarrow> SigningForfeits \<Rightarrow> RoundState handler" where
  "close_forfeits X env sf =
     (case check_forfeits sf of
        Some missing \<Rightarrow> abind (restart_missing_forfeits env (Some missing) sf) begin_attempt
      | None \<Rightarrow>
          abind (atry (finish X env sf)) (\<lambda>r.
          abind (free_lock (sf_locked_inputs sf)) (\<lambda>_.
          areturn (Finished (case r of Inl e \<Rightarrow> RErr e | Inr _ \<Rightarrow> RSuccess)))))"

text \<open>\<open>tx.send(e).expect("broken channel")\<close>\<close>

definition refuse :: "bool \<Rightarrow> RoundState \<Rightarrow> RoundState handler" where
  "refuse connected st = (if connected then areturn st else apanic ''broken channel'')"

fun round_step :: "externals \<Rightarrow> server_env \<Rightarrow> round_event \<Rightarrow> RoundState \<Rightarrow> RoundState handler" where
  "round_step X env Timeout (Collecting cp) = close_payments X env cp"
| "round_step X env (Incoming msg connected) (Collecting cp) =
     (case msg of
        RegisterPayment inputs vtxo_requests offboards \<Rightarrow>
          abind (atry (process_payment X env inputs vtxo_requests offboards cp)) (\<lambda>r.
          case r of
            Inl e \<Rightarrow> refuse connected (Collecting cp)
          | Inr cp' \<Rightarrow> if cp_proceed cp' then close_payments X env cp' else areturn (Collecting cp'))
      | _ \<Rightarrow> refuse connected (Collecting cp))"
| "round_step X env Timeout (SigningTree sg) = abind (SigningVtxoTree_restart env sg) retry"
| "round_step X env (Incoming msg connected) (SigningTree sg) =
     (case msg of
        VtxoSignatures pubkey signatures \<Rightarrow>
          abind (atry (alift (register_signature X pubkey signatures sg))) (\<lambda>r.
          case r of
            Inl e \<Rightarrow> refuse connected (SigningTree sg)
          | Inr sg' \<Rightarrow> if sg_proceed sg' then to_forfeits X env sg' else areturn (SigningTree sg'))
      | _ \<Rightarrow> refuse connected (SigningTree sg))"
| "round_step X env Timeout (Forfeiting sf) = abind (restart_missing_forfeits env None sf) retry"
| "round_step X env (Incoming msg connected) (Forfeiting sf) =
     (case msg of
        ForfeitSignatures signatures \<Rightarrow>
          abind (alift (register_forfeits X signatures sf)) (\<lambda>sf'.
          if sf_proceed sf' then close_forfeits X env sf' else areturn (Forfeiting sf'))
      | _ \<Rightarrow> refuse connected (Forfeiting sf))"
| "round_step X env ev (Finished r) = areturn (Finished r)"

end
