(* ===== verification/Ark_Round_Fair.thy ===== *)
theory Ark_Round_Fair
  imports Ark_Round
begin

text \<open>
  What a round of the server achieves: an invariant of its states that holds whatever the clients send and the other
  handlers do between its steps, and what it means for a round to have finished.
\<close>

section \<open>An honest cosigner is accepted\<close>

lemma verify_branch_loop_run:
  fixes spec
  defines "n \<equiv> ts_nb_leaves spec"
  assumes n: "0 < n" and agg: "length agg = tree_size n"
  shows "up_path n below ks \<Longrightarrow> (ks \<noteq> [] \<longrightarrow> pos \<le> level_of n (hd ks)) \<Longrightarrow>
    \<forall>k \<in> set ks. level_of n k < length all \<and> node_sig_ok X spec utxo agg k pk (all ! level_of n k) (sg k) \<Longrightarrow>
    verify_branch_loop X (tree_of X spec utxo) agg pk pos (drop pos all) (map sg ks) (map (\<lambda>k. tree_nodes n ! k) ks) = Ok ()"
proof (induction ks arbitrary: below pos)
  case (Cons k ks)
  have k: "k < tree_size n" using Cons.prems(1) by simp
  have level: "nd_level (tree_nodes n ! k) = level_of n k" using n k by (simp add: tree_nodes_nth tree_node_def)
  have nonce: "next_nonce (level_of n k) pos (drop pos all)
      = Some (all ! level_of n k, Suc (level_of n k), drop (Suc (level_of n k)) all)"
    using Cons.prems by (intro next_nonce_drop) simp_all
  have "ks \<noteq> [] \<longrightarrow> Suc (level_of n k) \<le> level_of n (hd ks)"
    using Cons.prems(1) level_of_parent [of k n] by (cases ks) auto
  with Cons.prems have "verify_branch_loop X (tree_of X spec utxo) agg pk (Suc (level_of n k)) (drop (Suc (level_of n k)) all)
      (map sg ks) (map (\<lambda>k. tree_nodes n ! k) ks) = Ok ()"
    by (intro Cons.IH [of "Some k"]) simp_all
  moreover have "verify_node_cosign_partial_sig X (tree_of X spec utxo) (tree_nodes n ! k) pk agg (sg k) (all ! level_of n k) = Ok ()"
    using verify_node_Ok [of spec k] n k agg Cons.prems(3) by (simp add: n_def)
  ultimately show ?case using nonce level by simp
qed simp

lemma cosign_branch_verifies:
  fixes spec
  defines "n \<equiv> ts_nb_leaves spec"
  assumes laws: "musig_laws X" and n: "0 < n" and keys: "leaf_keys spec pks" and l: "l < n"
    and key: "pks ! l = ext_public_key X key" and agg: "length agg = tree_size n"
    and nonces: "list_all2 (nonce_for X key) secs pubs" "tree_size n \<le> length secs"
  shows "\<exists>sigs. cosign_branch X (tree_of X spec utxo) agg l key secs = Ok sigs \<and>
    verify_branch_cosign_partial_sigs X (tree_of X spec utxo) agg (ts_vtxos spec ! l) pubs sigs = Ok ()"
proof -
  let ?ks = "branch_nodes n l" and ?u = "tree_of X spec utxo"
  let ?sg = "\<lambda>k. cosign_node X ?u agg key (tree_nodes n ! k) (secs ! level_of n k)"
  note branch = leaf_branch_nodes [OF n l]
  have up: "up_path n None ?ks" using branch by blast
  have len: "length pubs = length secs" using nonces(1) by (simp add: list_all2_lengthD)
  have node: "k < tree_size n" "l \<in> set (leaf_list n k)" "level_of n k < length secs" if "k \<in> set ?ks" for k
    using that level_of_le [OF n, of k] nonces(2) by (auto simp: set_branch_nodes)
  have req: "sr_cosign_pubkey (ts_vtxos spec ! l) = Some (pks ! l)" by (rule leaf_keysD(3) [OF keys]) (use l n_def in simp)
  have "cosign_branch_loop X ?u agg key 0 secs (map (\<lambda>k. tree_nodes n ! k) ?ks) =
      (Ok (map ?sg ?ks) :: (IncorrectSigningKeyError, PartialSignature list) outcome)"
    using cosign_branch_loop_run [OF n _ up, of agg secs 0] node agg by simp
  then have signed: "cosign_branch X ?u agg l key secs = Ok (map ?sg ?ks)"
    using branch [where 'e = IncorrectSigningKeyError] req key l
    by (simp add: cosign_branch_def nth_opt_def ts_nb_leaves_def [symmetric] flip: n_def)
  have sig: "node_sig_ok X spec utxo agg k (pks ! l) (pubs ! level_of n k) (?sg k)" if k: "k \<in> set ?ks" for k
  proof -
    have "nonce_for X key (secs ! level_of n k) (pubs ! level_of n k)"
      using nonces(1) node(3) [OF k] by (simp add: list_all2_conv_all_nth)
    moreover have "ext_public_key X key \<in> set (node_cosign_pubkeys spec (tree_nodes n ! k))"
      using node(1,2) [OF k] req key n
      by (auto simp: node_cosign_pubkeys_def tree_node_leaves List.map_filter_def intro!: image_eqI [of _ _ l])
    ultimately show ?thesis
      using nonce_for_verifies [OF laws] node(1) [OF k] key n
      by (simp add: node_sig_ok_def cosign_node_def partial_sign_def session_agg_def tree_node_idx tweaked_key_agg_def
          Let_def flip: n_def)
  qed
  have "verify_branch_loop X ?u agg (pks ! l) 0 pubs (map ?sg ?ks) (map (\<lambda>k. tree_nodes n ! k) ?ks) = Ok ()"
    using verify_branch_loop_run [of spec agg None ?ks 0 pubs X utxo "pks ! l" ?sg] up sig node n agg len
    by (simp flip: n_def)
  then have "verify_branch_cosign_partial_sigs X ?u agg (ts_vtxos spec ! l) pubs (map ?sg ?ks) = Ok ()"
    using branch [where 'e = string] req leaf_idx_of_leaf [OF keys] l agg n
    by (simp add: verify_branch_cosign_partial_sigs_def ut_nb_nodes_def nb_nodes_def length_tree_nodes flip: n_def)
  with signed show ?thesis by blast
qed

section \<open>The world of a round\<close>

text \<open>
  What the rounds wallet and the node do: a built transaction has the recipients as its first outputs and an input;
  signing only adds witnesses; a transaction is broadcast as it is.
\<close>

definition wallet_laws :: "world \<Rightarrow> bool" where
  "wallet_laws w \<longleftrightarrow>
     (\<forall>t h c rs fee tx. we_build_round_tx w t h c rs fee = Inr tx \<longrightarrow> take (length rs) (tx_output tx) = rs \<and> tx_input tx \<noteq> []) \<and>
     (\<forall>t tx tx'. we_finish_tx w t tx = Inr tx' \<longrightarrow> strip_witness tx' = strip_witness tx) \<and>
     (\<forall>t tx tx'. we_broadcast_tx w t tx = Inr tx' \<longrightarrow> tx' = tx)"

text \<open>Participants that the RPC layer parsed have a cosign key.\<close>

definition keyed :: "VtxoParticipant list \<Rightarrow> bool" where
  "keyed ps \<longleftrightarrow> list_all (\<lambda>p. sr_cosign_pubkey (pa_req p) \<noteq> None) ps"

lemma try_from_keyed: "VtxoParticipant_try_from X from_slice v = Ok p \<Longrightarrow> keyed [p]"
  by (auto simp: VtxoParticipant_try_from_def keyed_def and_then_eq_Inr)

lemma keyed_keys: "keyed ps \<Longrightarrow> map (\<lambda>p. sr_cosign_pubkey (pa_req p)) ps = map Some (cosign_keys ps)"
  by (induction ps) (auto simp: keyed_def cosign_keys_def List.map_filter_simps)

lemma collect_user_nonces_at:
  assumes "keyed ps" "distinct (cosign_keys ps)" "l < length ps"
  shows "collect_user_nonces ps (cosign_keys ps ! l) = Some (pa_nonces (ps ! l))"
proof -
  have "List.map_filter (\<lambda>p. map_option (\<lambda>pk. (pk, pa_nonces p)) (sr_cosign_pubkey (pa_req p))) ps = zip (cosign_keys ps) (map pa_nonces ps)"
    using assms(1) by (induction ps) (auto simp: keyed_def cosign_keys_def List.map_filter_simps)
  moreover have "length (cosign_keys ps) = length ps" using arg_cong [OF keyed_keys [OF assms(1)], of length] by simp
  ultimately show ?thesis
    using assms(2,3) map_of_inject_set [of "rev (zip (cosign_keys ps) (map pa_nonces ps))" "zip (cosign_keys ps) (map pa_nonces ps)"]
    by (simp add: collect_user_nonces_def map_of_zip_nth rev_map [symmetric])
qed

section \<open>The states of a round\<close>

text \<open>The funding of the tree and the chain of connectors are outputs of the round transaction.\<close>

definition round_tx_ok :: "externals \<Rightarrow> VtxoTreeSpec \<Rightarrow> nat \<Rightarrow> PublicKey \<Rightarrow> Transaction \<Rightarrow> bool" where
  "round_tx_ok X spec nb_inputs connector_pk tx \<longleftrightarrow>
     nth_opt (tx_output tx) 0 = Some (funding_tx_txout X spec) \<and>
     nth_opt (tx_output tx) 1 = Some \<lparr>txo_value = P2TR_DUST * nb_inputs, txo_script = connector_output_script X connector_pk\<rparr>"

definition spec_ok :: "VtxoTreeSpec \<Rightarrow> bool" where
  "spec_ok spec \<longleftrightarrow> 0 < ts_nb_leaves spec \<and> ts_locktimes_ok spec \<and> total_required_value spec < u64_limit \<and>
     (\<forall>i < ts_nb_leaves spec. P2TR_DUST \<le> leaf_amount spec i)"

definition inputs_ok :: "(VtxoId \<times> Vtxo) list \<Rightarrow> bool" where
  "inputs_ok ins \<longleftrightarrow> ins \<noteq> [] \<and> distinct (map fst ins) \<and> (\<forall>(i, v) \<in> set ins. vtxo_id v = i) \<and>
     P2TR_DUST * length ins < u64_limit"

text \<open>
  The payments that were registered when the transaction was built: the inputs of the round are theirs, the leaves are
  their outputs (or the dummy of the server), and their offboards are outputs of the transaction.
\<close>

definition for_payments ::
  "externals \<Rightarrow> server_env \<Rightarrow> CollectingPayments \<Rightarrow> (VtxoId \<times> Vtxo) list \<Rightarrow> VtxoTreeSpec \<Rightarrow> Transaction \<Rightarrow> bool" where
  "for_payments X env cp ins spec tx \<longleftrightarrow>
     payments_ok X env cp \<and> ins = cp_all_inputs cp \<and>
     (cp_all_outputs cp \<noteq> [] \<longrightarrow> ts_vtxos spec = map pa_req (cp_all_outputs cp)) \<and>
     take (length (cp_all_offboards cp)) (drop 2 (tx_output tx)) = map to_txout (cp_all_offboards cp)"

text \<open>While the tree is signed, every partial signature that was registered verifies for its leaf.\<close>

definition signing_ok :: "externals \<Rightarrow> server_env \<Rightarrow> SigningVtxoTree \<Rightarrow> bool" where
  "signing_ok X env sg \<longleftrightarrow> (\<exists>spec pks utxo cp.
     for_payments X env cp (sg_all_inputs sg) spec (sg_round_tx sg) \<and>
     sg_unsigned_vtxo_tree sg = tree_of X spec utxo \<and> spec_ok spec \<and> leaf_keys spec pks \<and>
     utxo = \<lparr>op_txid = ext_txid X (sg_round_tx sg), op_vout = ROUND_TX_VTXO_TREE_VOUT\<rparr> \<and>
     sg_round_txid sg = ext_txid X (sg_round_tx sg) \<and>
     round_tx_ok X spec (length (sg_all_inputs sg)) (ext_public_key X (sg_connector_key sg)) (sg_round_tx sg) \<and>
     ts_global_cosign_pubkeys spec = [ext_public_key X (sg_cosign_key sg)] \<and>
     list_all2 (nonce_for X (sg_cosign_key sg)) (sg_cosign_sec_nonces sg) (sg_cosign_pub_nonces sg) \<and>
     length (sg_cosign_sec_nonces sg) = ts_nb_nodes spec \<and>
     calculate_cosign_agg_nonces X spec (sg_user_cosign_nonces sg) [sg_cosign_pub_nonces sg] = Ok (sg_cosign_agg_nonces sg) \<and>
     inputs_ok (sg_all_inputs sg) \<and> distinct (map fst (sg_cosign_part_sigs sg)) \<and>
     (\<forall>(pk, sigs) \<in> set (sg_cosign_part_sigs sg). \<exists>l < ts_nb_leaves spec. \<exists>ns. pk = pks ! l \<and>
        sg_user_cosign_nonces sg pk = Some ns \<and>
        verify_branch_cosign_partial_sigs X (sg_unsigned_vtxo_tree sg) (sg_cosign_agg_nonces sg) (ts_vtxos spec ! l) ns sigs = Ok ()) \<and>
     (sg_proceed sg \<longrightarrow> length (sg_cosign_part_sigs sg) = ts_nb_leaves spec))"

text \<open>
  While forfeits are collected, the tree is signed and the forfeit signatures that were registered verify for their
  inputs, one for each connector.
\<close>

definition tree_signed :: "externals \<Rightarrow> Transaction \<Rightarrow> VtxoTreeSpec \<Rightarrow> CachedSignedVtxoTree \<Rightarrow> bool" where
  "tree_signed X tx spec ct \<longleftrightarrow> (\<exists>utxo sigs.
     utxo = \<lparr>op_txid = ext_txid X tx, op_vout = ROUND_TX_VTXO_TREE_VOUT\<rparr> \<and>
     verify_cosign_sigs X (tree_of X spec utxo) sigs = Ok () \<and> ct = cached_tree X spec utxo sigs)"

definition forfeit_ok :: "externals \<Rightarrow> Transaction \<Rightarrow> Keypair \<Rightarrow> (VtxoId \<times> Vtxo) list \<Rightarrow> PublicNonce list \<Rightarrow> Vtxo \<Rightarrow>
    PublicNonce list \<times> PartialSignature list \<Rightarrow> bool" where
  "forfeit_ok X tx connector_key ins pubs v s \<longleftrightarrow>
     validate_forfeit_sigs X v
       \<lparr>cc_len = length ins, cc_spk = connector_output_script X (ext_public_key X connector_key),
        cc_utxo = \<lparr>op_txid = ext_txid X tx, op_vout = ROUND_TX_CONNECTOR_VOUT\<rparr>\<rparr>
       (ext_public_key X connector_key) pubs (fst s) (snd s) = Ok ()"

definition forfeits_ok :: "externals \<Rightarrow> server_env \<Rightarrow> SigningForfeits \<Rightarrow> bool" where
  "forfeits_ok X env sf \<longleftrightarrow> (\<exists>spec secs cp.
     for_payments X env cp (sf_all_inputs sf) spec (sf_round_tx sf) \<and>
     spec_ok spec \<and> inputs_ok (sf_all_inputs sf) \<and> tree_signed X (sf_round_tx sf) spec (sf_signed_vtxos sf) \<and>
     round_tx_ok X spec (length (sf_all_inputs sf)) (ext_public_key X (sf_connector_key sf)) (sf_round_tx sf) \<and>
     sf_connectors sf = \<lparr>cc_len = length (sf_all_inputs sf), cc_spk = connector_output_script X (ext_public_key X (sf_connector_key sf)),
        cc_utxo = \<lparr>op_txid = ext_txid X (sf_round_tx sf), op_vout = ROUND_TX_CONNECTOR_VOUT\<rparr>\<rparr> \<and>
     sf_forfeit_sec_nonces sf = Some secs \<and>
     map fst secs = map fst (sf_all_inputs sf) \<and> map fst (sf_forfeit_pub_nonces sf) = map fst (sf_all_inputs sf) \<and>
     list_all2 (\<lambda>(i, ss) (j, ps). length ss = length (sf_all_inputs sf) \<and> list_all2 (nonce_for X (en_server_key env)) ss ps) secs (sf_forfeit_pub_nonces sf) \<and>
     distinct (map fst (sf_forfeit_part_sigs sf)) \<and>
     (\<forall>(i, s) \<in> set (sf_forfeit_part_sigs sf). \<exists>v pubs. map_of (sf_all_inputs sf) i = Some v \<and>
        map_of (sf_forfeit_pub_nonces sf) i = Some pubs \<and>
        forfeit_ok X (sf_round_tx sf) (sf_connector_key sf) (sf_all_inputs sf) pubs v s) \<and>
     (sf_proceed sf \<longrightarrow> length (sf_forfeit_part_sigs sf) = length (sf_all_inputs sf)))"

definition data_ok :: "server_env \<Rightarrow> RoundData \<Rightarrow> bool" where
  "data_ok env d \<longleftrightarrow> da_nb_vtxo_nonces d = cf_nb_round_nonces (en_config env) \<and>
     da_max_output_vtxos d = cf_nb_round_nonces (en_config env) * 3 div 4"

fun round_ok :: "externals \<Rightarrow> server_env \<Rightarrow> RoundState \<Rightarrow> bool" where
  "round_ok X env (Collecting cp) \<longleftrightarrow> payments_ok X env cp \<and> keyed (cp_all_outputs cp) \<and> data_ok env (cp_round_data cp)"
| "round_ok X env (SigningTree sg) \<longleftrightarrow> signing_ok X env sg \<and> data_ok env (sg_round_data sg)"
| "round_ok X env (Forfeiting sf) \<longleftrightarrow> forfeits_ok X env sf \<and> data_ok env (sf_round_data sf)"
| "round_ok X env (Finished r) \<longleftrightarrow> True"

section \<open>From payments to signatures\<close>

lemma nonce_pairs_Ok:
  assumes "(nonce_pairs n X key :: (server, 'e, _) action) s = (Ok (secs, pubs), t)"
  shows "length secs = n" "list_all2 (nonce_for X key) secs pubs" "same_tables s t"
  using nonce_pairs_run [of n X key s, where 'e = 'e] assms by auto

definition change_ok :: "externals \<Rightarrow> server_env \<Rightarrow> VtxoParticipant list \<Rightarrow>
    (SignedVtxoRequest \<times> Keypair \<times> SecretNonce list) option \<Rightarrow> VtxoParticipant list \<Rightarrow> bool" where
  "change_ok X env outs change ps \<longleftrightarrow>
     (case change of
        None \<Rightarrow> ps = outs \<and> outs \<noteq> []
      | Some (req, key, secs) \<Rightarrow> \<exists>pubs. ps = [\<lparr>pa_req = req, pa_nonces = pubs\<rparr>] \<and> outs = [] \<and>
          sr_cosign_pubkey req = Some (ext_public_key X key) \<and> sr_vtxo req = \<lparr>vr_amount = P2WSH_DUST, vr_policy = Pubkey UNSPENDABLE\<rparr> \<and>
          list_all2 (nonce_for X key) secs pubs \<and> length secs = cf_nb_round_nonces (en_config env))"

lemma add_change_Ok:
  assumes "(add_change X env outs :: (server, 'e, _) action) s = (Ok (change, ps), t)"
  shows "change_ok X env outs change ps"
proof (cases "outs = []")
  case True
  with assms obtain key s' secs pubs s'' where
    "(nonce_pairs (cf_nb_round_nonces (en_config env)) X key :: (server, 'e, _) action) s' = (Ok (secs, pubs), s'')"
    "change = Some (\<lparr>sr_vtxo = \<lparr>vr_amount = P2WSH_DUST, vr_policy = Pubkey UNSPENDABLE\<rparr>,
                   sr_cosign_pubkey = Some (ext_public_key X key)\<rparr>, key, secs)"
    "ps = [\<lparr>pa_req = \<lparr>sr_vtxo = \<lparr>vr_amount = P2WSH_DUST, vr_policy = Pubkey UNSPENDABLE\<rparr>,
                   sr_cosign_pubkey = Some (ext_public_key X key)\<rparr>, pa_nonces = pubs\<rparr>]"
    by (auto simp: add_change_def run_simps Let_def)
  with nonce_pairs_Ok [OF this(1)] True show ?thesis by (simp add: change_ok_def)
qed (use assms in \<open>simp add: add_change_def run_simps change_ok_def\<close>)

lemma change_ok_outputs:
  assumes "change_ok X env (cp_all_outputs cp) change ps" "payments_ok X env cp" "keyed (cp_all_outputs cp)" "data_ok env (cp_round_data cp)"
  shows "ps \<noteq> []" "keyed ps" "distinct (cosign_keys ps)"
    "\<forall>p \<in> set ps. P2TR_DUST \<le> vr_amount (sr_vtxo (pa_req p)) \<and> length (pa_nonces p) = cf_nb_round_nonces (en_config env)"
    "length ps \<le> cf_nb_round_nonces (en_config env) * 3 div 4 \<or> length ps = 1"
  using assms
  by (auto simp: change_ok_def payments_ok_def keyed_def cosign_keys_def List.map_filter_simps data_ok_def list_all_iff
      output_ok_def P2TR_DUST_def P2WSH_DUST_def list_all2_lengthD split: option.splits)

text \<open>The tree over a list of participants.\<close>

lemma spec_of_outputs:
  assumes "VtxoTreeSpec_new (map pa_req ps) server_pk expiry delta [pk] = Ok spec" "keyed ps" "distinct (cosign_keys ps)"
  shows "leaf_keys spec (cosign_keys ps)" "ts_nb_leaves spec = length ps" "0 < ts_nb_leaves spec" "ts_global_cosign_pubkeys spec = [pk]"
    "l < length ps \<Longrightarrow> leaf_amount spec l = vr_amount (sr_vtxo (pa_req (ps ! l)))" "l < length ps \<Longrightarrow> ts_vtxos spec ! l = pa_req (ps ! l)"
    "ts_vtxos spec = map pa_req ps"
  using assms keyed_keys [OF assms(2)]
  by (auto simp: VtxoTreeSpec_new_def leaf_keys_def ts_nb_leaves_def leaf_amount_def comp_def split: if_splits)

lemma sign_change_ok:
  assumes laws: "musig_laws X" and change: "change_ok X env outs change ps" and n: "0 < ts_nb_leaves spec"
    and spec: "leaf_keys spec (cosign_keys ps)" "ts_vtxos spec = map pa_req ps"
    and agg: "length agg = tree_size (ts_nb_leaves spec)" and fits: "ts_nb_nodes spec \<le> cf_nb_round_nonces (en_config env)"
    and run: "sign_change X (tree_of X spec utxo) agg change = (Ok part_sigs :: ('e, _) outcome)"
  shows "distinct (map fst part_sigs)"
    "\<forall>(pk, sigs) \<in> set part_sigs. \<exists>l < ts_nb_leaves spec. \<exists>ns. pk = cosign_keys ps ! l \<and> collect_user_nonces ps pk = Some ns \<and>
        verify_branch_cosign_partial_sigs X (tree_of X spec utxo) agg (ts_vtxos spec ! l) ns sigs = Ok ()"
    "change \<noteq> None \<longrightarrow> length part_sigs = ts_nb_leaves spec"
proof -
  have "distinct (map fst part_sigs) \<and>
    (\<forall>(pk, sigs) \<in> set part_sigs. \<exists>l < ts_nb_leaves spec. \<exists>ns. pk = cosign_keys ps ! l \<and> collect_user_nonces ps pk = Some ns \<and>
        verify_branch_cosign_partial_sigs X (tree_of X spec utxo) agg (ts_vtxos spec ! l) ns sigs = Ok ()) \<and>
    (change \<noteq> None \<longrightarrow> length part_sigs = ts_nb_leaves spec)"
  proof (cases change)
    case (Some c)
    obtain req key secs where c: "change = Some (req, key, secs)" using Some by (cases c) auto
    then obtain pubs where p: "ps = [\<lparr>pa_req = req, pa_nonces = pubs\<rparr>]" "sr_cosign_pubkey req = Some (ext_public_key X key)"
      "list_all2 (nonce_for X key) secs pubs" "length secs = cf_nb_round_nonces (en_config env)"
      using change by (auto simp: change_ok_def)
    have keys: "cosign_keys ps = [ext_public_key X key]" using p by (simp add: cosign_keys_def List.map_filter_simps)
    have one: "ts_nb_leaves spec = 1" using spec(2) p(1) by (simp add: ts_nb_leaves_def)
    obtain sigs where sigs: "cosign_branch X (tree_of X spec utxo) agg 0 key secs = Ok sigs"
      "verify_branch_cosign_partial_sigs X (tree_of X spec utxo) agg (ts_vtxos spec ! 0) pubs sigs = Ok ()"
      using cosign_branch_verifies [OF laws n spec(1) n, of key agg secs pubs utxo] p(3,4) keys agg fits n
      by (auto simp: ts_nb_nodes_eq)
    have "leaf_idx_of spec req = Some 0" using leaf_idx_of_leaf [OF spec(1) n] spec(2) p(1) by simp
    with run c sigs(1) have "part_sigs = [(ext_public_key X key, sigs)]" by (simp add: sign_change_def)
    moreover have "collect_user_nonces ps (ext_public_key X key) = Some pubs"
      using p by (simp add: collect_user_nonces_def List.map_filter_simps)
    ultimately show ?thesis using sigs(2) one keys by auto
  qed (use run in \<open>simp add: sign_change_def\<close>)
  then show "distinct (map fst part_sigs)"
    "\<forall>(pk, sigs) \<in> set part_sigs. \<exists>l < ts_nb_leaves spec. \<exists>ns. pk = cosign_keys ps ! l \<and> collect_user_nonces ps pk = Some ns \<and>
        verify_branch_cosign_partial_sigs X (tree_of X spec utxo) agg (ts_vtxos spec ! l) ns sigs = Ok ()"
    "change \<noteq> None \<longrightarrow> length part_sigs = ts_nb_leaves spec" by blast+
qed

lemma round_recipients_Ok:
  assumes "round_recipients X spec n pk offs = Ok rs"
  shows "rs = funding_tx_txout X spec # \<lparr>txo_value = P2TR_DUST * n, txo_script = connector_output_script X pk\<rparr> # map to_txout offs"
    "P2TR_DUST * n < u64_limit" "total_required_value spec < u64_limit"
  using assms by (auto simp: round_recipients_def connector_output_def required_budget_def and_then_eq_Inr split: if_splits)

lemma recipients_paid:
  assumes "take (length rs) (tx_output tx) = rs"
    "rs = funding_tx_txout X spec # \<lparr>txo_value = P2TR_DUST * n, txo_script = connector_output_script X pk\<rparr> # map to_txout offs"
  shows "round_tx_ok X spec n pk tx" "take (length offs) (drop 2 (tx_output tx)) = map to_txout offs"
proof -
  have nth: "nth_opt (tx_output tx) i = nth_opt rs i" if "i < length rs" for i
    using assms(1) that by (auto simp: nth_opt_def) (metis length_take min_less_iff_conj nth_take)+
  from nth [of 0] nth [of 1] show "round_tx_ok X spec n pk tx" by (simp add: assms(2) round_tx_ok_def)
  have "take (length offs) (drop 2 (tx_output tx)) = drop 2 (take (length rs) (tx_output tx))"
    by (simp add: assms(2) take_drop)
  then show "take (length offs) (drop 2 (tx_output tx)) = map to_txout offs" unfolding assms(1) by (simp add: assms(2))
qed

lemma collecting_progress_ok:
  assumes laws: "musig_laws X" and wallet: "wallet_laws (en_world env)"
    and cp: "payments_ok X env cp" "keyed (cp_all_outputs cp)" "data_ok env (cp_round_data cp)" "have_payments cp"
    and run: "CollectingPayments_progress X env cp s = (Ok sg, t)"
  shows "signing_ok X env sg" "data_ok env (sg_round_data sg)"
proof -
  from run obtain tip expiry change ps spec s1 s2 connector_key rs t3 tx common secs pubs s4 s5 agg utxo tree part_sigs where
    change: "(add_change X env (cp_all_outputs cp) :: (server, RoundError, _) action) s1 = (Ok (change, ps), s2)"
    and spec: "(VtxoTreeSpec_new (map pa_req ps) (ext_public_key X (en_server_key env)) expiry
        (cf_vtxo_exit_delta (en_config env)) [ext_public_key X (cp_cosign_key cp)] :: (RoundError, _) outcome) = Ok spec"
    and fits: "\<not> cf_nb_round_nonces (en_config env) < ts_nb_nodes spec"
    and rs: "(round_recipients X spec (length (cp_all_inputs cp)) (ext_public_key X connector_key) (cp_all_offboards cp) :: (RoundError, _) outcome) = Ok rs"
    and tx: "we_build_round_tx (en_world env) t3 (trusted_height env tip) (cp_common_round_tx_input cp) rs
              (cf_round_tx_feerate (en_config env)) = Inr tx"
    and nonces: "(nonce_pairs (ts_nb_nodes spec) X (cp_cosign_key cp) :: (server, RoundError, _) action) s4 = (Ok (secs, pubs), s5)"
    and agg: "calculate_cosign_agg_nonces X spec (collect_user_nonces ps) [pubs] = Ok agg"
    and utxo: "utxo = \<lparr>op_txid = ext_txid X tx, op_vout = ROUND_TX_VTXO_TREE_VOUT\<rparr>"
    and tree: "(UnsignedVtxoTree_new X spec utxo :: (RoundError, _) outcome) = Ok tree"
    and signed: "(sign_change X tree agg change :: (RoundError, _) outcome) = Ok part_sigs"
    and sg: "sg = \<lparr>sg_round_data = cp_round_data cp, sg_expiry_height = expiry, sg_cosign_key = cp_cosign_key cp,
       sg_cosign_sec_nonces = secs, sg_cosign_pub_nonces = pubs, sg_cosign_part_sigs = part_sigs,
       sg_cosign_agg_nonces = agg, sg_unsigned_vtxo_tree = tree, sg_round_tx = tx,
       sg_round_txid = ext_txid X tx, sg_connector_key = connector_key, sg_all_inputs = cp_all_inputs cp,
       sg_user_cosign_nonces = collect_user_nonces ps, sg_inputs_per_cosigner = cp_inputs_per_cosigner cp,
       sg_locked_inputs = cp_locked_inputs cp, sg_common_round_tx_input = common,
       sg_round_seq = cp_round_seq cp, sg_attempt_seq = cp_attempt_seq cp, sg_proceed = (change \<noteq> None)\<rparr>"
    unfolding CollectingPayments_progress_def
    by (auto simp: run_simps run_effects from_result_Ok Let_def split: if_splits prod.splits)
  note c = add_change_Ok [OF change]
  note ps = change_ok_outputs [OF c cp(1,2,3)]
  note sp = spec_of_outputs [OF spec ps(2,3)]
  note u = UnsignedVtxoTree_new_is [OF tree]
  note r = round_recipients_Ok [OF rs]
  note paid = recipients_paid [OF _ r(1), of tx]
  have take_rs: "take (length rs) (tx_output tx) = rs" using wallet tx by (simp add: wallet_laws_def)
  have spec_ok: "spec_ok spec"
    using UnsignedVtxoTree_new_Ok [OF tree] r(3) ps(4) sp(2,5) by (auto simp: spec_ok_def)
  have len: "length agg = tree_size (ts_nb_leaves spec)" by (rule agg_nonces_run(1) [OF sp(3,1,4) agg])
  note ch = sign_change_ok [OF laws c sp(3,1,7) len _ signed [unfolded u]]
  have "for_payments X env cp (cp_all_inputs cp) spec tx"
    using cp(1) paid(2) [OF take_rs] sp(7) c by (auto simp: for_payments_def change_ok_def split: option.splits)
  moreover have "inputs_ok (cp_all_inputs cp)" using cp(1,4) r(2) by (auto simp: inputs_ok_def payments_ok_def have_payments_def)
  ultimately show "signing_ok X env sg"
    unfolding signing_ok_def
    using spec_ok sp(1,4) paid(1) [OF take_rs] nonce_pairs_Ok(1,2) [OF nonces] agg ch fits u utxo
    by (intro exI [of _ spec] exI [of _ "cosign_keys ps"] exI [of _ utxo] exI [of _ cp]) (simp add: sg not_less)
  show "data_ok env (sg_round_data sg)" using cp(3) by (simp add: sg)
qed

section \<open>From signatures to forfeits\<close>

lemma register_signature_ok:
  assumes ok: "signing_ok X env sg" and run: "register_signature X pk sigs sg = Ok sg'"
  shows "signing_ok X env sg'" "sg_round_data sg' = sg_round_data sg"
proof -
  obtain spec pks utxo cp where sg: "sg_unsigned_vtxo_tree sg = tree_of X spec utxo" "leaf_keys spec pks"
      "\<forall>(pk, sigs) \<in> set (sg_cosign_part_sigs sg). \<exists>l < ts_nb_leaves spec. \<exists>ns. pk = pks ! l \<and>
        sg_user_cosign_nonces sg pk = Some ns \<and>
        verify_branch_cosign_partial_sigs X (sg_unsigned_vtxo_tree sg) (sg_cosign_agg_nonces sg) (ts_vtxos spec ! l) ns sigs = Ok ()"
      "distinct (map fst (sg_cosign_part_sigs sg))" "sg_proceed sg \<longrightarrow> length (sg_cosign_part_sigs sg) = ts_nb_leaves spec"
    and rest: "for_payments X env cp (sg_all_inputs sg) spec (sg_round_tx sg)" "spec_ok spec"
      "utxo = \<lparr>op_txid = ext_txid X (sg_round_tx sg), op_vout = ROUND_TX_VTXO_TREE_VOUT\<rparr>"
      "sg_round_txid sg = ext_txid X (sg_round_tx sg)"
      "round_tx_ok X spec (length (sg_all_inputs sg)) (ext_public_key X (sg_connector_key sg)) (sg_round_tx sg)"
      "ts_global_cosign_pubkeys spec = [ext_public_key X (sg_cosign_key sg)]"
      "list_all2 (nonce_for X (sg_cosign_key sg)) (sg_cosign_sec_nonces sg) (sg_cosign_pub_nonces sg)"
      "length (sg_cosign_sec_nonces sg) = ts_nb_nodes spec"
      "calculate_cosign_agg_nonces X spec (sg_user_cosign_nonces sg) [sg_cosign_pub_nonces sg] = Ok (sg_cosign_agg_nonces sg)"
      "inputs_ok (sg_all_inputs sg)"
    using ok unfolding signing_ok_def by blast
  from run obtain req ns where r: "pk \<notin> fst ` set (sg_cosign_part_sigs sg)"
    "List.find (\<lambda>v. sr_cosign_pubkey v = Some pk) (ts_vtxos spec) = Some req" "sg_user_cosign_nonces sg pk = Some ns"
    "verify_branch_cosign_partial_sigs X (sg_unsigned_vtxo_tree sg) (sg_cosign_agg_nonces sg) req ns sigs = Ok ()"
    and sg': "sg' = sg\<lparr>sg_cosign_part_sigs := sg_cosign_part_sigs sg @ [(pk, sigs)],
       sg_proceed := (if length (sg_cosign_part_sigs sg @ [(pk, sigs)]) = ts_nb_leaves spec then True else sg_proceed sg)\<rparr>"
    by (auto simp: register_signature_def and_then_eq_Inr sg(1) ok_or_def expect_def Let_def split: if_splits option.splits)
  from r(2) obtain l where l: "l < ts_nb_leaves spec" "sr_cosign_pubkey (ts_vtxos spec ! l) = Some pk" "req = ts_vtxos spec ! l"
    unfolding find_Some_iff ts_nb_leaves_def by auto
  then have pk: "pk = pks ! l" using leaf_keysD(3) [OF sg(2) l(1)] by simp
  have full: "sg_proceed sg' \<longrightarrow> length (sg_cosign_part_sigs sg') = ts_nb_leaves spec"
  proof (cases "sg_proceed sg")
    case True
    have "set (map fst (sg_cosign_part_sigs sg)) \<subseteq> set pks - {pk}"
    proof
      fix k assume k: "k \<in> set (map fst (sg_cosign_part_sigs sg))"
      then obtain ss where "(k, ss) \<in> set (sg_cosign_part_sigs sg)" by auto
      then have "k \<in> set pks" using sg(3) leaf_keysD(1) [OF sg(2)] by force
      then show "k \<in> set pks - {pk}" using k r(1) by auto
    qed
    moreover have "pk \<in> set pks" using pk l(1) leaf_keysD(1) [OF sg(2)] by simp
    ultimately have "length (sg_cosign_part_sigs sg) < length pks"
      using card_mono [of "set pks - {pk}" "set (map fst (sg_cosign_part_sigs sg))"] distinct_card [OF sg(4)]
        card_Diff_singleton [of pk "set pks"] distinct_card [OF leaf_keysD(2) [OF sg(2)]] length_pos_if_in_set [of pk pks]
      by (cases pks) auto
    then show ?thesis using sg(5) True leaf_keysD(1) [OF sg(2)] by simp
  qed (simp add: sg')
  have new: "\<exists>l < ts_nb_leaves spec. \<exists>ns. pk = pks ! l \<and> sg_user_cosign_nonces sg pk = Some ns \<and>
        verify_branch_cosign_partial_sigs X (sg_unsigned_vtxo_tree sg) (sg_cosign_agg_nonces sg) (ts_vtxos spec ! l) ns sigs = Ok ()"
    using r(3,4) l(1,3) pk by blast
  have "\<forall>(pk, sigs) \<in> set (sg_cosign_part_sigs sg'). \<exists>l < ts_nb_leaves spec. \<exists>ns. pk = pks ! l \<and>
        sg_user_cosign_nonces sg' pk = Some ns \<and>
        verify_branch_cosign_partial_sigs X (sg_unsigned_vtxo_tree sg') (sg_cosign_agg_nonces sg') (ts_vtxos spec ! l) ns sigs = Ok ()"
    using sg(3) new by (simp add: sg')
  moreover have "distinct (map fst (sg_cosign_part_sigs sg'))" using sg(4) r(1) by (simp add: sg')
  moreover have fields: "sg_all_inputs sg' = sg_all_inputs sg" "sg_round_tx sg' = sg_round_tx sg" "sg_round_txid sg' = sg_round_txid sg"
    "sg_connector_key sg' = sg_connector_key sg" "sg_cosign_key sg' = sg_cosign_key sg" "sg_cosign_sec_nonces sg' = sg_cosign_sec_nonces sg"
    "sg_cosign_pub_nonces sg' = sg_cosign_pub_nonces sg" "sg_user_cosign_nonces sg' = sg_user_cosign_nonces sg"
    "sg_cosign_agg_nonces sg' = sg_cosign_agg_nonces sg" "sg_unsigned_vtxo_tree sg' = sg_unsigned_vtxo_tree sg"
    by (simp_all add: sg')
  ultimately show "signing_ok X env sg'"
    unfolding signing_ok_def fields using rest sg(1,2) full by blast
  show "sg_round_data sg' = sg_round_data sg" by (simp add: sg')
qed

lemma forfeit_nonces_Ok:
  "(forfeit_nonces X env n ids :: (server, 'e, _) action) s = (Ok (secs, pubs), t) \<Longrightarrow>
   map fst secs = ids \<and> map fst pubs = ids \<and>
   list_all2 (\<lambda>(i, ss) (j, ps). length ss = n \<and> list_all2 (nonce_for X (en_server_key env)) ss ps) secs pubs"
proof (induction ids arbitrary: secs pubs s)
  case (Cons i ids)
  then obtain ss ps secs' pubs' s' where r: "(nonce_pairs n X (en_server_key env) :: (server, 'e, _) action) s = (Ok (ss, ps), s')"
    "(forfeit_nonces X env n ids :: (server, 'e, _) action) s' = (Ok (secs', pubs'), t)" "secs = (i, ss) # secs'" "pubs = (i, ps) # pubs'"
    by (auto simp: run_simps split: prod.splits)
  from Cons.IH [OF r(2)] nonce_pairs_Ok [OF r(1)] r(3,4) show ?case by simp
qed (simp add: run_simps)

lemma all_leaves_signed:
  assumes "leaf_keys spec pks" "distinct (map fst m)" "length m = ts_nb_leaves spec" "set (map fst m) \<subseteq> set pks" "l < ts_nb_leaves spec"
  obtains sigs where "map_of m (pks ! l) = Some sigs" "(pks ! l, sigs) \<in> set m"
proof -
  note k = leaf_keysD [OF assms(1)]
  have "set (map fst m) = set pks"
    using card_subset_eq [OF _ assms(4)] distinct_card [OF assms(2)] distinct_card [OF k(2)] assms(3) k(1) by simp
  then have "pks ! l \<in> fst ` set m" using assms(5) k(1) by (metis list.set_map nth_mem)
  then show ?thesis using that assms(2) by (auto simp: map_of_is_SomeI)
qed

text \<open>With a signature for each leaf, the tree is signed.\<close>

lemma signing_combines:
  assumes laws: "musig_laws X" and ok: "signing_ok X env sg" and "sg_proceed sg"
  obtains spec utxo cp srv sigs where "for_payments X env cp (sg_all_inputs sg) spec (sg_round_tx sg)" "spec_ok spec" "inputs_ok (sg_all_inputs sg)"
    "round_tx_ok X spec (length (sg_all_inputs sg)) (ext_public_key X (sg_connector_key sg)) (sg_round_tx sg)"
    "sg_unsigned_vtxo_tree sg = tree_of X spec utxo" "sg_round_txid sg = ext_txid X (sg_round_tx sg)"
    "(cosign_tree X (tree_of X spec utxo) (sg_cosign_agg_nonces sg) (sg_cosign_key sg) (sg_cosign_sec_nonces sg)
        :: ('e, PartialSignature list) outcome) = Ok srv"
    "combine_partial_signatures X (tree_of X spec utxo) (sg_cosign_agg_nonces sg) (map_of (sg_cosign_part_sigs sg)) [srv] = Ok sigs"
    "(into_cached_tree X (into_signed_tree (tree_of X spec utxo) sigs) :: ('e, CachedSignedVtxoTree) outcome) = Ok (cached_tree X spec utxo sigs)"
    "tree_signed X (sg_round_tx sg) spec (cached_tree X spec utxo sigs)"
proof -
  obtain spec pks utxo cp where pay: "for_payments X env cp (sg_all_inputs sg) spec (sg_round_tx sg)" "spec_ok spec"
    and u: "sg_unsigned_vtxo_tree sg = tree_of X spec utxo" and keys: "leaf_keys spec pks"
    and utxo: "utxo = \<lparr>op_txid = ext_txid X (sg_round_tx sg), op_vout = ROUND_TX_VTXO_TREE_VOUT\<rparr>"
      "sg_round_txid sg = ext_txid X (sg_round_tx sg)"
    and tx: "round_tx_ok X spec (length (sg_all_inputs sg)) (ext_public_key X (sg_connector_key sg)) (sg_round_tx sg)"
    and sgn: "ts_global_cosign_pubkeys spec = [ext_public_key X (sg_cosign_key sg)]"
      "list_all2 (nonce_for X (sg_cosign_key sg)) (sg_cosign_sec_nonces sg) (sg_cosign_pub_nonces sg)"
      "length (sg_cosign_sec_nonces sg) = ts_nb_nodes spec"
      "calculate_cosign_agg_nonces X spec (sg_user_cosign_nonces sg) [sg_cosign_pub_nonces sg] = Ok (sg_cosign_agg_nonces sg)"
    and ins: "inputs_ok (sg_all_inputs sg)"
    and part: "distinct (map fst (sg_cosign_part_sigs sg))"
      "\<forall>(pk, sigs) \<in> set (sg_cosign_part_sigs sg). \<exists>l < ts_nb_leaves spec. \<exists>ns. pk = pks ! l \<and>
        sg_user_cosign_nonces sg pk = Some ns \<and>
        verify_branch_cosign_partial_sigs X (sg_unsigned_vtxo_tree sg) (sg_cosign_agg_nonces sg) (ts_vtxos spec ! l) ns sigs = Ok ()"
      "length (sg_cosign_part_sigs sg) = ts_nb_leaves spec"
    using ok assms(3) unfolding signing_ok_def by blast
  have new: "(UnsignedVtxoTree_new X spec utxo :: ('x, UnsignedVtxoTree) outcome) = Ok (tree_of X spec utxo)"
    using UnsignedVtxoTree_new_run [of spec X utxo] pay(2) by (simp add: tree_of_def spec_ok_def)
  have sub: "set (map fst (sg_cosign_part_sigs sg)) \<subseteq> set pks"
    using part(2) leaf_keysD(1) [OF keys] by force
  have verified: "\<exists>ns sigs. sg_user_cosign_nonces sg (pks ! l) = Some ns \<and> map_of (sg_cosign_part_sigs sg) (pks ! l) = Some sigs \<and>
      verify_branch_cosign_partial_sigs X (tree_of X spec utxo) (sg_cosign_agg_nonces sg) (ts_vtxos spec ! l) ns sigs = Ok ()"
    if l: "l < ts_nb_leaves spec" for l
  proof -
    obtain sigs where sigs: "map_of (sg_cosign_part_sigs sg) (pks ! l) = Some sigs" "(pks ! l, sigs) \<in> set (sg_cosign_part_sigs sg)"
      by (rule all_leaves_signed [OF keys part(1,3) sub l])
    then obtain l' ns where l': "l' < ts_nb_leaves spec" "pks ! l = pks ! l'" "sg_user_cosign_nonces sg (pks ! l) = Some ns"
      "verify_branch_cosign_partial_sigs X (sg_unsigned_vtxo_tree sg) (sg_cosign_agg_nonces sg) (ts_vtxos spec ! l') ns sigs = Ok ()"
      using part(2) by fastforce
    have "l' = l" using l'(1,2) l leaf_keysD(1,2) [OF keys] by (simp add: nth_eq_iff_index_eq)
    then show ?thesis using l' sigs(1) u by auto
  qed
  obtain srv sigs where sigs: "(cosign_tree X (tree_of X spec utxo) (sg_cosign_agg_nonces sg) (sg_cosign_key sg) (sg_cosign_sec_nonces sg)
        :: ('e, PartialSignature list) outcome) = Ok srv"
    "combine_partial_signatures X (tree_of X spec utxo) (sg_cosign_agg_nonces sg) (map_of (sg_cosign_part_sigs sg)) [srv] = Ok sigs"
    "length sigs = ts_nb_nodes spec" "verify_cosign_sigs X (tree_of X spec utxo) sigs = Ok ()"
    using cosign_combines [OF laws new keys sgn verified, where 'f = 'e] by blast
  have cached: "(into_cached_tree X (into_signed_tree (tree_of X spec utxo) sigs) :: ('e, CachedSignedVtxoTree) outcome) = Ok (cached_tree X spec utxo sigs)"
    using into_cached_tree_run [of spec sigs X utxo] sigs(3) pay(2) by (simp add: into_signed_tree_def spec_ok_def ts_nb_nodes_eq)
  have "tree_signed X (sg_round_tx sg) spec (cached_tree X spec utxo sigs)"
    using sigs(4) utxo(1) unfolding tree_signed_def by blast
  then show ?thesis using that [OF pay ins tx u utxo(2) sigs(1,2) cached] by blast
qed

lemma signing_progress_ok:
  assumes laws: "musig_laws X" and ok: "signing_ok X env sg" and "sg_proceed sg"
    and run: "(SigningVtxoTree_progress X env sg :: (server, 'e, _) action) s = (Ok sf, t)"
  shows "forfeits_ok X env sf" "sf_round_data sf = sg_round_data sg"
proof -
  obtain spec utxo cp srv sigs where pay: "for_payments X env cp (sg_all_inputs sg) spec (sg_round_tx sg)" "spec_ok spec" "inputs_ok (sg_all_inputs sg)"
    "round_tx_ok X spec (length (sg_all_inputs sg)) (ext_public_key X (sg_connector_key sg)) (sg_round_tx sg)"
    and u: "sg_unsigned_vtxo_tree sg = tree_of X spec utxo" and txid: "sg_round_txid sg = ext_txid X (sg_round_tx sg)"
    and sigs: "(cosign_tree X (tree_of X spec utxo) (sg_cosign_agg_nonces sg) (sg_cosign_key sg) (sg_cosign_sec_nonces sg)
        :: ('e, PartialSignature list) outcome) = Ok srv"
      "combine_partial_signatures X (tree_of X spec utxo) (sg_cosign_agg_nonces sg) (map_of (sg_cosign_part_sigs sg)) [srv] = Ok sigs"
    and cached: "(into_cached_tree X (into_signed_tree (tree_of X spec utxo) sigs) :: ('e, CachedSignedVtxoTree) outcome) = Ok (cached_tree X spec utxo sigs)"
    and signed: "tree_signed X (sg_round_tx sg) spec (cached_tree X spec utxo sigs)"
    by (rule signing_combines [OF laws ok assms(3), where 'e = 'e])
  from run obtain secs pubs s1 s2 where
    n: "(forfeit_nonces X env (length (sg_all_inputs sg)) (map fst (sg_all_inputs sg)) :: (server, 'e, _) action) s1 = (Ok (secs, pubs), s2)"
    and sf: "sf = \<lparr>sf_round_data = sg_round_data sg, sf_expiry_height = sg_expiry_height sg,
       sf_forfeit_sec_nonces = Some secs, sf_forfeit_pub_nonces = pubs, sf_forfeit_part_sigs = [],
       sf_signed_vtxos = cached_tree X spec utxo sigs, sf_all_inputs = sg_all_inputs sg, sf_locked_inputs = sg_locked_inputs sg,
       sf_connectors = \<lparr>cc_len = length (sg_all_inputs sg), cc_spk = connector_output_script X (ext_public_key X (sg_connector_key sg)),
          cc_utxo = \<lparr>op_txid = sg_round_txid sg, op_vout = ROUND_TX_CONNECTOR_VOUT\<rparr>\<rparr>,
       sf_connector_key = sg_connector_key sg, sf_round_tx = sg_round_tx sg,
       sf_common_round_tx_input = sg_common_round_tx_input sg, sf_round_seq = sg_round_seq sg,
       sf_attempt_seq = sg_attempt_seq sg, sf_proceed = False\<rparr>"
    unfolding SigningVtxoTree_progress_def Let_def u
    by (auto simp: run_simps run_effects sigs(1,2) cached expect_result_def ConnectorChain_new_def split: if_splits prod.splits)
  note ns = forfeit_nonces_Ok [OF n]
  show "forfeits_ok X env sf"
    unfolding forfeits_ok_def using pay ns txid signed
    by (intro exI [of _ spec] exI [of _ secs] exI [of _ cp]) (simp add: sf)
  show "sf_round_data sf = sg_round_data sg" by (simp add: sf)
qed

section \<open>Forfeits\<close>

definition forfeit_entry_ok :: "externals \<Rightarrow> SigningForfeits \<Rightarrow> VtxoId \<times> PublicNonce list \<times> PartialSignature list \<Rightarrow> bool" where
  "forfeit_entry_ok X sf e \<longleftrightarrow> (\<exists>v pubs. map_of (sf_all_inputs sf) (fst e) = Some v \<and>
     map_of (sf_forfeit_pub_nonces sf) (fst e) = Some pubs \<and>
     validate_forfeit_sigs X v (sf_connectors sf) (ext_public_key X (sf_connector_key sf)) pubs (fst (snd e)) (snd (snd e)) = Ok ())"

lemma set_update: "set (AList.update k v m) \<subseteq> insert (k, v) (set m)"
  by (induction m) auto

lemma add_forfeits_Ok:
  "add_forfeits X sf es m = (Ok m' :: ('e, _) outcome) \<Longrightarrow> distinct (map fst m) \<Longrightarrow> \<forall>e \<in> set m. forfeit_entry_ok X sf e \<Longrightarrow>
   distinct (map fst m') \<and> (\<forall>e \<in> set m'. forfeit_entry_ok X sf e)"
proof (induction es arbitrary: m)
  case (Cons e es)
  obtain i nonces sigs where e: "e = (i, nonces, sigs)" by (cases e)
  show ?case
  proof (cases "map_of (sf_all_inputs sf) i")
    case (Some v)
    then obtain pubs where pubs: "map_of (sf_forfeit_pub_nonces sf) i = Some pubs"
      using Cons.prems(1) e by (auto simp: and_then_eq_Inr expect_def split: option.splits)
    show ?thesis
    proof (cases "validate_forfeit_sigs X v (sf_connectors sf) (ext_public_key X (sf_connector_key sf)) pubs nonces sigs")
      case (Inl f)
      then show ?thesis using Cons e Some pubs by (cases f) auto
    next
      case (Inr w)
      have "\<forall>e \<in> set (AList.update i (nonces, sigs) m). forfeit_entry_ok X sf e"
        using Cons.prems(3) set_update [of i "(nonces, sigs)" m] Some pubs Inr by (auto simp: forfeit_entry_ok_def)
      then show ?thesis using Cons.IH [of "AList.update i (nonces, sigs) m"] Cons.prems e Some pubs Inr
        by (simp add: distinct_update)
    qed
  qed (use Cons e in simp)
qed simp

lemma register_forfeits_ok:
  assumes ok: "forfeits_ok X env sf" and run: "register_forfeits X es sf = Ok sf'"
  shows "forfeits_ok X env sf'" "sf_round_data sf' = sf_round_data sf"
proof -
  obtain m where m: "(add_forfeits X sf es (sf_forfeit_part_sigs sf) :: (string, _) outcome) = Ok m"
    and sf': "sf' = sf\<lparr>sf_forfeit_part_sigs := m, sf_proceed := (if length m = length (sf_all_inputs sf) then True else sf_proceed sf)\<rparr>"
    using run by (auto simp: register_forfeits_def and_then_eq_Inr)
  obtain spec secs cp where f: "for_payments X env cp (sf_all_inputs sf) spec (sf_round_tx sf)"
     "spec_ok spec" "inputs_ok (sf_all_inputs sf)" "tree_signed X (sf_round_tx sf) spec (sf_signed_vtxos sf)"
     "round_tx_ok X spec (length (sf_all_inputs sf)) (ext_public_key X (sf_connector_key sf)) (sf_round_tx sf)"
    and conn: "sf_connectors sf = \<lparr>cc_len = length (sf_all_inputs sf), cc_spk = connector_output_script X (ext_public_key X (sf_connector_key sf)),
        cc_utxo = \<lparr>op_txid = ext_txid X (sf_round_tx sf), op_vout = ROUND_TX_CONNECTOR_VOUT\<rparr>\<rparr>"
    and n: "sf_forfeit_sec_nonces sf = Some secs"
     "map fst secs = map fst (sf_all_inputs sf)" "map fst (sf_forfeit_pub_nonces sf) = map fst (sf_all_inputs sf)"
     "list_all2 (\<lambda>(i, ss) (j, ps). length ss = length (sf_all_inputs sf) \<and> list_all2 (nonce_for X (en_server_key env)) ss ps) secs (sf_forfeit_pub_nonces sf)"
    and part: "distinct (map fst (sf_forfeit_part_sigs sf))"
     "\<forall>(i, s) \<in> set (sf_forfeit_part_sigs sf). \<exists>v pubs. map_of (sf_all_inputs sf) i = Some v \<and>
        map_of (sf_forfeit_pub_nonces sf) i = Some pubs \<and>
        forfeit_ok X (sf_round_tx sf) (sf_connector_key sf) (sf_all_inputs sf) pubs v s"
     "sf_proceed sf \<longrightarrow> length (sf_forfeit_part_sigs sf) = length (sf_all_inputs sf)"
    using ok unfolding forfeits_ok_def by blast
  have entry: "forfeit_entry_ok X sf (i, s) \<longleftrightarrow> (\<exists>v pubs. map_of (sf_all_inputs sf) i = Some v \<and>
        map_of (sf_forfeit_pub_nonces sf) i = Some pubs \<and>
        forfeit_ok X (sf_round_tx sf) (sf_connector_key sf) (sf_all_inputs sf) pubs v s)" for i s
    by (simp add: forfeit_entry_ok_def forfeit_ok_def conn)
  have old: "\<forall>e \<in> set (sf_forfeit_part_sigs sf). forfeit_entry_ok X sf e" using part(2) by (auto simp: entry)
  have new: "distinct (map fst m)" "\<forall>(i, s) \<in> set m. forfeit_entry_ok X sf (i, s)"
    using add_forfeits_Ok [OF m part(1) old] by auto
  have grow: "fst ` set (sf_forfeit_part_sigs sf) \<subseteq> fst ` set m"
  proof -
    have "fst ` set m0 \<subseteq> fst ` set m'" if "add_forfeits X sf es m0 = (Ok m' :: (string, _) outcome)" for es m0 m'
      using that
      by (induction X sf es m0 rule: add_forfeits.induct)
         (auto simp: and_then_eq_Inr expect_def dom_update split: option.splits sum.splits failure.splits)
    from this [OF m] show ?thesis .
  qed
  have "fst ` set m \<subseteq> fst ` set (sf_all_inputs sf)"
  proof
    fix i assume "i \<in> fst ` set m"
    then obtain e where e: "e \<in> set m" "i = fst e" by blast
    then have "forfeit_entry_ok X sf e" using new(2) by (cases e) auto
    then obtain v where "map_of (sf_all_inputs sf) i = Some v" using e(2) unfolding forfeit_entry_ok_def by blast
    then show "i \<in> fst ` set (sf_all_inputs sf)" by (metis domI dom_map_of_conv_image_fst)
  qed
  then have "length m \<le> length (sf_all_inputs sf)"
    using card_mono [of "fst ` set (sf_all_inputs sf)" "fst ` set m"] distinct_card [OF new(1)] f(3)
      distinct_card [of "map fst (sf_all_inputs sf)"] by (simp add: inputs_ok_def)
  moreover have "length (sf_forfeit_part_sigs sf) \<le> length m"
    using card_mono [OF _ grow] distinct_card [OF new(1)] distinct_card [OF part(1)] by simp
  ultimately have "sf_proceed sf' \<longrightarrow> length m = length (sf_all_inputs sf)" using part(3) by (auto simp: sf')
  moreover have fields: "sf_all_inputs sf' = sf_all_inputs sf" "sf_round_tx sf' = sf_round_tx sf" "sf_signed_vtxos sf' = sf_signed_vtxos sf"
    "sf_connector_key sf' = sf_connector_key sf" "sf_connectors sf' = sf_connectors sf" "sf_forfeit_sec_nonces sf' = sf_forfeit_sec_nonces sf"
    "sf_forfeit_pub_nonces sf' = sf_forfeit_pub_nonces sf" "sf_forfeit_part_sigs sf' = m"
    by (simp_all add: sf')
  ultimately show "forfeits_ok X env sf'"
    unfolding forfeits_ok_def fields using f conn n new [unfolded entry] by blast
  show "sf_round_data sf' = sf_round_data sf" by (simp add: sf')
qed

section \<open>The steps keep the invariant\<close>

lemma new_attempt_ok:
  assumes "(CollectingPayments_new env seq attempt data lock allowed common :: (server, 'e, _) action) s = (Ok cp, t)"
    and "attempt = 0 \<longleftrightarrow> allowed = None" "data_ok env data"
  shows "(begin_attempt cp :: (server, 'f, _) action) u = (Ok st, w) \<Longrightarrow> round_ok X env st"
    and "retry cp u = (Ok st, w) \<Longrightarrow> round_ok X env st"
proof -
  have cp: "cp_all_inputs cp = []" "cp_all_outputs cp = []" "cp_inputs_per_cosigner cp = []" "cp_all_offboards cp = []"
    "cp_attempt_seq cp = attempt" "cp_allowed_inputs cp = allowed" "cp_round_data cp = data"
    using assms(1) by (auto simp: CollectingPayments_new_def run_simps)
  have fresh: "round_ok X env (Collecting (cp\<lparr>cp_locked_inputs := lock'\<rparr>))" if "lk_vtxos lock' = {}" for lock'
    using that assms(2,3) by (auto simp: cp payments_ok_def keyed_def cosign_keys_def List.map_filter_simps paid_out_def paid_in_def)
  have "lk_vtxos (fst (release_all lock' f)) = {}" for lock' f by (simp add: release_all_def)
  then have start: "round_ok X env st" if "(begin_attempt cp :: (server, 'g, _) action) u = (Ok st, w)" for u :: server and st w
    using that fresh by (auto simp: begin_attempt_def run_simps run_effects Let_def split: prod.splits)
      (metis fst_conv)+
  then show "(begin_attempt cp :: (server, 'f, _) action) u = (Ok st, w) \<Longrightarrow> round_ok X env st" by blast
  show "retry cp u = (Ok st, w) \<Longrightarrow> round_ok X env st"
    using start by (auto simp: retry_def run_simps split: if_splits)
qed

lemma start_round_ok:
  assumes "(start_round env seq :: (server, 'e, _) action) s = (Ok st, t)"
  shows "round_ok X env st"
  using assms unfolding start_round_def Let_def
  by (auto simp: run_simps split: prod.splits elim!: new_attempt_ok(1) simp: data_ok_def)

lemma to_forfeits_ok:
  assumes "musig_laws X" "signing_ok X env sg" "data_ok env (sg_round_data sg)" "sg_proceed sg"
    and "to_forfeits X env sg s = (Ok st, t)"
  shows "round_ok X env st"
proof -
  obtain sf where "(SigningVtxoTree_progress X env sg :: (server, string, _) action) s = (Ok sf, t)" and st: "st = Forfeiting sf"
    using assms(5) by (auto simp: to_forfeits_def run_simps)
  from signing_progress_ok [OF assms(1,2,4) this(1)] st assms(3) show ?thesis by simp
qed

lemma close_payments_ok:
  assumes "musig_laws X" "wallet_laws (en_world env)"
    and "round_ok X env (Collecting cp)" "close_payments X env cp s = (Ok st, t)"
  shows "round_ok X env st"
proof (cases "have_payments cp")
  case True
  with assms(4) obtain r u where r: "(atry (CollectingPayments_progress X env cp) :: (server, string, _) action) s = (Ok r, u)"
    "(case r of Inl e \<Rightarrow> abind (free_lock (cp_locked_inputs cp)) (\<lambda>_. areturn (Finished (RErr e)))
       | Inr sg \<Rightarrow> if sg_proceed sg then to_forfeits X env sg else areturn (SigningTree sg)) u = (Ok st, t)"
    by (auto simp: close_payments_def run_abind run_basic)
  show ?thesis
  proof (cases r)
    case (Inr sg)
    then have "CollectingPayments_progress X env cp s = (Ok sg, u)" using r(1) by (simp add: run_atry)
    from collecting_progress_ok [OF assms(1,2) _ _ _ True this] r(2) Inr assms(3) to_forfeits_ok [OF assms(1), of env sg u st t]
    show ?thesis by (simp add: run_basic split: if_splits)
  qed (use r(2) in \<open>auto simp: run_simps\<close>)
qed (use assms(4) in \<open>auto simp: close_payments_def run_simps\<close>)

lemma close_forfeits_ok:
  assumes "data_ok env (sf_round_data sf)" "close_forfeits X env sf s = (Ok st, t)"
  shows "round_ok X env st"
  using assms
  by (auto simp: close_forfeits_def restart_missing_forfeits_def run_simps Let_def split: option.splits
      elim: new_attempt_ok(1))

fun event_ok :: "round_event \<Rightarrow> bool" where
  "event_ok (Incoming (RegisterPayment inputs ps offboards) connected) \<longleftrightarrow> keyed ps"
| "event_ok _ \<longleftrightarrow> True"

lemma registered_round_ok:
  assumes "round_ok X env (Collecting cp)" "db_ok (sv_db s)" "keyed ps"
    and "process_payment X env inputs ps rs cp s = (Ok cp', t)"
  shows "round_ok X env (Collecting cp')"
proof -
  have "after_payment X env cp inputs ps rs s cp' t"
    using run_wp [OF wp_process_payment assms(4)] assms(1,2) by simp
  then show ?thesis using assms(1,3) by (auto simp: after_payment_def registered_def keyed_def)
qed

lemma refuse_ok: "refuse c st s = (Ok st', t) \<Longrightarrow> st' = st"
  by (simp add: refuse_def run_basic split: if_splits)

lemma collecting_step_ok:
  assumes laws: "musig_laws X" "wallet_laws (en_world env)"
    and ok: "round_ok X env (Collecting cp)" "db_ok (sv_db s)" "event_ok ev"
    and run: "round_step X env ev (Collecting cp) s = (Ok st', t)"
  shows "round_ok X env st'"
proof (cases ev)
  case Timeout
  then show ?thesis using run ok(1) close_payments_ok [OF laws] by simp
next
  case (Incoming msg c)
  show ?thesis
  proof (cases msg)
    case (RegisterPayment inputs ps rs)
    with run Incoming obtain r u where r: "(atry (process_payment X env inputs ps rs cp) :: (server, string, _) action) s = (Ok r, u)"
      "(case r of Inl e \<Rightarrow> refuse c (Collecting cp)
        | Inr cp' \<Rightarrow> if cp_proceed cp' then close_payments X env cp' else areturn (Collecting cp')) u = (Ok st', t)"
      by (auto simp: run_abind)
    show ?thesis
    proof (cases r)
      case (Inl e)
      then show ?thesis using r(2) ok(1) by (auto dest!: refuse_ok)
    next
      case (Inr cp')
      have "keyed ps" using ok(3) Incoming RegisterPayment by simp
      moreover have "process_payment X env inputs ps rs cp s = (Ok cp', u)" using r(1) Inr by (simp add: run_atry)
      ultimately have "round_ok X env (Collecting cp')" by (rule registered_round_ok [OF ok(1,2)])
      then show ?thesis using r(2) Inr close_payments_ok [OF laws, of cp' u st' t] by (cases "cp_proceed cp'") (auto simp: run_basic)
    qed
  qed (use run Incoming ok(1) in \<open>auto dest!: refuse_ok\<close>)
qed

lemma signing_step_ok:
  assumes laws: "musig_laws X" and ok: "round_ok X env (SigningTree sg)"
    and run: "round_step X env ev (SigningTree sg) s = (Ok st', t)"
  shows "round_ok X env st'"
proof (cases ev)
  case Timeout
  then show ?thesis using run ok by (auto simp: run_abind SigningVtxoTree_restart_def elim: new_attempt_ok(2))
next
  case (Incoming msg c)
  show ?thesis
  proof (cases msg)
    case (VtxoSignatures pk sigs)
    with run Incoming obtain r u where r: "(atry (alift (register_signature X pk sigs sg)) :: (server, string, _) action) s = (Ok r, u)"
      "(case r of Inl e \<Rightarrow> refuse c (SigningTree sg)
        | Inr sg' \<Rightarrow> if sg_proceed sg' then to_forfeits X env sg' else areturn (SigningTree sg')) u = (Ok st', t)"
      by (auto simp: run_abind)
    show ?thesis
    proof (cases r)
      case (Inl e)
      then show ?thesis using r(2) ok by (auto dest!: refuse_ok)
    next
      case (Inr sg')
      then have "register_signature X pk sigs sg = Ok sg'" using r(1) by (simp add: run_atry run_basic)
      then have "signing_ok X env sg'" "data_ok env (sg_round_data sg')" using register_signature_ok ok by auto
      then show ?thesis using r(2) Inr to_forfeits_ok [OF laws, of env sg' u st' t] by (cases "sg_proceed sg'") (auto simp: run_basic)
    qed
  qed (use run Incoming ok in \<open>auto dest!: refuse_ok\<close>)
qed

text \<open>Signatures for the last missing input close the round.\<close>

lemma forfeiting_message:
  assumes "round_step X env (Incoming (ForfeitSignatures sigs) c) (Forfeiting sf) s = (Ok st', t)" "forfeits_ok X env sf"
  obtains sf' where "forfeits_ok X env sf'" "sf_round_data sf' = sf_round_data sf"
    "if sf_proceed sf' then close_forfeits X env sf' s = (Ok st', t) else st' = Forfeiting sf' \<and> t = s"
proof -
  obtain sf' where sf': "register_forfeits X sigs sf = Ok sf'"
    "(if sf_proceed sf' then close_forfeits X env sf' else areturn (Forfeiting sf')) s = (Ok st', t)"
    using assms(1) by (auto simp: run_abind run_basic)
  show ?thesis using that [OF register_forfeits_ok [OF assms(2) sf'(1)]] sf'(2) by (cases "sf_proceed sf'") (simp_all add: run_basic)
qed

lemma forfeiting_step_ok:
  assumes ok: "round_ok X env (Forfeiting sf)" and run: "round_step X env ev (Forfeiting sf) s = (Ok st', t)"
  shows "round_ok X env st'"
proof (cases ev)
  case Timeout
  then show ?thesis using run ok by (auto simp: run_abind restart_missing_forfeits_def Let_def elim: new_attempt_ok(2))
next
  case (Incoming msg c)
  show ?thesis
  proof (cases msg)
    case (ForfeitSignatures sigs)
    obtain sf' where "forfeits_ok X env sf'" "sf_round_data sf' = sf_round_data sf"
      "if sf_proceed sf' then close_forfeits X env sf' s = (Ok st', t) else st' = Forfeiting sf' \<and> t = s"
      using forfeiting_message run ok ForfeitSignatures Incoming by (metis round_ok.simps(3))
    then show ?thesis using ok close_forfeits_ok [of env sf' X s st' t] by (cases "sf_proceed sf'") auto
  qed (use run Incoming ok in \<open>auto dest!: refuse_ok\<close>)
qed

section \<open>Rounds\<close>

text \<open>
  The states that a round reaches. Its steps start in any state of the server with a sound database: what the other
  handlers did since the last step is not restricted further.
\<close>

inductive round_reachable :: "externals \<Rightarrow> server_env \<Rightarrow> RoundState \<Rightarrow> bool" for X env where
  started: "(start_round env seq :: RoundState handler) s = (Ok st, t) \<Longrightarrow> round_reachable X env st"
| stepped: "round_reachable X env st \<Longrightarrow> db_ok (sv_db s) \<Longrightarrow> event_ok ev \<Longrightarrow> round_step X env ev st s = (Ok st', t) \<Longrightarrow>
    round_reachable X env st'"

lemma reachable_ok:
  assumes "musig_laws X" "wallet_laws (en_world env)"
  shows "round_reachable X env st \<Longrightarrow> round_ok X env st"
proof (induction rule: round_reachable.induct)
  case (started seq s st t)
  then show ?case by (rule start_round_ok)
next
  case (stepped st s ev st' t)
  then show ?case
    using collecting_step_ok [OF assms] signing_step_ok [OF assms(1)] forfeiting_step_ok
    by (cases st) (auto simp: run_basic)
qed

section \<open>What a finished round has done\<close>

text \<open>The record of a forfeit that is stored is the one that was verified.\<close>

lemma forfeit_states_Ok:
  "(forfeit_states txid sigs pubs secs ids :: ('e, _) outcome) = Ok fs \<Longrightarrow> distinct ids \<Longrightarrow>
   map fst fs = ids \<and> (\<forall>(i, f) \<in> set fs. fs_round_id f = txid \<and>
     map_of sigs i = Some (fs_user_nonces f, fs_user_part_sigs f) \<and> map_of pubs i = Some (fs_pub_nonces f) \<and>
     map_of secs i = Some (fs_sec_nonces f))"
proof (induction ids arbitrary: sigs pubs secs fs)
  case (Cons i ids)
  then obtain ns ss ps sn fs' where found: "map_of sigs i = Some (ns, ss)" "map_of pubs i = Some ps" "map_of secs i = Some sn"
    and run: "(forfeit_states txid (AList.delete i sigs) (AList.delete i pubs) (AList.delete i secs) ids :: ('e, _) outcome) = Ok fs'"
    and fs_eq: "fs = (i, \<lparr>fs_round_id = txid, fs_user_nonces = ns, fs_user_part_sigs = ss, fs_pub_nonces = ps, fs_sec_nonces = sn\<rparr>) # fs'"
    by (auto simp: and_then_eq_Inr expect_def split: option.splits)
  have rest: "map fst fs' = ids" "\<forall>(j, f) \<in> set fs'. fs_round_id f = txid \<and>
     map_of (AList.delete i sigs) j = Some (fs_user_nonces f, fs_user_part_sigs f) \<and> map_of (AList.delete i pubs) j = Some (fs_pub_nonces f) \<and>
     map_of (AList.delete i secs) j = Some (fs_sec_nonces f)"
    using Cons.IH [OF run] Cons.prems(2) by auto
  have other: "j \<noteq> i" if "(j, g) \<in> set fs'" for j g using that rest(1) Cons.prems(2) by force
  have "\<forall>(j, f) \<in> set fs'. fs_round_id f = txid \<and>
     map_of sigs j = Some (fs_user_nonces f, fs_user_part_sigs f) \<and> map_of pubs j = Some (fs_pub_nonces f) \<and>
     map_of secs j = Some (fs_sec_nonces f)"
    using rest(2) other by (fastforce simp: delete_conv)
  then show ?case using found fs_eq rest(1) by simp
qed simp

text \<open>The transaction of the database that finishes a round.\<close>

lemma db_finish_round_Ok:
  assumes ok: "db_ok d" and run: "db_finish_round X seq tx ct key fs d = (Ok (), d')"
  shows "\<forall>(i, f) \<in> set fs. spendable_in d i \<and> forfeited_with d' i f"
    and "\<exists>rd \<in> set (db_round d'). rd_seq rd = seq \<and> rd_tx rd = tx \<and> rd_tree rd = ct \<and> rd_connector_key rd = key"
    and "\<exists>vs. all_vtxos X ct = (Ok vs :: (string, _) outcome) \<and> (\<forall>v \<in> set vs. db_vtxo d' (vtxo_id v) \<noteq> None)"
proof -
  let ?rd = "\<lparr>rd_seq = seq, rd_tx = tx, rd_tree = ct, rd_connector_key = key,
      rd_nb_input_vtxos = length fs, rd_expiry = ts_expiry_height (st_spec (ct_spec ct))\<rparr>"
  let ?d = "d\<lparr>db_round := db_round d @ [?rd]\<rparr>"
  have d: "db_ok ?d" "spendable_in ?d i = spendable_in d i" for i using ok by (simp_all add: db_ok_def spendable_in_def)
  obtain d1 vs where 1: "mark_forfeited fs ?d = (Ok (), d1)" and vs: "all_vtxos X ct = (Ok vs :: (string, _) outcome)"
    and 2: "upsert_vtxos vs d1 = (Ok (), d')"
    using run by (auto simp: db_finish_round_def transaction_def amodify_def run_abind run_basic split: prod.splits sum.splits)
  have m: "(\<forall>(i, f) \<in> set fs. spendable_in ?d i \<and> forfeited_with d1 i f) \<and> db_step ?d d1"
    by (rule run_wp [OF query_later [OF d(1) stays_mark_forfeited mark_forfeited_run [OF d(1)]] 1])
  then have "db_ok d1" by (simp add: db_step_def)
  have u: "(\<forall>v \<in> set vs. db_vtxo d' (vtxo_id v) \<noteq> None) \<and> db_step d1 d'"
    by (rule run_wp [OF query_later [OF \<open>db_ok d1\<close> stays_upsert_vtxos upsert_vtxos_run] 2])
  show "\<forall>(i, f) \<in> set fs. spendable_in d i \<and> forfeited_with d' i f"
    using m u db_later_keeps(2) [of d1 d'] d(2) by (auto simp: db_step_def)
  have "db_later ?d d'" using m u db_later_trans by (auto simp: db_step_def)
  then have "take (Suc (length (db_round d))) (db_round d') = db_round d @ [?rd]" by (simp add: db_later_def)
  then have "?rd \<in> set (db_round d')" by (metis in_set_conv_decomp in_set_takeD)
  then show "\<exists>rd \<in> set (db_round d'). rd_seq rd = seq \<and> rd_tx rd = tx \<and> rd_tree rd = ct \<and> rd_connector_key rd = key"
    by (rule bexI [rotated]) simp
  show "\<exists>vs. all_vtxos X ct = (Ok vs :: (string, _) outcome) \<and> (\<forall>v \<in> set vs. db_vtxo d' (vtxo_id v) \<noteq> None)" using vs u by blast
qed

text \<open>The VTXOs of a signed tree are valid for the transaction that funds it.\<close>

lemma signed_tree_vtxos:
  assumes laws: "segwit_laws X" "p2tr_laws X" and spec: "spec_ok spec" and signed: "tree_signed X tx spec ct"
    and tx': "strip_witness tx' = strip_witness tx" "nth_opt (tx_output tx) 0 = Some (funding_tx_txout X spec)" and l: "l < ts_nb_leaves spec"
  obtains v where "(build_vtxo X ct l :: ('e, Vtxo option) outcome) = Ok (Some v)" "vtxo_validate X v tx' = Ok ()"
    "v_amount v = leaf_amount spec l" "v_policy v = vr_policy (sr_vtxo (ts_vtxos spec ! l))"
proof -
  obtain utxo sigs where utxo: "utxo = \<lparr>op_txid = ext_txid X tx, op_vout = ROUND_TX_VTXO_TREE_VOUT\<rparr>"
    and sigs: "verify_cosign_sigs X (tree_of X spec utxo) sigs = Ok ()" and ct: "ct = cached_tree X spec utxo sigs"
    using signed unfolding tree_signed_def by blast
  note s = spec [unfolded spec_ok_def]
  have tree: "(UnsignedVtxoTree_new X spec utxo :: ('e, UnsignedVtxoTree) outcome) = Ok (tree_of X spec utxo)"
    using UnsignedVtxoTree_new_run [of spec X utxo] s by (simp add: tree_of_def)
  have verified: "i < length sigs \<and> ext_verify_schnorr X (sigs ! i) (tree_sighash X spec utxo i)
          (ext_output_key X (ts_cosign_taproot X spec (node_pk X spec i)))" if "i < tree_size (ts_nb_leaves spec)" for i
    using verify_cosign_sigs_Ok [OF _ _ tree] sigs s that by blast
  have len: "tree_size (ts_nb_leaves spec) \<le> length sigs" using verified by (meson linorder_not_less order_less_irrefl)
  have "tx_output tx' = tx_output tx" using arg_cong [OF tx'(1), of tx_output] by (simp add: strip_witness_def)
  moreover have "ext_txid X tx' = ext_txid X tx" using laws(1) tx'(1) unfolding segwit_laws_def by metis
  ultimately have anchor: "ext_txid X tx' = op_txid utxo" "nth_opt (tx_output tx') (unat (op_vout utxo)) = Some (funding_tx_txout X spec)"
    using tx'(2) by (simp_all add: utxo ROUND_TX_VTXO_TREE_VOUT_def)
  obtain v p where v: "(build_vtxo X ct l :: ('e, Vtxo option) outcome) = Ok (Some v)"
    "vtxo_of_leaf spec l v" "v_anchor_point v = utxo" "v_genesis v = path_items X spec sigs None p"
    and p: "tree_path (ts_nb_leaves spec) p" "p \<noteq> []" "last p = l" "hd p = tree_size (ts_nb_leaves spec) - 1"
    unfolding ct using build_vtxo_run [OF _ laws(2) len l, where 'e = 'e and utxo = utxo] s by blast
  have "valid_vtxo X v tx'"
    by (rule tree_vtxo_valid(1) [OF laws _ _ _ _ _ anchor v(2) l v(3,4) p]) (use verified s in simp_all)
  then show ?thesis using that v(1,2) by (simp add: validate_iff vtxo_of_leaf_def)
qed

lemma finish_Ok:
  assumes "wallet_laws (en_world env)" "sf_forfeit_sec_nonces sf = Some secs" "finish X env sf s = (Ok (), t)"
  obtains tx fs where "strip_witness tx = strip_witness (sf_round_tx sf)"
    "(forfeit_states (ext_txid X tx) (sf_forfeit_part_sigs sf) (sf_forfeit_pub_nonces sf) secs (map fst (sf_all_inputs sf))
        :: (RoundError, _) outcome) = Ok fs"
    "db_finish_round X (sf_round_seq sf) tx (sf_signed_vtxos sf) (sf_connector_key sf) fs (sv_db s) = (Ok (), sv_db t)"
proof -
  obtain signed tx fs c c' where "we_finish_tx (en_world env) c (sf_round_tx sf) = Inr signed" "we_broadcast_tx (en_world env) c' signed = Inr tx"
    and rest: "(forfeit_states (ext_txid X tx) (sf_forfeit_part_sigs sf) (sf_forfeit_pub_nonces sf) secs (map fst (sf_all_inputs sf))
        :: (RoundError, _) outcome) = Ok fs"
      "db_finish_round X (sf_round_seq sf) tx (sf_signed_vtxos sf) (sf_connector_key sf) fs (sv_db s) = (Ok (), sv_db t)"
    using assms(2,3) unfolding finish_def
    by (auto simp: run_simps run_effects run_amap_err run_on_db from_result_Ok expect_def)
  then have "strip_witness tx = strip_witness (sf_round_tx sf)" using assms(1) unfolding wallet_laws_def by metis
  then show ?thesis using that rest by blast
qed

lemma all_vtxos_stored:
  assumes "all_vtxos X ct = (Ok vs :: (string, _) outcome)" "(build_vtxo X ct l :: (string, _) outcome) = Ok (Some v)"
    "l < ts_nb_leaves (st_spec (ct_spec ct))"
  shows "v \<in> set vs"
proof -
  let ?f = "\<lambda>idx. and_then (build_vtxo X ct idx) (\<lambda>v. expect v ''called `Option::unwrap()` on a `None` value'') :: (string, Vtxo) outcome"
  have eq: "map ?f [0..<ts_nb_leaves (st_spec (ct_spec ct))] = map Inr vs"
    using assms(1) by (simp add: all_vtxos_def collect_results_eq_Inr)
  have len: "length vs = ts_nb_leaves (st_spec (ct_spec ct))" using arg_cong [OF eq, of length] by simp
  moreover have "v = vs ! l" using arg_cong [OF eq, of "\<lambda>xs. xs ! l"] assms(2,3) len by (simp add: expect_def)
  ultimately show ?thesis using assms(3) by auto
qed

text \<open>
  What a round that was recorded under a transaction owes to the payments that were registered: the books are
  balanced; the offboards are paid by the transaction; every output is a leaf of the tree, stored, and valid for the
  transaction; every input was spendable and is forfeited, with signatures of its owner that verify for every connector.
\<close>

definition offboards_paid :: "CollectingPayments \<Rightarrow> Transaction \<Rightarrow> bool" where
  "offboards_paid cp tx \<longleftrightarrow> take (length (cp_all_offboards cp)) (drop 2 (tx_output tx)) = map to_txout (cp_all_offboards cp)"

definition output_issued :: "externals \<Rightarrow> database \<Rightarrow> StoredRound \<Rightarrow> nat \<Rightarrow> VtxoRequest \<Rightarrow> bool" where
  "output_issued X d rd l req \<longleftrightarrow> (\<exists>v. build_vtxo X (rd_tree rd) l = (Ok (Some v) :: (string, _) outcome) \<and>
     vtxo_validate X v (rd_tx rd) = Ok () \<and> v_amount v = vr_amount req \<and> v_policy v = vr_policy req \<and> db_vtxo d (vtxo_id v) \<noteq> None)"

definition input_forfeited :: "externals \<Rightarrow> database \<Rightarrow> StoredRound \<Rightarrow> (VtxoId \<times> Vtxo) list \<Rightarrow> VtxoId \<Rightarrow> Vtxo \<Rightarrow> bool" where
  "input_forfeited X d rd ins i v \<longleftrightarrow> (\<exists>f. forfeited_with d i f \<and> fs_round_id f = ext_txid X (rd_tx rd) \<and>
     forfeit_ok X (rd_tx rd) (rd_connector_key rd) ins (fs_pub_nonces f) v (fs_user_nonces f, fs_user_part_sigs f))"

lemma finish_is_fair:
  assumes laws: "segwit_laws X" "p2tr_laws X" "wallet_laws (en_world env)"
    and ok: "forfeits_ok X env sf" "db_ok (sv_db s)" and run: "finish X env sf s = (Ok (), t)"
  shows "\<exists>cp. \<exists>rd \<in> set (db_round (sv_db t)). payments_ok X env cp \<and> offboards_paid cp (rd_tx rd) \<and>
    (\<forall>l < length (cp_all_outputs cp). output_issued X (sv_db t) rd l (sr_vtxo (pa_req (cp_all_outputs cp ! l)))) \<and>
    (\<forall>(i, v) \<in> set (cp_all_inputs cp). spendable_in (sv_db s) i \<and> input_forfeited X (sv_db t) rd (cp_all_inputs cp) i v)"
proof -
  obtain spec secs cp where pay: "for_payments X env cp (sf_all_inputs sf) spec (sf_round_tx sf)"
    and f: "spec_ok spec" "inputs_ok (sf_all_inputs sf)" "tree_signed X (sf_round_tx sf) spec (sf_signed_vtxos sf)"
      "nth_opt (tx_output (sf_round_tx sf)) 0 = Some (funding_tx_txout X spec)" "sf_forfeit_sec_nonces sf = Some secs"
    and part: "\<forall>(i, s) \<in> set (sf_forfeit_part_sigs sf). \<exists>v pubs. map_of (sf_all_inputs sf) i = Some v \<and>
        map_of (sf_forfeit_pub_nonces sf) i = Some pubs \<and>
        forfeit_ok X (sf_round_tx sf) (sf_connector_key sf) (sf_all_inputs sf) pubs v s"
    using ok(1) unfolding forfeits_ok_def round_tx_ok_def by blast
  obtain tx fs where tx: "strip_witness tx = strip_witness (sf_round_tx sf)"
    and fs: "(forfeit_states (ext_txid X tx) (sf_forfeit_part_sigs sf) (sf_forfeit_pub_nonces sf) secs (map fst (sf_all_inputs sf))
        :: (RoundError, _) outcome) = Ok fs"
    and db: "db_finish_round X (sf_round_seq sf) tx (sf_signed_vtxos sf) (sf_connector_key sf) fs (sv_db s) = (Ok (), sv_db t)"
    by (rule finish_Ok [OF laws(3) f(5) run])
  note d = db_finish_round_Ok [OF ok(2) db]
  obtain rd where rd: "rd \<in> set (db_round (sv_db t))" "rd_tx rd = tx" "rd_tree rd = sf_signed_vtxos sf" "rd_connector_key rd = sf_connector_key sf"
    using d(2) by blast
  have same: "tx_output tx = tx_output (sf_round_tx sf)" "ext_txid X tx = ext_txid X (sf_round_tx sf)"
    using arg_cong [OF tx, of tx_output] segwit_lawsD(1) [OF laws(1) tx] by (simp_all add: strip_witness_def)
  have cp: "payments_ok X env cp" "sf_all_inputs sf = cp_all_inputs cp" "offboards_paid cp tx"
    "cp_all_outputs cp \<noteq> [] \<longrightarrow> ts_vtxos spec = map pa_req (cp_all_outputs cp)"
    using pay same(1) by (simp_all add: for_payments_def offboards_paid_def)
  have issued: "output_issued X (sv_db t) rd l (sr_vtxo (pa_req (cp_all_outputs cp ! l)))" if l: "l < length (cp_all_outputs cp)" for l
  proof -
    have req: "l < ts_nb_leaves spec" "ts_vtxos spec ! l = pa_req (cp_all_outputs cp ! l)" using cp(4) l by (auto simp: ts_nb_leaves_def)
    obtain v where v: "(build_vtxo X (sf_signed_vtxos sf) l :: (string, Vtxo option) outcome) = Ok (Some v)" "vtxo_validate X v tx = Ok ()"
      "v_amount v = leaf_amount spec l" "v_policy v = vr_policy (sr_vtxo (ts_vtxos spec ! l))"
      by (rule signed_tree_vtxos [OF laws(1,2) f(1,3) tx f(4) req(1), where 'e = string])
    have "st_spec (ct_spec (sf_signed_vtxos sf)) = spec" using f(3) by (auto simp: tree_signed_def cached_tree_def)
    then have "db_vtxo (sv_db t) (vtxo_id v) \<noteq> None" using d(3) all_vtxos_stored [OF _ v(1)] req(1) by auto
    then show ?thesis using v rd(2,3) req by (auto simp: output_issued_def leaf_amount_def)
  qed
  have "spendable_in (sv_db s) i \<and> input_forfeited X (sv_db t) rd (cp_all_inputs cp) i v" if iv: "(i, v) \<in> set (cp_all_inputs cp)" for i v
  proof -
    have ids: "distinct (map fst (sf_all_inputs sf))" using f(2) by (simp add: inputs_ok_def)
    note st = forfeit_states_Ok [OF fs ids]
    have "i \<in> set (map fst fs)" using st iv cp(2) by force
    then obtain g where g: "(i, g) \<in> set fs" by auto
    then have g': "fs_round_id g = ext_txid X tx" "map_of (sf_forfeit_part_sigs sf) i = Some (fs_user_nonces g, fs_user_part_sigs g)"
      "map_of (sf_forfeit_pub_nonces sf) i = Some (fs_pub_nonces g)" using st by auto
    have "map_of (sf_all_inputs sf) i = Some v" using iv ids cp(2) by simp
    then have "forfeit_ok X (sf_round_tx sf) (sf_connector_key sf) (sf_all_inputs sf) (fs_pub_nonces g) v (fs_user_nonces g, fs_user_part_sigs g)"
      using bspec [OF part map_of_SomeD [OF g'(2)]] g'(3) by simp
    then have "forfeit_ok X tx (rd_connector_key rd) (cp_all_inputs cp) (fs_pub_nonces g) v (fs_user_nonces g, fs_user_part_sigs g)"
      using rd(4) cp(2) same(2) by (simp add: forfeit_ok_def)
    moreover have "spendable_in (sv_db s) i" "forfeited_with (sv_db t) i g" using d(1) g by auto
    ultimately show ?thesis using g'(1) rd(2) unfolding input_forfeited_def by auto
  qed
  then show ?thesis using cp(1,3) rd(1,2) issued by (intro exI [of _ cp] bexI [of _ rd]) auto
qed

lemma finished_by_forfeits:
  assumes "round_step X env ev st s = (Ok (Finished RSuccess), t)" "st \<noteq> Finished RSuccess" "round_ok X env st"
  obtains sf u where "forfeits_ok X env sf" "finish X env sf s = (Ok (), u)" "sv_db t = sv_db u"
proof -
  have start: "(begin_attempt cp :: (server, string, _) action) u \<noteq> (Ok (Finished RSuccess), w)" for cp u w
    by (auto simp: begin_attempt_def run_simps Let_def)
  have again: "retry cp u \<noteq> (Ok (Finished RSuccess), w)" for cp u w
    using start by (auto simp: retry_def run_simps)
  have forfeit: "to_forfeits X env sg u \<noteq> (Ok (Finished RSuccess), w)" for sg u w by (auto simp: to_forfeits_def run_simps)
  have close: "close_payments X env cp u \<noteq> (Ok (Finished RSuccess), w)" for cp u w
    using forfeit by (auto simp: close_payments_def run_simps split: sum.splits)
  have refuse: "refuse c st' u \<noteq> (Ok (Finished RSuccess), w)" if "st' \<noteq> Finished RSuccess" for c st' u w
    using that by (auto dest: refuse_ok)
  show ?thesis
  proof (cases st)
    case (Collecting cp)
    then show ?thesis using assms(1) close refuse
      by (cases ev) (auto simp: run_simps split: RoundInput.splits sum.splits if_splits, metis sum.exhaust)
  next
    case (SigningTree sg)
    then show ?thesis using assms(1) again forfeit refuse
      by (cases ev) (auto simp: run_simps split: RoundInput.splits sum.splits if_splits, metis sum.exhaust)
  next
    case (Forfeiting sf)
    then obtain sigs c where ev: "ev = Incoming (ForfeitSignatures sigs) c"
      using assms(1) again refuse by (cases ev) (auto simp: run_abind split: RoundInput.splits)
    obtain sf' where sf': "forfeits_ok X env sf'" "sf_proceed sf'" "close_forfeits X env sf' s = (Ok (Finished RSuccess), t)"
      using forfeiting_message [OF assms(1) [unfolded ev Forfeiting]] assms(3) Forfeiting
      by (metis RoundState.distinct(11) round_ok.simps(3))
    have none: "check_forfeits sf' = None" using sf'(3) start by (auto simp: close_forfeits_def run_abind split: option.splits)
    then obtain r u where "(atry (finish X env sf') :: (server, string, _) action) s = (Ok r, u)"
      "t = u\<lparr>sv_flux := drop_lock (sf_locked_inputs sf') (sv_flux u)\<rparr>" "(case r of Inl e \<Rightarrow> RErr e | Inr _ \<Rightarrow> RSuccess) = RSuccess"
      using sf'(3) by (auto simp: close_forfeits_def run_simps run_effects)
    then show ?thesis using that sf'(1) by (cases r) (auto simp: run_atry)
  qed (use assms in \<open>simp add: run_basic\<close>)
qed

end
