(* ===== verification/Ark_Round_Live.thy ===== *)
theory Ark_Round_Live
  imports Ark_Round_Fair
begin

text \<open>
  Rounds that make progress: the assertions and the \<open>expect\<close>s on the way from payments to signatures and from
  signatures to forfeits cannot fail in a round that was served by its wallet. At the end a concrete round from its
  start to its last step, and the properties of rounds.
\<close>

section \<open>From signatures to forfeits\<close>

lemma forfeit_nonces_total:
  "\<exists>secs pubs t. (forfeit_nonces X env n ids :: (server, 'e, _) action) s = (Ok (secs, pubs), t)"
proof (induction ids arbitrary: s)
  case (Cons i ids)
  obtain ss ps where 1: "(nonce_pairs n X (en_server_key env) :: (server, 'e, _) action) s = (Ok (ss, ps), s\<lparr>sv_calls := sv_calls s + n\<rparr>)"
    using nonce_pairs_run [of n X "en_server_key env" s, where 'e = 'e] by blast
  obtain secs pubs t where "(forfeit_nonces X env n ids :: (server, 'e, _) action) (s\<lparr>sv_calls := sv_calls s + n\<rparr>) = (Ok (secs, pubs), t)"
    using Cons.IH by blast
  with 1 show ?case by (simp add: run_simps split: prod.splits)
qed (simp add: run_simps)

lemma signing_progress_runs:
  assumes laws: "musig_laws X" and ok: "signing_ok X env sg" and "sg_proceed sg"
  shows "\<exists>sf t. (SigningVtxoTree_progress X env sg :: (server, 'e, _) action) s = (Ok sf, t) \<and> sf_all_inputs sf = sg_all_inputs sg"
proof -
  obtain spec utxo cp srv sigs where ins: "inputs_ok (sg_all_inputs sg)"
    and u: "sg_unsigned_vtxo_tree sg = tree_of X spec utxo"
    and sigs: "(cosign_tree X (tree_of X spec utxo) (sg_cosign_agg_nonces sg) (sg_cosign_key sg) (sg_cosign_sec_nonces sg)
        :: ('e, PartialSignature list) outcome) = Ok srv"
      "combine_partial_signatures X (tree_of X spec utxo) (sg_cosign_agg_nonces sg) (map_of (sg_cosign_part_sigs sg)) [srv] = Ok sigs"
    and cached: "(into_cached_tree X (into_signed_tree (tree_of X spec utxo) sigs) :: ('e, CachedSignedVtxoTree) outcome) = Ok (cached_tree X spec utxo sigs)"
    by (rule signing_combines [OF laws ok assms(3), where 'e = 'e])
  obtain secs pubs t where
    "(forfeit_nonces X env (length (sg_all_inputs sg)) (map fst (sg_all_inputs sg)) :: (server, 'e, _) action) s = (Ok (secs, pubs), t)"
    using forfeit_nonces_total [where 'e = 'e] by blast
  moreover have "sg_all_inputs sg \<noteq> []" using ins by (simp add: inputs_ok_def)
  ultimately show ?thesis
    unfolding SigningVtxoTree_progress_def Let_def u
    by (simp add: abind_def alift_def areturn_def sigs cached expect_result_def ConnectorChain_new_def broadcast_event_def amodify_def)
qed

section \<open>From payments to signatures\<close>

lemma leaf_nonces_at_total:
  "\<forall>pk \<in> set pks. \<exists>ns. m pk = Some ns \<and> level < length ns \<Longrightarrow> \<exists>r. leaf_nonces_at m level pks = Ok r"
  by (induction pks) (auto simp: nth_opt_def ok_or_def)

lemma agg_nonces_total:
  fixes spec
  defines "n \<equiv> ts_nb_leaves spec"
  assumes n: "0 < n" and keys: "leaf_keys spec pks" and global: "ts_global_cosign_pubkeys spec = [pk]"
    and pubs: "length pubs = tree_size n" and user: "\<And>l. l < n \<Longrightarrow> \<exists>ns. m (pks ! l) = Some ns \<and> tree_size n \<le> length ns"
  shows "\<exists>agg. calculate_cosign_agg_nonces X spec m [pubs] = Ok agg"
proof -
  let ?node = "\<lambda>(idx, node).
     and_then (leaf_nonces_at m (nd_level node)
        (List.map_filter (\<lambda>i. sr_cosign_pubkey (ts_vtxos spec ! i)) (node_leaves node))) (\<lambda>leaf.
     and_then (collect_results (map (\<lambda>glob. ok_or (nth_opt glob idx) ''not enough global cosign nonces'') [pubs])) (\<lambda>glob.
     Ok (nonce_agg X (leaf @ glob))))"
  have one: "\<exists>a. ?node e = Ok a" if e: "e \<in> set (enumerate 0 (tree_nodes n))" for e
  proof -
    obtain k where k: "k < tree_size n" "e = (k, tree_nodes n ! k)"
      using e n by (auto simp: in_set_enumerate_eq length_tree_nodes)
    have level: "nd_level (tree_nodes n ! k) = level_of n k" using n k by (simp add: tree_nodes_nth tree_node_def)
    have leaves: "\<forall>l \<in> set (leaf_list n k). l < n" using k n ark_tree.leaves_bound [of k "n - 1"] by (simp add: tree_node_leaves)
    have "List.map_filter (\<lambda>i. sr_cosign_pubkey (ts_vtxos spec ! i)) (node_leaves (tree_nodes n ! k)) = map (\<lambda>l. pks ! l) (leaf_list n k)"
      using k n map_filter_leaf_keys [OF keys, of "leaf_list n k"] leaves by (simp add: tree_node_leaves flip: n_def)
    moreover have "\<exists>r. leaf_nonces_at m (level_of n k) (map (\<lambda>l. pks ! l) (leaf_list n k)) = Ok r"
      using leaves user level_of_le [OF n, of k] k(1) by (intro leaf_nonces_at_total) fastforce
    ultimately show ?thesis using k pubs level by (auto simp: nth_opt_def ok_or_def)
  qed
  define g where "g e = (SOME a. ?node e = Ok a)" for e
  have "map ?node (enumerate 0 (tree_nodes n)) = map Ok (map g (enumerate 0 (tree_nodes n)))"
    unfolding map_map comp_def g_def using someI_ex [OF one] by (intro map_cong refl) blast
  then have "collect_results (map ?node (enumerate 0 (tree_nodes n))) = Ok (map g (enumerate 0 (tree_nodes n)))"
    by (simp only: collect_results_eq_Inr)
  then show ?thesis using n global by (auto simp: calculate_cosign_agg_nonces_def Tree_new_Ok simp flip: n_def)
qed

text \<open>
  What a round needs to be built: at least one nonce, heights that are lock heights, amounts that do not overflow, and a
  wallet that builds the transaction.
\<close>

definition servable :: "server_env \<Rightarrow> CollectingPayments \<Rightarrow> bool" where
  "servable env cp \<longleftrightarrow>
     1 \<le> cf_nb_round_nonces (en_config env) \<and>
     (\<forall>t. unat (we_tip (en_world env) t) + unat (cf_vtxo_lifetime (en_config env)) < 500000000) \<and>
     (\<forall>t h i rs fee. \<exists>tx. we_build_round_tx (en_world env) t h i rs fee = Inr tx) \<and>
     list_all (\<lambda>p. case vr_policy (sr_vtxo (pa_req p)) of ServerHtlcRecv _ _ _ h \<Rightarrow> locktime_ok h | _ \<Rightarrow> True) (cp_all_outputs cp) \<and>
     sum_list (map (\<lambda>p. vr_amount (sr_vtxo (pa_req p))) (cp_all_outputs cp)) < u64_limit \<and>
     P2TR_DUST * length (cp_all_inputs cp) < u64_limit \<and> paid_in cp < u64_limit"

lemma tree_fits:
  assumes "0 < ts_nb_leaves spec" "ts_nb_leaves spec \<le> N * 3 div 4 \<or> ts_nb_leaves spec = 1" "1 \<le> N"
  shows "ts_nb_nodes spec \<le> N"
  using assms by (auto simp: ts_nb_nodes_eq tree_size_def)

lemma add_change_total: "\<exists>change ps t. (add_change X env outs :: (server, 'e, _) action) s = (Ok (change, ps), t)"
proof (cases "outs = []")
  case True
  obtain secs pubs where "(nonce_pairs (cf_nb_round_nonces (en_config env)) X (we_keypair (en_world env) (sv_calls s)) :: (server, 'e, _) action)
      (s\<lparr>sv_calls := Suc (sv_calls s)\<rparr>) = (Ok (secs, pubs), s\<lparr>sv_calls := Suc (sv_calls s) + cf_nb_round_nonces (en_config env)\<rparr>)"
    using nonce_pairs_run [of "cf_nb_round_nonces (en_config env)" X "we_keypair (en_world env) (sv_calls s)" "s\<lparr>sv_calls := Suc (sv_calls s)\<rparr>", where 'e = 'e]
    by auto
  then show ?thesis using True by (simp add: add_change_def abind_def ask_def areturn_def Let_def)
qed (simp add: add_change_def areturn_def)

lemma height_after_Ok:
  assumes "unat tip + unat delta < 500000000"
  shows "height_after tip delta = Ok (tip + ucast delta)" "locktime_ok (tip + ucast delta)"
proof -
  have "unat (tip + ucast delta :: u32) = unat tip + unat delta"
  proof -
    have "unat (ucast delta :: u32) = unat delta"
      using unsigned_less [of delta, where 'a = nat] by (simp add: unsigned_ucast_eq take_bit_nat_eq_self)
    then show ?thesis using assms by (simp add: unat_word_ariths)
  qed
  then show "height_after tip delta = Ok (tip + ucast delta)" "locktime_ok (tip + ucast delta)"
    using assms by (simp_all add: height_after_def locktime_ok_def)
qed

lemma sign_change_total:
  assumes laws: "musig_laws X" and change: "change_ok X env outs change ps" and n: "0 < ts_nb_leaves spec"
    and spec: "leaf_keys spec (cosign_keys ps)" "ts_vtxos spec = map pa_req ps"
    and agg: "length agg = tree_size (ts_nb_leaves spec)" and fits: "ts_nb_nodes spec \<le> cf_nb_round_nonces (en_config env)"
  shows "\<exists>part_sigs. sign_change X (tree_of X spec utxo) agg change = (Ok part_sigs :: ('e, _) outcome)"
proof (cases change)
  case (Some c)
  obtain req key secs where c: "change = Some (req, key, secs)" using Some by (cases c) auto
  then obtain pubs where p: "ps = [\<lparr>pa_req = req, pa_nonces = pubs\<rparr>]" "sr_cosign_pubkey req = Some (ext_public_key X key)"
    "list_all2 (nonce_for X key) secs pubs" "length secs = cf_nb_round_nonces (en_config env)"
    using change by (auto simp: change_ok_def)
  have keys: "cosign_keys ps = [ext_public_key X key]" using p by (simp add: cosign_keys_def List.map_filter_simps)
  have "leaf_idx_of spec req = Some 0" using leaf_idx_of_leaf [OF spec(1) n] spec(2) p(1) by simp
  moreover obtain sigs where "cosign_branch X (tree_of X spec utxo) agg 0 key secs = Ok sigs"
    using cosign_branch_verifies [OF laws n spec(1) n, of key agg secs pubs utxo] p(3,4) keys agg fits n
    by (auto simp: ts_nb_nodes_eq)
  ultimately show ?thesis using c by (simp add: sign_change_def)
qed (simp add: sign_change_def)

text \<open>The tree over the outputs of a servable round.\<close>

lemma servable_spec:
  assumes serv: "servable env cp" and cp: "payments_ok X env cp" "keyed (cp_all_outputs cp)" "data_ok env (cp_round_data cp)"
    and change: "change_ok X env (cp_all_outputs cp) change ps" and height: "locktime_ok expiry"
  obtains spec where "(VtxoTreeSpec_new (map pa_req ps) server_pk expiry delta [pk] :: ('e, _) outcome) = Ok spec"
    "ts_nb_nodes spec \<le> cf_nb_round_nonces (en_config env)" "ts_locktimes_ok spec" "total_required_value spec < u64_limit"
proof -
  note ps = change_ok_outputs [OF change cp]
  define spec where "spec = \<lparr>ts_vtxos = map pa_req ps, ts_expiry_height = expiry, ts_server_pubkey = server_pk,
      ts_exit_delta = delta, ts_global_cosign_pubkeys = [pk]\<rparr>"
  have new: "(VtxoTreeSpec_new (map pa_req ps) server_pk expiry delta [pk] :: ('e, _) outcome) = Ok spec"
    using ps(1) by (simp add: VtxoTreeSpec_new_def spec_def)
  have n: "ts_nb_leaves spec = length ps" by (simp add: spec_def ts_nb_leaves_def)
  have "ts_nb_nodes spec \<le> cf_nb_round_nonces (en_config env)"
    using tree_fits [of spec] ps(1,5) serv n by (simp add: servable_def)
  moreover have "\<forall>p \<in> set ps. policy_locktime_ok (vr_policy (sr_vtxo (pa_req p))) expiry"
  proof (cases change)
    case None
    have "policy_locktime_ok (vr_policy (sr_vtxo (pa_req p))) expiry" if "p \<in> set (cp_all_outputs cp)" for p
      using that serv cp(1) by (cases "vr_policy (sr_vtxo (pa_req p))")
        (auto simp: servable_def payments_ok_def list_all_iff output_ok_def split: VtxoPolicy.splits)
    then show ?thesis using None change by (simp add: change_ok_def)
  qed (use change in \<open>auto simp: change_ok_def\<close>)
  then have "ts_locktimes_ok spec" using height by (simp add: ts_locktimes_ok_def spec_def list_all_iff)
  moreover have "total_required_value spec < u64_limit"
    using serv change by (auto simp: total_required_value_def spec_def change_ok_def servable_def comp_def P2WSH_DUST_def u64_limit_def split: option.splits)
  ultimately show ?thesis using that new by blast
qed

lemma collecting_progress_runs:
  assumes laws: "musig_laws X" "wallet_laws (en_world env)" and serv: "servable env cp"
    and cp: "payments_ok X env cp" "keyed (cp_all_outputs cp)" "data_ok env (cp_round_data cp)" "have_payments cp"
  shows "\<exists>sg t. CollectingPayments_progress X env cp s = (Ok sg, t) \<and> sg_all_inputs sg = cp_all_inputs cp \<and>
    (sg_proceed sg \<longleftrightarrow> cp_all_outputs cp = [])"
proof -
  let ?w = "en_world env" and ?N = "cf_nb_round_nonces (en_config env)"
  define tip where "tip = we_tip ?w (sv_calls s)"
  define expiry where "expiry = tip + ucast (cf_vtxo_lifetime (en_config env))"
  have height: "(height_after tip (cf_vtxo_lifetime (en_config env)) :: (RoundError, _) outcome) = Ok expiry" "locktime_ok expiry"
    using serv height_after_Ok [of tip "cf_vtxo_lifetime (en_config env)"] by (simp_all add: servable_def tip_def expiry_def)
  obtain change ps s2 where change: "(add_change X env (cp_all_outputs cp) :: (server, RoundError, _) action) (s\<lparr>sv_calls := Suc (sv_calls s)\<rparr>) = (Ok (change, ps), s2)"
    using add_change_total [where 'e = RoundError] by blast
  note c = add_change_Ok [OF change]
  have dummy: "change = None \<longleftrightarrow> cp_all_outputs cp \<noteq> []" using c by (auto simp: change_ok_def split: option.splits)
  note ps = change_ok_outputs [OF c cp(1,2,3)]
  obtain spec where spec: "(VtxoTreeSpec_new (map pa_req ps) (ext_public_key X (en_server_key env)) expiry
        (cf_vtxo_exit_delta (en_config env)) [ext_public_key X (cp_cosign_key cp)] :: (RoundError, _) outcome) = Ok spec"
    and fits: "ts_nb_nodes spec \<le> ?N" and lock: "ts_locktimes_ok spec" and total: "total_required_value spec < u64_limit"
    by (rule servable_spec [OF serv cp(1-3) c height(2)])
  note sp = spec_of_outputs [OF spec ps(2,3)]
  define connector_key where "connector_key = we_keypair ?w (sv_calls s2)"
  define rs where "rs = funding_tx_txout X spec # \<lparr>txo_value = P2TR_DUST * length (cp_all_inputs cp),
      txo_script = connector_output_script X (ext_public_key X connector_key)\<rparr> # map to_txout (cp_all_offboards cp)"
  have rs: "(round_recipients X spec (length (cp_all_inputs cp)) (ext_public_key X connector_key) (cp_all_offboards cp) :: (RoundError, _) outcome) = Ok rs"
    using serv cp(4) total by (simp add: round_recipients_def connector_output_def required_budget_def servable_def have_payments_def rs_def)
  obtain tx where tx: "we_build_round_tx ?w (Suc (sv_calls s2)) (trusted_height env tip) (cp_common_round_tx_input cp) rs
      (cf_round_tx_feerate (en_config env)) = Inr tx"
    using serv unfolding servable_def by blast
  have input: "tx_input tx \<noteq> []" using laws(2) tx unfolding wallet_laws_def by blast
  let ?s = "s2\<lparr>sv_calls := Suc (Suc (sv_calls s2))\<rparr>"
  obtain secs pubs where nonces: "(nonce_pairs (ts_nb_nodes spec) X (cp_cosign_key cp) :: (server, RoundError, _) action) ?s
      = (Ok (secs, pubs), ?s\<lparr>sv_calls := sv_calls ?s + ts_nb_nodes spec\<rparr>)" and len: "length secs = ts_nb_nodes spec" "length pubs = length secs"
    using nonce_pairs_run [of "ts_nb_nodes spec" X "cp_cosign_key cp" ?s, where 'e = RoundError] by (auto dest: list_all2_lengthD)
  have user: "\<exists>ns. collect_user_nonces ps (cosign_keys ps ! l) = Some ns \<and> tree_size (ts_nb_leaves spec) \<le> length ns"
    if "l < ts_nb_leaves spec" for l
    using that collect_user_nonces_at [OF ps(2,3)] ps(4) fits sp(2,3) by (simp add: ts_nb_nodes_eq)
  obtain agg where agg: "calculate_cosign_agg_nonces X spec (collect_user_nonces ps) [pubs] = Ok agg"
    using agg_nonces_total [OF sp(3,1,4), of pubs "collect_user_nonces ps" X] user len sp(3) by (auto simp: ts_nb_nodes_eq)
  let ?utxo = "\<lparr>op_txid = ext_txid X tx, op_vout = ROUND_TX_VTXO_TREE_VOUT\<rparr>"
  have tree: "(UnsignedVtxoTree_new X spec ?utxo :: (RoundError, _) outcome) = Ok (tree_of X spec ?utxo)"
    using UnsignedVtxoTree_new_run [OF sp(3) lock, of X ?utxo] by (simp add: tree_of_def)
  obtain part_sigs where signed: "(sign_change X (tree_of X spec ?utxo) agg change :: (RoundError, _) outcome) = Ok part_sigs"
    using sign_change_total [OF laws(1) c sp(3,1,7) agg_nonces_run(1) [OF sp(3,1,4) agg] fits, where 'e = RoundError] by blast
  have "\<exists>common. (case cp_common_round_tx_input cp of Some i \<Rightarrow> Ok i
      | None \<Rightarrow> expect (map_option previous_output (peek (tx_input tx))) ''funded round tx should have an input'') = (Ok common :: (RoundError, _) outcome)"
    using input by (cases "tx_input tx") (auto simp: expect_def split: option.splits)
  then obtain common where "(case cp_common_round_tx_input cp of Some i \<Rightarrow> Ok i
      | None \<Rightarrow> expect (map_option previous_output (peek (tx_input tx))) ''funded round tx should have an input'') = (Ok common :: (RoundError, _) outcome)"
    by blast
  then show ?thesis
    using height(1) change spec fits rs tx nonces agg tree signed dummy
    unfolding CollectingPayments_progress_def connector_key_def tip_def expiry_def
    by (simp add: abind_def ask_def alift_def areturn_def from_result_def broadcast_event_def amodify_def Let_def)
qed

lemma total_input_amount_Ok:
  "acc + sum_list (map (\<lambda>(i, v). v_amount v) ins) < u64_limit \<Longrightarrow>
   total_input_amount acc ins = Ok (acc + sum_list (map (\<lambda>(i, v). v_amount v) ins))"
  by (induction acc ins rule: total_input_amount.induct) (auto simp: amount_add_def)

lemma close_payments_runs:
  assumes laws: "musig_laws X" "wallet_laws (en_world env)" and serv: "servable env cp"
    and ok: "round_ok X env (Collecting cp)" and pay: "have_payments cp"
  shows "\<exists>st t. close_payments X env cp s = (Ok st, t) \<and>
    (if cp_all_outputs cp = [] then \<exists>sf. st = Forfeiting sf \<and> sf_all_inputs sf = cp_all_inputs cp
     else \<exists>sg. st = SigningTree sg \<and> sg_all_inputs sg = cp_all_inputs cp)"
proof -
  have total: "(total_input_amount 0 (cp_all_inputs cp) :: (string, _) outcome) = Ok (paid_in cp)"
    using total_input_amount_Ok [of 0 "cp_all_inputs cp"] serv by (simp add: servable_def paid_in_def)
  obtain sg t where sg: "CollectingPayments_progress X env cp s = (Ok sg, t)" "sg_all_inputs sg = cp_all_inputs cp"
    "sg_proceed sg \<longleftrightarrow> cp_all_outputs cp = []"
    using collecting_progress_runs [OF laws serv _ _ _ pay, of s] ok by auto
  have signing: "signing_ok X env sg" using collecting_progress_ok(1) [OF laws _ _ _ pay sg(1)] ok by simp
  show ?thesis
  proof (cases "sg_proceed sg")
    case True
    obtain sf u where "(SigningVtxoTree_progress X env sg :: (server, string, _) action) t = (Ok sf, u)" "sf_all_inputs sf = sg_all_inputs sg"
      using signing_progress_runs [OF laws(1) signing True, where 'e = string] by blast
    then show ?thesis using True sg total pay by (simp add: close_payments_def to_forfeits_def abind_def alift_def atry_def areturn_def)
  qed (use sg total pay in \<open>simp add: close_payments_def abind_def alift_def atry_def areturn_def\<close>)
qed

text \<open>The signatures of an honest cosigner, made with the secrets of the nonces that it registered, are accepted.\<close>

lemma honest_signature_registered:
  fixes sg
  defines "spec \<equiv> ut_spec (sg_unsigned_vtxo_tree sg)"
  assumes laws: "musig_laws X" and ok: "signing_ok X env sg" and l: "l < ts_nb_leaves spec"
    and key: "sr_cosign_pubkey (ts_vtxos spec ! l) = Some (ext_public_key X key)"
    and nonces: "sg_user_cosign_nonces sg (ext_public_key X key) = Some pubs" "list_all2 (nonce_for X key) secs pubs" "ts_nb_nodes spec \<le> length secs"
    and new: "ext_public_key X key \<notin> fst ` set (sg_cosign_part_sigs sg)"
  shows "\<exists>sigs sg'. cosign_branch X (sg_unsigned_vtxo_tree sg) (sg_cosign_agg_nonces sg) l key secs = Ok sigs \<and>
    register_signature X (ext_public_key X key) sigs sg = Ok sg' \<and> sg_cosign_part_sigs sg' = sg_cosign_part_sigs sg @ [(ext_public_key X key, sigs)]"
proof -
  obtain pks utxo pk where u: "sg_unsigned_vtxo_tree sg = tree_of X spec utxo" and n: "0 < ts_nb_leaves spec" and keys: "leaf_keys spec pks"
    and global: "ts_global_cosign_pubkeys spec = [pk]"
    and agg: "calculate_cosign_agg_nonces X spec (sg_user_cosign_nonces sg) [sg_cosign_pub_nonces sg] = Ok (sg_cosign_agg_nonces sg)"
    using ok unfolding signing_ok_def spec_ok_def spec_def by auto
  note k = leaf_keysD [OF keys]
  have pk: "pks ! l = ext_public_key X key" using k(3) [OF l] key by simp
  obtain sigs where sigs: "cosign_branch X (tree_of X spec utxo) (sg_cosign_agg_nonces sg) l key secs = Ok sigs"
    "verify_branch_cosign_partial_sigs X (tree_of X spec utxo) (sg_cosign_agg_nonces sg) (ts_vtxos spec ! l) pubs sigs = Ok ()"
    using cosign_branch_verifies [OF laws n keys l pk agg_nonces_run(1) [OF n keys global agg] nonces(2)] nonces(3) n
    by (auto simp: ts_nb_nodes_eq)
  have "List.find (\<lambda>v. sr_cosign_pubkey v = Some (ext_public_key X key)) (ts_vtxos spec) = Some (ts_vtxos spec ! l)"
  proof -
    have "sr_cosign_pubkey (ts_vtxos spec ! j) \<noteq> Some (ext_public_key X key)" if "j < l" for j
      using k(1) k(3) [of j] that l pk nth_eq_iff_index_eq [OF k(2), of j l] by auto
    then show ?thesis using l key unfolding find_Some_iff ts_nb_leaves_def by blast
  qed
  then show ?thesis using sigs nonces(1) new u by (auto simp: register_signature_def ok_or_def expect_def Let_def)
qed

section \<open>From forfeits to the end\<close>

lemma forfeit_states_total:
  "\<forall>i \<in> set ids. map_of sigs i \<noteq> None \<and> map_of pubs i \<noteq> None \<and> map_of secs i \<noteq> None \<Longrightarrow> distinct ids \<Longrightarrow>
   \<exists>fs. (forfeit_states txid sigs pubs secs ids :: ('e, _) outcome) = Ok fs"
proof (induction ids arbitrary: sigs pubs secs)
  case (Cons i ids)
  have "\<exists>fs. (forfeit_states txid (AList.delete i sigs) (AList.delete i pubs) (AList.delete i secs) ids :: ('e, _) outcome) = Ok fs"
    by (rule Cons.IH) (use Cons.prems in \<open>auto simp: delete_conv\<close>)
  then show ?case using Cons.prems(1) by (auto simp: expect_def)
qed simp

lemma mark_forfeited_total:
  "distinct (map fst fs) \<Longrightarrow> \<forall>i \<in> fst ` set fs. spendable_in d i \<Longrightarrow> \<exists>d'. mark_forfeited fs d = (Ok (), d')"
proof (induction fs arbitrary: d rule: mark_forfeited.induct)
  case (2 i f rest)
  obtain r where r: "db_vtxo d i = Some r" "is_spendable r" using 2(3) by (auto simp: spendable_in_def)
  let ?d = "d\<lparr>db_vtxo := (db_vtxo d)(i \<mapsto> r\<lparr>vs_forfeit_state := Some f\<rparr>)\<rparr>"
  have "\<exists>d'. mark_forfeited rest ?d = (Ok (), d')"
    by (rule 2(1) [of 1]) (use 2(2,3) in \<open>auto simp: spendable_in_def\<close>)
  then show ?case using r by (simp add: update_spendable_def abind_def aget_def amodify_def areturn_def)
qed (simp add: areturn_def)

lemma all_vtxos_total:
  assumes "segwit_laws X" "p2tr_laws X" "spec_ok spec" "tree_signed X tx spec ct" "nth_opt (tx_output tx) 0 = Some (funding_tx_txout X spec)"
  shows "\<exists>vs. (all_vtxos X ct :: ('e, _) outcome) = Ok vs"
proof -
  have spec: "st_spec (ct_spec ct) = spec" using assms(4) by (auto simp: tree_signed_def cached_tree_def)
  have "\<exists>v. (build_vtxo X ct l :: ('e, Vtxo option) outcome) = Ok (Some v)" if "l < ts_nb_leaves spec" for l
    using signed_tree_vtxos [OF assms(1-4) refl assms(5) that, where 'e = 'e] by blast
  then obtain v where v: "\<And>l. l < ts_nb_leaves spec \<Longrightarrow> (build_vtxo X ct l :: ('e, Vtxo option) outcome) = Ok (Some (v l))" by metis
  have "(all_vtxos X ct :: ('e, _) outcome) = collect_results (map (\<lambda>l. Ok (v l)) [0..<ts_nb_leaves spec])"
    unfolding all_vtxos_def spec using v by (intro arg_cong [where f = collect_results] map_cong refl) (simp add: expect_def)
  then show ?thesis by simp
qed

text \<open>A wallet that signs, a node that broadcasts and a database that answers.\<close>

definition available :: "world \<Rightarrow> bool" where
  "available w \<longleftrightarrow> (\<forall>t tx. \<exists>tx'. we_finish_tx w t tx = Inr tx') \<and> (\<forall>t tx. \<exists>tx'. we_broadcast_tx w t tx = Inr tx') \<and> (\<forall>t. we_db_error w t = None)"

lemma finish_runs:
  assumes laws: "segwit_laws X" "p2tr_laws X" and world: "available (en_world env)"
    and ok: "forfeits_ok X env sf" and all: "check_forfeits sf = None" and spendable: "\<forall>i \<in> fst ` set (sf_all_inputs sf). spendable_in (sv_db s) i"
  shows "\<exists>t. finish X env sf s = (Ok (), t)"
proof -
  obtain spec secs where f: "spec_ok spec" "inputs_ok (sf_all_inputs sf)" "tree_signed X (sf_round_tx sf) spec (sf_signed_vtxos sf)"
      "nth_opt (tx_output (sf_round_tx sf)) 0 = Some (funding_tx_txout X spec)" "sf_forfeit_sec_nonces sf = Some secs"
      "map fst secs = map fst (sf_all_inputs sf)" "map fst (sf_forfeit_pub_nonces sf) = map fst (sf_all_inputs sf)"
    using ok unfolding forfeits_ok_def round_tx_ok_def by blast
  obtain signed where signed: "we_finish_tx (en_world env) (sv_calls s) (sf_round_tx sf) = Inr signed" using world unfolding available_def by blast
  obtain tx where tx: "we_broadcast_tx (en_world env) (Suc (sv_calls s)) signed = Inr tx" using world unfolding available_def by blast
  have ids: "distinct (map fst (sf_all_inputs sf))" using f(2) by (simp add: inputs_ok_def)
  have "i \<in> fst ` set (sf_forfeit_part_sigs sf) \<and> i \<in> fst ` set (sf_forfeit_pub_nonces sf) \<and> i \<in> fst ` set secs" if "i \<in> fst ` set (sf_all_inputs sf)" for i
    using that all arg_cong [OF f(6), of set] arg_cong [OF f(7), of set] by (auto simp: check_forfeits_def Let_def split: if_splits)
  then obtain fs where fs: "(forfeit_states (ext_txid X tx) (sf_forfeit_part_sigs sf) (sf_forfeit_pub_nonces sf) secs (map fst (sf_all_inputs sf))
        :: (RoundError, _) outcome) = Ok fs"
    using forfeit_states_total [of "map fst (sf_all_inputs sf)" "sf_forfeit_part_sigs sf" "sf_forfeit_pub_nonces sf" secs "ext_txid X tx", where 'e = RoundError] ids
    by (auto simp: map_of_eq_None_iff)
  let ?d = "(sv_db s)\<lparr>db_round := db_round (sv_db s) @ [\<lparr>rd_seq = sf_round_seq sf, rd_tx = tx, rd_tree = sf_signed_vtxos sf,
      rd_connector_key = sf_connector_key sf, rd_nb_input_vtxos = length fs, rd_expiry = ts_expiry_height (st_spec (ct_spec (sf_signed_vtxos sf)))\<rparr>]\<rparr>"
  have fst_fs: "map fst fs = map fst (sf_all_inputs sf)" using forfeit_states_Ok [OF fs ids] by blast
  have "spendable_in ?d i" if "i \<in> fst ` set fs" for i
    using that bspec [OF spendable, of i] arg_cong [OF fst_fs, of set] by (simp add: spendable_in_def)
  then obtain d1 where 1: "mark_forfeited fs ?d = (Ok (), d1)" using mark_forfeited_total [of fs ?d] ids fst_fs by auto
  obtain vs where 2: "(all_vtxos X (sf_signed_vtxos sf) :: (string, _) outcome) = Ok vs"
    using all_vtxos_total [OF laws f(1,3,4), where 'e = string] by blast
  obtain d2 where 3: "upsert_vtxos vs d1 = (Ok (), d2)"
    using upsert_vtxos_run [of vs d1] by (cases "upsert_vtxos vs d1") (auto simp: wp_def split: sum.splits)
  have "db_finish_round X (sf_round_seq sf) tx (sf_signed_vtxos sf) (sf_connector_key sf) fs (sv_db s) = (Ok (), d2)"
    using 1 2 3 by (simp add: db_finish_round_def transaction_def abind_def amodify_def alift_def)
  then show ?thesis
    using signed tx fs f(5) world unfolding finish_def available_def
    by (simp add: abind_def ask_def alift_def from_result_def broadcast_event_def amodify_def amap_err_def on_db_def with_db_def expect_def)
qed

section \<open>A round\<close>

text \<open>A concrete round: one VTXO of 1000 satoshis is offboarded.\<close>

definition demo_server :: server where
  "demo_server = \<lparr>sv_flux = \<lparr>fx_vtxos = {}\<rparr>, sv_db = \<lparr>db_vtxo = [vtxo_id demo_vtxo \<mapsto> \<lparr>vs_vtxo = demo_vtxo, vs_oor_spent_txid = None, vs_forfeit_state = None\<rparr>],
     db_round = [], db_board = Map.empty\<rparr>, sv_events = [], sv_calls = 0\<rparr>"
definition demo_offboard :: OffboardRequest where
  "demo_offboard = \<lparr>of_script_pubkey = 0x51 # 0x20 # replicate 32 7, of_amount = 500\<rparr>"

definition demo_payment :: RoundInput where
  "demo_payment = RegisterPayment [\<lparr>vi_vtxo_id = vtxo_id demo_vtxo, vi_ownership_proof = replicate 64 0\<rparr>] []
     [demo_offboard]"
definition demo_forfeits :: RoundInput where
  "demo_forfeits = ForfeitSignatures [(vtxo_id demo_vtxo, [[1]], [[1]])]"

definition demo_cp :: CollectingPayments where
  "demo_cp = \<lparr>cp_round_data = \<lparr>da_max_output_vtxos = 3, da_nb_vtxo_nonces = 4, da_offboard_feerate = 1, da_max_vtxo_amount = None\<rparr>,
     cp_challenge = RoundAttemptChallenge (replicate 32 0), cp_locked_inputs = \<lparr>lk_vtxos = {}\<rparr>, cp_cosign_key = replicate 32 3,
     cp_allowed_inputs = None, cp_all_inputs = [], cp_all_outputs = [], cp_inputs_per_cosigner = [], cp_all_offboards = [],
     cp_common_round_tx_input = None, cp_round_seq = 1, cp_attempt_seq = 0, cp_proceed = False\<rparr>"

definition demo_paid :: CollectingPayments where
  "demo_paid = demo_cp\<lparr>cp_locked_inputs := \<lparr>lk_vtxos = {vtxo_id demo_vtxo}\<rparr>, cp_all_inputs := [(vtxo_id demo_vtxo, demo_vtxo)],
     cp_all_offboards := [demo_offboard]\<rparr>"

lemma demo_wallet_laws: "wallet_laws (en_world demo_server_env)"
  by (simp add: wallet_laws_def demo_server_env_def demo_world_def)

lemma demo_start: "\<exists>t. (start_round demo_server_env 1 :: RoundState handler) demo_server = (Ok (Collecting demo_cp), t)"
  by (simp add: start_round_def CollectingPayments_new_def begin_attempt_def run_simps run_effects Let_def
    demo_server_env_def demo_world_def demo_server_def demo_cp_def empty_lock_def into_owned_def drop_lock_def release_all_def)

lemmas run_eval = abind_def areturn_def athrow_def alift_def ask_def atry_def free_lock_def amodify_def aget_def broadcast_event_def
  take_lock_def on_db_def with_db_def transaction_def from_result_def

lemma demo_checks:
  "validate_payment_data demo_cp [\<lparr>vi_vtxo_id = vtxo_id demo_vtxo, vi_ownership_proof = replicate 64 0\<rparr>] [] = Ok ()"
  "validate_payment_amounts demo_ext demo_server_env demo_cp [demo_vtxo] [] [demo_offboard] = Ok ()"
  "verify_ownership demo_ext (cp_challenge demo_cp) [(vtxo_id demo_vtxo, replicate 64 0)] [] rs [demo_vtxo] = Ok ()"
proof -
  show "validate_payment_data demo_cp [\<lparr>vi_vtxo_id = vtxo_id demo_vtxo, vi_ownership_proof = replicate 64 0\<rparr>] [] = Ok ()"
    by (simp add: validate_payment_data_def demo_cp_def)
  show "validate_payment_amounts demo_ext demo_server_env demo_cp [demo_vtxo] [] [demo_offboard] = Ok ()"
    by (simp add: validate_payment_amounts_def amount_add_def u64_limit_def MAX_MONEY_def P2TR_DUST_def demo_offboard_def
      offboard_fee_def calculate_fee_def demo_server_env_def demo_world_def demo_ext_def demo_vtxo_def)
  show "verify_ownership demo_ext (cp_challenge demo_cp) [(vtxo_id demo_vtxo, replicate 64 0)] [] rs [demo_vtxo] = Ok ()"
    by (simp add: round_challenge_verify_def demo_ext_def)
qed


lemma demo_server_facts:
  "db_ok (sv_db demo_server)" "db_vtxo (sv_db demo_server) (vtxo_id demo_vtxo) =
     Some \<lparr>vs_vtxo = demo_vtxo, vs_oor_spent_txid = None, vs_forfeit_state = None\<rparr>" "fx_vtxos (sv_flux demo_server) = {}" "sv_calls demo_server = 0"
  by (simp_all add: demo_server_def db_ok_def)

lemma demo_register:
  "\<exists>t. round_step demo_ext demo_server_env (Incoming demo_payment True) (Collecting demo_cp) demo_server = (Ok (Collecting demo_paid), t)"
proof -
  let ?s = "demo_server\<lparr>sv_flux := \<lparr>fx_vtxos = {vtxo_id demo_vtxo}\<rparr>\<rparr>"
  let ?inputs = "[\<lparr>vi_vtxo_id = vtxo_id demo_vtxo, vi_ownership_proof = replicate 64 0\<rparr>]"
  have lock: "(take_lock [vtxo_id demo_vtxo] :: (server, string, _) action) demo_server = (Ok (Inr \<lparr>lk_vtxos = {vtxo_id demo_vtxo}\<rparr>), ?s)"
    by (simp add: take_lock_def flux_lock_def atomic_check_put_def add_locked_def empty_lock_def demo_server_def)
  have check: "check_payment demo_ext demo_server_env demo_cp ?inputs [] [demo_offboard] ?s = (Ok [demo_vtxo], ?s\<lparr>sv_calls := 2\<rparr>)"
    using demo_checks(2,3) [unfolded demo_server_env_def demo_world_def]
    by (simp add: check_payment_def check_fetch_round_input_vtxos_def get_vtxos_by_id_def run_eval demo_server_facts is_spendable_def
      demo_server_env_def demo_world_def)
  have reg: "\<exists>t. (register_payment \<lparr>lk_vtxos = {vtxo_id demo_vtxo}\<rparr> [demo_vtxo] [] [demo_offboard] demo_cp :: CollectingPayments handler) (?s\<lparr>sv_calls := 2\<rparr>)
      = (Ok demo_paid, t)"
    by (simp add: register_payment_def first_attempt_def run_eval absorb_eq insert_inputs_def demo_cp_def demo_paid_def Let_def)
  have "\<exists>t. (process_payment demo_ext demo_server_env ?inputs [] [demo_offboard] demo_cp) demo_server = (Ok demo_paid, t)"
    using demo_checks(1) lock check reg by (simp add: process_payment_def abind_def alift_def atry_def)
  moreover have "\<not> cp_proceed demo_paid" by (simp add: demo_paid_def demo_cp_def)
  ultimately show ?thesis by (auto simp: demo_payment_def abind_def atry_def areturn_def)
qed

text \<open>The payment closes into forfeits, since the dummy output of the server needs no signature.\<close>

lemma demo_servable: "servable demo_server_env demo_paid" "have_payments demo_paid" "cp_all_outputs demo_paid = []"
  "cp_all_inputs demo_paid = [(vtxo_id demo_vtxo, demo_vtxo)]"
  by (simp_all add: servable_def demo_server_env_def demo_world_def demo_paid_def demo_cp_def have_payments_def paid_in_def
    u64_limit_def P2TR_DUST_def demo_vtxo_def)

lemma demo_reachable:
  "round_reachable demo_ext demo_server_env (Collecting demo_cp)" "round_reachable demo_ext demo_server_env (Collecting demo_paid)"
proof -
  show 1: "round_reachable demo_ext demo_server_env (Collecting demo_cp)" using demo_start round_reachable.started by blast
  show "round_reachable demo_ext demo_server_env (Collecting demo_paid)"
  proof -
    have "event_ok (Incoming demo_payment True)" by (simp add: demo_payment_def keyed_def)
    then show ?thesis using round_reachable.stepped [OF 1 demo_server_facts(1)] demo_register by blast
  qed
qed

lemma demo_forfeiting:
  obtains sf where "round_reachable demo_ext demo_server_env (Forfeiting sf)" "sf_all_inputs sf = [(vtxo_id demo_vtxo, demo_vtxo)]"
proof -
  have ok: "round_ok demo_ext demo_server_env (Collecting demo_paid)" by (rule reachable_ok [OF demo_ext_laws(4) demo_wallet_laws demo_reachable(2)])
  obtain sf t where "round_step demo_ext demo_server_env Timeout (Collecting demo_paid) demo_server = (Ok (Forfeiting sf), t)"
    and "sf_all_inputs sf = [(vtxo_id demo_vtxo, demo_vtxo)]"
    using close_payments_runs [OF demo_ext_laws(4) demo_wallet_laws demo_servable(1) ok demo_servable(2), of demo_server] demo_servable(3,4) by auto
  then show ?thesis using that round_reachable.stepped [OF demo_reachable(2) demo_server_facts(1), of Timeout] by auto
qed

lemma demo_forfeit_valid:
  assumes "length pubs = 1"
  shows "validate_forfeit_sigs demo_ext demo_vtxo \<lparr>cc_len = 1, cc_spk = spk, cc_utxo = conn\<rparr> pk pubs [[1]] [[1]] = Ok ()"
proof -
  let ?chain = "\<lparr>cc_len = 1, cc_spk = spk, cc_utxo = conn\<rparr>"
  have "(connector_iter_collect demo_ext (\<lambda>_. 0) (connectors ?chain) :: (string, _) outcome) = Ok [(conn, None)]"
    using connector_iter_collect_Ok [of "connectors ?chain" 0 "(conn, None)" demo_ext "\<lambda>_. 0", where 'e = string]
    by (simp add: connectors_def iter_unsigned_txs_def chain_ok_def P2TR_DUST_def u64_limit_def)
  moreover have "policy_locktime_ok (v_policy demo_vtxo) (v_expiry_height demo_vtxo)" by (simp add: demo_vtxo_def)
  moreover have "ext_partial_verify demo_ext c n m [1] pn pk" for c n m pn pk by (simp add: demo_ext_def)
  moreover obtain pn where "pubs = [pn]" using assms by (auto simp: length_Suc_conv)
  ultimately show ?thesis
    by (simp add: validate_forfeit_sigs_def checked_output_taproot_def connector_forfeit_sighash_exit_def
      connector_forfeit_input_sighash_def checked_txout_def create_connector_forfeit_tx_def Let_def)
qed

lemma demo_finishes:
  assumes reach: "round_reachable demo_ext demo_server_env (Forfeiting sf)" and ins: "sf_all_inputs sf = [(vtxo_id demo_vtxo, demo_vtxo)]"
  shows "\<exists>t. round_step demo_ext demo_server_env (Incoming demo_forfeits True) (Forfeiting sf) demo_server = (Ok (Finished RSuccess), t)"
proof -
  have ok: "forfeits_ok demo_ext demo_server_env sf" using reachable_ok [OF demo_ext_laws(4) demo_wallet_laws reach] by simp
  obtain pubs conn where pubs: "map_of (sf_forfeit_pub_nonces sf) (vtxo_id demo_vtxo) = Some pubs" and len: "length pubs = 1"
    and conn: "sf_connectors sf = \<lparr>cc_len = 1, cc_spk = connector_output_script demo_ext (ext_public_key demo_ext (sf_connector_key sf)), cc_utxo = conn\<rparr>"
    using ok unfolding forfeits_ok_def ins by (auto simp: list_all2_Cons1 list_all2_lengthD dest: list_all2_lengthD)
  have valid: "validate_forfeit_sigs demo_ext demo_vtxo (sf_connectors sf) (ext_public_key demo_ext (sf_connector_key sf)) pubs [[1]] [[1]] = Ok ()"
    unfolding conn by (rule demo_forfeit_valid [OF len])
  define sf' where "sf' = sf\<lparr>sf_forfeit_part_sigs := AList.update (vtxo_id demo_vtxo) ([[1]], [[1]]) (sf_forfeit_part_sigs sf), sf_proceed := True\<rparr>"
  have dist: "distinct (map fst (sf_forfeit_part_sigs sf))"
    and entries: "\<forall>(i, s) \<in> set (sf_forfeit_part_sigs sf). \<exists>v pubs. map_of [(vtxo_id demo_vtxo, demo_vtxo)] i = Some v"
    using ok unfolding forfeits_ok_def ins by blast+
  have "i = vtxo_id demo_vtxo" if "(i, s) \<in> set (sf_forfeit_part_sigs sf)" for i s
    using bspec [OF entries that] by (simp split: if_splits)
  then have "fst ` set (sf_forfeit_part_sigs sf) \<subseteq> {vtxo_id demo_vtxo}" by auto
  then have one: "map fst (AList.update (vtxo_id demo_vtxo) ([[1]], [[1]]) (sf_forfeit_part_sigs sf)) = [vtxo_id demo_vtxo]"
    using dist by (cases "sf_forfeit_part_sigs sf") (auto simp: subset_singleton_iff)
  have len1: "length (AList.update (vtxo_id demo_vtxo) ([[1]], [[1]]) (sf_forfeit_part_sigs sf)) = 1"
    using arg_cong [OF one, of length] by simp
  have add: "(add_forfeits demo_ext sf [(vtxo_id demo_vtxo, [[1]], [[1]])] (sf_forfeit_part_sigs sf) :: (string, _) outcome) =
      Ok (AList.update (vtxo_id demo_vtxo) ([[1]], [[1]]) (sf_forfeit_part_sigs sf))"
    using valid by (simp add: ins pubs expect_def)
  have "register_forfeits demo_ext [(vtxo_id demo_vtxo, [[1]], [[1]])] sf = Ok sf'"
    unfolding register_forfeits_def add using len1 by (simp add: ins sf'_def)
  then have reg: "forfeits_ok demo_ext demo_server_env sf'" "register_forfeits demo_ext [(vtxo_id demo_vtxo, [[1]], [[1]])] sf = Ok sf'"
    using register_forfeits_ok(1) [OF ok] by blast+
  have none: "check_forfeits sf' = None"
    using arg_cong [OF one, of set] by (simp add: check_forfeits_def sf'_def ins)
  obtain t where "finish demo_ext demo_server_env sf' demo_server = (Ok (), t)"
    using finish_runs [OF demo_ext_laws(1,2) _ reg(1) none, of demo_server] demo_server_facts(2)
    by (auto simp: available_def demo_server_env_def demo_world_def sf'_def ins spendable_in_def is_spendable_def)
  then show ?thesis using reg(2) none
    by (simp add: demo_forfeits_def close_forfeits_def abind_def alift_def atry_def areturn_def free_lock_def amodify_def)
      (simp add: sf'_def)
qed

section \<open>Properties\<close>





text \<open>
  C7: a round that can be built is built. When the time for payments is over in a round with payments, and there is at
  least one nonce, the heights are lock heights, the amounts do not overflow and the wallet builds the transaction, then
  the coordinator neither panics nor gives up, whatever the payments are: the assertion on the
  number of nonces holds, every nonce of the tree is there, and the round goes on to collect signatures for the tree of these
  inputs, or directly forfeits when its only output is the one of the server.
\<close>

theorem funded_round_progresses:
  assumes "musig_laws X" "wallet_laws (en_world env)" "round_reachable X env (Collecting cp)" "have_payments cp" "servable env cp"
  shows "\<exists>st t. round_step X env Timeout (Collecting cp) s = (Ok st, t) \<and>
    (if cp_all_outputs cp = [] then \<exists>sf. st = Forfeiting sf \<and> sf_all_inputs sf = cp_all_inputs cp
     else \<exists>sg. st = SigningTree sg \<and> sg_all_inputs sg = cp_all_inputs cp)"
  using close_payments_runs [OF assms(1,2,5) reachable_ok [OF assms(1-3)] assms(4)] by simp

theorem funded_round_progresses_witness:
  "\<exists>sf t. round_step demo_ext demo_server_env Timeout (Collecting demo_paid) demo_server = (Ok (Forfeiting sf), t) \<and>
     sf_all_inputs sf = [(vtxo_id demo_vtxo, demo_vtxo)]"
  using funded_round_progresses [OF demo_ext_laws(4) demo_wallet_laws demo_reachable(2) demo_servable(2,1), of demo_server]
    demo_servable(3,4) by auto

end
