(* ===== verification/Ark_Server_Cosign.thy ===== *)
theory Ark_Server_Cosign
  imports Ark_Server Ark_Board Ark_Checkpoint_Package
begin

text \<open>
  The handlers of the server that cosign boards and out-of-round payments: \<open>server/src/arkoor.rs\<close> and the methods of
  \<open>Server\<close> in \<open>server/src/lib.rs\<close>. Randomness for signing is an argument, as in the builders. Logging is left out.
\<close>

section \<open>Boards\<close>

definition cosign_board ::
  "externals \<Rightarrow> server_env \<Rightarrow> nat \<Rightarrow> Amount \<Rightarrow> PublicKey \<Rightarrow> BlockHeight \<Rightarrow> OutPoint \<Rightarrow> PublicNonce \<Rightarrow> BoardCosignResponse handler" where
  "cosign_board X env rnd amount user_pubkey expiry_height utxo user_pub_nonce =
     (let min_amount = max (cf_min_board_amount (en_config env)) P2TR_DUST in
      if amount < min_amount then athrow ''board amount must be at least''
      else if (case cf_max_vtxo_amount (en_config env) of Some m \<Rightarrow> m < amount | None \<Rightarrow> False)
      then athrow ''board amount exceeds limit''
      else
        abind (ask (we_tip (en_world env))) (\<lambda>tip.
        if expiry_height < tip then athrow ''vtxo already expired''
        else
          alift (board_server_cosign X rnd
            (new_for_cosign user_pubkey expiry_height (ext_public_key X (en_server_key env)) (cf_vtxo_exit_delta (en_config env))
               amount utxo user_pub_nonce)
            (en_server_key env))))"

text \<open>
  \<open>get_raw_tx\<close> stands for the node's \<open>getrawtransaction\<close>: an error, no transaction, or one with its number of
  confirmations, which is missing for a transaction in the mempool.
\<close>

definition register_board :: "server_env \<Rightarrow> (nat \<Rightarrow> Txid \<Rightarrow> string + u32 option option) \<Rightarrow> Vtxo \<Rightarrow> unit handler" where
  "register_board env get_raw_tx vtxo =
     abind (ask (\<lambda>t. get_raw_tx t (op_txid (v_anchor_point vtxo)))) (\<lambda>r.
     abind (case r of
          Inr (Some confirmations) \<Rightarrow>
            let confs = (case confirmations of Some n \<Rightarrow> unat n | None \<Rightarrow> 0) in
            if confs < cf_required_board_confirmations (en_config env) then athrow ''board vtxo tx not sufficiently confirmed''
            else areturn ()
        | Inr None \<Rightarrow> athrow ''board transaction not found''
        | Inl e \<Rightarrow> athrow ''error fetching tx info for board tx'') (\<lambda>_.
     amap_err (\<lambda>_. ''Failed to upsert board into database'') (on_db env (upsert_board vtxo))))"

section \<open>Checkpointed payments\<close>

fun check_arkoor_inputs :: "Vtxo list \<Rightarrow> (string, unit) outcome" where
  "check_arkoor_inputs [] = Ok ()"
| "check_arkoor_inputs (v # vs) =
     (case v_policy v of
        Pubkey _ \<Rightarrow> check_arkoor_inputs vs
      | Checkpoint _ \<Rightarrow> err ''checkpoint vtxo not supported''
      | ServerHtlcSend _ _ _ \<Rightarrow> err ''server htlc send vtxo not supported''
      | ServerHtlcRecv _ _ _ _ \<Rightarrow> err ''server htlc recv vtxo not supported'')"

definition with_inputs :: "VtxoId PackageCosignRequest \<Rightarrow> Vtxo list \<Rightarrow> Vtxo PackageCosignRequest" where
  "with_inputs request input_vtxos =
     \<lparr>pq_requests = map2 (\<lambda>r v. \<lparr>cq_user_pub_nonces = cq_user_pub_nonces r, cq_input = v, cq_outputs = cq_outputs r\<rparr>)
        (pq_requests request) input_vtxos\<rparr>"

text \<open>The VTXOs and spends that are stored before anything is signed; the iterators are consumed by the query.\<close>

definition store_package :: "externals \<Rightarrow> CheckpointedPackageBuilder \<Rightarrow> unit query" where
  "store_package X builder =
     abind (alift (cp_build_unsigned_vtxos X builder)) (\<lambda>new_output_vtxos.
     abind (alift (cp_build_unsigned_checkpoint_vtxos X builder)) (\<lambda>new_checkpoint_vtxos.
     abind (alift (cp_spend_info X builder)) (\<lambda>spends.
     upsert_vtxos_and_mark_spends (new_output_vtxos @ new_checkpoint_vtxos) spends)))"

definition sign_package ::
  "externals \<Rightarrow> server_env \<Rightarrow> (nat \<Rightarrow> nat \<Rightarrow> nat) \<Rightarrow> Vtxo PackageCosignRequest \<Rightarrow> PackageCosignResponse handler" where
  "sign_package X env rnd request =
     abind (alift (map_err (\<lambda>_. ''Invalid arkoor request'') (from_cosign_requests X request))) (\<lambda>builder.
     abind (on_db env (store_package X builder)) (\<lambda>_.
     abind (alift (map_err (\<lambda>_. ''Failed to sign'') (cp_server_cosign X rnd builder (en_server_key env)))) (\<lambda>signed.
     alift (cp_cosign_response signed))))"

text \<open>\<open>guard\<close> is the result of \<open>lock\<close>: when another operation holds one of the inputs, there is nothing to hold.\<close>

definition cosign_oor ::
  "externals \<Rightarrow> server_env \<Rightarrow> (nat \<Rightarrow> nat \<Rightarrow> nat) \<Rightarrow> VtxoId PackageCosignRequest \<Rightarrow> PackageCosignResponse handler" where
  "cosign_oor X env rnd request =
     (let input_vtxo_ids = package_request_inputs request in
      abind (on_db env (get_vtxos_by_id input_vtxo_ids)) (\<lambda>rows.
      let input_vtxos = map vs_vtxo rows in
      abind (alift (check_arkoor_inputs input_vtxos)) (\<lambda>_.
      abind (check_vtxos_not_exited env input_vtxo_ids) (\<lambda>_.
      abind (take_lock input_vtxo_ids) (\<lambda>guard.
      (case guard of Inr lock \<Rightarrow> holding lock | Inl _ \<Rightarrow> (\<lambda>m. m)) (sign_package X env rnd (with_inputs request input_vtxos)))))))"

section \<open>Plain payments\<close>

definition package_spends :: "externals \<Rightarrow> ArkoorPackageBuilder \<Rightarrow> ('e, (VtxoId \<times> Txid) list) outcome" where
  "package_spends X builder =
     collect_results (map (\<lambda>input.
       and_then (expect (spending_tx builder (vtxo_id input)) ''spending tx should be present'') (\<lambda>tx.
       Ok (vtxo_id input, ext_txid X tx))) (package_inputs builder))"

definition store_arkoors :: "externals \<Rightarrow> ArkoorPackageBuilder \<Rightarrow> VtxoId option query" where
  "store_arkoors X builder =
     abind (alift (package_new_vtxos X builder)) (\<lambda>new_vtxos.
     abind (alift (package_spends X builder)) (\<lambda>spends.
     check_set_vtxo_oor_spent_package spends (concat new_vtxos)))"

definition cosign_oor_package_with_builder ::
  "externals \<Rightarrow> server_env \<Rightarrow> (nat \<Rightarrow> nat) \<Rightarrow> ArkoorPackageBuilder \<Rightarrow> ArkoorCosignResponse list handler" where
  "cosign_oor_package_with_builder X env rnd builder =
     abind (take_lock (map vtxo_id (package_inputs builder))) (\<lambda>r.
     case r of
       Inl i \<Rightarrow> athrow ''attempted to sign arkoor tx for vtxo already in flux''
     | Inr lock \<Rightarrow> holding lock (
         abind (on_db env (store_arkoors X builder)) (\<lambda>dup.
         case dup of
           Some i \<Rightarrow> athrow ''attempted to sign arkoor tx for already spent vtxo''
         | None \<Rightarrow>
             abind (alift (package_new_vtxos X builder)) (\<lambda>_.
             alift (package_server_cosign X rnd builder (en_server_key env))))))"

definition cosign_oor_package ::
  "externals \<Rightarrow> server_env \<Rightarrow> (nat \<Rightarrow> nat) \<Rightarrow> (VtxoId \<times> PublicNonce \<times> VtxoRequest list) list \<Rightarrow> ArkoorCosignResponse list handler" where
  "cosign_oor_package X env rnd arkoor_args =
     abind (on_db env (get_vtxos_by_id (map fst arkoor_args))) (\<lambda>rows.
     let input_vtxos = map vs_vtxo rows in
     abind (alift (collect_results (map2 (\<lambda>(_, user_nonce, outputs) vtxo.
         map_err (\<lambda>_. ''invalid arkoor'') (ArkoorBuilder_new vtxo user_nonce outputs)) arkoor_args input_vtxos))) (\<lambda>arkoors.
     abind (check_vtxos_not_exited env (map vtxo_id input_vtxos)) (\<lambda>_.
     abind (alift (map_err (\<lambda>_. ''error creating arkoor package'') (from_arkoors X arkoors))) (\<lambda>builder.
     cosign_oor_package_with_builder X env rnd builder))))"

section \<open>What is signed is recorded\<close>

text \<open>The spends that a request asks for, with the VTXOs of the database as its inputs.\<close>

definition stored_vtxos :: "database \<Rightarrow> VtxoId list \<Rightarrow> Vtxo list" where
  "stored_vtxos d ids = map (\<lambda>i. vs_vtxo (the (db_vtxo d i))) ids"

definition request_spends :: "externals \<Rightarrow> database \<Rightarrow> VtxoId PackageCosignRequest \<Rightarrow> (string, (VtxoId \<times> Txid) list) outcome" where
  "request_spends X d request =
     and_then (map_err (\<lambda>_. ''Invalid arkoor request'')
       (from_cosign_requests X (with_inputs request (stored_vtxos d (package_request_inputs request))))) (cp_spend_info X)"

lemma get_vtxos_by_id_Ok: "get_vtxos_by_id ids d = (Ok rows, d') \<Longrightarrow> map vs_vtxo rows = stored_vtxos d ids \<and> d' = d"
  by (auto simp: get_vtxos_by_id_def stored_vtxos_def run_abind run_basic aget_def split: if_splits)

lemma not_exited_Ok: "check_vtxos_not_exited env ids s = (Ok u, t) \<Longrightarrow> same_tables s t"
  by (rule run_wp [OF wp_same_tables [OF stays_check_vtxos_not_exited]])

lemma take_lock_db: "(take_lock ids :: (server, 'e, _) action) s = (Ok r, t) \<Longrightarrow> sv_db t = sv_db s"
  by (auto simp: take_lock_def Let_def split: prod.splits)

lemma run_transaction: "transaction q d = (Ok x, d') \<longleftrightarrow> q d = (Ok x, d')"
  by (auto simp: transaction_def split: prod.splits sum.splits)

lemma store_package_Ok:
  assumes ok: "db_ok d" and run: "store_package X b d = (Ok (), d')"
  obtains spends where "(cp_spend_info X b :: (string, _) outcome) = Ok spends" "\<forall>(i, txid) \<in> set spends. oor_spent_by d' i txid" "db_step d d'"
proof -
  obtain vs spends d1 where spends: "(cp_spend_info X b :: (string, _) outcome) = Ok spends"
    and 1: "upsert_vtxos vs d = (Ok (), d1)" and 2: "mark_package_spent spends d1 = (Ok (), d')"
    using run by (auto simp: store_package_def upsert_vtxos_and_mark_spends_def run_abind run_basic run_transaction)
  have s1: "db_step d d1" using run_wp [OF query_later [OF ok stays_upsert_vtxos upsert_vtxos_run] 1] by blast
  then have ok1: "db_ok d1" by (simp add: db_step_def)
  have "(\<forall>(i, txid) \<in> set spends. oor_spent_by d' i txid) \<and> db_step d1 d'"
    by (rule run_wp [OF query_later [OF ok1 stays_mark_package_spent mark_package_spent_run [OF ok1]] 2])
  then show ?thesis using that spends s1 db_later_trans [of d d1 d'] by (auto simp: db_step_def)
qed

lemma store_arkoors_Ok:
  assumes ok: "db_ok d" and run: "store_arkoors X b d = (Ok None, d')"
  obtains spends where "(package_spends X b :: (string, _) outcome) = Ok spends" "\<forall>(i, txid) \<in> set spends. oor_spent_by d' i txid" "db_step d d'"
proof -
  obtain vs spends where spends: "(package_spends X b :: (string, _) outcome) = Ok spends"
    and set: "check_set_vtxo_oor_spent_package spends vs d = (Ok None, d')"
    using run by (auto simp: store_arkoors_def run_abind run_basic)
  have step: "db_step d d'" using stays_snd [OF stays_check_set db_step_self [OF ok], of spends vs] set by simp
  obtain d1 where 1: "mark_oor_spent spends d = (Ok None, d1)" and 2: "upsert_vtxos vs d1 = (Ok (), d')"
    using set by (auto simp: check_set_vtxo_oor_spent_package_def run_abind run_basic split: prod.splits sum.splits option.splits)
  have m: "(\<forall>(i, txid) \<in> set spends. spendable_in d i \<and> oor_spent_by d1 i txid) \<and> db_step d d1"
    using run_wp [OF query_later [OF ok stays_mark_oor_spent mark_oor_spent_run [OF ok]] 1] by simp
  then have ok1: "db_ok d1" by (simp add: db_step_def)
  have "db_step d1 d'" using run_wp [OF query_later [OF ok1 stays_upsert_vtxos upsert_vtxos_run] 2] by blast
  then have "\<forall>(i, txid) \<in> set spends. oor_spent_by d' i txid" using m db_later_keeps(1) [of d1 d'] unfolding db_step_def by fast
  then show ?thesis using that spends step by blast
qed

text \<open>A signature that is returned is for spends that the database has recorded.\<close>

definition recorded :: "database \<Rightarrow> (VtxoId \<times> Txid) list \<Rightarrow> database \<Rightarrow> bool" where
  "recorded d spends d' \<longleftrightarrow> (\<forall>(i, txid) \<in> set spends. oor_spent_by d' i txid) \<and> db_step d d'"

lemma sign_package_Ok:
  assumes ok: "db_ok (sv_db s)" and run: "sign_package X env rnd request s = (Ok resp, t)"
  obtains spends where "and_then (map_err (\<lambda>_. ''Invalid arkoor request'') (from_cosign_requests X request)) (cp_spend_info X) = Ok spends"
    "recorded (sv_db s) spends (sv_db t)"
proof -
  obtain b d where b: "map_err (\<lambda>_. ''Invalid arkoor request'') (from_cosign_requests X request) = Ok b"
    and d: "store_package X b (sv_db s) = (Ok (), d)" "sv_db t = d"
    using run by (auto simp: sign_package_def run_abind run_basic run_on_db)
  from store_package_Ok [OF ok d(1)] show ?thesis using that b d(2) unfolding recorded_def by auto
qed

lemma cosign_oor_Ok:
  assumes ok: "db_ok (sv_db s)" and run: "cosign_oor X env rnd request s = (Ok resp, t)"
  obtains spends where "request_spends X (sv_db s) request = Ok spends" "recorded (sv_db s) spends (sv_db t)"
proof -
  let ?ids = "package_request_inputs request"
  obtain rows s1 s2 s3 guard where 1: "on_db env (get_vtxos_by_id ?ids) s = (Ok rows, s1)"
    and 2: "check_vtxos_not_exited env ?ids s1 = (Ok (), s2)" and 3: "(take_lock ?ids :: (server, string, _) action) s2 = (Ok guard, s3)"
    and 4: "(case guard of Inr lock \<Rightarrow> holding lock | Inl _ \<Rightarrow> (\<lambda>m. m)) (sign_package X env rnd (with_inputs request (map vs_vtxo rows))) s3 = (Ok resp, t)"
    using run by (auto simp: cosign_oor_def run_abind run_basic Let_def)
  have vs: "map vs_vtxo rows = stored_vtxos (sv_db s) ?ids" "sv_db s1 = sv_db s" using 1 by (auto simp: run_on_db dest: get_vtxos_by_id_Ok)
  then have db: "sv_db s3 = sv_db s" using not_exited_Ok [OF 2] take_lock_db [OF 3] by (simp add: same_tables_def)
  obtain u where "sign_package X env rnd (with_inputs request (stored_vtxos (sv_db s) ?ids)) s3 = (Ok resp, u)" "sv_db t = sv_db u"
    using 4 by (auto simp: vs(1) run_holding split: sum.splits)
  then show ?thesis using sign_package_Ok [of s3] that ok db by (metis request_spends_def)
qed

lemma with_builder_Ok:
  assumes ok: "db_ok (sv_db s)" and run: "cosign_oor_package_with_builder X env rnd b s = (Ok resp, t)"
  obtains spends where "(package_spends X b :: (string, _) outcome) = Ok spends" "recorded (sv_db s) spends (sv_db t)"
proof -
  obtain r s1 where 1: "(take_lock (map vtxo_id (package_inputs b)) :: (server, string, _) action) s = (Ok r, s1)"
    and rest: "(case r of Inl i \<Rightarrow> athrow ''attempted to sign arkoor tx for vtxo already in flux'' | Inr lock \<Rightarrow> holding lock (
         abind (on_db env (store_arkoors X b)) (\<lambda>dup. case dup of
           Some i \<Rightarrow> athrow ''attempted to sign arkoor tx for already spent vtxo''
         | None \<Rightarrow> abind (alift (package_new_vtxos X b)) (\<lambda>_. alift (package_server_cosign X rnd b (en_server_key env)))))) s1 = (Ok resp, t)"
    using run by (auto simp: cosign_oor_package_with_builder_def run_abind)
  obtain lock where "r = Inr lock" using rest by (cases r) (simp_all add: run_basic)
  then obtain d where 2: "store_arkoors X b (sv_db s1) = (Ok None, d)" "sv_db t = d"
    using rest by (auto simp: run_holding run_abind run_basic run_on_db split: option.splits)
  have "sv_db s1 = sv_db s" by (rule take_lock_db [OF 1])
  with store_arkoors_Ok [of "sv_db s1" X b d] show ?thesis using that ok 2 unfolding recorded_def by auto
qed

text \<open>The ways in which the server cosigns spends out of round, with the spends.\<close>

inductive server_cosigns :: "externals \<Rightarrow> server_env \<Rightarrow> server \<Rightarrow> (VtxoId \<times> Txid) list \<Rightarrow> server \<Rightarrow> bool" for X env where
  checkpointed: "cosign_oor X env rnd request s = (Ok resp, t) \<Longrightarrow> request_spends X (sv_db s) request = Ok spends \<Longrightarrow>
    server_cosigns X env s spends t"
| plain: "cosign_oor_package_with_builder X env rnd' b s = (Ok resp', t) \<Longrightarrow> (package_spends X b :: (string, _) outcome) = Ok spends \<Longrightarrow>
    server_cosigns X env s spends t"

lemma server_cosigns_recorded:
  assumes "server_cosigns X env s spends t" "db_ok (sv_db s)"
  shows "recorded (sv_db s) spends (sv_db t)"
  using assms
proof (induction rule: server_cosigns.induct)
  case (checkpointed rnd request s resp t spends)
  from cosign_oor_Ok [OF checkpointed(3,1)] checkpointed(2) show ?case by auto
next
  case (plain rnd b s resp t spends)
  from with_builder_Ok [OF plain(3,1)] plain(2) show ?case by auto
qed

text \<open>\<open>cosign_oor_package\<close> signs by the second way, on the database that it was called with.\<close>

lemma cosign_oor_package_cosigns:
  assumes "cosign_oor_package X env rnd args s = (Ok resp, t)"
  obtains b u where "cosign_oor_package_with_builder X env rnd b u = (Ok resp, t)" "sv_db u = sv_db s"
    "map vtxo_id (package_inputs b) = map vtxo_id (stored_vtxos (sv_db s) (map fst args))"
proof -
  obtain rows s1 s2 arkoors b where 1: "on_db env (get_vtxos_by_id (map fst args)) s = (Ok rows, s1)"
    and as: "collect_results (map2 (\<lambda>(_, user_nonce, outputs) vtxo.
         map_err (\<lambda>_. ''invalid arkoor'') (ArkoorBuilder_new vtxo user_nonce outputs)) args (map vs_vtxo rows)) = Ok arkoors"
    and 2: "check_vtxos_not_exited env (map (vtxo_id \<circ> vs_vtxo) rows) s1 = (Ok (), s2)"
    and b: "from_arkoors X arkoors = Ok b" and 3: "cosign_oor_package_with_builder X env rnd b s2 = (Ok resp, t)"
    using assms by (auto simp: cosign_oor_package_def run_abind run_basic Let_def)
  have vs: "map vs_vtxo rows = stored_vtxos (sv_db s) (map fst args)" "sv_db s1 = sv_db s" using 1 by (auto simp: run_on_db dest: get_vtxos_by_id_Ok)
  have len: "length args = length rows" using arg_cong [OF vs(1), of length] by (simp add: stored_vtxos_def)
  have "ab_input (arkoors ! k) = vs_vtxo (rows ! k)" if k: "k < length rows" for k
  proof (cases "args ! k")
    case (fields i user_nonce outputs)
    then have "(ArkoorBuilder_new (vs_vtxo (rows ! k)) user_nonce outputs) = Ok (arkoors ! k)"
      using as k len unfolding collect_results_map_eq by (auto dest!: spec [of _ k])
    then show ?thesis by (simp add: ArkoorBuilder_new_Ok)
  qed
  then have "map ab_input arkoors = map vs_vtxo rows"
    using as len by (auto simp: collect_results_map_eq list_eq_iff_nth_eq)
  moreover have "ap_arkoors b = arkoors" using b by (auto simp: from_arkoors_def and_then_eq_Inr)
  ultimately have "package_inputs b = stored_vtxos (sv_db s) (map fst args)" using vs(1) by (simp add: package_inputs_def)
  then show ?thesis using that [OF 3] not_exited_Ok [OF 2] vs(2) by (simp add: same_tables_def)
qed

section \<open>Requests that are answered\<close>

lemma mark_package_spent_total:
  "distinct (map fst spends) \<Longrightarrow> \<forall>(i, txid) \<in> set spends. spendable_in d i \<or> oor_spent_by d i txid \<Longrightarrow>
   \<exists>d'. mark_package_spent spends d = (Ok (), d')"
proof (induction spends arbitrary: d rule: mark_package_spent.induct)
  case (2 i txid rest)
  show ?case
  proof (cases "spendable_in d i")
    case True
    then obtain r where r: "db_vtxo d i = Some r" "is_spendable r" by (auto simp: spendable_in_def)
    let ?d = "d\<lparr>db_vtxo := (db_vtxo d)(i \<mapsto> r\<lparr>vs_oor_spent_txid := Some txid\<rparr>)\<rparr>"
    have "spendable_in ?d j \<or> oor_spent_by ?d j x" if j: "(j, x) \<in> set rest" for j x
    proof -
      have "j \<noteq> i" using j 2(2) by force
      then show ?thesis using bspec [OF 2(3), of "(j, x)"] j by (simp add: spendable_in_def oor_spent_by_def)
    qed
    then have "\<exists>d'. mark_package_spent rest ?d = (Ok (), d')" using 2(2) by (intro 2(1)) auto
    then show ?thesis using r by (simp add: update_spendable_def abind_def aget_def amodify_def areturn_def)
  next
    case False
    then obtain r where r: "db_vtxo d i = Some r" "\<not> is_spendable r" "vs_oor_spent_txid r = Some txid"
      using 2(3) by (auto simp: oor_spent_by_def is_spendable_def)
    have "\<exists>d'. mark_package_spent rest d = (Ok (), d')" by (rule 2(1)) (use 2(2,3) in auto)
    then show ?thesis using r by (simp add: update_spendable_def abind_def aget_def areturn_def)
  qed
qed (simp add: areturn_def)

lemma upsert_vtxos_rows:
  "upsert_vtxos vs d = (Ok (), d1) \<Longrightarrow>
   db_vtxo d1 i = (case db_vtxo d i of Some r \<Rightarrow> Some r
     | None \<Rightarrow> map_option (\<lambda>v. \<lparr>vs_vtxo = v, vs_oor_spent_txid = None, vs_forfeit_state = None\<rparr>) (List.find (\<lambda>v. vtxo_id v = i) vs))"
  by (induction vs arbitrary: d) (auto simp: run_abind run_basic amodify_def split: option.splits if_splits)

text \<open>The spends of a request are those of stored, unspent VTXOs, of VTXOs that the request creates, or a repetition.\<close>

lemma store_package_runs:
  assumes outs: "(cp_build_unsigned_vtxos X b :: (string, _) outcome) = Ok outs"
    and cps: "(cp_build_unsigned_checkpoint_vtxos X b :: (string, _) outcome) = Ok cps"
    and spends: "(cp_spend_info X b :: (string, _) outcome) = Ok spends" "distinct (map fst spends)"
    and new: "\<forall>(i, txid) \<in> set spends. spendable_in d i \<or> oor_spent_by d i txid \<or> db_vtxo d i = None \<and> i \<in> vtxo_id ` set (outs @ cps)"
  shows "\<exists>d'. store_package X b d = (Ok (), d')"
proof -
  obtain d1 where 1: "upsert_vtxos (outs @ cps) d = (Ok (), d1)"
    using upsert_vtxos_run [of "outs @ cps" d] by (cases "upsert_vtxos (outs @ cps) d") (auto simp: wp_def split: sum.splits)
  have "spendable_in d1 i \<or> oor_spent_by d1 i txid" if "(i, txid) \<in> set spends" for i txid
  proof (cases "db_vtxo d i")
    case None
    then have "i \<in> vtxo_id ` set (outs @ cps)" using new that by (auto simp: spendable_in_def oor_spent_by_def)
    then have "List.find (\<lambda>v. vtxo_id v = i) (outs @ cps) \<noteq> None" by (auto simp: find_None_iff)
    then show ?thesis using upsert_vtxos_rows [OF 1, of i] None by (auto simp: spendable_in_def is_spendable_def)
  next
    case (Some r)
    then show ?thesis using upsert_vtxos_rows [OF 1, of i] new that by (auto simp: spendable_in_def oor_spent_by_def)
  qed
  then obtain d' where "mark_package_spent spends d1 = (Ok (), d')" using mark_package_spent_total [OF spends(2), of d1] by auto
  with 1 outs cps spends(1) show ?thesis
    by (simp add: store_package_def upsert_vtxos_and_mark_spends_def abind_def alift_def transaction_def)
qed

definition undisturbed :: "world \<Rightarrow> bool" where
  "undisturbed w \<longleftrightarrow> (\<forall>t. we_db_error w t = None) \<and> (\<forall>t txid. we_tx_status w t txid = Inr TxNotFound)"

lemma not_exited_runs: "undisturbed (en_world env) \<Longrightarrow> \<exists>c. check_vtxos_not_exited env ids s = (Ok (), s\<lparr>sv_calls := c\<rparr>)"
proof (induction ids arbitrary: s)
  case Nil
  have "s = s\<lparr>sv_calls := sv_calls s\<rparr>" by simp
  then show ?case unfolding check_vtxos_not_exited.simps areturn_def by blast
next
  case (Cons i ids)
  then show ?case using Cons.IH [of "s\<lparr>sv_calls := Suc (sv_calls s)\<rparr>"]
    by (simp add: undisturbed_def abind_def ask_def alift_def from_result_def)
qed

lemma cosign_oor_runs:
  assumes world: "undisturbed (en_world env)"
    and ids: "package_request_inputs request = ids" "distinct ids" "\<forall>i \<in> set ids. db_vtxo (sv_db s) i \<noteq> None"
    and vs: "stored_vtxos (sv_db s) ids = vs" "check_arkoor_inputs vs = Ok ()"
    and b: "from_cosign_requests X (with_inputs request vs) = Ok b" and store: "\<exists>d. store_package X b (sv_db s) = (Ok (), d)"
    and sign: "cp_server_cosign X rnd b (en_server_key env) = Ok b'" "(cp_cosign_response b' :: (string, _) outcome) = Ok resp"
  shows "\<exists>t. cosign_oor X env rnd request s = (Ok resp, t)"
proof -
  have err: "we_db_error (en_world env) t = None" for t using world by (simp add: undisturbed_def)
  have "filter (\<lambda>i. db_vtxo (sv_db s) i \<noteq> None) ids = ids" using ids(3) by (auto simp: filter_id_conv)
  then have rows: "get_vtxos_by_id ids (sv_db s) = (Ok (map (\<lambda>i. the (db_vtxo (sv_db s) i)) ids), sv_db s)"
    using ids(2) by (simp add: get_vtxos_by_id_def abind_def aget_def areturn_def distinct_remdups_id)
  let ?s1 = "s\<lparr>sv_calls := Suc (sv_calls s)\<rparr>"
  obtain c where c: "check_vtxos_not_exited env ids ?s1 = (Ok (), ?s1\<lparr>sv_calls := c\<rparr>)" using not_exited_runs [OF world] by blast
  obtain guard s3 where guard: "(take_lock ids :: (server, string, _) action) (?s1\<lparr>sv_calls := c\<rparr>) = (Ok guard, s3)"
    by (cases "flux_lock ids (sv_flux s)") (simp add: take_lock_def Let_def)
  have db: "sv_db s3 = sv_db s" using take_lock_db [OF guard] by simp
  have "\<exists>u. sign_package X env rnd (with_inputs request vs) s3 = (Ok resp, u)"
    using b store sign err db by (auto simp: sign_package_def abind_def alift_def on_db_def ask_def with_db_def Let_def)
  then have "\<exists>u. (case guard of Inr lock \<Rightarrow> holding lock | Inl _ \<Rightarrow> (\<lambda>m. m)) (sign_package X env rnd (with_inputs request vs)) s3 = (Ok resp, u)"
    by (cases guard) (auto simp: holding_def Let_def)
  then show ?thesis
    using rows c guard err vs ids(1)
    by (simp add: cosign_oor_def Let_def abind_def alift_def on_db_def ask_def with_db_def stored_vtxos_def comp_def)
qed

text \<open>A payment of 400 satoshis with 600 satoshis of change, requested twice.\<close>

definition demo_oor :: "VtxoId PackageCosignRequest" where
  "demo_oor = \<lparr>pq_requests = [\<lparr>cq_user_pub_nonces = [[1], [2], [3]], cq_input = vtxo_id demo_served,
     cq_outputs = [demo_pay 400, demo_pay 600]\<rparr>]\<rparr>"

definition demo_oor_server :: server where
  "demo_oor_server = \<lparr>sv_flux = \<lparr>fx_vtxos = {}\<rparr>, sv_db = \<lparr>db_vtxo = [vtxo_id demo_served \<mapsto>
     \<lparr>vs_vtxo = demo_served, vs_oor_spent_txid = None, vs_forfeit_state = None\<rparr>], db_round = [], db_board = Map.empty\<rparr>,
     sv_events = [], sv_calls = 0\<rparr>"

definition demo_oor_builder :: CheckpointedPackageBuilder where
  "demo_oor_builder = \<lparr>cp_builders = [(checkpoint_initial demo_ext demo_served [demo_pay 400, demo_pay 600])
     \<lparr>cb_user_pub_nonces := Some [[1], [2], [3]], cb_state := ServerMayCosign\<rparr>]\<rparr>"

lemma demo_oor_facts:
  "undisturbed (en_world demo_server_env)" "package_request_inputs demo_oor = [vtxo_id demo_served]"
  "check_arkoor_inputs [demo_served] = Ok ()" "from_cosign_requests demo_ext (with_inputs demo_oor [demo_served]) = Ok demo_oor_builder"
proof -
  have "CheckpointedArkoorBuilder_new demo_ext demo_served [demo_pay 400, demo_pay 600] =
      Ok (checkpoint_initial demo_ext demo_served [demo_pay 400, demo_pay 600])"
    by (simp add: CheckpointedArkoorBuilder_new_Ok checkpoint_balanced_def checkpoint_heights_ok_def demo_served_def
      P2TR_DUST_def u64_limit_def locktime_ok_def)
  then show "from_cosign_requests demo_ext (with_inputs demo_oor [demo_served]) = Ok demo_oor_builder"
    by (simp add: from_cosign_requests_def with_inputs_def demo_oor_def from_cosign_request_def set_user_pub_nonces_def nb_sigs_def
      demo_oor_builder_def) (simp add: checkpoint_initial_def)
qed (simp_all add: undisturbed_def demo_server_env_def demo_world_def package_request_inputs_def demo_oor_def demo_served_def)

lemma demo_txid: "ext_txid demo_ext tx = replicate 32 (word_of_nat (length (tx_output tx)))"
  by (simp add: demo_ext_def)

lemma demo_oor_txids:
  "ext_txid demo_ext (checkpoint_tx demo_ext demo_served [demo_pay 400, demo_pay 600]) = replicate 32 3"
  "ext_txid demo_ext (checkpointed_arkoor_tx demo_ext demo_served [demo_pay 400, demo_pay 600] i) = replicate 32 2"
  by (simp_all add: demo_txid checkpoint_tx_def checkpointed_arkoor_tx_def checkpoint_outs_def)

definition demo_oor_spends :: "(VtxoId \<times> Txid) list" where
  "demo_oor_spends = [(vtxo_id demo_served, replicate 32 3),
     (vtxo_id_of_point \<lparr>op_txid = replicate 32 3, op_vout = 0\<rparr>, replicate 32 2),
     (vtxo_id_of_point \<lparr>op_txid = replicate 32 3, op_vout = 1\<rparr>, replicate 32 2)]"

lemma demo_oor_builder_runs:
  "(cp_spend_info demo_ext demo_oor_builder :: ('e, _) outcome) = Ok demo_oor_spends" "distinct (map fst demo_oor_spends)"
  "\<exists>outs. (cp_build_unsigned_vtxos demo_ext demo_oor_builder :: ('e, _) outcome) = Ok outs"
  "\<exists>cps. (cp_build_unsigned_checkpoint_vtxos demo_ext demo_oor_builder :: ('e, _) outcome) = Ok cps \<and>
     map vtxo_id cps = tl (map fst demo_oor_spends)"
  "\<exists>b resp. cp_server_cosign demo_ext rnd demo_oor_builder (replicate 32 3) = Ok b \<and> (cp_cosign_response b :: ('e, _) outcome) = Ok resp"
proof -
  show "(cp_spend_info demo_ext demo_oor_builder :: ('e, _) outcome) = Ok demo_oor_spends"
    by (simp add: demo_oor_spends_def cp_spend_info_def demo_oor_builder_def spend_info_def nb_outputs_def checkpoint_initial_def
      demo_oor_txids numeral_2_eq_2)
  show "distinct (map fst demo_oor_spends)"
    by (simp add: demo_oor_spends_def vtxo_id_def vtxo_id_of_point_def demo_served_def le_bytes_def)
  show "\<exists>outs. (cp_build_unsigned_vtxos demo_ext demo_oor_builder :: ('e, _) outcome) = Ok outs"
    by (simp add: cp_build_unsigned_vtxos_def demo_oor_builder_def build_unsigned_vtxos_def nb_outputs_def vtxo_at_def checkpoint_initial_def
      numeral_2_eq_2)
  show "\<exists>cps. (cp_build_unsigned_checkpoint_vtxos demo_ext demo_oor_builder :: ('e, _) outcome) = Ok cps \<and>
     map vtxo_id cps = tl (map fst demo_oor_spends)"
    by (simp add: cp_build_unsigned_checkpoint_vtxos_def demo_oor_builder_def build_unsigned_checkpoint_vtxos_def nb_outputs_def
      checkpoint_vtxo_at_def checkpoint_initial_def numeral_2_eq_2 demo_oor_spends_def vtxo_id_def demo_oor_txids)
  show "\<exists>b resp. cp_server_cosign demo_ext rnd demo_oor_builder (replicate 32 3) = Ok b \<and> (cp_cosign_response b :: ('e, _) outcome) = Ok resp"
    by (simp add: cp_server_cosign_def demo_oor_builder_def checkpoint_server_cosign_def nb_sigs_def checkpoint_initial_def numeral_3_eq_3
      cp_cosign_response_def checkpoint_cosign_response_def demo_served_def demo_public_key)
qed

lemma demo_oor_signed:
  assumes row: "db_vtxo (sv_db s) (vtxo_id demo_served) = Some r" "vs_vtxo r = demo_served"
    and new: "\<forall>(i, txid) \<in> set demo_oor_spends. oor_spent_by (sv_db s) i txid \<or> spendable_in (sv_db s) i \<or>
      db_vtxo (sv_db s) i = None \<and> i \<in> set (tl (map fst demo_oor_spends))"
  shows "\<exists>t. server_cosigns demo_ext demo_server_env s demo_oor_spends t"
proof -
  have vs: "stored_vtxos (sv_db s) [vtxo_id demo_served] = [demo_served]" using row by (simp add: stored_vtxos_def)
  obtain outs cps where built: "(cp_build_unsigned_vtxos demo_ext demo_oor_builder :: (string, _) outcome) = Ok outs"
    "(cp_build_unsigned_checkpoint_vtxos demo_ext demo_oor_builder :: (string, _) outcome) = Ok cps"
    "map vtxo_id cps = tl (map fst demo_oor_spends)"
    using demo_oor_builder_runs(3,4) by blast
  have "i \<in> vtxo_id ` set (outs @ cps)" if "i \<in> set (tl (map fst demo_oor_spends))" for i
    using that arg_cong [OF built(3), of set] by auto
  then have store: "\<exists>d. store_package demo_ext demo_oor_builder (sv_db s) = (Ok (), d)"
    using store_package_runs [OF built(1,2) demo_oor_builder_runs(1,2), of "sv_db s"] new by fast
  obtain b resp where sign: "cp_server_cosign demo_ext (\<lambda>_ _. 0) demo_oor_builder (en_server_key demo_server_env) = Ok b"
    "(cp_cosign_response b :: (string, _) outcome) = Ok resp"
    using demo_oor_builder_runs(5) by (metis demo_server_env_def server_env.select_convs(2))
  have "\<exists>t. cosign_oor demo_ext demo_server_env (\<lambda>_ _. 0) demo_oor s = (Ok resp, t)"
    by (rule cosign_oor_runs [OF demo_oor_facts(1,2) _ _ vs demo_oor_facts(3,4) store sign]) (use row in simp_all)
  moreover have "request_spends demo_ext (sv_db s) demo_oor = Ok demo_oor_spends"
    by (simp add: request_spends_def demo_oor_facts(2,4) vs demo_oor_builder_runs(1))
  ultimately show ?thesis using server_cosigns.checkpointed by blast
qed

section \<open>Properties\<close>



end
