(* ===== verification/Spec2Isabelle.thy ===== *)
theory Spec2Isabelle
  imports Ark_Validation Ark_Board Ark_Checkpoint_Package Ark_Forfeit Ark_Exits Ark_Round_Live Ark_Server_Cosign
begin

text \<open>
  A verification development for bark, an implementation of the Ark protocol: users hold virtual
  outputs (VTXOs), chains of presigned transactions that lead from an output on the Bitcoin chain
  to an output of their own. The development models the protocol library \<open>lib/src\<close> with the parts of
  \<open>bitcoin-ext/src\<close> that it uses, the unilateral exits of the wallet \<open>bark/src\<close>, and the rounds and payments of
  the server \<open>server/src\<close> with the tables they work on.

  \<^bold>\<open>The parts and how they interact.\<close> A user gets a VTXO by boarding (\<open>board.rs\<close>), as a leaf of the
  transaction tree of a round (\<open>tree/mod.rs\<close>, \<open>tree/signed.rs\<close>), or by an out-of-round payment
  (\<open>arkoor/\<close>), plain or with a checkpoint. In all three, user and server cosign transactions with
  MuSig (\<open>musig.rs\<close>): the user sends a public nonce, the server answers with its nonce and a partial
  signature, the user verifies and completes it. The result is a \<open>Vtxo\<close> (\<open>vtxo/mod.rs\<close>), whose genesis
  lists the transitions from the chain anchor to the VTXO's output; whoever receives one runs the
  validator (\<open>vtxo/validation.rs\<close>), and whoever wants to leave broadcasts the transactions of its
  iterator. Forfeits (\<open>forfeit.rs\<close>), optionally tied to a round by a connector chain
  (\<open>connectors.rs\<close>), give a VTXO up. Policies (\<open>vtxo/policy/\<close>) say who can spend an output, and every
  object has a wire format (\<open>encode.rs\<close>).

  On the server a round collects payments, each a set of VTXOs to give up with proofs of ownership and a set of VTXOs
  and on-chain outputs to get, builds the tree and the round transaction, collects partial signatures for the tree
  and then forfeit signatures for the inputs, publishes the transaction and stores the result. While it works on a
  VTXO, a lock in the table of VTXOs in flux keeps other operations away; the database records for every VTXO at
  most one spend or forfeit.

  \<^bold>\<open>Theories and sources.\<close>
  \<^item> \<open>Ark_Prelude\<close>: results with errors and panics, decoders, the locales \<open>codec\<close> and
    \<open>canonical_codec\<close>, generic lemmas on lists.
  \<^item> \<open>Ark_Encode\<close>: \<open>encode.rs\<close>; the codecs are interpretations of the two locales.
  \<^item> \<open>Ark_Bitcoin\<close>: transactions, tapscripts (module \<open>scripts\<close> of \<open>lib.rs\<close>), \<open>musig.rs\<close>, \<open>bitcoin-ext\<close>,
    and the interface to the code outside the repository.
  \<^item> \<open>Ark_Policy\<close>: \<open>vtxo/policy/mod.rs\<close>, \<open>vtxo/policy/clause.rs\<close> and the taproots of \<open>lightning.rs\<close>.
  \<^item> \<open>Ark_Vtxo\<close>: \<open>vtxo/mod.rs\<close>; \<open>Ark_Validation\<close>: \<open>vtxo/validation.rs\<close>.
  \<^item> \<open>Ark_Tree\<close>: the radix-4 tree of \<open>tree/mod.rs\<close>; \<open>Ark_Signed_Tree\<close>: \<open>tree/signed.rs\<close>.
  \<^item> \<open>Ark_Board\<close>: \<open>board.rs\<close>.
  \<^item> \<open>Ark_Spend\<close>: no code of its own, but what all payments share: a spend appends one genesis item to
    a VTXO, and the locales \<open>cosign_user\<close> and \<open>cosign_flow\<close> state the contract between the two
    parties of a payment.
  \<^item> \<open>Ark_Arkoor\<close>: \<open>arkoor/mod.rs\<close> and \<open>arkoor/package.rs\<close>; \<open>Ark_Checkpoint\<close>:
    \<open>arkoor/checkpoint.rs\<close>; \<open>Ark_Checkpoint_Package\<close>: \<open>arkoor/checkpointed_package.rs\<close>. The first two
    interpret the locales of \<open>Ark_Spend\<close>.
  \<^item> \<open>Ark_Connectors\<close>: \<open>connectors.rs\<close>; \<open>Ark_Forfeit\<close>: \<open>forfeit.rs\<close>.
  \<^item> \<open>Ark_Action\<close>: no code of its own; actions on a state that may fail or panic, their weakest
    preconditions as rewrite rules, and what it means that an action keeps an invariant.
  \<^item> \<open>Ark_Exit_Manager\<close>: the data of \<open>bark/src/exit/models\<close> and \<open>bark/src/exit/transaction_manager.rs\<close>;
    \<open>Ark_Exit\<close>: the state machine of \<open>bark/src/exit/progress\<close> and its driver in \<open>bark/src/exit/vtxo.rs\<close>;
    \<open>Ark_Exit_Run\<close>: no code of its own, the proof that the driver ends; \<open>Ark_Exits\<close>: the exits of a
    wallet, \<open>bark/src/exit/mod.rs\<close> and \<open>bark/src/psbtext.rs\<close>.
  \<^item> \<open>Ark_Tree_Cosign\<close>: no code of its own; verified partial signatures of all leaves and the server's own
    combine to a fully signed tree.
  \<^item> \<open>Ark_Flux\<close>: \<open>server/src/flux.rs\<close>, with the contract of the table as the locale \<open>flux_table\<close>;
    \<open>Ark_Challenges\<close>: \<open>challenges.rs\<close> and the offboard requests of \<open>lib.rs\<close>; \<open>Ark_Server_Db\<close>: the queries of
    \<open>server/src/database\<close> on VTXOs and rounds; \<open>Ark_Server\<close>: the state that handlers share and the world around it.
  \<^item> \<open>Ark_Round_Payments\<close>: \<open>CollectingPayments\<close> of \<open>server/src/round/mod.rs\<close>; \<open>Ark_Round\<close>: the other states of a round
    and \<open>perform_round\<close>; \<open>Ark_Round_Fair\<close> and \<open>Ark_Round_Live\<close>: no code of their own, the invariant of a
    round with what it has done when it finishes, and its progress.
  \<^item> \<open>Ark_Server_Cosign\<close>: \<open>server/src/arkoor.rs\<close> and the handlers of \<open>server/src/lib.rs\<close> for boards and payments.

  Definitions have the names of the Rust items; a prefix (\<open>board_\<close>, \<open>package_\<close>, \<open>cp_\<close>) tells methods of
  the same name apart. Structs are records, whose fields carry a short prefix, enums are
  datatypes. A type-state builder is one record with its state as a field, its API a step relation,
  and the \<open>expect("state invariant")\<close> calls are panics of the model that the invariant excludes.

  \<^bold>\<open>What is shown.\<close>
  \<^item> Correctness of the validator: it accepts exactly the VTXOs that meet a declarative specification,
    and the exit transactions of an accepted VTXO exist, are signed, form a chain from the anchor
    and pass its whole value on.
  \<^item> Every way to get a VTXO gives one that the validator accepts: boards, the leaves of a signed
    tree, plain and checkpointed payments and packages of them, with the requested policies and
    amounts. The hypotheses are that the input was valid and the server's answer was accepted.
  \<^item> Progress: what an honest server answers is accepted, and no builder that the API can produce
    runs into one of its panics.
  \<^item> Forfeits: the server accepts an honest user's bundle, and with an accepted bundle and the
    preimage it can spend the VTXO. Connector chains are complete, linked and lose no value.
  \<^item> The radix tree: its shape, parents, siblings and branches.
  \<^item> Accounting of packages: what recipients, change and nobody get; errors for bad inputs.
  \<^item> Wire formats: round trips, and for most formats that nothing but an encoding is accepted.
  \<^item> Unilateral exits: the driver follows the state machine and never panics, ends within its iterations,
    waits for the exit delta; over any sequence of operations of the wallet no exit is lost; draining
    spends exactly the claimable outputs with mature, signed inputs.
  \<^item> The server's tables: locks are exclusive over any history, and a spend or forfeit is recorded at most once and
    forever; the server never returns signatures for two different spends of a VTXO. Ownership proofs cover exactly one
    registration.
  \<^item> Rounds: an invariant of the coordinator that holds under any messages, timeouts and interference by other handlers; a
    round that finishes is fair to users and server (balanced books, valid VTXOs for every requested output, paid offboards,
    verified forfeits for every input); a round that the wallet can fund reaches the next state.
  \<^item> Policies: the clauses are the leaves of the taproot, and an HTLC refund waits longer than an exit.

  \<^bold>\<open>Modelling choices.\<close>
  \<^item> Code outside the repository (hashes, elliptic curves, taproot and consensus encoding, MuSig) is
    the record \<open>externals\<close>, an argument of every definition that uses it. The laws that a property
    needs are hypotheses: \<open>segwit_laws\<close>, \<open>p2tr_laws\<close>, \<open>consensus_laws\<close>, \<open>musig_laws\<close>,
    \<open>musig_untweaked_laws\<close>, \<open>keyspend_laws\<close>, \<open>txid_laws\<close>. The instance \<open>demo_ext\<close> meets them all and is
    what the witnesses compute with. Signatures of the model say nothing about forgeries: unforgeability
    is not a law that functions can have.
  \<^item> Random bytes are arguments. Every nonce that the code draws is an application of the external
    generator to such an argument.
  \<^item> Amounts are natural numbers; where the code adds up amounts that come from the other party, an
    overflow of 64 bits is written out (\<open>sum_amounts\<close>). Block heights and deltas keep their width, and
    where the code multiplies or truncates them the wrap-around is part of the model. Indices into
    trees and lists are natural numbers.
  \<^item> \<open>LockTime::from_height\<close> panics from height 500 000 000 on; every definition that reaches it has
    this panic.
  \<^item> Loops are recursion on the list they run over. The branch iterator of a tree takes the number of
    nodes as fuel, which is enough because parents have larger indices; that it reaches the root is
    a property. The iterators of a connector chain are functions with a termination proof.
  \<^item> Chain source, on-chain wallet and database of an exit are a record of functions on a state of their
    own, the world (\<open>exit_env\<close>, \<open>exits_env\<close>): they may answer every call in any way and change with
    every call. The shared packages of the transaction manager are a list, its weak pointers indices into
    that list, and the order in which a hash table is visited is a function of the environment. A record
    that an operation changes before it fails is returned beside the error.
  \<^item> The driver of an exit runs at most 100 times, as in the code (\<open>MAX_ITERATIONS\<close>); that this is enough
    for up to 16 transactions follows from a potential that falls in every iteration and is at most six
    for each transaction.
  \<^item> The table \<open>vtxo\<close> of the database is a map, the table \<open>round\<close> a list; a transaction that fails leaves no
    trace. The server's handlers act on a record of the tables; the node, the wallet of the rounds, the random generator
    and the connection to the database answer each call in any way (\<open>world\<close>). \<open>perform_round\<close> is the step it takes
    at a message or timeout, and between two steps the tables may change in any way, since other handlers run then.
    Hash maps of a round are association lists with distinct keys.
  \<^item> Debug assertions, logging, telemetry, formatting and serde are not part of the model.

  \<^bold>\<open>Not modelled.\<close> In \<open>lib/src\<close>: the wire format of the signed tree and the builder on top of it
  (\<open>tree/signed.rs\<close>), addresses, mailboxes and round identifiers, weight and
  fee-rate arithmetic. Of the wallet (\<open>bark/src\<close>) and the server (\<open>server/src\<close>), asynchronous services over
  a database, a node and each other, everything but the parts named above. Bindings, generated clients, command line,
  JSON types and the test harness have no logic of the protocol.
\<close>

end
